(* ===== verification/Prelude.thy ===== *)
theory Prelude
  imports Main "HOL-Library.AList"
begin

text \<open>
  Shared vocabulary of the development: the Python exceptions the modelled code raises or
  catches, Python dictionaries as association lists in insertion order, string slices,
  decimal rendering of integers, and ASCII case folding, each with the lemmas the component
  theories use.

  A Python \<open>str\<close> is a \<open>string\<close>, that is a list of code points below 256. Offsets and
  lengths count code points, as in Python. Case folding is defined on the ASCII letters, the
  only letters a placeholder token contains.
\<close>

named_theorems py_simps "rewrite rules of the Python-level helpers"
named_theorems frame_simps "fields an operation leaves unchanged"

subsection \<open>Exceptions\<close>

datatype py_exn =
    KeyError
  | TypeError
  | ValueError
  | IndexError
  | RuntimeError
  | OtherExn string

type_synonym 'a py_result = "py_exn + 'a"

fun bind_result :: "'e + 'a \<Rightarrow> ('a \<Rightarrow> 'e + 'b) \<Rightarrow> 'e + 'b" where
  "bind_result (Inl e) f = Inl e"
| "bind_result (Inr x) f = f x"

lemma bind_result_Inr [py_simps]:
  "bind_result r f = Inr y \<longleftrightarrow> (\<exists>x. r = Inr x \<and> f x = Inr y)"
  by (cases r) auto

subsection \<open>Dictionaries\<close>

text \<open>
  A \<open>dict\<close> is an association list: \<open>AList.update\<close> replaces the value of a present key in
  place and appends a new key at the end, exactly the iteration order Python guarantees.
\<close>

type_synonym ('k, 'v) dict = "('k \<times> 'v) list"

definition dict_get :: "('k, 'v) dict \<Rightarrow> 'k \<Rightarrow> 'v \<Rightarrow> 'v" where
  "dict_get d k dflt = (case map_of d k of None \<Rightarrow> dflt | Some v \<Rightarrow> v)"

definition dict_update :: "('k, 'v) dict \<Rightarrow> ('k, 'v) dict \<Rightarrow> ('k, 'v) dict" where
  "dict_update d e = foldl (\<lambda>acc kv. AList.update (fst kv) (snd kv) acc) d e"

lemma map_of_update [py_simps]:
  "map_of (AList.update k v d) = (map_of d)(k \<mapsto> v)"
  by (rule update_conv')

lemma map_of_dict_update:
  assumes "distinct (map fst e)"
  shows "map_of (dict_update d e) = map_of d ++ map_of e"
  using assms
proof (induction e arbitrary: d)
  case Nil
  then show ?case by (simp add: dict_update_def)
next
  case (Cons kv e)
  obtain k v where kv: "kv = (k, v)" by (cases kv)
  have step: "dict_update d (kv # e) = dict_update (AList.update k v d) e"
    by (simp add: dict_update_def kv)
  from Cons have "map_of (dict_update (AList.update k v d) e) = map_of (AList.update k v d) ++ map_of e"
    by simp
  moreover from Cons.prems kv have "map_of e k = None"
    by (simp add: map_of_eq_None_iff)
  ultimately show ?case
    unfolding step by (auto simp: kv map_of_update map_add_def fun_eq_iff split: option.splits)
qed

lemma fst_set_update [py_simps]:
  "fst ` set (AList.update k v d) = insert k (fst ` set d)"
  by (simp add: dom_update dom_map_of_conv_image_fst[symmetric] map_of_update)

subsection \<open>Slices\<close>

text \<open>\<open>s[i:j]\<close>: negative bounds count from the end, bounds out of range are clamped.\<close>

definition slice_bound :: "nat \<Rightarrow> int \<Rightarrow> nat" where
  "slice_bound n k = (if k < 0 then nat (max 0 (int n + k)) else nat (min (int n) k))"

definition py_slice :: "'a list \<Rightarrow> int \<Rightarrow> int \<Rightarrow> 'a list" where
  "py_slice xs i j =
     (let a = slice_bound (length xs) i; b = slice_bound (length xs) j
      in take (b - a) (drop a xs))"

lemma slice_bound_in_range [py_simps]:
  "0 \<le> k \<Longrightarrow> k \<le> int n \<Longrightarrow> slice_bound n k = nat k"
  by (simp add: slice_bound_def)

lemma py_slice_in_range:
  "0 \<le> i \<Longrightarrow> i \<le> j \<Longrightarrow> j \<le> int (length xs) \<Longrightarrow>
     py_slice xs i j = take (nat j - nat i) (drop (nat i) xs)"
  by (simp add: py_slice_def slice_bound_in_range Let_def)

lemma py_slice_append:
  assumes "0 \<le> i" "i \<le> j" "j \<le> k" "k \<le> int (length xs)"
  shows "py_slice xs i j @ py_slice xs j k = py_slice xs i k"
proof -
  have ij: "py_slice xs i j = take (nat j - nat i) (drop (nat i) xs)"
    using assms by (intro py_slice_in_range) auto
  have jk: "py_slice xs j k = take (nat k - nat j) (drop (nat j) xs)"
    using assms by (intro py_slice_in_range) auto
  have ik: "py_slice xs i k = take (nat k - nat i) (drop (nat i) xs)"
    using assms by (intro py_slice_in_range) auto
  have "nat k - nat i = (nat j - nat i) + (nat k - nat j)"
    using assms by auto
  moreover have "drop (nat j) xs = drop (nat j - nat i) (drop (nat i) xs)"
    using assms by (simp add: nat_mono)
  ultimately show ?thesis
    unfolding ij jk ik by (simp add: take_add)
qed

lemma py_slice_full: "py_slice xs 0 (int (length xs)) = xs"
  by (simp add: py_slice_def slice_bound_def)

lemma py_slice_subset: "set (py_slice xs i j) \<subseteq> set xs"
  unfolding py_slice_def Let_def
  by (meson order_trans set_drop_subset set_take_subset)

subsection \<open>Characters and case folding\<close>

definition is_upper :: "char \<Rightarrow> bool" where
  "is_upper c \<longleftrightarrow> 65 \<le> (of_char c :: nat) \<and> (of_char c :: nat) \<le> 90"

definition is_lower :: "char \<Rightarrow> bool" where
  "is_lower c \<longleftrightarrow> 97 \<le> (of_char c :: nat) \<and> (of_char c :: nat) \<le> 122"

definition is_digit :: "char \<Rightarrow> bool" where
  "is_digit c \<longleftrightarrow> 48 \<le> (of_char c :: nat) \<and> (of_char c :: nat) \<le> 57"

definition lower :: "char \<Rightarrow> char" where
  "lower c = (if is_upper c then char_of ((of_char c :: nat) + 32) else c)"

definition casefold :: "string \<Rightarrow> string" where
  "casefold s = map lower s"

lemma of_char_lt_256: "(of_char c :: nat) < 256"
  by (metis of_char_mod_256 mod_less_divisor zero_less_numeral)

lemma of_char_char_of_small: "n < 256 \<Longrightarrow> (of_char (char_of n) :: nat) = n"
  by simp

lemma of_char_lower:
  "(of_char (lower c) :: nat) = (if is_upper c then of_char c + 32 else of_char c)"
  by (auto simp: lower_def is_upper_def of_char_char_of_small)

lemma lower_idem [simp]: "lower (lower c) = lower c"
proof -
  have "\<not> is_upper (lower c)"
    by (auto simp: is_upper_def of_char_lower)
  then show ?thesis by (simp add: lower_def [of "lower c"])
qed

lemma lower_inj:
  assumes "lower c = lower d" and "\<not> is_lower c" and "\<not> is_lower d"
  shows "c = d"
proof -
  from assms(1) have "(of_char (lower c) :: nat) = of_char (lower d)" by simp
  with assms(2,3) have "(of_char c :: nat) = of_char d"
    by (auto simp: of_char_lower is_lower_def is_upper_def split: if_splits)
  then show ?thesis by simp
qed

lemma casefold_length [simp]: "length (casefold s) = length s"
  by (simp add: casefold_def)

lemma casefold_idem [simp]: "casefold (casefold s) = casefold s"
  by (simp add: casefold_def comp_def)

lemma casefold_append [simp]: "casefold (s @ t) = casefold s @ casefold t"
  by (simp add: casefold_def)

lemma casefold_Cons [simp]: "casefold (c # s) = lower c # casefold s"
  by (simp add: casefold_def)

lemma casefold_Nil [simp]: "casefold [] = []"
  by (simp add: casefold_def)

lemma casefold_take: "casefold (take n s) = take n (casefold s)"
  by (simp add: casefold_def take_map)

lemma casefold_inj:
  "casefold s = casefold t \<Longrightarrow> \<forall>c \<in> set s \<union> set t. \<not> is_lower c \<Longrightarrow> s = t"
proof (induction s arbitrary: t)
  case Nil
  then show ?case by (simp add: casefold_def)
next
  case (Cons c s)
  then obtain d t' where t: "t = d # t'" by (cases t) auto
  with Cons.prems have "lower c = lower d" and "casefold s = casefold t'" by auto
  moreover from Cons.prems t have "\<not> is_lower c" "\<not> is_lower d" by auto
  ultimately show ?case
    using Cons.IH [of t'] Cons.prems(2) t by (auto dest: lower_inj)
qed

lemma lower_eq_nonletter:
  "\<not> is_lower d \<Longrightarrow> \<not> is_upper d \<Longrightarrow> lower c = d \<longleftrightarrow> c = d"
proof
  assume d: "\<not> is_lower d" "\<not> is_upper d" and "lower c = d"
  then have "(of_char (lower c) :: nat) = of_char d" by simp
  with d have "(of_char c :: nat) = of_char d"
    by (auto simp: of_char_lower is_lower_def is_upper_def split: if_splits)
  then show "c = d" by simp
next
  assume "\<not> is_upper d" and "c = d"
  then show "lower c = d" by (simp add: lower_def)
qed

text \<open>
  \<open>str.isspace\<close>, \<open>str.isupper\<close> and \<open>str.isalnum\<close> of one character, on the code
  points below 256, and indexing \<open>s[i]\<close> (negative indices from the end, None for
  \<open>IndexError\<close>).
\<close>

definition is_space :: "char \<Rightarrow> bool" where
  "is_space c = (let n = (of_char c :: nat)
     in (9 \<le> n \<and> n \<le> 13) \<or> (28 \<le> n \<and> n \<le> 32) \<or> n = 133 \<or> n = 160)"

definition py_isupper :: "char \<Rightarrow> bool" where
  "py_isupper c = (let n = (of_char c :: nat)
     in (65 \<le> n \<and> n \<le> 90) \<or> (192 \<le> n \<and> n \<le> 222 \<and> n \<noteq> 215))"

definition py_isalnum :: "char \<Rightarrow> bool" where
  "py_isalnum c = (let n = (of_char c :: nat)
     in (48 \<le> n \<and> n \<le> 57) \<or> (65 \<le> n \<and> n \<le> 90) \<or> (97 \<le> n \<and> n \<le> 122)
        \<or> n = 170 \<or> n = 178 \<or> n = 179 \<or> n = 181 \<or> (185 \<le> n \<and> n \<le> 186)
        \<or> (188 \<le> n \<and> n \<le> 190) \<or> (192 \<le> n \<and> n \<noteq> 215 \<and> n \<noteq> 247))"

definition py_index :: "'a list \<Rightarrow> int \<Rightarrow> 'a option" where
  "py_index xs i =
     (let n = int (length xs); j = (if i < 0 then n + i else i)
      in if 0 \<le> j \<and> j < n then Some (xs ! nat j) else None)"

definition upper :: "string \<Rightarrow> string" where
  "upper s = map (\<lambda>c. if is_lower c then char_of ((of_char c :: nat) - 32) else c) s"

subsection \<open>Decimal rendering\<close>

definition digit :: "nat \<Rightarrow> char" where
  "digit n = char_of (48 + n)"

fun dec :: "nat \<Rightarrow> string" where
  "dec n = (if n < 10 then [digit n] else dec (n div 10) @ [digit (n mod 10)])"

declare dec.simps [simp del]

definition undec :: "string \<Rightarrow> nat" where
  "undec s = foldl (\<lambda>a c. 10 * a + ((of_char c :: nat) - 48)) 0 s"

lemma of_char_digit: "n < 10 \<Longrightarrow> (of_char (digit n) :: nat) = 48 + n"
  by (simp add: digit_def of_char_char_of_small)

lemma undec_dec: "undec (dec n) = n"
proof (induction n rule: dec.induct)
  case (1 n)
  show ?case
  proof (cases "n < 10")
    case True
    then show ?thesis by (simp add: dec.simps [of n] undec_def of_char_digit)
  next
    case False
    with "1.IH" have IH: "undec (dec (n div 10)) = n div 10" by simp
    have "undec (dec n) = 10 * undec (dec (n div 10)) + ((of_char (digit (n mod 10)) :: nat) - 48)"
      using False by (simp add: dec.simps [of n] undec_def)
    then show ?thesis using IH by (simp add: of_char_digit)
  qed
qed

lemma dec_inj [simp]: "dec m = dec n \<longleftrightarrow> m = n"
  by (metis undec_dec)

lemma dec_digits: "c \<in> set (dec n) \<Longrightarrow> is_digit c"
proof (induction n rule: dec.induct)
  case (1 n)
  show ?case
  proof (cases "n < 10")
    case True
    with "1.prems" show ?thesis by (simp add: dec.simps [of n] is_digit_def of_char_digit)
  next
    case False
    with "1.prems" have "c \<in> set (dec (n div 10)) \<or> c = digit (n mod 10)"
      by (auto simp: dec.simps [of n])
    with False "1.IH" show ?thesis by (auto simp: is_digit_def of_char_digit)
  qed
qed

lemma dec_nonempty [simp]: "dec n \<noteq> []"
  by (simp add: dec.simps [of n])

end
