(* ===== verification/Spans.thy ===== *)
theory Spans
  imports Complex_Main Prelude "HOL-Library.Product_Lexorder"
begin

text \<open>
  Detection spans and their overlap resolution: \<open>detection/span_arbiter.py\<close> (the single
  merge of all detectors), \<open>RegexDetector\<close> of \<open>detection/regex_detector.py\<close> with the
  Luhn check of \<open>detection/regex_patterns.py\<close>, the exclusion list and the checksum filter,
  and the per-node part of \<open>DetectionStage.execute\<close>.

  A detection dict is a record. A flag that the dict lacks has the value \<open>dict.get\<close> would
  give it: \<open>irreversible\<close> and \<open>protected\<close> are False, \<open>reversible\<close> is True,
  \<open>node_index\<close> is 0. Offsets are Python ints; scores are only compared, so exact rationals
  stand for the floats. The interface \<open>span_resolution\<close> states what every overlap resolver
  of the code promises to the tokenizer, and its client lemmas are proved once.
\<close>

subsection \<open>Spans\<close>

record span =
  entity_type :: string
  s_start :: int
  s_end :: int
  score :: rat
  source :: "string option"
  src_tag :: "string option"
  protected :: bool
  irreversible :: bool
  reversible :: bool
  node_index :: nat

definition covered :: "span list \<Rightarrow> int set" where
  "covered ss = (\<Union>s \<in> set ss. {s_start s ..< s_end s})"

lemma covered_simps [simp]:
  "covered [] = {}"
  "covered (s # ss) = {s_start s ..< s_end s} \<union> covered ss"
  "covered (ss @ ts) = covered ss \<union> covered ts"
  by (auto simp: covered_def)

lemma in_covered [code_unfold]: "i \<in> covered ss \<longleftrightarrow> list_ex (\<lambda>s. s_start s \<le> i \<and> i < s_end s) ss"
  by (auto simp: covered_def list_ex_iff)

definition proper :: "span \<Rightarrow> bool" where
  "proper s \<longleftrightarrow> s_start s < s_end s"

definition ordered_disjoint :: "span list \<Rightarrow> bool" where
  "ordered_disjoint ss \<longleftrightarrow> sorted_wrt (\<lambda>a b. s_end a \<le> s_start b) ss"

subsection \<open>The contract of an overlap resolver\<close>

locale span_resolution =
  fixes resolve :: "'i \<Rightarrow> span list"
    and detected :: "'i \<Rightarrow> span list"
    and well_formed :: "'i \<Rightarrow> bool"
    and secret_in :: "span \<Rightarrow> bool"
    and secret_out :: "span \<Rightarrow> bool"
  assumes resolve_proper: "well_formed i \<Longrightarrow> s \<in> set (resolve i) \<Longrightarrow> proper s"
    and resolve_ordered: "well_formed i \<Longrightarrow> ordered_disjoint (resolve i)"
    and resolve_covered: "well_formed i \<Longrightarrow> covered (resolve i) = covered (detected i)"
    and resolve_secret: "well_formed i \<Longrightarrow> x \<in> set (detected i) \<Longrightarrow> secret_in x \<Longrightarrow>
      \<exists>y \<in> set (resolve i). s_start y \<le> s_start x \<and> s_end x \<le> s_end y \<and> secret_out y"
begin

lemma same_owner:
  assumes wf: "well_formed i"
    and s: "s \<in> set (resolve i)" "s_start s \<le> p" "p < s_end s"
    and t: "t \<in> set (resolve i)" "s_start t \<le> p" "p < s_end t"
  shows "s = t"
proof -
  from s(1) obtain m where m: "m < length (resolve i)" "resolve i ! m = s"
    by (auto simp: in_set_conv_nth)
  from t(1) obtain n where n: "n < length (resolve i)" "resolve i ! n = t"
    by (auto simp: in_set_conv_nth)
  have ord: "\<And>j k. j < k \<Longrightarrow> k < length (resolve i) \<Longrightarrow>
      s_end (resolve i ! j) \<le> s_start (resolve i ! k)"
    using resolve_ordered [OF wf] by (auto simp: ordered_disjoint_def sorted_wrt_iff_nth_less)
  have "\<not> m < n" using ord [of m n] m n s t by auto
  moreover have "\<not> n < m" using ord [of n m] m n s t by auto
  ultimately show ?thesis using m n by auto
qed

lemma unique_owner:
  assumes wf: "well_formed i" and p: "p \<in> covered (detected i)"
  shows "\<exists>!s. s \<in> set (resolve i) \<and> s_start s \<le> p \<and> p < s_end s"
proof -
  from p have "p \<in> covered (resolve i)" by (simp add: resolve_covered [OF wf])
  then obtain s where "s \<in> set (resolve i)" "s_start s \<le> p" "p < s_end s"
    by (auto simp: covered_def)
  with same_owner [OF wf] show ?thesis by blast
qed

lemma secret_owner:
  assumes wf: "well_formed i"
    and x: "x \<in> set (detected i)" "secret_in x" "s_start x \<le> p" "p < s_end x"
    and s: "s \<in> set (resolve i)" "s_start s \<le> p" "p < s_end s"
  shows "secret_out s"
proof -
  obtain y where y: "y \<in> set (resolve i)" "s_start y \<le> s_start x" "s_end x \<le> s_end y" "secret_out y"
    using resolve_secret [OF wf x(1,2)] by blast
  have "s = y"
    using same_owner [OF wf s, of y] y x by auto
  with y show ?thesis by simp
qed

end

subsection \<open>SpanArbiter\<close>

datatype overlap = Exact | Nested | Partial

definition entity_specificity :: "(string \<times> int) list" where
  "entity_specificity =
    [(''API_KEY'', 100), (''ENTERPRISE_API_KEY'', 100), (''ENTERPRISE_AWS_KEY'', 99),
     (''ENTERPRISE_GITHUB_TOKEN'', 99), (''EMAIL_ADDRESS'', 90), (''TAX_ID_DE'', 89),
     (''PERSONAL_AUSWEIS'', 88), (''KVNR'', 87), (''SVNR_DE'', 86), (''HR_NUMBER'', 84),
     (''AKTENZEICHEN'', 83), (''DATE_OF_BIRTH'', 82), (''SITE_ID'', 81), (''PHONE_NUMBER'', 80),
     (''ACCOUNT_NUMBER_DE'', 79), (''TAX_ID_DE_UNVERIFIED'', 72), (''IBAN_UNVERIFIED'', 71),
     (''CREDIT_CARD'', 75), (''IBAN_DE'', 73), (''IBAN_CODE'', 70), (''US_SSN'', 65),
     (''URL'', 55), (''IP_ADDRESS'', 50), (''STREET_ADDRESS_DE'', 45), (''POSTCODE_CITY_DE'', 44),
     (''PERSON_NAME_DE'', 41), (''PERSON'', 40), (''DATE_DE'', 36), (''DATE_TIME'', 35),
     (''LOCATION'', 30), (''ORGANIZATION'', 25)]"

definition irreversible_entity_types :: "string list" where
  "irreversible_entity_types =
    [''API_KEY'', ''ENTERPRISE_API_KEY'', ''ENTERPRISE_AWS_KEY'', ''ENTERPRISE_GITHUB_TOKEN'',
     ''ENTERPRISE_INTERNAL_HOST'', ''AWS_ACCESS_KEY'', ''GITHUB_TOKEN'', ''PRIVATE_KEY'']"

definition specificity :: "string \<Rightarrow> int" where
  "specificity ty = dict_get entity_specificity ty 0"

definition protected_sources :: "string list" where
  "protected_sources = [''enterprise'', ''mnpi'']"

definition starts_with :: "string \<Rightarrow> string \<Rightarrow> bool" where
  "starts_with s p \<longleftrightarrow> take (length p) s = p"

definition protected_source :: "string option \<Rightarrow> bool" where
  "protected_source src = (case src of None \<Rightarrow> False | Some n \<Rightarrow> List.member protected_sources n)"

definition with_flags :: "span \<Rightarrow> string \<Rightarrow> span" where
  "with_flags s tag =
     (let irr = irreversible s \<or> \<not> reversible s
                \<or> List.member irreversible_entity_types (entity_type s);
          prot = protected s \<or> protected_source (source s)
                \<or> starts_with (entity_type s) ''MNPI_'' \<or> irr
      in s\<lparr>src_tag := Some tag, protected := prot, irreversible := irr \<or> prot\<rparr>)"

definition overlap_type :: "span \<Rightarrow> span \<Rightarrow> overlap option" where
  "overlap_type a b =
     (if s_end a \<le> s_start b \<or> s_end b \<le> s_start a then None
      else if s_start a = s_start b \<and> s_end a = s_end b then Some Exact
      else if (s_start a \<ge> s_start b \<and> s_end a \<le> s_end b)
              \<or> (s_start b \<ge> s_start a \<and> s_end b \<le> s_end a) then Some Nested
      else Some Partial)"

definition preferred_span :: "span \<Rightarrow> span \<Rightarrow> overlap \<Rightarrow> span" where
  "preferred_span incoming accepted ov =
     (if ov = Exact
      then (if src_tag incoming = Some ''regex'' then incoming else accepted)
      else if specificity (entity_type incoming) > specificity (entity_type accepted)
      then incoming else accepted)"

definition cover_union :: "span \<Rightarrow> span \<Rightarrow> span" where
  "cover_union winner other =
     (let irr = irreversible winner \<or> irreversible other
      in winner\<lparr>protected := protected winner \<or> protected other,
                irreversible := irr,
                reversible := (if irr then False else reversible winner),
                s_start := min (s_start winner) (s_start other),
                s_end := max (s_end winner) (s_end other)\<rparr>)"

fun first_overlap :: "span \<Rightarrow> nat \<Rightarrow> span list \<Rightarrow> (nat \<times> span \<times> overlap) option" where
  "first_overlap p i [] = None"
| "first_overlap p i (a # as) =
     (case overlap_type p a of None \<Rightarrow> first_overlap p (Suc i) as | Some ov \<Rightarrow> Some (i, a, ov))"

lemma first_overlap_SomeD:
  "first_overlap p i xs = Some (j, a, ov) \<Longrightarrow>
     \<exists>pre post. xs = pre @ a # post \<and> j = i + length pre \<and> overlap_type p a = Some ov"
proof (induction xs arbitrary: i)
  case Nil
  then show ?case by simp
next
  case (Cons x xs)
  show ?case
  proof (cases "overlap_type p x")
    case None
    with Cons.prems have "first_overlap p (Suc i) xs = Some (j, a, ov)" by simp
    from Cons.IH [OF this] obtain pre post
      where "xs = pre @ a # post" "j = Suc i + length pre" "overlap_type p a = Some ov" by blast
    then have "x # xs = (x # pre) @ a # post \<and> j = i + length (x # pre) \<and> overlap_type p a = Some ov"
      by simp
    then show ?thesis by blast
  next
    case (Some o')
    with Cons.prems have "x # xs = [] @ a # xs \<and> j = i + length ([] :: span list) \<and> overlap_type p a = Some ov"
      by simp
    then show ?thesis by blast
  qed
qed

lemma first_overlap_None_iff:
  "first_overlap p i xs = None \<longleftrightarrow> (\<forall>a \<in> set xs. overlap_type p a = None)"
  by (induction xs arbitrary: i) (auto split: option.splits)

text \<open>
  The inner \<open>while True\<close> of \<open>merge\<close>: each round either appends the pending span or
  removes one accepted span, so it ends after at most \<open>length merged + 1\<close> rounds.
\<close>

function absorb :: "span \<Rightarrow> span list \<Rightarrow> span list" where
  "absorb pending merged =
     (case first_overlap pending 0 merged of
        None \<Rightarrow> merged @ [pending]
      | Some (index, accepted, ov) \<Rightarrow>
          (let winner = preferred_span pending accepted ov;
               other = (if winner = pending then accepted else pending)
           in absorb (cover_union winner other) (take index merged @ drop (Suc index) merged)))"
  by pat_completeness auto
termination
  by (relation "measure (\<lambda>(p, m). length m)") (auto dest!: first_overlap_SomeD)

declare absorb.simps [simp del]

definition arbiter_merge :: "span list \<Rightarrow> span list \<Rightarrow> span list list \<Rightarrow> span list" where
  "arbiter_merge regex_results ner_results additional_results =
     (if regex_results = [] \<and> ner_results = [] \<and> \<not> list_ex (\<lambda>e. e \<noteq> []) additional_results then []
      else
        (let tagged = map (\<lambda>r. with_flags r ''regex'') regex_results
                      @ map (\<lambda>r. with_flags r ''ner'') ner_results
                      @ concat (map (map (\<lambda>r. with_flags r ''other'')) additional_results);
             combined = sort_key (\<lambda>r. (s_start r, - score r)) tagged;
             merged = foldl (\<lambda>m s. absorb s m) [] combined
         in sort_key (\<lambda>r. (s_start r, s_end r)) (map (\<lambda>r. r\<lparr>src_tag := None\<rparr>) merged)))"

subsection \<open>Facts about the arbiter\<close>

definition apart :: "span \<Rightarrow> span \<Rightarrow> bool" where
  "apart a b \<longleftrightarrow> s_end a \<le> s_start b \<or> s_end b \<le> s_start a"

lemma overlap_type_None: "overlap_type a b = None \<longleftrightarrow> apart a b"
  by (simp add: overlap_type_def apart_def)

lemma apart_sym: "apart a b \<longleftrightarrow> apart b a"
  by (auto simp: apart_def)

definition absorbs :: "span \<Rightarrow> span \<Rightarrow> bool" where
  "absorbs y x \<longleftrightarrow> s_start y \<le> s_start x \<and> s_end x \<le> s_end y
     \<and> (protected x \<longrightarrow> protected y) \<and> (irreversible x \<longrightarrow> irreversible y)"

lemma absorbs_refl [simp]: "absorbs x x"
  by (simp add: absorbs_def)

lemma absorbs_trans: "absorbs z y \<Longrightarrow> absorbs y x \<Longrightarrow> absorbs z x"
  by (auto simp: absorbs_def)

lemma cover_union_simps [simp]:
  "s_start (cover_union w v) = min (s_start w) (s_start v)"
  "s_end (cover_union w v) = max (s_end w) (s_end v)"
  "protected (cover_union w v) = (protected w \<or> protected v)"
  "irreversible (cover_union w v) = (irreversible w \<or> irreversible v)"
  "entity_type (cover_union w v) = entity_type w"
  by (simp_all add: cover_union_def Let_def)

lemma cover_union_absorbs: "absorbs (cover_union w v) w" "absorbs (cover_union w v) v"
  by (auto simp: absorbs_def)

lemma preferred_span_cases: "preferred_span p a ov = p \<or> preferred_span p a ov = a"
  by (simp add: preferred_span_def)

text \<open>One round of the loop: the pending span and the removed one, in either order.\<close>

lemma absorb_unfold:
  obtains (keep) "\<forall>a \<in> set merged. apart p a" "absorb p merged = merged @ [p]"
  | (meet) pre a post u where "merged = pre @ a # post" "\<not> apart p a"
      "absorb p merged = absorb u (pre @ post)"
      "u = cover_union p a \<or> u = cover_union a p"
      "u = cover_union (preferred_span p a (the (overlap_type p a)))
            (if preferred_span p a (the (overlap_type p a)) = p then a else p)"
proof (cases "first_overlap p 0 merged")
  case None
  then have "\<forall>a \<in> set merged. apart p a"
    by (simp add: first_overlap_None_iff overlap_type_None)
  moreover from None have "absorb p merged = merged @ [p]"
    by (simp add: absorb.simps [of p merged])
  ultimately show ?thesis by (rule keep)
next
  case (Some r)
  obtain j a ov where r: "r = (j, a, ov)" by (cases r)
  with Some obtain pre post where m: "merged = pre @ a # post" "j = length pre" "overlap_type p a = Some ov"
    by (auto dest: first_overlap_SomeD)
  define w where "w = preferred_span p a ov"
  define u where "u = cover_union w (if w = p then a else p)"
  have "absorb p merged = absorb u (take j merged @ drop (Suc j) merged)"
    by (subst absorb.simps) (simp add: Some r m(3) Let_def u_def w_def)
  then have "absorb p merged = absorb u (pre @ post)" by (simp add: m(1,2))
  moreover have "u = cover_union p a \<or> u = cover_union a p"
    using preferred_span_cases [of p a ov] by (auto simp: u_def w_def)
  moreover have "\<not> apart p a" using m(3) overlap_type_None [of p a] by simp
  ultimately show ?thesis using m meet [of pre a post u] by (simp add: u_def w_def)
qed

lemma absorb_set_length_less: "merged = pre @ a # post \<Longrightarrow> length (pre @ post) < length merged"
  by simp

lemma absorb_properties:
  assumes "proper p" "\<forall>a \<in> set merged. proper a" "sorted_wrt apart merged"
  shows "(\<forall>a \<in> set (absorb p merged). proper a) \<and> sorted_wrt apart (absorb p merged)
    \<and> covered (absorb p merged) = {s_start p ..< s_end p} \<union> covered merged
    \<and> (\<forall>x \<in> set (p # merged). \<exists>y \<in> set (absorb p merged). absorbs y x)"
  using assms
proof (induction "length merged" arbitrary: p merged rule: less_induct)
  case less
  show ?case
  proof (cases rule: absorb_unfold [of merged p])
    case keep
    have "\<forall>a \<in> set merged. apart a p" using keep(1) by (simp add: apart_sym)
    with keep less.prems show ?thesis
      by (auto simp: sorted_wrt_append intro: absorbs_refl)
  next
    case (meet pre a post u)
    from meet less.prems have pa: "proper p" "proper a" by auto
    have u: "s_start u = min (s_start p) (s_start a)" "s_end u = max (s_end p) (s_end a)"
      "absorbs u p" "absorbs u a"
      using meet(4) by (auto simp: min.commute max.commute cover_union_absorbs)
    have "proper u" using pa u by (auto simp: proper_def)
    moreover have "\<forall>b \<in> set (pre @ post). proper b" using less.prems meet by auto
    moreover have "sorted_wrt apart (pre @ post)"
      using less.prems meet by (auto simp: sorted_wrt_append)
    ultimately have IH: "(\<forall>a \<in> set (absorb u (pre @ post)). proper a)"
      "sorted_wrt apart (absorb u (pre @ post))"
      "covered (absorb u (pre @ post)) = {s_start u ..< s_end u} \<union> covered (pre @ post)"
      "\<forall>x \<in> set (u # pre @ post). \<exists>y \<in> set (absorb u (pre @ post)). absorbs y x"
      using less.hyps [of "pre @ post" u] meet(1) by simp_all
    have "{s_start u ..< s_end u} = {s_start p ..< s_end p} \<union> {s_start a ..< s_end a}"
      using pa meet(2) u by (auto simp: proper_def apart_def)
    with IH(3) have cov: "covered (absorb p merged) = {s_start p ..< s_end p} \<union> covered merged"
      unfolding meet(3) using meet(1) by auto
    have "\<exists>y \<in> set (absorb p merged). absorbs y x" if "x \<in> set (p # merged)" for x
    proof (cases "x = p \<or> x = a")
      case True
      then have "absorbs u x" using u by auto
      with IH(4) show ?thesis unfolding meet(3) by (auto intro: absorbs_trans)
    next
      case False
      with that meet(1) have "x \<in> set (u # pre @ post)" by auto
      with IH(4) show ?thesis unfolding meet(3) by blast
    qed
    with IH cov show ?thesis unfolding meet(3) by blast
  qed
qed

lemma foldl_absorb_properties:
  assumes "\<forall>a \<in> set ss. proper a" "\<forall>a \<in> set merged. proper a" "sorted_wrt apart merged"
  shows "(\<forall>a \<in> set (foldl (\<lambda>m s. absorb s m) merged ss). proper a)
    \<and> sorted_wrt apart (foldl (\<lambda>m s. absorb s m) merged ss)
    \<and> covered (foldl (\<lambda>m s. absorb s m) merged ss) = covered ss \<union> covered merged
    \<and> (\<forall>x \<in> set (ss @ merged). \<exists>y \<in> set (foldl (\<lambda>m s. absorb s m) merged ss). absorbs y x)"
  using assms
proof (induction ss arbitrary: merged)
  case Nil
  then show ?case by (auto intro: absorbs_refl)
next
  case (Cons s ss)
  note A = absorb_properties [of s merged]
  from Cons.prems A have A': "\<forall>a \<in> set (absorb s merged). proper a" "sorted_wrt apart (absorb s merged)"
    "covered (absorb s merged) = {s_start s ..< s_end s} \<union> covered merged"
    "\<forall>x \<in> set (s # merged). \<exists>y \<in> set (absorb s merged). absorbs y x"
    by simp_all
  let ?r = "foldl (\<lambda>m s. absorb s m) (absorb s merged) ss"
  from Cons.IH [OF _ A'(1,2)] Cons.prems have IH: "\<forall>a \<in> set ?r. proper a" "sorted_wrt apart ?r"
    "covered ?r = covered ss \<union> covered (absorb s merged)"
    "\<forall>x \<in> set (ss @ absorb s merged). \<exists>y \<in> set ?r. absorbs y x"
    by simp_all
  have "\<exists>y \<in> set ?r. absorbs y x" if "x \<in> set ((s # ss) @ merged)" for x
  proof (cases "x \<in> set ss")
    case True
    with IH(4) show ?thesis by simp
  next
    case False
    with that A'(4) obtain y where y: "y \<in> set (absorb s merged)" "absorbs y x" by auto
    with IH(4) obtain z where "z \<in> set ?r" "absorbs z y" by auto
    with y show ?thesis by (blast intro: absorbs_trans)
  qed
  with IH A'(3) show ?case by auto
qed

lemma sorted_wrt_apart_imp_ordered:
  assumes "\<forall>a \<in> set ss. proper a" "sorted_wrt apart ss"
  shows "ordered_disjoint (sort_key (\<lambda>r. (s_start r, s_end r)) ss)"
proof -
  let ?k = "\<lambda>r. (s_start r, s_end r)"
  have dist: "distinct ss"
    using assms
  proof (induction ss)
    case Nil
    then show ?case by simp
  next
    case (Cons s ss)
    then have "s \<notin> set ss" by (fastforce simp: apart_def proper_def)
    with Cons show ?case by simp
  qed
  have pair: "\<And>x y. x \<in> set ss \<Longrightarrow> y \<in> set ss \<Longrightarrow> x \<noteq> y \<Longrightarrow> apart x y"
    using assms(2)
  proof (induction ss)
    case Nil
    then show ?case by simp
  next
    case (Cons s ss)
    then show ?case by (auto simp: apart_sym)
  qed
  have sorted: "sorted (map ?k (sort_key ?k ss))" by (rule sorted_sort_key)
  have dist': "distinct (sort_key ?k ss)" using dist by simp
  show ?thesis
    unfolding ordered_disjoint_def sorted_wrt_iff_nth_less
  proof (intro allI impI)
    fix i j assume ij: "i < j" "j < length (sort_key ?k ss)"
    let ?x = "sort_key ?k ss ! i" and ?y = "sort_key ?k ss ! j"
    have mem: "?x \<in> set ss" "?y \<in> set ss"
      using ij by (metis dual_order.strict_trans nth_mem set_sort)+
    have "?x \<noteq> ?y" using ij dist' by (simp add: nth_eq_iff_index_eq)
    with mem pair have "apart ?x ?y" by blast
    moreover have "?k ?x \<le> ?k ?y"
      using sorted ij by (simp add: sorted_iff_nth_mono_less)
    ultimately show "s_end ?x \<le> s_start ?y"
      using assms(1) mem by (auto simp: apart_def proper_def)
  qed
qed

subsection \<open>The arbiter implements the contract\<close>

definition must_mask :: "span \<Rightarrow> bool" where
  "must_mask s \<longleftrightarrow>
     irreversible s \<or> \<not> reversible s \<or> protected s \<or> protected_source (source s)
     \<or> List.member irreversible_entity_types (entity_type s) \<or> starts_with (entity_type s) ''MNPI_''"

lemma with_flags_simps [simp]:
  "s_start (with_flags s t) = s_start s"
  "s_end (with_flags s t) = s_end s"
  "entity_type (with_flags s t) = entity_type s"
  "proper (with_flags s t) = proper s"
  "reversible (with_flags s t) = reversible s"
  by (simp_all add: with_flags_def Let_def proper_def)

lemma with_flags_must_mask: "irreversible (with_flags s t) = must_mask s"
  by (auto simp: must_mask_def with_flags_def Let_def)

lemma with_flags_protected: "protected (with_flags s t) = must_mask s"
  by (auto simp: must_mask_def with_flags_def Let_def)

lemma covered_map_with_flags [simp]: "covered (map (\<lambda>r. with_flags r t) ss) = covered ss"
  by (simp add: covered_def)

lemma covered_concat: "covered (concat xs) = (\<Union>x \<in> set xs. covered x)"
  by (induction xs) simp_all

lemma covered_cong_set: "set xs = set ys \<Longrightarrow> covered xs = covered ys"
  by (simp add: covered_def)

definition arbiter_tagged :: "span list \<Rightarrow> span list \<Rightarrow> span list list \<Rightarrow> span list" where
  "arbiter_tagged regex_results ner_results additional_results =
     map (\<lambda>r. with_flags r ''regex'') regex_results
       @ map (\<lambda>r. with_flags r ''ner'') ner_results
       @ concat (map (map (\<lambda>r. with_flags r ''other'')) additional_results)"

definition arbiter_survivors :: "span list \<Rightarrow> span list \<Rightarrow> span list list \<Rightarrow> span list" where
  "arbiter_survivors regex_results ner_results additional_results =
     foldl (\<lambda>m s. absorb s m) []
       (sort_key (\<lambda>r. (s_start r, - score r)) (arbiter_tagged regex_results ner_results additional_results))"

lemma arbiter_merge_survivors:
  "arbiter_merge r n ex =
     sort_key (\<lambda>r. (s_start r, s_end r)) (map (\<lambda>r. r\<lparr>src_tag := None\<rparr>) (arbiter_survivors r n ex))"
proof (cases "r = [] \<and> n = [] \<and> \<not> list_ex (\<lambda>e. e \<noteq> []) ex")
  case True
  then have "arbiter_tagged r n ex = []"
    by (auto simp: arbiter_tagged_def list_ex_iff)
  with True show ?thesis by (simp add: arbiter_merge_def arbiter_survivors_def)
next
  case False
  then show ?thesis
    by (auto simp: arbiter_merge_def arbiter_survivors_def arbiter_tagged_def Let_def)
qed

lemma arbiter_survivors_properties:
  assumes "\<forall>s \<in> set (r @ n @ concat ex). proper s"
  shows "\<forall>s \<in> set (arbiter_survivors r n ex). proper s"
    and "sorted_wrt apart (arbiter_survivors r n ex)"
    and "covered (arbiter_survivors r n ex) = covered (r @ n @ concat ex)"
    and "\<forall>x \<in> set (arbiter_tagged r n ex). \<exists>y \<in> set (arbiter_survivors r n ex). absorbs y x"
proof -
  let ?t = "sort_key (\<lambda>r. (s_start r, - score r)) (arbiter_tagged r n ex)"
  have "\<forall>s \<in> set ?t. proper s" using assms by (auto simp: arbiter_tagged_def)
  note P = foldl_absorb_properties [OF this, of "[]", simplified, folded arbiter_survivors_def]
  from P show "\<forall>s \<in> set (arbiter_survivors r n ex). proper s"
    and "sorted_wrt apart (arbiter_survivors r n ex)"
    and "\<forall>x \<in> set (arbiter_tagged r n ex). \<exists>y \<in> set (arbiter_survivors r n ex). absorbs y x"
    by auto
  have "covered ?t = covered (arbiter_tagged r n ex)" by (rule covered_cong_set) simp
  also have "\<dots> = covered (r @ n @ concat ex)"
    by (simp add: arbiter_tagged_def covered_concat)
  finally show "covered (arbiter_survivors r n ex) = covered (r @ n @ concat ex)"
    using P by simp
qed

lemma arbiter_tagged_source:
  "x \<in> set (r @ n @ concat ex) \<Longrightarrow> \<exists>t. with_flags x t \<in> set (arbiter_tagged r n ex)"
  by (auto simp: arbiter_tagged_def)

lemma absorb_flags:
  assumes "\<forall>s \<in> set (p # merged). protected s = irreversible s"
  shows "\<forall>s \<in> set (absorb p merged). protected s = irreversible s"
  using assms
proof (induction "length merged" arbitrary: p merged rule: less_induct)
  case less
  show ?case
  proof (cases rule: absorb_unfold [of merged p])
    case keep
    with less.prems show ?thesis by auto
  next
    case (meet pre a post u)
    have "protected u = irreversible u" using meet(1,4) less.prems by auto
    with less.prems meet(1) have "\<forall>s \<in> set (u # pre @ post). protected s = irreversible s" by auto
    with less.hyps [of "pre @ post" u] meet(1) show ?thesis unfolding meet(3) by simp
  qed
qed

lemma foldl_absorb_flags:
  assumes "\<forall>s \<in> set (ss @ merged). protected s = irreversible s"
  shows "\<forall>s \<in> set (foldl (\<lambda>m s. absorb s m) merged ss). protected s = irreversible s"
  using assms
proof (induction ss arbitrary: merged)
  case Nil
  then show ?case by simp
next
  case (Cons s ss)
  have "\<forall>t \<in> set (absorb s merged). protected t = irreversible t"
    using Cons.prems by (intro absorb_flags) auto
  with Cons.prems Cons.IH [of "absorb s merged"] show ?case by auto
qed

lemma arbiter_merge_flags: "s \<in> set (arbiter_merge r n ex) \<Longrightarrow> protected s = irreversible s"
proof -
  assume "s \<in> set (arbiter_merge r n ex)"
  then obtain t where t: "t \<in> set (arbiter_survivors r n ex)" "s = t\<lparr>src_tag := None\<rparr>"
    by (auto simp: arbiter_merge_survivors)
  have "\<forall>s \<in> set (arbiter_survivors r n ex). protected s = irreversible s"
    unfolding arbiter_survivors_def
    by (rule foldl_absorb_flags) (auto simp: arbiter_tagged_def with_flags_must_mask with_flags_protected)
  with t show ?thesis by simp
qed

interpretation arbiter: span_resolution
  "\<lambda>(r, n, ex). arbiter_merge r n ex" "\<lambda>(r, n, ex). r @ n @ concat ex"
  "\<lambda>(r, n, ex). \<forall>s \<in> set (r @ n @ concat ex). proper s" must_mask irreversible
proof unfold_locales
  fix i :: "span list \<times> span list \<times> span list list" and s x :: span
  obtain r n ex where i: "i = (r, n, ex)" by (cases i)
  assume "case i of (r, n, ex) \<Rightarrow> \<forall>s \<in> set (r @ n @ concat ex). proper s"
  then have wf: "\<forall>s \<in> set (r @ n @ concat ex). proper s" by (simp add: i)
  note P = arbiter_survivors_properties [OF wf]
  let ?clear = "map (\<lambda>r. r\<lparr>src_tag := None\<rparr>) (arbiter_survivors r n ex)"
  have clear: "\<forall>s \<in> set ?clear. proper s" "sorted_wrt apart ?clear"
    using P(1,2) by (auto simp: proper_def sorted_wrt_map apart_def [abs_def])
  show "proper s" if "s \<in> set (case i of (r, n, ex) \<Rightarrow> arbiter_merge r n ex)"
    using that clear(1) by (auto simp: i arbiter_merge_survivors)
  show "ordered_disjoint (case i of (r, n, ex) \<Rightarrow> arbiter_merge r n ex)"
    using sorted_wrt_apart_imp_ordered [OF clear] by (simp add: i arbiter_merge_survivors)
  show "covered (case i of (r, n, ex) \<Rightarrow> arbiter_merge r n ex)
      = covered (case i of (r, n, ex) \<Rightarrow> r @ n @ concat ex)"
    using P(3) by (simp add: i arbiter_merge_survivors covered_def)
  show "\<exists>y \<in> set (case i of (r, n, ex) \<Rightarrow> arbiter_merge r n ex).
      s_start y \<le> s_start x \<and> s_end x \<le> s_end y \<and> irreversible y"
    if x: "x \<in> set (case i of (r, n, ex) \<Rightarrow> r @ n @ concat ex)" "must_mask x"
  proof -
    obtain t where "with_flags x t \<in> set (arbiter_tagged r n ex)"
      using arbiter_tagged_source [of x r n ex] x(1) unfolding i by auto
    with P(4) obtain y where y: "y \<in> set (arbiter_survivors r n ex)" "absorbs y (with_flags x t)"
      by blast
    then have "y\<lparr>src_tag := None\<rparr> \<in> set (arbiter_merge r n ex)"
      by (simp add: arbiter_merge_survivors)
    moreover from y(2) x(2) have "s_start y \<le> s_start x \<and> s_end x \<le> s_end y \<and> irreversible y"
      by (simp add: absorbs_def with_flags_must_mask)
    ultimately show ?thesis unfolding i by (intro bexI [of _ "y\<lparr>src_tag := None\<rparr>"]) auto
  qed
qed

end
