(* ===== verification/Detection.thy ===== *)
theory Detection
  imports Spans
begin

text \<open>
  The detectors around the arbiter: \<open>luhn_checksum\<close> (\<open>detection/regex_patterns.py\<close>),
  \<open>RegexDetector.detect\<close> and \<open>_collapse_overlaps\<close> (\<open>detection/regex_detector.py\<close>),
  \<open>ExclusionList\<close>, \<open>validate_detection\<close> (\<open>locale/checksum.py\<close>) and the per-node part
  of \<open>DetectionStage.execute\<close> (\<open>pipeline/detection.py\<close>): trimming of person spans,
  flagging, merge, exclusions, checksum downgrade and the final \<open>reversible\<close> tag.
  A compiled pattern is its \<open>finditer\<close>, a function from the text to the match bounds; a
  compiled wildcard exclusion is its \<open>fullmatch\<close>.
\<close>

subsection \<open>Luhn checksum\<close>

definition digit_value :: "char \<Rightarrow> nat" where
  "digit_value c = (of_char c :: nat) - 48"

fun luhn_loop :: "nat list \<Rightarrow> nat \<Rightarrow> bool \<Rightarrow> nat" where
  "luhn_loop [] checksum is_second = checksum"
| "luhn_loop (d # ds) checksum is_second =
     (if is_second
      then (let doubled = d * 2
            in luhn_loop ds (checksum + (doubled div 10 + doubled mod 10)) (\<not> is_second))
      else luhn_loop ds (checksum + d) (\<not> is_second))"

definition luhn_checksum :: "string \<Rightarrow> bool" where
  "luhn_checksum card_number =
     (let digits = map digit_value (filter is_digit card_number)
      in if length digits < 13 \<or> length digits > 19 then False
         else luhn_loop (rev digits) 0 False mod 10 = 0)"

definition luhn_weight :: "bool \<Rightarrow> nat \<Rightarrow> nat" where
  "luhn_weight second d = (if second then (d * 2) div 10 + (d * 2) mod 10 else d)"

lemma luhn_loop_step:
  "luhn_loop (d # ds) a b = luhn_loop ds (a + luhn_weight b d) (\<not> b)"
  by (simp add: luhn_weight_def Let_def)

lemma luhn_loop_acc: "luhn_loop ds a b = a + luhn_loop ds 0 b"
proof (induction ds arbitrary: a b)
  case Nil
  then show ?case by simp
next
  case (Cons d ds)
  have "luhn_loop ds (a + luhn_weight b d) (\<not> b) = a + luhn_weight b d + luhn_loop ds 0 (\<not> b)"
    by (rule Cons.IH)
  moreover have "luhn_loop ds (0 + luhn_weight b d) (\<not> b) = 0 + luhn_weight b d + luhn_loop ds 0 (\<not> b)"
    by (rule Cons.IH)
  ultimately show ?case unfolding luhn_loop_step by simp
qed

lemma luhn_loop_Cons: "luhn_loop (d # ds) 0 b = luhn_weight b d + luhn_loop ds 0 (\<not> b)"
  unfolding luhn_loop_step by (subst luhn_loop_acc) simp

lemma luhn_weight_digit:
  assumes "d < 10"
  shows "luhn_weight b d = (if b then if d < 5 then 2 * d else 2 * d - 9 else d)"
proof -
  have "d < 5 \<or> d * 2 div 10 = 1" using assms by auto
  moreover have "d < 5 \<Longrightarrow> d * 2 div 10 = 0 \<and> d * 2 mod 10 = 2 * d" by simp
  moreover have "d * 2 mod 10 = d * 2 - 10 * (d * 2 div 10)" by (rule minus_mult_div_eq_mod [symmetric])
  ultimately show ?thesis using assms by (auto simp: luhn_weight_def)
qed

lemma luhn_weight_bound: "d < 10 \<Longrightarrow> luhn_weight b d < 10"
  by (simp add: luhn_weight_digit) arith

lemma luhn_weight_inj: "d < 10 \<Longrightarrow> e < 10 \<Longrightarrow> luhn_weight b d = luhn_weight b e \<Longrightarrow> d = e"
  by (auto simp: luhn_weight_digit split: if_splits) presburger+

lemma mod10_distinct:
  assumes "(k + x) mod 10 = (0::nat)" "x < 10" "y < 10" "x \<noteq> y"
  shows "(k + y) mod 10 \<noteq> 0"
proof
  assume "(k + y) mod 10 = 0"
  with assms(1) have "10 dvd (k + y)" "10 dvd (k + x)" by (simp_all add: mod_eq_0_iff_dvd)
  then have "10 dvd y - x" "10 dvd x - y"
    using dvd_diff_nat [of 10 "k + y" "k + x"] dvd_diff_nat [of 10 "k + x" "k + y"]
    by (simp_all only: diff_cancel)
  moreover have "0 < y - x \<and> y - x < 10 \<or> 0 < x - y \<and> x - y < 10" using assms by auto
  ultimately show False by (auto dest: dvd_imp_le)
qed

lemma luhn_single_digit:
  assumes "d < 10" "e < 10" "d \<noteq> e"
    and "luhn_loop (pre @ d # post) 0 b mod 10 = 0"
  shows "luhn_loop (pre @ e # post) 0 b mod 10 \<noteq> 0"
proof -
  have split: "\<exists>k c. \<forall>x. luhn_loop (pre @ x # post) 0 b = k + luhn_weight c x" for b
  proof (induction pre arbitrary: b)
    case Nil
    show ?case
      by (intro exI [of _ "luhn_loop post 0 (\<not> b)"] exI [of _ b])
        (simp only: append_Nil luhn_loop_Cons add.commute, simp)
  next
    case (Cons p pre)
    obtain k c where "\<forall>x. luhn_loop (pre @ x # post) 0 (\<not> b) = k + luhn_weight c x"
      using Cons.IH by blast
    then show ?case
      by (intro exI [of _ "luhn_weight b p + k"] exI [of _ c])
        (simp only: append_Cons luhn_loop_Cons, simp)
  qed
  obtain k c where kc: "\<And>x. luhn_loop (pre @ x # post) 0 b = k + luhn_weight c x"
    using split by blast
  have ne: "luhn_weight c d \<noteq> luhn_weight c e" using luhn_weight_inj assms by blast
  show ?thesis
    using mod10_distinct [OF assms(4) [unfolded kc]] luhn_weight_bound assms(1,2) ne
    unfolding kc by blast
qed

subsection \<open>RegexDetector\<close>

fun collapse_into :: "span \<Rightarrow> span list \<Rightarrow> span list option" where
  "collapse_into sp [] = None"
| "collapse_into sp (accepted # rest) =
     (if s_end sp \<le> s_start accepted \<or> s_end accepted \<le> s_start sp
      then map_option (Cons accepted) (collapse_into sp rest)
      else
        (let span_contains = s_start sp \<le> s_start accepted \<and> s_end sp \<ge> s_end accepted;
             acc_contains = s_start accepted \<le> s_start sp \<and> s_end accepted \<ge> s_end sp
         in Some
           (if span_contains \<and> \<not> acc_contains then sp # rest
            else if acc_contains \<and> \<not> span_contains then accepted # rest
            else if specificity (entity_type sp) > specificity (entity_type accepted)
            then sp # rest else accepted # rest)))"

definition collapse_overlaps :: "span list \<Rightarrow> span list" where
  "collapse_overlaps results =
     (if length results < 2 then results
      else foldl (\<lambda>kept sp. case collapse_into sp kept of None \<Rightarrow> kept @ [sp] | Some k \<Rightarrow> k)
             [] (sort_key (\<lambda>r. (s_start r, - s_end r)) results))"

type_synonym finditer = "string \<Rightarrow> (int \<times> int) list"

definition ends_with :: "string \<Rightarrow> string \<Rightarrow> bool" where
  "ends_with s p \<longleftrightarrow> starts_with (rev s) (rev p)"

definition regex_span :: "string \<Rightarrow> int \<Rightarrow> int \<Rightarrow> span" where
  "regex_span ty a b =
     \<lparr>entity_type = ty, s_start = a, s_end = b,
      score = (if ends_with ty ''_UNVERIFIED'' then 6 / 10 else 1),
      source = Some ''regex'', src_tag = None, protected = False, irreversible = False,
      reversible = True, node_index = 0\<rparr>"

fun detect_matches ::
  "string \<Rightarrow> string \<Rightarrow> (int \<times> int) list \<Rightarrow> (string \<times> int \<times> int) list \<Rightarrow> span list
     \<Rightarrow> (string \<times> int \<times> int) list \<times> span list" where
  "detect_matches text ty [] seen results = (seen, results)"
| "detect_matches text ty ((a, b) # ms) seen results =
     (if List.member seen (ty, a, b) then detect_matches text ty ms seen results
      else if ty = ''CREDIT_CARD'' \<and> \<not> luhn_checksum (py_slice text a b)
      then detect_matches text ty ms ((ty, a, b) # seen) results
      else detect_matches text ty ms ((ty, a, b) # seen) (results @ [regex_span ty a b]))"

fun detect_patterns ::
  "string \<Rightarrow> (string, finditer) dict \<Rightarrow> (string \<times> int \<times> int) list \<Rightarrow> span list \<Rightarrow> span list" where
  "detect_patterns text [] seen results = results"
| "detect_patterns text ((ty, pat) # ps) seen results =
     (let (seen', results') = detect_matches text ty (pat text) seen results
      in detect_patterns text ps seen' results')"

definition regex_detect ::
  "(string, finditer) dict \<Rightarrow> string \<Rightarrow> (string, finditer) dict option \<Rightarrow> span list" where
  "regex_detect own text extra =
     (if text = [] then []
      else
        (let patterns = (case extra of None \<Rightarrow> own
                         | Some e \<Rightarrow> if e = [] then own else dict_update own e);
             results = collapse_overlaps (detect_patterns text patterns [] [])
         in sort_key s_start results))"

subsection \<open>ExclusionList\<close>

record exclusion_list =
  excl_exact :: "string list"
  excl_wildcards :: "(string \<Rightarrow> bool) list"

definition is_excluded :: "exclusion_list \<Rightarrow> string \<Rightarrow> bool" where
  "is_excluded ex v \<longleftrightarrow> List.member (excl_exact ex) v \<or> list_ex (\<lambda>p. p v) (excl_wildcards ex)"

definition filter_detections :: "exclusion_list \<Rightarrow> span list \<Rightarrow> string \<Rightarrow> span list" where
  "filter_detections ex detections original_text =
     filter (\<lambda>d. \<not> is_excluded ex (py_slice original_text (s_start d) (s_end d))) detections"

subsection \<open>Checksum validation\<close>

type_synonym checksum_registry = "(string, string \<Rightarrow> bool) dict"

definition registry_register :: "checksum_registry \<Rightarrow> string \<Rightarrow> (string \<Rightarrow> bool) \<Rightarrow> checksum_registry" where
  "registry_register reg ty validator = AList.update (upper ty) validator reg"

definition registry_get :: "checksum_registry \<Rightarrow> string \<Rightarrow> (string \<Rightarrow> bool) option" where
  "registry_get reg ty = map_of reg (upper ty)"

definition registry_validate :: "checksum_registry \<Rightarrow> string \<Rightarrow> string \<Rightarrow> bool" where
  "registry_validate reg ty v = (case registry_get reg ty of None \<Rightarrow> True | Some f \<Rightarrow> f v)"

definition validate_detection :: "span \<Rightarrow> checksum_registry \<Rightarrow> string \<Rightarrow> span option" where
  "validate_detection d reg source_text =
     (case registry_get reg (entity_type d) of
        None \<Rightarrow> Some d
      | Some validator \<Rightarrow>
          if validator (py_slice source_text (s_start d) (s_end d)) then Some d else None)"

definition mask_on_format :: "(string \<times> string) list" where
  "mask_on_format =
    [(''IBAN_DE'', ''IBAN_UNVERIFIED''), (''IBAN_CODE'', ''IBAN_UNVERIFIED''),
     (''TAX_ID_DE'', ''TAX_ID_DE_UNVERIFIED'')]"

definition validate_or_downgrade :: "span \<Rightarrow> checksum_registry \<Rightarrow> string \<Rightarrow> span option" where
  "validate_or_downgrade d reg txt =
     (case validate_detection d reg txt of
        Some v \<Rightarrow> Some v
      | None \<Rightarrow>
          (case map_of mask_on_format (entity_type d) of
             None \<Rightarrow> None
           | Some ty \<Rightarrow> Some (d\<lparr>entity_type := ty, score := min (score d) (6 / 10)\<rparr>)))"

subsection \<open>Trimming person spans\<close>

text \<open>\<open>_WORD.finditer\<close>: the maximal runs of non-space characters, with their offsets.\<close>

function word_spans :: "int \<Rightarrow> string \<Rightarrow> (int \<times> int) list" where
  "word_spans off s =
     (let skipped = takeWhile is_space s;
          rest = dropWhile is_space s;
          w = takeWhile (\<lambda>c. \<not> is_space c) rest;
          a = off + int (length skipped);
          b = a + int (length w)
      in if rest = [] then [] else (a, b) # word_spans b (drop (length w) rest))"
  by pat_completeness auto
termination
proof (relation "measure (\<lambda>(off, s). length s)", goal_cases)
  case 1
  then show ?case by simp
next
  case (2 off s skipped rest w a b)
  have "length rest \<le> length s" using 2(2) by (simp add: length_dropWhile_le)
  moreover have ne: "rest \<noteq> []" using 2 by simp
  moreover have "w \<noteq> []"
    using ne hd_dropWhile [of is_space s] unfolding 2(2,3) by (cases "dropWhile is_space s") auto
  ultimately show ?case by (cases rest; cases w) auto
qed

declare word_spans.simps [simp del]

fun drop_uncapitalised :: "string \<Rightarrow> (int \<times> int) list \<Rightarrow> (int \<times> int) list py_result" where
  "drop_uncapitalised text [] = Inr []"
| "drop_uncapitalised text ((a, b) # ws) =
     (case py_index text a of
        None \<Rightarrow> Inl IndexError
      | Some c \<Rightarrow> if py_isupper c then Inr ((a, b) # ws) else drop_uncapitalised text ws)"

text \<open>
  The two \<open>while words\<close> loops: the first drops from the front, the second from the back,
  both testing the first character of the word.
\<close>

definition capitalised_words :: "string \<Rightarrow> (int \<times> int) list \<Rightarrow> (int \<times> int) list py_result" where
  "capitalised_words text ws =
     bind_result (drop_uncapitalised text ws)
       (\<lambda>ws'. bind_result (drop_uncapitalised text (rev ws')) (\<lambda>r. Inr (rev r)))"

function shrink_end :: "string \<Rightarrow> int \<Rightarrow> int \<Rightarrow> int py_result" where
  "shrink_end text lo hi =
     (if hi > lo
      then (case py_index text (hi - 1) of
              None \<Rightarrow> Inl IndexError
            | Some c \<Rightarrow> if \<not> py_isalnum c then shrink_end text lo (hi - 1) else Inr hi)
      else Inr hi)"
  by pat_completeness auto
termination
  by (relation "measure (\<lambda>(t, lo, hi). nat (hi - lo))") auto

declare shrink_end.simps [simp del]

definition trim_person_span :: "string \<Rightarrow> span \<Rightarrow> span py_result" where
  "trim_person_span text sp =
     (if \<not> List.member [''PERSON'', ''PER''] (entity_type sp) then Inr sp
      else
        bind_result
          (capitalised_words text (word_spans (s_start sp) (py_slice text (s_start sp) (s_end sp))))
          (\<lambda>ws. if ws = [] then Inr sp
               else bind_result (shrink_end text (fst (hd ws)) (snd (last ws)))
                 (\<lambda>e. Inr (sp\<lparr>s_start := fst (hd ws), s_end := e\<rparr>))))"

fun trim_person_spans :: "span list \<Rightarrow> string \<Rightarrow> span list py_result" where
  "trim_person_spans [] text = Inr []"
| "trim_person_spans (sp # sps) text =
     bind_result (trim_person_span text sp)
       (\<lambda>t. bind_result (trim_person_spans sps text) (\<lambda>ts. Inr (t # ts)))"

subsection \<open>One text node of the detection stage\<close>

definition exclusion_exempt :: "span \<Rightarrow> bool" where
  "exclusion_exempt d \<longleftrightarrow>
     protected d \<or> protected_source (source d)
     \<or> List.member irreversible_entity_types (entity_type d) \<or> starts_with (entity_type d) ''MNPI_''"

definition flag_irreversible :: "string list \<Rightarrow> span list \<Rightarrow> span list" where
  "flag_irreversible names ds =
     map (\<lambda>d. if List.member names (entity_type d) then d\<lparr>irreversible := True\<rparr> else d) ds"

definition default_enterprise :: "span list \<Rightarrow> span list" where
  "default_enterprise ds =
     map (\<lambda>d. case source d of None \<Rightarrow> d\<lparr>source := Some ''enterprise''\<rparr> | Some _ \<Rightarrow> d) ds"

definition tag_node :: "string list \<Rightarrow> nat \<Rightarrow> span \<Rightarrow> span" where
  "tag_node names i d =
     d\<lparr>node_index := i,
       reversible := \<not> List.member names (entity_type d) \<and> source d \<noteq> Some ''enterprise''
                     \<and> \<not> irreversible d \<and> \<not> protected d\<rparr>"

definition detect_node ::
  "string list \<Rightarrow> exclusion_list \<Rightarrow> checksum_registry \<Rightarrow> nat \<Rightarrow> string
     \<Rightarrow> span list \<Rightarrow> span list \<Rightarrow> span list \<Rightarrow> span list \<Rightarrow> span list py_result" where
  "detect_node irreversible_names ex reg i node_value regex_results ner_results mnpi_results enterprise_results =
     bind_result (trim_person_spans ner_results node_value)
       (\<lambda>ner.
          (let merged = arbiter_merge (flag_irreversible irreversible_names regex_results)
                          (flag_irreversible irreversible_names ner)
                          [mnpi_results, default_enterprise enterprise_results];
               exempt = filter exclusion_exempt merged;
               eligible = filter (\<lambda>d. \<not> exclusion_exempt d) merged;
               final = exempt @ filter_detections ex eligible node_value;
               validated = List.map_filter
                 (\<lambda>d. if protected d then Some d else validate_or_downgrade d reg node_value) final
           in Inr (map (tag_node irreversible_names i) validated)))"


subsection \<open>Facts about trimming\<close>

lemma py_isupper_isalnum: "py_isupper c \<Longrightarrow> py_isalnum c"
  by (auto simp: py_isupper_def py_isalnum_def Let_def)

lemma word_spans_bounds:
  "(a, b) \<in> set (word_spans off s) \<Longrightarrow> off \<le> a \<and> a < b \<and> b \<le> off + int (length s)"
proof (induction off s rule: word_spans.induct)
  case (1 off s)
  define sk where "sk = takeWhile is_space s"
  define rest where "rest = dropWhile is_space s"
  define w where "w = takeWhile (\<lambda>c. \<not> is_space c) rest"
  have len: "length s = length sk + length rest"
    unfolding sk_def rest_def by (metis length_append takeWhile_dropWhile_id)
  have lw: "length w \<le> length rest" by (simp add: w_def length_takeWhile_le)
  from "1.prems" have ne: "rest \<noteq> []"
    by (auto simp: word_spans.simps [of off s] rest_def Let_def split: if_splits)
  have "w \<noteq> []"
    using ne hd_dropWhile [of is_space s] unfolding w_def rest_def by (cases "dropWhile is_space s") auto
  then have pos: "0 < length w" by simp
  from "1.prems" ne consider "a = off + int (length sk)" "b = a + int (length w)"
    | "(a, b) \<in> set (word_spans (off + int (length sk) + int (length w)) (drop (length w) rest))"
    by (auto simp: word_spans.simps [of off s] rest_def sk_def w_def Let_def split: if_splits)
  then show ?case
  proof cases
    case 1
    with pos len lw show ?thesis by simp
  next
    case 2
    from "1.IH" [OF sk_def rest_def w_def refl refl ne 2] len lw show ?thesis by auto
  qed
qed

lemma word_spans_sorted: "sorted_wrt (\<lambda>u v. snd u \<le> fst v) (word_spans off s)"
proof (induction off s rule: word_spans.induct)
  case (1 off s)
  define sk where "sk = takeWhile is_space s"
  define rest where "rest = dropWhile is_space s"
  define w where "w = takeWhile (\<lambda>c. \<not> is_space c) rest"
  let ?b = "off + int (length sk) + int (length w)"
  show ?case
  proof (cases "rest = []")
    case True
    then show ?thesis by (simp add: word_spans.simps [of off s] rest_def)
  next
    case False
    have "word_spans off s = (off + int (length sk), ?b) # word_spans ?b (drop (length w) rest)"
      using False by (simp add: word_spans.simps [of off s] rest_def sk_def w_def Let_def)
    moreover have "sorted_wrt (\<lambda>u v. snd u \<le> fst v) (word_spans ?b (drop (length w) rest))"
      by (rule "1.IH" [OF sk_def rest_def w_def refl refl False])
    moreover have "\<forall>v \<in> set (word_spans ?b (drop (length w) rest)). ?b \<le> fst v"
      using word_spans_bounds by fastforce
    ultimately show ?thesis by simp
  qed
qed

lemma drop_uncapitalised_total:
  assumes "\<forall>(a, b) \<in> set ws. \<exists>c. py_index text a = Some c"
  shows "\<exists>ws'. drop_uncapitalised text ws = Inr ws' \<and> (\<exists>pre. ws = pre @ ws'
     \<and> (\<forall>(a, b) \<in> set pre. \<forall>c. py_index text a = Some c \<longrightarrow> \<not> py_isupper c))
     \<and> (ws' \<noteq> [] \<longrightarrow> (\<exists>c. py_index text (fst (hd ws')) = Some c \<and> py_isupper c))"
  using assms
proof (induction ws)
  case Nil
  then show ?case by simp
next
  case (Cons w ws)
  obtain a b where w: "w = (a, b)" by (cases w)
  from Cons.prems w obtain c where c: "py_index text a = Some c" by auto
  show ?case
  proof (cases "py_isupper c")
    case True
    with c w show ?thesis by auto
  next
    case False
    from Cons.IH Cons.prems obtain ws' pre where ws':
      "drop_uncapitalised text ws = Inr ws'" "ws = pre @ ws'"
      "\<forall>(a, b) \<in> set pre. \<forall>c. py_index text a = Some c \<longrightarrow> \<not> py_isupper c"
      "ws' \<noteq> [] \<longrightarrow> (\<exists>c. py_index text (fst (hd ws')) = Some c \<and> py_isupper c)"
      by auto
    have "w # ws = (w # pre) @ ws'" using ws' by simp
    moreover have "\<forall>(a, b) \<in> set (w # pre). \<forall>c. py_index text a = Some c \<longrightarrow> \<not> py_isupper c"
      using ws'(3) False c w by auto
    moreover have "drop_uncapitalised text (w # ws) = Inr ws'" using ws'(1) False c w by simp
    ultimately show ?thesis using ws'(4) by blast
  qed
qed

lemma capitalised_words_total:
  assumes "\<forall>(a, b) \<in> set ws. \<exists>c. py_index text a = Some c"
  shows "\<exists>r. capitalised_words text ws = Inr r \<and> (\<exists>pre post. ws = pre @ r @ post)
     \<and> (r \<noteq> [] \<longrightarrow> (\<exists>c. py_index text (fst (hd r)) = Some c \<and> py_isupper c))"
proof -
  from drop_uncapitalised_total [OF assms] obtain f pre where f:
    "drop_uncapitalised text ws = Inr f" "ws = pre @ f"
    "f \<noteq> [] \<longrightarrow> (\<exists>c. py_index text (fst (hd f)) = Some c \<and> py_isupper c)"
    by blast
  from assms f(2) have "\<forall>(a, b) \<in> set (rev f). \<exists>c. py_index text a = Some c" by auto
  from drop_uncapitalised_total [OF this] obtain g post where g:
    "drop_uncapitalised text (rev f) = Inr g" "rev f = post @ g"
    "\<forall>(a, b) \<in> set post. \<forall>c. py_index text a = Some c \<longrightarrow> \<not> py_isupper c"
    by blast
  have cw: "capitalised_words text ws = Inr (rev g)"
    using f(1) g(1) by (simp add: capitalised_words_def)
  have fg: "f = rev g @ rev post" using g(2) by (metis rev_append rev_rev_ident)
  have "\<exists>c. py_index text (fst (hd (rev g))) = Some c \<and> py_isupper c" if "rev g \<noteq> []"
    using that f(3) fg by (cases "rev g") auto
  moreover have "ws = pre @ rev g @ rev post" using f(2) fg by simp
  ultimately show ?thesis using cw by blast
qed

lemma shrink_end_total:
  assumes "lo < hi" "\<forall>k. lo \<le> k \<and> k < hi \<longrightarrow> (\<exists>c. py_index text k = Some c)"
    and "\<exists>c. py_index text lo = Some c \<and> py_isalnum c"
  shows "\<exists>e. shrink_end text lo hi = Inr e \<and> lo < e \<and> e \<le> hi"
  using assms
proof (induction "text" lo hi rule: shrink_end.induct)
  case (1 s lo hi)
  from "1.prems" obtain c where c: "py_index s (hi - 1) = Some c" by force
  show ?case
  proof (cases "py_isalnum c")
    case True
    with c "1.prems" show ?thesis by (subst shrink_end.simps) auto
  next
    case False
    with "1.prems" c have "lo < hi - 1" by (cases "lo = hi - 1") auto
    moreover have "\<forall>k. lo \<le> k \<and> k < hi - 1 \<longrightarrow> (\<exists>c. py_index s k = Some c)"
      using "1.prems" by auto
    ultimately obtain e where "shrink_end s lo (hi - 1) = Inr e \<and> lo < e \<and> e \<le> hi - 1"
      using "1.IH" [OF _ c False] "1.prems" by auto
    then show ?thesis using "1.prems"(1) c False by (subst shrink_end.simps) auto
  qed
qed

definition in_text :: "string \<Rightarrow> span \<Rightarrow> bool" where
  "in_text text s \<longleftrightarrow> 0 \<le> s_start s \<and> s_start s < s_end s \<and> s_end s \<le> int (length text)"

lemma in_text_proper: "in_text text s \<Longrightarrow> proper s"
  by (simp add: in_text_def proper_def)

lemma trim_person_span_total:
  assumes "in_text text sp"
  shows "\<exists>t. trim_person_span text sp = Inr t \<and> in_text text t \<and> s_start sp \<le> s_start t \<and> s_end t \<le> s_end sp
     \<and> t = sp\<lparr>s_start := s_start t, s_end := s_end t\<rparr>"
proof (cases "List.member [''PERSON'', ''PER''] (entity_type sp)")
  case False
  with assms show ?thesis by (auto simp: trim_person_span_def)
next
  case True
  let ?ws = "word_spans (s_start sp) (py_slice text (s_start sp) (s_end sp))"
  have len: "int (length (py_slice text (s_start sp) (s_end sp))) = s_end sp - s_start sp"
    using assms by (auto simp: in_text_def py_slice_in_range)
  have b: "s_start sp \<le> a \<and> a < b \<and> b \<le> s_end sp" if "(a, b) \<in> set ?ws" for a b
    using word_spans_bounds [OF that] len by simp
  have idx: "\<exists>c. py_index text k = Some c" if "s_start sp \<le> k" "k < s_end sp" for k
    using assms that by (auto simp: in_text_def py_index_def Let_def)
  have "\<forall>(a, b) \<in> set ?ws. \<exists>c. py_index text a = Some c" using b idx by fastforce
  from capitalised_words_total [OF this] obtain r where r:
    "capitalised_words text ?ws = Inr r" "\<exists>pre post. ?ws = pre @ r @ post"
    "r \<noteq> [] \<longrightarrow> (\<exists>c. py_index text (fst (hd r)) = Some c \<and> py_isupper c)"
    by blast
  show ?thesis
  proof (cases "r = []")
    case True
    with r(1) assms \<open>List.member _ _\<close> show ?thesis by (simp add: trim_person_span_def)
  next
    case False
    from r(2) False have "hd r \<in> set ?ws" "last r \<in> set ?ws" by auto
    then have hd: "s_start sp \<le> fst (hd r)" "fst (hd r) < snd (hd r)"
      and lst: "snd (last r) \<le> s_end sp" "fst (last r) < snd (last r)"
      using b [of "fst (hd r)" "snd (hd r)"] b [of "fst (last r)" "snd (last r)"] by simp_all
    have up: "\<exists>c. py_index text (fst (hd r)) = Some c \<and> py_isalnum c"
      using r(3) False py_isupper_isalnum by blast
    have "sorted_wrt (\<lambda>u v. snd u \<le> fst v) r"
      using word_spans_sorted [of "s_start sp" "py_slice text (s_start sp) (s_end sp)"] r(2)
      by (auto simp: sorted_wrt_append)
    then have ord: "fst (hd r) < snd (last r)"
      using False hd(2) lst(2) by (cases r) (fastforce dest: last_in_set split: if_splits)+
    have "\<forall>k. fst (hd r) \<le> k \<and> k < snd (last r) \<longrightarrow> (\<exists>c. py_index text k = Some c)"
      using idx hd(1) lst(1) by auto
    from shrink_end_total [OF ord this up] obtain e where e:
      "shrink_end text (fst (hd r)) (snd (last r)) = Inr e" "fst (hd r) < e" "e \<le> snd (last r)"
      by blast
    then have "trim_person_span text sp = Inr (sp\<lparr>s_start := fst (hd r), s_end := e\<rparr>)"
      using r(1) False True by (simp add: trim_person_span_def)
    then show ?thesis using e hd lst assms by (auto simp: in_text_def)
  qed
qed


lemma trim_person_spans_total:
  assumes "\<forall>s \<in> set ss. in_text text s"
  shows "\<exists>ts. trim_person_spans ss text = Inr ts \<and> (\<forall>t \<in> set ts. in_text text t)
     \<and> list_all2 (\<lambda>t s. s_start s \<le> s_start t \<and> s_end t \<le> s_end s \<and> t = s\<lparr>s_start := s_start t, s_end := s_end t\<rparr>) ts ss"
  using assms
proof (induction ss)
  case Nil
  then show ?case by simp
next
  case (Cons s ss)
  from Cons.prems obtain t where "trim_person_span text s = Inr t" "in_text text t"
    "s_start s \<le> s_start t" "s_end t \<le> s_end s" "t = s\<lparr>s_start := s_start t, s_end := s_end t\<rparr>"
    using trim_person_span_total [of "text" s] by auto
  moreover from Cons obtain ts where "trim_person_spans ss text = Inr ts" "\<forall>t \<in> set ts. in_text text t"
    "list_all2 (\<lambda>t s. s_start s \<le> s_start t \<and> s_end t \<le> s_end s \<and> t = s\<lparr>s_start := s_start t, s_end := s_end t\<rparr>) ts ss"
    by auto
  ultimately show ?case by simp
qed

subsection \<open>Facts about one node of the detection stage\<close>

lemma flag_irreversible_proper:
  "(\<forall>s \<in> set (flag_irreversible names ss). proper s) \<longleftrightarrow> (\<forall>s \<in> set ss. proper s)"
  unfolding flag_irreversible_def set_map ball_simps by (simp add: proper_def)

lemma default_enterprise_proper:
  "(\<forall>s \<in> set (default_enterprise ss). proper s) \<longleftrightarrow> (\<forall>s \<in> set ss. proper s)"
  by (auto simp: default_enterprise_def proper_def split: option.splits)

lemma covered_flag_irreversible [simp]: "covered (flag_irreversible names ss) = covered ss"
  by (auto simp: covered_def flag_irreversible_def)

lemma covered_default_enterprise [simp]: "covered (default_enterprise ss) = covered ss"
  by (auto simp: covered_def default_enterprise_def split: option.splits)

lemma flag_irreversible_must_mask:
  assumes "x \<in> set ss" "must_mask x \<or> List.member names (entity_type x)"
  shows "\<exists>y \<in> set (flag_irreversible names ss). s_start y = s_start x \<and> s_end y = s_end x \<and> must_mask y"
  using assms
  by (intro bexI [of _ "if List.member names (entity_type x) then x\<lparr>irreversible := True\<rparr> else x"])
    (auto simp: flag_irreversible_def must_mask_def with_flags_def Let_def)

lemma default_enterprise_must_mask:
  assumes "x \<in> set ss" "must_mask x \<or> source x = None"
  shows "\<exists>y \<in> set (default_enterprise ss). s_start y = s_start x \<and> s_end y = s_end x \<and> must_mask y"
  using assms
  by (intro bexI [of _ "case source x of None \<Rightarrow> x\<lparr>source := Some ''enterprise''\<rparr> | Some _ \<Rightarrow> x"])
    (auto simp: default_enterprise_def must_mask_def with_flags_def Let_def protected_source_def
      protected_sources_def split: option.splits)

lemma validated_keeps_protected:
  assumes "y \<in> set merged" "protected y"
  shows "y \<in> set (List.map_filter (\<lambda>d. if protected d then Some d else validate_or_downgrade d reg v)
      (filter exclusion_exempt merged @ filter_detections ex (filter (\<lambda>d. \<not> exclusion_exempt d) merged) v))"
  using assms by (force simp: map_filter_def exclusion_exempt_def)

text \<open>
  The spans a node hands to the arbiter: every detector's spans after flagging. A secret among
  them is masked irreversibly whatever the exclusion list and the checksum registry say.
\<close>

lemma detect_node_secret:
  assumes trim: "trim_person_spans ner_results v = Inr ner"
    and wf: "\<forall>s \<in> set (rx @ ner @ mnpi @ ent). proper s"
    and x: "(x \<in> set (rx @ ner) \<and> (must_mask x \<or> List.member names (entity_type x)))
      \<or> (x \<in> set mnpi \<and> must_mask x) \<or> (x \<in> set ent \<and> (must_mask x \<or> source x = None))"
  shows "\<exists>out. detect_node names ex reg i v rx ner_results mnpi ent = Inr out
    \<and> (\<exists>y \<in> set out. s_start y \<le> s_start x \<and> s_end x \<le> s_end y \<and> \<not> reversible y \<and> node_index y = i)"
proof -
  let ?r = "flag_irreversible names rx" and ?n = "flag_irreversible names ner"
    and ?e = "[mnpi, default_enterprise ent]"
  let ?m = "arbiter_merge ?r ?n ?e"
  have wf': "case (?r, ?n, ?e) of (r, n, ex) \<Rightarrow> \<forall>s \<in> set (r @ n @ concat ex). proper s"
    using wf flag_irreversible_proper [of names rx] flag_irreversible_proper [of names ner]
      default_enterprise_proper [of ent] by auto
  obtain z where z: "z \<in> set (?r @ ?n @ concat ?e)" "s_start z = s_start x" "s_end z = s_end x" "must_mask z"
    using x flag_irreversible_must_mask [of x rx names] flag_irreversible_must_mask [of x ner names]
      default_enterprise_must_mask [of x ent] by auto
  obtain y where y: "y \<in> set ?m" "s_start y \<le> s_start x" "s_end x \<le> s_end y" "irreversible y"
    using arbiter.resolve_secret [OF wf', of z] z by auto
  have "protected y" using arbiter_merge_flags [OF y(1)] y(4) by simp
  note kept = validated_keeps_protected [OF y(1) this, of reg v ex]
  have "tag_node names i y \<in> set (map (tag_node names i)
      (List.map_filter (\<lambda>d. if protected d then Some d else validate_or_downgrade d reg v)
        (filter exclusion_exempt ?m @ filter_detections ex (filter (\<lambda>d. \<not> exclusion_exempt d) ?m) v)))"
    using kept by simp
  moreover have "\<not> reversible (tag_node names i y)" "node_index (tag_node names i y) = i"
    "s_start (tag_node names i y) = s_start y" "s_end (tag_node names i y) = s_end y"
    using y(4) by (simp_all add: tag_node_def)
  ultimately show ?thesis
    using y(2,3) unfolding detect_node_def trim bind_result.simps Let_def
    by (simp only: sum.inject ex_simps simp_thms) (rule bexI [of _ "tag_node names i y"], simp_all)
qed

text \<open>
  What trimming may change of a span, which merged spans the two filters of the stage take out, and
  what the detectors report as secret. \<open>merged_reports\<close> is what the arbiter makes of all reports.
\<close>

definition trimmed_from :: "span \<Rightarrow> span \<Rightarrow> bool" where
  "trimmed_from t s \<longleftrightarrow> s_start s \<le> s_start t \<and> s_end t \<le> s_end s
     \<and> t = s\<lparr>s_start := s_start t, s_end := s_end t\<rparr>
     \<and> (if List.member [''PERSON'', ''PER''] (entity_type s) then True else t = s)"

definition merged_reports :: "string list \<Rightarrow> span list \<Rightarrow> span list \<Rightarrow> span list \<Rightarrow> span list \<Rightarrow> span list" where
  "merged_reports names rx ner mnpi ent =
     arbiter_merge (flag_irreversible names rx) (flag_irreversible names ner) [mnpi, default_enterprise ent]"

definition filtered_out :: "exclusion_list \<Rightarrow> checksum_registry \<Rightarrow> string \<Rightarrow> span \<Rightarrow> bool" where
  "filtered_out ex reg v m \<longleftrightarrow> \<not> protected m
     \<and> (\<not> exclusion_exempt m \<and> is_excluded ex (py_slice v (s_start m) (s_end m)) \<or> validate_or_downgrade m reg v = None)"

definition secret_report :: "string list \<Rightarrow> span list \<Rightarrow> span list \<Rightarrow> span list \<Rightarrow> span list \<Rightarrow> span \<Rightarrow> bool" where
  "secret_report names rx ner mnpi ent x \<longleftrightarrow>
     x \<in> set (rx @ ner) \<and> (must_mask x \<or> List.member names (entity_type x))
     \<or> x \<in> set mnpi \<and> must_mask x \<or> x \<in> set ent \<and> (must_mask x \<or> source x = None)"

lemma trim_person_spans_from:
  assumes "\<forall>s \<in> set ss. in_text v s"
  shows "\<exists>ts. trim_person_spans ss v = Inr ts \<and> (\<forall>t \<in> set ts. in_text v t) \<and> list_all2 trimmed_from ts ss"
  using assms
proof (induction ss)
  case (Cons s ss)
  from Cons.prems obtain t where t: "trim_person_span v s = Inr t" "in_text v t"
    "s_start s \<le> s_start t" "s_end t \<le> s_end s" "t = s\<lparr>s_start := s_start t, s_end := s_end t\<rparr>"
    using trim_person_span_total [of v s] by auto
  have "t = s" if "\<not> List.member [''PERSON'', ''PER''] (entity_type s)"
    using t(1) that by (simp add: trim_person_span_def)
  with t have "trimmed_from t s" by (simp add: trimmed_from_def)
  with Cons t show ?case by auto
qed simp

lemma validate_or_downgrade_place:
  "validate_or_downgrade m reg v = Some d \<Longrightarrow> s_start d = s_start m \<and> s_end d = s_end m"
  by (auto simp: validate_or_downgrade_def validate_detection_def Let_def split: option.splits if_splits)

text \<open>A position that some detector reported is in the result, unless a filter took out its merged span.\<close>

lemma detect_node_reports:
  assumes trim: "trim_person_spans ner_results v = Inr ner"
    and wf: "\<forall>s \<in> set (rx @ ner @ mnpi @ ent). proper s"
    and out: "detect_node names ex reg i v rx ner_results mnpi ent = Inr out"
    and x: "x \<in> set (rx @ ner @ mnpi @ ent)" "s_start x \<le> p" "p < s_end x"
  shows "(\<exists>y \<in> set out. s_start y \<le> p \<and> p < s_end y \<and> node_index y = i)
    \<or> (\<exists>m \<in> set (merged_reports names rx ner mnpi ent). s_start m \<le> p \<and> p < s_end m \<and> filtered_out ex reg v m)"
proof -
  let ?M = "merged_reports names rx ner mnpi ent"
  let ?r = "flag_irreversible names rx" and ?n = "flag_irreversible names ner"
    and ?e = "[mnpi, default_enterprise ent]"
  have wf': "case (?r, ?n, ?e) of (r, n, e) \<Rightarrow> \<forall>s \<in> set (r @ n @ concat e). proper s"
    using wf flag_irreversible_proper [of names rx] flag_irreversible_proper [of names ner]
      default_enterprise_proper [of ent] by auto
  have "p \<in> covered (rx @ ner @ mnpi @ ent)" using x by (auto simp: covered_def)
  then have "p \<in> covered (?r @ ?n @ concat ?e)" by simp
  then have "p \<in> covered ?M" using arbiter.resolve_covered [OF wf'] by (simp add: merged_reports_def)
  then obtain m where m: "m \<in> set ?M" "s_start m \<le> p" "p < s_end m" by (auto simp: covered_def)
  show ?thesis
  proof (cases "filtered_out ex reg v m")
    case False
    let ?final = "filter exclusion_exempt ?M @ filter_detections ex (filter (\<lambda>d. \<not> exclusion_exempt d) ?M) v"
    let ?val = "\<lambda>d. if protected d then Some d else validate_or_downgrade d reg v"
    have fin: "m \<in> set ?final"
      using m(1) False by (auto simp: filtered_out_def filter_detections_def exclusion_exempt_def)
    obtain d where d: "?val m = Some d" "s_start d = s_start m" "s_end d = s_end m"
      using False validate_or_downgrade_place [of m reg v] by (cases "?val m") (auto simp: filtered_out_def split: if_splits)
    have "d \<in> set (List.map_filter ?val ?final)" using fin d(1) by (force simp: map_filter_def)
    then have "tag_node names i d \<in> set out"
      using out unfolding detect_node_def trim bind_result.simps Let_def merged_reports_def by (auto simp del: set_append)
    moreover have "s_start (tag_node names i d) \<le> p" "p < s_end (tag_node names i d)" "node_index (tag_node names i d) = i"
      using d m by (simp_all add: tag_node_def)
    ultimately show ?thesis by blast
  qed (use m in blast)
qed

lemma collapse_into_subset: "collapse_into sp kept = Some k \<Longrightarrow> set k \<subseteq> insert sp (set kept)"
proof (induction kept arbitrary: k)
  case Nil
  then show ?case by simp
next
  case (Cons a kept)
  show ?case
  proof (cases "s_end sp \<le> s_start a \<or> s_end a \<le> s_start sp")
    case True
    with Cons.prems obtain k' where "collapse_into sp kept = Some k'" "k = a # k'" by auto
    with Cons.IH [of k'] show ?thesis by auto
  next
    case False
    with Cons.prems have "k = sp # kept \<or> k = a # kept" by (auto simp: Let_def split: if_splits)
    then show ?thesis by auto
  qed
qed

lemma collapse_overlaps_subset: "set (collapse_overlaps ss) \<subseteq> set ss"
proof -
  let ?f = "\<lambda>kept sp. case collapse_into sp kept of None \<Rightarrow> kept @ [sp] | Some k \<Rightarrow> k"
  have "set (foldl ?f kept xs) \<subseteq> set kept \<union> set xs" for kept xs
    by (induction xs arbitrary: kept) (fastforce dest: collapse_into_subset split: option.splits)+
  from this [of "[]" "sort_key (\<lambda>r. (s_start r, - s_end r)) ss"] show ?thesis
    by (simp add: collapse_overlaps_def)
qed

end
