(* ===== verification/Tokens.thy ===== *)
theory Tokens
  imports Detection
begin

text \<open>
  \<open>tokenization/tokenizer.py\<close>: the session state of a \<open>Tokenizer\<close>, \<open>_non_overlapping\<close>,
  \<open>_token_for\<close>, \<open>tokenize\<close> and \<open>get_mapping\<close>. The theory shows that
  \<open>_non_overlapping\<close> meets the overlap-resolver contract, that tokens are injective in
  (value, reversibility) for the whole session, and that the tokenized text is the original
  text with exactly the accepted spans replaced.
\<close>

subsection \<open>Session state\<close>

record session =
  per_type_counters :: "string \<rightharpoonup> nat"
  value_to_token :: "(string \<times> bool, string) dict"
  seed :: nat

definition new_tokenizer :: session where
  "new_tokenizer = \<lparr>per_type_counters = Map.empty, value_to_token = [], seed = 0\<rparr>"

text \<open>\<open>initialize_session\<close>: the argument is the value drawn by \<open>secrets.randbits(64)\<close>.\<close>

definition initialize_session :: "nat \<Rightarrow> session \<Rightarrow> session" where
  "initialize_session rnd se = se\<lparr>per_type_counters := Map.empty, value_to_token := [], seed := rnd\<rparr>"

definition get_mapping :: "session \<Rightarrow> (string, string) dict" where
  "get_mapping se = dict_update [] (map (\<lambda>((v, r), t). (v, t)) (value_to_token se))"

subsection \<open>Non-overlapping spans\<close>

text \<open>
  A detection whose \<open>start\<close> or \<open>end\<close> is missing or not an integer takes the \<open>except\<close>
  branch of the conversion loop; it is the constructor \<open>Malformed\<close>.
\<close>

datatype detection = Spn span | Malformed

fun valid_spans :: "nat \<Rightarrow> detection list \<Rightarrow> span list" where
  "valid_spans text_len [] = []"
| "valid_spans text_len (Malformed # ds) = valid_spans text_len ds"
| "valid_spans text_len (Spn sp # ds) =
     (if s_start sp < 0 \<or> s_end sp < 0 \<or> s_start sp \<ge> s_end sp \<or> s_end sp > int text_len
      then valid_spans text_len ds
      else sp # valid_spans text_len ds)"

definition merge_last :: "span \<Rightarrow> span \<Rightarrow> span" where
  "merge_last lst sp =
     lst\<lparr>s_end := max (s_end lst) (s_end sp),
         reversible := (if \<not> reversible lst \<or> \<not> reversible sp then False else reversible lst),
         protected := (if protected lst \<or> protected sp then True else protected lst)\<rparr>"

definition accept_span :: "span list \<Rightarrow> span \<Rightarrow> span list" where
  "accept_span accepted sp =
     (if accepted \<noteq> [] \<and> s_start sp < s_end (last accepted)
      then butlast accepted @ [merge_last (last accepted) sp]
      else accepted @ [sp])"

definition non_overlapping :: "string \<Rightarrow> detection list \<Rightarrow> span list" where
  "non_overlapping text detections =
     foldl accept_span []
       (sort_key (\<lambda>sp. (s_start sp, - s_end sp)) (valid_spans (length text) detections))"

subsection \<open>Tokens\<close>

definition mk_token :: "string \<Rightarrow> nat \<Rightarrow> string" where
  "mk_token ty n = ''['' @ ty @ ''_'' @ dec n @ '']''"

definition token_for ::
  "session \<Rightarrow> (string, string) dict \<Rightarrow> string \<Rightarrow> span \<Rightarrow> session \<times> (string, string) dict \<times> string" where
  "token_for se mapping original_value sp =
     (let rev_flag = reversible sp; key = (original_value, rev_flag)
      in case map_of (value_to_token se) key of
           Some token \<Rightarrow> (se, mapping, token)
         | None \<Rightarrow>
             (let short = take 20 (entity_type sp);
                  counter = (case per_type_counters se short of None \<Rightarrow> 0 | Some c \<Rightarrow> c);
                  token = mk_token short (seed se + counter);
                  se' = se\<lparr>value_to_token := AList.update key token (value_to_token se),
                           per_type_counters := (per_type_counters se)(short \<mapsto> counter + 1)\<rparr>
              in (se', if rev_flag then AList.update token original_value mapping else mapping, token)))"

fun tokenize_loop ::
  "string \<Rightarrow> span list \<Rightarrow> session \<Rightarrow> (string, string) dict \<Rightarrow> string list \<Rightarrow> int
     \<Rightarrow> session \<times> (string, string) dict \<times> string list \<times> int" where
  "tokenize_loop text [] se mapping pieces cursor = (se, mapping, pieces, cursor)"
| "tokenize_loop text (sp # sps) se mapping pieces cursor =
     (let (se', mapping', token) = token_for se mapping (py_slice text (s_start sp) (s_end sp)) sp
      in tokenize_loop text sps se' mapping'
           (pieces @ [py_slice text cursor (s_start sp), token]) (s_end sp))"

definition tokenize ::
  "session \<Rightarrow> string \<Rightarrow> detection list \<Rightarrow> session \<times> string \<times> (string, string) dict" where
  "tokenize se text detections =
     (if detections = [] then (se, text, [])
      else
        (let (se', mapping, pieces, cursor) =
               tokenize_loop text (non_overlapping text detections) se [] [] 0
         in (se', concat (pieces @ [py_slice text cursor (int (length text))]), mapping)))"

subsection \<open>Accepted spans meet the resolver contract\<close>

lemma valid_spans_in_text: "s \<in> set (valid_spans (length u) ds) \<Longrightarrow> in_text u s"
  by (induction "length u" ds rule: valid_spans.induct) (auto simp: in_text_def split: if_splits)

lemma merge_last_simps [simp]:
  "s_start (merge_last l s) = s_start l"
  "s_end (merge_last l s) = max (s_end l) (s_end s)"
  "reversible (merge_last l s) = (reversible l \<and> reversible s)"
  "protected (merge_last l s) = (protected l \<or> protected s)"
  "entity_type (merge_last l s) = entity_type l"
  by (auto simp: merge_last_def)

definition hides :: "span \<Rightarrow> span \<Rightarrow> bool" where
  "hides y x \<longleftrightarrow> s_start y \<le> s_start x \<and> s_end x \<le> s_end y \<and> (\<not> reversible x \<longrightarrow> \<not> reversible y)"

lemma hides_refl [simp]: "hides x x"
  by (simp add: hides_def)

lemma hides_trans: "hides z y \<Longrightarrow> hides y x \<Longrightarrow> hides z x"
  by (auto simp: hides_def)

lemma accept_span_step:
  assumes "ordered_disjoint acc" "\<forall>a \<in> set acc. in_text u a" "in_text u sp"
    and "\<forall>a \<in> set acc. s_start a \<le> s_start sp"
  shows "ordered_disjoint (accept_span acc sp) \<and> (\<forall>a \<in> set (accept_span acc sp). in_text u a)
    \<and> (\<forall>a \<in> set (accept_span acc sp). s_start a \<le> s_start sp)
    \<and> covered (accept_span acc sp) = covered acc \<union> {s_start sp ..< s_end sp}
    \<and> (\<forall>x \<in> set (sp # acc). \<exists>y \<in> set (accept_span acc sp). hides y x)"
proof (cases "acc \<noteq> [] \<and> s_start sp < s_end (last acc)")
  case True
  define l where "l = last acc"
  from True have acc: "acc = butlast acc @ [l]" by (simp add: l_def)
  have res: "accept_span acc sp = butlast acc @ [merge_last l sp]"
    using True by (simp add: accept_span_def l_def)
  have od: "ordered_disjoint (butlast acc @ [l])" and mem: "l \<in> set acc" "set (butlast acc) \<subseteq> set acc"
    using assms(1) acc True by (auto simp: l_def dest: in_set_butlastD)
  have l: "in_text u l" "s_start l \<le> s_start sp" "s_start sp < s_end l"
    using assms True mem by (auto simp: l_def)
  have "{s_start l ..< max (s_end l) (s_end sp)} = {s_start l ..< s_end l} \<union> {s_start sp ..< s_end sp}"
    using l assms(3) by (auto simp: in_text_def)
  moreover have "covered acc = covered (butlast acc) \<union> {s_start l ..< s_end l}"
    by (subst acc) simp
  ultimately have "covered (accept_span acc sp) = covered acc \<union> {s_start sp ..< s_end sp}"
    unfolding res by auto
  moreover have "ordered_disjoint (accept_span acc sp)"
    using od unfolding res by (auto simp: ordered_disjoint_def sorted_wrt_append)
  moreover have "\<exists>y \<in> set (accept_span acc sp). hides y x" if "x \<in> set (sp # acc)" for x
  proof -
    from that acc have "x = sp \<or> x = l \<or> x \<in> set (butlast acc)" by (metis Un_iff empty_iff empty_set set_ConsD set_append)
    then show ?thesis unfolding res using l by (auto simp: hides_def)
  qed
  ultimately show ?thesis
    using assms l mem unfolding res by (auto simp: in_text_def)
next
  case False
  then have res: "accept_span acc sp = acc @ [sp]" by (auto simp: accept_span_def)
  have "s_end a \<le> s_start sp" if "a \<in> set acc" for a
  proof -
    from that have ne: "acc \<noteq> []" by auto
    with False have l: "s_end (last acc) \<le> s_start sp" by auto
    have acc: "acc = butlast acc @ [last acc]" using ne by simp
    from assms(1) have "ordered_disjoint (butlast acc @ [last acc])" using acc by simp
    then have "a \<in> set (butlast acc) \<Longrightarrow> s_end a \<le> s_start (last acc)"
      by (auto simp: ordered_disjoint_def sorted_wrt_append)
    moreover have "s_start (last acc) < s_end (last acc)"
      using assms(2) ne by (auto simp: in_text_def)
    moreover have "a \<in> set (butlast acc) \<or> a = last acc"
      using that acc by (metis Un_iff empty_iff empty_set set_ConsD set_append)
    ultimately show ?thesis using l by auto
  qed
  then show ?thesis
    using assms unfolding res by (auto simp: ordered_disjoint_def sorted_wrt_append intro: hides_refl)
qed

lemma foldl_accept_span:
  assumes "ordered_disjoint acc" "\<forall>a \<in> set acc. in_text u a" "\<forall>s \<in> set ss. in_text u s"
    and "sorted (map s_start ss)" "\<forall>s \<in> set ss. \<forall>a \<in> set acc. s_start a \<le> s_start s"
  shows "ordered_disjoint (foldl accept_span acc ss) \<and> (\<forall>a \<in> set (foldl accept_span acc ss). in_text u a)
    \<and> covered (foldl accept_span acc ss) = covered acc \<union> covered ss
    \<and> (\<forall>x \<in> set (ss @ acc). \<exists>y \<in> set (foldl accept_span acc ss). hides y x)"
  using assms
proof (induction ss arbitrary: acc)
  case Nil
  then show ?case by (auto intro: hides_refl)
next
  case (Cons s ss)
  have step: "ordered_disjoint (accept_span acc s)" "\<forall>a \<in> set (accept_span acc s). in_text u a"
    "\<forall>a \<in> set (accept_span acc s). s_start a \<le> s_start s"
    "covered (accept_span acc s) = covered acc \<union> {s_start s ..< s_end s}"
    "\<forall>x \<in> set (s # acc). \<exists>y \<in> set (accept_span acc s). hides y x"
    using accept_span_step [of acc u s] Cons.prems by simp_all
  have "\<forall>t \<in> set ss. \<forall>a \<in> set (accept_span acc s). s_start a \<le> s_start t"
    using step(3) Cons.prems(4) by fastforce
  with Cons.IH [OF step(1,2)] Cons.prems have IH:
    "ordered_disjoint (foldl accept_span (accept_span acc s) ss)"
    "\<forall>a \<in> set (foldl accept_span (accept_span acc s) ss). in_text u a"
    "covered (foldl accept_span (accept_span acc s) ss) = covered (accept_span acc s) \<union> covered ss"
    "\<forall>x \<in> set (ss @ accept_span acc s). \<exists>y \<in> set (foldl accept_span (accept_span acc s) ss). hides y x"
    by simp_all
  have "\<exists>y \<in> set (foldl accept_span (accept_span acc s) ss). hides y x" if x: "x \<in> set ((s # ss) @ acc)" for x
  proof (cases "x \<in> set ss")
    case True
    with IH(4) show ?thesis by simp
  next
    case False
    with x step(5) obtain y where y: "y \<in> set (accept_span acc s)" "hides y x" by auto
    with IH(4) obtain z where "z \<in> set (foldl accept_span (accept_span acc s) ss)" "hides z y" by auto
    with y show ?thesis by (blast intro: hides_trans)
  qed
  with IH step(4) show ?case by auto
qed

lemma sorted_key_start:
  "sorted (map (\<lambda>sp. (s_start sp, - s_end sp)) ss) \<Longrightarrow> sorted (map s_start ss)"
  by (fastforce simp: sorted_iff_nth_mono)

lemma non_overlapping_properties:
  shows "ordered_disjoint (non_overlapping u ds)"
    and "\<forall>a \<in> set (non_overlapping u ds). in_text u a"
    and "covered (non_overlapping u ds) = covered (valid_spans (length u) ds)"
    and "\<forall>x \<in> set (valid_spans (length u) ds). \<exists>y \<in> set (non_overlapping u ds). hides y x"
proof -
  let ?k = "\<lambda>sp. (s_start sp, - s_end sp)"
  let ?ss = "sort_key ?k (valid_spans (length u) ds)"
  have "sorted (map s_start ?ss)" by (rule sorted_key_start) (rule sorted_sort_key)
  then have P: "ordered_disjoint (non_overlapping u ds)
      \<and> (\<forall>a \<in> set (non_overlapping u ds). in_text u a)
      \<and> covered (non_overlapping u ds) = covered ?ss
      \<and> (\<forall>x \<in> set ?ss. \<exists>y \<in> set (non_overlapping u ds). hides y x)"
    using foldl_accept_span [of "[]" u ?ss] valid_spans_in_text [of _ u ds]
    by (simp add: non_overlapping_def ordered_disjoint_def)
  moreover have "covered ?ss = covered (valid_spans (length u) ds)" by (rule covered_cong_set) simp
  ultimately show "ordered_disjoint (non_overlapping u ds)"
    and "\<forall>a \<in> set (non_overlapping u ds). in_text u a"
    and "covered (non_overlapping u ds) = covered (valid_spans (length u) ds)"
    and "\<forall>x \<in> set (valid_spans (length u) ds). \<exists>y \<in> set (non_overlapping u ds). hides y x"
    by simp_all
qed

interpretation tokenizer_spans: span_resolution
  "\<lambda>(u, ds). non_overlapping u ds" "\<lambda>(u, ds). valid_spans (length u) ds" "\<lambda>_. True"
  "\<lambda>s. \<not> reversible s" "\<lambda>s. \<not> reversible s"
proof unfold_locales
  fix i :: "string \<times> detection list" and s x :: span
  obtain u ds where i: "i = (u, ds)" by (cases i)
  show "proper s" if "s \<in> set (case i of (u, ds) \<Rightarrow> non_overlapping u ds)"
    using that non_overlapping_properties(2) [of u ds] by (auto simp: i intro: in_text_proper)
  show "ordered_disjoint (case i of (u, ds) \<Rightarrow> non_overlapping u ds)"
    using non_overlapping_properties(1) [of u ds] by (simp add: i)
  show "covered (case i of (u, ds) \<Rightarrow> non_overlapping u ds)
      = covered (case i of (u, ds) \<Rightarrow> valid_spans (length u) ds)"
    using non_overlapping_properties(3) [of u ds] by (simp add: i)
  show "\<exists>y \<in> set (case i of (u, ds) \<Rightarrow> non_overlapping u ds).
      s_start y \<le> s_start x \<and> s_end x \<le> s_end y \<and> \<not> reversible y"
    if "x \<in> set (case i of (u, ds) \<Rightarrow> valid_spans (length u) ds)" "\<not> reversible x"
    using that non_overlapping_properties(4) [of u ds] by (fastforce simp: i hides_def)
qed

subsection \<open>Tokens are injective\<close>

lemma mk_token_inj: "mk_token ty m = mk_token ty' n \<longleftrightarrow> ty = ty' \<and> m = n"
proof
  assume "mk_token ty m = mk_token ty' n"
  then have "rev (ty @ ''_'' @ dec m) = rev (ty' @ ''_'' @ dec n)" by (simp add: mk_token_def)
  then have eq: "rev (dec m) @ CHR ''_'' # rev ty = rev (dec n) @ CHR ''_'' # rev ty'" by simp
  have sep: "\<not> is_digit (CHR ''_'')" by (simp add: is_digit_def)
  have tw: "takeWhile is_digit (rev (dec k) @ CHR ''_'' # r) = rev (dec k)" for k r
    using sep dec_digits [of _ k] by (simp add: takeWhile_append)
  have "rev (dec m) = rev (dec n)" using arg_cong [OF eq, of "takeWhile is_digit"] by (simp only: tw)
  with eq show "ty = ty' \<and> m = n" by simp
qed simp

definition session_ok :: "session \<Rightarrow> bool" where
  "session_ok se \<longleftrightarrow>
     (\<forall>k t. map_of (value_to_token se) k = Some t \<longrightarrow>
        (\<exists>ty n c. t = mk_token ty (seed se + n) \<and> length ty \<le> 20
           \<and> per_type_counters se ty = Some c \<and> n < c))
     \<and> (\<forall>k k' t. map_of (value_to_token se) k = Some t \<longrightarrow> map_of (value_to_token se) k' = Some t \<longrightarrow> k = k')"

lemma session_ok_initialize: "session_ok (initialize_session rnd se)"
  by (simp add: session_ok_def initialize_session_def)

text \<open>The mapping entries of a session are exactly its reversible tokens.\<close>

definition mapping_ok :: "session \<Rightarrow> (string \<rightharpoonup> string) \<Rightarrow> bool" where
  "mapping_ok se M \<longleftrightarrow> (\<forall>t v. M t = Some v \<longleftrightarrow> map_of (value_to_token se) (v, True) = Some t)"

lemma mapping_ok_initialize: "mapping_ok (initialize_session rnd se) Map.empty"
  by (simp add: mapping_ok_def initialize_session_def)

lemma token_for_cases:
  assumes "token_for se m v sp = (se', m', t)"
  obtains (hit) "map_of (value_to_token se) (v, reversible sp) = Some t" "se' = se" "m' = m"
  | (fresh) ty c where "map_of (value_to_token se) (v, reversible sp) = None"
      "ty = take 20 (entity_type sp)" "c = (case per_type_counters se ty of None \<Rightarrow> 0 | Some c \<Rightarrow> c)"
      "t = mk_token ty (seed se + c)"
      "map_of (value_to_token se') = (map_of (value_to_token se))((v, reversible sp) \<mapsto> t)"
      "per_type_counters se' = (per_type_counters se)(ty \<mapsto> c + 1)" "seed se' = seed se"
      "m' = (if reversible sp then AList.update t v m else m)"
proof (cases "map_of (value_to_token se) (v, reversible sp)")
  case (Some t')
  with assms show ?thesis by (intro hit) (simp_all add: token_for_def Let_def)
next
  case None
  with assms show ?thesis
    by (intro fresh [OF None refl refl]) (auto simp: token_for_def Let_def map_of_update)
qed

lemma token_for_preserves:
  assumes tf: "token_for se m v sp = (se', m', t)" and ok: "session_ok se"
    and mo: "mapping_ok se (M ++ map_of m)"
  shows "session_ok se' \<and> mapping_ok se' (M ++ map_of m') \<and> seed se' = seed se
    \<and> map_of (value_to_token se) \<subseteq>\<^sub>m map_of (value_to_token se')
    \<and> map_of (value_to_token se') (v, reversible sp) = Some t"
  using tf
proof (cases rule: token_for_cases)
  case hit
  with ok mo show ?thesis by (simp add: map_le_def)
next
  case (fresh ty c)
  have new: "map_of (value_to_token se) k \<noteq> Some t" for k
  proof
    assume "map_of (value_to_token se) k = Some t"
    with ok obtain ty' n c' where "t = mk_token ty' (seed se + n)" "per_type_counters se ty' = Some c'" "n < c'"
      unfolding session_ok_def by blast
    with fresh(3,4) show False by (simp add: mk_token_inj)
  qed
  have "length ty \<le> 20" using fresh(2) by simp
  have A: "\<exists>ty n c. t' = mk_token ty (seed se' + n) \<and> length ty \<le> 20 \<and> per_type_counters se' ty = Some c \<and> n < c"
    if "map_of (value_to_token se') k = Some t'" for k t'
  proof (cases "k = (v, reversible sp)")
    case True
    with that fresh \<open>length ty \<le> 20\<close> have
      "t' = mk_token ty (seed se' + c) \<and> length ty \<le> 20 \<and> per_type_counters se' ty = Some (c + 1) \<and> c < c + 1"
      by simp
    then show ?thesis by blast
  next
    case False
    with that fresh have "map_of (value_to_token se) k = Some t'" by simp
    with ok obtain ty' n c' where t': "t' = mk_token ty' (seed se + n)" "length ty' \<le> 20"
      "per_type_counters se ty' = Some c'" "n < c'"
      unfolding session_ok_def by blast
    have "\<exists>c''. per_type_counters se' ty' = Some c'' \<and> n < c''"
      using t'(3,4) fresh(3,6) by (cases "ty' = ty") auto
    then obtain c'' where "per_type_counters se' ty' = Some c''" "n < c''" by blast
    with t'(1,2) show ?thesis unfolding fresh(7) by blast
  qed
  have B: "k = k'" if "map_of (value_to_token se') k = Some t'" "map_of (value_to_token se') k' = Some t'" for k k' t'
  proof -
    let ?q = "(v, reversible sp)"
    have new': "map_of (value_to_token se) j \<noteq> Some t'" if "t' = t" for j
      using new that by simp
    consider "k = ?q" "k' = ?q" | "k = ?q" "k' \<noteq> ?q" | "k \<noteq> ?q" "k' = ?q" | "k \<noteq> ?q" "k' \<noteq> ?q" by blast
    then show ?thesis
    proof cases
      case 4
      with that have "map_of (value_to_token se) k = Some t'" "map_of (value_to_token se) k' = Some t'"
        unfolding fresh(5) by simp_all
      with ok show ?thesis unfolding session_ok_def by blast
    qed (use that new' in \<open>simp_all add: fresh(5)\<close>)
  qed
  have C: "mapping_ok se' (M ++ map_of m')"
  proof (cases "reversible sp")
    case True
    have upd: "M ++ map_of m' = (M ++ map_of m)(t \<mapsto> v)"
      using True fresh(8) by (simp add: map_of_update)
    have "M' t' = Some v' \<longleftrightarrow> map_of (value_to_token se') (v', True) = Some t'"
      if "M' = (M ++ map_of m)(t \<mapsto> v)" for M' t' v'
      using mo new fresh(1,5) True that unfolding mapping_ok_def by auto
    then show ?thesis unfolding mapping_ok_def upd by blast
  next
    case False
    with mo fresh(5,8) show ?thesis unfolding mapping_ok_def by simp
  qed
  have "session_ok se'"
    unfolding session_ok_def using A B by blast
  moreover have "map_of (value_to_token se) \<subseteq>\<^sub>m map_of (value_to_token se')"
    using fresh(1,5) by (simp add: map_le_def dom_def)
  ultimately show ?thesis using C fresh(5,7) by simp
qed

subsection \<open>The tokenized text\<close>

text \<open>
  What the loop builds, as a specification: the text between the accepted spans, with every
  span replaced by the image under \<open>f\<close>.
\<close>

fun render :: "string \<Rightarrow> int \<Rightarrow> span list \<Rightarrow> (span \<Rightarrow> string) \<Rightarrow> string" where
  "render u cur [] f = py_slice u cur (int (length u))"
| "render u cur (s # ss) f = py_slice u cur (s_start s) @ f s @ render u (s_end s) ss f"

definition span_value :: "string \<Rightarrow> span \<Rightarrow> string" where
  "span_value u s = py_slice u (s_start s) (s_end s)"

definition session_token :: "session \<Rightarrow> string \<Rightarrow> span \<Rightarrow> string" where
  "session_token se u s = the (map_of (value_to_token se) (span_value u s, reversible s))"

lemma render_cong: "(\<And>s. s \<in> set ss \<Longrightarrow> f s = g s) \<Longrightarrow> render u cur ss f = render u cur ss g"
  by (induction ss arbitrary: cur) auto

lemma render_original:
  assumes "ordered_disjoint ss" "\<forall>s \<in> set ss. in_text u s" "0 \<le> cur" "cur \<le> int (length u)"
    "\<forall>s \<in> set ss. cur \<le> s_start s"
  shows "render u cur ss (span_value u) = py_slice u cur (int (length u))"
  using assms
proof (induction ss arbitrary: cur)
  case Nil
  then show ?case by simp
next
  case (Cons s ss)
  have s: "in_text u s" "cur \<le> s_start s" using Cons.prems by auto
  have "\<forall>t \<in> set ss. s_end s \<le> s_start t" using Cons.prems(1) by (simp add: ordered_disjoint_def)
  moreover have "ordered_disjoint ss" using Cons.prems(1) by (simp add: ordered_disjoint_def)
  ultimately have IH: "render u (s_end s) ss (span_value u) = py_slice u (s_end s) (int (length u))"
    using Cons.IH [of "s_end s"] Cons.prems s by (simp add: in_text_def)
  have "py_slice u (s_start s) (s_end s) @ py_slice u (s_end s) (int (length u)) = py_slice u (s_start s) (int (length u))"
    using s by (intro py_slice_append) (auto simp: in_text_def)
  moreover have "py_slice u cur (s_start s) @ py_slice u (s_start s) (int (length u)) = py_slice u cur (int (length u))"
    using s Cons.prems(3) by (intro py_slice_append) (auto simp: in_text_def)
  ultimately show ?case by (simp add: IH span_value_def [of u s])
qed

lemma tokenize_loop_properties:
  assumes "tokenize_loop u ss se m ps cur = (se', m', ps', cur')" "session_ok se" "mapping_ok se (M ++ map_of m)"
  shows "session_ok se' \<and> mapping_ok se' (M ++ map_of m') \<and> seed se' = seed se
    \<and> map_of (value_to_token se) \<subseteq>\<^sub>m map_of (value_to_token se')
    \<and> (\<forall>s \<in> set ss. map_of (value_to_token se') (span_value u s, reversible s) = Some (session_token se' u s))
    \<and> concat (ps' @ [py_slice u cur' (int (length u))]) = concat ps @ render u cur ss (session_token se' u)"
  using assms
proof (induction ss arbitrary: se m ps cur)
  case Nil
  then show ?case by simp
next
  case (Cons s ss)
  obtain se1 m1 t where tf: "token_for se m (py_slice u (s_start s) (s_end s)) s = (se1, m1, t)"
    by (metis prod_cases3)
  note step = token_for_preserves [OF tf Cons.prems(2,3)]
  from Cons.prems(1) tf have rest:
    "tokenize_loop u ss se1 m1 (ps @ [py_slice u cur (s_start s), t]) (s_end s) = (se', m', ps', cur')"
    by simp
  note IH = Cons.IH [OF rest conjunct1 [OF step] conjunct1 [OF conjunct2 [OF step]]]
  have "map_of (value_to_token se') (span_value u s, reversible s) = Some t"
    using step IH by (auto simp: span_value_def map_le_def dom_def)
  then have "session_token se' u s = t" by (simp add: session_token_def)
  with IH step \<open>map_of (value_to_token se') (span_value u s, reversible s) = Some t\<close> show ?case
    by (auto intro: map_le_trans)
qed

lemma tokenize_properties:
  assumes "tokenize se u ds = (se', out, m)" "session_ok se" "mapping_ok se M"
  shows "session_ok se'" and "mapping_ok se' (M ++ map_of m)" and "seed se' = seed se"
    and "map_of (value_to_token se) \<subseteq>\<^sub>m map_of (value_to_token se')"
    and "\<forall>s \<in> set (non_overlapping u ds).
      map_of (value_to_token se') (span_value u s, reversible s) = Some (session_token se' u s)"
    and "out = render u 0 (non_overlapping u ds) (session_token se' u)"
proof -
  have all: "session_ok se' \<and> mapping_ok se' (M ++ map_of m) \<and> seed se' = seed se
    \<and> map_of (value_to_token se) \<subseteq>\<^sub>m map_of (value_to_token se')
    \<and> (\<forall>s \<in> set (non_overlapping u ds). map_of (value_to_token se') (span_value u s, reversible s)
         = Some (session_token se' u s))
    \<and> out = render u 0 (non_overlapping u ds) (session_token se' u)"
  proof (cases "ds = []")
    case True
    with assms show ?thesis
      by (auto simp: tokenize_def non_overlapping_def py_slice_full)
  next
    case False
    obtain m' ps cur where l: "tokenize_loop u (non_overlapping u ds) se [] [] 0 = (se', m', ps, cur)"
      and o: "out = concat (ps @ [py_slice u cur (int (length u))])" "m = m'"
      using assms(1) False by (auto simp: tokenize_def Let_def split: prod.splits)
    from tokenize_loop_properties [OF l assms(2), of M] assms(3) o show ?thesis by simp
  qed
  then show "session_ok se'" and "mapping_ok se' (M ++ map_of m)" and "seed se' = seed se"
    and "map_of (value_to_token se) \<subseteq>\<^sub>m map_of (value_to_token se')"
    and "\<forall>s \<in> set (non_overlapping u ds).
      map_of (value_to_token se') (span_value u s, reversible s) = Some (session_token se' u s)"
    and "out = render u 0 (non_overlapping u ds) (session_token se' u)"
    by blast+
qed

subsection \<open>The tokenized text does not depend on the masked values\<close>

definition same_values :: "span list \<Rightarrow> string \<Rightarrow> string \<Rightarrow> bool" where
  "same_values ss u v \<longleftrightarrow>
     (\<forall>s \<in> set ss. \<forall>t \<in> set ss. span_value u s = span_value u t \<longleftrightarrow> span_value v s = span_value v t)"

definition same_lookups :: "span list \<Rightarrow> string \<Rightarrow> string \<Rightarrow> session \<Rightarrow> session \<Rightarrow> bool" where
  "same_lookups ss u v se te \<longleftrightarrow> per_type_counters se = per_type_counters te \<and> seed se = seed te
     \<and> (\<forall>s \<in> set ss. map_of (value_to_token se) (span_value u s, reversible s)
            = map_of (value_to_token te) (span_value v s, reversible s))"

lemma token_for_simulation:
  assumes tu: "token_for se m (span_value u s) s = (se', m', t)"
    and tv: "token_for te n (span_value v s) s = (te', n', t')"
    and rel: "same_lookups ss u v se te" and pat: "same_values ss u v" and s: "s \<in> set ss"
  shows "same_lookups ss u v se' te'"
  using tu
proof (cases rule: token_for_cases)
  case hit
  note hu = hit
  from tv show ?thesis
  proof (cases rule: token_for_cases)
    case hit
    with hu rel show ?thesis by simp
  next
    case (fresh ty c)
    with hu(1) rel s show ?thesis by (simp add: same_lookups_def)
  qed
next
  case (fresh ty c)
  note fu = fresh
  from tv show ?thesis
  proof (cases rule: token_for_cases)
    case hit
    with fu(1) rel s show ?thesis by (simp add: same_lookups_def)
  next
    case (fresh ty' c')
    have tok: "t = t'" "per_type_counters se' = per_type_counters te'" "seed se' = seed te'"
      using fu fresh rel by (simp_all add: same_lookups_def)
    have "map_of (value_to_token se') (span_value u r, reversible r)
          = map_of (value_to_token te') (span_value v r, reversible r)" if r: "r \<in> set ss" for r
    proof -
      have "span_value u r = span_value u s \<longleftrightarrow> span_value v r = span_value v s"
        using pat r s by (simp add: same_values_def)
      with rel r show ?thesis unfolding fu(5) fresh(5) tok(1) by (auto simp: same_lookups_def)
    qed
    with tok show ?thesis by (simp add: same_lookups_def)
  qed
qed

lemma tokenize_loop_simulation:
  assumes "tokenize_loop u ss se m ps cur = (se1, m1, ps1, cur1)"
    and "tokenize_loop v ss te n qs dur = (te1, n1, qs1, dur1)"
    and "same_lookups all u v se te" "same_values all u v" "set ss \<subseteq> set all"
  shows "same_lookups all u v se1 te1"
  using assms
proof (induction ss arbitrary: se te m n ps qs cur dur)
  case Nil
  then show ?case by simp
next
  case (Cons s ss)
  obtain se' m' t where tu: "token_for se m (span_value u s) s = (se', m', t)" by (metis prod_cases3)
  obtain te' n' t' where tv: "token_for te n (span_value v s) s = (te', n', t')" by (metis prod_cases3)
  have "same_lookups all u v se' te'"
    using token_for_simulation [OF tu tv Cons.prems(3,4)] Cons.prems(5) by simp
  moreover from Cons.prems(1) tu
  have "tokenize_loop u ss se' m' (ps @ [py_slice u cur (s_start s), t]) (s_end s) = (se1, m1, ps1, cur1)"
    by (simp add: span_value_def)
  moreover from Cons.prems(2) tv
  have "tokenize_loop v ss te' n' (qs @ [py_slice v dur (s_start s), t']) (s_end s) = (te1, n1, qs1, dur1)"
    by (simp add: span_value_def)
  ultimately show ?case using Cons.IH Cons.prems(4,5) by simp
qed

definition agree_outside :: "span list \<Rightarrow> string \<Rightarrow> string \<Rightarrow> bool" where
  "agree_outside ss u v \<longleftrightarrow> length u = length v
     \<and> (\<forall>i < length u. int i \<notin> covered ss \<longrightarrow> u ! i = v ! i)"

lemma agree_outside_code [code]:
  "agree_outside ss u v \<longleftrightarrow> length u = length v
     \<and> list_all (\<lambda>(i, c, d). c = d \<or> int i \<in> covered ss) (enumerate 0 (zip u v))"
  unfolding agree_outside_def list_all_length by (auto simp: nth_enumerate_eq)

lemma py_slice_agree:
  assumes "agree_outside all u v" "0 \<le> a" "a \<le> b" "b \<le> int (length u)"
    and "\<forall>i. a \<le> i \<and> i < b \<longrightarrow> i \<notin> covered all"
  shows "py_slice u a b = py_slice v a b"
proof -
  have len: "length u = length v" using assms(1) by (simp add: agree_outside_def)
  have "take (nat b - nat a) (drop (nat a) u) = take (nat b - nat a) (drop (nat a) v)"
  proof (rule nth_equalityI)
    fix i assume "i < length (take (nat b - nat a) (drop (nat a) u))"
    then have "nat a + i < length u" "i < nat b - nat a" by auto
    moreover from this(2) assms(2,3) have "int (nat a + i) \<notin> covered all"
      by (intro assms(5) [rule_format]) auto
    ultimately show "take (nat b - nat a) (drop (nat a) u) ! i = take (nat b - nat a) (drop (nat a) v) ! i"
      using assms(1) by (simp add: agree_outside_def)
  qed (simp add: len)
  with assms(2-4) len show ?thesis by (simp add: py_slice_in_range)
qed

lemma render_agree:
  assumes "agree_outside all u v" "ordered_disjoint ss" "\<forall>s \<in> set ss. in_text u s"
    and "0 \<le> cur" "cur \<le> int (length u)" "\<forall>s \<in> set ss. cur \<le> s_start s"
    and "\<forall>i. cur \<le> i \<and> i \<in> covered all \<longrightarrow> i \<in> covered ss"
    and "\<forall>s \<in> set ss. f s = g s"
  shows "render u cur ss f = render v cur ss g"
  using assms(2-)
proof (induction ss arbitrary: cur)
  case Nil
  have "length u = length v" using assms(1) by (simp add: agree_outside_def)
  moreover have "py_slice u cur (int (length u)) = py_slice v cur (int (length u))"
    using Nil by (intro py_slice_agree [OF assms(1)]) auto
  ultimately show ?case by simp
next
  case (Cons s ss)
  have s: "in_text u s" "cur \<le> s_start s" using Cons.prems by auto
  have after: "\<forall>t \<in> set ss. s_end s \<le> s_start t" and od: "ordered_disjoint ss"
    using Cons.prems(1) by (auto simp: ordered_disjoint_def)
  have free: "i \<notin> covered all" if "cur \<le> i" "i < s_start s" for i
  proof
    assume "i \<in> covered all"
    with that(1) Cons.prems(6) have "i \<in> covered (s # ss)" by blast
    with that(2) after s(1) show False by (fastforce simp: covered_def in_text_def)
  qed
  have "py_slice u cur (s_start s) = py_slice v cur (s_start s)"
    using s Cons.prems(3) free by (intro py_slice_agree [OF assms(1)]) (auto simp: in_text_def)
  moreover have "render u (s_end s) ss f = render v (s_end s) ss g"
  proof (rule Cons.IH [OF od])
    show "\<forall>i. s_end s \<le> i \<and> i \<in> covered all \<longrightarrow> i \<in> covered ss"
    proof (intro allI impI)
      fix i assume "s_end s \<le> i \<and> i \<in> covered all"
      moreover with s have "cur \<le> i" by (simp add: in_text_def)
      ultimately have "i \<in> covered (s # ss)" "s_end s \<le> i" using Cons.prems(6) by blast+
      then show "i \<in> covered ss" by (auto simp: covered_def)
    qed
  qed (use Cons.prems s after in \<open>auto simp: in_text_def\<close>)
  ultimately show ?case using Cons.prems(7) by simp
qed

text \<open>
  Two texts that differ only inside the accepted spans, with the same pattern of equal values,
  give the same tokenized text: from it nothing of the masked values can be told apart but
  which of them are equal.
\<close>

lemma tokenize_same_output:
  assumes agree: "agree_outside (valid_spans (length u) ds) u v"
    and pat: "same_values (non_overlapping u ds) u v"
  shows "fst (snd (tokenize (initialize_session rnd se) u ds))
       = fst (snd (tokenize (initialize_session rnd te) v ds))"
proof (cases "ds = []")
  case True
  with agree have "length u = length v" "\<forall>i < length u. u ! i = v ! i"
    by (simp_all add: agree_outside_def)
  then have "u = v" by (simp add: nth_equalityI)
  with True show ?thesis by (simp add: tokenize_def)
next
  case False
  let ?su = "initialize_session rnd se" and ?sv = "initialize_session rnd te"
  let ?ss = "non_overlapping u ds"
  have len: "length u = length v" using agree by (simp add: agree_outside_def)
  then have ss: "non_overlapping v ds = ?ss" by (simp add: non_overlapping_def)
  note P = non_overlapping_properties [of u ds]
  obtain se1 out m where tu: "tokenize ?su u ds = (se1, out, m)" by (metis prod_cases3)
  obtain te1 out' n where tv: "tokenize ?sv v ds = (te1, out', n)" by (metis prod_cases3)
  obtain m1 ps c where lu: "tokenize_loop u ?ss ?su [] [] 0 = (se1, m1, ps, c)"
    using tu False by (auto simp: tokenize_def Let_def split: prod.splits)
  obtain n1 qs d where lv: "tokenize_loop v ?ss ?sv [] [] 0 = (te1, n1, qs, d)"
    using tv False unfolding tokenize_def ss by (auto simp: Let_def split: prod.splits)
  have "same_lookups ?ss u v ?su ?sv"
    by (simp add: same_lookups_def initialize_session_def)
  from tokenize_loop_simulation [OF lu lv this pat] have "same_lookups ?ss u v se1 te1" by simp
  then have tok: "\<forall>s \<in> set ?ss. session_token se1 u s = session_token te1 v s"
    by (simp add: same_lookups_def session_token_def)
  have "out = render u 0 ?ss (session_token se1 u)"
    using tokenize_properties(6) [OF tu session_ok_initialize mapping_ok_initialize] .
  moreover have "out' = render v 0 ?ss (session_token te1 v)"
    using tokenize_properties(6) [OF tv session_ok_initialize mapping_ok_initialize] by (simp only: ss)
  moreover have "render u 0 ?ss (session_token se1 u) = render v 0 ?ss (session_token te1 v)"
    using P(2) by (intro render_agree [OF agree P(1) P(2)]) (auto simp: P(3) tok in_text_def)
  ultimately show ?thesis by (simp add: tu tv)
qed

end
