(* ===== verification/PyRegex.thy ===== *)
theory PyRegex
  imports Prelude
begin

text \<open>
  The fragment of Python's \<open>re\<close> that the modelled patterns use, with its backtracking order:
  character classes, greedy repetition of a class, sequencing, ordered alternation, one capture
  group, one-character lookbehind and lookahead assertions, and \<open>$\<close>. A matcher state is the
  reversed text before the position, the text from the position on, and the capture; \<open>rmatch\<close>
  lists the states after a match in the order \<open>re\<close> tries them, so the first one is the match
  Python reports. \<open>re_search\<close>, \<open>re_finditer\<close>, \<open>re_fullmatch\<close> and \<open>re_sub\<close> scan a text
  from left to right the way the library functions do.
\<close>

datatype rx =
    Eps
  | Chr "char \<Rightarrow> bool"
  | Rep "char \<Rightarrow> bool" nat "nat option"
  | Cat rx rx
  | Alt rx rx
  | Grp rx
  | NotBehind "char \<Rightarrow> bool"
  | NotAhead "char \<Rightarrow> bool"
  | AtEnd

type_synonym mstate = "string \<times> string \<times> string option"

fun rmatch :: "rx \<Rightarrow> mstate \<Rightarrow> mstate list" where
  "rmatch Eps st = [st]"
| "rmatch (Chr p) (b, r, g) = (case r of [] \<Rightarrow> [] | c # cs \<Rightarrow> if p c then [(c # b, cs, g)] else [])"
| "rmatch (Rep p lo hi) (b, r, g) =
     (let run = length (takeWhile p r);
          most = (case hi of None \<Rightarrow> run | Some h \<Rightarrow> min run h)
      in map (\<lambda>k. (rev (take k r) @ b, drop k r, g)) (rev [lo ..< Suc most]))"
| "rmatch (Cat x y) st = concat (map (rmatch y) (rmatch x st))"
| "rmatch (Alt x y) st = rmatch x st @ rmatch y st"
| "rmatch (Grp x) (b, r, g) =
     map (\<lambda>(b', r', g'). (b', r', Some (take (length r - length r') r))) (rmatch x (b, r, g))"
| "rmatch (NotBehind p) (b, r, g) =
     (case b of [] \<Rightarrow> [(b, r, g)] | c # cs \<Rightarrow> if p c then [] else [(b, r, g)])"
| "rmatch (NotAhead p) (b, r, g) =
     (case r of [] \<Rightarrow> [(b, r, g)] | c # cs \<Rightarrow> if p c then [] else [(b, r, g)])"
| "rmatch AtEnd (b, r, g) = (if r = [] \<or> r = [CHR 10] then [(b, r, g)] else [])"

definition match_at :: "rx \<Rightarrow> string \<Rightarrow> string \<Rightarrow> mstate option" where
  "match_at p b r = (case rmatch p (b, r, None) of [] \<Rightarrow> None | st # _ \<Rightarrow> Some st)"

fun re_search_from :: "rx \<Rightarrow> string \<Rightarrow> string \<Rightarrow> bool" where
  "re_search_from p b [] = (match_at p b [] \<noteq> None)"
| "re_search_from p b (c # cs) = (match_at p b (c # cs) \<noteq> None \<or> re_search_from p (c # b) cs)"

definition re_search :: "rx \<Rightarrow> string \<Rightarrow> bool" where
  "re_search p s = re_search_from p [] s"

definition re_fullmatch :: "rx \<Rightarrow> string \<Rightarrow> mstate option" where
  "re_fullmatch p s = List.find (\<lambda>(b, r, g). r = []) (rmatch p ([], s, None))"

text \<open>
  A match that consumes text moves the scan to its end; an empty match is reported and the scan
  moves on by one character. The guard on the lengths is what makes the scan end.
\<close>

function re_sub_from :: "rx \<Rightarrow> (string \<Rightarrow> string option \<Rightarrow> string) \<Rightarrow> string \<Rightarrow> string \<Rightarrow> string" where
  "re_sub_from p f b r =
     (case match_at p b r of
        Some (b', r', g) \<Rightarrow>
          if length r' < length r
          then f (take (length r - length r') r) g @ re_sub_from p f b' r'
          else f [] g @ (case r of [] \<Rightarrow> [] | c # cs \<Rightarrow> c # re_sub_from p f (c # b) cs)
      | None \<Rightarrow> (case r of [] \<Rightarrow> [] | c # cs \<Rightarrow> c # re_sub_from p f (c # b) cs))"
  by pat_completeness auto
termination
  by (relation "measure (\<lambda>(p, f, b, r). length r)") auto

declare re_sub_from.simps [simp del]

definition re_sub :: "rx \<Rightarrow> (string \<Rightarrow> string option \<Rightarrow> string) \<Rightarrow> string \<Rightarrow> string" where
  "re_sub p f s = re_sub_from p f [] s"

text \<open>\<open>finditer\<close>: start offset, end offset, matched text and group 1 of every match.\<close>

function re_finditer_from :: "rx \<Rightarrow> string \<Rightarrow> string \<Rightarrow> (nat \<times> nat \<times> string \<times> string option) list" where
  "re_finditer_from p b r =
     (case match_at p b r of
        Some (b', r', g) \<Rightarrow>
          if length r' < length r
          then (length b, length b + (length r - length r'), take (length r - length r') r, g)
                 # re_finditer_from p b' r'
          else (length b, length b, [], g)
                 # (case r of [] \<Rightarrow> [] | c # cs \<Rightarrow> re_finditer_from p (c # b) cs)
      | None \<Rightarrow> (case r of [] \<Rightarrow> [] | c # cs \<Rightarrow> re_finditer_from p (c # b) cs))"
  by pat_completeness auto
termination
  by (relation "measure (\<lambda>(p, b, r). length r)") auto

declare re_finditer_from.simps [simp del]

definition re_finditer :: "rx \<Rightarrow> string \<Rightarrow> (nat \<times> nat \<times> string \<times> string option) list" where
  "re_finditer p s = re_finditer_from p [] s"

subsection \<open>Matches consume a prefix\<close>

definition consumes :: "mstate \<Rightarrow> mstate \<Rightarrow> bool" where
  "consumes s t \<longleftrightarrow> (\<exists>w. fst (snd s) = w @ fst (snd t) \<and> fst t = rev w @ fst s)"

lemma consumes_refl [simp]: "consumes s s"
  by (simp add: consumes_def)

lemma consumes_trans: "consumes s t \<Longrightarrow> consumes t u \<Longrightarrow> consumes s u"
  by (auto simp: consumes_def)

lemma rmatch_consumes: "t \<in> set (rmatch p s) \<Longrightarrow> consumes s t"
proof (induction p s arbitrary: t rule: rmatch.induct)
  case (3 p lo hi b r g)
  then show ?case
    by (auto simp: consumes_def Let_def)
next
  case (4 x y st)
  then show ?case by simp (blast intro: consumes_trans)
next
  case (6 x b r g)
  then show ?case by (fastforce simp: consumes_def)
qed (auto simp: consumes_def split: list.splits if_splits)

lemma match_at_consumes:
  assumes "match_at p b r = Some (b', r', g)"
  shows "\<exists>w. r = w @ r' \<and> b' = rev w @ b"
proof -
  from assms have "(b', r', g) \<in> set (rmatch p (b, r, None))"
    by (auto simp: match_at_def split: list.splits)
  then show ?thesis using rmatch_consumes by (fastforce simp: consumes_def)
qed

subsection \<open>Literals and alternations\<close>

fun lit_ci :: "string \<Rightarrow> rx" where
  "lit_ci [] = Eps"
| "lit_ci (c # cs) = Cat (Chr (\<lambda>d. lower d = lower c)) (lit_ci cs)"

fun lit :: "string \<Rightarrow> rx" where
  "lit [] = Eps"
| "lit (c # cs) = Cat (Chr (\<lambda>d. d = c)) (lit cs)"

fun alts :: "rx list \<Rightarrow> rx" where
  "alts [] = Eps"
| "alts [r] = r"
| "alts (r # s # rs) = Alt r (alts (s # rs))"

lemma rmatch_lit_ci:
  "rmatch (lit_ci k) (b, r, g) =
     (if length k \<le> length r \<and> casefold (take (length k) r) = casefold k
      then [(rev (take (length k) r) @ b, drop (length k) r, g)] else [])"
proof (induction k arbitrary: b r)
  case Nil
  then show ?case by simp
next
  case (Cons c k)
  then show ?case by (cases r) auto
qed

lemma rmatch_alts:
  "rs \<noteq> [] \<Longrightarrow> rmatch (alts rs) st = concat (map (\<lambda>r. rmatch r st) rs)"
  by (induction rs rule: alts.induct) auto

subsection \<open>Substitution where nothing matches\<close>

lemma re_sub_from_no_match:
  assumes "\<And>b' r' w. r = w @ r' \<Longrightarrow> b' = rev w @ b \<Longrightarrow> match_at p b' r' = None"
  shows "re_sub_from p f b r = r"
  using assms
proof (induction r arbitrary: b)
  case Nil
  from Nil [of "[]" "[]" b] show ?case by (simp add: re_sub_from.simps [of p f b "[]"])
next
  case (Cons c r)
  from Cons.prems [of "[]" "c # r" b] have m: "match_at p b (c # r) = None" by simp
  have "re_sub_from p f (c # b) r = r"
  proof (rule Cons.IH)
    fix b' r' w assume "r = w @ r'" "b' = rev w @ c # b"
    then show "match_at p b' r' = None" using Cons.prems [of "c # w" r' b'] by simp
  qed
  with m show ?case by (simp add: re_sub_from.simps [of p f b "c # r"])
qed

text \<open>
  A prefix in which no position matches is copied; the scan then continues after it.
\<close>

lemma re_sub_from_skip:
  assumes "\<And>b' w r'. u = w @ r' \<Longrightarrow> r' \<noteq> [] \<Longrightarrow> b' = rev w @ b \<Longrightarrow> match_at p b' (r' @ v) = None"
  shows "re_sub_from p f b (u @ v) = u @ re_sub_from p f (rev u @ b) v"
  using assms
proof (induction u arbitrary: b)
  case Nil
  then show ?case by simp
next
  case (Cons c u)
  from Cons.prems [of "[]" "c # u" b] have m: "match_at p b ((c # u) @ v) = None" by simp
  have "re_sub_from p f (c # b) (u @ v) = u @ re_sub_from p f (rev u @ c # b) v"
  proof (rule Cons.IH)
    fix b' w r' assume "u = w @ r'" "r' \<noteq> []" "b' = rev w @ c # b"
    then show "match_at p b' (r' @ v) = None" using Cons.prems [of "c # w" r' b'] by simp
  qed
  with m show ?case by (simp add: re_sub_from.simps [of p f b "c # u @ v"])
qed

lemma re_sub_from_match:
  assumes "match_at p b (w @ v) = Some (b', v, g)" "w \<noteq> []"
  shows "re_sub_from p f b (w @ v) = f w g @ re_sub_from p f b' v"
  using assms by (subst re_sub_from.simps) simp

end
