(* ===== verification/Json.thy ===== *)
theory Json
  imports Complex_Main Prelude
begin

text \<open>
  JSON documents as the gateway holds them after parsing: a Python dict is an association list in
  insertion order. The theory models addressing into a document: \<open>TextExtractor\<close> of
  \<open>pipeline/extraction.py\<close>, which lists the text nodes of a chat request with their paths, and
  \<open>_parse_path\<close> and \<open>_write_path\<close> of \<open>pipeline/tokenization.py\<close>, which put a text back. It shows
  that every extracted path can be read and written, that writing one node changes no other, and
  so what a document holds after all nodes were written.
\<close>

subsection \<open>Documents\<close>

datatype json =
    JNull
  | JBool bool
  | JInt int
  | JFloat rat
  | JStr string
  | JList "json list"
  | JObj "(string \<times> json) list"

subsection \<open>Text nodes\<close>

record text_node =
  path :: string
  role :: json
  node_text :: string

definition not_blank :: "string \<Rightarrow> bool" where
  "not_blank s \<longleftrightarrow> list_ex (\<lambda>c. \<not> is_space c) s"

definition content_path :: "nat \<Rightarrow> string" where
  "content_path idx = ''messages['' @ dec idx @ ''].content''"

definition arguments_path :: "nat \<Rightarrow> nat \<Rightarrow> string" where
  "arguments_path idx tc_idx =
     ''messages['' @ dec idx @ ''].tool_calls['' @ dec tc_idx @ ''].function.arguments''"

definition content_nodes :: "nat \<Rightarrow> (string \<times> json) list \<Rightarrow> text_node list" where
  "content_nodes idx message =
     (case map_of message ''content'' of
        Some (JStr content) \<Rightarrow>
          if not_blank content
          then [\<lparr>path = content_path idx, role = dict_get message ''role'' (JStr ''unknown''), node_text = content\<rparr>]
          else []
      | _ \<Rightarrow> [])"

fun tool_call_nodes :: "nat \<Rightarrow> json \<Rightarrow> nat \<Rightarrow> json list \<Rightarrow> text_node list" where
  "tool_call_nodes idx r tc_idx [] = []"
| "tool_call_nodes idx r tc_idx (tc # tcs) =
     (case tc of
        JObj tco \<Rightarrow>
          (case map_of tco ''function'' of
             Some (JObj fn) \<Rightarrow>
               (case map_of fn ''arguments'' of
                  Some (JStr arguments) \<Rightarrow>
                    if not_blank arguments
                    then [\<lparr>path = arguments_path idx tc_idx, role = r, node_text = arguments\<rparr>] else []
                | _ \<Rightarrow> [])
           | _ \<Rightarrow> [])
      | _ \<Rightarrow> []) @ tool_call_nodes idx r (Suc tc_idx) tcs"

fun message_nodes :: "nat \<Rightarrow> json list \<Rightarrow> text_node list" where
  "message_nodes idx [] = []"
| "message_nodes idx (m # ms) =
     (case m of
        JObj message \<Rightarrow>
          content_nodes idx message
            @ (case map_of message ''tool_calls'' of
                 Some (JList tcs) \<Rightarrow> tool_call_nodes idx (dict_get message ''role'' (JStr ''unknown'')) 0 tcs
               | _ \<Rightarrow> [])
      | _ \<Rightarrow> []) @ message_nodes (Suc idx) ms"

definition extract_text :: "(string \<times> json) list \<Rightarrow> text_node list" where
  "extract_text body =
     (case dict_get body ''messages'' (JList []) of JList messages \<Rightarrow> message_nodes 0 messages | _ \<Rightarrow> [])"

subsection \<open>Paths\<close>

datatype key = KName string | KIdx nat

function split_on :: "char \<Rightarrow> string \<Rightarrow> string list" where
  "split_on d s =
     (let w = takeWhile (\<lambda>c. c \<noteq> d) s; r = dropWhile (\<lambda>c. c \<noteq> d) s
      in if r = [] then [w] else w # split_on d (tl r))"
  by pat_completeness auto
termination
proof (relation "measure (\<lambda>(d, s). length s)", goal_cases)
  case (2 d s w r)
  then have le: "length r \<le> length s" by (simp add: length_dropWhile_le)
  have "length (tl r) < length s" using le 2(3) by (cases r) simp_all
  then show ?case by simp
qed simp

declare split_on.simps [simp del]

function parse_indices :: "string \<Rightarrow> nat list option" where
  "parse_indices s =
     (case s of
        [] \<Rightarrow> Some []
      | c # cs \<Rightarrow>
          (let ds = takeWhile is_digit cs; r = dropWhile is_digit cs
           in if c = CHR ''['' \<and> ds \<noteq> [] \<and> r \<noteq> [] \<and> hd r = CHR '']''
              then map_option (Cons (undec ds)) (parse_indices (tl r)) else None))"
  by pat_completeness auto
termination
proof (relation "measure length", goal_cases)
  case (2 s c cs ds r)
  then have le: "length r \<le> length cs" by (simp add: length_dropWhile_le)
  have "length (tl r) < Suc (length cs)" using le by (cases r) simp_all
  with 2(1) show ?case by simp
qed simp

declare parse_indices.simps [simp del]

definition parse_part :: "string \<Rightarrow> key list option" where
  "parse_part part =
     (let name = takeWhile (\<lambda>c. c \<noteq> CHR ''.'' \<and> c \<noteq> CHR ''['' \<and> c \<noteq> CHR '']'') part;
          rest = dropWhile (\<lambda>c. c \<noteq> CHR ''.'' \<and> c \<noteq> CHR ''['' \<and> c \<noteq> CHR '']'') part
      in if name = [] then None else map_option (\<lambda>is. KName name # map KIdx is) (parse_indices rest))"

fun parse_parts :: "string list \<Rightarrow> key list option" where
  "parse_parts [] = Some []"
| "parse_parts (p # ps) =
     (case parse_part p of None \<Rightarrow> None | Some ks \<Rightarrow> map_option (\<lambda>r. ks @ r) (parse_parts ps))"

definition parse_path :: "string \<Rightarrow> key list option" where
  "parse_path p =
     (case parse_parts (split_on (CHR ''.'') p) of Some (k # ks) \<Rightarrow> Some (k # ks) | _ \<Rightarrow> None)"

definition get_key :: "json \<Rightarrow> key \<Rightarrow> json option" where
  "get_key doc k =
     (case k of
        KIdx i \<Rightarrow> (case doc of JList xs \<Rightarrow> if i < length xs then Some (xs ! i) else None | _ \<Rightarrow> None)
      | KName n \<Rightarrow> (case doc of JObj kvs \<Rightarrow> map_of kvs n | _ \<Rightarrow> None))"

definition put_key :: "json \<Rightarrow> key \<Rightarrow> json \<Rightarrow> json" where
  "put_key doc k v =
     (case k of
        KIdx i \<Rightarrow> (case doc of JList xs \<Rightarrow> JList (xs[i := v]) | _ \<Rightarrow> doc)
      | KName n \<Rightarrow> (case doc of JObj kvs \<Rightarrow> JObj (AList.update n v kvs) | _ \<Rightarrow> doc))"

fun write_keys :: "json \<Rightarrow> key list \<Rightarrow> json \<Rightarrow> json option" where
  "write_keys doc [] v = None"
| "write_keys doc [k] v = (case get_key doc k of None \<Rightarrow> None | Some _ \<Rightarrow> Some (put_key doc k v))"
| "write_keys doc (k # k' # ks) v =
     (case get_key doc k of
        None \<Rightarrow> None
      | Some child \<Rightarrow> map_option (put_key doc k) (write_keys child (k' # ks) v))"

text \<open>None is the result False, with the document untouched.\<close>

definition write_path :: "json \<Rightarrow> string \<Rightarrow> string \<Rightarrow> json option" where
  "write_path doc p v = (case parse_path p of None \<Rightarrow> None | Some ks \<Rightarrow> write_keys doc ks (JStr v))"

fun read_keys :: "json \<Rightarrow> key list \<Rightarrow> json option" where
  "read_keys doc [] = Some doc"
| "read_keys doc (k # ks) = (case get_key doc k of None \<Rightarrow> None | Some child \<Rightarrow> read_keys child ks)"

subsection \<open>Reading after writing\<close>

lemma nth_update_any: "xs[i := v] ! j = (if j = i \<and> i < length xs then v else xs ! j)"
  by (cases "i < length xs") (auto simp: nth_list_update list_update_beyond)

lemma get_put_same: "get_key doc k = Some c \<Longrightarrow> get_key (put_key doc k v) k = Some v"
  by (auto simp: get_key_def put_key_def map_of_update split: key.splits json.splits if_splits)

lemma get_put_other: "k' \<noteq> k \<Longrightarrow> get_key (put_key doc k v) k' = get_key doc k'"
  by (auto simp: get_key_def put_key_def map_of_update nth_update_any split: key.splits json.splits)

lemma write_keys_defined:
  "read_keys doc ks = Some c \<Longrightarrow> ks \<noteq> [] \<Longrightarrow> \<exists>doc'. write_keys doc ks v = Some doc'"
  by (induction doc ks v rule: write_keys.induct) (auto split: option.splits)

lemma read_write_same: "write_keys doc ks v = Some doc' \<Longrightarrow> read_keys doc' ks = Some v"
proof (induction doc ks v arbitrary: doc' rule: write_keys.induct)
  case (3 doc k k' ks v)
  then obtain c child where "get_key doc k = Some c" "write_keys c (k' # ks) v = Some child"
    "doc' = put_key doc k child"
    by (auto split: option.splits)
  moreover from "3.IH" [OF this(1,2)] have "read_keys child (k' # ks) = Some v" .
  ultimately show ?case
    using get_put_same [of doc k c child] by (simp only: read_keys.simps(2) [of _ k] option.case)
qed (auto simp: get_put_same split: option.splits)

text \<open>Two key lists that part at some position address disjoint places.\<close>

fun parting :: "key list \<Rightarrow> key list \<Rightarrow> bool" where
  "parting (k # ks) (l # ls) = (if k = l then parting ks ls else True)"
| "parting _ _ = False"

lemma parting_sym: "parting ks ls = parting ls ks"
  by (induction ks ls rule: parting.induct) (auto elim: parting.elims)

lemma read_write_other:
  "write_keys doc ks v = Some doc' \<Longrightarrow> parting ks ls \<Longrightarrow> read_keys doc' ls = read_keys doc ls"
proof (induction doc ks v arbitrary: doc' ls rule: write_keys.induct)
  case (1 doc v)
  then show ?case by simp
next
  case (2 doc k v)
  then obtain c l ls' where "get_key doc k = Some c" "doc' = put_key doc k v" "ls = l # ls'" "k \<noteq> l"
    by (cases ls) (auto split: option.splits if_splits)
  then show ?case by (simp add: get_put_other)
next
  case (3 doc k k' ks v)
  then obtain c child l ls' where st: "get_key doc k = Some c" "write_keys c (k' # ks) v = Some child"
    "doc' = put_key doc k child" "ls = l # ls'"
    by (cases ls) (auto split: option.splits)
  show ?case
  proof (cases "k = l")
    case True
    with "3.prems"(2) st have "parting (k' # ks) ls'" by simp
    with "3.IH" [OF st(1,2)] st True show ?thesis by (simp add: get_put_same)
  next
    case False
    with st show ?thesis by (simp add: get_put_other)
  qed
qed

subsection \<open>The paths of extracted nodes\<close>

definition content_keys :: "nat \<Rightarrow> key list" where
  "content_keys i = [KName ''messages'', KIdx i, KName ''content'']"

definition arguments_keys :: "nat \<Rightarrow> nat \<Rightarrow> key list" where
  "arguments_keys i j =
     [KName ''messages'', KIdx i, KName ''tool_calls'', KIdx j, KName ''function'', KName ''arguments'']"

lemma split_on_append:
  "d \<notin> set w \<Longrightarrow> split_on d (w @ d # s) = w # split_on d s"
  by (subst split_on.simps) (simp add: takeWhile_append dropWhile_append)

lemma split_on_last: "d \<notin> set w \<Longrightarrow> split_on d w = [w]"
  by (subst split_on.simps) (auto simp: Let_def takeWhile_eq_all_conv)

lemma parse_index: "parse_indices (''['' @ dec i @ '']'') = Some [i]"
proof -
  have nd: "\<not> is_digit (CHR '']'')" by (simp add: is_digit_def)
  have "takeWhile is_digit (dec i @ '']'') = dec i" "dropWhile is_digit (dec i @ '']'') = '']''"
    using dec_digits [of _ i] nd by (simp_all add: takeWhile_append dropWhile_append)
  moreover have "parse_indices [] = Some []" by (simp add: parse_indices.simps)
  ultimately show ?thesis using dec_digits [of _ i] nd by (subst parse_indices.simps) (simp add: undec_dec Let_def)
qed

lemma parse_part_name:
  "\<forall>c \<in> set n. c \<noteq> CHR ''.'' \<and> c \<noteq> CHR ''['' \<and> c \<noteq> CHR '']'' \<Longrightarrow> n \<noteq> [] \<Longrightarrow> parse_part n = Some [KName n]"
  by (simp add: parse_part_def takeWhile_eq_all_conv [THEN iffD2] dropWhile_eq_Nil_conv [THEN iffD2] parse_indices.simps)

lemma parse_part_index:
  assumes "\<forall>c \<in> set n. c \<noteq> CHR ''.'' \<and> c \<noteq> CHR ''['' \<and> c \<noteq> CHR '']''" "n \<noteq> []"
  shows "parse_part (n @ ''['' @ dec i @ '']'') = Some [KName n, KIdx i]"
proof -
  let ?p = "\<lambda>c. c \<noteq> CHR ''.'' \<and> c \<noteq> CHR ''['' \<and> c \<noteq> CHR '']''"
  have "takeWhile ?p (n @ (CHR ''['' # dec i @ '']'')) = n"
    "dropWhile ?p (n @ (CHR ''['' # dec i @ '']'')) = CHR ''['' # dec i @ '']''"
    using assms(1) by (simp_all add: takeWhile_append dropWhile_append)
  with assms(2) parse_index [of i] show ?thesis by (simp add: parse_part_def Let_def)
qed

lemma dec_no_dot: "CHR ''.'' \<notin> set (dec i)"
proof
  assume "CHR ''.'' \<in> set (dec i)"
  then have "is_digit (CHR ''.'')" by (rule dec_digits)
  then show False by (simp add: is_digit_def)
qed

lemma parse_content_path: "parse_path (content_path i) = Some (content_keys i)"
proof -
  have "content_path i = (''messages'' @ ''['' @ dec i @ '']'') @ CHR ''.'' # ''content''"
    by (simp add: content_path_def)
  then have "split_on (CHR ''.'') (content_path i) = [''messages'' @ ''['' @ dec i @ '']'', ''content'']"
    using dec_no_dot [of i] by (simp only: split_on_append split_on_last) (subst split_on_append, auto simp: split_on_last)
  moreover have "parse_part (''messages'' @ ''['' @ dec i @ '']'') = Some [KName ''messages'', KIdx i]"
    by (rule parse_part_index) auto
  moreover have "parse_part ''content'' = Some [KName ''content'']" by (rule parse_part_name) auto
  ultimately show ?thesis unfolding parse_path_def content_keys_def by (simp only: parse_parts.simps option.case) simp
qed

lemma parse_arguments_path: "parse_path (arguments_path i j) = Some (arguments_keys i j)"
proof -
  have "arguments_path i j = (''messages'' @ ''['' @ dec i @ '']'') @ CHR ''.'' #
      ((''tool_calls'' @ ''['' @ dec j @ '']'') @ CHR ''.'' # (''function'' @ CHR ''.'' # ''arguments''))"
    by (simp add: arguments_path_def)
  then have "split_on (CHR ''.'') (arguments_path i j)
      = [''messages'' @ ''['' @ dec i @ '']'', ''tool_calls'' @ ''['' @ dec j @ '']'', ''function'', ''arguments'']"
    using dec_no_dot [of i] dec_no_dot [of j]
    by (simp only:) (subst split_on_append, simp, subst split_on_append, simp, subst split_on_append, simp, subst split_on_last, simp_all)
  moreover have "parse_part (''messages'' @ ''['' @ dec i @ '']'') = Some [KName ''messages'', KIdx i]"
    "parse_part (''tool_calls'' @ ''['' @ dec j @ '']'') = Some [KName ''tool_calls'', KIdx j]"
    by (rule parse_part_index; auto)+
  moreover have "parse_part ''function'' = Some [KName ''function'']" "parse_part ''arguments'' = Some [KName ''arguments'']"
    by (rule parse_part_name; auto)+
  ultimately show ?thesis unfolding parse_path_def arguments_keys_def by (simp only: parse_parts.simps option.case) simp
qed

subsection \<open>Extracted nodes\<close>

definition node_keys :: "text_node \<Rightarrow> key list" where
  "node_keys n = the (parse_path (path n))"

text \<open>Where a node of message \<open>i\<close> can stand.\<close>

definition message_key :: "nat \<Rightarrow> key list \<Rightarrow> bool" where
  "message_key i ks \<longleftrightarrow> ks = content_keys i \<or> (\<exists>j. ks = arguments_keys i j)"

lemma message_key_parting:
  "message_key i ks \<Longrightarrow> message_key j ls \<Longrightarrow> ks \<noteq> ls \<Longrightarrow> parting ks ls"
  by (auto simp: message_key_def content_keys_def arguments_keys_def split: if_splits)

lemma message_key_index: "message_key i ks \<Longrightarrow> message_key j ks \<Longrightarrow> i = j"
  by (auto simp: message_key_def content_keys_def arguments_keys_def)

definition stands_at :: "json \<Rightarrow> nat \<Rightarrow> text_node \<Rightarrow> bool" where
  "stands_at doc i n \<longleftrightarrow> parse_path (path n) = Some (node_keys n) \<and> message_key i (node_keys n)
     \<and> read_keys doc (tl (tl (node_keys n))) = Some (JStr (node_text n))"

lemma content_nodes_at:
  "n \<in> set (content_nodes i m) \<Longrightarrow> stands_at (JObj m) i n \<and> node_keys n = content_keys i"
  by (auto simp: content_nodes_def stands_at_def node_keys_def parse_content_path message_key_def content_keys_def
      get_key_def split: option.splits json.splits if_splits)

lemma content_nodes_le: "length (content_nodes i m) \<le> 1"
  by (auto simp: content_nodes_def split: option.splits json.splits)

lemma tool_call_nodes_keys:
  "n \<in> set (tool_call_nodes i r k tcs) \<Longrightarrow>
     \<exists>j fn tco. k \<le> j \<and> j < k + length tcs \<and> path n = arguments_path i j \<and> tcs ! (j - k) = JObj tco
        \<and> map_of tco ''function'' = Some (JObj fn) \<and> map_of fn ''arguments'' = Some (JStr (node_text n))"
proof (induction tcs arbitrary: k)
  case Nil
  then show ?case by simp
next
  case (Cons tc tcs)
  show ?case
  proof (cases "n \<in> set (tool_call_nodes i r (Suc k) tcs)")
    case True
    from Cons.IH [OF this] obtain j fn tco where "Suc k \<le> j" "j < Suc k + length tcs" "path n = arguments_path i j"
      "tcs ! (j - Suc k) = JObj tco" "map_of tco ''function'' = Some (JObj fn)"
      "map_of fn ''arguments'' = Some (JStr (node_text n))" by blast
    then show ?thesis by (intro exI [of _ j] exI [of _ fn] exI [of _ tco]) (auto simp: nth_Cons' Suc_diff_le)
  next
    case False
    with Cons.prems obtain tco fn where "tc = JObj tco" "map_of tco ''function'' = Some (JObj fn)"
      "map_of fn ''arguments'' = Some (JStr (node_text n))" "path n = arguments_path i k"
      by (auto split: json.splits option.splits if_splits intro!: that dest!: sym [of "Some _"])
    then show ?thesis by (intro exI [of _ k] exI [of _ fn] exI [of _ tco]) auto
  qed
qed

lemma node_keys_arguments: "path n = arguments_path i j \<Longrightarrow> node_keys n = arguments_keys i j"
  by (simp add: node_keys_def parse_arguments_path)

lemma tool_call_nodes_distinct: "distinct (map node_keys (tool_call_nodes i r k tcs))"
proof (induction tcs arbitrary: k)
  case Nil
  then show ?case by simp
next
  case (Cons tc tcs)
  have later: "\<exists>j. Suc k \<le> j \<and> node_keys n = arguments_keys i j" if "n \<in> set (tool_call_nodes i r (Suc k) tcs)" for n
    using tool_call_nodes_keys [OF that] node_keys_arguments by blast
  have "arguments_keys i k \<notin> node_keys ` set (tool_call_nodes i r (Suc k) tcs)"
    using later by (fastforce simp: arguments_keys_def)
  then show ?case
    using Cons.IH by (auto simp: node_keys_arguments split: json.splits option.splits)
qed

lemma tool_call_nodes_at:
  assumes "n \<in> set (tool_call_nodes i r 0 tcs)" "map_of m ''tool_calls'' = Some (JList tcs)"
  shows "stands_at (JObj m) i n \<and> (\<exists>j. node_keys n = arguments_keys i j)"
proof -
  obtain j fn tco where *: "j < length tcs" "path n = arguments_path i j" "tcs ! j = JObj tco"
    "map_of tco ''function'' = Some (JObj fn)" "map_of fn ''arguments'' = Some (JStr (node_text n))"
    using tool_call_nodes_keys [OF assms(1)] by auto
  then have "node_keys n = arguments_keys i j" by (simp add: node_keys_arguments)
  moreover have "read_keys (JObj m) (tl (tl (arguments_keys i j))) = Some (JStr (node_text n))"
    using * assms(2) by (simp add: arguments_keys_def get_key_def)
  ultimately show ?thesis
    using * by (auto simp: stands_at_def message_key_def parse_arguments_path)
qed

definition one_message_nodes :: "nat \<Rightarrow> json \<Rightarrow> text_node list" where
  "one_message_nodes i m = message_nodes i [m]"

lemma one_message_nodes_at:
  assumes "n \<in> set (one_message_nodes i m)"
  shows "stands_at m i n"
proof -
  from assms obtain mo where m: "m = JObj mo" by (cases m) (auto simp: one_message_nodes_def)
  from assms have "n \<in> set (content_nodes i mo)
      \<or> (\<exists>tcs. map_of mo ''tool_calls'' = Some (JList tcs)
           \<and> n \<in> set (tool_call_nodes i (dict_get mo ''role'' (JStr ''unknown'')) 0 tcs))"
    by (auto simp: one_message_nodes_def m split: option.splits json.splits)
  then show ?thesis using content_nodes_at tool_call_nodes_at m by blast
qed

lemma one_message_nodes_distinct: "distinct (map node_keys (one_message_nodes i m))"
proof (cases m)
  case (JObj mo)
  let ?r = "dict_get mo ''role'' (JStr ''unknown'')"
  have c: "distinct (map node_keys (content_nodes i mo))"
    using content_nodes_le [of i mo] by (cases "content_nodes i mo"; cases "tl (content_nodes i mo)") auto
  show ?thesis
  proof (cases "\<exists>tcs. map_of mo ''tool_calls'' = Some (JList tcs)")
    case True
    then obtain tcs where t: "map_of mo ''tool_calls'' = Some (JList tcs)" by blast
    have "node_keys x \<noteq> node_keys y" if x: "x \<in> set (content_nodes i mo)" and y: "y \<in> set (tool_call_nodes i ?r 0 tcs)" for x y
    proof -
      have "node_keys x = content_keys i" using content_nodes_at [OF x] ..
      moreover obtain j where "node_keys y = arguments_keys i j" using tool_call_nodes_at [OF y t] by blast
      ultimately show ?thesis by (simp add: content_keys_def arguments_keys_def)
    qed
    then have "node_keys ` set (content_nodes i mo) \<inter> node_keys ` set (tool_call_nodes i ?r 0 tcs) = {}" by blast
    with c t tool_call_nodes_distinct [of i ?r 0 tcs] show ?thesis
      by (simp add: one_message_nodes_def JObj)
  next
    case False
    then have "one_message_nodes i m = content_nodes i mo"
      by (auto simp: one_message_nodes_def JObj split: option.splits json.splits)
    with c show ?thesis by simp
  qed
qed (simp_all add: one_message_nodes_def)

lemma message_nodes_Cons: "message_nodes i (m # ms) = one_message_nodes i m @ message_nodes (Suc i) ms"
  by (simp add: one_message_nodes_def)

lemma message_nodes_at:
  "n \<in> set (message_nodes i ms) \<Longrightarrow> \<exists>k. i \<le> k \<and> k < i + length ms \<and> stands_at (ms ! (k - i)) k n"
proof (induction ms arbitrary: i)
  case Nil
  then show ?case by simp
next
  case (Cons m ms)
  show ?case
  proof (cases "n \<in> set (one_message_nodes i m)")
    case True
    then show ?thesis using one_message_nodes_at by (intro exI [of _ i]) auto
  next
    case False
    with Cons.prems have "n \<in> set (message_nodes (Suc i) ms)" by (simp only: message_nodes_Cons) simp
    from Cons.IH [OF this] obtain k where "Suc i \<le> k" "k < Suc i + length ms" "stands_at (ms ! (k - Suc i)) k n" by blast
    then show ?thesis by (intro exI [of _ k]) (auto simp: nth_Cons' Suc_diff_le)
  qed
qed

lemma message_nodes_distinct: "distinct (map node_keys (message_nodes i ms))"
proof (induction ms arbitrary: i)
  case Nil
  then show ?case by simp
next
  case (Cons m ms)
  have "node_keys x \<noteq> node_keys y" if x: "x \<in> set (one_message_nodes i m)" and y: "y \<in> set (message_nodes (Suc i) ms)" for x y
  proof -
    have "message_key i (node_keys x)" using one_message_nodes_at [OF x] by (simp add: stands_at_def)
    moreover obtain k where "Suc i \<le> k" "message_key k (node_keys y)"
      using message_nodes_at [OF y] by (auto simp: stands_at_def)
    ultimately show ?thesis using message_key_index by fastforce
  qed
  then have "node_keys ` set (one_message_nodes i m) \<inter> node_keys ` set (message_nodes (Suc i) ms) = {}" by blast
  with Cons.IH one_message_nodes_distinct [of i m] show ?case by (simp only: message_nodes_Cons) simp
qed

text \<open>Every extracted node can be read at its path, and no two nodes overlap.\<close>

definition well_addressed :: "json \<Rightarrow> text_node list \<Rightarrow> bool" where
  "well_addressed doc ns \<longleftrightarrow>
     (\<forall>n \<in> set ns. parse_path (path n) = Some (node_keys n) \<and> node_keys n \<noteq> []
        \<and> read_keys doc (node_keys n) \<noteq> None)
     \<and> sorted_wrt (\<lambda>m n. parting (node_keys m) (node_keys n)) ns"

lemma extract_text_at:
  assumes "n \<in> set (extract_text body)"
  shows "parse_path (path n) = Some (node_keys n) \<and> (\<exists>k. message_key k (node_keys n))
    \<and> read_keys (JObj body) (node_keys n) = Some (JStr (node_text n))"
proof -
  from assms obtain ms where ms: "map_of body ''messages'' = Some (JList ms)" "n \<in> set (message_nodes 0 ms)"
    by (auto simp: extract_text_def dict_get_def split: option.splits json.splits)
  obtain k where k: "k < length ms" "stands_at (ms ! k) k n" using message_nodes_at [OF ms(2)] by auto
  then have "node_keys n = KName ''messages'' # KIdx k # tl (tl (node_keys n))"
    by (auto simp: stands_at_def message_key_def content_keys_def arguments_keys_def)
  moreover have "read_keys (JObj body) (KName ''messages'' # KIdx k # ks) = read_keys (ms ! k) ks" for ks
    using ms(1) k(1) by (simp add: get_key_def)
  ultimately show ?thesis using k(2) unfolding stands_at_def by metis
qed

lemma extract_text_addressed: "well_addressed (JObj body) (extract_text body)"
proof -
  have d: "distinct (map node_keys (extract_text body))"
    using message_nodes_distinct by (auto simp: extract_text_def split: json.splits)
  have "sorted_wrt (\<lambda>m n. parting (node_keys m) (node_keys n)) (extract_text body)"
  proof (subst sorted_wrt_iff_nth_less, intro allI impI)
    fix i j assume ij: "i < j" "j < length (extract_text body)"
    then have "node_keys (extract_text body ! i) \<noteq> node_keys (extract_text body ! j)"
      using d by (fastforce simp: distinct_conv_nth)
    then show "parting (node_keys (extract_text body ! i)) (node_keys (extract_text body ! j))"
      using ij extract_text_at [of _ body] message_key_parting by (meson nth_mem order_less_trans)
  qed
  moreover have "node_keys n \<noteq> []" if "message_key k (node_keys n)" for k n
    using that by (auto simp: message_key_def content_keys_def arguments_keys_def)
  ultimately show ?thesis unfolding well_addressed_def using extract_text_at [of _ body] by fastforce
qed

subsection \<open>Writing all nodes back\<close>

text \<open>The writing loop of the tokenization stage on nodes with their new texts; None is its
  \<open>ValueError\<close>. A node that cannot be written and has no detections is skipped.\<close>

fun write_nodes :: "json \<Rightarrow> (text_node \<times> string \<times> bool) list \<Rightarrow> json option" where
  "write_nodes doc [] = Some doc"
| "write_nodes doc ((n, t, detected) # rest) =
     (case write_path doc (path n) t of
        Some doc' \<Rightarrow> write_nodes doc' rest
      | None \<Rightarrow> if detected then None else write_nodes doc rest)"

lemma write_nodes_keeps:
  assumes "write_nodes doc ws = Some doc'" "\<forall>w \<in> set ws. parse_path (path (fst w)) = Some (node_keys (fst w))"
    and "\<forall>w \<in> set ws. parting (node_keys (fst w)) ks"
  shows "read_keys doc' ks = read_keys doc ks"
  using assms
proof (induction doc ws rule: write_nodes.induct)
  case (1 doc)
  then show ?case by simp
next
  case (2 doc n t detected rest)
  show ?case
  proof (cases "write_path doc (path n) t")
    case None
    with 2 show ?thesis by (auto split: if_splits)
  next
    case (Some doc1)
    then have "write_keys doc (node_keys n) (JStr t) = Some doc1"
      using "2.prems"(2) by (simp add: write_path_def)
    then have "read_keys doc1 ks = read_keys doc ks"
      using read_write_other "2.prems"(3) by fastforce
    with 2 Some show ?thesis by simp
  qed
qed

lemma write_nodes_total:
  assumes "well_addressed doc (map fst ws)"
  shows "\<exists>doc'. write_nodes doc ws = Some doc'
    \<and> (\<forall>(n, t, _) \<in> set ws. read_keys doc' (node_keys n) = Some (JStr t))"
  using assms
proof (induction doc ws rule: write_nodes.induct)
  case (1 doc)
  then show ?case by simp
next
  case (2 doc n t detected rest)
  have n: "parse_path (path n) = Some (node_keys n)" "node_keys n \<noteq> []" "read_keys doc (node_keys n) \<noteq> None"
    and part: "\<forall>w \<in> set rest. parting (node_keys n) (node_keys (fst w))"
    and wr: "well_addressed doc (map fst rest)"
    using "2.prems" by (auto simp: well_addressed_def)
  obtain doc1 where w: "write_keys doc (node_keys n) (JStr t) = Some doc1"
    using write_keys_defined n(2,3) by (metis option.exhaust)
  then have wp: "write_path doc (path n) t = Some doc1" by (simp add: write_path_def n(1))
  have "read_keys doc1 (node_keys (fst x)) = read_keys doc (node_keys (fst x))" if "x \<in> set rest" for x
    using read_write_other [OF w] part that by blast
  then have "well_addressed doc1 (map fst rest)" using wr by (auto simp: well_addressed_def)
  from "2.IH"(2) [OF wp this] obtain doc' where doc': "write_nodes doc1 rest = Some doc'"
    "\<forall>(n, t, _) \<in> set rest. read_keys doc' (node_keys n) = Some (JStr t)" by blast
  have "read_keys doc' (node_keys n) = read_keys doc1 (node_keys n)"
    using doc'(1) wr part parting_sym by (intro write_nodes_keeps [of doc1 rest]) (auto simp: well_addressed_def)
  then have "read_keys doc' (node_keys n) = Some (JStr t)" using read_write_same [OF w] by simp
  with doc' wp show ?case by auto
qed

end
