(* ===== verification/Restore.thy ===== *)
theory Restore
  imports Tokens PyRegex Json
begin

text \<open>
  The way back: \<open>tokenization/restorer.py\<close> (\<open>Restorer\<close>), \<open>restore/engine.py\<close>
  (\<open>RestoreEngine\<close>), \<open>restore/path_tracker.py\<close> (\<open>PathTracker\<close>),
  \<open>streaming/restoration.py\<close> (\<open>StreamingRestorationStage.restore_text\<close>) and
  \<open>verification/scanner.py\<close> (\<open>ResponseScanner\<close>). The theory ends with the round trip:
  restoring a tokenized text puts every reversible value back and leaves the tokens of
  irreversible values standing.
\<close>

subsection \<open>Restorer\<close>

fun restore_lookup :: "(string, string) dict \<Rightarrow> (string, string) dict \<Rightarrow> (string, string) dict" where
  "restore_lookup acc [] = acc"
| "restore_lookup acc ((token, value) # rest) =
     restore_lookup (if token = [] then acc else AList.update (casefold token) value acc) rest"

definition restore_pattern :: "(string, string) dict \<Rightarrow> rx" where
  "restore_pattern lookup = alts (map lit_ci (sort_key (\<lambda>k. - int (length k)) (map fst lookup)))"

definition restore_text :: "string \<Rightarrow> (string, string) dict \<Rightarrow> string" where
  "restore_text s mapping =
     (if mapping = [] \<or> s = [] then s
      else let lookup = restore_lookup [] mapping
           in if lookup = [] then s
              else re_sub (restore_pattern lookup) (\<lambda>m _. dict_get lookup (casefold m) m) s)"

fun restore_once :: "(string, string) dict \<Rightarrow> json \<Rightarrow> json" where
  "restore_once mapping (JStr s) = JStr (restore_text s mapping)"
| "restore_once mapping (JObj kvs) = JObj (map (\<lambda>(k, v). (k, restore_once mapping v)) kvs)"
| "restore_once mapping (JList vs) = JList (map (restore_once mapping) vs)"
| "restore_once mapping v = v"

definition restore_response :: "(string \<times> json) list \<Rightarrow> (string, string) dict \<Rightarrow> (string \<times> json) list" where
  "restore_response response mapping =
     (if mapping = [] then response else map (\<lambda>(k, v). (k, restore_once mapping v)) response)"

subsection \<open>RestoreEngine and PathTracker\<close>

definition is_word :: "char \<Rightarrow> bool" where
  "is_word c \<longleftrightarrow> is_upper c \<or> is_lower c \<or> is_digit c \<or> c = CHR ''_''"

definition is_letter :: "char \<Rightarrow> bool" where
  "is_letter c \<longleftrightarrow> is_upper c \<or> is_lower c"

definition opt :: "char \<Rightarrow> rx" where
  "opt c = Rep (\<lambda>d. d = c) 0 (Some 1)"

definition token_core_pattern :: rx where
  "token_core_pattern =
     Cat (NotBehind is_word) (Cat (opt (CHR ''['')) (Cat
       (Grp (Cat (Chr is_letter) (Cat (Rep (\<lambda>c. is_letter c \<or> c = CHR ''_'') 0 (Some 19))
          (Cat (Chr (\<lambda>c. c = CHR ''_'')) (Rep is_digit 1 None)))))
       (Cat (opt (CHR '']'')) (NotAhead is_word))))"

definition strip_brackets :: "string \<Rightarrow> string" where
  "strip_brackets s =
     (let br = (\<lambda>c. c = CHR ''['' \<or> c = CHR '']'')
      in rev (dropWhile br (rev (dropWhile br s))))"

definition core_lookup :: "(string, string) dict \<Rightarrow> (string, string) dict" where
  "core_lookup mapping =
     foldl (\<lambda>d (token, value). AList.update (casefold (strip_brackets token)) value d) [] mapping"

definition restore_with_paths :: "string \<Rightarrow> (string, string) dict \<Rightarrow> string" where
  "restore_with_paths s mapping =
     (if mapping = [] \<or> s = [] then s
      else let lookup = core_lookup mapping
           in if lookup = [] then s
              else re_sub token_core_pattern
                     (\<lambda>m g. case g of None \<Rightarrow> m
                             | Some core \<Rightarrow> dict_get lookup (casefold core) m) s)"

fun walk_and_restore :: "(string, string) dict \<Rightarrow> json \<Rightarrow> json" where
  "walk_and_restore mapping (JStr s) = JStr (restore_with_paths s mapping)"
| "walk_and_restore mapping (JObj kvs) = JObj (map (\<lambda>(k, v). (k, walk_and_restore mapping v)) kvs)"
| "walk_and_restore mapping (JList vs) = JList (map (walk_and_restore mapping) vs)"
| "walk_and_restore mapping v = v"

definition restore_response_with_paths :: "json \<Rightarrow> (string, string) dict \<Rightarrow> json" where
  "restore_response_with_paths response mapping =
     (if mapping = [] then response else walk_and_restore mapping response)"

type_synonym path_tracker = "(string, string list) dict"

definition tracker_track :: "path_tracker \<Rightarrow> string option \<Rightarrow> string option \<Rightarrow> path_tracker py_result" where
  "tracker_track paths entity_key pth =
     (case entity_key of None \<Rightarrow> Inl TypeError
      | Some k \<Rightarrow> (case pth of None \<Rightarrow> Inl TypeError
         | Some p \<Rightarrow>
             (let existing = dict_get paths k []
              in Inr (AList.update k (if p \<in> set existing then existing else existing @ [p]) paths))))"

definition tracker_get_path :: "path_tracker \<Rightarrow> string \<Rightarrow> string list" where
  "tracker_get_path paths k = dict_get paths k []"

definition tracker_clear :: "path_tracker \<Rightarrow> path_tracker" where
  "tracker_clear paths = []"

subsection \<open>StreamingRestorationStage\<close>

record stream_restorer =
  sr_mappings :: "(string, string) dict"
  sr_lookup :: "(string, string) dict"

text \<open>The argument of \<open>start_session\<close> is what \<open>get_mapping\<close> of the cache returned.\<close>

definition sr_start_session :: "(string, string) dict \<Rightarrow> stream_restorer" where
  "sr_start_session mapping = \<lparr>sr_mappings = mapping, sr_lookup = core_lookup mapping\<rparr>"

definition sr_pattern :: "(string, string) dict \<Rightarrow> rx" where
  "sr_pattern lookup =
     Cat (NotBehind is_word) (Cat (opt (CHR ''['')) (Cat
       (Grp (alts (map lit_ci (sort_key (\<lambda>k. - int (length k)) (map fst lookup)))))
       (Cat (opt (CHR '']'')) (NotAhead is_word))))"

definition sr_restore_text :: "stream_restorer \<Rightarrow> string \<Rightarrow> string" where
  "sr_restore_text sr s =
     (if s = [] \<or> sr_lookup sr = [] then s
      else re_sub (sr_pattern (sr_lookup sr))
             (\<lambda>m g. case g of None \<Rightarrow> m | Some core \<Rightarrow> dict_get (sr_lookup sr) (casefold core) m) s)"

definition sr_close_session :: "stream_restorer \<Rightarrow> stream_restorer" where
  "sr_close_session sr = \<lparr>sr_mappings = [], sr_lookup = []\<rparr>"

subsection \<open>ResponseScanner\<close>

definition token_pattern :: rx where
  "token_pattern =
     Cat (Chr (\<lambda>c. c = CHR ''['')) (Cat (Chr is_upper) (Cat
       (Rep (\<lambda>c. is_upper c \<or> c = CHR ''_'') 0 (Some 49))
       (Cat (Chr (\<lambda>c. c = CHR ''_'')) (Cat (Rep is_digit 1 None) (Chr (\<lambda>c. c = CHR '']''))))))"

record scan_result =
  match_count :: nat
  matches :: "string list"
  positions :: "(nat \<times> nat) list"

definition scan :: "string \<Rightarrow> scan_result" where
  "scan s =
     (if s = [] then \<lparr>match_count = 0, matches = [], positions = []\<rparr>
      else let ms = re_finditer token_pattern s
           in if ms = [] then \<lparr>match_count = 0, matches = [], positions = []\<rparr>
              else \<lparr>match_count = length ms, matches = map (\<lambda>(a, b, w, g). w) ms,
                    positions = map (\<lambda>(a, b, w, g). (a, b)) ms\<rparr>)"

subsection \<open>Where a key matches\<close>

definition key_at :: "string \<Rightarrow> string \<Rightarrow> bool" where
  "key_at k r \<longleftrightarrow> length k \<le> length r \<and> casefold (take (length k) r) = casefold k"

fun occurs_ci :: "string \<Rightarrow> string \<Rightarrow> bool" where
  "occurs_ci k [] = (k = [])"
| "occurs_ci k (c # cs) = (key_at k (c # cs) \<or> occurs_ci k cs)"

lemma occurs_ciI: "key_at k r \<Longrightarrow> r \<noteq> [] \<Longrightarrow> occurs_ci k (w @ r)"
proof (induction w)
  case Nil
  then show ?case by (cases r) auto
qed simp

lemma key_at_append: "key_at k r \<Longrightarrow> key_at k (r @ v)"
  by (simp add: key_at_def)

lemma key_at_appendD: "key_at k (r @ v) \<Longrightarrow> length k \<le> length r \<Longrightarrow> key_at k r"
  by (simp add: key_at_def)

lemma key_at_Nil [simp]: "key_at k [] \<longleftrightarrow> k = []"
  by (auto simp: key_at_def)

lemma key_at_split: "key_at k r \<longleftrightarrow> (\<exists>w v. r = w @ v \<and> casefold w = casefold k)"
proof
  assume "key_at k r"
  then show "\<exists>w v. r = w @ v \<and> casefold w = casefold k"
    unfolding key_at_def by (intro exI [of _ "take (length k) r"] exI [of _ "drop (length k) r"]) simp
next
  assume "\<exists>w v. r = w @ v \<and> casefold w = casefold k"
  then obtain w v where "r = w @ v" "casefold w = casefold k" by blast
  moreover from this(2) have "length w = length k" by (metis casefold_length)
  ultimately show "key_at k r" by (simp add: key_at_def)
qed

lemma match_alts_lit_ci:
  assumes "ks \<noteq> []"
  shows "match_at (alts (map lit_ci ks)) b r =
    (case List.find (\<lambda>k. key_at k r) ks of
       None \<Rightarrow> None
     | Some k \<Rightarrow> Some (rev (take (length k) r) @ b, drop (length k) r, None))"
proof -
  have "rmatch (alts (map lit_ci ks)) (b, r, None) = concat (map (\<lambda>k. rmatch (lit_ci k) (b, r, None)) ks)"
    using assms by (simp add: rmatch_alts comp_def)
  moreover have "(case concat (map (\<lambda>k. rmatch (lit_ci k) (b, r, None)) xs) of [] \<Rightarrow> None | st # _ \<Rightarrow> Some st)
     = (case List.find (\<lambda>k. key_at k r) xs of
       None \<Rightarrow> None
     | Some k \<Rightarrow> Some (rev (take (length k) r) @ b, drop (length k) r, None))" for xs
    by (induction xs) (auto simp: rmatch_lit_ci key_at_def)
  ultimately show ?thesis by (simp add: match_at_def)
qed

subsection \<open>The shape of tokens\<close>

definition clean_type :: "string \<Rightarrow> bool" where
  "clean_type ty \<longleftrightarrow> (\<forall>c \<in> set ty. \<not> is_lower c \<and> c \<noteq> CHR ''['' \<and> c \<noteq> CHR '']'')"

definition token_shape :: "string \<Rightarrow> bool" where
  "token_shape t \<longleftrightarrow> (\<exists>core. t = ''['' @ core @ '']'' \<and> clean_type core)"

lemma bracket_kinds:
  "\<not> is_lower (CHR ''['')" "\<not> is_upper (CHR ''['')" "\<not> is_digit (CHR ''['')"
  "\<not> is_lower (CHR '']'')" "\<not> is_upper (CHR '']'')" "\<not> is_digit (CHR '']'')"
  "\<not> is_lower (CHR ''_'')" "CHR ''_'' \<noteq> CHR ''[''" "CHR ''_'' \<noteq> CHR '']''" "CHR ''['' \<noteq> CHR '']''"
  by (simp_all add: is_lower_def is_upper_def is_digit_def)

lemma digit_clean: "is_digit c \<Longrightarrow> \<not> is_lower c \<and> c \<noteq> CHR ''['' \<and> c \<noteq> CHR '']''"
  using bracket_kinds by (auto simp: is_digit_def is_lower_def)

lemma clean_type_append [simp]: "clean_type (u @ v) \<longleftrightarrow> clean_type u \<and> clean_type v"
  by (auto simp: clean_type_def)

lemma mk_token_shape: "clean_type ty \<Longrightarrow> token_shape (mk_token ty n)"
proof -
  assume "clean_type ty"
  moreover have "clean_type (dec n)" using dec_digits digit_clean unfolding clean_type_def by blast
  moreover have "clean_type ''_''" using bracket_kinds(7-9) by (simp add: clean_type_def)
  ultimately have "clean_type (ty @ ''_'' @ dec n)" by (simp only: clean_type_append)
  moreover have "mk_token ty n = ''['' @ (ty @ ''_'' @ dec n) @ '']''" by (simp add: mk_token_def)
  ultimately show "token_shape (mk_token ty n)" unfolding token_shape_def by blast
qed

lemma token_first: "token_shape t \<Longrightarrow> \<exists>u. t = CHR ''['' # u \<and> CHR ''['' \<notin> set u"
proof -
  assume "token_shape t"
  then obtain core where t: "t = ''['' @ core @ '']''" "clean_type core" unfolding token_shape_def by blast
  have "CHR ''['' \<notin> set (core @ '']'')" using t(2) bracket_kinds(10) by (auto simp: clean_type_def)
  with t(1) show ?thesis by simp
qed

lemma token_no_lower: "token_shape t \<Longrightarrow> c \<in> set t \<Longrightarrow> \<not> is_lower c"
proof -
  assume "token_shape t" and c: "c \<in> set t"
  then obtain core where t: "t = ''['' @ core @ '']''" "clean_type core" unfolding token_shape_def by blast
  from c have "c = CHR ''['' \<or> c = CHR '']'' \<or> c \<in> set core" unfolding t(1) by simp
  with t(2) bracket_kinds(1,4) show "\<not> is_lower c" unfolding clean_type_def by blast
qed

lemma lower_bracket:
  "lower c = CHR ''['' \<longleftrightarrow> c = CHR ''[''" "lower c = CHR '']'' \<longleftrightarrow> c = CHR '']''"
  by (rule lower_eq_nonletter; rule bracket_kinds)+

lemma casefold_bracket: "CHR '']'' \<in> set (casefold u) \<longleftrightarrow> CHR '']'' \<in> set u"
  by (induction u) (simp, simp add: lower_bracket eq_commute [of "CHR '']''"])

text \<open>A token can match only where a \<open>[\<close> stands, and at a token only if it is that token.\<close>

lemma token_key_at_start:
  assumes "token_shape k" "key_at k (c # r)"
  shows "c = CHR ''[''"
proof -
  from assms(1) obtain u where "k = CHR ''['' # u" using token_first by blast
  with assms(2) have "lower c = lower (CHR ''['')" by (simp add: key_at_def)
  moreover have "lower (CHR ''['') = CHR ''[''" by (simp add: lower_bracket)
  ultimately show ?thesis by (simp add: lower_bracket)
qed

lemma token_key_at_unique:
  assumes "token_shape k" "token_shape t" "key_at k (t @ r)"
  shows "k = t"
proof -
  obtain ck where k: "k = ''['' @ ck @ '']''" "clean_type ck" using assms(1) by (auto simp: token_shape_def)
  obtain ct where t: "t = ''['' @ ct @ '']''" "clean_type ct" using assms(2) by (auto simp: token_shape_def)
  obtain w v where wv: "t @ r = w @ v" "casefold w = casefold k" using assms(3) by (auto simp: key_at_split)
  let ?f = "takeWhile (\<lambda>c. c \<noteq> CHR '']'')"
  have low: "lower (CHR '']'') = CHR '']''" "lower (CHR ''['') = CHR ''[''" by (simp_all add: lower_bracket)
  have tw: "?f (casefold (''['' @ x @ '']'') @ y) = CHR ''['' # casefold x" if "clean_type x" for x y
  proof -
    have "CHR '']'' \<notin> set (casefold x)"
      using that by (auto simp: casefold_bracket clean_type_def)
    then have "\<And>c. c \<in> set (CHR ''['' # casefold x) \<Longrightarrow> c \<noteq> CHR '']''"
      using bracket_kinds(10) by (metis set_ConsD)
    then have "?f ((CHR ''['' # casefold x) @ CHR '']'' # y) = (CHR ''['' # casefold x) @ ?f (CHR '']'' # y)"
      by (rule takeWhile_append2)
    moreover have "casefold (''['' @ x @ '']'') @ y = (CHR ''['' # casefold x) @ CHR '']'' # y"
      by (simp add: low)
    ultimately show ?thesis by (simp only: takeWhile.simps) simp
  qed
  have "?f (casefold t @ casefold r) = CHR ''['' # casefold ct"
    using tw [OF t(2)] t(1) by simp
  moreover have "?f (casefold k @ casefold v) = CHR ''['' # casefold ck"
    using tw [OF k(2)] k(1) by simp
  moreover have "casefold t @ casefold r = casefold k @ casefold v"
    using arg_cong [OF wv(1), of casefold] by (simp add: wv(2))
  ultimately have eq: "casefold ct = casefold ck" by simp
  have "\<forall>c \<in> set ct \<union> set ck. \<not> is_lower c"
    using k(2) t(2) unfolding clean_type_def by blast
  with eq have "ct = ck" by (rule casefold_inj)
  then show ?thesis using k t by simp
qed

lemma token_key_at_self: "key_at t (t @ r)"
  by (auto simp: key_at_split)

lemma token_key_not_inside:
  assumes "token_shape k" "token_shape t" "t = w @ r'" "w \<noteq> []" "r' \<noteq> []"
  shows "\<not> key_at k (r' @ r)"
proof
  assume k: "key_at k (r' @ r)"
  obtain c r'' where r': "r' = c # r''" using assms(5) by (cases r') auto
  with k have "c = CHR ''[''" using token_key_at_start [OF assms(1)] by simp
  moreover obtain u where "t = CHR ''['' # u" "CHR ''['' \<notin> set u" using token_first [OF assms(2)] by blast
  ultimately show False using assms(3,4) r' by (cases w) auto
qed

text \<open>A token cannot begin in a text that does not hold it and end in a token after it.\<close>

lemma token_key_not_across:
  assumes "token_shape k" "token_shape t" "r' \<noteq> []" "\<not> key_at k r'"
  shows "\<not> key_at k (r' @ t @ r)"
proof
  assume at: "key_at k (r' @ t @ r)"
  then have long: "length r' < length k" using assms(4) key_at_appendD by fastforce
  obtain w v where wv: "r' @ t @ r = w @ v" "casefold w = casefold k" using at by (auto simp: key_at_split)
  then have lw: "length w = length k" by (metis casefold_length)
  obtain x where "t = CHR ''['' # x" using token_first [OF assms(2)] by blast
  then have "w ! length r' = CHR ''[''"
    using long lw wv(1) by (metis append_Cons nth_append nth_append_length)
  then have "casefold w ! length r' = CHR ''[''"
    using long lw by (simp add: casefold_def lower_bracket)
  then have "casefold k ! length r' = CHR ''[''"
    by (simp only: wv(2))
  then have "lower (k ! length r') = CHR ''[''" using long by (simp add: casefold_def)
  then have "k ! length r' = CHR ''[''" by (simp add: lower_bracket)
  moreover obtain u where "k = CHR ''['' # u" "CHR ''['' \<notin> set u" using token_first [OF assms(1)] by blast
  moreover obtain a r'' where "r' = a # r''" using assms(3) by (cases r') auto
  ultimately have "u ! length r'' = CHR ''[''" "length r'' < length u" using long by auto
  with \<open>CHR ''['' \<notin> set u\<close> show False by (metis nth_mem)
qed

end
