(* ===== verification/RoundTrip.thy ===== *)
theory RoundTrip
  imports Restore
begin

text \<open>
  Restoring after tokenizing: the lookup table and the alternation that \<open>Restorer.restore_text\<close>
  builds from a mapping of well-shaped tokens match a token exactly where it stands, so one
  substitution pass over a tokenized text yields the original text at every reversible span and
  leaves the tokens of irreversible spans as they are.
\<close>

subsection \<open>The lookup table\<close>

lemma key_at_casefold [simp]: "key_at (casefold k) r = key_at k r"
  by (simp add: key_at_def)

lemma restore_lookup_keys:
  "fst ` set (restore_lookup acc mp) = fst ` set acc \<union> casefold ` {t \<in> fst ` set mp. t \<noteq> []}"
  by (induction acc mp rule: restore_lookup.induct) (auto simp: fst_set_update)

lemma restore_lookup_keep:
  "\<forall>t \<in> fst ` set mp. casefold t \<noteq> k \<Longrightarrow> map_of (restore_lookup acc mp) k = map_of acc k"
  by (induction acc mp rule: restore_lookup.induct) (auto simp: map_of_update)

lemma token_casefold_inj: "token_shape s \<Longrightarrow> token_shape t \<Longrightarrow> casefold s = casefold t \<Longrightarrow> s = t"
  by (rule casefold_inj) (auto dest: token_no_lower)

lemma token_nonempty: "token_shape t \<Longrightarrow> t \<noteq> []"
  by (auto simp: token_shape_def)

lemma restore_lookup_hit:
  assumes "distinct (map fst mp)" "\<forall>t \<in> fst ` set mp. token_shape t" "map_of mp t = Some v"
  shows "map_of (restore_lookup acc mp) (casefold t) = Some v"
  using assms
proof (induction acc mp rule: restore_lookup.induct)
  case (1 acc)
  then show ?case by simp
next
  case (2 acc tk x rest)
  have ts: "token_shape tk" "tk \<noteq> []" using "2.prems"(2) token_nonempty by auto
  show ?case
  proof (cases "t = tk")
    case True
    have "casefold t' \<noteq> casefold tk" if "t' \<in> fst ` set rest" for t'
    proof -
      have "token_shape t'" "t' \<noteq> tk" using "2.prems"(1,2) that by auto
      then show ?thesis using ts(1) token_casefold_inj by blast
    qed
    then have "map_of (restore_lookup (AList.update (casefold tk) x acc) rest) (casefold tk) = Some x"
      by (simp add: restore_lookup_keep map_of_update)
    with True "2.prems"(3) ts show ?thesis by simp
  next
    case False
    with "2.prems" "2.IH" ts show ?thesis by simp
  qed
qed

subsection \<open>One pass over a rendered text\<close>

definition lookup_keys :: "(string, string) dict \<Rightarrow> string list" where
  "lookup_keys lookup = sort_key (\<lambda>k. - int (length k)) (map fst lookup)"

lemma restore_pattern_none:
  assumes "lookup = restore_lookup [] mp" "lookup \<noteq> []" "\<forall>k \<in> fst ` set mp. \<not> key_at k r"
  shows "match_at (restore_pattern lookup) b r = None"
proof -
  have "fst ` set lookup = casefold ` {t \<in> fst ` set mp. t \<noteq> []}"
    using assms(1) restore_lookup_keys [of "[]" mp] by simp
  then have "\<forall>k \<in> set (lookup_keys lookup). \<not> key_at k r"
    using assms(3) by (auto simp: lookup_keys_def)
  then have "List.find (\<lambda>k. key_at k r) (lookup_keys lookup) = None"
    by (simp add: find_None_iff)
  moreover have "lookup_keys lookup \<noteq> []" using assms(2) by (metis lookup_keys_def length_sort length_0_conv length_map)
  ultimately show ?thesis
    unfolding restore_pattern_def lookup_keys_def [symmetric] by (simp add: match_alts_lit_ci)
qed

lemma restore_pattern_token:
  assumes "lookup = restore_lookup [] mp" "\<forall>k \<in> fst ` set mp. token_shape k" "t \<in> fst ` set mp"
  shows "match_at (restore_pattern lookup) b (t @ r) = Some (rev t @ b, r, None)"
proof -
  have keys: "fst ` set lookup = casefold ` {t \<in> fst ` set mp. t \<noteq> []}"
    using assms(1) restore_lookup_keys [of "[]" mp] by simp
  have t: "token_shape t" "t \<noteq> []" using assms(2,3) token_nonempty by auto
  then have "casefold t \<in> set (lookup_keys lookup)" using keys assms(3) by (auto simp: lookup_keys_def)
  moreover have "key_at (casefold t) (t @ r)" using token_key_at_self by simp
  ultimately obtain k where f: "List.find (\<lambda>k. key_at k (t @ r)) (lookup_keys lookup) = Some k"
    by (metis (mono_tags, lifting) find_None_iff not_None_eq)
  then have k: "k \<in> set (lookup_keys lookup)" "key_at k (t @ r)" by (auto simp: find_Some_iff)
  from k(1) have "k \<in> casefold ` {t \<in> fst ` set mp. t \<noteq> []}"
    unfolding keys [symmetric] by (simp add: lookup_keys_def)
  then obtain k0 where k0: "k = casefold k0" "k0 \<in> fst ` set mp" by blast
  then have "key_at k0 (t @ r)" using k(2) by simp
  then have "k0 = t" using token_key_at_unique assms(2) k0(2) t(1) by blast
  then have "length k = length t" by (simp add: k0(1))
  moreover have "lookup_keys lookup \<noteq> []" using \<open>k \<in> set (lookup_keys lookup)\<close> by auto
  ultimately show ?thesis
    unfolding restore_pattern_def lookup_keys_def [symmetric] by (simp add: match_alts_lit_ci f)
qed

lemma slice_occurs:
  assumes "py_slice u a b = w @ r" "r \<noteq> []" "key_at k r"
  shows "occurs_ci k u"
proof -
  let ?x = "slice_bound (length u) a" and ?n = "slice_bound (length u) b - slice_bound (length u) a"
  have "u = take ?x u @ take ?n (drop ?x u) @ drop ?n (drop ?x u)"
    by (simp only: append_take_drop_id)
  also have "\<dots> = (take ?x u @ w) @ (r @ drop ?n (drop ?x u))"
    using assms(1) by (simp add: py_slice_def Let_def)
  finally show ?thesis using assms(2,3) occurs_ciI key_at_append by (metis append_is_Nil_conv)
qed

definition restored :: "string \<Rightarrow> (span \<Rightarrow> string) \<Rightarrow> span \<Rightarrow> string" where
  "restored u tok s = (if reversible s then span_value u s else tok s)"

definition restorable :: "(string, string) dict \<Rightarrow> string \<Rightarrow> (span \<Rightarrow> string) \<Rightarrow> span \<Rightarrow> bool" where
  "restorable mp u tok s \<longleftrightarrow> token_shape (tok s)
     \<and> (if reversible s then map_of mp (tok s) = Some (span_value u s) else tok s \<notin> fst ` set mp)"

lemma restore_render:
  assumes lk: "lookup = restore_lookup [] mp" "lookup \<noteq> []"
    and mp: "distinct (map fst mp)" "\<forall>k \<in> fst ` set mp. token_shape k \<and> \<not> occurs_ci k u"
    and ss: "\<forall>s \<in> set ss. restorable mp u tok s"
  shows "re_sub_from (restore_pattern lookup) (\<lambda>m _. dict_get lookup (casefold m) m) b (render u cur ss tok)
       = render u cur ss (restored u tok)"
  using ss
proof (induction ss arbitrary: cur b)
  case Nil
  have "\<not> key_at k r'" if "py_slice u cur (int (length u)) = w @ r'" "k \<in> fst ` set mp" for k w r'
  proof (cases "r' = []")
    case True
    with mp(2) that(2) token_nonempty show ?thesis by auto
  next
    case False
    with mp(2) that slice_occurs show ?thesis by blast
  qed
  then have "re_sub_from (restore_pattern lookup) (\<lambda>m _. dict_get lookup (casefold m) m) b (py_slice u cur (int (length u)))
      = py_slice u cur (int (length u))"
    by (intro re_sub_from_no_match restore_pattern_none [OF lk]) blast
  then show ?case by simp
next
  case (Cons s ss)
  let ?P = "restore_pattern lookup" and ?F = "\<lambda>m (_ :: string option). dict_get lookup (casefold m) m"
  let ?gap = "py_slice u cur (s_start s)" and ?t = "tok s"
  let ?rest = "render u (s_end s) ss tok"
  have t: "token_shape ?t" "?t \<noteq> []" using Cons.prems token_nonempty by (auto simp: restorable_def)
  have gap: "re_sub_from ?P ?F b (?gap @ ?t @ ?rest) = ?gap @ re_sub_from ?P ?F (rev ?gap @ b) (?t @ ?rest)"
  proof (rule re_sub_from_skip)
    fix b' w r' assume "?gap = w @ r'" "r' \<noteq> []" "b' = rev w @ b"
    then have "\<not> key_at k (r' @ ?t @ ?rest)" if "k \<in> fst ` set mp" for k
      using mp(2) that slice_occurs t(1) token_key_not_across by metis
    then show "match_at ?P b' (r' @ ?t @ ?rest) = None"
      by (intro restore_pattern_none [OF lk]) blast
  qed
  have tok: "re_sub_from ?P ?F b' (?t @ ?rest) = restored u tok s @ re_sub_from ?P ?F (rev ?t @ b') ?rest" for b'
  proof (cases "reversible s")
    case True
    with Cons.prems have m: "map_of mp ?t = Some (span_value u s)" by (simp add: restorable_def)
    then have "?t \<in> fst ` set mp" by (force dest: map_of_SomeD)
    then have "match_at ?P b' (?t @ ?rest) = Some (rev ?t @ b', ?rest, None)"
      using restore_pattern_token [OF lk(1)] mp(2) by blast
    then have "re_sub_from ?P ?F b' (?t @ ?rest) = ?F ?t None @ re_sub_from ?P ?F (rev ?t @ b') ?rest"
      using t(2) by (rule re_sub_from_match)
    moreover have "map_of lookup (casefold ?t) = Some (span_value u s)"
      unfolding lk(1) using mp m by (intro restore_lookup_hit) auto
    ultimately show ?thesis using True by (simp add: restored_def dict_get_def)
  next
    case False
    with Cons.prems have m: "?t \<notin> fst ` set mp" by (simp add: restorable_def)
    have "re_sub_from ?P ?F b' (?t @ ?rest) = ?t @ re_sub_from ?P ?F (rev ?t @ b') ?rest"
    proof (rule re_sub_from_skip)
      fix b'' w r' assume w: "?t = w @ r'" "r' \<noteq> []" "b'' = rev w @ b'"
      have "\<not> key_at k (r' @ ?rest)" if k: "k \<in> fst ` set mp" for k
      proof (cases "w = []")
        case True
        then have "r' = ?t" using w(1) by simp
        with k m mp(2) token_key_at_unique [of k ?t ?rest] t(1) show ?thesis by metis
      next
        case False
        then show ?thesis using token_key_not_inside [OF _ t(1) w(1) False w(2)] mp(2) k by blast
      qed
      then show "match_at ?P b'' (r' @ ?rest) = None"
        by (intro restore_pattern_none [OF lk]) blast
    qed
    with False show ?thesis by (simp add: restored_def)
  qed
  have "re_sub_from ?P ?F b (render u cur (s # ss) tok)
      = ?gap @ restored u tok s @ re_sub_from ?P ?F (rev ?t @ rev ?gap @ b) ?rest"
    using gap tok by simp
  with Cons.IH Cons.prems show ?case by simp
qed

subsection \<open>Tokens of a session\<close>

definition clean_session :: "session \<Rightarrow> bool" where
  "clean_session se \<longleftrightarrow> (\<forall>ty \<in> dom (per_type_counters se). clean_type ty)"

lemma clean_session_initialize: "clean_session (initialize_session rnd se)"
  by (simp add: clean_session_def initialize_session_def)

lemma clean_type_take: "clean_type ty \<Longrightarrow> clean_type (take n ty)"
  by (auto simp: clean_type_def dest: in_set_takeD)

lemma token_for_clean:
  assumes "token_for se m v sp = (se', m', t)" "clean_session se" "clean_type (entity_type sp)" "distinct (map fst m)"
  shows "clean_session se' \<and> distinct (map fst m')"
  using assms(1)
proof (cases rule: token_for_cases)
  case hit
  with assms show ?thesis by simp
next
  case (fresh ty c)
  with assms show ?thesis
    by (auto simp: clean_session_def clean_type_take distinct_update)
qed

lemma tokenize_loop_clean:
  assumes "tokenize_loop u ss se m ps cur = (se', m', ps', cur')" "clean_session se"
    "\<forall>s \<in> set ss. clean_type (entity_type s)" "distinct (map fst m)"
  shows "clean_session se' \<and> distinct (map fst m')"
  using assms
proof (induction ss arbitrary: se m ps cur)
  case Nil
  then show ?case by simp
next
  case (Cons s ss)
  obtain se1 m1 t where tf: "token_for se m (py_slice u (s_start s) (s_end s)) s = (se1, m1, t)"
    by (metis prod_cases3)
  from token_for_clean [OF tf Cons.prems(2) _ Cons.prems(4)] Cons.prems(3)
  have "clean_session se1" "distinct (map fst m1)" by simp_all
  moreover from Cons.prems(1) tf
  have "tokenize_loop u ss se1 m1 (ps @ [py_slice u cur (s_start s), t]) (s_end s) = (se', m', ps', cur')"
    by simp
  ultimately show ?case using Cons.IH Cons.prems(3) by simp
qed

lemma tokenize_clean:
  assumes "tokenize se u ds = (se', out, m)" "clean_session se"
    "\<forall>s \<in> set (non_overlapping u ds). clean_type (entity_type s)"
  shows "clean_session se' \<and> distinct (map fst m)"
proof (cases "ds = []")
  case True
  with assms show ?thesis by (simp add: tokenize_def)
next
  case False
  with assms obtain ps c where "tokenize_loop u (non_overlapping u ds) se [] [] 0 = (se', m, ps, c)"
    by (auto simp: tokenize_def Let_def split: prod.splits)
  from tokenize_loop_clean [OF this assms(2,3)] show ?thesis by simp
qed

lemma session_token_shape:
  assumes "session_ok se" "clean_session se" "map_of (value_to_token se) k = Some t"
  shows "token_shape t"
proof -
  from assms(1,3) obtain ty n c where "t = mk_token ty (seed se + n)" "per_type_counters se ty = Some c"
    unfolding session_ok_def by blast
  with assms(2) show ?thesis by (auto simp: clean_session_def dom_def intro: mk_token_shape)
qed

text \<open>The mapping of a whole session restores each of its texts.\<close>

lemma session_restorable:
  assumes ok: "session_ok se" "clean_session se" and mp: "mapping_ok se (map_of mp)"
    and lk: "map_of (value_to_token se) (span_value u s, reversible s) = Some (session_token se u s)"
  shows "restorable mp u (session_token se u) s"
proof -
  have "token_shape (session_token se u s)" using session_token_shape [OF ok lk] .
  moreover have "map_of mp (session_token se u s) = Some (span_value u s)" if "reversible s"
    using lk mp that by (simp add: mapping_ok_def)
  moreover have "session_token se u s \<notin> fst ` set mp" if "\<not> reversible s"
  proof
    assume "session_token se u s \<in> fst ` set mp"
    then obtain v where "map_of mp (session_token se u s) = Some v"
      by (metis domD dom_map_of_conv_image_fst)
    then have "map_of (value_to_token se) (v, True) = Some (session_token se u s)"
      using mp by (simp add: mapping_ok_def)
    with lk ok(1) have "(v, True) = (span_value u s, reversible s)" unfolding session_ok_def by blast
    with that show False by simp
  qed
  ultimately show ?thesis by (simp add: restorable_def)
qed

lemma render_nonempty: "s \<in> set ss \<Longrightarrow> f s \<noteq> [] \<Longrightarrow> render u cur ss f \<noteq> []"
  by (induction ss arbitrary: cur) auto

lemma restore_text_render:
  assumes ok: "session_ok se" "clean_session se" and mp: "mapping_ok se (map_of mp)" "distinct (map fst mp)"
    and fresh: "\<forall>k \<in> fst ` set mp. \<not> occurs_ci k u"
    and lk: "\<forall>s \<in> set ss. map_of (value_to_token se) (span_value u s, reversible s) = Some (session_token se u s)"
  shows "restore_text (render u 0 ss (session_token se u)) mp = render u 0 ss (restored u (session_token se u))"
proof -
  let ?tok = "session_token se u"
  have ss: "\<forall>s \<in> set ss. restorable mp u ?tok s" using session_restorable [OF ok mp(1)] lk by blast
  have shape: "\<forall>k \<in> fst ` set mp. token_shape k"
  proof
    fix k assume "k \<in> fst ` set mp"
    then obtain v where "map_of mp k = Some v" by (metis domD dom_map_of_conv_image_fst)
    with mp(1) have "map_of (value_to_token se) (v, True) = Some k" by (simp add: mapping_ok_def)
    then show "token_shape k" using session_token_shape [OF ok] by blast
  qed
  consider "mp = []" | "render u 0 ss ?tok = []" | "mp \<noteq> []" "render u 0 ss ?tok \<noteq> []" by blast
  then show ?thesis
  proof cases
    case 1
    with ss have "\<forall>s \<in> set ss. restored u ?tok s = ?tok s"
      by (auto simp: restorable_def restored_def split: if_splits)
    then have "render u 0 ss (restored u ?tok) = render u 0 ss ?tok" by (intro render_cong) simp
    with 1 show ?thesis by (simp add: restore_text_def)
  next
    case 2
    have "ss = []"
    proof (rule ccontr)
      assume "ss \<noteq> []"
      then have "hd ss \<in> set ss" by simp
      moreover from this ss token_nonempty have "?tok (hd ss) \<noteq> []" by (auto simp: restorable_def)
      ultimately show False using 2 render_nonempty by blast
    qed
    with 2 show ?thesis by (simp add: restore_text_def)
  next
    case 3
    let ?lk = "restore_lookup [] mp"
    have "fst ` set ?lk \<noteq> {}"
    proof -
      have "hd mp \<in> set mp" using 3(1) by simp
      then have "fst (hd mp) \<in> fst ` set mp" by simp
      moreover from this shape token_nonempty have "fst (hd mp) \<noteq> []" by blast
      ultimately have "casefold (fst (hd mp)) \<in> fst ` set ?lk" unfolding restore_lookup_keys by blast
      then show ?thesis by (metis empty_iff)
    qed
    then have lk: "?lk \<noteq> []" by auto
    have "re_sub_from (restore_pattern ?lk) (\<lambda>m _. dict_get ?lk (casefold m) m) [] (render u 0 ss ?tok)
       = render u 0 ss (restored u ?tok)"
      using shape fresh by (intro restore_render [OF refl lk mp(2) _ ss]) blast
    with 3 lk show ?thesis by (simp add: restore_text_def Let_def re_sub_def)
  qed
qed

end
