(* ===== verification/TailBuffers.thy ===== *)
theory TailBuffers
  imports Complex_Main Restore
begin

text \<open>
  \<open>streaming/tail_buffer.py\<close> and \<open>streaming/stream_event.py\<close>: the finite state machine that
  reassembles streamed text. The lock makes every \<open>ingest\<close> one atomic step, so a step is a
  function of the state. The two readings of \<open>time.monotonic()\<close> of a step (age test, flush
  stamp) are arguments, in seconds; \<open>dump\<close> stands for \<open>ToolCallDelta.model_dump_json\<close>.
\<close>

subsection \<open>Events\<close>

datatype event_type = START | TEXT_DELTA | TOOL_CALL_DELTA | REASONING_DELTA | FINISH | ERROR | HEARTBEAT

datatype finish_reason = STOP | LENGTH | TOOL_CALL | CONTENT_FILTER | FR_ERROR | UNKNOWN

record tool_call_delta =
  tc_index :: int
  tc_id :: "string option"
  tc_type :: "string option"
  function_name :: "string option"
  function_arguments :: "string option"

record stream_event =
  event_type :: event_type
  delta_text :: "string option"
  tool_call :: "tool_call_delta option"
  reasoning :: "string option"
  finish_reason :: "finish_reason option"
  metadata :: "(string, string) dict"
  ev_provider :: string
  ev_role :: "string option"

fun finish_value :: "finish_reason \<Rightarrow> string" where
  "finish_value STOP = ''STOP''"
| "finish_value LENGTH = ''LENGTH''"
| "finish_value TOOL_CALL = ''TOOL_CALL''"
| "finish_value CONTENT_FILTER = ''CONTENT_FILTER''"
| "finish_value FR_ERROR = ''ERROR''"
| "finish_value UNKNOWN = ''UNKNOWN''"

subsection \<open>The buffer\<close>

datatype buffer_state = COLLECTING | MATCHING | FLUSHING | TERMINATED

record tail_buffer =
  active_buffer :: string
  tail_window :: string
  tb_state :: buffer_state
  last_flush_at :: rat

definition TAIL_WINDOW_CHARS :: nat where "TAIL_WINDOW_CHARS = 128"
definition MAX_BUFFER_CHARS :: nat where "MAX_BUFFER_CHARS = 2048"
definition MAX_BUFFER_AGE_MS :: rat where "MAX_BUFFER_AGE_MS = 1000"

definition new_tail_buffer :: "rat \<Rightarrow> tail_buffer" where
  "new_tail_buffer now =
     \<lparr>active_buffer = [], tail_window = [], tb_state = COLLECTING, last_flush_at = now\<rparr>"

definition partial_pattern :: rx where
  "partial_pattern =
     Cat (Chr (\<lambda>c. c = CHR ''['')) (Cat (Chr is_letter)
       (Cat (Rep (\<lambda>c. is_letter c \<or> c = CHR ''_'') 0 (Some 19))
         (Cat (opt (CHR ''_'')) (Cat (Rep is_digit 0 None) AtEnd))))"

definition tb_flush :: "rat \<Rightarrow> tail_buffer \<Rightarrow> string list \<times> tail_buffer" where
  "tb_flush now tb =
     (let buffer_len = length (active_buffer tb); tb = tb\<lparr>tb_state := FLUSHING\<rparr>;
          (out, tb) =
            (if buffer_len \<le> TAIL_WINDOW_CHARS
             then ([], tb\<lparr>tail_window := active_buffer tb\<rparr>)
             else (let safe_end = buffer_len - TAIL_WINDOW_CHARS;
                       safe_prefix = take safe_end (active_buffer tb);
                       tail = drop safe_end (active_buffer tb)
                   in (if safe_prefix \<noteq> [] then [safe_prefix] else [],
                       tb\<lparr>tail_window := tail, active_buffer := tail\<rparr>)))
      in (out, tb\<lparr>last_flush_at := now, tb_state := COLLECTING\<rparr>))"

definition tail_region :: "tail_buffer \<Rightarrow> string" where
  "tail_region tb =
     (if length (active_buffer tb) > TAIL_WINDOW_CHARS
      then py_slice (active_buffer tb) (- int TAIL_WINDOW_CHARS) (int (length (active_buffer tb)))
      else active_buffer tb)"

definition tb_match :: "rat \<Rightarrow> rat \<Rightarrow> tail_buffer \<Rightarrow> string list \<times> tail_buffer" where
  "tb_match now now' tb =
     (if last_flush_at tb > 0 \<and> (now - last_flush_at tb) * 1000 \<ge> MAX_BUFFER_AGE_MS then tb_flush now' tb
      else if length (active_buffer tb) \<ge> MAX_BUFFER_CHARS then tb_flush now' tb
      else if re_search token_pattern (tail_region tb) then tb_flush now' tb
      else if re_search partial_pattern (tail_region tb) then ([], tb\<lparr>tb_state := COLLECTING\<rparr>)
      else tb_flush now' tb)"

definition format_non_text_delta :: "(tool_call_delta \<Rightarrow> string) \<Rightarrow> stream_event \<Rightarrow> string" where
  "format_non_text_delta dump ev =
     (case event_type ev of
        REASONING_DELTA \<Rightarrow> (case reasoning ev of None \<Rightarrow> [] | Some r \<Rightarrow> r)
      | TOOL_CALL_DELTA \<Rightarrow> (case tool_call ev of None \<Rightarrow> ''{}'' | Some tc \<Rightarrow> dump tc)
      | FINISH \<Rightarrow> (case finish_reason ev of None \<Rightarrow> ''STOP'' | Some fr \<Rightarrow> finish_value fr)
      | ERROR \<Rightarrow> dict_get (metadata ev) ''error'' ''Unknown error''
      | _ \<Rightarrow> [])"

definition ingest ::
  "(tool_call_delta \<Rightarrow> string) \<Rightarrow> rat \<Rightarrow> rat \<Rightarrow> stream_event \<Rightarrow> tail_buffer \<Rightarrow> string list \<times> tail_buffer" where
  "ingest dump now now' ev tb =
     (if tb_state tb = TERMINATED then ([], tb)
      else if event_type ev \<noteq> TEXT_DELTA
      then (let s = format_non_text_delta dump ev in (if s \<noteq> [] then [s] else [], tb))
      else (let tb = (case delta_text ev of None \<Rightarrow> tb
                      | Some d \<Rightarrow> tb\<lparr>active_buffer := active_buffer tb @ d\<rparr>)
            in tb_match now now' (tb\<lparr>tb_state := MATCHING\<rparr>)))"

definition terminate :: "tail_buffer \<Rightarrow> tail_buffer" where
  "terminate tb = tb\<lparr>tb_state := TERMINATED\<rparr>"

definition flush_remaining :: "tail_buffer \<Rightarrow> string \<times> tail_buffer" where
  "flush_remaining tb = (active_buffer tb, tb\<lparr>active_buffer := [], tail_window := []\<rparr>)"

subsection \<open>A whole stream\<close>

text \<open>
  A stream is a list of events with the clock readings of their steps. \<open>ingest_all\<close> keeps, per
  event, the chunks it made the buffer emit.
\<close>

fun ingest_all ::
  "(tool_call_delta \<Rightarrow> string) \<Rightarrow> (rat \<times> rat \<times> stream_event) list \<Rightarrow> tail_buffer
     \<Rightarrow> (stream_event \<times> string list) list \<times> tail_buffer" where
  "ingest_all dump [] tb = ([], tb)"
| "ingest_all dump ((now, now', ev) # evs) tb =
     (let (out, tb) = ingest dump now now' ev tb; (outs, tb) = ingest_all dump evs tb
      in ((ev, out) # outs, tb))"

definition text_of :: "(stream_event \<times> string list) list \<Rightarrow> string" where
  "text_of outs = concat (map (\<lambda>(ev, cs). if event_type ev = TEXT_DELTA then concat cs else []) outs)"

definition delta_of :: "stream_event \<Rightarrow> string" where
  "delta_of ev = (if event_type ev = TEXT_DELTA then (case delta_text ev of None \<Rightarrow> [] | Some d \<Rightarrow> d) else [])"

subsection \<open>One step\<close>

lemma tb_flush_cases:
  assumes "tb_flush now tb = (out, tb')"
  shows "concat out @ active_buffer tb' = active_buffer tb"
    and "length (active_buffer tb') = min (length (active_buffer tb)) TAIL_WINDOW_CHARS"
    and "tb_state tb' = COLLECTING" and "tail_window tb' = active_buffer tb'" and "last_flush_at tb' = now"
    and "\<forall>c \<in> set out. c \<noteq> []" and "length out \<le> 1"
  using assms by (auto simp: tb_flush_def Let_def split: if_splits prod.splits)

lemma tb_match_cases:
  assumes "tb_match now now' tb = (out, tb')"
  obtains (flush) "tb_flush now' tb = (out, tb')"
  | (wait) "out = []" "tb' = tb\<lparr>tb_state := COLLECTING\<rparr>" "length (active_buffer tb) < MAX_BUFFER_CHARS"
      "re_search partial_pattern (tail_region tb)" "\<not> re_search token_pattern (tail_region tb)"
proof (cases "tb_match now now' tb = tb_flush now' tb")
  case True
  with assms show ?thesis by (intro flush) simp
next
  case False
  then have "length (active_buffer tb) < MAX_BUFFER_CHARS" "re_search partial_pattern (tail_region tb)"
    "\<not> re_search token_pattern (tail_region tb)" "tb_match now now' tb = ([], tb\<lparr>tb_state := COLLECTING\<rparr>)"
    unfolding tb_match_def by (simp_all only: split: if_splits) simp_all
  with assms show ?thesis by (intro wait) simp_all
qed

lemma ingest_text:
  assumes "tb_state tb \<noteq> TERMINATED" "event_type ev = TEXT_DELTA"
  shows "ingest dump now now' ev tb
     = tb_match now now' (tb\<lparr>active_buffer := active_buffer tb @ delta_of ev, tb_state := MATCHING\<rparr>)"
  using assms by (cases "delta_text ev") (simp_all add: ingest_def delta_of_def)

lemma ingest_other:
  assumes "event_type ev \<noteq> TEXT_DELTA \<or> tb_state tb = TERMINATED"
  shows "snd (ingest dump now now' ev tb) = tb"
  using assms by (auto simp: ingest_def Let_def)

lemma ingest_conserves:
  assumes "ingest dump now now' ev tb = (out, tb')" "tb_state tb \<noteq> TERMINATED"
  shows "(if event_type ev = TEXT_DELTA then concat out else []) @ active_buffer tb' = active_buffer tb @ delta_of ev"
proof (cases "event_type ev = TEXT_DELTA")
  case True
  with assms ingest_text [of tb ev dump now now'] have "tb_match now now' (tb\<lparr>active_buffer := active_buffer tb @ delta_of ev, tb_state := MATCHING\<rparr>) = (out, tb')"
    by simp
  then show ?thesis
  proof (cases rule: tb_match_cases)
    case flush
    from tb_flush_cases(1) [OF this] True show ?thesis by simp
  next
    case wait
    with True show ?thesis by simp
  qed
next
  case False
  with ingest_other [of ev tb dump now now'] assms(1) show ?thesis by (simp add: delta_of_def)
qed

lemma ingest_not_terminated:
  assumes "ingest dump now now' ev tb = (out, tb')" "tb_state tb \<noteq> TERMINATED"
  shows "tb_state tb' \<noteq> TERMINATED"
proof (cases "event_type ev = TEXT_DELTA")
  case True
  with assms ingest_text [of tb ev dump now now'] have "tb_match now now' (tb\<lparr>active_buffer := active_buffer tb @ delta_of ev, tb_state := MATCHING\<rparr>) = (out, tb')"
    by simp
  then show ?thesis
  proof (cases rule: tb_match_cases)
    case flush
    from tb_flush_cases(3) [OF this] show ?thesis by simp
  qed simp
next
  case False
  with ingest_other [of ev tb dump now now'] assms show ?thesis by simp
qed

lemma ingest_bound:
  assumes "ingest dump now now' ev tb = (out, tb')" "tb_state tb \<noteq> TERMINATED"
    "length (active_buffer tb) < MAX_BUFFER_CHARS"
  shows "length (active_buffer tb') < MAX_BUFFER_CHARS"
proof (cases "event_type ev = TEXT_DELTA")
  case True
  with assms ingest_text [of tb ev dump now now'] have "tb_match now now' (tb\<lparr>active_buffer := active_buffer tb @ delta_of ev, tb_state := MATCHING\<rparr>) = (out, tb')"
    by simp
  then show ?thesis
  proof (cases rule: tb_match_cases)
    case flush
    from tb_flush_cases(2) [OF this] show ?thesis by (simp add: MAX_BUFFER_CHARS_def TAIL_WINDOW_CHARS_def)
  qed simp
next
  case False
  with ingest_other [of ev tb dump now now'] assms show ?thesis by simp
qed

subsection \<open>Whole streams\<close>

lemma ingest_all_conserves:
  assumes "ingest_all dump evs tb = (outs, tb')" "tb_state tb \<noteq> TERMINATED"
    "length (active_buffer tb) < MAX_BUFFER_CHARS"
  shows "text_of outs @ active_buffer tb' = active_buffer tb @ concat (map (\<lambda>(_, _, ev). delta_of ev) evs)
    \<and> length (active_buffer tb') < MAX_BUFFER_CHARS \<and> tb_state tb' \<noteq> TERMINATED"
  using assms
proof (induction evs arbitrary: tb outs)
  case Nil
  then show ?case by (simp add: text_of_def)
next
  case (Cons e evs)
  obtain now now' ev where e: "e = (now, now', ev)" by (cases e)
  obtain out tb1 where st: "ingest dump now now' ev tb = (out, tb1)" by (metis surj_pair)
  obtain outs' where rest: "ingest_all dump evs tb1 = (outs', tb')" and o: "outs = (ev, out) # outs'"
    using Cons.prems(1) st by (auto simp: e Let_def split: prod.splits)
  note IH = Cons.IH [OF rest ingest_not_terminated [OF st Cons.prems(2)] ingest_bound [OF st Cons.prems(2,3)]]
  have "text_of outs = (if event_type ev = TEXT_DELTA then concat out else []) @ text_of outs'"
    by (simp add: o text_of_def)
  with IH have "text_of outs @ active_buffer tb'
      = ((if event_type ev = TEXT_DELTA then concat out else []) @ active_buffer tb1)
          @ concat (map (\<lambda>(_, _, ev). delta_of ev) evs)"
    by simp
  also have "\<dots> = (active_buffer tb @ delta_of ev) @ concat (map (\<lambda>(_, _, ev). delta_of ev) evs)"
    using ingest_conserves [OF st Cons.prems(2)] by simp
  finally show ?case using IH by (simp add: e)
qed

end
