(* ===== verification/Classify.thy ===== *)
theory Classify
  imports Json Spans
begin

text \<open>
  Classification. \<open>classification/engine.py\<close>: the rules loaded from YAML and their evaluation in
  precedence order. \<open>models/classification.py\<close>, \<open>services/classification_engine.py\<close> and
  \<open>services/classification.py\<close>: the five sensitivity levels, the maximum over the detected entity
  types, the client-asserted override and the handling action. A rule's compiled patterns are
  search predicates on the text, as \<open>re\<close> compiles them outside this code.
\<close>

subsection \<open>Rules\<close>

record class_rule =
  rule_id :: string
  enabled :: bool
  version :: int
  action :: string
  roles :: "string list"
  compiled_patterns :: "(string \<Rightarrow> bool) list"
  rule_keywords :: "string list"

definition ACTION_PRECEDENCE :: "string list" where
  "ACTION_PRECEDENCE = [''BLOCK'', ''ROUTE_LOCAL'', ''ANONYMIZE'', ''PASS'']"

text \<open>The constructor: keywords are stored in lower case.\<close>

definition make_rule ::
  "string \<Rightarrow> bool \<Rightarrow> int \<Rightarrow> string \<Rightarrow> string list \<Rightarrow> (string \<Rightarrow> bool) list \<Rightarrow> string list \<Rightarrow> class_rule" where
  "make_rule i en v act rs pats kws =
     \<lparr>rule_id = i, enabled = en, version = v, action = act, roles = rs, compiled_patterns = pats,
      rule_keywords = map casefold kws\<rparr>"

text \<open>\<open>kw in value\<close> on strings.\<close>

fun py_in :: "string \<Rightarrow> string \<Rightarrow> bool" where
  "py_in k [] = (k = [])"
| "py_in k (c # cs) = (starts_with (c # cs) k \<or> py_in k cs)"

fun node_matches :: "class_rule \<Rightarrow> text_node \<Rightarrow> bool" where
  "node_matches rl n =
     (if roles rl \<noteq> [] \<and> \<not> list_ex (\<lambda>x. role n = JStr x) (roles rl) then False
      else if compiled_patterns rl = [] \<and> rule_keywords rl = [] then True
      else (let regex_match = list_ex (\<lambda>p. p (node_text n)) (compiled_patterns rl);
                value_lower = casefold (node_text n);
                keyword_match = list_ex (\<lambda>kw. py_in kw value_lower) (rule_keywords rl)
            in regex_match \<or> keyword_match))"

definition rule_matches :: "class_rule \<Rightarrow> text_node list \<Rightarrow> bool" where
  "rule_matches rl nodes = (if \<not> enabled rl then False else list_ex (node_matches rl) nodes)"

record class_outcome =
  co_action :: string
  matched_rule_ids :: "string list"
  matched_rule_versions :: "int list"
  configured_action :: "string option"
  classification_level :: "string option"
  co_highest_entity :: "string option"

record class_engine =
  rules_by_action :: "(string, class_rule list) dict"
  default_action :: string

definition make_engine :: "class_rule list \<Rightarrow> string \<Rightarrow> class_engine" where
  "make_engine rules dflt =
     \<lparr>rules_by_action = foldl (\<lambda>d rl. case map_of d (action rl) of None \<Rightarrow> d
                                    | Some rls \<Rightarrow> AList.update (action rl) (rls @ [rl]) d)
                          (map (\<lambda>a. (a, [])) ACTION_PRECEDENCE) rules,
      default_action = dflt\<rparr>"

fun first_match :: "text_node list \<Rightarrow> class_rule list \<Rightarrow> class_rule option" where
  "first_match nodes [] = None"
| "first_match nodes (rl # rls) = (if rule_matches rl nodes then Some rl else first_match nodes rls)"

fun classify_actions :: "class_engine \<Rightarrow> text_node list \<Rightarrow> string list \<Rightarrow> class_outcome" where
  "classify_actions eng nodes [] =
     \<lparr>co_action = default_action eng, matched_rule_ids = [], matched_rule_versions = [],
      configured_action = None, classification_level = None, co_highest_entity = None\<rparr>"
| "classify_actions eng nodes (a # as) =
     (case first_match nodes (dict_get (rules_by_action eng) a []) of
        Some rl \<Rightarrow> \<lparr>co_action = a, matched_rule_ids = [rule_id rl], matched_rule_versions = [version rl],
                   configured_action = None, classification_level = None, co_highest_entity = None\<rparr>
      | None \<Rightarrow> classify_actions eng nodes as)"

definition classify :: "class_engine \<Rightarrow> text_node list \<Rightarrow> class_outcome" where
  "classify eng nodes = classify_actions eng nodes ACTION_PRECEDENCE"

subsection \<open>Precedence\<close>

text \<open>
  The specification: the first action of the precedence order for which some enabled rule of that
  action matches some node, and the default action if there is none.
\<close>

definition has_match :: "class_rule list \<Rightarrow> text_node list \<Rightarrow> string \<Rightarrow> bool" where
  "has_match rules nodes a \<longleftrightarrow> list_ex (\<lambda>rl. action rl = a \<and> rule_matches rl nodes) rules"

definition spec_action :: "class_rule list \<Rightarrow> string \<Rightarrow> text_node list \<Rightarrow> string" where
  "spec_action rules dflt nodes =
     (case List.find (has_match rules nodes) ACTION_PRECEDENCE of None \<Rightarrow> dflt | Some a \<Rightarrow> a)"

lemma make_engine_rules:
  "List.member ACTION_PRECEDENCE a \<Longrightarrow>
     dict_get (rules_by_action (make_engine rules dflt)) a [] = filter (\<lambda>rl. action rl = a) rules"
proof -
  let ?f = "\<lambda>d rl. case map_of d (action rl) of None \<Rightarrow> d
              | Some rls \<Rightarrow> AList.update (action rl) (rls @ [rl]) d"
  have "map_of d a = Some xs \<Longrightarrow> map_of (foldl ?f d rules) a = Some (xs @ filter (\<lambda>rl. action rl = a) rules)" for d xs
  proof (induction rules arbitrary: d xs)
    case Nil
    then show ?case by simp
  next
    case (Cons rl rules)
    show ?case
    proof (cases "action rl = a")
      case True
      then have "map_of (?f d rl) a = Some (xs @ [rl])" using Cons.prems by (simp add: map_of_update)
      from Cons.IH [OF this] True show ?thesis by simp
    next
      case False
      then have "map_of (?f d rl) a = Some xs" using Cons.prems by (simp add: map_of_update split: option.splits)
      from Cons.IH [OF this] False show ?thesis by simp
    qed
  qed
  note fold = this [of "map (\<lambda>a. (a, [])) ACTION_PRECEDENCE" "[]"]
  assume "List.member ACTION_PRECEDENCE a"
  then have "map_of (map (\<lambda>a. (a, [])) ACTION_PRECEDENCE) a = Some []"
    by (auto simp: ACTION_PRECEDENCE_def)
  from fold [OF this] show ?thesis by (simp add: make_engine_def dict_get_def)
qed

lemma first_match_filter:
  "first_match nodes (filter P rules) = List.find (\<lambda>rl. P rl \<and> rule_matches rl nodes) rules"
  by (induction rules) auto

lemma classify_actions_find:
  assumes "\<forall>a \<in> set as. dict_get (rules_by_action eng) a [] = filter (\<lambda>rl. action rl = a) rules"
  shows "co_action (classify_actions eng nodes as)
    = (case List.find (has_match rules nodes) as of None \<Rightarrow> default_action eng | Some a \<Rightarrow> a)"
  using assms
proof (induction as)
  case Nil
  then show ?case by simp
next
  case (Cons a as)
  have "first_match nodes (dict_get (rules_by_action eng) a [])
      = List.find (\<lambda>rl. action rl = a \<and> rule_matches rl nodes) rules"
    using Cons.prems by (simp add: first_match_filter)
  moreover have "has_match rules nodes a \<longleftrightarrow> List.find (\<lambda>rl. action rl = a \<and> rule_matches rl nodes) rules \<noteq> None"
    by (auto simp: has_match_def find_None_iff list_ex_iff)
  ultimately show ?case using Cons by (auto split: option.splits)
qed

lemma make_engine_default [simp]: "default_action (make_engine rules dflt) = dflt"
  by (simp add: make_engine_def)

lemma classify_spec: "co_action (classify (make_engine rules dflt) nodes) = spec_action rules dflt nodes"
  using classify_actions_find [of ACTION_PRECEDENCE "make_engine rules dflt" rules nodes] make_engine_rules
  by (simp add: classify_def spec_action_def split: option.splits)

subsection \<open>Sensitivity levels\<close>

datatype level = PUBLIC | INTERNAL | CONFIDENTIAL | RESTRICTED | HIGHLY_RESTRICTED

fun level_value :: "level \<Rightarrow> nat" where
  "level_value PUBLIC = 0"
| "level_value INTERNAL = 1"
| "level_value CONFIDENTIAL = 2"
| "level_value RESTRICTED = 3"
| "level_value HIGHLY_RESTRICTED = 4"

fun level_name :: "level \<Rightarrow> string" where
  "level_name PUBLIC = ''PUBLIC''"
| "level_name INTERNAL = ''INTERNAL''"
| "level_name CONFIDENTIAL = ''CONFIDENTIAL''"
| "level_name RESTRICTED = ''RESTRICTED''"
| "level_name HIGHLY_RESTRICTED = ''HIGHLY_RESTRICTED''"

lemma level_value_inj: "level_value a = level_value b \<longleftrightarrow> a = b"
  by (cases a; cases b) simp_all

instantiation level :: linorder
begin

definition less_eq_level :: "level \<Rightarrow> level \<Rightarrow> bool" where
  "less_eq_level a b \<longleftrightarrow> level_value a \<le> level_value b"

definition less_level :: "level \<Rightarrow> level \<Rightarrow> bool" where
  "less_level a b \<longleftrightarrow> level_value a < level_value b"

instance
  by standard (auto simp: less_eq_level_def less_level_def level_value_inj)

end

lemma level_top: "HIGHLY_RESTRICTED \<le> a \<longleftrightarrow> a = HIGHLY_RESTRICTED"
  by (cases a) (simp_all add: less_eq_level_def)

record level_result =
  highest :: level
  labels :: "string list"
  detected_levels :: "level list"
  client_override :: bool
  client_asserted_level :: "level option"
  handling_action :: string
  highest_entity :: string

type_synonym entity_map = "(string, level) dict"

definition entity_classification_map :: entity_map where
  "entity_classification_map =
     map (\<lambda>e. (e, INTERNAL)) [''PERSON'', ''PERSON_NAME_DE'', ''LOCATION'', ''DATE_TIME'', ''DATE_DE'',
        ''NRP'', ''AGE'', ''DOMAIN_NAME'', ''ORGANIZATION'', ''ZIP_CODE'', ''IP_ADDRESS'']
   @ map (\<lambda>e. (e, CONFIDENTIAL)) [''EMAIL'', ''EMAIL_ADDRESS'', ''PHONE'', ''PHONE_NUMBER'',
        ''STREET_ADDRESS_DE'', ''POSTCODE_CITY_DE'', ''DATE_OF_BIRTH'', ''HR_NUMBER'', ''AKTENZEICHEN'',
        ''SITE_ID'', ''URL'', ''CRYPTO'']
   @ map (\<lambda>e. (e, RESTRICTED)) [''CREDIT_CARD'', ''CREDIT_CARD_TYPE'', ''IBAN'', ''IBAN_DE'', ''IBAN_CODE'',
        ''IBAN_UNVERIFIED'', ''SWIFT'', ''BANK_ACCOUNT'', ''ACCOUNT_NUMBER_DE'', ''SSN'', ''SVNR_DE'',
        ''MEDICAL_LICENSE'', ''DRIVERS_LICENSE'', ''PASSPORT'', ''PERSONAL_AUSWEIS'', ''TAX_ID'',
        ''TAX_ID_DE'', ''TAX_ID_DE_UNVERIFIED'', ''KVNR'', ''HEALTH_INFO'']
   @ map (\<lambda>e. (e, HIGHLY_RESTRICTED)) [''API_KEY'', ''PASSWORD'', ''AUTH_TOKEN'', ''SOURCE_CODE'']"

definition entity_level :: "entity_map \<Rightarrow> string \<Rightarrow> level" where
  "entity_level m et = dict_get m (upper et) INTERNAL"

definition engine_classify :: "entity_map \<Rightarrow> string list \<Rightarrow> level_result" where
  "engine_classify m entity_types =
     (case map (entity_level m) entity_types of
        [] \<Rightarrow> \<lparr>highest = INTERNAL, labels = [], detected_levels = [], client_override = False,
               client_asserted_level = None, handling_action = [], highest_entity = []\<rparr>
      | l # ls \<Rightarrow> \<lparr>highest = foldl max l ls, labels = entity_types, detected_levels = l # ls,
               client_override = False, client_asserted_level = None, handling_action = [],
               highest_entity = []\<rparr>)"

definition classify_with_client_override :: "entity_map \<Rightarrow> string list \<Rightarrow> level option \<Rightarrow> level_result" where
  "classify_with_client_override m entity_types client_level =
     (let result = engine_classify m entity_types
      in case client_level of
           None \<Rightarrow> result
         | Some cl \<Rightarrow> if cl > highest result
                     then result\<lparr>highest := cl, client_override := True, client_asserted_level := Some cl\<rparr>
                     else result)"

definition update_entity_map :: "entity_map \<Rightarrow> entity_map \<Rightarrow> entity_map" where
  "update_entity_map m overrides = dict_update m overrides"

definition strip_space :: "string \<Rightarrow> string" where
  "strip_space s = rev (dropWhile is_space (rev (dropWhile is_space s)))"

definition parse_client_header :: "string option \<Rightarrow> level option" where
  "parse_client_header hv =
     (case hv of
        None \<Rightarrow> None
      | Some h \<Rightarrow> if h = [] then None
                 else List.find (\<lambda>l. level_name l = upper (strip_space h))
                        [PUBLIC, INTERNAL, CONFIDENTIAL, RESTRICTED, HIGHLY_RESTRICTED])"

definition determine_handling :: "level \<Rightarrow> string" where
  "determine_handling l =
     (if l \<ge> HIGHLY_RESTRICTED then ''block''
      else if l \<ge> RESTRICTED then ''anonymize_and_flag''
      else ''allow_and_anonymize'')"

definition find_highest_entity :: "level_result \<Rightarrow> string option" where
  "find_highest_entity result =
     (if labels result = [] then None
      else let max_detected = (case detected_levels result of [] \<Rightarrow> None | l # ls \<Rightarrow> Some (foldl max l ls))
           in map_option fst
                (List.find (\<lambda>(lb, lv). Some lv = max_detected) (zip (labels result) (detected_levels result))))"

definition service_classify :: "entity_map \<Rightarrow> string list \<Rightarrow> level option \<Rightarrow> level_result" where
  "service_classify m entity_types client_level =
     (let result = classify_with_client_override m entity_types client_level
      in result\<lparr>handling_action := determine_handling (highest result),
                highest_entity := (case find_highest_entity result of None \<Rightarrow> [] | Some e \<Rightarrow> e)\<rparr>)"

subsection \<open>The level is a maximum\<close>

lemma foldl_max_ge: "l \<le> foldl max (l :: level) ls \<and> (\<forall>x \<in> set ls. x \<le> foldl max l ls)
   \<and> foldl max l ls \<in> insert l (set ls)"
proof (induction ls arbitrary: l)
  case Nil
  then show ?case by simp
next
  case (Cons a ls)
  from Cons [of "max l a"] show ?case by (auto simp: max_def split: if_splits)
qed

lemma engine_classify_max:
  "entity_types \<noteq> [] \<Longrightarrow>
     (\<forall>e \<in> set entity_types. entity_level m e \<le> highest (engine_classify m entity_types))
     \<and> highest (engine_classify m entity_types) \<in> entity_level m ` set entity_types"
proof -
  assume "entity_types \<noteq> []"
  then obtain l ls where ls: "map (entity_level m) entity_types = l # ls" by (cases entity_types) auto
  have "set (map (entity_level m) entity_types) = insert l (set ls)" using ls by simp
  then have "entity_level m ` set entity_types = insert l (set ls)" by simp
  with foldl_max_ge [of l ls] ls show ?thesis
    by (fastforce simp: engine_classify_def)
qed

lemma override_highest:
  "highest (classify_with_client_override m es cl)
     = max (highest (engine_classify m es)) (case cl of None \<Rightarrow> highest (engine_classify m es) | Some l \<Rightarrow> l)"
  by (auto simp: classify_with_client_override_def Let_def max_def split: option.splits)

lemma service_highest [simp]: "highest (service_classify m es cl) = highest (classify_with_client_override m es cl)"
  by (simp add: service_classify_def Let_def)

lemma service_handling: "handling_action (service_classify m es cl) = determine_handling (highest (service_classify m es cl))"
  by (simp add: service_classify_def Let_def)

lemma handling_block: "determine_handling l = ''block'' \<longleftrightarrow> l = HIGHLY_RESTRICTED"
  by (simp add: determine_handling_def level_top)

end
