(* ===== verification/Checksums.thy ===== *)
theory Checksums
  imports Detection PyRegex
begin

text \<open>
  The national-identifier checksums of \<open>locale/checksums/\<close>: Steuer-ID (ISO 7064 mod 11,10),
  Personalausweis (ICAO 9303), KVNR, German IBAN (ISO 13616 mod 97), Luhn, CPF, CNPJ, NIR and Codice
  Fiscale, with the generators of \<open>germany.py\<close>. Digits are read with \<open>digit_value\<close>; \<open>chr\<close>
  and \<open>ord\<close> are \<open>char_of\<close> and \<open>of_char\<close>. The theory shows that generated Steuer-IDs and IBANs
  validate and that the Steuer-ID check digit detects every error in one digit.
\<close>

subsection \<open>Helpers\<close>

definition digits_only :: "string \<Rightarrow> string" where
  "digits_only s = filter is_digit s"

definition str1 :: "nat \<Rightarrow> string" where
  "str1 n = dec n"

definition py_int :: "string \<Rightarrow> nat" where
  "py_int s = undec s"

definition remove_spaces :: "string \<Rightarrow> string" where
  "remove_spaces s = filter (\<lambda>c. c \<noteq> CHR '' '') s"

definition pad_left :: "nat \<Rightarrow> string \<Rightarrow> string" where
  "pad_left w s = replicate (w - length s) (CHR ''0'') @ s"

text \<open>\<open>str.isalpha\<close> of one character below 256.\<close>

definition py_isalpha :: "char \<Rightarrow> bool" where
  "py_isalpha c = (let n = (of_char c :: nat)
     in (65 \<le> n \<and> n \<le> 90) \<or> (97 \<le> n \<and> n \<le> 122) \<or> n = 170 \<or> n = 181 \<or> n = 186
        \<or> (192 \<le> n \<and> n \<noteq> 215 \<and> n \<noteq> 247))"

subsection \<open>Steuer-ID\<close>

definition iso_step :: "nat \<Rightarrow> nat \<Rightarrow> nat" where
  "iso_step product d =
     (let total = (d + product) mod 10; total = (if total = 0 then 10 else total) in (2 * total) mod 11)"

definition iso_product :: "string \<Rightarrow> nat" where
  "iso_product s = foldl (\<lambda>p c. iso_step p (digit_value c)) 10 s"

definition iso7064_mod11_10_check_digit :: "string \<Rightarrow> string" where
  "iso7064_mod11_10_check_digit body10 =
     (let check = 11 - iso_product body10 in dec (if check = 10 \<or> check = 11 then 0 else check))"

definition generate_steuer_id :: "string \<Rightarrow> string py_result" where
  "generate_steuer_id body10 =
     (let digits = digits_only body10
      in if length digits \<noteq> 10 \<or> hd digits = CHR ''0'' then Inl ValueError
         else Inr (digits @ iso7064_mod11_10_check_digit digits))"

definition validate_steuer_id :: "string \<Rightarrow> bool" where
  "validate_steuer_id v =
     (let digits = digits_only v
      in if length digits \<noteq> 11 \<or> hd digits = CHR ''0'' then False
         else (let check = 11 - iso_product (take 10 digits);
                   check = (if check = 10 then 0 else check); check = (if check = 11 then 0 else check)
               in check = digit_value (last digits)))"

subsection \<open>Personalausweis\<close>

definition icao_value :: "char \<Rightarrow> nat" where
  "icao_value c = (if is_digit c then digit_value c else if is_upper c then of_char c - 55 else 0)"

definition icao9303_check_digit :: "string \<Rightarrow> string" where
  "icao9303_check_digit body =
     dec (sum_list (map (\<lambda>(i, c). icao_value c * ([7, 3, 1] ! (i mod 3))) (enumerate 0 (upper body))) mod 10)"

definition compact_alnum :: "string \<Rightarrow> string" where
  "compact_alnum v = filter py_isalnum (upper v)"

definition generate_personalausweis :: "string \<Rightarrow> string py_result" where
  "generate_personalausweis body9 =
     (let compact = compact_alnum body9
      in if length compact \<noteq> 9 then Inl ValueError else Inr (compact @ icao9303_check_digit compact))"

text \<open>\<open>^[A-Z](?!\d{9}$)[A-Z0-9]{8}\d$\<close>: the lookahead is tried after the first letter.\<close>

definition ausweis_re :: "string \<Rightarrow> bool" where
  "ausweis_re s =
     (case s of
        [] \<Rightarrow> False
      | c # cs \<Rightarrow> is_upper c
          \<and> match_at (Cat (Rep is_digit 9 (Some 9)) AtEnd) [c] cs = None
          \<and> match_at (Cat (Rep (\<lambda>d. is_upper d \<or> is_digit d) 8 (Some 8)) (Cat (Chr is_digit) AtEnd)) [c] cs \<noteq> None)"

definition validate_personalausweis :: "string \<Rightarrow> bool" where
  "validate_personalausweis v =
     (let compact = compact_alnum v
      in if \<not> ausweis_re compact then False
         else [last compact] = icao9303_check_digit (take 9 compact))"

subsection \<open>KVNR\<close>

fun kvnr_loop :: "nat list \<Rightarrow> nat \<Rightarrow> bool \<Rightarrow> nat" where
  "kvnr_loop [] checksum double = checksum"
| "kvnr_loop (d # ds) checksum double =
     (let d' = (if double then (if 2 * d > 9 then 2 * d - 9 else 2 * d) else d)
      in kvnr_loop ds (checksum + d') (\<not> double))"

definition kvnr_check_digit :: "char \<Rightarrow> string \<Rightarrow> string" where
  "kvnr_check_digit letter serial8 =
     (let letter_num = pad_left 2 (dec (of_char (hd (upper [letter])) - 65 + 1));
          payload = letter_num @ serial8;
          checksum = kvnr_loop (rev (map digit_value payload)) 0 True
      in dec ((10 - checksum mod 10) mod 10))"

definition generate_kvnr :: "string \<Rightarrow> string \<Rightarrow> string py_result" where
  "generate_kvnr letter serial8 =
     (if length letter \<noteq> 1 \<or> \<not> list_all py_isalpha letter \<or> length serial8 \<noteq> 8 \<or> \<not> list_all is_digit serial8
      then Inl ValueError
      else Inr (upper letter @ serial8 @ kvnr_check_digit (hd letter) serial8))"

definition validate_kvnr :: "string \<Rightarrow> bool" where
  "validate_kvnr v =
     (let compact = upper (remove_spaces v)
      in if match_at (Cat (Chr is_upper) (Cat (Rep is_digit 9 (Some 9)) AtEnd)) [] compact = None then False
         else [compact ! 9] = kvnr_check_digit (hd compact) (take 8 (drop 1 compact)))"

subsection \<open>IBAN\<close>

definition generate_iban_de :: "string \<Rightarrow> string \<Rightarrow> string" where
  "generate_iban_de blz account =
     (let bban = take 18 (pad_left 8 (digits_only blz) @ pad_left 10 (digits_only account));
          numeric = bban @ ''131400'';
          check = 98 - py_int numeric mod 97
      in ''DE'' @ pad_left 2 (dec check) @ bban)"

definition iban_char :: "char \<Rightarrow> string" where
  "iban_char c = (if py_isalpha c then dec (of_char c - 55) else [c])"

definition iban_mod97_valid :: "string \<Rightarrow> bool" where
  "iban_mod97_valid v =
     (let compact = upper (remove_spaces v)
      in if length compact < 15 \<or> \<not> list_all py_isalpha (take 2 compact)
            \<or> \<not> list_all is_digit (take 2 (drop 2 compact)) then False
         else (let rearranged = drop 4 compact @ take 4 compact;
                   numeric = concat (map iban_char rearranged)
               in if numeric = [] \<or> \<not> list_all is_digit numeric then False else py_int numeric mod 97 = 1))"

definition validate_iban :: "string \<Rightarrow> bool" where
  "validate_iban v =
     (let compact = upper (remove_spaces v)
      in if starts_with compact ''DE''
            \<and> match_at (Cat (lit ''DE'') (Cat (Rep is_digit 20 (Some 20)) AtEnd)) [] compact = None
         then False else iban_mod97_valid compact)"

subsection \<open>Luhn, CPF, CNPJ, NIR and Codice Fiscale\<close>

definition validate_luhn :: "string \<Rightarrow> bool" where
  "validate_luhn v =
     (let digits = map digit_value (digits_only v)
      in if length digits < 2 then False else luhn_loop (rev digits) 0 False mod 10 = 0)"

definition mod11_check_digit :: "nat list \<Rightarrow> nat list \<Rightarrow> nat" where
  "mod11_check_digit digits weights =
     (let total = sum_list (map (\<lambda>(d, w). d * w) (zip digits weights)); remainder = total mod 11
      in if remainder < 2 then 0 else 11 - remainder)"

definition validate_cpf :: "string \<Rightarrow> bool" where
  "validate_cpf v =
     (let digits = map digit_value (digits_only v)
      in if length digits \<noteq> 11 \<or> length (remdups digits) = 1 then False
         else digits ! 9 = mod11_check_digit (take 9 digits) [10, 9, 8, 7, 6, 5, 4, 3, 2]
            \<and> digits ! 10 = mod11_check_digit (take 10 digits) [11, 10, 9, 8, 7, 6, 5, 4, 3, 2])"

definition validate_cnpj :: "string \<Rightarrow> bool" where
  "validate_cnpj v =
     (let digits = map digit_value (digits_only v)
      in if length digits \<noteq> 14 \<or> length (remdups digits) = 1 then False
         else digits ! 12 = mod11_check_digit (take 12 digits) [5, 4, 3, 2, 9, 8, 7, 6, 5, 4, 3, 2]
            \<and> digits ! 13 = mod11_check_digit (take 13 digits) [6, 5, 4, 3, 2, 9, 8, 7, 6, 5, 4, 3, 2])"

definition validate_nir :: "string \<Rightarrow> bool" where
  "validate_nir v =
     (let digits = digits_only v
      in if length digits \<noteq> 15 then False
         else if hd digits \<noteq> CHR ''1'' \<and> hd digits \<noteq> CHR ''2'' then False
         else (let month = py_int (take 2 (drop 3 digits))
               in if month < 1 \<or> month > 12 then False
                  else 97 - py_int (take 13 digits) mod 97 = py_int (drop 13 digits)))"

definition odd_values :: "nat list" where
  "odd_values = [1, 0, 5, 7, 9, 13, 15, 17, 19, 21, 2, 4, 18,
     20, 11, 3, 6, 8, 12, 14, 16, 10, 22, 25, 24, 23]"

definition odd_value :: "char \<Rightarrow> int" where
  "odd_value c =
     (if is_digit c then int (odd_values ! digit_value c)
      else if is_upper c then int (odd_values ! (of_char c - 65)) else - 1000)"

definition cf_value :: "nat \<Rightarrow> char \<Rightarrow> int" where
  "cf_value idx c =
     (if idx mod 2 = 1 then odd_value c
      else if is_digit c then int (digit_value c) else int (of_char c) - 65)"

definition validate_codice_fiscale :: "string \<Rightarrow> bool" where
  "validate_codice_fiscale v =
     (let code = compact_alnum v
      in if length code \<noteq> 16 then False
         else (let total = sum_list (map (\<lambda>(i, c). cf_value i c) (enumerate 1 (take 15 code)))
               in int (of_char (code ! 15)) = 65 + total mod 26))"

subsection \<open>The Steuer-ID check digit\<close>

definition iso_ok :: "nat \<Rightarrow> bool" where
  "iso_ok p \<longleftrightarrow> 1 \<le> p \<and> p \<le> 10"

lemma double_mod11_table:
  "list_all (\<lambda>s. 1 \<le> 2 * s mod 11 \<and> 2 * s mod 11 \<le> 10) [1..<11]"
  "list_all (\<lambda>s. list_all (\<lambda>t. 2 * s mod 11 = 2 * t mod 11 \<longrightarrow> s = t) [1..<11]) [1..<11]"
  by code_simp+

lemma double_mod11_ok: "iso_ok s \<Longrightarrow> iso_ok (2 * s mod 11)"
  using double_mod11_table(1) by (simp add: list_all_iff iso_ok_def)

lemma double_mod11_inj:
  assumes "iso_ok s" "iso_ok t" "2 * s mod 11 = 2 * t mod 11"
  shows "s = t"
proof -
  have "s \<in> set [1..<11]" "t \<in> set [1..<11]" using assms(1,2) by (auto simp: iso_ok_def)
  with double_mod11_table(2) assms(3) show ?thesis unfolding list_all_iff by blast
qed

text \<open>On products 1 to 10 and digits the normalised sum needs no division.\<close>

definition iso_sum :: "nat \<Rightarrow> nat \<Rightarrow> nat" where
  "iso_sum p d = (if d + p \<le> 10 then d + p else d + p - 10)"

lemma iso_step_sum:
  assumes "iso_ok p" "d < 10"
  shows "iso_step p d = 2 * iso_sum p d mod 11" and "iso_ok (iso_sum p d)"
proof -
  have "d + p < 20" "0 < d + p" using assms by (auto simp: iso_ok_def)
  moreover from this have "(d + p) mod 10 = (if d + p < 10 then d + p else d + p - 10)"
    by (simp add: mod_if)
  ultimately have "(if (d + p) mod 10 = 0 then 10 else (d + p) mod 10) = iso_sum p d"
    by (auto simp: iso_sum_def)
  then show "iso_step p d = 2 * iso_sum p d mod 11" by (simp add: iso_step_def Let_def)
  show "iso_ok (iso_sum p d)" using assms by (auto simp: iso_ok_def iso_sum_def)
qed

lemma iso_step_ok: "iso_ok p \<Longrightarrow> d < 10 \<Longrightarrow> iso_ok (iso_step p d)"
  by (simp add: iso_step_sum double_mod11_ok)

lemma iso_step_product_inj: "iso_ok p \<Longrightarrow> iso_ok q \<Longrightarrow> d < 10 \<Longrightarrow> iso_step p d = iso_step q d \<Longrightarrow> p = q"
proof -
  assume *: "iso_ok p" "iso_ok q" "d < 10" "iso_step p d = iso_step q d"
  then have "iso_sum p d = iso_sum q d" using double_mod11_inj iso_step_sum by metis
  with * show "p = q" unfolding iso_sum_def iso_ok_def by (simp split: if_splits)
qed

lemma iso_step_digit_inj: "iso_ok p \<Longrightarrow> d < 10 \<Longrightarrow> e < 10 \<Longrightarrow> iso_step p d = iso_step p e \<Longrightarrow> d = e"
proof -
  assume *: "iso_ok p" "d < 10" "e < 10" "iso_step p d = iso_step p e"
  then have "iso_sum p d = iso_sum p e" using double_mod11_inj iso_step_sum by metis
  with * show "d = e" unfolding iso_sum_def iso_ok_def by (simp split: if_splits)
qed

lemma digit_value_lt: "is_digit c \<Longrightarrow> digit_value c < 10"
  by (auto simp: is_digit_def digit_value_def)

lemma digit_value_inj: "is_digit c \<Longrightarrow> is_digit d \<Longrightarrow> digit_value c = digit_value d \<Longrightarrow> c = d"
proof -
  assume "is_digit c" "is_digit d" "digit_value c = digit_value d"
  then have "(of_char c :: nat) = of_char d" unfolding is_digit_def digit_value_def by linarith
  then show "c = d" by simp
qed

abbreviation iso_fold :: "nat \<Rightarrow> string \<Rightarrow> nat" where
  "iso_fold p s \<equiv> foldl (\<lambda>p c. iso_step p (digit_value c)) p s"

lemma iso_fold_ok: "iso_ok p \<Longrightarrow> \<forall>c \<in> set s. is_digit c \<Longrightarrow> iso_ok (iso_fold p s)"
  by (induction s arbitrary: p) (auto intro: iso_step_ok digit_value_lt)

lemma iso_fold_inj:
  "iso_ok p \<Longrightarrow> iso_ok q \<Longrightarrow> \<forall>c \<in> set s. is_digit c \<Longrightarrow> iso_fold p s = iso_fold q s \<Longrightarrow> p = q"
proof (induction s arbitrary: p q)
  case Nil
  then show ?case by simp
next
  case (Cons c s)
  have v: "digit_value c < 10" using Cons.prems(3) by (simp add: digit_value_lt)
  have "iso_step p (digit_value c) = iso_step q (digit_value c)"
    using Cons.prems(3,4) by (intro Cons.IH [OF iso_step_ok [OF Cons.prems(1) v] iso_step_ok [OF Cons.prems(2) v]]) simp_all
  then show ?case by (rule iso_step_product_inj [OF Cons.prems(1,2) v])
qed

lemma iso_product_ok: "\<forall>c \<in> set s. is_digit c \<Longrightarrow> iso_ok (iso_product s)"
  unfolding iso_product_def by (rule iso_fold_ok) (simp add: iso_ok_def)

text \<open>Two digit strings that differ in one place have different products.\<close>

lemma iso_product_single_digit:
  assumes "\<forall>x \<in> set (pre @ post). is_digit x" "is_digit c" "is_digit d" "c \<noteq> d"
  shows "iso_product (pre @ c # post) \<noteq> iso_product (pre @ d # post)"
proof
  let ?p = "iso_fold 10 pre"
  have ok: "iso_ok ?p" using assms(1) by (intro iso_fold_ok) (auto simp: iso_ok_def)
  assume "iso_product (pre @ c # post) = iso_product (pre @ d # post)"
  then have "iso_fold (iso_step ?p (digit_value c)) post = iso_fold (iso_step ?p (digit_value d)) post"
    by (simp add: iso_product_def)
  note eq = this
  have post: "\<forall>x \<in> set post. is_digit x" using assms(1) by simp
  from iso_fold_inj [OF iso_step_ok [OF ok digit_value_lt [OF assms(2)]]
      iso_step_ok [OF ok digit_value_lt [OF assms(3)]] post eq]
  have "iso_step ?p (digit_value c) = iso_step ?p (digit_value d)" .
  with iso_step_digit_inj [OF ok] digit_value_lt digit_value_inj assms(2-4) show False by blast
qed

definition iso_check :: "string \<Rightarrow> nat" where
  "iso_check s = (let k = 11 - iso_product s in if k = 10 \<or> k = 11 then 0 else k)"

lemma iso_check_lt: "\<forall>c \<in> set s. is_digit c \<Longrightarrow> iso_check s < 10"
  using iso_product_ok [of s] by (auto simp: iso_check_def Let_def iso_ok_def)

lemma iso_check_inj:
  assumes "\<forall>c \<in> set (s @ t). is_digit c" "iso_check s = iso_check t"
  shows "iso_product s = iso_product t"
  using iso_product_ok [of s] iso_product_ok [of t] assms
  by (auto simp: iso_check_def Let_def iso_ok_def split: if_splits)

lemma validate_steuer_id_eq:
  assumes "\<forall>c \<in> set s. is_digit c" "length s = 10" "is_digit k" "hd s \<noteq> CHR ''0''"
  shows "validate_steuer_id (s @ [k]) \<longleftrightarrow> digit_value k = iso_check s"
proof -
  have f: "digits_only (s @ [k]) = s @ [k]" using assms(1,3) by (simp add: digits_only_def)
  have "hd (s @ [k]) = hd s" using assms(2) by (cases s) auto
  then show ?thesis using f assms iso_product_ok [of s]
    by (auto simp: validate_steuer_id_def iso_check_def Let_def iso_ok_def)
qed

lemma generate_steuer_id_valid:
  assumes "generate_steuer_id body = Inr s"
  shows "validate_steuer_id s"
proof -
  let ?d = "digits_only body"
  from assms have d: "length ?d = 10" "hd ?d \<noteq> CHR ''0''" and s: "s = ?d @ iso7064_mod11_10_check_digit ?d"
    by (auto simp: generate_steuer_id_def Let_def split: if_splits)
  have dig: "\<forall>c \<in> set ?d. is_digit c" by (simp add: digits_only_def)
  have lt: "iso_check ?d < 10" by (rule iso_check_lt [OF dig])
  have "iso7064_mod11_10_check_digit ?d = dec (iso_check ?d)"
    by (simp add: iso7064_mod11_10_check_digit_def iso_check_def Let_def)
  also have "\<dots> = [digit (iso_check ?d)]" using lt by (simp add: dec.simps)
  finally have "s = ?d @ [digit (iso_check ?d)]" using s by simp
  moreover have "is_digit (digit (iso_check ?d))" "digit_value (digit (iso_check ?d)) = iso_check ?d"
    using lt by (simp_all add: is_digit_def digit_value_def of_char_digit)
  ultimately show ?thesis using validate_steuer_id_eq [OF dig d(1) _ d(2)] by simp
qed

lemma validate_steuer_id_digits:
  assumes "list_all is_digit s" "validate_steuer_id s"
  shows "length s = 11 \<and> hd s \<noteq> CHR ''0''"
proof -
  have "digits_only s = s" using assms(1) by (simp add: digits_only_def list_all_iff)
  with assms(2) show ?thesis by (auto simp: validate_steuer_id_def Let_def split: if_splits)
qed

lemma steuer_id_single_digit:
  assumes dig: "list_all is_digit (pre @ c # post)" "is_digit d" "c \<noteq> d"
    and v: "validate_steuer_id (pre @ c # post)"
  shows "\<not> validate_steuer_id (pre @ d # post)"
proof
  assume w: "validate_steuer_id (pre @ d # post)"
  have dig': "list_all is_digit (pre @ d # post)" using dig by simp
  note V = validate_steuer_id_digits [OF dig(1) v] and W = validate_steuer_id_digits [OF dig' w]
  show False
  proof (cases post rule: rev_cases)
    case Nil
    have h: "hd (pre @ [x]) = hd pre" for x using V Nil by (cases pre) auto
    have "digit_value c = iso_check pre"
      using validate_steuer_id_eq [of pre c] V v dig(1) h by (simp add: Nil list_all_iff)
    moreover have "digit_value d = iso_check pre"
      using validate_steuer_id_eq [of pre d] W w dig' h by (simp add: Nil list_all_iff)
    ultimately show False using digit_value_inj dig by (simp add: Nil)
  next
    case (snoc p k)
    have h: "hd ((pre @ x # p) @ [k]) = hd (pre @ x # p)" for x by (cases pre) auto
    have "digit_value k = iso_check (pre @ c # p)"
      using validate_steuer_id_eq [of "pre @ c # p" k] V v dig(1) h [of c] by (simp add: snoc list_all_iff)
    moreover have "digit_value k = iso_check (pre @ d # p)"
      using validate_steuer_id_eq [of "pre @ d # p" k] W w dig' h [of d] by (simp add: snoc list_all_iff)
    moreover have "\<forall>x \<in> set ((pre @ c # p) @ pre @ d # p). is_digit x" using dig dig' by (auto simp: snoc list_all_iff)
    ultimately have "iso_product (pre @ c # p) = iso_product (pre @ d # p)" by (intro iso_check_inj) auto
    moreover have "\<forall>x \<in> set (pre @ p). is_digit x" "is_digit c" using dig(1) by (auto simp: snoc list_all_iff)
    ultimately show False using iso_product_single_digit dig(2,3) by blast
  qed
qed

subsection \<open>Generated IBANs\<close>

lemma length_pad_left: "length (pad_left w s) = max w (length s)"
  by (simp add: pad_left_def)

lemma undec_append: "undec (s @ t) = undec s * 10 ^ length t + undec t"
proof -
  have F: "foldl (\<lambda>a c. 10 * a + ((of_char c :: nat) - 48)) a t = a * 10 ^ length t + undec t" for a
  proof (induction t arbitrary: a)
    case Nil
    then show ?case by (simp add: undec_def)
  next
    case (Cons c t)
    let ?f = "\<lambda>a c. 10 * a + ((of_char c :: nat) - 48)"
    have "undec (c # t) = foldl ?f (0 + ((of_char c :: nat) - 48)) t" by (simp add: undec_def)
    then have "undec (c # t) = ((of_char c :: nat) - 48) * 10 ^ length t + undec t"
      using Cons.IH by simp
    then show ?case using Cons.IH [of "10 * a + ((of_char c :: nat) - 48)"] by (simp add: algebra_simps)
  qed
  have "undec (s @ t) = foldl (\<lambda>a c. 10 * a + ((of_char c :: nat) - 48)) (undec s) t"
    by (simp add: undec_def)
  then show ?thesis by (simp only: F)
qed

lemma undec_zero_pad: "undec (pad_left w s) = undec s"
proof -
  have "undec (replicate n (CHR ''0'')) = 0" for n
    by (induction n) (simp_all add: undec_def)
  then show ?thesis by (simp add: pad_left_def undec_append)
qed

lemma iban_digits: "\<forall>c \<in> set s. is_digit c \<Longrightarrow> concat (map iban_char s) = s"
proof (induction s)
  case (Cons c s)
  then have "\<not> py_isalpha c" by (auto simp: py_isalpha_def is_digit_def Let_def)
  with Cons show ?case by (simp add: iban_char_def)
qed simp

lemma upper_digits: "\<forall>c \<in> set s. is_digit c \<Longrightarrow> upper s = s"
  by (induction s) (auto simp: upper_def is_lower_def is_digit_def)

lemma spaces_digits: "\<forall>c \<in> set s. is_digit c \<Longrightarrow> remove_spaces s = s"
  by (induction s) (auto simp: remove_spaces_def is_digit_def)

lemma upper_append: "upper (s @ t) = upper s @ upper t"
  by (simp add: upper_def)

lemma spaces_append: "remove_spaces (s @ t) = remove_spaces s @ remove_spaces t"
  by (simp add: remove_spaces_def)

lemma generate_iban_valid: "iban_mod97_valid (generate_iban_de blz account)"
proof -
  define bban where "bban = take 18 (pad_left 8 (digits_only blz) @ pad_left 10 (digits_only account))"
  define n where "n = undec (bban @ ''131400'')"
  define k where "k = 98 - n mod 97"
  define cd where "cd = pad_left 2 (dec k)"
  have d0: "is_digit (CHR ''0'')" by (simp add: is_digit_def)
  have bd: "\<forall>c \<in> set bban. is_digit c"
    using d0 by (auto simp: bban_def pad_left_def digits_only_def dest!: in_set_takeD)
  have bl: "length bban = 18" by (simp add: bban_def length_pad_left)
  have kb: "k \<le> 98" "2 \<le> k" unfolding k_def using mod_less_divisor [of 97 n] by linarith+
  have "length (dec k) \<le> 2"
    using kb by (subst dec.simps) (auto simp: dec.simps)
  moreover have "dec k \<noteq> []" by simp
  ultimately have cl: "length cd = 2" by (cases "dec k") (auto simp: cd_def pad_left_def)
  have cdd: "\<forall>c \<in> set cd. is_digit c" using d0 dec_digits by (auto simp: cd_def pad_left_def)
  have gen: "generate_iban_de blz account = ''DE'' @ cd @ bban"
    by (simp add: generate_iban_de_def Let_def cd_def k_def n_def py_int_def bban_def)
  have "upper ''DE'' = ''DE''" "remove_spaces ''DE'' = ''DE''" by (simp_all add: upper_def is_lower_def remove_spaces_def)
  then have comp: "upper (remove_spaces (''DE'' @ cd @ bban)) = ''DE'' @ cd @ bban"
    using upper_digits [OF bd] spaces_digits [OF bd] upper_digits [OF cdd] spaces_digits [OF cdd]
    by (simp only: spaces_append upper_append)
  have "iban_char (CHR ''D'') = ''13''" "iban_char (CHR ''E'') = ''14''" by code_simp+
  then have num: "concat (map iban_char (bban @ ''DE'' @ cd)) = bban @ ''1314'' @ cd"
    using iban_digits [OF bd] iban_digits [OF cdd] by simp
  have "undec (bban @ ''131400'') = undec bban * 10 ^ 6 + undec ''131400''"
    by (simp only: undec_append) simp
  then have n_eq: "n = undec bban * 1000000 + 131400" by (simp add: n_def undec_def)
  have "undec (bban @ ''1314'' @ cd) = undec bban * 1000000 + 131400 + k"
  proof -
    have "undec ''1314'' = 1314" by (simp add: undec_def)
    then show ?thesis using cl undec_zero_pad [of 2 "dec k"]
      by (simp only: undec_append) (simp add: undec_dec cd_def)
  qed
  then have "undec (bban @ ''1314'' @ cd) = n + k" using n_eq by simp
  moreover have "(n + k) mod 97 = 1"
  proof -
    have "n + k = 97 * (n div 97) + 98" unfolding k_def using mod_less_divisor [of 97 n] div_mult_mod_eq [of n 97] by linarith
    then show ?thesis by simp
  qed
  ultimately have "py_int (bban @ ''1314'' @ cd) mod 97 = 1" by (simp add: py_int_def)
  moreover have "list_all is_digit (bban @ ''1314'' @ cd)"
    using bd cdd by (auto simp: list_all_iff is_digit_def [of "CHR ''1''"] is_digit_def [of "CHR ''3''"] is_digit_def [of "CHR ''4''"])
  moreover have "list_all py_isalpha ''DE''" by code_simp
  moreover have "list_all is_digit cd" using cdd by (simp add: list_all_iff)
  ultimately show ?thesis
    unfolding gen iban_mod97_valid_def Let_def comp using bl cl num by simp
qed

end
