(* ===== verification/LocaleBundles.thy ===== *)
theory LocaleBundles
  imports Classify Checksums "HOL-Library.List_Lexorder" "HOL-Library.Char_ord"
begin

text \<open>
  Locales: the bundles and entity configurations of \<open>locale/bundle.py\<close>, the registry of
  \<open>locale/registry.py\<close>, header negotiation (\<open>locale/negotiator.py\<close>), the merge of recognizer
  configurations (\<open>locale/merger.py\<close>), and the choice of analyzer languages
  (\<open>locale/presidio_language.py\<close>). Files arrive as a list of (file stem, parsed bundle or
  exception): reading YAML is not modelled. Sorting of strings is by code points, as in Python.
\<close>

subsection \<open>Bundles\<close>

datatype tier = REGEX | NER | BOTH

record entity_config =
  ec_name :: string
  ec_tier :: tier
  confidence_threshold :: rat
  ec_patterns :: "string list"
  presidio_entities :: "string list"
  ec_reversible :: bool

record checksum_config =
  algorithm :: string
  validator_id :: string

record locale_bundle =
  code :: string
  entity_types :: "entity_config list"
  checksum :: "checksum_config option"
  checksums :: "checksum_config list"

definition all_checksums :: "locale_bundle \<Rightarrow> checksum_config list" where
  "all_checksums b =
     (if checksums b \<noteq> [] then checksums b
      else case checksum b of Some c \<Rightarrow> [c] | None \<Rightarrow> [])"

subsection \<open>Registry\<close>

record locale_registry =
  bundles :: "(string, locale_bundle) dict"
  canonical_codes :: "(string, string) dict"

definition load_bundle :: "locale_registry \<Rightarrow> string \<times> locale_bundle py_result \<Rightarrow> locale_registry" where
  "load_bundle reg f =
     (case snd f of
        Inl _ \<Rightarrow> reg
      | Inr b \<Rightarrow>
          if code b \<noteq> fst f then reg
          else if map_of (canonical_codes reg) (casefold (code b)) \<noteq> None then reg
          else reg\<lparr>bundles := AList.update (code b) b (bundles reg),
                   canonical_codes := AList.update (casefold (code b)) (code b) (canonical_codes reg)\<rparr>)"

definition load_bundles :: "(string \<times> locale_bundle py_result) list \<Rightarrow> locale_registry" where
  "load_bundles files =
     foldl load_bundle \<lparr>bundles = [], canonical_codes = []\<rparr> (sort_key fst files)"

definition reg_get :: "locale_registry \<Rightarrow> string \<Rightarrow> locale_bundle option" where
  "reg_get reg locale_code =
     (case map_of (canonical_codes reg) (casefold locale_code) of
        None \<Rightarrow> None
      | Some canonical \<Rightarrow> map_of (bundles reg) canonical)"

definition list_locales :: "locale_registry \<Rightarrow> string list" where
  "list_locales reg = sort (map fst (bundles reg))"

definition get_recognizers :: "locale_registry \<Rightarrow> string \<Rightarrow> string list" where
  "get_recognizers reg c = (case reg_get reg c of None \<Rightarrow> [] | Some b \<Rightarrow> map ec_name (entity_types b))"

definition validator_factories :: "(string, string \<Rightarrow> bool) dict" where
  "validator_factories =
     [(''TAX_ID_DE'', validate_steuer_id), (''BSN'', validate_luhn), (''NIR'', validate_nir),
      (''CODICE_FISCALE'', validate_codice_fiscale), (''CPF'', validate_cpf), (''CNPJ'', validate_cnpj),
      (''PERSONAL_AUSWEIS'', validate_personalausweis), (''KVNR'', validate_kvnr), (''IBAN_DE'', validate_iban)]"

definition register_one :: "checksum_registry \<Rightarrow> checksum_config \<Rightarrow> checksum_registry" where
  "register_one cr c =
     (let vid = upper (validator_id c)
      in case map_of validator_factories vid of
           None \<Rightarrow> cr
         | Some f \<Rightarrow>
             (let cr = registry_register cr vid f
              in if vid = ''CPF'' then registry_register cr ''CNPJ'' validate_cnpj
                 else if vid = ''CNPJ'' then registry_register cr ''CPF'' validate_cpf
                 else cr))"

definition register_checksum_validators :: "locale_registry \<Rightarrow> checksum_registry \<Rightarrow> checksum_registry" where
  "register_checksum_validators reg cr =
     foldl (\<lambda>cr b. foldl register_one cr (all_checksums b)) cr (map snd (bundles reg))"

subsection \<open>Header negotiation\<close>

record header_parse_result =
  locale_codes :: "string list"
  was_fallback :: bool
  dropped_codes :: "string list"
  had_header :: bool

datatype negotiation_error = LocaleNegotiationError string "string list"

fun split_entries :: "string list \<Rightarrow> string list \<Rightarrow> string list \<Rightarrow> string list \<times> string list" where
  "split_entries [] codes dropped = (codes, dropped)"
| "split_entries (e # es) codes dropped =
     (let c = strip_space e
      in if c = [] then split_entries es codes (dropped @ [e]) else split_entries es (codes @ [c]) dropped)"

definition parse_header :: "string option \<Rightarrow> header_parse_result" where
  "parse_header hv =
     (case hv of
        None \<Rightarrow> \<lparr>locale_codes = [], was_fallback = True, dropped_codes = [], had_header = False\<rparr>
      | Some h \<Rightarrow>
          if strip_space h = []
          then \<lparr>locale_codes = [], was_fallback = True, dropped_codes = [], had_header = False\<rparr>
          else (let (codes, dropped) = split_entries (split_on (CHR '','') h) [] [];
                    dropped = (if length codes > 10 then dropped @ drop 10 codes else dropped);
                    codes = (if length codes > 10 then take 10 codes else codes)
                in \<lparr>locale_codes = codes, was_fallback = False, dropped_codes = dropped, had_header = True\<rparr>))"

fun resolve_codes ::
  "locale_registry \<Rightarrow> string list \<Rightarrow> locale_bundle list \<Rightarrow> string list \<Rightarrow> locale_bundle list \<times> string list" where
  "resolve_codes reg [] resolved dropped = (resolved, dropped)"
| "resolve_codes reg (c # cs) resolved dropped =
     (case reg_get reg c of
        None \<Rightarrow> resolve_codes reg cs resolved (dropped @ [c])
      | Some b \<Rightarrow> resolve_codes reg cs (resolved @ [b]) dropped)"

text \<open>The result holds the bundles, or the error, and the parse result as mutated.\<close>

definition resolve_locales ::
  "locale_registry \<Rightarrow> string \<Rightarrow> header_parse_result
     \<Rightarrow> (negotiation_error + locale_bundle list) \<times> header_parse_result" where
  "resolve_locales reg universal_locale pr =
     (let fallback = (case reg_get reg universal_locale of None \<Rightarrow> [] | Some u \<Rightarrow> [u])
      in if locale_codes pr = [] then (Inr fallback, pr\<lparr>was_fallback := True\<rparr>)
         else
           (let (resolved, dropped) = resolve_codes reg (locale_codes pr) [] (dropped_codes pr);
                pr = pr\<lparr>dropped_codes := dropped\<rparr>
            in if resolved \<noteq> [] then (Inr resolved, pr)
               else if length (locale_codes pr) = 1
               then (Inl (LocaleNegotiationError (''Unsupported locale: '' @ hd (locale_codes pr)) (list_locales reg)), pr)
               else (Inr fallback, pr\<lparr>was_fallback := True\<rparr>)))"

definition negotiate ::
  "locale_registry \<Rightarrow> string \<Rightarrow> string option \<Rightarrow> negotiation_error + (locale_bundle list \<times> header_parse_result)" where
  "negotiate reg universal_locale hv =
     (case resolve_locales reg universal_locale (parse_header hv) of
        (Inl e, _) \<Rightarrow> Inl e
      | (Inr bs, pr) \<Rightarrow> Inr (bs, pr))"

subsection \<open>Merging recognizers\<close>

record merged_recognizers =
  entity_configs :: "(string, entity_config) dict"
  source_locales :: "string list"

definition merge_config :: "(string, entity_config) dict \<Rightarrow> entity_config \<Rightarrow> (string, entity_config) dict" where
  "merge_config merged c =
     (case map_of merged (ec_name c) of
        None \<Rightarrow> AList.update (ec_name c) c merged
      | Some existing \<Rightarrow>
          if confidence_threshold c > confidence_threshold existing
          then AList.update (ec_name c) c merged else merged)"

definition merge_universal :: "locale_bundle \<Rightarrow> (string, entity_config) dict" where
  "merge_universal u =
     foldl (\<lambda>m c. AList.update (ec_name c) c m) [] (sort_key ec_name (entity_types u))"

definition merge_configs :: "locale_bundle \<Rightarrow> locale_bundle list \<Rightarrow> (string, entity_config) dict" where
  "merge_configs u bs =
     foldl merge_config (merge_universal u)
       (concat (map (\<lambda>b. sort_key ec_name (entity_types b)) (sort_key code bs)))"

definition merge_bundles :: "locale_bundle \<Rightarrow> locale_bundle list \<Rightarrow> merged_recognizers" where
  "merge_bundles u bs =
     \<lparr>entity_configs = merge_configs u bs, source_locales = sort (remdups (code u # map code bs))\<rparr>"

subsection \<open>Analyzer languages\<close>

definition DEFAULT_PRESIDIO_LANGUAGE :: string where
  "DEFAULT_PRESIDIO_LANGUAGE = ''en''"

definition is_language_code :: "string \<Rightarrow> bool" where
  "is_language_code s \<longleftrightarrow> (length s = 2 \<or> length s = 3) \<and> list_all is_lower s"

definition primary_tag :: "string \<Rightarrow> string" where
  "primary_tag s =
     casefold (hd (split_on (CHR ''-'') (map (\<lambda>c. if c = CHR ''_'' then CHR ''-'' else c) (strip_space s))))"

definition presidio_language_from_locale :: "string option \<Rightarrow> string" where
  "presidio_language_from_locale lc =
     (case lc of
        None \<Rightarrow> DEFAULT_PRESIDIO_LANGUAGE
      | Some s \<Rightarrow> if is_language_code (primary_tag s) then primary_tag s else DEFAULT_PRESIDIO_LANGUAGE)"

fun parse_language_tokens :: "string list \<Rightarrow> string list \<Rightarrow> string list py_result" where
  "parse_language_tokens [] seen = Inr seen"
| "parse_language_tokens (raw # rest) seen =
     (let token = strip_space raw
      in if token = [] then parse_language_tokens rest seen
         else if \<not> is_language_code (primary_tag token) then Inl ValueError
         else parse_language_tokens rest
                (if List.member seen (primary_tag token) then seen else seen @ [primary_tag token]))"

definition parse_presidio_languages :: "string option \<Rightarrow> string list py_result" where
  "parse_presidio_languages v =
     (case v of
        None \<Rightarrow> Inr [DEFAULT_PRESIDIO_LANGUAGE]
      | Some s \<Rightarrow>
          if strip_space s = [] then Inr [DEFAULT_PRESIDIO_LANGUAGE]
          else bind_result (parse_language_tokens (split_on (CHR '','') s) [])
                 (\<lambda>seen. Inr (if seen \<noteq> [] then seen else [DEFAULT_PRESIDIO_LANGUAGE])))"

definition add_new :: "'a list \<Rightarrow> 'a \<Rightarrow> 'a list" where
  "add_new xs x = (if List.member xs x then xs else xs @ [x])"

definition languages_to_probe :: "string list \<Rightarrow> string list" where
  "languages_to_probe configured = foldl add_new [] (configured @ [DEFAULT_PRESIDIO_LANGUAGE])"

definition locale_metric_labels :: "string list" where
  "locale_metric_labels =
     [''ar'', ''de-DE'', ''en'', ''es'', ''fr-FR'', ''it-IT'', ''nl-NL'', ''pt-BR'', ''other'']"

definition locale_metric_label :: "string \<Rightarrow> string" where
  "locale_metric_label lc =
     (case List.find (\<lambda>l. casefold l = casefold lc) locale_metric_labels of None \<Rightarrow> ''other'' | Some l \<Rightarrow> l)"

record language_plan =
  languages :: "string list"
  unsupported_locales :: "string list"

definition bundle_language :: "string \<Rightarrow> string" where
  "bundle_language c = presidio_language_from_locale (if strip_space c = [] then None else Some c)"

definition plan_step :: "string list \<Rightarrow> language_plan \<Rightarrow> string \<Rightarrow> language_plan" where
  "plan_step allowed plan c =
     (let locale_code = (if strip_space c = [] then [] else c); language = bundle_language c
      in if List.member allowed language
         then plan\<lparr>languages := add_new (languages plan) language\<rparr>
         else plan\<lparr>unsupported_locales := add_new (unsupported_locales plan)
                      (locale_metric_label (if locale_code \<noteq> [] then locale_code else language)),
                   languages := add_new (languages plan) DEFAULT_PRESIDIO_LANGUAGE\<rparr>)"

text \<open>The bundles are given by their codes, the only field the plan reads.\<close>

definition plan_presidio_languages :: "string list \<Rightarrow> string list \<Rightarrow> language_plan" where
  "plan_presidio_languages codes allowlist =
     (if codes = [] then \<lparr>languages = [DEFAULT_PRESIDIO_LANGUAGE], unsupported_locales = []\<rparr>
      else (let plan = foldl (plan_step (map casefold allowlist)) \<lparr>languages = [], unsupported_locales = []\<rparr> codes
            in if languages plan = [] then plan\<lparr>languages := [DEFAULT_PRESIDIO_LANGUAGE]\<rparr> else plan))"

subsection \<open>Facts about the merge\<close>

lemma merge_config_get:
  "map_of (merge_config m c) n =
     (if n = ec_name c
      then (case map_of m n of None \<Rightarrow> Some c
            | Some e \<Rightarrow> if confidence_threshold c > confidence_threshold e then Some c else Some e)
      else map_of m n)"
  by (auto simp: merge_config_def map_of_update split: option.splits)

lemma foldl_merge_config:
  "(\<forall>e. map_of m n = Some e \<longrightarrow>
       (\<exists>e'. map_of (foldl merge_config m cs) n = Some e' \<and> confidence_threshold e \<le> confidence_threshold e'))
   \<and> (\<forall>c \<in> set cs. ec_name c = n \<longrightarrow>
       (\<exists>e'. map_of (foldl merge_config m cs) n = Some e' \<and> confidence_threshold c \<le> confidence_threshold e'))
   \<and> (\<forall>e'. map_of (foldl merge_config m cs) n = Some e' \<longrightarrow>
       map_of m n = Some e' \<or> (e' \<in> set cs \<and> ec_name e' = n))"
proof (induction cs arbitrary: m)
  case Nil
  then show ?case by simp
next
  case (Cons c cs)
  note IH = Cons.IH [of "merge_config m c"]
  have up: "\<exists>e'. map_of (merge_config m c) n = Some e' \<and> confidence_threshold e \<le> confidence_threshold e'"
    if "map_of m n = Some e" for e
    using that by (auto simp: merge_config_get)
  have new: "\<exists>e'. map_of (merge_config m c) n = Some e' \<and> confidence_threshold c \<le> confidence_threshold e'"
    if "ec_name c = n"
    using that by (auto simp: merge_config_get split: option.splits)
  have old: "map_of m n = Some e' \<or> (e' = c \<and> ec_name c = n)" if "map_of (merge_config m c) n = Some e'" for e'
    using that by (auto simp: merge_config_get split: option.splits if_splits)
  show ?case
  proof (intro conjI allI ballI impI)
    fix e assume "map_of m n = Some e"
    with up IH show "\<exists>e'. map_of (foldl merge_config m (c # cs)) n = Some e' \<and> confidence_threshold e \<le> confidence_threshold e'"
      by (metis foldl_Cons order_trans)
  next
    fix x assume "x \<in> set (c # cs)" "ec_name x = n"
    with new IH show "\<exists>e'. map_of (foldl merge_config m (c # cs)) n = Some e' \<and> confidence_threshold x \<le> confidence_threshold e'"
      by (metis foldl_Cons order_trans set_ConsD)
  next
    fix e' assume "map_of (foldl merge_config m (c # cs)) n = Some e'"
    with old IH show "map_of m n = Some e' \<or> (e' \<in> set (c # cs) \<and> ec_name e' = n)"
      by (metis foldl_Cons list.set_intros)
  qed
qed

lemma merge_universal_get: "map_of (merge_universal u) n = Some e \<Longrightarrow> e \<in> set (entity_types u) \<and> ec_name e = n"
proof -
  have "map_of (foldl (\<lambda>m c. AList.update (ec_name c) c m) m cs) n = Some e \<Longrightarrow>
      map_of m n = Some e \<or> (e \<in> set cs \<and> ec_name e = n)" for m cs
    by (induction cs arbitrary: m) (fastforce simp: map_of_update split: if_splits)+
  from this [of "[]" "sort_key ec_name (entity_types u)"]
  show "map_of (merge_universal u) n = Some e \<Longrightarrow> ?thesis" by (simp add: merge_universal_def)
qed

lemma merge_configs_properties:
  assumes "b \<in> set bs" "c \<in> set (entity_types b)"
  shows "\<exists>e. map_of (merge_configs u bs) (ec_name c) = Some e \<and> confidence_threshold c \<le> confidence_threshold e
     \<and> ec_name e = ec_name c \<and> (\<exists>b' \<in> set (u # bs). e \<in> set (entity_types b'))"
proof -
  let ?cs = "concat (map (\<lambda>b. sort_key ec_name (entity_types b)) (sort_key code bs))"
  note F = foldl_merge_config [of "merge_universal u" "ec_name c" ?cs, folded merge_configs_def]
  have "c \<in> set ?cs" using assms by auto
  with F obtain e where e: "map_of (merge_configs u bs) (ec_name c) = Some e"
    "confidence_threshold c \<le> confidence_threshold e" by blast
  with F have "map_of (merge_universal u) (ec_name c) = Some e \<or> (e \<in> set ?cs \<and> ec_name e = ec_name c)" by blast
  then have "ec_name e = ec_name c \<and> (\<exists>b' \<in> set (u # bs). e \<in> set (entity_types b'))"
    using merge_universal_get by auto
  with e show ?thesis by blast
qed

subsection \<open>Facts about the language plan\<close>

lemma add_new_set [simp]: "set (add_new xs x) = insert x (set xs)"
  by (auto simp: add_new_def)

lemma add_new_distinct: "distinct xs \<Longrightarrow> distinct (add_new xs x)"
  by (auto simp: add_new_def)

lemma plan_fold:
  assumes "distinct (languages p)" "set (languages p) \<subseteq> set allowed \<union> {DEFAULT_PRESIDIO_LANGUAGE}"
  shows "distinct (languages (foldl (plan_step allowed) p cs))
    \<and> set (languages (foldl (plan_step allowed) p cs)) \<subseteq> set allowed \<union> {DEFAULT_PRESIDIO_LANGUAGE}
    \<and> set (languages p) \<subseteq> set (languages (foldl (plan_step allowed) p cs))
    \<and> (\<forall>c \<in> set cs. (if bundle_language c \<in> set allowed then bundle_language c else DEFAULT_PRESIDIO_LANGUAGE)
          \<in> set (languages (foldl (plan_step allowed) p cs)))"
  using assms
proof (induction cs arbitrary: p)
  case Nil
  then show ?case by simp
next
  case (Cons c cs)
  let ?q = "plan_step allowed p c"
  have q: "distinct (languages ?q)" "set (languages ?q) \<subseteq> set allowed \<union> {DEFAULT_PRESIDIO_LANGUAGE}"
    "set (languages p) \<subseteq> set (languages ?q)"
    "(if bundle_language c \<in> set allowed then bundle_language c else DEFAULT_PRESIDIO_LANGUAGE) \<in> set (languages ?q)"
    using Cons.prems by (auto simp: plan_step_def Let_def add_new_distinct)
  from Cons.IH [OF q(1,2)] q(3,4) show ?case by auto
qed

lemma plan_properties:
  "distinct (languages (plan_presidio_languages codes al)) \<and> languages (plan_presidio_languages codes al) \<noteq> []
   \<and> set (languages (plan_presidio_languages codes al)) \<subseteq> set (map casefold al) \<union> {DEFAULT_PRESIDIO_LANGUAGE}
   \<and> (\<forall>c \<in> set codes. (if bundle_language c \<in> set (map casefold al) then bundle_language c else DEFAULT_PRESIDIO_LANGUAGE)
          \<in> set (languages (plan_presidio_languages codes al)))"
  using plan_fold [of "\<lparr>languages = [], unsupported_locales = []\<rparr>" "map casefold al" codes]
  by (cases codes) (auto simp: plan_presidio_languages_def Let_def)

end
