(* ===== verification/Policy.thy ===== *)
theory Policy
  imports Classify
begin

text \<open>
  The policy package: its models (\<open>policy/models.py\<close>), the rule store (\<open>policy/store.py\<close>), the
  usage limiter, the spend controller, the residency router, the decision point with its decision
  cache (\<open>policy/pdp.py\<close>) and the enforcement point (\<open>policy/pep.py\<close>). What Redis answers, the
  hash of a request and the reading of a decimal are parameters, gathered in the record
  \<open>pdp_services\<close>; an answer None is an exception of the call. The fields of the request that the
  decision point reads are its arguments.
\<close>

subsection \<open>Models\<close>

datatype policy_action = BLOCK | ALLOW | ROUTE_LOCAL | FLAG_AND_FORWARD | MONITOR

record policy_rule =
  pr_id :: string
  pr_enabled :: bool
  pr_action :: policy_action
  pr_priority :: int
  conditions :: "(string \<times> json) list option"
  pr_tenant :: "string option"

record policy_decision =
  pd_action :: policy_action
  pd_rule_ids :: "string list"
  decision_ts :: rat
  ttl_seconds :: int
  reason :: "string option"
  enforcement :: "string option"

record rate_limit_config =
  rpm :: int
  tpm :: int
  concurrent :: int

record spend_budget =
  daily_usd :: "rat option"
  monthly_usd :: "rat option"
  budget_enabled :: bool

record residency_rule =
  allowed_regions :: "string list"
  blocked_regions :: "string list"
  fallback_action :: policy_action

text \<open>\<open>^[a-z]{2}(-[a-z0-9]+)+-\d+$\<close>; the dollar also matches before a final newline.\<close>

definition region_pattern :: "string \<Rightarrow> bool" where
  "region_pattern s =
     (let s = (if s \<noteq> [] \<and> last s = char_of (10::nat) then butlast s else s);
          ps = split_on (CHR ''-'') s
      in length ps \<ge> 3 \<and> length (hd ps) = 2 \<and> list_all is_lower (hd ps)
         \<and> list_all (\<lambda>p. p \<noteq> [] \<and> list_all (\<lambda>c. is_lower c \<or> is_digit c) p) (butlast (tl ps))
         \<and> last ps \<noteq> [] \<and> list_all is_digit (last ps))"

definition residency_valid :: "residency_rule \<Rightarrow> bool" where
  "residency_valid rl \<longleftrightarrow> allowed_regions rl \<noteq> [] \<and> list_all region_pattern (allowed_regions rl)
     \<and> list_all region_pattern (blocked_regions rl)"

definition spend_budget_valid :: "spend_budget \<Rightarrow> bool" where
  "spend_budget_valid b \<longleftrightarrow> (case daily_usd b of None \<Rightarrow> True | Some d \<Rightarrow> 0 \<le> d)
     \<and> (case monthly_usd b of None \<Rightarrow> True | Some m \<Rightarrow> 0 \<le> m)"

subsection \<open>PolicyStore\<close>

record policy_store =
  global_rules :: "policy_rule list"
  tenant_rules :: "(string, policy_rule list) dict"

definition make_policy_store :: "policy_rule list \<Rightarrow> policy_store" where
  "make_policy_store rules =
     \<lparr>global_rules = filter (\<lambda>r. pr_tenant r = None) rules,
      tenant_rules = foldl (\<lambda>d r. case pr_tenant r of None \<Rightarrow> d
                                | Some t \<Rightarrow> AList.update t (dict_get d t [] @ [r]) d) [] rules\<rparr>"

text \<open>\<open>cached\<close> is the answer to the \<open>GET\<close>: None an exception, Some None a miss.\<close>

definition load_policies ::
  "policy_store \<Rightarrow> policy_rule list option option \<Rightarrow> bool \<Rightarrow> string \<Rightarrow> policy_rule list option" where
  "load_policies ps cached write_ok tenant =
     (case cached of
        None \<Rightarrow> None
      | Some (Some rules) \<Rightarrow> Some rules
      | Some None \<Rightarrow>
          if write_ok then Some (global_rules ps @ dict_get (tenant_rules ps) tenant []) else None)"

definition enabled_rules :: "policy_rule list \<Rightarrow> policy_rule list" where
  "enabled_rules all_rules = sort_key (\<lambda>r. - pr_priority r) (filter pr_enabled all_rules)"

definition find_rule :: "string \<Rightarrow> policy_rule list \<Rightarrow> policy_rule option" where
  "find_rule rid rules = find (\<lambda>r. pr_id r = rid) rules"

definition get_policy ::
  "policy_store \<Rightarrow> policy_rule list option option \<Rightarrow> bool \<Rightarrow> string \<Rightarrow> string option
     \<Rightarrow> policy_rule option option" where
  "get_policy ps cached write_ok rid tenant =
     (let globally = find_rule rid (global_rules ps)
      in if tenant = None \<or> tenant = Some [] then Some globally
         else (case load_policies ps cached write_ok (the tenant) of
                 None \<Rightarrow> None
               | Some rules \<Rightarrow> Some (case find_rule rid rules of Some r \<Rightarrow> Some r | None \<Rightarrow> globally)))"

definition set_tenant_policy :: "policy_store \<Rightarrow> bool \<Rightarrow> string \<Rightarrow> policy_rule list \<Rightarrow> policy_store option" where
  "set_tenant_policy ps write_ok tenant rules =
     (if write_ok then Some (ps\<lparr>tenant_rules := AList.update tenant rules (tenant_rules ps)\<rparr>) else None)"

subsection \<open>The answers of the services\<close>

record pdp_services =
  sv_store :: policy_store
  sv_cached_rules :: "string \<Rightarrow> policy_rule list option option"
  sv_rules_written :: bool
  sv_limits :: rate_limit_config
  sv_transaction :: "string \<Rightarrow> (int \<times> int \<times> int option) option"
  sv_budgets :: "(string, spend_budget) dict"
  sv_spend :: "string \<Rightarrow> (string option \<times> string option) option"
  sv_decimal :: "string \<Rightarrow> rat option"
  sv_residency :: "(string, residency_rule) dict"
  sv_hash :: "string \<Rightarrow> string \<Rightarrow> string \<Rightarrow> string \<Rightarrow> string"
  sv_cache_ttl :: int

definition int_str :: "int \<Rightarrow> string" where
  "int_str i = (if i < 0 then ''-'' @ dec (nat (- i)) else dec (nat i))"

definition join :: "string \<Rightarrow> string list \<Rightarrow> string" where
  "join sep xs = (case xs of [] \<Rightarrow> [] | y # ys \<Rightarrow> y @ concat (map (\<lambda>z. sep @ z) ys))"

text \<open>\<open>{d:.2f}\<close> of a decimal: two places, ties to even.\<close>

definition round_half_even :: "rat \<Rightarrow> int" where
  "round_half_even r =
     (let f = \<lfloor>r\<rfloor>; d = r - of_int f
      in if d < 1/2 then f else if d > 1/2 then f + 1 else if even f then f else f + 1)"

definition two_places :: "rat \<Rightarrow> string" where
  "two_places r =
     (let cents = nat (round_half_even (\<bar>r\<bar> * 100))
      in (if r < 0 then ''-'' else []) @ dec (cents div 100) @ ''.''
           @ [digit (cents mod 100 div 10), digit (cents mod 10)])"

definition decision :: "policy_action \<Rightarrow> string list \<Rightarrow> rat \<Rightarrow> string option \<Rightarrow> policy_decision" where
  "decision a ids ts rs =
     \<lparr>pd_action = a, pd_rule_ids = ids, decision_ts = ts, ttl_seconds = 60, reason = rs, enforcement = None\<rparr>"

definition failed_decision :: "string \<Rightarrow> rat \<Rightarrow> string \<Rightarrow> policy_decision" where
  "failed_decision rid ts rs =
     \<lparr>pd_action = BLOCK, pd_rule_ids = [rid], decision_ts = ts, ttl_seconds = 60, reason = Some rs,
      enforcement = Some ''503''\<rparr>"

subsection \<open>UsageLimiter, SpendController, ResidencyRouter\<close>

definition limit_reason :: "string \<Rightarrow> int \<Rightarrow> int \<Rightarrow> string" where
  "limit_reason what val limit = what @ '' limit exceeded: '' @ int_str val @ ''/'' @ int_str limit"

definition check_rate_limit :: "pdp_services \<Rightarrow> rat \<Rightarrow> string \<Rightarrow> policy_decision" where
  "check_rate_limit sv now tenant =
     (case sv_transaction sv tenant of
        None \<Rightarrow> failed_decision ''rate_limit_error'' now ''Rate limit check failed: cache unavailable''
      | Some (rpm_val, tpm_val, conc) \<Rightarrow>
          (let conc_val = (case conc of None \<Rightarrow> 0 | Some n \<Rightarrow> n); cfg = sv_limits sv;
               reasons = (if rpm_val > rpm cfg then [limit_reason ''RPM'' rpm_val (rpm cfg)] else [])
                       @ (if tpm_val > tpm cfg then [limit_reason ''TPM'' tpm_val (tpm cfg)] else [])
                       @ (if conc_val \<ge> concurrent cfg
                          then [limit_reason ''Concurrent'' conc_val (concurrent cfg)] else [])
           in if reasons \<noteq> [] then decision BLOCK [''rate_limit''] now (Some (join ''; '' reasons))
              else decision ALLOW [''rate_limit''] now None))"

text \<open>One budget line: None an exception, Some the reasons it adds.\<close>

definition over_budget ::
  "(string \<Rightarrow> rat option) \<Rightarrow> string \<Rightarrow> string option \<Rightarrow> rat option \<Rightarrow> string list option" where
  "over_budget decimal what raw budget =
     (case (raw, budget) of
        (Some r, Some b) \<Rightarrow>
          (case decimal r of
             None \<Rightarrow> None
           | Some spent \<Rightarrow>
               Some (if spent \<ge> b
                     then [what @ '' spend limit exceeded: $'' @ two_places spent @ ''/$'' @ two_places b] else []))
      | _ \<Rightarrow> Some [])"

definition spend_reasons :: "pdp_services \<Rightarrow> string \<Rightarrow> spend_budget \<Rightarrow> string list option" where
  "spend_reasons sv tenant b =
     (case sv_spend sv tenant of
        None \<Rightarrow> None
      | Some (daily_raw, monthly_raw) \<Rightarrow>
          (case over_budget (sv_decimal sv) ''Daily'' daily_raw (daily_usd b) of
             None \<Rightarrow> None
           | Some rs \<Rightarrow>
               map_option (\<lambda>ms. rs @ ms) (over_budget (sv_decimal sv) ''Monthly'' monthly_raw (monthly_usd b))))"

definition check_spend :: "pdp_services \<Rightarrow> rat \<Rightarrow> string \<Rightarrow> policy_decision" where
  "check_spend sv now tenant =
     (case map_of (sv_budgets sv) tenant of
        None \<Rightarrow> decision ALLOW [] now None
      | Some b \<Rightarrow>
          if \<not> budget_enabled b then decision ALLOW [] now None
          else (case spend_reasons sv tenant b of
                  None \<Rightarrow> failed_decision ''spend_limit_error'' now ''Spend check failed: cache unavailable''
                | Some rs \<Rightarrow>
                    if rs \<noteq> [] then decision BLOCK [''spend_limit''] now (Some (join ''; '' rs))
                    else decision ALLOW [''spend_limit''] now None))"

definition resolve_region :: "(string, residency_rule) dict \<Rightarrow> rat \<Rightarrow> string \<Rightarrow> string \<Rightarrow> policy_decision" where
  "resolve_region rules now tenant region =
     (case map_of rules tenant of
        None \<Rightarrow> decision ALLOW [] now (Some ''No residency rules for tenant'')
      | Some rl \<Rightarrow>
          if List.member (allowed_regions rl) region
          then decision ALLOW [''residency_match''] now (Some (''Region '' @ region @ '' is allowed''))
          else if List.member (blocked_regions rl) region
          then decision BLOCK [''residency_block''] now (Some (''Region '' @ region @ '' is blocked''))
          else decision (fallback_action rl) [''residency_fallback''] now
                 (Some (''Region '' @ region @ '' not in allowed or blocked lists, using fallback'')))"

subsection \<open>PolicyDecisionPoint\<close>

type_synonym decision_cache = "(string, rat \<times> policy_decision) dict"

definition pdp_cache_key :: "string \<Rightarrow> string \<Rightarrow> string" where
  "pdp_cache_key tenant h = tenant @ '':'' @ h"

definition get_cached :: "pdp_services \<Rightarrow> rat \<Rightarrow> decision_cache \<Rightarrow> string \<Rightarrow> string \<Rightarrow> policy_decision option \<times> decision_cache" where
  "get_cached sv t_get cache tenant h =
     (case map_of cache (pdp_cache_key tenant h) of
        None \<Rightarrow> (None, cache)
      | Some (ts, d) \<Rightarrow>
          if t_get - ts < of_int (sv_cache_ttl sv) then (Some d, cache)
          else (None, AList.delete (pdp_cache_key tenant h) cache))"

definition set_cache :: "rat \<Rightarrow> decision_cache \<Rightarrow> string \<Rightarrow> string \<Rightarrow> policy_decision \<Rightarrow> decision_cache" where
  "set_cache t_set cache tenant h d = AList.update (pdp_cache_key tenant h) (t_set, d) cache"

text \<open>\<open>rule_level and rule_level == classification_level\<close> for one rule.\<close>

definition level_rule_matches :: "string \<Rightarrow> policy_rule \<Rightarrow> bool" where
  "level_rule_matches level r =
     (case conditions r of
        None \<Rightarrow> False
      | Some cs \<Rightarrow> level \<noteq> [] \<and> dict_get cs ''classification_level'' (JStr []) = JStr level)"

definition evaluate_classification :: "pdp_services \<Rightarrow> rat \<Rightarrow> string \<Rightarrow> string \<Rightarrow> policy_decision" where
  "evaluate_classification sv now tenant level =
     (case load_policies (sv_store sv) (sv_cached_rules sv tenant) (sv_rules_written sv) tenant of
        None \<Rightarrow> failed_decision ''classification_error'' now ''Classification evaluation failed''
      | Some rules \<Rightarrow>
          (case find (level_rule_matches level) (enabled_rules rules) of
             Some r \<Rightarrow>
               (decision (pr_action r) [pr_id r] now
                  (Some (''Classification rule '' @ [CHR 0x27] @ pr_id r @ [CHR 0x27] @ '' matched level ''
                         @ [CHR 0x27] @ level @ [CHR 0x27])))
                 \<lparr>ttl_seconds := sv_cache_ttl sv\<rparr>
           | None \<Rightarrow> (decision ALLOW [] now None)\<lparr>ttl_seconds := sv_cache_ttl sv\<rparr>))"

definition evaluate_residency :: "pdp_services \<Rightarrow> rat \<Rightarrow> string \<Rightarrow> string option \<Rightarrow> policy_decision" where
  "evaluate_residency sv now tenant region =
     resolve_region (sv_residency sv) now tenant
       (case region of None \<Rightarrow> ''unknown'' | Some r \<Rightarrow> if r = [] then ''unknown'' else r)"

text \<open>\<open>t_get\<close> and \<open>t_set\<close> are the monotonic clock at the lookup and at the store, \<open>now\<close> the wall clock.\<close>

definition evaluate_all ::
  "pdp_services \<Rightarrow> rat \<Rightarrow> rat \<Rightarrow> rat \<Rightarrow> decision_cache \<Rightarrow> string \<Rightarrow> string option \<Rightarrow> string
     \<Rightarrow> string option \<Rightarrow> policy_decision \<times> decision_cache" where
  "evaluate_all sv t_get t_set now cache tenant model level provider =
     (let h = sv_hash sv tenant (case model of None \<Rightarrow> [] | Some m \<Rightarrow> m) level
                (case provider of None \<Rightarrow> [] | Some p \<Rightarrow> p)
      in case get_cached sv t_get cache tenant h of
           (Some d, cache) \<Rightarrow> (d, cache)
         | (None, cache) \<Rightarrow>
             (let keep = (\<lambda>d. (d, set_cache t_set cache tenant h d));
                  class_result = evaluate_classification sv now tenant level
              in if pd_action class_result = BLOCK then keep class_result
                 else (let rate_result = check_rate_limit sv now tenant
                       in if pd_action rate_result = BLOCK then keep rate_result
                          else (let spend_result = check_spend sv now tenant
                                in if pd_action spend_result = BLOCK then keep spend_result
                                   else (let residency_result = evaluate_residency sv now tenant None
                                         in if pd_action residency_result = BLOCK then keep residency_result
                                            else keep ((decision ALLOW [''all_checks_passed''] now None)
                                                         \<lparr>ttl_seconds := sv_cache_ttl sv\<rparr>))))))"

subsection \<open>PolicyEnforcementPoint\<close>

record enforcement_result =
  er_action :: policy_action
  status_code :: "nat option"
  er_headers :: "(string, string) dict"
  er_body :: "(string, string) dict option"
  should_forward :: bool
  decision_id :: string

definition determine_block_type :: "policy_decision \<Rightarrow> nat \<times> string \<times> (string, string) dict" where
  "determine_block_type d =
     (let mentions = (\<lambda>w. list_ex (py_in w) (pd_rule_ids d)); rs = casefold (case reason d of None \<Rightarrow> [] | Some r \<Rightarrow> r)
      in if mentions ''rate_limit'' then (429, ''rate_limit_exceeded'', [(''Retry-After'', ''60'')])
         else if enforcement d = Some ''503'' \<or> mentions ''error'' then (503, ''fail_secure'', [])
         else if py_in ''spend'' rs \<or> mentions ''spend'' then (402, ''spend_limit_exceeded'', [])
         else if py_in ''residency'' rs \<or> mentions ''residency'' then (451, ''routing_policy_violation'', [])
         else if py_in ''classification'' rs
                 \<or> list_ex (\<lambda>rid. rid \<noteq> [] \<and> (py_in ''classification'' rid \<or> starts_with rid ''block_'')) (pd_rule_ids d)
         then (451, ''classification_block'', [])
         else (403, ''blocked'', []))"

definition handle_block :: "policy_decision \<Rightarrow> string \<Rightarrow> string \<Rightarrow> enforcement_result" where
  "handle_block d did now =
     (let (status, block_type, extra) = determine_block_type d;
          body = [(''reason'', case reason d of Some (c # cs) \<Rightarrow> c # cs | _ \<Rightarrow> ''Request blocked by policy''),
                  (''decision_id'', did), (''timestamp'', now)]
      in \<lparr>er_action = BLOCK, status_code = Some status,
          er_headers = dict_update [(''X-AnonReq-Blocked'', ''true'')] extra,
          er_body = Some (if block_type = ''blocked'' then body else body @ [(''error_type'', block_type)]),
          should_forward = False, decision_id = did\<rparr>)"

definition processed_headers :: "bool \<Rightarrow> nat \<Rightarrow> (string, string) dict" where
  "processed_headers transformed entity_count =
     [(''X-AnonReq-Processed'', if transformed then ''true'' else ''false''),
      (''X-AnonReq-Entity-Count'', dec entity_count)]"

definition enforce :: "policy_decision \<Rightarrow> nat \<Rightarrow> bool \<Rightarrow> string \<Rightarrow> string \<Rightarrow> enforcement_result" where
  "enforce d entity_count transformed did now =
     (if pd_action d = ALLOW then
        \<lparr>er_action = ALLOW, status_code = None, er_headers = processed_headers transformed entity_count,
         er_body = None, should_forward = True, decision_id = did\<rparr>
      else if pd_action d = FLAG_AND_FORWARD then
        \<lparr>er_action = FLAG_AND_FORWARD, status_code = None,
         er_headers = (''X-AnonReq-Flagged'', ''true'') # processed_headers transformed entity_count,
         er_body = None, should_forward = True, decision_id = did\<rparr>
      else if pd_action d = ROUTE_LOCAL then
        \<lparr>er_action = ROUTE_LOCAL, status_code = Some 503, er_headers = [(''X-AnonReq-Blocked'', ''true'')],
         er_body = Some [(''reason'', ''route_local''), (''decision_id'', did), (''timestamp'', now),
                         (''detail'', ''Request must be routed to local inference endpoint'')],
         should_forward = False, decision_id = did\<rparr>
      else handle_block d did now)"

definition add_transparency_headers :: "bool \<Rightarrow> nat \<Rightarrow> (string, string) dict \<Rightarrow> (string, string) dict" where
  "add_transparency_headers transformed entity_count existing =
     foldl (\<lambda>h kv. if map_of h (fst kv) = None then AList.update (fst kv) (snd kv) h else h) existing
       (processed_headers transformed entity_count)"

subsection \<open>What the decision point promises\<close>

text \<open>The contract of one evaluation without a cached decision: the first blocking check decides.\<close>

definition policy_checks :: "pdp_services \<Rightarrow> rat \<Rightarrow> string \<Rightarrow> string \<Rightarrow> policy_decision list" where
  "policy_checks sv now tenant level =
     [evaluate_classification sv now tenant level, check_rate_limit sv now tenant,
      check_spend sv now tenant, evaluate_residency sv now tenant None]"

definition first_block :: "policy_decision list \<Rightarrow> policy_decision option" where
  "first_block ds = find (\<lambda>d. pd_action d = BLOCK) ds"

lemma evaluate_all_miss:
  assumes "map_of cache (pdp_cache_key tenant (sv_hash sv tenant (case model of None \<Rightarrow> [] | Some m \<Rightarrow> m) level
             (case provider of None \<Rightarrow> [] | Some p \<Rightarrow> p))) = None"
  shows "fst (evaluate_all sv t_get t_set now cache tenant model level provider) =
    (case first_block (policy_checks sv now tenant level) of
       Some d \<Rightarrow> d
     | None \<Rightarrow> (decision ALLOW [''all_checks_passed''] now None)\<lparr>ttl_seconds := sv_cache_ttl sv\<rparr>)"
  using assms by (simp add: evaluate_all_def get_cached_def policy_checks_def first_block_def Let_def)

lemma evaluate_all_hit:
  assumes "map_of cache (pdp_cache_key tenant (sv_hash sv tenant (case model of None \<Rightarrow> [] | Some m \<Rightarrow> m) level
             (case provider of None \<Rightarrow> [] | Some p \<Rightarrow> p))) = Some (ts, d)"
    and "t_get - ts < of_int (sv_cache_ttl sv)"
  shows "evaluate_all sv t_get t_set now cache tenant model level provider = (d, cache)"
  using assms by (simp add: evaluate_all_def get_cached_def Let_def)

lemma enforce_forward: "should_forward (enforce d n tr did t) \<longleftrightarrow> pd_action d = ALLOW \<or> pd_action d = FLAG_AND_FORWARD"
  by (simp add: enforce_def handle_block_def Let_def split: prod.split)

lemma enforce_status:
  "status_code (enforce d n tr did t) = None \<longleftrightarrow> should_forward (enforce d n tr did t)"
  by (simp add: enforce_def handle_block_def Let_def split: prod.split)

lemma first_block_action: "first_block ds = Some d \<Longrightarrow> pd_action d = BLOCK"
  by (auto simp: first_block_def find_Some_iff)

lemma first_block_none: "first_block ds = None \<longleftrightarrow> (\<forall>d \<in> set ds. pd_action d \<noteq> BLOCK)"
  by (auto simp: first_block_def find_None_iff)

lemma decision_fields [simp]:
  "pd_action (decision a ids ts rs) = a" "pd_action (failed_decision rid ts why) = BLOCK"
  by (simp_all add: decision_def failed_decision_def)

text \<open>What it takes for no check to block.\<close>

definition limits_kept :: "pdp_services \<Rightarrow> string \<Rightarrow> bool" where
  "limits_kept sv tenant \<longleftrightarrow>
     (case sv_transaction sv tenant of
        None \<Rightarrow> False
      | Some (r, t, c) \<Rightarrow> r \<le> rpm (sv_limits sv) \<and> t \<le> tpm (sv_limits sv)
          \<and> (case c of None \<Rightarrow> 0 | Some n \<Rightarrow> n) < concurrent (sv_limits sv))"

definition under_budget :: "(string \<Rightarrow> rat option) \<Rightarrow> string option \<Rightarrow> rat option \<Rightarrow> bool" where
  "under_budget decimal raw budget \<longleftrightarrow>
     (case (raw, budget) of (Some r, Some b) \<Rightarrow> (case decimal r of None \<Rightarrow> False | Some spent \<Rightarrow> spent < b) | _ \<Rightarrow> True)"

definition budget_kept :: "pdp_services \<Rightarrow> string \<Rightarrow> bool" where
  "budget_kept sv tenant \<longleftrightarrow>
     (case map_of (sv_budgets sv) tenant of
        None \<Rightarrow> True
      | Some b \<Rightarrow> budget_enabled b \<longrightarrow>
          (case sv_spend sv tenant of
             None \<Rightarrow> False
           | Some (d, m) \<Rightarrow> under_budget (sv_decimal sv) d (daily_usd b) \<and> under_budget (sv_decimal sv) m (monthly_usd b)))"

definition rules_permit :: "pdp_services \<Rightarrow> string \<Rightarrow> string \<Rightarrow> bool" where
  "rules_permit sv tenant level \<longleftrightarrow>
     (case load_policies (sv_store sv) (sv_cached_rules sv tenant) (sv_rules_written sv) tenant of
        None \<Rightarrow> False
      | Some rules \<Rightarrow>
          (case find (level_rule_matches level) (enabled_rules rules) of None \<Rightarrow> True | Some r \<Rightarrow> pr_action r \<noteq> BLOCK))"

definition residency_permits :: "pdp_services \<Rightarrow> string \<Rightarrow> bool" where
  "residency_permits sv tenant \<longleftrightarrow>
     (case map_of (sv_residency sv) tenant of None \<Rightarrow> True | Some rl \<Rightarrow> fallback_action rl \<noteq> BLOCK)"

lemma check_rate_limit_block: "pd_action (check_rate_limit sv now tenant) \<noteq> BLOCK \<longleftrightarrow> limits_kept sv tenant"
  by (auto simp: check_rate_limit_def limits_kept_def Let_def split: option.splits)

lemma over_budget_empty: "over_budget decimal what raw b = Some [] \<longleftrightarrow> under_budget decimal raw b"
  by (auto simp: over_budget_def under_budget_def split: option.splits)

lemma spend_reasons_empty:
  "spend_reasons sv tenant b = Some [] \<longleftrightarrow> (case sv_spend sv tenant of
      None \<Rightarrow> False
    | Some (d, m) \<Rightarrow> under_budget (sv_decimal sv) d (daily_usd b) \<and> under_budget (sv_decimal sv) m (monthly_usd b))"
proof (cases "sv_spend sv tenant")
  case None
  then show ?thesis by (simp add: spend_reasons_def)
next
  case (Some dm)
  obtain d m where dm: "dm = (d, m)" by (cases dm)
  have "spend_reasons sv tenant b = Some []
      \<longleftrightarrow> over_budget (sv_decimal sv) ''Daily'' d (daily_usd b) = Some []
        \<and> over_budget (sv_decimal sv) ''Monthly'' m (monthly_usd b) = Some []"
    using Some dm by (auto simp: spend_reasons_def split: option.splits)
  then show ?thesis using Some dm by (simp only: over_budget_empty option.case prod.case)
qed

lemma check_spend_block: "pd_action (check_spend sv now tenant) \<noteq> BLOCK \<longleftrightarrow> budget_kept sv tenant"
  unfolding check_spend_def budget_kept_def spend_reasons_empty [symmetric]
  by (auto split: option.splits)

lemma evaluate_classification_block:
  "pd_action (evaluate_classification sv now tenant level) \<noteq> BLOCK \<longleftrightarrow> rules_permit sv tenant level"
  by (auto simp: evaluate_classification_def rules_permit_def decision_def split: option.splits)

lemma unknown_region: "\<not> region_pattern ''unknown''"
  by code_simp

lemma evaluate_residency_unknown:
  assumes "map_of (sv_residency sv) tenant = Some rl" "residency_valid rl"
  shows "pd_action (evaluate_residency sv now tenant None) = fallback_action rl"
    "pd_rule_ids (evaluate_residency sv now tenant None) = [''residency_fallback'']"
proof -
  have "''unknown'' \<notin> set (allowed_regions rl)" "''unknown'' \<notin> set (blocked_regions rl)"
    using assms(2) unknown_region by (auto simp: residency_valid_def list_all_iff simp del: region_pattern_def)
  then show "pd_action (evaluate_residency sv now tenant None) = fallback_action rl"
    "pd_rule_ids (evaluate_residency sv now tenant None) = [''residency_fallback'']"
    using assms(1) by (simp_all add: evaluate_residency_def resolve_region_def decision_def)
qed

lemma evaluate_residency_block:
  assumes "list_all (\<lambda>(_, rl). residency_valid rl) (sv_residency sv)"
  shows "pd_action (evaluate_residency sv now tenant None) \<noteq> BLOCK \<longleftrightarrow> residency_permits sv tenant"
proof (cases "map_of (sv_residency sv) tenant")
  case None
  then show ?thesis by (simp add: evaluate_residency_def resolve_region_def residency_permits_def)
next
  case (Some rl)
  then have "residency_valid rl" using assms by (auto simp: list_all_iff dest: map_of_SomeD)
  with evaluate_residency_unknown [OF Some this] Some show ?thesis by (simp add: residency_permits_def)
qed

text \<open>Two tenants never share an entry of the cache: hashes have one length.\<close>

lemma pdp_cache_key_inj:
  "pdp_cache_key t h = pdp_cache_key t' h' \<Longrightarrow> length h = length h' \<Longrightarrow> t = t' \<and> h = h'"
  by (simp add: pdp_cache_key_def)

lemma get_cached_cases:
  "get_cached sv t cache tenant h = (r, cache') \<Longrightarrow>
     (r = None \<or> (\<exists>ts d. r = Some d \<and> map_of cache (pdp_cache_key tenant h) = Some (ts, d)))
     \<and> (\<forall>k. k \<noteq> pdp_cache_key tenant h \<longrightarrow> map_of cache' k = map_of cache k)"
  by (auto simp: get_cached_def delete_conv split: option.splits if_splits)

end
