(* ===== verification/Tools.thy ===== *)
theory Tools
  imports Classify
begin

text \<open>
  Tool governance: the policy parser (\<open>governance/tool_policy_parser.py\<close>), the extraction of tool
  calls and results (\<open>governance/tool_extractor.py\<close>) and the evaluator
  (\<open>governance/pdp_tool_evaluator.py\<close>). The reading of a JSON text (\<open>json.loads\<close>) and \<open>str\<close> of a
  JSON value are parameters. The evaluator's effect on the processing context is returned: the
  message of the \<open>ToolBlockedError\<close> it records, and whether it asks for approval.
\<close>

subsection \<open>Glob patterns\<close>

text \<open>\<open>fnmatch.fnmatch\<close> on a system where file names keep their case.\<close>

fun class_has :: "string \<Rightarrow> char \<Rightarrow> bool" where
  "class_has [] x = False"
| "class_has (a # m # b # rest) x =
     (if m = CHR ''-'' then (of_char a \<le> (of_char x :: nat) \<and> of_char x \<le> (of_char b :: nat)) \<or> class_has rest x
      else x = a \<or> class_has (m # b # rest) x)"
| "class_has (a # rest) x = (x = a \<or> class_has rest x)"

text \<open>The body of a bracket expression and what follows it; None when the bracket is literal.\<close>

definition bracket_split :: "nat \<Rightarrow> string \<Rightarrow> (string \<times> string) option" where
  "bracket_split first q =
     (let rest = dropWhile (\<lambda>c. c \<noteq> CHR '']'') (drop first q)
      in if rest = [] then None
         else Some (take first q @ takeWhile (\<lambda>c. c \<noteq> CHR '']'') (drop first q), tl rest))"

definition bracket_body :: "string \<Rightarrow> (string \<times> string) option" where
  "bracket_body p =
     (let neg = (p \<noteq> [] \<and> hd p = CHR ''!''); q = (if neg then tl p else p)
      in map_option (\<lambda>(b, r). ((if neg then ''!'' else []) @ b, r))
           (bracket_split (if q \<noteq> [] \<and> hd q = CHR '']'' then 1 else 0) q))"

definition bracket_has :: "string \<Rightarrow> char \<Rightarrow> bool" where
  "bracket_has body x =
     (case body of c # cs \<Rightarrow> if c = CHR ''!'' then \<not> class_has cs x else class_has body x | [] \<Rightarrow> False)"

lemma bracket_split_shorter: "bracket_split k q = Some (b, r) \<Longrightarrow> length r < length q"
proof -
  assume a: "bracket_split k q = Some (b, r)"
  define d where "d = dropWhile (\<lambda>c. c \<noteq> CHR '']'') (drop k q)"
  from a have "d \<noteq> []" "r = tl d"
    by (simp_all only: bracket_split_def Let_def d_def [symmetric] prod.inject option.inject split: if_split_asm) auto
  moreover have "length d \<le> length (drop k q)" unfolding d_def by (rule length_dropWhile_le)
  ultimately show ?thesis by (cases d) auto
qed

lemma bracket_body_shorter: "bracket_body p = Some (b, r) \<Longrightarrow> length r < length p"
proof -
  assume "bracket_body p = Some (b, r)"
  then obtain neg k b' where "bracket_split k (if neg then tl p else p) = Some (b', r)"
    by (auto simp only: bracket_body_def Let_def map_option_eq_Some case_prod_beta fst_conv snd_conv prod.inject)
  then have "length r < length (if neg then tl p else p)" by (rule bracket_split_shorter)
  then show ?thesis by (simp split: if_splits)
qed

function glob :: "string \<Rightarrow> string \<Rightarrow> bool" where
  "glob pat s =
     (case pat of
        [] \<Rightarrow> s = []
      | c # p \<Rightarrow>
          if c = CHR ''*'' then glob p s \<or> (case s of [] \<Rightarrow> False | x # xs \<Rightarrow> glob pat xs)
          else (case s of
                  [] \<Rightarrow> False
                | x # xs \<Rightarrow>
                    if c = CHR ''?'' then glob p xs
                    else if c = CHR ''['' then
                      (case bracket_body p of
                         None \<Rightarrow> x = c \<and> glob p xs
                       | Some (body, rest) \<Rightarrow> bracket_has body x \<and> glob rest xs)
                    else x = c \<and> glob p xs))"
  by pat_completeness auto
termination
  by (relation "measure (\<lambda>(p, s). length p + length s)")
    (simp_all only: in_measure wf_measure prod.case list.size, simp_all, auto dest: bracket_body_shorter)

declare glob.simps [simp del]

subsection \<open>Tool policies\<close>

datatype tool_permission = AllowTool | AllowWithAudit | RequireHumanApproval | BlockTool

datatype risk_level = LOW | MEDIUM | HIGH | CRITICAL

definition permission_of :: "string \<Rightarrow> tool_permission option" where
  "permission_of s =
     map_of [(''allow'', AllowTool), (''allow_with_audit'', AllowWithAudit),
             (''require_human_approval'', RequireHumanApproval), (''block'', BlockTool)] s"

definition risk_of :: "string \<Rightarrow> risk_level option" where
  "risk_of s = map_of [(''low'', LOW), (''medium'', MEDIUM), (''high'', HIGH), (''critical'', CRITICAL)] s"

record tool_policy =
  tool_name :: string
  permission :: tool_permission
  risk_level :: "risk_level option"
  allowed_parameters :: "json list option"
  excluded_parameters :: "json list option"
  max_arguments_size :: "int option"

record provider_policy =
  pp_provider :: string
  pp_domain :: string
  pp_tools :: "tool_policy list"
  pp_governance :: json
  risk_classification :: "(string, risk_level) dict option"

definition get_tool_policy :: "provider_policy \<Rightarrow> string \<Rightarrow> tool_policy option" where
  "get_tool_policy pp n =
     (case find (\<lambda>t. tool_name t = n) (pp_tools pp) of
        Some t \<Rightarrow> Some t
      | None \<Rightarrow>
          (case find (\<lambda>t. tool_name t \<noteq> [] \<and> last (tool_name t) = CHR ''*''
                        \<and> starts_with n (butlast (tool_name t))) (pp_tools pp) of
             Some t \<Rightarrow> Some t
           | None \<Rightarrow> find (\<lambda>t. glob (tool_name t) n) (pp_tools pp)))"

definition detect_provider_domain :: "string \<Rightarrow> string" where
  "detect_provider_domain p = (if starts_with p ''host_'' then ''host'' else ''model'')"

text \<open>\<open>ToolPolicyValidationError\<close> is None.\<close>

fun parse_risks :: "(string \<times> json) list \<Rightarrow> (string, risk_level) dict \<Rightarrow> (string, risk_level) dict option" where
  "parse_risks [] acc = Some acc"
| "parse_risks ((n, v) # rest) acc =
     (case v of
        JStr s \<Rightarrow> (case risk_of (casefold s) of None \<Rightarrow> None | Some r \<Rightarrow> parse_risks rest (AList.update n r acc))
      | _ \<Rightarrow> parse_risks rest acc)"

definition str_field :: "(string \<times> json) list \<Rightarrow> string \<Rightarrow> string option" where
  "str_field entry k = (case map_of entry k of Some (JStr s) \<Rightarrow> if s = [] then None else Some s | _ \<Rightarrow> None)"

definition list_field :: "(string \<times> json) list \<Rightarrow> string \<Rightarrow> json list option" where
  "list_field entry k = (case map_of entry k of Some (JList xs) \<Rightarrow> Some xs | _ \<Rightarrow> None)"

definition truncate_rat :: "rat \<Rightarrow> int" where
  "truncate_rat r = (if r < 0 then - \<lfloor>- r\<rfloor> else \<lfloor>r\<rfloor>)"

definition size_field :: "(string \<times> json) list \<Rightarrow> int option" where
  "size_field entry =
     (case map_of entry ''max_arguments_size'' of
        Some (JInt i) \<Rightarrow> Some i | Some (JBool b) \<Rightarrow> Some (if b then 1 else 0)
      | Some (JFloat r) \<Rightarrow> Some (truncate_rat r) | _ \<Rightarrow> None)"

definition parse_tool_entry :: "(string \<times> json) list \<Rightarrow> tool_policy option" where
  "parse_tool_entry entry =
     (case str_field entry ''name'' of
        None \<Rightarrow> None
      | Some n \<Rightarrow>
          (case str_field entry ''permission'' of
             None \<Rightarrow> None
           | Some p \<Rightarrow>
               (case permission_of (casefold p) of
                  None \<Rightarrow> None
                | Some perm \<Rightarrow>
                    (let policy = (\<lambda>risk. \<lparr>tool_name = n, permission = perm, risk_level = risk,
                           allowed_parameters = list_field entry ''allowed_parameters'',
                           excluded_parameters = list_field entry ''excluded_parameters'',
                           max_arguments_size = size_field entry\<rparr>)
                     in case map_of entry ''risk_level'' of
                          Some (JStr s) \<Rightarrow>
                            (case risk_of (casefold s) of None \<Rightarrow> None | Some r \<Rightarrow> Some (policy (Some r)))
                        | _ \<Rightarrow> Some (policy None)))))"

fun parse_tools :: "json list \<Rightarrow> tool_policy list option" where
  "parse_tools [] = Some []"
| "parse_tools (JObj e # rest) =
     (case parse_tool_entry e of None \<Rightarrow> None | Some t \<Rightarrow> map_option (Cons t) (parse_tools rest))"
| "parse_tools (_ # rest) = parse_tools rest"

definition parse_provider :: "string \<Rightarrow> (string \<times> json) list \<Rightarrow> json \<Rightarrow> provider_policy option" where
  "parse_provider n config tools_data =
     (let risks = (case map_of config ''tool_risk_classification'' of
                     Some (JObj r) \<Rightarrow> map_option Some (parse_risks r []) | _ \<Rightarrow> Some None);
          tools = (case tools_data of JList ts \<Rightarrow> parse_tools ts | _ \<Rightarrow> Some [])
      in case (risks, tools) of
           (Some rs, Some ts) \<Rightarrow>
             Some \<lparr>pp_provider = n, pp_domain = detect_provider_domain n, pp_tools = ts,
                   pp_governance = dict_get config ''governance'' JNull, risk_classification = rs\<rparr>
         | _ \<Rightarrow> None)"

text \<open>The key under which the parser files a provider's policy.\<close>

definition policy_key :: "string \<Rightarrow> string \<Rightarrow> string" where
  "policy_key provider domain = provider @ '':'' @ domain"

type_synonym tool_parser = "(string, provider_policy) dict"

fun parse_providers :: "(string \<times> json) list \<Rightarrow> tool_parser \<Rightarrow> tool_parser option" where
  "parse_providers [] acc = Some acc"
| "parse_providers ((n, v) # rest) acc =
     (case v of
        JObj config \<Rightarrow>
          if n = [] then None
          else (case dict_get config ''tools'' JNull of
                  JNull \<Rightarrow> parse_providers rest acc
                | tools_data \<Rightarrow>
                    (case parse_provider n config tools_data of
                       None \<Rightarrow> None
                     | Some pp \<Rightarrow> parse_providers rest (AList.update (policy_key n (pp_domain pp)) pp acc)))
      | _ \<Rightarrow> parse_providers rest acc)"

definition parse_tool_policies :: "(string \<times> json) list \<Rightarrow> tool_parser option" where
  "parse_tool_policies yaml =
     (case map_of yaml ''providers'' of Some (JObj ps) \<Rightarrow> parse_providers ps [] | _ \<Rightarrow> Some [])"

definition get_provider_policy :: "tool_parser \<Rightarrow> string \<Rightarrow> string \<Rightarrow> provider_policy option" where
  "get_provider_policy ps provider domain = map_of ps (policy_key provider domain)"

definition tool_parser_get :: "tool_parser \<Rightarrow> string \<Rightarrow> string \<Rightarrow> string \<Rightarrow> tool_policy option" where
  "tool_parser_get ps provider domain n =
     (case map_of ps (policy_key provider domain) of None \<Rightarrow> None | Some pp \<Rightarrow> get_tool_policy pp n)"

text \<open>The number of messages \<open>validate\<close> returns for a provider, in place of their texts.\<close>

definition entry_errors :: "json \<Rightarrow> nat" where
  "entry_errors e =
     (case e of
        JObj entry \<Rightarrow>
          (case (str_field entry ''name'', str_field entry ''permission'') of
             (Some _, Some p) \<Rightarrow> if permission_of (casefold p) = None then 1 else 0
           | _ \<Rightarrow> 1)
      | _ \<Rightarrow> 1)"

definition provider_errors :: "string \<times> json \<Rightarrow> nat" where
  "provider_errors nv =
     (case snd nv of
        JObj config \<Rightarrow>
          if fst nv = [] then 1
          else (case dict_get config ''tools'' JNull of
                  JNull \<Rightarrow> 0
                | JList ts \<Rightarrow>
                    (case map_of config ''tool_risk_classification'' of
                       Some (JObj rs) \<Rightarrow>
                         length (filter (\<lambda>(_, v). case v of JStr s \<Rightarrow> risk_of (casefold s) = None | _ \<Rightarrow> False) rs)
                     | _ \<Rightarrow> 0) + sum_list (map entry_errors ts)
                | _ \<Rightarrow> 1)
      | _ \<Rightarrow> 0)"

definition validate_policies :: "(string \<times> json) list \<Rightarrow> nat" where
  "validate_policies yaml =
     (case map_of yaml ''providers'' of Some (JObj ps) \<Rightarrow> sum_list (map provider_errors ps) | _ \<Rightarrow> 0)"

subsection \<open>ToolExtractor\<close>

record tool_call =
  tc_id :: json
  tc_name :: string
  tc_arguments :: json
  tc_format :: string
  tc_domain :: string
  tc_provider :: "string option"
  credential_context :: "string option"

record tool_result =
  tr_id :: json
  tr_name :: json
  tr_content :: json
  tr_format :: string
  tr_is_error :: bool

definition new_tool_call :: "json \<Rightarrow> string \<Rightarrow> json \<Rightarrow> string \<Rightarrow> tool_call" where
  "new_tool_call i n args fmt =
     \<lparr>tc_id = i, tc_name = n, tc_arguments = args, tc_format = fmt, tc_domain = ''model'',
      tc_provider = None, credential_context = None\<rparr>"

text \<open>\<open>loads\<close> is \<open>json.loads\<close>, None its \<open>JSONDecodeError\<close>; the result None is \<open>ToolExtractionError\<close>.\<close>

fun openai_calls :: "(string \<Rightarrow> json option) \<Rightarrow> json list \<Rightarrow> tool_call list option" where
  "openai_calls loads [] = Some []"
| "openai_calls loads (tc # rest) =
     (case tc of
        JObj t \<Rightarrow>
          (case dict_get t ''function'' (JObj []) of
             JObj func \<Rightarrow>
               (case str_field func ''name'' of
                  None \<Rightarrow> None
                | Some n \<Rightarrow>
                    (let arguments = (case dict_get func ''arguments'' (JStr ''{}'') of
                                        JStr s \<Rightarrow> loads s | JObj o' \<Rightarrow> Some (JObj o') | _ \<Rightarrow> Some (JObj []))
                     in case arguments of
                          None \<Rightarrow> None
                        | Some args \<Rightarrow>
                            map_option (Cons (new_tool_call (dict_get t ''id'' (JStr [])) n args ''openai''))
                              (openai_calls loads rest)))
           | _ \<Rightarrow> openai_calls loads rest)
      | _ \<Rightarrow> openai_calls loads rest)"

definition obj_or_empty :: "json \<Rightarrow> json" where
  "obj_or_empty j = (case j of JObj o' \<Rightarrow> JObj o' | _ \<Rightarrow> JObj [])"

fun anthropic_calls :: "json list \<Rightarrow> tool_call list option" where
  "anthropic_calls [] = Some []"
| "anthropic_calls (b # rest) =
     (case b of
        JObj block \<Rightarrow>
          if map_of block ''type'' \<noteq> Some (JStr ''tool_use'') then anthropic_calls rest
          else (case str_field block ''name'' of
                  None \<Rightarrow> None
                | Some n \<Rightarrow>
                    map_option
                      (Cons (new_tool_call (dict_get block ''id'' (JStr [])) n
                         (obj_or_empty (dict_get block ''input'' (JObj []))) ''anthropic''))
                      (anthropic_calls rest))
      | _ \<Rightarrow> anthropic_calls rest)"

definition mcp_calls :: "(json \<Rightarrow> string) \<Rightarrow> (string \<times> json) list \<Rightarrow> tool_call list option" where
  "mcp_calls py_str message =
     (if dict_get message ''method'' (JStr []) \<noteq> JStr ''tools/call'' then Some []
      else (let params = (case dict_get message ''params'' (JObj []) of JObj p \<Rightarrow> p | _ \<Rightarrow> [])
            in case str_field params ''name'' of
                 None \<Rightarrow> None
               | Some n \<Rightarrow>
                   Some [new_tool_call (JStr (py_str (dict_get message ''id'' (JStr [])))) n
                           (obj_or_empty (dict_get params ''arguments'' (JObj []))) ''mcp'']))"

record json_library =
  loads :: "string \<Rightarrow> json option"
  py_str :: "json \<Rightarrow> string"

definition extract_calls :: "json_library \<Rightarrow> (string \<times> json) list \<Rightarrow> string \<Rightarrow> tool_call list option" where
  "extract_calls lib message fmt =
     (if fmt = ''openai'' then
        (case map_of message ''tool_calls'' of Some (JList tcs) \<Rightarrow> openai_calls (loads lib) tcs | _ \<Rightarrow> Some [])
      else if fmt = ''anthropic'' then
        (case map_of message ''content'' of Some (JList bs) \<Rightarrow> anthropic_calls bs | _ \<Rightarrow> Some [])
      else if fmt = ''mcp'' then mcp_calls (py_str lib) message
      else Some [])"

definition truthy :: "json \<Rightarrow> bool" where
  "truthy j = (case j of JNull \<Rightarrow> False | JBool b \<Rightarrow> b | JInt i \<Rightarrow> i \<noteq> 0 | JFloat r \<Rightarrow> r \<noteq> 0
                | JStr s \<Rightarrow> s \<noteq> [] | JList xs \<Rightarrow> xs \<noteq> [] | JObj o' \<Rightarrow> o' \<noteq> [])"

fun anthropic_results :: "json list \<Rightarrow> tool_result list" where
  "anthropic_results [] = []"
| "anthropic_results (b # rest) =
     (case b of
        JObj block \<Rightarrow>
          if map_of block ''type'' \<noteq> Some (JStr ''tool_result'') then anthropic_results rest
          else \<lparr>tr_id = dict_get block ''tool_use_id'' (JStr []), tr_name = JStr [],
                tr_content = dict_get block ''content'' (JStr []), tr_format = ''anthropic'',
                tr_is_error = truthy (dict_get block ''is_error'' (JBool False))\<rparr> # anthropic_results rest
      | _ \<Rightarrow> anthropic_results rest)"

definition extract_results :: "json_library \<Rightarrow> (string \<times> json) list \<Rightarrow> string \<Rightarrow> tool_result list" where
  "extract_results lib message fmt =
     (if fmt = ''openai'' then
        (if dict_get message ''role'' (JStr []) \<noteq> JStr ''tool'' then []
         else [\<lparr>tr_id = dict_get message ''tool_call_id'' (JStr []),
                tr_name = (let n = dict_get message ''name'' (JStr []) in if truthy n then n else JStr []),
                tr_content = dict_get message ''content'' JNull, tr_format = ''openai'', tr_is_error = False\<rparr>])
      else if fmt = ''anthropic'' then
        (case map_of message ''content'' of Some (JList bs) \<Rightarrow> anthropic_results bs | _ \<Rightarrow> [])
      else if fmt = ''mcp'' then
        (let r = (\<lambda>c err. [\<lparr>tr_id = JStr (py_str lib (dict_get message ''id'' (JStr []))), tr_name = JStr [],
                             tr_content = c, tr_format = ''mcp'', tr_is_error = err\<rparr>])
         in case (map_of message ''error'', map_of message ''result'') of
              (Some e, _) \<Rightarrow> r e True
            | (None, Some c) \<Rightarrow> r c False
            | (None, None) \<Rightarrow> [])
      else [])"

definition is_tool_use :: "json \<Rightarrow> bool" where
  "is_tool_use b = (case b of JObj block \<Rightarrow> map_of block ''type'' = Some (JStr ''tool_use'') | _ \<Rightarrow> False)"

fun detect_in_messages :: "json list \<Rightarrow> string option" where
  "detect_in_messages [] = None"
| "detect_in_messages (m # ms) =
     (case m of
        JObj msg \<Rightarrow>
          if map_of msg ''tool_calls'' \<noteq> None then Some ''openai''
          else (case map_of msg ''content'' of
                  Some (JList bs) \<Rightarrow> if list_ex is_tool_use bs then Some ''anthropic'' else detect_in_messages ms
                | _ \<Rightarrow> detect_in_messages ms)
      | _ \<Rightarrow> detect_in_messages ms)"

definition detect_format :: "(string \<times> json) list \<Rightarrow> string option" where
  "detect_format body =
     (let in_messages = (case map_of body ''messages'' of Some (JList ms) \<Rightarrow> detect_in_messages ms | _ \<Rightarrow> None)
      in case map_of body ''method'' of
           Some (JStr method) \<Rightarrow> if starts_with method ''tools/'' then Some ''mcp'' else in_messages
         | _ \<Rightarrow> in_messages)"

definition detect_domain :: "(string, string) dict \<Rightarrow> string" where
  "detect_domain headers =
     (if casefold (strip_space (dict_get headers ''X-AnonReq-Tool-Domain'' [])) = ''host''
      then ''host'' else ''model'')"

subsection \<open>PDPToolEvaluator\<close>

record tool_evaluator =
  te_parser :: tool_parser
  default_unlisted :: tool_permission
  default_critical :: tool_permission
  strict_domain_isolation :: bool

record tool_decision =
  td_permission :: tool_permission
  td_provider :: string
  td_risk :: "risk_level option"

definition quoted :: "string \<Rightarrow> string" where
  "quoted s = [CHR 0x27] @ s @ [CHR 0x27]"

definition check_domain_isolation :: "string \<Rightarrow> string \<Rightarrow> string \<Rightarrow> string option" where
  "check_domain_isolation domain n provider =
     (if domain = ''model'' \<and> provider = ''host_mcp''
      then Some (''Cross-domain isolation: model domain tool call '' @ quoted n
                   @ '' targets host provider '' @ quoted provider)
      else if domain = ''host'' \<and> List.member [''openai'', ''anthropic'', ''gemini''] provider
      then Some (''Cross-domain isolation: host domain tool call '' @ quoted n
                   @ '' targets model provider '' @ quoted provider)
      else None)"

definition check_credential_isolation :: "tool_call \<Rightarrow> string option \<Rightarrow> string option" where
  "check_credential_isolation call session_ctx =
     (case (credential_context call, session_ctx) of
        (Some c, Some s) \<Rightarrow>
          if c \<noteq> s
          then Some (''Cross-delegation credential isolation: tool call credential context '' @ quoted c
                       @ '' does not match session delegation '' @ quoted s)
          else None
      | _ \<Rightarrow> None)"

fun first_some :: "'a option list \<Rightarrow> 'a option" where
  "first_some [] = None"
| "first_some (x # xs) = (case x of Some v \<Rightarrow> Some v | None \<Rightarrow> first_some xs)"

definition get_tool_risk_level :: "tool_parser \<Rightarrow> string \<Rightarrow> string \<Rightarrow> risk_level option" where
  "get_tool_risk_level ps n provider =
     (let of_policy = (\<lambda>d. case tool_parser_get ps provider d n of None \<Rightarrow> None | Some p \<Rightarrow> risk_level p);
          of_provider = (\<lambda>d. case get_provider_policy ps provider d of
                               None \<Rightarrow> None
                             | Some pp \<Rightarrow> (case risk_classification pp of None \<Rightarrow> None | Some rc \<Rightarrow> map_of rc n))
      in first_some [of_policy ''model'', of_policy ''host'', of_provider ''model'', of_provider ''host''])"

text \<open>\<open>tool_call.provider or context.provider or "unknown"\<close>.\<close>

definition effective_provider :: "string option \<Rightarrow> tool_call \<Rightarrow> string" where
  "effective_provider ctx_provider call =
     (case tc_provider call of
        Some (c # cs) \<Rightarrow> c # cs
      | _ \<Rightarrow> (case ctx_provider of Some (c # cs) \<Rightarrow> c # cs | _ \<Rightarrow> ''unknown''))"

text \<open>The decision, the message of a recorded \<open>ToolBlockedError\<close>, and whether approval is required.\<close>

definition evaluate_tool ::
  "tool_evaluator \<Rightarrow> string option \<Rightarrow> string option \<Rightarrow> tool_call \<Rightarrow> tool_decision \<times> string option \<times> bool" where
  "evaluate_tool te ctx_provider delegation call =
     (let provider = effective_provider ctx_provider call; n = tc_name call;
          blocked = (\<lambda>risk why. (\<lparr>td_permission = BlockTool, td_provider = provider, td_risk = risk\<rparr>, Some why, False))
      in case (if strict_domain_isolation te then check_domain_isolation (tc_domain call) n provider else None) of
           Some e \<Rightarrow> blocked None e
         | None \<Rightarrow>
             (case check_credential_isolation call delegation of
                Some e \<Rightarrow> blocked None e
              | None \<Rightarrow>
                  (let classified = get_tool_risk_level (te_parser te) n provider;
                       (perm, risk) = (case tool_parser_get (te_parser te) provider (tc_domain call) n of
                          Some p \<Rightarrow> (permission p, risk_level p)
                        | None \<Rightarrow> (if classified = Some CRITICAL then default_critical te else default_unlisted te,
                                   classified));
                       risk = (if risk = None then classified else risk)
                   in if perm = BlockTool then blocked risk (''Tool '' @ quoted n @ '' is blocked by policy'')
                      else (\<lparr>td_permission = perm, td_provider = provider, td_risk = risk\<rparr>, None,
                            perm = RequireHumanApproval))))"

definition get_permitted_actions :: "tool_parser \<Rightarrow> string \<Rightarrow> string list" where
  "get_permitted_actions ps domain =
     concat (map (\<lambda>pn. filter (\<lambda>tn. case tool_parser_get ps pn domain tn of
                                        None \<Rightarrow> False | Some p \<Rightarrow> permission p \<noteq> BlockTool)
                         [''code_interpreter'', ''file_search'', ''db_query''])
              [''openai'', ''anthropic'', ''gemini'', ''host_mcp''])"

subsection \<open>What the evaluator decides\<close>

lemma evaluate_tool_blocked:
  "(td_permission (fst (evaluate_tool te cp del call)) = BlockTool \<longleftrightarrow> fst (snd (evaluate_tool te cp del call)) \<noteq> None)
   \<and> (snd (snd (evaluate_tool te cp del call)) \<longleftrightarrow> td_permission (fst (evaluate_tool te cp del call)) = RequireHumanApproval)"
  unfolding evaluate_tool_def Let_def
  by (cases "if strict_domain_isolation te
             then check_domain_isolation (tc_domain call) (tc_name call) (effective_provider cp call) else None";
      cases "check_credential_isolation call del") (simp_all split: prod.splits)

text \<open>Calls as the extractor builds them carry no provider, no credential context and the model domain.\<close>

definition plain_call :: "tool_call \<Rightarrow> bool" where
  "plain_call c \<longleftrightarrow> tc_provider c = None \<and> tc_domain c = ''model'' \<and> credential_context c = None"

lemma plain_new [simp]: "plain_call (new_tool_call i n a f)"
  by (simp add: plain_call_def new_tool_call_def)

definition all_plain :: "tool_call list option \<Rightarrow> bool" where
  "all_plain r = (case r of None \<Rightarrow> True | Some cs \<Rightarrow> list_all plain_call cs)"

lemma all_plain_simps [simp]:
  "all_plain None" "all_plain (Some []) "
  "all_plain (map_option (Cons (new_tool_call i n a f)) r) = all_plain r"
  by (simp_all add: all_plain_def split: option.split)

lemma openai_calls_plain: "all_plain (openai_calls f ts)"
  by (induction ts) (simp_all add: Let_def split: json.split option.split)

lemma anthropic_calls_plain: "all_plain (anthropic_calls bs)"
  by (induction bs) (simp_all split: json.split option.split)

lemma extract_calls_plain:
  assumes "extract_calls lib m fmt = Some cs" "c \<in> set cs"
  shows "plain_call c"
proof -
  have "all_plain (mcp_calls f m)" for f
    by (simp add: mcp_calls_def Let_def all_plain_def split: option.split)
  then have "all_plain (extract_calls lib m fmt)"
    using openai_calls_plain anthropic_calls_plain
    by (simp only: extract_calls_def split: if_split option.split json.split) simp
  with assms show ?thesis by (simp add: all_plain_def list_all_iff)
qed

text \<open>The policy that decides a plain call is the one of the context's provider, or of \<open>unknown\<close>.\<close>

lemma evaluate_plain_unlisted:
  assumes "plain_call call" "get_provider_policy (te_parser te) ''unknown'' ''model'' = None"
    "get_provider_policy (te_parser te) ''unknown'' ''host'' = None" "default_unlisted te \<noteq> BlockTool"
  shows "evaluate_tool te None del call
    = (\<lparr>td_permission = default_unlisted te, td_provider = ''unknown'', td_risk = None\<rparr>, None,
       default_unlisted te = RequireHumanApproval)"
proof -
  have p: "effective_provider None call = ''unknown''" "tc_domain call = ''model''" "credential_context call = None"
    using assms(1) by (simp_all add: plain_call_def effective_provider_def)
  have d: "check_domain_isolation ''model'' (tc_name call) ''unknown'' = None"
    by (simp add: check_domain_isolation_def)
  have c: "check_credential_isolation call del = None"
    using p(3) by (simp add: check_credential_isolation_def)
  have g: "tool_parser_get (te_parser te) ''unknown'' dom n = None" if "dom = ''model'' \<or> dom = ''host''" for dom n
    using that assms(2,3) by (auto simp: tool_parser_get_def get_provider_policy_def)
  have r: "get_tool_risk_level (te_parser te) (tc_name call) ''unknown'' = None"
    using assms(2,3) by (simp add: get_tool_risk_level_def g)
  show ?thesis
    using assms(4) by (simp add: evaluate_tool_def Let_def p d c r g)
qed

end
