(* ===== verification/Dlp.thy ===== *)
theory Dlp
  imports Tools
begin

text \<open>
  Data loss prevention: the engine (\<open>services/dlp_engine.py\<close>, \<open>models/dlp.py\<close>) and the detector of
  exfiltration through encodings (\<open>services/exfiltration_detector.py\<close>). A compiled pattern is the
  function that lists its matches in a text as offset pairs (\<open>finditer\<close>); \<open>re.compile\<close> is a
  parameter, None for \<open>re.error\<close>. The entropy is the real number the code approximates in floats.
\<close>

subsection \<open>Shannon entropy\<close>

definition utf8_char :: "char \<Rightarrow> nat list" where
  "utf8_char c = (let n = (of_char c :: nat) in if n < 128 then [n] else [192 + n div 64, 128 + n mod 64])"

definition utf8 :: "string \<Rightarrow> nat list" where
  "utf8 s = concat (map utf8_char s)"

definition byte_freq :: "nat list \<Rightarrow> (nat, nat) dict" where
  "byte_freq bs = foldl (\<lambda>f b. AList.update b (dict_get f b 0 + 1) f) [] bs"

definition shannon_entropy :: "string \<Rightarrow> real" where
  "shannon_entropy data =
     (if data = [] then 0
      else (let bs = utf8 data; n = real (length bs)
            in foldl (\<lambda>e c. e - (real c / n) * log 2 (real c / n)) 0 (map snd (byte_freq bs))))"

subsection \<open>ExfiltrationDetector\<close>

type_synonym matcher = "string \<Rightarrow> (nat \<times> nat) list"

record exf_method =
  em_name :: string
  em_find :: matcher
  em_min_length :: nat

record exf_config =
  ec_methods :: "exf_method list"
  ec_entropy :: bool
  ec_threshold :: real
  ec_min_length :: nat

record exf_result =
  ex_method :: string
  ex_confidence :: real
  ex_entropy :: real
  ex_text :: string
  ex_start :: nat
  ex_end :: nat

definition substring :: "string \<Rightarrow> nat \<Rightarrow> nat \<Rightarrow> string" where
  "substring s i j = take (j - i) (drop i s)"

definition method_step :: "exf_method \<Rightarrow> string \<Rightarrow> exf_result list \<Rightarrow> nat \<times> nat \<Rightarrow> exf_result list" where
  "method_step m text rs ij =
     (let (i, j) = ij; matched = substring text i j
      in if list_ex (\<lambda>r. ex_start r = i \<and> ex_end r = j) rs then rs
         else if length matched < em_min_length m then rs
         else rs @ [\<lparr>ex_method = em_name m,
                     ex_confidence = (if em_name m = ''jwt'' \<or> em_name m = ''pem'' then 85/100 else 75/100),
                     ex_entropy = shannon_entropy matched, ex_text = take 50 matched, ex_start = i, ex_end = j\<rparr>])"

definition run_method :: "string \<Rightarrow> exf_method \<Rightarrow> exf_result list" where
  "run_method text m = foldl (method_step m text) [] (em_find m text)"

text \<open>The matches of \<open>\S{30,}\<close>: the maximal runs of at least thirty non-space characters.\<close>

function word_runs :: "nat \<Rightarrow> string \<Rightarrow> (nat \<times> nat) list" where
  "word_runs i s =
     (if s = [] then []
      else if is_space (hd s) then word_runs (Suc i) (tl s)
      else (let n = length (takeWhile (\<lambda>c. \<not> is_space c) s)
            in (if n \<ge> 30 then [(i, i + n)] else []) @ word_runs (i + n) (drop n s)))"
  by pat_completeness auto
termination
proof (relation "measure (\<lambda>(i, s). length s)", goal_cases)
  case (3 i s n)
  then have "takeWhile (\<lambda>c. \<not> is_space c) s \<noteq> []" by (cases s) auto
  then have "0 < n" using 3(3) by simp
  moreover have "s \<noteq> []" using 3 by simp
  ultimately show ?case by simp
qed simp_all

declare word_runs.simps [simp del]

definition entropy_step :: "exf_config \<Rightarrow> string \<Rightarrow> exf_result list \<Rightarrow> nat \<times> nat \<Rightarrow> exf_result list" where
  "entropy_step cfg text rs ij =
     (let (i, j) = ij; w = substring text i j; e = shannon_entropy w
      in if list_ex (\<lambda>r. ex_start r = i \<and> ex_end r = j) rs then rs
         else if e > ec_threshold cfg \<and> length w \<ge> ec_min_length cfg
         then rs @ [\<lparr>ex_method = ''high_entropy'',
                     ex_confidence = min (1/2 + (e - ec_threshold cfg) * (1/10)) (95/100),
                     ex_entropy = e, ex_text = take 50 w, ex_start = i, ex_end = j\<rparr>]
         else rs)"

definition exf_detect :: "exf_config \<Rightarrow> string \<Rightarrow> exf_result list" where
  "exf_detect cfg text =
     (let rs = concat (map (run_method text) (ec_methods cfg))
      in if ec_entropy cfg then foldl (entropy_step cfg text) rs (word_runs 0 text) else rs)"

record exf_summary =
  es_detected :: bool
  es_methods :: "string list"
  es_max_confidence :: real
  es_count :: nat

definition detect_in_text :: "exf_config \<Rightarrow> string \<Rightarrow> exf_summary" where
  "detect_in_text cfg text =
     (let rs = exf_detect cfg text
      in \<lparr>es_detected = rs \<noteq> [],
          es_methods = remdups (filter (\<lambda>m. m \<noteq> []) (map ex_method rs)),
          es_max_confidence = foldl max 0 (map ex_confidence rs), es_count = length rs\<rparr>)"

subsection \<open>DLP models\<close>

datatype dlp_category =
    CPII | CFinancial | CHealth | CSourceCode | CCredentials | CLegal | CExport | CIntellectual | CExfiltration

datatype dlp_action = DAllow | DAnonymize | DRedact | DQuarantine | DBlock

definition dlp_category_of :: "string \<Rightarrow> dlp_category option" where
  "dlp_category_of s = map_of
     [(''PII'', CPII), (''Financial'', CFinancial), (''Health'', CHealth), (''Source Code'', CSourceCode),
      (''Credentials'', CCredentials), (''Legal'', CLegal), (''Export Controlled'', CExport),
      (''Intellectual Property'', CIntellectual), (''Exfiltration'', CExfiltration)] s"

definition dlp_action_of :: "string \<Rightarrow> dlp_action option" where
  "dlp_action_of s = map_of
     [(''allow'', DAllow), (''anonymize'', DAnonymize), (''redact'', DRedact), (''quarantine'', DQuarantine),
      (''block'', DBlock)] s"

fun action_rank :: "dlp_action \<Rightarrow> nat" where
  "action_rank DAllow = 0"
| "action_rank DAnonymize = 1"
| "action_rank DRedact = 2"
| "action_rank DQuarantine = 3"
| "action_rank DBlock = 4"

record dlp_detection =
  dd_category :: dlp_category
  dd_action :: dlp_action
  dd_text :: string
  dd_confidence :: real
  dd_start :: nat
  dd_end :: nat
  dd_pattern :: string
  dd_custom :: bool

record dlp_result =
  dr_tenant :: string
  dr_detections :: "dlp_detection list"
  dr_max_action :: dlp_action
  dr_blocked :: bool
  dr_quarantined :: bool

subsection \<open>DLPEngine\<close>

record dlp_pattern =
  dp_id :: string
  dp_find :: matcher
  dp_category :: string
  dp_action :: string

record dlp_engine =
  core_patterns :: "(dlp_category \<times> dlp_pattern list) list"
  tenant_patterns :: "(string, dlp_pattern list) dict"
  exfiltration :: exf_config

text \<open>One pattern entry; None when \<open>re.error\<close> or \<open>KeyError\<close> skips it.\<close>

definition load_pattern ::
  "(string \<Rightarrow> matcher option) \<Rightarrow> string \<Rightarrow> string \<Rightarrow> (string, string) dict \<Rightarrow> dlp_pattern option" where
  "load_pattern compile cat act entry =
     (case map_of entry ''regex'' of
        None \<Rightarrow> None
      | Some r \<Rightarrow>
          (case compile r of
             None \<Rightarrow> None
           | Some f \<Rightarrow>
               (case map_of entry ''id'' of
                  None \<Rightarrow> None
                | Some i \<Rightarrow> Some \<lparr>dp_id = i, dp_find = f, dp_category = cat, dp_action = act\<rparr>)))"

definition load_core_patterns ::
  "(string \<Rightarrow> matcher option) \<Rightarrow> (string \<times> string \<times> (string, string) dict list) list
     \<Rightarrow> (dlp_category \<times> dlp_pattern list) list" where
  "load_core_patterns compile cats =
     foldl (\<lambda>acc (cat_name, default_action, entries).
              case dlp_category_of cat_name of
                None \<Rightarrow> acc
              | Some cat \<Rightarrow>
                  AList.update cat (List.map_filter (load_pattern compile cat_name default_action) entries) acc)
       [] cats"

definition load_tenant_patterns ::
  "(string \<Rightarrow> matcher option) \<Rightarrow> string \<Rightarrow> (string, string) dict list \<Rightarrow> dlp_engine \<Rightarrow> dlp_engine" where
  "load_tenant_patterns compile tenant entries e =
     e\<lparr>tenant_patterns :=
         AList.update tenant
           (List.map_filter (\<lambda>en. load_pattern compile (dict_get en ''category'' ''custom'')
                                 (dict_get en ''action'' ''block'') en) entries)
           (tenant_patterns e)\<rparr>"

text \<open>The detections of one pattern; None is the \<open>ValueError\<close> of an unknown action, which is
  raised at the first match only.\<close>

definition pattern_detections ::
  "string \<Rightarrow> dlp_category \<Rightarrow> bool \<Rightarrow> dlp_pattern \<Rightarrow> dlp_detection list option" where
  "pattern_detections text cat custom p =
     (let ms = dp_find p text
      in if ms = [] then Some []
         else (case dlp_action_of (dp_action p) of
                 None \<Rightarrow> None
               | Some a \<Rightarrow>
                   Some (map (\<lambda>(i, j). \<lparr>dd_category = cat, dd_action = a, dd_text = substring text i j,
                                dd_confidence = 9/10, dd_start = i, dd_end = j, dd_pattern = dp_id p,
                                dd_custom = custom\<rparr>) ms)))"

fun all_detections :: "dlp_detection list option list \<Rightarrow> dlp_detection list option" where
  "all_detections [] = Some []"
| "all_detections (r # rs) =
     (case r of None \<Rightarrow> None | Some ds \<Rightarrow> map_option (\<lambda>es. ds @ es) (all_detections rs))"

definition exf_detection :: "exf_result \<Rightarrow> dlp_detection" where
  "exf_detection r =
     \<lparr>dd_category = CExfiltration, dd_action = DBlock, dd_text = ''[EXFILTRATION_DETECTED]'',
      dd_confidence = ex_confidence r, dd_start = ex_start r, dd_end = ex_end r,
      dd_pattern = ''exfiltration_'' @ ex_method r, dd_custom = False\<rparr>"

definition compute_max_action :: "dlp_detection list \<Rightarrow> dlp_action" where
  "compute_max_action ds =
     (let as = map dd_action ds
      in foldl (\<lambda>m a. if action_rank a > action_rank m then a else m) (hd as) (tl as))"

definition inspect :: "dlp_engine \<Rightarrow> string \<Rightarrow> string \<Rightarrow> dlp_result option" where
  "inspect e text tenant =
     (let core = concat (map (\<lambda>(cat, ps). map (pattern_detections text cat False) ps) (core_patterns e));
          custom = map (\<lambda>p. pattern_detections text
                              (case dlp_category_of (dp_category p) of None \<Rightarrow> CPII | Some c \<Rightarrow> c) True p)
                       (dict_get (tenant_patterns e) tenant [])
      in case all_detections (core @ custom) of
           None \<Rightarrow> None
         | Some ds \<Rightarrow>
             (let detections = ds @ map exf_detection (exf_detect (exfiltration e) text);
                  max_action = (if detections \<noteq> [] then compute_max_action detections else DAllow)
              in Some \<lparr>dr_tenant = tenant, dr_detections = detections, dr_max_action = max_action,
                       dr_blocked = (max_action = DBlock \<or> max_action = DQuarantine),
                       dr_quarantined = (max_action = DQuarantine)\<rparr>))"

definition join_lines :: "string list \<Rightarrow> string" where
  "join_lines ts = (case ts of [] \<Rightarrow> [] | u # us \<Rightarrow> u @ concat (map (\<lambda>v. char_of (10::nat) # v) us))"

definition inspect_request :: "dlp_engine \<Rightarrow> text_node list \<Rightarrow> string \<Rightarrow> dlp_result option" where
  "inspect_request e nodes tenant = inspect e (join_lines (map node_text nodes)) tenant"

record quarantine_result =
  qr_category :: "dlp_category option"
  qr_detection_count :: nat
  qr_max_action :: dlp_action

definition quarantine_request :: "dlp_result \<Rightarrow> quarantine_result" where
  "quarantine_request r =
     \<lparr>qr_category = (case dr_detections r of [] \<Rightarrow> None | d # _ \<Rightarrow> Some (dd_category d)),
      qr_detection_count = length (dr_detections r), qr_max_action = dr_max_action r\<rparr>"

subsection \<open>What blocks\<close>

lemma foldl_max_rank:
  "action_rank (foldl (\<lambda>m a. if action_rank a > action_rank m then a else m) a as)
     = foldl max (action_rank a) (map action_rank as)"
  by (induction as arbitrary: a) (auto simp: max_def)

lemma foldl_max_ge_iff: "(n::nat) \<le> foldl max a xs \<longleftrightarrow> n \<le> a \<or> (\<exists>x \<in> set xs. n \<le> x)"
  by (induction xs arbitrary: a) (auto simp: le_max_iff_disj)

lemma compute_max_action_rank:
  assumes "ds \<noteq> []"
  shows "n \<le> action_rank (compute_max_action ds) \<longleftrightarrow> (\<exists>d \<in> set ds. n \<le> action_rank (dd_action d))"
  using assms by (cases ds) (auto simp: compute_max_action_def Let_def foldl_max_rank foldl_max_ge_iff)

lemma blocking_rank: "a = DBlock \<or> a = DQuarantine \<longleftrightarrow> 3 \<le> action_rank a"
  by (cases a) auto

lemma inspect_blocked:
  assumes "inspect e text tenant = Some r"
  shows "dr_blocked r \<longleftrightarrow> (\<exists>d \<in> set (dr_detections r). dd_action d = DBlock \<or> dd_action d = DQuarantine)"
proof -
  have "dr_blocked r \<longleftrightarrow> 3 \<le> action_rank (dr_max_action r)"
    and "dr_max_action r = (if dr_detections r \<noteq> [] then compute_max_action (dr_detections r) else DAllow)"
    using assms by (auto simp: inspect_def Let_def blocking_rank split: option.splits)
  then show ?thesis by (simp add: blocking_rank compute_max_action_rank)
qed

lemma all_detections_set:
  "all_detections rs = Some ds \<Longrightarrow> Some es \<in> set rs \<Longrightarrow> set es \<subseteq> set ds"
  by (induction rs arbitrary: ds) (auto split: option.splits)

text \<open>No pattern match is lost: a core pattern that matches and blocks, blocks the text.\<close>

lemma inspect_core_match:
  assumes r: "inspect e text tenant = Some r" and p: "(cat, ps) \<in> set (core_patterns e)" "p \<in> set ps"
    and m: "dp_find p text \<noteq> []" "dlp_action_of (dp_action p) = Some a" "a = DBlock \<or> a = DQuarantine"
  shows "dr_blocked r"
proof -
  obtain es where es: "pattern_detections text cat False p = Some es"
    "es \<noteq> []" "\<forall>d \<in> set es. dd_action d = a"
    using m by (auto simp: pattern_detections_def Let_def case_prod_beta)
  let ?core = "concat (map (\<lambda>(cat, ps). map (pattern_detections text cat False) ps) (core_patterns e))"
  have in_core: "Some es \<in> set ?core"
    using p es(1) by (force intro!: bexI [of _ "(cat, ps)"])
  obtain C ds where ds: "all_detections (?core @ C) = Some ds"
    "dr_detections r = ds @ map exf_detection (exf_detect (exfiltration e) text)"
    using r unfolding inspect_def Let_def by (auto split: option.splits simp del: all_detections.simps)
  have "set es \<subseteq> set ds" using all_detections_set [OF ds(1)] in_core by simp
  then have "set es \<subseteq> set (dr_detections r)" unfolding ds(2) by auto
  with es(2,3) m(3) show ?thesis
    unfolding inspect_blocked [OF r] by (cases es) auto
qed

subsection \<open>The entropy of a short word\<close>

lemma byte_freq_fold:
  "map_of (foldl (\<lambda>f b. AList.update b (dict_get f b 0 + 1) f) f0 bs) k
     = (if k \<in> set bs then Some (dict_get f0 k 0 + count_list bs k) else map_of f0 k)"
proof (induction bs arbitrary: f0)
  case Nil
  then show ?case by simp
next
  case (Cons b bs)
  have "dict_get (AList.update b v f0) k d = (if k = b then v else dict_get f0 k d)" for v d
    by (simp add: dict_get_def map_of_update)
  with Cons show ?case by (auto simp: map_of_update)
qed

lemma byte_freq_get: "map_of (byte_freq bs) k = (if k \<in> set bs then Some (count_list bs k) else None)"
  using byte_freq_fold [of "[]" bs k] by (simp add: byte_freq_def dict_get_def)

lemma byte_freq_distinct: "distinct (map fst (byte_freq bs))"
proof -
  have "distinct (map fst (foldl (\<lambda>f b. AList.update b (dict_get f b 0 + 1) f) f0 bs))"
    if "distinct (map fst f0)" for f0 :: "(nat, nat) dict"
    using that by (induction bs arbitrary: f0) (simp_all add: distinct_update)
  then show ?thesis by (simp add: byte_freq_def)
qed

lemma byte_freq_keys: "fst ` set (byte_freq bs) = set bs"
  unfolding dom_map_of_conv_image_fst [symmetric] by (auto simp: byte_freq_get split: if_splits)

lemma byte_freq_values: "map snd (byte_freq bs) = map (count_list bs) (map fst (byte_freq bs))"
proof -
  have "snd kv = count_list bs (fst kv)" if "kv \<in> set (byte_freq bs)" for kv
    using map_of_is_SomeI [OF byte_freq_distinct, of "fst kv" "snd kv" bs] that byte_freq_get [of bs "fst kv"]
    by (auto split: if_splits)
  then show ?thesis by simp
qed

lemma byte_freq_total: "sum_list (map snd (byte_freq bs)) = length bs"
proof -
  have "sum_list (map snd (byte_freq bs)) = sum (count_list bs) (set (map fst (byte_freq bs)))"
    unfolding byte_freq_values by (rule sum_list_distinct_conv_sum_set [OF byte_freq_distinct])
  also have "\<dots> = length bs" using sum_count_set [of bs "set bs"] byte_freq_keys by simp
  finally show ?thesis .
qed

lemma entropy_fold:
  fixes n :: real
  assumes "0 < n" "\<forall>c \<in> set cs. 1 \<le> c"
  shows "foldl (\<lambda>e c. e - (real c / n) * log 2 (real c / n)) e0 cs \<le> e0 + real (sum_list cs) / n * log 2 n"
  using assms(2)
proof (induction cs arbitrary: e0)
  case Nil
  then show ?case by simp
next
  case (Cons c cs)
  have c: "1 \<le> c" using Cons.prems by simp
  have "log 2 (real c / n) = log 2 (real c) - log 2 n"
    using c assms(1) by (simp add: log_divide)
  moreover have "0 \<le> log 2 (real c)" using c by simp
  ultimately have "- log 2 (real c / n) \<le> log 2 n" by simp
  then have "(real c / n) * - log 2 (real c / n) \<le> (real c / n) * log 2 n"
    using assms(1) by (intro mult_left_mono) auto
  moreover have "foldl (\<lambda>e c. e - (real c / n) * log 2 (real c / n)) (e0 - (real c / n) * log 2 (real c / n)) cs
      \<le> (e0 - (real c / n) * log 2 (real c / n)) + real (sum_list cs) / n * log 2 n"
    using Cons by simp
  ultimately show ?case by (simp add: add_divide_distrib distrib_right)
qed

lemma shannon_entropy_bound:
  assumes "w \<noteq> []"
  shows "shannon_entropy w \<le> log 2 (real (length (utf8 w)))"
proof -
  let ?n = "real (length (utf8 w))"
  obtain c cs where "w = c # cs" using assms by (cases w) auto
  then have "utf8 w \<noteq> []" by (simp add: utf8_def utf8_char_def Let_def)
  then have n: "0 < ?n" by simp
  have "\<forall>c \<in> set (map snd (byte_freq (utf8 w))). 1 \<le> c"
  proof
    fix c assume "c \<in> set (map snd (byte_freq (utf8 w)))"
    then obtain k where "k \<in> set (utf8 w)" "c = count_list (utf8 w) k"
      unfolding byte_freq_values using byte_freq_keys [of "utf8 w"] by auto
    then show "1 \<le> c" using count_list_0_iff [of "utf8 w" k] by linarith
  qed
  from entropy_fold [OF n this, of 0] show ?thesis
    using n assms by (simp add: shannon_entropy_def Let_def byte_freq_total)
qed

lemma utf8_ascii: "list_all (\<lambda>c. (of_char c :: nat) < 128) w \<Longrightarrow> length (utf8 w) = length w"
  by (induction w) (simp_all add: utf8_def utf8_char_def Let_def)

lemma short_word_entropy:
  assumes "list_all (\<lambda>c. (of_char c :: nat) < 128) w" "length w \<le> 64"
  shows "shannon_entropy w \<le> 6"
proof (cases "w = []")
  case True
  then show ?thesis by (simp add: shannon_entropy_def)
next
  case False
  then have w: "0 < length w" "length w \<le> 64" using assms(2) by simp_all
  have "shannon_entropy w \<le> log 2 (real (length w))"
    using shannon_entropy_bound [OF False] utf8_ascii [OF assms(1)] by simp
  also have "\<dots> \<le> log 2 64"
    using w by simp
  also have "\<dots> = 6" using log_pow_cancel [of "2::real" 6] by simp
  finally show ?thesis .
qed

text \<open>With the default threshold no ASCII word of up to 64 characters is ever reported for its entropy.\<close>

lemma entropy_steps_idle:
  assumes "6 \<le> ec_threshold cfg" "list_all (\<lambda>c. (of_char c :: nat) < 128) text"
    and "list_all (\<lambda>(i, j). j - i \<le> 64) ijs"
  shows "foldl (entropy_step cfg text) rs ijs = rs"
  using assms(3)
proof (induction ijs arbitrary: rs)
  case (Cons ij ijs)
  obtain i j where ij: "ij = (i, j)" by (cases ij)
  have "list_all (\<lambda>c. (of_char c :: nat) < 128) (substring text i j)"
    using assms(2) unfolding substring_def list_all_iff by (meson in_set_dropD in_set_takeD)
  moreover have "length (substring text i j) \<le> 64" using Cons.prems ij by (auto simp: substring_def)
  ultimately have "shannon_entropy (substring text i j) \<le> 6" by (rule short_word_entropy)
  then have "entropy_step cfg text rs ij = rs" using assms(1) by (simp add: entropy_step_def ij Let_def)
  with Cons show ?case by simp
qed simp

lemma exf_detect_short_words:
  assumes "6 \<le> ec_threshold cfg" "list_all (\<lambda>c. (of_char c :: nat) < 128) text"
    and "list_all (\<lambda>(i, j). j - i \<le> 64) (word_runs 0 text)"
  shows "exf_detect cfg text = concat (map (run_method text) (ec_methods cfg))"
  using entropy_steps_idle [OF assms] by (simp add: exf_detect_def Let_def)

end
