(* ===== verification/AuditChain.thy ===== *)
theory AuditChain
  imports Complex_Main Prelude "HOL-Library.Product_Lexorder"
begin

text \<open>
  The audit chain: the event and its hash (\<open>models/audit.py\<close>), the chain service
  (\<open>services/audit_chain.py\<close>) and the daily anchors (\<open>services/chain_anchor.py\<close>). The table is the
  list of its rows by row id, with the next id to hand out; SQL is written out on it. The digest of
  an event's canonical JSON (SHA-384) and of the joined hashes of a day, and the HMAC, are parameters.
  A timestamp is a rational number of seconds; the theory shows that stored chains verify, what
  tampering verification detects, that a retried write stores one event, and that paging by cursor
  lists every event once.
\<close>

subsection \<open>Events and the table\<close>

record audit_event =
  event_id :: string
  prev_hash :: "string option"
  event_hash :: string
  timestamp :: rat
  ae_tenant :: string
  ae_request :: "string option"
  ae_policy :: "string option"
  ae_decision :: "string option"
  ae_provider :: "string option"
  latency_ms :: "int option"
  ae_type :: string
  operator_id :: "string option"
  change_type :: "string option"
  prev_value_hash :: "string option"
  new_value_hash :: "string option"
  metadata_json :: "string option"
  retention_days :: int
  row_id :: nat

text \<open>The fields \<open>compute_event_hash\<close> serializes: all but the hash, the retention and the row id.\<close>

definition hashed_fields :: "audit_event \<Rightarrow> audit_event" where
  "hashed_fields e = e\<lparr>event_hash := [], retention_days := 0, row_id := 0\<rparr>"

definition compute_event_hash :: "(audit_event \<Rightarrow> string) \<Rightarrow> audit_event \<Rightarrow> string" where
  "compute_event_hash digest e = digest (hashed_fields e)"

record audit_db =
  rows :: "audit_event list"
  next_id :: nat

definition empty_db :: audit_db where
  "empty_db = \<lparr>rows = [], next_id = 1\<rparr>"

definition tenant_rows :: "string \<Rightarrow> audit_event list \<Rightarrow> audit_event list" where
  "tenant_rows tenant rs = filter (\<lambda>r. ae_tenant r = tenant) rs"

subsection \<open>AuditChainService\<close>

definition get_latest_event :: "audit_db \<Rightarrow> string \<Rightarrow> audit_event option" where
  "get_latest_event db tenant =
     (let rs = tenant_rows tenant (rows db) in if rs = [] then None else Some (last rs))"

text \<open>\<open>log_event\<close>: the record built from the keyword arguments that remain after the named ones.\<close>

definition new_audit_event ::
  "string \<Rightarrow> rat \<Rightarrow> string \<Rightarrow> string \<Rightarrow> string option \<Rightarrow> string option \<Rightarrow> string option \<Rightarrow> string option
     \<Rightarrow> int option \<Rightarrow> string \<Rightarrow> int \<Rightarrow> audit_event" where
  "new_audit_event eid now etype tenant request oper prov dcs latency meta retention =
     (let text_or_none = (\<lambda>x. case x of Some (c # cs) \<Rightarrow> Some (c # cs) | _ \<Rightarrow> None)
      in \<lparr>event_id = eid, prev_hash = None, event_hash = [], timestamp = now, ae_tenant = tenant,
          ae_request = text_or_none request, ae_policy = None, ae_decision = text_or_none dcs,
          ae_provider = text_or_none prov, latency_ms = latency, ae_type = etype,
          operator_id = text_or_none oper, change_type = None, prev_value_hash = None,
          new_value_hash = None, metadata_json = Some meta, retention_days = retention, row_id = 0\<rparr>)"

definition store_event ::
  "(audit_event \<Rightarrow> string) \<Rightarrow> audit_db \<Rightarrow> audit_event \<Rightarrow> (audit_db \<times> audit_event) py_result" where
  "store_event digest db e =
     (if event_hash e \<noteq> [] then Inl ValueError
      else (let latest = get_latest_event db (ae_tenant e)
            in case find (\<lambda>r. event_id r = event_id e) (rows db) of
                 Some r \<Rightarrow> Inr (db, e\<lparr>event_hash := event_hash r, prev_hash := prev_hash r\<rparr>)
               | None \<Rightarrow>
                   (let e1 = e\<lparr>prev_hash := map_option event_hash latest\<rparr>;
                        e2 = e1\<lparr>event_hash := compute_event_hash digest e1\<rparr>
                    in Inr (db\<lparr>rows := rows db @ [e2\<lparr>row_id := next_id db\<rparr>], next_id := next_id db + 1\<rparr>, e2))))"

record verification_result =
  is_intact :: bool
  broken_at :: "nat option"
  checked_count :: nat

fun verify_rows ::
  "(audit_event \<Rightarrow> string) \<Rightarrow> audit_event list \<Rightarrow> string option \<Rightarrow> nat \<Rightarrow> verification_result" where
  "verify_rows digest [] expected checked =
     \<lparr>is_intact = True, broken_at = None, checked_count = checked\<rparr>"
| "verify_rows digest (r # rs) expected checked =
     (if event_hash r \<noteq> compute_event_hash digest r
         \<or> (expected \<noteq> None \<and> prev_hash r \<noteq> expected)
      then \<lparr>is_intact = False, broken_at = Some (row_id r), checked_count = checked\<rparr>
      else verify_rows digest rs (Some (compute_event_hash digest r)) (checked + 1))"

definition verify_chain ::
  "(audit_event \<Rightarrow> string) \<Rightarrow> audit_db \<Rightarrow> string \<Rightarrow> nat option \<Rightarrow> verification_result" where
  "verify_chain digest db tenant from_id =
     (let rs = filter (\<lambda>r. case from_id of None \<Rightarrow> True | Some i \<Rightarrow> i \<le> row_id r) (tenant_rows tenant (rows db))
      in verify_rows digest rs None 0)"

subsection \<open>Queries\<close>

datatype event_sort = TimestampAsc | TimestampDesc | ByIdDesc

record event_filter =
  ef_tenant :: "string option"
  ef_type :: "string option"
  ef_operator :: "string option"
  ef_from :: "rat option"
  ef_to :: "rat option"
  ef_entity :: "string option"
  ef_max_row :: "nat option"

text \<open>\<open>has_entity\<close> is the test of the SQL clause on \<open>metadata_json\<close>.\<close>

definition event_where :: "(string \<Rightarrow> string option \<Rightarrow> bool) \<Rightarrow> event_filter \<Rightarrow> audit_event \<Rightarrow> bool" where
  "event_where has_entity f e \<longleftrightarrow>
     (case ef_tenant f of None \<Rightarrow> True | Some t \<Rightarrow> ae_tenant e = t)
     \<and> (case ef_type f of None \<Rightarrow> True | Some t \<Rightarrow> ae_type e = t)
     \<and> (case ef_operator f of None \<Rightarrow> True | Some o' \<Rightarrow> operator_id e = Some o')
     \<and> (case ef_from f of None \<Rightarrow> True | Some t \<Rightarrow> t \<le> timestamp e)
     \<and> (case ef_to f of None \<Rightarrow> True | Some t \<Rightarrow> timestamp e \<le> t)
     \<and> (case ef_entity f of None \<Rightarrow> True | Some n \<Rightarrow> has_entity n (metadata_json e))
     \<and> (case ef_max_row f of None \<Rightarrow> True | Some i \<Rightarrow> row_id e \<le> i)"

definition cursor_clause :: "event_sort \<Rightarrow> rat \<times> nat \<Rightarrow> audit_event \<Rightarrow> bool" where
  "cursor_clause srt cur e =
     (let (ct, ci) = cur
      in case srt of
           TimestampAsc \<Rightarrow> timestamp e > ct \<or> (timestamp e = ct \<and> row_id e > ci)
         | _ \<Rightarrow> timestamp e < ct \<or> (timestamp e = ct \<and> row_id e < ci))"

definition order_by :: "event_sort \<Rightarrow> audit_event list \<Rightarrow> audit_event list" where
  "order_by srt es =
     (case srt of
        TimestampAsc \<Rightarrow> sort_key (\<lambda>e. (timestamp e, int (row_id e))) es
      | TimestampDesc \<Rightarrow> sort_key (\<lambda>e. (- timestamp e, - int (row_id e))) es
      | ByIdDesc \<Rightarrow> sort_key (\<lambda>e. - int (row_id e)) es)"

definition get_events ::
  "(string \<Rightarrow> string option \<Rightarrow> bool) \<Rightarrow> audit_db \<Rightarrow> event_filter \<Rightarrow> event_sort \<Rightarrow> nat \<Rightarrow> nat
     \<Rightarrow> (rat \<times> nat) option \<Rightarrow> audit_event list" where
  "get_events has_entity db f srt limit offset cur =
     take limit (drop offset (order_by srt
       (filter (\<lambda>e. event_where has_entity f e \<and> (case cur of None \<Rightarrow> True | Some c \<Rightarrow> cursor_clause srt c e))
          (rows db))))"

definition count_events :: "(string \<Rightarrow> string option \<Rightarrow> bool) \<Rightarrow> audit_db \<Rightarrow> event_filter \<Rightarrow> nat" where
  "count_events has_entity db f = length (filter (event_where has_entity f) (rows db))"

definition max_row_id :: "audit_db \<Rightarrow> string \<Rightarrow> nat option" where
  "max_row_id db tenant =
     (let ids = map row_id (tenant_rows tenant (rows db))
      in if ids = [] then None else Some (foldl max (hd ids) (tl ids)))"

text \<open>\<open>iter_filtered_events\<close> of \<open>services/audit_export.py\<close>; the fuel bounds the number of pages.\<close>

fun iter_filtered_events ::
  "nat \<Rightarrow> (string \<Rightarrow> string option \<Rightarrow> bool) \<Rightarrow> audit_db \<Rightarrow> event_filter \<Rightarrow> event_sort \<Rightarrow> nat
     \<Rightarrow> (rat \<times> nat) option \<Rightarrow> audit_event list option" where
  "iter_filtered_events 0 has_entity db f srt page cur = None"
| "iter_filtered_events (Suc n) has_entity db f srt page cur =
     (let batch = get_events has_entity db f srt page 0 cur
      in if batch = [] then Some []
         else if length batch < page then Some batch
         else if cur = Some (timestamp (last batch), row_id (last batch)) then Some batch
         else map_option (\<lambda>rest. batch @ rest)
                (iter_filtered_events n has_entity db f srt page
                   (Some (timestamp (last batch), row_id (last batch)))))"

subsection \<open>Daily anchors\<close>

record daily_anchor =
  anchor_date :: nat
  daily_root_hash :: string
  da_signature :: string
  event_count :: nat
  created_at :: rat

record anchor_service =
  root_digest :: "string \<Rightarrow> string"
  hmac_digest :: "string \<Rightarrow> string \<Rightarrow> string"
  signing_key :: "string option"
  day_of :: "rat \<Rightarrow> nat"

definition sign_hash :: "anchor_service \<Rightarrow> string \<Rightarrow> string" where
  "sign_hash sv h = (case signing_key sv of Some (c # cs) \<Rightarrow> hmac_digest sv (c # cs) h | _ \<Rightarrow> [])"

definition hashes_on :: "anchor_service \<Rightarrow> audit_db \<Rightarrow> nat \<Rightarrow> string list" where
  "hashes_on sv db d = map event_hash (filter (\<lambda>e. day_of sv (timestamp e) = d) (rows db))"

definition compute_daily_anchor :: "anchor_service \<Rightarrow> audit_db \<Rightarrow> nat \<Rightarrow> rat \<Rightarrow> daily_anchor py_result" where
  "compute_daily_anchor sv db d now =
     (let hs = hashes_on sv db d
      in if hs = [] then Inl ValueError
         else (let root = root_digest sv (concat hs)
               in Inr \<lparr>anchor_date = d, daily_root_hash = root, da_signature = sign_hash sv root,
                       event_count = length hs, created_at = now\<rparr>))"

definition latest_anchor :: "daily_anchor list \<Rightarrow> daily_anchor option" where
  "latest_anchor as =
     (case sort_key (\<lambda>a. - created_at a) as of [] \<Rightarrow> None | a # _ \<Rightarrow> Some a)"

definition store_anchor :: "daily_anchor list \<Rightarrow> daily_anchor \<Rightarrow> daily_anchor list" where
  "store_anchor as a = as @ [a]"

definition verify_anchor :: "anchor_service \<Rightarrow> audit_db \<Rightarrow> daily_anchor list \<Rightarrow> nat \<Rightarrow> bool" where
  "verify_anchor sv db as d =
     (case latest_anchor (filter (\<lambda>a. anchor_date a = d) as) of
        None \<Rightarrow> False
      | Some a \<Rightarrow>
          (let hs = hashes_on sv db d
           in if hs = [] then False
              else if root_digest sv (concat hs) \<noteq> daily_root_hash a then False
              else sign_hash sv (daily_root_hash a) = da_signature a))"

definition run_daily_anchor ::
  "anchor_service \<Rightarrow> audit_db \<Rightarrow> daily_anchor list \<Rightarrow> nat option \<Rightarrow> rat
     \<Rightarrow> (daily_anchor list \<times> daily_anchor) py_result" where
  "run_daily_anchor sv db as d now =
     bind_result (compute_daily_anchor sv db (case d of Some d \<Rightarrow> d | None \<Rightarrow> day_of sv (now - 86400)) now)
       (\<lambda>a. Inr (store_anchor as a, a))"

record anchor_status =
  latest_anchor_date :: "nat option"
  status_count :: nat
  is_verified :: bool

definition get_anchor_status :: "anchor_service \<Rightarrow> audit_db \<Rightarrow> daily_anchor list \<Rightarrow> anchor_status" where
  "get_anchor_status sv db as =
     (case latest_anchor as of
        None \<Rightarrow> \<lparr>latest_anchor_date = None, status_count = 0, is_verified = False\<rparr>
      | Some a \<Rightarrow> \<lparr>latest_anchor_date = Some (anchor_date a), status_count = event_count a,
                   is_verified = verify_anchor sv db as (anchor_date a)\<rparr>)"

subsection \<open>Stored chains verify\<close>

text \<open>Links of a tenant's rows, from the hash expected before the first of them.\<close>

fun linked :: "(audit_event \<Rightarrow> string) \<Rightarrow> string option \<Rightarrow> audit_event list \<Rightarrow> bool" where
  "linked digest p [] = True"
| "linked digest p (r # rs) =
     (prev_hash r = p \<and> event_hash r = compute_event_hash digest r \<and> linked digest (Some (event_hash r)) rs)"

definition db_ok :: "(audit_event \<Rightarrow> string) \<Rightarrow> audit_db \<Rightarrow> bool" where
  "db_ok digest db \<longleftrightarrow>
     sorted_wrt (<) (map row_id (rows db)) \<and> (\<forall>r \<in> set (rows db). row_id r < next_id db)
     \<and> distinct (map event_id (rows db)) \<and> (\<forall>t. linked digest None (tenant_rows t (rows db)))"

lemma linked_append:
  "linked digest p (rs @ [r]) \<longleftrightarrow> linked digest p rs
     \<and> prev_hash r = (if rs = [] then p else Some (event_hash (last rs)))
     \<and> event_hash r = compute_event_hash digest r"
  by (induction rs arbitrary: p) auto

lemma empty_db_ok: "db_ok digest empty_db"
  by (simp add: db_ok_def empty_db_def tenant_rows_def)

lemma compute_event_hash_updates [simp]:
  "compute_event_hash digest (e\<lparr>event_hash := h\<rparr>) = compute_event_hash digest e"
  "compute_event_hash digest (e\<lparr>row_id := i\<rparr>) = compute_event_hash digest e"
  by (simp_all add: compute_event_hash_def hashed_fields_def)

lemma store_event_cases:
  assumes "store_event digest db e = Inr (db', e')"
  obtains (present) r where "find (\<lambda>r. event_id r = event_id e) (rows db) = Some r" "db' = db"
      "event_hash e' = event_hash r" "prev_hash e' = prev_hash r" "event_id e' = event_id e"
    | (fresh) e2 where "\<forall>r \<in> set (rows db). event_id r \<noteq> event_id e"
      "rows db' = rows db @ [e2\<lparr>row_id := next_id db\<rparr>]" "next_id db' = next_id db + 1" "e' = e2"
      "prev_hash e2 = map_option event_hash (get_latest_event db (ae_tenant e))"
      "event_hash e2 = compute_event_hash digest e2" "ae_tenant e2 = ae_tenant e" "event_id e2 = event_id e"
proof (cases "find (\<lambda>r. event_id r = event_id e) (rows db)")
  case None
  then have "\<forall>r \<in> set (rows db). event_id r \<noteq> event_id e" by (auto simp: find_None_iff)
  with None assms show thesis
    by (intro fresh [of "(e\<lparr>prev_hash := map_option event_hash (get_latest_event db (ae_tenant e))\<rparr>)
          \<lparr>event_hash := compute_event_hash digest (e\<lparr>prev_hash := map_option event_hash (get_latest_event db (ae_tenant e))\<rparr>)\<rparr>"])
      (auto simp: store_event_def Let_def split: if_splits)
next
  case (Some r)
  with assms show thesis by (intro present [of r]) (auto simp: store_event_def Let_def split: if_splits)
qed

lemma store_event_ok:
  assumes "db_ok digest db" "store_event digest db e = Inr (db', e')"
  shows "db_ok digest db'"
  using assms(2)
proof (cases rule: store_event_cases)
  case (present r)
  then show ?thesis using assms(1) by simp
next
  case (fresh e2)
  let ?r = "e2\<lparr>row_id := next_id db\<rparr>"
  have "linked digest None (tenant_rows t (rows db'))" for t
  proof (cases "t = ae_tenant e")
    case True
    have "linked digest None (tenant_rows t (rows db))" using assms(1) by (simp add: db_ok_def)
    moreover have "tenant_rows t (rows db') = tenant_rows t (rows db) @ [?r]"
      using fresh True by (simp add: tenant_rows_def)
    ultimately show ?thesis
      using fresh(5,6) True by (simp add: linked_append get_latest_event_def Let_def)
  next
    case False
    then have "tenant_rows t (rows db') = tenant_rows t (rows db)" using fresh by (simp add: tenant_rows_def)
    with assms(1) show ?thesis by (simp add: db_ok_def)
  qed
  then show ?thesis
    using assms(1) fresh(1,2,3,8) unfolding db_ok_def
    by (auto simp: sorted_wrt_append)
qed

lemma verify_rows_linked:
  "linked digest p rs \<Longrightarrow> e = None \<or> e = p \<Longrightarrow>
     verify_rows digest rs e n = \<lparr>is_intact = True, broken_at = None, checked_count = n + length rs\<rparr>"
  by (induction rs arbitrary: p e n) auto

lemma verify_rows_some: "is_intact (verify_rows digest rs (Some p) n) \<longleftrightarrow> linked digest (Some p) rs"
  by (induction rs arbitrary: p n) auto

lemma verify_rows_none:
  "is_intact (verify_rows digest (r # rs) None n) \<longleftrightarrow> linked digest (prev_hash r) (r # rs)"
  by (auto simp: verify_rows_some)

text \<open>What verification of all rows of a tenant says, and what it does not: the head is unchecked.\<close>

lemma verify_chain_intact:
  "is_intact (verify_chain digest db tenant None) \<longleftrightarrow>
     (case tenant_rows tenant (rows db) of [] \<Rightarrow> True | r # rs \<Rightarrow> linked digest (prev_hash r) (r # rs))"
  by (simp add: verify_chain_def verify_rows_some split: list.split)

lemma verify_chain_stored:
  assumes "db_ok digest db"
  shows "verify_chain digest db tenant None
    = \<lparr>is_intact = True, broken_at = None, checked_count = length (tenant_rows tenant (rows db))\<rparr>"
  using assms verify_rows_linked [of digest None "tenant_rows tenant (rows db)" None 0]
  by (simp add: verify_chain_def db_ok_def)

lemma linked_suffix: "linked digest p (xs @ ys) \<Longrightarrow> \<exists>q. linked digest q ys"
  by (induction xs arbitrary: p) auto

lemma truncated_verifies:
  assumes "linked digest p rs"
  shows "is_intact (verify_rows digest (drop k rs) None n)"
proof (cases "drop k rs")
  case (Cons r rest)
  from assms obtain q where "linked digest q (drop k rs)" using linked_suffix [of digest p "take k rs" "drop k rs"] by auto
  then show ?thesis using Cons verify_rows_none [of digest r rest n] by (metis linked.simps(2))
qed simp

subsection \<open>Two verified chains with one last hash\<close>

definition no_collision :: "(audit_event \<Rightarrow> string) \<Rightarrow> audit_event list \<Rightarrow> bool" where
  "no_collision digest rs \<longleftrightarrow> inj_on digest (hashed_fields ` set rs)"

lemma hashed_fields_prev: "hashed_fields a = hashed_fields b \<Longrightarrow> prev_hash a = prev_hash b"
  by (drule arg_cong [of _ _ prev_hash]) (simp add: hashed_fields_def)

lemma linked_same_end:
  assumes "no_collision digest (rs @ rs')" "linked digest p rs" "linked digest q rs'" "rs \<noteq> []" "rs' \<noteq> []"
    and "event_hash (last rs) = event_hash (last rs')" "k < length rs" "k < length rs'"
  shows "hashed_fields (rev rs ! k) = hashed_fields (rev rs' ! k)"
  using assms
proof (induction rs arbitrary: rs' k rule: rev_induct)
  case Nil
  then show ?case by simp
next
  case (snoc x xs)
  obtain y ys where rs': "rs' = ys @ [y]" using snoc.prems(5) by (metis rev_exhaust)
  have "compute_event_hash digest x = compute_event_hash digest y"
    using snoc.prems(2,3,6) by (simp add: rs' linked_append)
  then have hf: "hashed_fields x = hashed_fields y"
    unfolding compute_event_hash_def
    by (rule inj_onD [OF snoc.prems(1) [unfolded no_collision_def]]) (simp_all add: rs')
  show ?case
  proof (cases k)
    case 0
    with hf show ?thesis by (simp add: rs')
  next
    case (Suc j)
    then have ne: "xs \<noteq> []" "ys \<noteq> []" using snoc.prems(7,8) rs' by auto
    have "event_hash (last xs) = event_hash (last ys)"
      using hashed_fields_prev [OF hf] snoc.prems(2,3) ne by (simp add: rs' linked_append)
    moreover have "no_collision digest (xs @ ys)"
      using snoc.prems(1) unfolding no_collision_def rs' by (rule inj_on_subset) auto
    ultimately have "hashed_fields (rev xs ! j) = hashed_fields (rev ys ! j)"
      using snoc.IH [of ys j] snoc.prems(2,3,7,8) ne Suc by (simp add: rs' linked_append)
    with Suc show ?thesis by (simp add: rs')
  qed
qed

subsection \<open>A log of events\<close>

text \<open>Events logged one after the other into the empty table; a rejected one changes nothing.\<close>

definition log_step :: "(audit_event \<Rightarrow> string) \<Rightarrow> audit_db \<Rightarrow> audit_event \<Rightarrow> audit_db" where
  "log_step digest db e = (case store_event digest db e of Inr (db', _) \<Rightarrow> db' | Inl _ \<Rightarrow> db)"

definition log_all :: "(audit_event \<Rightarrow> string) \<Rightarrow> audit_event list \<Rightarrow> audit_db" where
  "log_all digest es = foldl (log_step digest) empty_db es"

lemma log_step_ok: "db_ok digest db \<Longrightarrow> db_ok digest (log_step digest db e)"
  using store_event_ok by (auto simp: log_step_def split: sum.split)

lemma log_all_ok: "db_ok digest (log_all digest es)"
proof -
  have "db_ok digest db \<Longrightarrow> db_ok digest (foldl (log_step digest) db es)" for db
    by (induction es arbitrary: db) (simp_all add: log_step_ok)
  then show ?thesis by (simp add: log_all_def empty_db_ok)
qed

lemma tenant_rows_drop: "\<exists>j. tenant_rows t (drop k rs) = drop j (tenant_rows t rs)"
proof -
  have "tenant_rows t rs = tenant_rows t (take k rs) @ tenant_rows t (drop k rs)"
    by (metis append_take_drop_id filter_append tenant_rows_def)
  then show ?thesis by (metis append_eq_conv_conj)
qed

lemma dropped_verifies:
  assumes "db_ok digest db"
  shows "is_intact (verify_chain digest (db\<lparr>rows := drop k (rows db)\<rparr>) tenant None)"
proof -
  obtain j where j: "tenant_rows tenant (drop k (rows db)) = drop j (tenant_rows tenant (rows db))"
    using tenant_rows_drop by blast
  then have "verify_chain digest (db\<lparr>rows := drop k (rows db)\<rparr>) tenant None
      = verify_rows digest (drop j (tenant_rows tenant (rows db))) None 0"
    by (simp add: verify_chain_def)
  moreover have "linked digest None (tenant_rows tenant (rows db))" using assms by (simp add: db_ok_def)
  ultimately show ?thesis by (simp only: truncated_verifies)
qed

lemma intact_linked:
  assumes "is_intact (verify_chain digest db tenant None)"
  shows "\<exists>p. linked digest p (tenant_rows tenant (rows db))"
proof (cases "tenant_rows tenant (rows db)")
  case (Cons r rs)
  then show ?thesis using assms unfolding verify_chain_intact by auto
qed simp

lemma db_ok_distinct: "db_ok digest db \<Longrightarrow> distinct (map row_id (rows db))"
  by (simp add: db_ok_def strict_sorted_iff)

subsection \<open>Paging\<close>

definition sort_value :: "event_sort \<Rightarrow> rat \<times> nat \<Rightarrow> rat \<times> int" where
  "sort_value srt ti = (if srt = TimestampAsc then (fst ti, int (snd ti)) else (- fst ti, - int (snd ti)))"

abbreviation event_key :: "event_sort \<Rightarrow> audit_event \<Rightarrow> rat \<times> int" where
  "event_key srt e \<equiv> sort_value srt (timestamp e, row_id e)"

lemma order_by_key: "srt \<noteq> ByIdDesc \<Longrightarrow> order_by srt es = sort_key (event_key srt) es"
  by (cases srt) (simp_all add: order_by_def sort_value_def)

lemma cursor_clause_key: "srt \<noteq> ByIdDesc \<Longrightarrow> cursor_clause srt c e \<longleftrightarrow> sort_value srt c < event_key srt e"
  by (cases srt; cases c) (auto simp: cursor_clause_def sort_value_def less_prod_def')

lemma event_key_inj: "srt \<noteq> ByIdDesc \<Longrightarrow> event_key srt a = event_key srt b \<Longrightarrow> row_id a = row_id b"
  by (simp add: sort_value_def split: if_splits)

text \<open>The whole answer, of which every page is a slice.\<close>

definition all_events ::
  "(string \<Rightarrow> string option \<Rightarrow> bool) \<Rightarrow> audit_db \<Rightarrow> event_filter \<Rightarrow> event_sort \<Rightarrow> audit_event list" where
  "all_events has_entity db f srt = order_by srt (filter (event_where has_entity f) (rows db))"

lemma all_events_strict:
  assumes "srt \<noteq> ByIdDesc" "distinct (map row_id (rows db))"
  shows "sorted_wrt (\<lambda>a b. event_key srt a < event_key srt b) (all_events he db f srt)"
proof -
  let ?L = "all_events he db f srt"
  have L: "?L = sort_key (event_key srt) (filter (event_where he f) (rows db))"
    using assms(1) by (simp add: all_events_def order_by_key)
  have s: "sorted (map (event_key srt) ?L)" unfolding L by simp
  have "inj_on row_id (set (rows db))" "distinct (rows db)" using assms(2) by (simp_all add: distinct_map)
  then have "distinct ?L" "inj_on row_id (set ?L)" unfolding L by (auto intro: inj_on_subset)
  then have "distinct (map (event_key srt) ?L)"
    unfolding distinct_map using event_key_inj [OF assms(1)] by (auto intro!: inj_onI dest: inj_onD)
  with s have "sorted_wrt (<) (map (event_key srt) ?L)" by (simp add: strict_sorted_iff)
  then show ?thesis by (simp add: sorted_wrt_map)
qed

lemma strict_filter_drop:
  fixes key :: "'a \<Rightarrow> 'k::linorder"
  assumes "sorted_wrt (\<lambda>a b. key a < key b) L" "k < length L"
  shows "filter (\<lambda>e. key (L ! k) < key e) L = drop (Suc k) L"
proof -
  have lt: "key (L ! i) < key (L ! j)" if "i < j" "j < length L" for i j
    using assms(1) that by (simp add: sorted_wrt_iff_nth_less)
  have "filter (\<lambda>e. key (L ! k) < key e) (take (Suc k) L) = []"
    using lt assms(2) by (fastforce simp: filter_empty_conv in_set_conv_nth less_Suc_eq)
  moreover have "filter (\<lambda>e. key (L ! k) < key e) (drop (Suc k) L) = drop (Suc k) L"
    using lt assms(2) by (fastforce simp: filter_id_conv in_set_conv_nth)
  ultimately show ?thesis by (metis append_Nil append_take_drop_id filter_append)
qed

definition cursor_at :: "audit_event list \<Rightarrow> nat \<Rightarrow> (rat \<times> nat) option" where
  "cursor_at L k = (if k = 0 then None else Some (timestamp (L ! (k - 1)), row_id (L ! (k - 1))))"

lemma get_events_page:
  assumes srt: "srt \<noteq> ByIdDesc" and d: "distinct (map row_id (rows db))"
    and k: "k \<le> length (all_events he db f srt)"
  shows "get_events he db f srt page 0 (cursor_at (all_events he db f srt) k)
    = take page (drop k (all_events he db f srt))"
proof (cases k)
  case 0
  then show ?thesis by (simp add: get_events_def all_events_def cursor_at_def)
next
  case (Suc j)
  let ?L = "all_events he db f srt"
  have "order_by srt (filter (\<lambda>e. event_where he f e \<and> cursor_clause srt (timestamp (?L ! j), row_id (?L ! j)) e) (rows db))
      = filter (cursor_clause srt (timestamp (?L ! j), row_id (?L ! j))) ?L"
    unfolding all_events_def order_by_key [OF srt] by (simp add: filter_sort [symmetric] conj_commute)
  also have "\<dots> = filter (\<lambda>e. event_key srt (?L ! j) < event_key srt e) ?L"
    by (rule filter_cong [OF refl]) (rule cursor_clause_key [OF srt])
  also have "\<dots> = drop (Suc j) ?L"
    using strict_filter_drop [OF all_events_strict [OF srt d]] k Suc by simp
  finally show ?thesis by (simp add: get_events_def cursor_at_def Suc)
qed

lemma iter_filtered_events_all:
  assumes srt: "srt \<noteq> ByIdDesc" and d: "distinct (map row_id (rows db))" and p: "0 < page"
    and "k \<le> length (all_events he db f srt)" "length (all_events he db f srt) - k < n"
  shows "iter_filtered_events n he db f srt page (cursor_at (all_events he db f srt) k)
    = Some (drop k (all_events he db f srt))"
  using assms(4,5)
proof (induction n arbitrary: k)
  case 0
  then show ?case by simp
next
  case (Suc n)
  let ?L = "all_events he db f srt"
  let ?B = "take page (drop k ?L)"
  note pg = get_events_page [OF srt d Suc.prems(1), of page]
  show ?case
  proof (cases "length ?B < page")
    case True
    then have "?B = drop k ?L" by simp
    with True pg show ?thesis by (simp add: Let_def)
  next
    case False
    then have len: "length ?B = page" "k + page \<le> length ?L" using Suc.prems(1) by auto
    then have ne: "?B \<noteq> []" using p by auto
    have last: "last ?B = ?L ! (k + page - 1)"
      using len p ne by (simp add: last_conv_nth)
    have at: "Some (timestamp (last ?B), row_id (last ?B)) = cursor_at ?L (k + page)"
      using p by (simp add: cursor_at_def last)
    have "cursor_at ?L k \<noteq> cursor_at ?L (k + page)"
    proof
      assume eq: "cursor_at ?L k = cursor_at ?L (k + page)"
      then have "0 < k" using p by (simp add: cursor_at_def split: if_splits)
      then have "event_key srt (?L ! (k - 1)) = event_key srt (?L ! (k + page - 1))"
        using eq p by (simp add: cursor_at_def)
      moreover have "k - 1 < k + page - 1" "k + page - 1 < length ?L" using \<open>0 < k\<close> p len by auto
      ultimately show False
        using all_events_strict [OF srt d, of he f] unfolding sorted_wrt_iff_nth_less by fastforce
    qed
    moreover have "iter_filtered_events n he db f srt page (cursor_at ?L (k + page)) = Some (drop (k + page) ?L)"
      using Suc.IH len(2) Suc.prems(2) p by simp
    moreover have "?B @ drop (k + page) ?L = drop k ?L"
      by (metis add.commute append_take_drop_id drop_drop)
    ultimately show ?thesis
      using ne False pg at by (simp add: Let_def)
  qed
qed

end
