(* ===== verification/Pipeline.thy ===== *)
theory Pipeline
  imports LocaleBundles Restore Policy Dlp AuditChain
begin

text \<open>
  The processing context (\<open>models/processing_context.py\<close>), the exceptions of
  \<open>exceptions.py\<close>, the stage interface (\<open>pipeline/base.py\<close>) and the manager
  (\<open>pipeline/manager.py\<close>). A stage works on the context and on the world it can reach: the token
  store, the requests posted to the provider, the decision cache, the audit table. It returns the mutated state and
  the exception it raised, if any; \<open>Cancelled\<close> stands for a \<open>BaseException\<close>, which no
  \<open>except Exception\<close> catches. The locale \<open>stage_family\<close> states the contract of
  the stages, \<open>errors\<close> only grows, and proves the fail-secure behaviour of the manager from it.
\<close>

subsection \<open>Errors\<close>

datatype pipe_exn =
    PipelineAbortError nat string
  | PresidioLanguageUnsupportedError string
  | DependencyUnavailableError string
  | PipelineBlockedError string
  | OutboundDLPError string
  | ToolBlockedError string
  | PyExn py_exn

datatype raised = Exc pipe_exn | Cancelled

fun is_abort :: "pipe_exn \<Rightarrow> bool" where
  "is_abort (PipelineAbortError _ _) = True"
| "is_abort (PresidioLanguageUnsupportedError _) = True"
| "is_abort (PipelineBlockedError _) = True"
| "is_abort (OutboundDLPError _) = True"
| "is_abort _ = False"

subsection \<open>The processing context\<close>

record processing_context =
  request_id :: string
  tenant_id :: string
  context_id :: "string option"
  original_request :: "(string \<times> json) list option"
  text_nodes :: "text_node list option"
  classification_result :: "class_outcome option"
  detections :: "span list option"
  token_mappings :: "(string, string) dict option"
  transformed_request :: "(string \<times> json) list option"
  provider_response :: "json option"
  restored_response :: "json option"
  provider :: "string option"
  model :: "string option"
  locale_header :: "string option"
  locale_bundles :: "locale_bundle list option"
  merged_recognizer_set :: "merged_recognizers option"
  terminal_state :: "string option"
  client_classification :: "level option"
  classification_result_v2 :: "level_result option"
  dlp_result_of :: "dlp_result option"
  outbound_dlp_result :: "dlp_result option"
  requires_approval :: bool
  policy_decision_of :: "policy_decision option"
  policy_enforcement :: "enforcement_result option"
  has_audit_chain :: bool
  request_receipt_time :: "rat option"
  provider_dispatch_time :: "rat option"
  processing_overhead_ms :: "rat option"
  audit_metadata :: "(string, string) dict"
  errors :: "pipe_exn list"

definition has_errors :: "processing_context \<Rightarrow> bool" where
  "has_errors c \<longleftrightarrow> length (errors c) > 0"

definition fail_secure :: "pipe_exn \<Rightarrow> processing_context \<Rightarrow> processing_context" where
  "fail_secure e c = c\<lparr>errors := errors c @ [e]\<rparr>"

definition new_processing_context :: "string \<Rightarrow> string \<Rightarrow> processing_context" where
  "new_processing_context rid tenant =
     \<lparr>request_id = rid, tenant_id = tenant, context_id = None, original_request = None,
      text_nodes = None, classification_result = None, detections = None, token_mappings = None,
      transformed_request = None, provider_response = None, restored_response = None,
      provider = None, model = None, locale_header = None, locale_bundles = None,
      merged_recognizer_set = None, terminal_state = None, client_classification = None,
      classification_result_v2 = None, dlp_result_of = None, outbound_dlp_result = None,
      requires_approval = False, policy_decision_of = None, policy_enforcement = None,
      has_audit_chain = False, request_receipt_time = None, provider_dispatch_time = None,
      processing_overhead_ms = None, audit_metadata = [], errors = []\<rparr>"

text \<open>What the stages touch outside the context.\<close>

record world =
  mapping_store :: "((string \<times> string) \<times> (string, string) dict) list"
  posted :: "(string \<times> json) list list"
  decisions :: decision_cache
  audit_table :: audit_db

type_synonym gstate = "processing_context \<times> world"

record stage =
  stage_name :: string
  guaranteed :: bool
  execute :: "gstate \<Rightarrow> gstate \<times> raised option"

subsection \<open>PipelineManager\<close>

datatype invoked = Finished "pipe_exn option" | Escaped

definition invoke :: "stage \<Rightarrow> gstate \<Rightarrow> gstate \<times> invoked" where
  "invoke s st =
     (let prior_errors = length (errors (fst st)); ((c, w), r) = execute s st
      in case r of
           Some (Exc e) \<Rightarrow> ((fail_secure e c, w), Finished (Some e))
         | Some Cancelled \<Rightarrow> ((c, w), Escaped)
         | None \<Rightarrow>
             if length (errors c) > prior_errors then ((c, w), Finished (Some (last (errors c))))
             else ((c, w), Finished None))"

text \<open>State, surfaced errors, indices that rn, and whether a \<open>BaseException\<close> is pending.\<close>

fun main_loop ::
  "nat \<Rightarrow> stage list \<Rightarrow> gstate \<Rightarrow> nat list \<Rightarrow> gstate \<times> pipe_exn list option \<times> nat list \<times> bool" where
  "main_loop i [] st rn = (st, None, rn, False)"
| "main_loop i (s # ss) st rn =
     (if has_errors (fst st) then (st, Some (errors (fst st)), rn, False)
      else (case invoke s st of
              (st', Escaped) \<Rightarrow> (st', None, rn, True)
            | (st', Finished (Some e)) \<Rightarrow> (st', Some (errors (fst st')), rn @ [i], False)
            | (st', Finished None) \<Rightarrow> main_loop (Suc i) ss st' (rn @ [i])))"

text \<open>The loop of the \<open>finally\<close> block; the last component tells that a stage was cancelled in it.\<close>

fun final_loop ::
  "nat \<Rightarrow> stage list \<Rightarrow> gstate \<Rightarrow> pipe_exn list option \<Rightarrow> nat list \<Rightarrow> bool \<Rightarrow> nat list
     \<Rightarrow> gstate \<times> pipe_exn list option \<times> nat list \<times> bool" where
  "final_loop i [] st surfaced rn pending executed = (st, surfaced, executed, False)"
| "final_loop i (s # ss) st surfaced rn pending executed =
     (if List.member rn i \<or> \<not> guaranteed s then final_loop (Suc i) ss st surfaced rn pending executed
      else (case invoke s st of
              (st', Escaped) \<Rightarrow> (st', surfaced, executed @ [i], True)
            | (st', Finished e) \<Rightarrow>
                final_loop (Suc i) ss st'
                  (if e \<noteq> None \<and> surfaced = None \<and> \<not> pending then Some (errors (fst st')) else surfaced)
                  rn pending (executed @ [i])))"

text \<open>
  The result: the state, the indices of the stages that were executed, in order, and whether
  \<open>run\<close> itself raised. A cancelled stage is not added to \<open>ran\<close>, but it was executed.
\<close>

definition run_pipeline :: "stage list \<Rightarrow> gstate \<Rightarrow> gstate \<times> nat list \<times> bool" where
  "run_pipeline stages st =
     (let (st1, surfaced, rn, pending) = main_loop 0 stages st [];
          (st2, surfaced2, executed, esc) =
            final_loop 0 stages st1 surfaced rn pending (if pending then rn @ [length rn] else rn)
      in if esc then (st2, executed, True)
         else (case surfaced2 of
                 Some es \<Rightarrow>
                   if pending then (st2, executed, True)
                   else (((fst st2)\<lparr>errors := es\<rparr>, snd st2), executed, False)
               | None \<Rightarrow> (st2, executed, pending)))"

subsection \<open>Clean prefixes\<close>

text \<open>The state after some stages that all finished without an error.\<close>

fun clean_run :: "stage list \<Rightarrow> gstate \<Rightarrow> gstate option" where
  "clean_run [] st = Some st"
| "clean_run (s # ss) st =
     (if has_errors (fst st) then None
      else case invoke s st of (st', Finished None) \<Rightarrow> clean_run ss st' | _ \<Rightarrow> None)"

lemma clean_run_append:
  "clean_run (ss @ ts) st = (case clean_run ss st of None \<Rightarrow> None | Some st' \<Rightarrow> clean_run ts st')"
  by (induction ss arbitrary: st) (auto split: prod.splits invoked.splits option.splits)

subsection \<open>The main loop\<close>

lemma main_loop_prefix:
  assumes "main_loop i ss st rn = (st', surf, rn', pend)"
  obtains k where "k \<le> length ss" "rn' = rn @ [i ..< i + k]"
    "\<forall>j < k. clean_run (take j ss) st \<noteq> None"
    "pend \<Longrightarrow> k < length ss \<and> clean_run (take k ss) st \<noteq> None"
    "surf = None \<Longrightarrow> \<not> pend \<Longrightarrow> k = length ss \<and> clean_run ss st = Some st'"
    "surf \<noteq> None \<Longrightarrow> surf = Some (errors (fst st')) \<and> \<not> pend"
  using assms
proof (induction i ss st rn arbitrary: thesis rule: main_loop.induct)
  case (1 i st rn)
  then show ?case by simp
next
  case (2 i s ss st rn)
  show ?case
  proof (cases "has_errors (fst st)")
    case True
    with "2.prems"(2) show ?thesis by (intro "2.prems"(1) [of 0]) auto
  next
    case False
    obtain st1 r where inv: "invoke s st = (st1, r)" by (metis surj_pair)
    show ?thesis
    proof (cases r)
      case Escaped
      with "2.prems"(2) False inv show ?thesis by (intro "2.prems"(1) [of 0]) auto
    next
      case (Finished e)
      show ?thesis
      proof (cases e)
        case (Some x)
        with "2.prems"(2) False inv Finished show ?thesis by (intro "2.prems"(1) [of 1]) auto
      next
        case None
        with "2.prems"(2) False inv Finished have rest: "main_loop (Suc i) ss st1 (rn @ [i]) = (st', surf, rn', pend)"
          by simp
        obtain k where k: "k \<le> length ss" "rn' = (rn @ [i]) @ [Suc i ..< Suc i + k]"
          "\<forall>j < k. clean_run (take j ss) st1 \<noteq> None"
          "pend \<Longrightarrow> k < length ss \<and> clean_run (take k ss) st1 \<noteq> None"
          "surf = None \<Longrightarrow> \<not> pend \<Longrightarrow> k = length ss \<and> clean_run ss st1 = Some st'"
          "surf \<noteq> None \<Longrightarrow> surf = Some (errors (fst st')) \<and> \<not> pend"
          using "2.IH" [OF False inv [symmetric] Finished None _ rest] by blast
        have cr: "clean_run (take (Suc j) (s # ss)) st = clean_run (take j ss) st1" for j
          using False inv Finished None by simp
        show ?thesis
        proof (rule "2.prems"(1) [of "Suc k"])
          show "Suc k \<le> length (s # ss)" using k(1) by simp
          show "rn' = rn @ [i ..< i + Suc k]" using k(2) by (simp add: upt_rec [of i])
          show "\<forall>j < Suc k. clean_run (take j (s # ss)) st \<noteq> None"
          proof (intro allI impI)
            fix j assume "j < Suc k"
            with k(3) cr show "clean_run (take j (s # ss)) st \<noteq> None" by (cases j) auto
          qed
          show "Suc k < length (s # ss) \<and> clean_run (take (Suc k) (s # ss)) st \<noteq> None" if pend
            using k(4) [OF that] cr by simp
          show "Suc k = length (s # ss) \<and> clean_run (s # ss) st = Some st'" if "surf = None" "\<not> pend"
            using k(5) [OF that] False inv Finished None by simp
          show "surf = Some (errors (fst st')) \<and> \<not> pend" if "surf \<noteq> None" using k(6) [OF that] .
        qed
      qed
    qed
  qed
qed

lemma final_loop_guaranteed:
  assumes "final_loop i ss st surf rn pend ex = (st', surf', ex', esc)"
  shows "\<exists>more. ex' = ex @ more \<and> (\<forall>j \<in> set more. i \<le> j \<and> j < i + length ss \<and> guaranteed (ss ! (j - i)) \<and> j \<notin> set rn)
    \<and> (surf \<noteq> None \<longrightarrow> surf' = surf) \<and> (pend \<longrightarrow> surf' = surf)
    \<and> (\<not> esc \<longrightarrow> more = filter (\<lambda>j. guaranteed (ss ! (j - i)) \<and> j \<notin> set rn) [i ..< i + length ss])"
  using assms
proof (induction i ss st surf rn pend ex rule: final_loop.induct)
  case (1 i st surf rn pend ex)
  then show ?case by simp
next
  case (2 i s ss st surf rn pend ex)
  have up: "[i ..< i + length (s # ss)] = i # [Suc i ..< Suc i + length ss]"
    using upt_conv_Cons [of i "i + length (s # ss)"] by simp
  have shift: "filter (\<lambda>j. guaranteed ((s # ss) ! (j - i)) \<and> j \<notin> set rn) [Suc i ..< Suc i + length ss]
      = filter (\<lambda>j. guaranteed (ss ! (j - Suc i)) \<and> j \<notin> set rn) [Suc i ..< Suc i + length ss]"
    by (intro filter_cong) (auto simp: nth_Cons')
  have nth: "(s # ss) ! (j - i) = ss ! (j - Suc i)" if "Suc i \<le> j" for j
    using that by (simp add: nth_Cons')
  have tail: "\<forall>j \<in> set more. i \<le> j \<and> j < i + length (s # ss) \<and> guaranteed ((s # ss) ! (j - i)) \<and> j \<notin> set rn"
    if "\<forall>j \<in> set more. Suc i \<le> j \<and> j < Suc i + length ss \<and> guaranteed (ss ! (j - Suc i)) \<and> j \<notin> set rn" for more
    using that nth by auto
  show ?case
  proof (cases "List.member rn i \<or> \<not> guaranteed s")
    case True
    with "2.prems" have "final_loop (Suc i) ss st surf rn pend ex = (st', surf', ex', esc)" by simp
    from "2.IH"(1) [OF True this] obtain more where more: "ex' = ex @ more"
      "\<forall>j \<in> set more. Suc i \<le> j \<and> j < Suc i + length ss \<and> guaranteed (ss ! (j - Suc i)) \<and> j \<notin> set rn"
      "surf \<noteq> None \<longrightarrow> surf' = surf" "pend \<longrightarrow> surf' = surf"
      "\<not> esc \<longrightarrow> more = filter (\<lambda>j. guaranteed (ss ! (j - Suc i)) \<and> j \<notin> set rn) [Suc i ..< Suc i + length ss]" by blast
    show ?thesis
    proof (intro exI [of _ more] conjI impI)
      assume "\<not> esc"
      with more(5) True show "more = filter (\<lambda>j. guaranteed ((s # ss) ! (j - i)) \<and> j \<notin> set rn) [i ..< i + length (s # ss)]"
        unfolding up by (simp only: filter.simps shift) auto
    qed (use more tail [OF more(2)] in simp_all)
  next
    case False
    obtain st1 r where inv: "invoke s st = (st1, r)" by (metis surj_pair)
    show ?thesis
    proof (cases r)
      case Escaped
      with "2.prems" False inv show ?thesis by (intro exI [of _ "[i]"]) auto
    next
      case (Finished e)
      let ?sf = "if e \<noteq> None \<and> surf = None \<and> \<not> pend then Some (errors (fst st1)) else surf"
      from "2.prems" False inv Finished
      have rest: "final_loop (Suc i) ss st1 ?sf rn pend (ex @ [i]) = (st', surf', ex', esc)" by simp
      from "2.IH"(2) [OF False inv [symmetric] Finished rest] obtain more where more: "ex' = (ex @ [i]) @ more"
        "\<forall>j \<in> set more. Suc i \<le> j \<and> j < Suc i + length ss \<and> guaranteed (ss ! (j - Suc i)) \<and> j \<notin> set rn"
        "?sf \<noteq> None \<longrightarrow> surf' = ?sf" "pend \<longrightarrow> surf' = ?sf"
        "\<not> esc \<longrightarrow> more = filter (\<lambda>j. guaranteed (ss ! (j - Suc i)) \<and> j \<notin> set rn) [Suc i ..< Suc i + length ss]" by blast
      show ?thesis
      proof (intro exI [of _ "i # more"] conjI impI)
        assume "\<not> esc"
        with more(5) False show "i # more = filter (\<lambda>j. guaranteed ((s # ss) ! (j - i)) \<and> j \<notin> set rn) [i ..< i + length (s # ss)]"
          unfolding up by (simp only: filter.simps shift) auto
      next
        show "\<forall>j \<in> set (i # more). i \<le> j \<and> j < i + length (s # ss) \<and> guaranteed ((s # ss) ! (j - i)) \<and> j \<notin> set rn"
          using tail [OF more(2)] False by simp
      qed (use more in simp_all)
    qed
  qed
qed

subsection \<open>The contract of the stages\<close>

locale stage_family =
  fixes stages :: "stage list"
  assumes errors_grow: "s \<in> set stages \<Longrightarrow> \<exists>new. errors (fst (fst (execute s st))) = errors (fst st) @ new"
begin

lemma invoke_errors:
  assumes "s \<in> set stages" "invoke s st = (st', r)"
  shows "\<exists>new. errors (fst st') = errors (fst st) @ new
    \<and> (case r of Escaped \<Rightarrow> True | Finished None \<Rightarrow> new = [] | Finished (Some e) \<Rightarrow> new \<noteq> [] \<and> last new = e)"
proof -
  obtain c w r0 where ex: "execute s st = ((c, w), r0)" by (metis surj_pair)
  obtain new where new: "errors c = errors (fst st) @ new" using errors_grow [OF assms(1), of st] ex by auto
  show ?thesis
  proof (cases r0)
    case None
    with assms(2) ex new show ?thesis
      by (intro exI [of _ new]) (auto simp: invoke_def split: if_splits)
  next
    case (Some x)
    show ?thesis
    proof (cases x)
      case (Exc e)
      with assms(2) ex new Some show ?thesis
        by (intro exI [of _ "new @ [e]"]) (auto simp: invoke_def fail_secure_def)
    next
      case Cancelled
      with assms(2) ex new Some show ?thesis by (intro exI [of _ new]) (auto simp: invoke_def)
    qed
  qed
qed

lemma main_loop_errors:
  assumes "main_loop i ss st rn = (st', surf, rn', pend)" "set ss \<subseteq> set stages"
  shows "(\<exists>new. errors (fst st') = errors (fst st) @ new)
    \<and> (surf \<noteq> None \<longrightarrow> errors (fst st') \<noteq> [])
    \<and> (surf = None \<longrightarrow> \<not> pend \<longrightarrow> errors (fst st') = errors (fst st))"
  using assms
proof (induction i ss st rn rule: main_loop.induct)
  case (1 i st rn)
  then show ?case by simp
next
  case (2 i s ss st rn)
  show ?case
  proof (cases "has_errors (fst st)")
    case True
    with "2.prems"(1) show ?thesis by (auto simp: has_errors_def)
  next
    case False
    obtain st1 r where inv: "invoke s st = (st1, r)" by (metis surj_pair)
    have "s \<in> set stages" using "2.prems"(2) by simp
    from invoke_errors [OF this inv] obtain new where new: "errors (fst st1) = errors (fst st) @ new"
      "case r of Escaped \<Rightarrow> True | Finished None \<Rightarrow> new = [] | Finished (Some e) \<Rightarrow> new \<noteq> [] \<and> last new = e" by blast
    show ?thesis
    proof (cases r)
      case Escaped
      with "2.prems"(1) False inv new show ?thesis by auto
    next
      case (Finished e)
      show ?thesis
      proof (cases e)
        case (Some x)
        with "2.prems"(1) False inv Finished new show ?thesis by auto
      next
        case None
        with "2.prems"(1) False inv Finished have "main_loop (Suc i) ss st1 (rn @ [i]) = (st', surf, rn', pend)" by simp
        from "2.IH" [OF False inv [symmetric] Finished None this] "2.prems"(2) new None Finished
        show ?thesis by auto
      qed
    qed
  qed
qed

lemma final_loop_errors:
  assumes "final_loop i ss st surf rn pend ex = (st', surf', ex', esc)" "set ss \<subseteq> set stages"
    and "surf \<noteq> None \<longrightarrow> the surf \<noteq> []"
  shows "surf' \<noteq> None \<longrightarrow> the surf' \<noteq> []" and "surf = None \<and> \<not> pend \<and> surf' = None \<and> \<not> esc \<longrightarrow> errors (fst st') = errors (fst st)"
  using assms
proof (induction i ss st surf rn pend ex rule: final_loop.induct)
  case (1 i st surf rn pend ex)
  {
    case 1
    then show ?case by simp
  next
    case 2
    then show ?case by simp
  }
next
  case (2 i s ss st surf rn pend ex)
  obtain st1 r where inv: "invoke s st = (st1, r)" by (metis surj_pair)
  {
    case 1
    show ?case
    proof (cases "List.member rn i \<or> \<not> guaranteed s")
      case True
      then show ?thesis using "2.IH"(1) 1 by simp
    next
      case False
      show ?thesis
      proof (cases r)
        case Escaped
        then show ?thesis using 1 False inv by simp
      next
        case (Finished e)
        have "s \<in> set stages" using 1 by simp
        from invoke_errors [OF this inv] obtain new where "errors (fst st1) = errors (fst st) @ new"
          "case r of Escaped \<Rightarrow> True | Finished None \<Rightarrow> new = [] | Finished (Some e) \<Rightarrow> new \<noteq> [] \<and> last new = e" by blast
        then have ne: "e \<noteq> None \<longrightarrow> errors (fst st1) \<noteq> []" using Finished by auto
        show ?thesis
          using "2.IH"(3) [OF False inv [symmetric] Finished] 1 False inv Finished ne by (auto split: if_splits)
      qed
    qed
  next
    case 2
    show ?case
    proof (cases "List.member rn i \<or> \<not> guaranteed s")
      case True
      then show ?thesis using "2.IH"(2) 2 by simp
    next
      case False
      show ?thesis
      proof (cases r)
        case Escaped
        then show ?thesis using 2 False inv by simp
      next
        case (Finished e)
        have "s \<in> set stages" using 2 by simp
        from invoke_errors [OF this inv] obtain new where new: "errors (fst st1) = errors (fst st) @ new"
          "case r of Escaped \<Rightarrow> True | Finished None \<Rightarrow> new = [] | Finished (Some e) \<Rightarrow> new \<noteq> [] \<and> last new = e" by blast
        let ?sf = "if e \<noteq> None \<and> surf = None \<and> \<not> pend then Some (errors (fst st1)) else surf"
        have rest: "final_loop (Suc i) ss st1 ?sf rn pend (ex @ [i]) = (st', surf', ex', esc)"
          using 2(1) False inv Finished by simp
        have ne: "?sf \<noteq> None \<longrightarrow> the ?sf \<noteq> []" using 2(3) new Finished by (auto split: if_splits)
        note IH = "2.IH"(4) [OF False inv [symmetric] Finished rest _ ne]
        show ?thesis
        proof
          assume a: "surf = None \<and> \<not> pend \<and> surf' = None \<and> \<not> esc"
          have "e = None"
          proof (rule ccontr)
            assume "e \<noteq> None"
            with a have "?sf \<noteq> None" by simp
            with final_loop_guaranteed [OF rest] a \<open>e \<noteq> None\<close> show False by auto
          qed
          with IH a 2(2) new Finished show "errors (fst st') = errors (fst st)" by auto
        qed
      qed
    qed
  }
qed

text \<open>
  The outcome of a run from a context without errors: a prefix of the stages ran without an error
  up to its last stage, then exactly the guaranteed stages after it; if not all stages ran in the
  main loop, the context carries an error.
\<close>

lemma run_outcome:
  assumes run: "run_pipeline stages st = (st', executed, False)"
  obtains k where "k \<le> length stages"
    "executed = [0 ..< k] @ filter (\<lambda>j. guaranteed (stages ! j)) [k ..< length stages]"
    "\<forall>j < k. clean_run (take j stages) st \<noteq> None"
    "errors (fst st') = [] \<Longrightarrow> k = length stages \<and> clean_run stages st = Some st'"
proof -
  obtain st1 surf rn pend where m: "main_loop 0 stages st [] = (st1, surf, rn, pend)" by (metis prod_cases4)
  obtain st2 surf2 ex esc where f: "final_loop 0 stages st1 surf rn pend (if pend then rn @ [length rn] else rn)
      = (st2, surf2, ex, esc)" by (metis prod_cases4)
  from run m f have ne: "\<not> esc" "\<not> pend" and ex: "executed = ex"
    and fin: "st' = (case surf2 of None \<Rightarrow> st2 | Some es \<Rightarrow> ((fst st2)\<lparr>errors := es\<rparr>, snd st2))"
    by (auto simp: run_pipeline_def Let_def split: if_splits option.splits)
  obtain k where k: "k \<le> length stages" "rn = [0 ..< k]" "\<forall>j < k. clean_run (take j stages) st \<noteq> None"
    "surf = None \<Longrightarrow> k = length stages \<and> clean_run stages st = Some st1"
    "surf \<noteq> None \<Longrightarrow> surf = Some (errors (fst st1))"
    using main_loop_prefix [OF m] ne(2) by (metis append_Nil add_0)
  obtain more where more: "ex = rn @ more" "surf \<noteq> None \<longrightarrow> surf2 = surf"
    "more = filter (\<lambda>j. guaranteed (stages ! j) \<and> j \<notin> set rn) [0 ..< length stages]"
    using final_loop_guaranteed [OF f] ne by auto
  have "[0 ..< length stages] = [0 ..< k] @ [k ..< length stages]"
    using k(1) upt_add_eq_append [of 0 k "length stages - k"] by simp
  then have "more = filter (\<lambda>j. guaranteed (stages ! j)) [k ..< length stages]"
    unfolding more(3) k(2) by (auto intro!: filter_cong simp: filter_empty_conv)
  moreover have "k = length stages \<and> clean_run stages st = Some st'" if e: "errors (fst st') = []"
  proof -
    have m1: "surf \<noteq> None \<longrightarrow> the surf \<noteq> []" using main_loop_errors [OF m] k(5) by auto
    have "surf2 = None" using fin e final_loop_errors(1) [OF f _ m1] by (auto split: option.splits)
    with more(2) have s: "surf = None" by auto
    with k have kl: "k = length stages" "clean_run stages st = Some st1" by auto
    have "more = []" using more(3) k(2) kl(1) by (simp add: filter_empty_conv)
    moreover have "st2 = st1"
    proof -
      have "final_loop i ss s0 sf (rn :: nat list) pd e0 = (s0, sf, e0, False)"
        if "\<forall>j. i \<le> j \<and> j < i + length ss \<longrightarrow> j \<in> set rn" for i ss s0 sf pd e0
        using that
      proof (induction ss arbitrary: i)
        case (Cons s ss)
        then have "i \<in> set rn" "\<forall>j. Suc i \<le> j \<and> j < Suc i + length ss \<longrightarrow> j \<in> set rn" by auto
        with Cons.IH show ?case by simp
      qed simp
      from this [of 0 stages] f k(2) kl(1) show ?thesis by auto
    qed
    ultimately show ?thesis using kl fin \<open>surf2 = None\<close> by simp
  qed
  ultimately show thesis using that [of k] k(1-3) ex more(1) by simp
qed

end

text \<open>Exactly one stage, not guaranteed, posts requests.\<close>

locale posting_family = stage_family +
  fixes idx :: nat
  assumes idx_in: "idx < length stages"
    and idx_plain: "\<not> guaranteed (stages ! idx)"
    and others_silent: "i < length stages \<Longrightarrow> i \<noteq> idx \<Longrightarrow>
      posted (snd (fst (execute (stages ! i) st))) = posted (snd st)"
begin

lemma invoke_posted: "posted (snd (fst (invoke s st))) = posted (snd (fst (execute s st)))"
  by (auto simp: invoke_def Let_def split: prod.splits option.splits raised.splits)

lemma main_loop_posted:
  assumes "main_loop i ss st rn = (st', surf, rn', pend)" "ss = drop i stages"
  shows "posted (snd st') = posted (snd st)
    \<or> (i \<le> idx \<and> (\<exists>sj. clean_run (take (idx - i) ss) st = Some sj
         \<and> posted (snd st') = posted (snd (fst (execute (stages ! idx) sj)))))"
  using assms
proof (induction i ss st rn rule: main_loop.induct)
  case (1 i st rn)
  then show ?case by simp
next
  case (2 i s ss st rn)
  have il: "i < length stages" using "2.prems"(2) by (metis drop_all linorder_not_less list.distinct(1))
  have s: "s = stages ! i" and ss: "ss = drop (Suc i) stages"
    using "2.prems"(2) Cons_nth_drop_Suc [OF il] by (metis list.inject)+
  show ?case
  proof (cases "has_errors (fst st)")
    case True
    with "2.prems"(1) show ?thesis by auto
  next
    case False
    obtain st1 r where inv: "invoke s st = (st1, r)" by (metis surj_pair)
    have p1: "posted (snd st1) = posted (snd (fst (execute s st)))" using invoke_posted [of s st] inv by simp
    have same: "posted (snd st1) = posted (snd st)" if "i \<noteq> idx" using others_silent [OF il that] p1 s by simp
    have self: "clean_run (take (idx - i) (s # ss)) st = Some st" if "i = idx" using that by simp
    show ?thesis
    proof (cases "r = Finished None")
      case True
      with "2.prems"(1) False inv have rest: "main_loop (Suc i) ss st1 (rn @ [i]) = (st', surf, rn', pend)" by simp
      from "2.IH" [OF False inv [symmetric] True refl rest ss]
      consider "posted (snd st') = posted (snd st1)"
        | sj where "Suc i \<le> idx" "clean_run (take (idx - Suc i) ss) st1 = Some sj"
          "posted (snd st') = posted (snd (fst (execute (stages ! idx) sj)))" by blast
      then show ?thesis
      proof cases
        case 1
        with p1 same self s show ?thesis by (cases "i = idx") auto
      next
        case 2
        then have "clean_run (take (idx - i) (s # ss)) st = Some sj"
        proof -
          have "idx - i = Suc (idx - Suc i)" using 2(1) by simp
          with 2(2) False inv True show ?thesis by simp
        qed
        with 2 show ?thesis by auto
      qed
    next
      case other: False
      with "2.prems"(1) False inv have "st' = st1" by (cases r) (auto split: option.splits)
      with p1 same self s show ?thesis by (cases "i = idx") auto
    qed
  qed
qed

lemma final_loop_posted:
  assumes "final_loop i ss st surf rn pend ex = (st', surf', ex', esc)" "ss = drop i stages"
  shows "posted (snd st') = posted (snd st)"
  using assms
proof (induction i ss st surf rn pend ex rule: final_loop.induct)
  case (1 i st surf rn pend ex)
  then show ?case by simp
next
  case (2 i s ss st surf rn pend ex)
  have il: "i < length stages" using "2.prems"(2) by (metis drop_all linorder_not_less list.distinct(1))
  have s: "s = stages ! i" and ss: "ss = drop (Suc i) stages"
    using "2.prems"(2) Cons_nth_drop_Suc [OF il] by (metis list.inject)+
  show ?case
  proof (cases "List.member rn i \<or> \<not> guaranteed s")
    case True
    with "2.prems"(1) have "final_loop (Suc i) ss st surf rn pend ex = (st', surf', ex', esc)" by simp
    from "2.IH"(1) [OF True this ss] show ?thesis .
  next
    case False
    obtain st1 r where inv: "invoke s st = (st1, r)" by (metis surj_pair)
    have "i \<noteq> idx" using False s idx_plain by auto
    then have p1: "posted (snd st1) = posted (snd st)"
      using invoke_posted [of s st] inv others_silent [OF il] s by simp
    show ?thesis
    proof (cases r)
      case Escaped
      with "2.prems"(1) False inv p1 show ?thesis by simp
    next
      case (Finished e)
      let ?sf = "if e \<noteq> None \<and> surf = None \<and> \<not> pend then Some (errors (fst st1)) else surf"
      from "2.prems"(1) False inv Finished
      have rest: "final_loop (Suc i) ss st1 ?sf rn pend (ex @ [i]) = (st', surf', ex', esc)" by simp
      from "2.IH"(2) [OF False inv [symmetric] Finished rest ss] p1 show ?thesis by simp
    qed
  qed
qed

lemma run_posted:
  assumes "run_pipeline stages st = (st', executed, r)"
  shows "posted (snd st') = posted (snd st)
    \<or> (\<exists>sj. clean_run (take idx stages) st = Some sj
         \<and> posted (snd st') = posted (snd (fst (execute (stages ! idx) sj))))"
proof -
  obtain st1 surf rn pend where m: "main_loop 0 stages st [] = (st1, surf, rn, pend)" by (metis prod_cases4)
  obtain st2 surf2 ex esc where f: "final_loop 0 stages st1 surf rn pend (if pend then rn @ [length rn] else rn)
      = (st2, surf2, ex, esc)" by (metis prod_cases4)
  have "posted (snd st') = posted (snd st2)"
    using assms m f by (auto simp: run_pipeline_def Let_def split: if_splits option.splits)
  also have "\<dots> = posted (snd st1)" using final_loop_posted [OF f] by simp
  finally show ?thesis using main_loop_posted [OF m] by simp
qed

lemma main_loop_reaches:
  assumes "clean_run (take k ss) st = Some sj" "k < length ss"
  shows "\<exists>rn'. main_loop i ss st rn = main_loop (i + k) (drop k ss) sj rn'"
  using assms
proof (induction k arbitrary: i ss st rn)
  case (Suc k)
  obtain s ss' where ss: "ss = s # ss'" using Suc.prems(2) by (cases ss) auto
  obtain st1 r where inv: "invoke s st = (st1, r)" by (metis surj_pair)
  have ne: "\<not> has_errors (fst st)" "r = Finished None" "clean_run (take k ss') st1 = Some sj"
    using Suc.prems(1) inv by (auto simp: ss split: if_splits invoked.splits option.splits)
  then show ?case
    using Suc.IH [OF ne(3), of "Suc i" "rn @ [i]"] Suc.prems(2) inv by (simp add: ss)
qed auto

lemma run_reaches:
  assumes "clean_run (take idx stages) st = Some sj" "\<not> has_errors (fst sj)"
  shows "posted (snd (fst (run_pipeline stages st))) = posted (snd (fst (execute (stages ! idx) sj)))"
proof -
  obtain st1 surf rn pend where m: "main_loop 0 stages st [] = (st1, surf, rn, pend)" by (metis prod_cases4)
  obtain st2 surf2 ex esc where f: "final_loop 0 stages st1 surf rn pend (if pend then rn @ [length rn] else rn)
      = (st2, surf2, ex, esc)" by (metis prod_cases4)
  have "posted (snd (fst (run_pipeline stages st))) = posted (snd st2)"
    using m f by (auto simp: run_pipeline_def Let_def split: option.splits)
  also have "\<dots> = posted (snd st1)" using final_loop_posted [OF f] by simp
  also have "\<dots> = posted (snd (fst (execute (stages ! idx) sj)))"
  proof -
    obtain rn' where rn': "main_loop idx (drop idx stages) sj rn' = (st1, surf, rn, pend)"
      using main_loop_reaches [OF assms(1) idx_in, of 0 "[]"] m by auto
    have d: "drop idx stages = stages ! idx # drop (Suc idx) stages" using idx_in by (simp add: Cons_nth_drop_Suc)
    obtain st' r where inv: "invoke (stages ! idx) sj = (st', r)" by (metis surj_pair)
    have p: "posted (snd st') = posted (snd (fst (execute (stages ! idx) sj)))" using invoke_posted inv by (metis fst_conv)
    show ?thesis
    proof (cases "r = Finished None")
      case True
      then have "main_loop (Suc idx) (drop (Suc idx) stages) st' (rn' @ [idx]) = (st1, surf, rn, pend)"
        using rn' assms(2) inv unfolding d by simp
      from main_loop_posted [OF this refl] p show ?thesis by simp
    next
      case False
      then have "st1 = st'" using rn' assms(2) inv unfolding d by (cases r) (auto split: option.splits)
      with p show ?thesis by simp
    qed
  qed
  finally show ?thesis .
qed

end

end
