(* ===== verification/DetectStage.thy ===== *)
theory DetectStage
  imports Pipeline
begin

text \<open>
  The detection stage as a whole: context boosting (\<open>detection/boost.py\<close> and
  \<open>boost_detections\<close> of \<open>detection/pipeline.py\<close>), the compilation of bundle patterns
  (\<open>patterns_from_entity_configs\<close>), the calls to the analyzer per language, the recognizers per
  node, and \<open>DetectionStage.execute\<close> of \<open>pipeline/detection.py\<close> with its exception branches.
  Recognizers, the analyzer and \<open>re.compile\<close> are functions of the record \<open>detect_services\<close>.
\<close>

subsection \<open>Context boosting\<close>

record booster =
  high_risk_words :: "string list"
  boost_amount :: rat
  proximity :: int
  financial_entity_types :: "string list"

definition find_high_risk_word_positions :: "string \<Rightarrow> string list \<Rightarrow> (int \<times> int) list" where
  "find_high_risk_word_positions s words =
     concat (map (\<lambda>w. map (\<lambda>(a, b, m, g). (int a, int b)) (re_finditer (lit_ci w) s)) words)"

fun is_within_proximity :: "int \<Rightarrow> int \<Rightarrow> (int \<times> int) list \<Rightarrow> int \<Rightarrow> bool" where
  "is_within_proximity es ee [] prox = False"
| "is_within_proximity es ee ((ws, we) # rest) prox =
     (if we \<le> es then (if es - we \<le> prox then True else is_within_proximity es ee rest prox)
      else if ws \<ge> ee then (if ws - ee \<le> prox then True else is_within_proximity es ee rest prox)
      else True)"

definition apply_boost :: "booster \<Rightarrow> span \<Rightarrow> (int \<times> int) list \<Rightarrow> span" where
  "apply_boost bo d word_positions =
     (if \<not> List.member (financial_entity_types bo) (entity_type d) then d
      else if \<not> is_within_proximity (s_start d) (s_end d) word_positions (proximity bo) then d
      else d\<lparr>score := min (score d + boost_amount bo) 1\<rparr>)"

definition boost_detections :: "booster \<Rightarrow> span list \<Rightarrow> string \<Rightarrow> span list" where
  "boost_detections bo ds s =
     (let word_positions = find_high_risk_word_positions s (high_risk_words bo)
      in if word_positions = [] then ds
         else map (\<lambda>d. apply_boost bo (d\<lparr>source := Some (case source d of None \<Rightarrow> ''regex'' | Some x \<Rightarrow> x)\<rparr>)
                         word_positions) ds)"

subsection \<open>Services\<close>

datatype detect_exn = DetAbort pipe_exn | DetUnsupported string | DetEnterprise string | DetFailed

record detect_services =
  ds_regex :: "(string, finditer) dict"
  ds_compile :: "string \<Rightarrow> finditer option"
  ds_custom :: "(string, finditer) dict"
  ds_presidio :: "text_node list \<Rightarrow> string \<Rightarrow> string list option \<Rightarrow> rat \<Rightarrow> detect_exn + span list list"
  ds_exclusions :: exclusion_list
  ds_checksums :: checksum_registry
  ds_mnpi :: "(string \<Rightarrow> span list py_result) list"
  ds_enterprise :: "(string \<times> (string \<Rightarrow> string + span list)) list"
  ds_languages :: "string list"
  ds_booster :: "booster py_result"

fun join_with :: "string \<Rightarrow> string list \<Rightarrow> string" where
  "join_with sep [] = []"
| "join_with sep [s] = s"
| "join_with sep (s # t # ss) = s @ sep @ join_with sep (t # ss)"

text \<open>None: \<open>re.compile\<close> raised.\<close>

fun patterns_from_entity_configs ::
  "(string \<Rightarrow> finditer option) \<Rightarrow> entity_config list \<Rightarrow> (string, finditer) dict \<Rightarrow> (string, finditer) dict option" where
  "patterns_from_entity_configs compile_re [] compiled = Some compiled"
| "patterns_from_entity_configs compile_re (c # cs) compiled =
     (if ec_tier c \<noteq> REGEX \<and> ec_tier c \<noteq> BOTH then patterns_from_entity_configs compile_re cs compiled
      else if ec_patterns c = [] then patterns_from_entity_configs compile_re cs compiled
      else case compile_re (join_with ''|'' (map (\<lambda>p. ''(?:'' @ p @ '')'') (ec_patterns c))) of
             None \<Rightarrow> None
           | Some f \<Rightarrow> patterns_from_entity_configs compile_re cs (AList.update (ec_name c) f compiled))"

definition extend_batch :: "span list list \<Rightarrow> span list list \<Rightarrow> span list list" where
  "extend_batch acc batch =
     map (\<lambda>(i, l). l @ (if i < length batch then batch ! i else [])) (enumerate 0 acc)"

fun presidio_batches ::
  "detect_services \<Rightarrow> text_node list \<Rightarrow> string list option \<Rightarrow> rat \<Rightarrow> string list \<Rightarrow> span list list
     \<Rightarrow> detect_exn + span list list" where
  "presidio_batches sv nodes ents thr [] acc = Inr acc"
| "presidio_batches sv nodes ents thr (l # ls) acc =
     bind_result (ds_presidio sv nodes l ents thr)
       (\<lambda>batch. presidio_batches sv nodes ents thr ls (extend_batch acc batch))"

fun run_mnpi :: "(string \<Rightarrow> span list py_result) list \<Rightarrow> string \<Rightarrow> detect_exn + span list" where
  "run_mnpi [] v = Inr []"
| "run_mnpi (r # rs) v =
     (case r v of Inl _ \<Rightarrow> Inl DetFailed | Inr ds \<Rightarrow> bind_result (run_mnpi rs v) (\<lambda>rest. Inr (ds @ rest)))"

text \<open>A recognizer that raises yields the name of the exception type.\<close>

fun run_enterprise :: "(string \<times> (string \<Rightarrow> string + span list)) list \<Rightarrow> string \<Rightarrow> detect_exn + span list" where
  "run_enterprise [] v = Inr []"
| "run_enterprise ((name, r) # rs) v =
     (case r v of
        Inl error_type \<Rightarrow> Inl (DetEnterprise error_type)
      | Inr ds \<Rightarrow> bind_result (run_enterprise rs v) (\<lambda>rest. Inr (ds @ rest)))"

fun lift_py :: "'a py_result \<Rightarrow> detect_exn + 'a" where
  "lift_py (Inl e) = Inl DetFailed"
| "lift_py (Inr x) = Inr x"

subsection \<open>The nodes\<close>

definition detect_one ::
  "detect_services \<Rightarrow> string list \<Rightarrow> (string, finditer) dict \<Rightarrow> nat \<Rightarrow> string \<Rightarrow> span list
     \<Rightarrow> detect_exn + span list" where
  "detect_one sv names patterns i v ner =
     bind_result (lift_py (trim_person_spans ner v)) (\<lambda>_.
       bind_result (run_mnpi (ds_mnpi sv) v) (\<lambda>mnpi.
         bind_result (run_enterprise (ds_enterprise sv) v) (\<lambda>ent.
           lift_py (detect_node names (ds_exclusions sv) (ds_checksums sv) i v
                      (regex_detect (ds_regex sv) v (Some patterns)) ner mnpi ent))))"

fun detect_nodes ::
  "detect_services \<Rightarrow> string list \<Rightarrow> (string, finditer) dict \<Rightarrow> nat \<Rightarrow> text_node list \<Rightarrow> span list list
     \<Rightarrow> detect_exn + span list" where
  "detect_nodes sv names patterns i [] ners = Inr []"
| "detect_nodes sv names patterns i (n # ns) ners =
     bind_result (detect_one sv names patterns i (node_text n) (if ners = [] then [] else hd ners))
       (\<lambda>ds. bind_result (detect_nodes sv names patterns (Suc i) ns (tl ners)) (\<lambda>rest. Inr (ds @ rest)))"

fun boost_nodes :: "detect_services \<Rightarrow> nat \<Rightarrow> text_node list \<Rightarrow> span list \<Rightarrow> span list py_result" where
  "boost_nodes sv i [] ds = Inr []"
| "boost_nodes sv i (n # ns) ds =
     (let node_detections = filter (\<lambda>d. node_index d = i) ds
      in if node_detections = [] then boost_nodes sv (Suc i) ns ds
         else bind_result (ds_booster sv)
                (\<lambda>bo. bind_result (boost_nodes sv (Suc i) ns ds)
                        (\<lambda>rest. Inr (boost_detections bo node_detections (node_text n) @ rest))))"

subsection \<open>The stage\<close>

definition min_threshold :: "entity_config list \<Rightarrow> rat" where
  "min_threshold cs =
     (case map confidence_threshold cs of [] \<Rightarrow> 7 / 10 | t # ts \<Rightarrow> foldl min t ts)"

definition ner_entities :: "entity_config list \<Rightarrow> string list option" where
  "ner_entities cs =
     (let es = sort (remdups (concat (map presidio_entities (filter (\<lambda>c. ec_tier c = NER \<or> ec_tier c = BOTH) cs))))
      in if es = [] then None else Some es)"

definition irreversible_names :: "entity_config list \<Rightarrow> string list" where
  "irreversible_names cs = map ec_name (filter (\<lambda>c. \<not> ec_reversible c) cs) @ irreversible_entity_types"

definition detect_all :: "detect_services \<Rightarrow> processing_context \<Rightarrow> text_node list \<Rightarrow> detect_exn + span list" where
  "detect_all sv c nodes =
     (let cs = (case merged_recognizer_set c of None \<Rightarrow> [] | Some m \<Rightarrow> map snd (entity_configs m))
      in case patterns_from_entity_configs (ds_compile sv) cs [] of
           None \<Rightarrow> Inl DetFailed
         | Some compiled \<Rightarrow>
             (let patterns = (if ds_custom sv \<noteq> [] then dict_update compiled (ds_custom sv) else compiled);
                  plan = plan_presidio_languages
                           (case locale_bundles c of None \<Rightarrow> [] | Some bs \<Rightarrow> map code bs) (ds_languages sv)
              in bind_result
                   (presidio_batches sv nodes (ner_entities cs) (min_threshold cs) (languages plan)
                      (replicate (length nodes) []))
                   (\<lambda>ners. detect_nodes sv (irreversible_names cs) patterns 0 nodes ners)))"

definition detection_execute :: "detect_services \<Rightarrow> gstate \<Rightarrow> gstate \<times> raised option" where
  "detection_execute sv st =
     (let (c, w) = st
      in if (case classification_result c of None \<Rightarrow> False | Some r \<Rightarrow> co_action r = ''BLOCK'') then ((c, w), None)
         else
           (let c = (if text_nodes c = None
                     then c\<lparr>text_nodes := Some (extract_text (case original_request c of None \<Rightarrow> [] | Some b \<Rightarrow> b))\<rparr>
                     else c);
                nodes = (case text_nodes c of None \<Rightarrow> [] | Some ns \<Rightarrow> ns)
            in if nodes = [] then ((c\<lparr>detections := Some []\<rparr>, w), None)
               else (case detect_all sv c nodes of
                       Inl (DetAbort e) \<Rightarrow> ((c, w), Some (Exc e))
                     | Inl (DetUnsupported l) \<Rightarrow> ((fail_secure (PresidioLanguageUnsupportedError l) c, w), None)
                     | Inl (DetEnterprise t) \<Rightarrow>
                         ((fail_secure (PipelineAbortError 500 (''Detection stage failed: '' @ t)) c, w), None)
                     | Inl DetFailed \<Rightarrow>
                         ((fail_secure (PipelineAbortError 500 ''Detection stage failed'') c, w), None)
                     | Inr ds \<Rightarrow>
                         (let c = c\<lparr>detections := Some ds\<rparr>
                          in if ds = [] then ((c, w), None)
                             else (case boost_nodes sv 0 nodes ds of
                                     Inl _ \<Rightarrow> ((fail_secure (PipelineAbortError 500 ''Detection stage failed'') c, w), None)
                                   | Inr bs \<Rightarrow> ((c\<lparr>detections := Some bs\<rparr>, w), None))))))"

subsection \<open>Boosting changes scores and sources only\<close>

definition same_place :: "span \<Rightarrow> span \<Rightarrow> bool" where
  "same_place d e \<longleftrightarrow> s_start d = s_start e \<and> s_end d = s_end e \<and> entity_type d = entity_type e
     \<and> reversible d = reversible e \<and> node_index d = node_index e"

lemma same_place_refl [simp]: "same_place d d"
  by (simp add: same_place_def)

lemma apply_boost_place: "same_place (apply_boost bo d ps) d"
  by (simp add: apply_boost_def same_place_def)

lemma apply_boost_cap: "score d \<le> 1 \<Longrightarrow> score (apply_boost bo d ps) \<le> 1"
  by (simp add: apply_boost_def)

lemma boost_detections_place: "list_all2 same_place (boost_detections bo ds s) ds"
proof -
  have "same_place (apply_boost bo (d\<lparr>source := x\<rparr>) ps) d" for d x ps
    using apply_boost_place [of bo "d\<lparr>source := x\<rparr>" ps] by (simp add: same_place_def)
  then show ?thesis
    by (auto simp: boost_detections_def Let_def list_all2_conv_all_nth)
qed

lemma list_all2_left: "list_all2 P xs ys \<Longrightarrow> \<forall>x \<in> set xs. \<exists>y \<in> set ys. P x y"
  by (induction rule: list_all2_induct) auto

lemma list_all2_right: "list_all2 P xs ys \<Longrightarrow> \<forall>y \<in> set ys. \<exists>x \<in> set xs. P x y"
  by (induction rule: list_all2_induct) auto

lemma boost_nodes_place:
  "boost_nodes sv i ns ds = Inr bs \<Longrightarrow> \<forall>b \<in> set bs. \<exists>d \<in> set ds. same_place b d"
proof (induction sv i ns ds arbitrary: bs rule: boost_nodes.induct)
  case (1 sv i ds)
  then show ?case by simp
next
  case (2 sv i n ns ds)
  let ?nd = "filter (\<lambda>d. node_index d = i) ds"
  show ?case
  proof (cases "?nd = []")
    case True
    with 2 show ?thesis by simp
  next
    case False
    with "2.prems" obtain bo rest where b: "ds_booster sv = Inr bo" "boost_nodes sv (Suc i) ns ds = Inr rest"
      "bs = boost_detections bo ?nd (node_text n) @ rest"
      by (auto simp: Let_def bind_result_Inr)
    have "\<forall>x \<in> set (boost_detections bo ?nd (node_text n)). \<exists>d \<in> set ?nd. same_place x d"
      by (rule list_all2_left [OF boost_detections_place])
    moreover have "\<forall>x \<in> set rest. \<exists>d \<in> set ds. same_place x d" using "2.IH"(2) [OF refl False b(2)] .
    ultimately show ?thesis unfolding b(3) by auto
  qed
qed

lemma boost_nodes_keeps:
  "boost_nodes sv i ns ds = Inr bs \<Longrightarrow> d \<in> set ds \<Longrightarrow> i \<le> node_index d \<Longrightarrow> node_index d < i + length ns \<Longrightarrow>
     \<exists>b \<in> set bs. same_place b d"
proof (induction sv i ns ds arbitrary: bs rule: boost_nodes.induct)
  case (1 sv i ds)
  then show ?case by simp
next
  case (2 sv i n ns ds)
  let ?nd = "filter (\<lambda>d. node_index d = i) ds"
  show ?case
  proof (cases "?nd = []")
    case True
    then have "node_index d \<noteq> i" using "2.prems"(2) by (auto simp: filter_empty_conv)
    with True 2 show ?thesis by simp
  next
    case False
    with "2.prems" obtain bo rest where b: "ds_booster sv = Inr bo" "boost_nodes sv (Suc i) ns ds = Inr rest"
      "bs = boost_detections bo ?nd (node_text n) @ rest"
      by (auto simp: Let_def bind_result_Inr)
    show ?thesis
    proof (cases "node_index d = i")
      case True
      then have "d \<in> set ?nd" using "2.prems"(2) by simp
      then show ?thesis
        using list_all2_right [OF boost_detections_place [of bo ?nd "node_text n"]] unfolding b(3) by fastforce
    next
      case other: False
      with "2.IH"(2) [OF refl False b(2) "2.prems"(2)] "2.prems"(3,4) show ?thesis unfolding b(3) by auto
    qed
  qed
qed

end
