(* ===== verification/Stages.thy ===== *)
theory Stages
  imports DetectStage
begin

text \<open>
  The stages of the gateway other than detection (\<open>pipeline/*.py\<close>), the audit write they end with
  (\<open>pipeline/audit_emit.py\<close>) and the two pipelines \<open>routing/chat.py\<close> builds from them. What the
  stages call outside the repository is in the record \<open>gateway\<close>: the provider's answer to a posted
  body, the outcome of the store's writes and deletes, random numbers, clocks, \<open>json.dumps\<close>. The
  record \<open>app_state\<close> holds what a stage looks up there: policy, DLP engine, tool evaluator.
\<close>

subsection \<open>Environment\<close>

record policy_env =
  pe_services :: pdp_services
  pe_get :: rat
  pe_set :: rat
  pe_now :: rat
  pe_decision_id :: string
  pe_stamp :: string

record app_state =
  as_policy :: "policy_env option"
  as_dlp :: "dlp_engine option"
  as_tools :: "tool_evaluator option"

datatype http_outcome =
    HttpTimeout
  | HttpConnectError
  | HttpRequestError string
  | HttpCancelled
  | HttpResponse nat bool "json option"

text \<open>
  How one attempt to write an audit event ends. A write that times out may have stored its row; so may one
  whose task is cancelled, which can also happen in the pause after a failed attempt.
\<close>

datatype log_outcome = Logged | LogFailed | LogTimedOut | LogCancelled bool

record gateway =
  gw_engine :: class_engine
  gw_registry :: locale_registry
  gw_universal :: string
  gw_universal_bundle :: locale_bundle
  gw_detect :: detect_services
  gw_entity_map :: entity_map
  gw_default_action :: "string option"
  gw_set_list :: "string list \<Rightarrow> string list"
  gw_json :: json_library
  gw_seed :: nat
  gw_store :: "string \<times> string \<Rightarrow> (string, string) dict \<Rightarrow> raised option"
  gw_delete :: "string \<times> string \<Rightarrow> bool \<times> raised option"
  gw_alias :: "(string \<Rightarrow> (string \<times> string) option) option"
  gw_py_str :: "json \<Rightarrow> string"
  gw_post :: "(string \<times> json) list \<Rightarrow> http_outcome"
  gw_dispatch_time :: rat
  gw_restore_time :: rat
  gw_attempts :: int
  gw_log :: "nat \<Rightarrow> log_outcome"
  gw_log_time :: "nat \<Rightarrow> rat"
  gw_digest :: "audit_event \<Rightarrow> string"
  gw_event_id :: "string \<Rightarrow> string \<Rightarrow> string"
  gw_dumps :: "(string \<times> json) list \<Rightarrow> string"
  gw_retention :: int

abbreviation request_body :: "processing_context \<Rightarrow> (string \<times> json) list" where
  "request_body c \<equiv> (case original_request c of None \<Rightarrow> [] | Some b \<Rightarrow> b)"

definition class_action :: "processing_context \<Rightarrow> string" where
  "class_action c = (case classification_result c of None \<Rightarrow> [] | Some r \<Rightarrow> co_action r)"

definition fail_with :: "nat \<Rightarrow> string \<Rightarrow> processing_context \<Rightarrow> processing_context" where
  "fail_with status msg c = fail_secure (PipelineAbortError status msg) c"

subsection \<open>Classification, locale, sensitivity\<close>

definition classification_execute :: "gateway \<Rightarrow> gstate \<Rightarrow> gstate \<times> raised option" where
  "classification_execute gw st =
     (let (c, w) = st;
          nodes = (case text_nodes c of None \<Rightarrow> extract_text (request_body c) | Some ns \<Rightarrow> ns);
          c = c\<lparr>text_nodes := Some nodes\<rparr>;
          result = classify (gw_engine gw) nodes;
          result = (if co_action result = ''PASS''
                    then result\<lparr>co_action := ''ANONYMIZE'', configured_action := Some ''PASS''\<rparr> else result);
          c = c\<lparr>classification_result := Some result\<rparr>
      in ((if co_action result = ''BLOCK'' then fail_with 403 ''Request blocked by policy'' c
           else if co_action result = ''ROUTE_LOCAL'' then fail_with 501 ''ROUTE_LOCAL not yet implemented'' c
           else c, w), None))"

definition set_audit :: "string \<Rightarrow> string \<Rightarrow> processing_context \<Rightarrow> processing_context" where
  "set_audit k v c = c\<lparr>audit_metadata := AList.update k v (audit_metadata c)\<rparr>"

definition locale_execute :: "gateway \<Rightarrow> gstate \<Rightarrow> gstate \<times> raised option" where
  "locale_execute gw st =
     (let (c, w) = st
      in case negotiate (gw_registry gw) (gw_universal gw) (locale_header c) of
           Inl _ \<Rightarrow> ((fail_with 400 ''Locale negotiation failed'' c, w), None)
         | Inr (bnds, pr) \<Rightarrow>
             (let c = c\<lparr>locale_bundles := Some bnds,
                        merged_recognizer_set := Some (merge_bundles (gw_universal_bundle gw) bnds)\<rparr>;
                  c = set_audit ''locale''
                        (if locale_header c = None \<or> locale_header c = Some [] then ''universal''
                         else join '','' (map code bnds)) c;
                  c = (if was_fallback pr \<or> dropped_codes pr \<noteq> []
                       then set_audit ''negotiation_fallback'' ''True'' c else c)
              in ((c, w), None)))"

definition sensitivity_execute :: "gateway \<Rightarrow> gstate \<Rightarrow> gstate \<times> raised option" where
  "sensitivity_execute gw st =
     (let (c, w) = st;
          types = gw_set_list gw (map entity_type (case detections c of None \<Rightarrow> [] | Some ds \<Rightarrow> ds));
          result = service_classify (gw_entity_map gw) types (client_classification c);
          c = c\<lparr>classification_result_v2 := Some result\<rparr>;
          c = set_audit ''classification_level'' (level_name (highest result)) c;
          c = (if highest_entity result \<noteq> [] then set_audit ''highest_entity'' (highest_entity result) c else c);
          default_action = upper (case gw_default_action gw of None \<Rightarrow> [] | Some a \<Rightarrow> a)
      in ((if handling_action result = ''block''
              \<and> (client_classification c \<noteq> None \<or> default_action \<noteq> ''ANONYMIZE'')
           then fail_with 451 ''Request blocked due to data classification policy'' c else c, w), None))"

subsection \<open>Policy, DLP, tools\<close>

text \<open>\<open>dict(ctx.classification_result or {})\<close>; without a result the action is missing, here empty.\<close>

definition merge_levels :: "class_outcome option \<Rightarrow> level_result \<Rightarrow> class_outcome" where
  "merge_levels base r =
     (case base of
        Some b \<Rightarrow> b
      | None \<Rightarrow> \<lparr>co_action = [], matched_rule_ids = [], matched_rule_versions = [], configured_action = None,
                 classification_level = None, co_highest_entity = None\<rparr>)
       \<lparr>classification_level := Some (level_name (highest r)), co_highest_entity := Some (highest_entity r)\<rparr>"

definition policy_execute :: "app_state option \<Rightarrow> gstate \<Rightarrow> gstate \<times> raised option" where
  "policy_execute app st =
     (let (c, w) = st
      in case (case app of None \<Rightarrow> None | Some a \<Rightarrow> as_policy a) of
           None \<Rightarrow> ((c, w), None)
         | Some pe \<Rightarrow>
             (let c = (case classification_result_v2 c of
                         None \<Rightarrow> c
                       | Some r \<Rightarrow> c\<lparr>classification_result := Some (merge_levels (classification_result c) r)\<rparr>);
                  cl = (case classification_result c of
                          None \<Rightarrow> [] | Some r \<Rightarrow> (case classification_level r of None \<Rightarrow> [] | Some l \<Rightarrow> l));
                  (d, cache) = evaluate_all (pe_services pe) (pe_get pe) (pe_set pe) (pe_now pe) (decisions w)
                                 (tenant_id c) (model c) cl (provider c);
                  result = enforce d (length (case detections c of None \<Rightarrow> [] | Some ds \<Rightarrow> ds))
                             (transformed_request c \<noteq> None \<and> transformed_request c \<noteq> Some [])
                             (pe_decision_id pe) (pe_stamp pe);
                  c = c\<lparr>policy_decision_of := Some d, policy_enforcement := Some result\<rparr>;
                  why = (case er_body result of None \<Rightarrow> [] | Some b \<Rightarrow> b)
              in ((if should_forward result then c
                   else fail_with (case status_code result of None \<Rightarrow> 403 | Some s \<Rightarrow> s)
                          (dict_get why ''reason'' ''Request blocked by policy'') c,
                   w\<lparr>decisions := cache\<rparr>), None)))"

definition inbound_dlp_execute :: "app_state option \<Rightarrow> gstate \<Rightarrow> gstate \<times> raised option" where
  "inbound_dlp_execute app st =
     (let (c, w) = st
      in case (case app of None \<Rightarrow> None | Some a \<Rightarrow> as_dlp a) of
           None \<Rightarrow> ((c, w), None)
         | Some e \<Rightarrow>
             (case inspect_request e (case text_nodes c of None \<Rightarrow> [] | Some ns \<Rightarrow> ns) (tenant_id c) of
                None \<Rightarrow> ((c, w), Some (Exc (PyExn ValueError)))
              | Some r \<Rightarrow>
                  (let c = c\<lparr>dlp_result_of := Some r\<rparr>
                   in ((if dr_blocked r then fail_secure (PipelineBlockedError ''Request blocked by DLP policy'') c
                        else c, w), None))))"

fun evaluate_calls :: "tool_evaluator \<Rightarrow> tool_call list \<Rightarrow> processing_context \<Rightarrow> processing_context" where
  "evaluate_calls te [] c = c"
| "evaluate_calls te (call # calls) c =
     (let (d, err, appr) = evaluate_tool te (provider c) (map_of (audit_metadata c) ''delegation_id'') call;
          c = (if appr then c\<lparr>requires_approval := True\<rparr> else c);
          c = (case err of None \<Rightarrow> c | Some msg \<Rightarrow> fail_secure (ToolBlockedError msg) c)
      in if has_errors c then c else evaluate_calls te calls c)"

fun govern_messages ::
  "json_library \<Rightarrow> tool_evaluator \<Rightarrow> string \<Rightarrow> json list \<Rightarrow> processing_context \<Rightarrow> processing_context" where
  "govern_messages lib te fmt [] c = c"
| "govern_messages lib te fmt (m # ms) c =
     (case m of
        JObj msg \<Rightarrow>
          (case extract_calls lib msg fmt of
             None \<Rightarrow>
               fail_secure (ToolBlockedError ''Failed to extract tool calls: ToolExtractionError'') c
           | Some calls \<Rightarrow>
               (let c = evaluate_calls te calls c
                in if calls \<noteq> [] \<and> has_errors c then c else govern_messages lib te fmt ms c))
      | _ \<Rightarrow> govern_messages lib te fmt ms c)"

definition tool_execute :: "gateway \<Rightarrow> app_state option \<Rightarrow> gstate \<Rightarrow> gstate \<times> raised option" where
  "tool_execute gw app st =
     (let (c, w) = st
      in case (case app of None \<Rightarrow> None | Some a \<Rightarrow> as_tools a, original_request c) of
           (Some te, Some body) \<Rightarrow>
             (case (detect_format body, dict_get body ''messages'' (JList [])) of
                (Some fmt, JList messages) \<Rightarrow> ((govern_messages (gw_json gw) te fmt messages c, w), None)
              | _ \<Rightarrow> ((c, w), None))
         | _ \<Rightarrow> ((c, w), None))"

subsection \<open>Tokenization, guard\<close>

text \<open>The loop over the nodes: the new texts and the mapping collected so far.\<close>

fun tokenize_nodes ::
  "session \<Rightarrow> nat \<Rightarrow> text_node list \<Rightarrow> span list \<Rightarrow> (string, string) dict
     \<Rightarrow> session \<times> string list \<times> (string, string) dict" where
  "tokenize_nodes se i [] ds mapping = (se, [], mapping)"
| "tokenize_nodes se i (n # ns) ds mapping =
     (let nd = filter (\<lambda>d. node_index d = i) ds
      in if nd = [] then (let (se', ts, m) = tokenize_nodes se (Suc i) ns ds mapping in (se', node_text n # ts, m))
         else (let (se1, t, node_mapping) = tokenize se (node_text n) (map Spn nd);
                   (se', ts, m) = tokenize_nodes se1 (Suc i) ns ds (dict_update mapping node_mapping)
               in (se', t # ts, m)))"

definition node_writes :: "text_node list \<Rightarrow> string list \<Rightarrow> span list \<Rightarrow> (text_node \<times> string \<times> bool) list" where
  "node_writes ns ts ds =
     map (\<lambda>(i, n, t). (n, t, list_ex (\<lambda>d. node_index d = i) ds)) (zip [0 ..< length ns] (zip ns ts))"

abbreviation session_key :: "processing_context \<Rightarrow> string \<times> string" where
  "session_key c \<equiv> (tenant_id c, case context_id c of None \<Rightarrow> ''None'' | Some i \<Rightarrow> i)"

text \<open>\<open>HSET\<close>: the fields are added to what the key already holds.\<close>

definition put_mapping :: "string \<times> string \<Rightarrow> (string, string) dict \<Rightarrow> world \<Rightarrow> world" where
  "put_mapping k m w = w\<lparr>mapping_store := AList.update k (dict_update (dict_get (mapping_store w) k []) m) (mapping_store w)\<rparr>"

fun reraised :: "raised \<Rightarrow> bool" where
  "reraised Cancelled = True"
| "reraised (Exc (DependencyUnavailableError _)) = True"
| "reraised (Exc e) = is_abort e"

definition tokenization_execute :: "gateway \<Rightarrow> gstate \<Rightarrow> gstate \<times> raised option" where
  "tokenization_execute gw st =
     (let (c, w) = st
      in if class_action c = ''BLOCK'' then ((c, w), None)
         else (case detections c of
                 Some (d # ds) \<Rightarrow>
                   (let nodes = (case text_nodes c of None \<Rightarrow> [] | Some ns \<Rightarrow> ns);
                        (se, texts, mapping) =
                          tokenize_nodes (initialize_session (gw_seed gw) new_tokenizer) 0 nodes (d # ds) []
                    in case write_nodes (JObj (request_body c)) (node_writes nodes texts (d # ds)) of
                         Some (JObj body) \<Rightarrow>
                           (let c1 = c\<lparr>transformed_request := Some body\<rparr>
                            in if mapping = [] then ((c1\<lparr>token_mappings := Some mapping\<rparr>, w), None)
                               else (case gw_store gw (session_key c) mapping of
                                       None \<Rightarrow> ((c1\<lparr>token_mappings := Some mapping\<rparr>,
                                                 put_mapping (session_key c) mapping w), None)
                                     | Some r \<Rightarrow>
                                         if reraised r then ((c1, w), Some r)
                                         else ((fail_with 500 ''Tokenization stage failed'' c1, w), None)))
                       | _ \<Rightarrow> ((fail_with 500 ''Tokenization stage failed'' c, w), None))
               | _ \<Rightarrow> ((c\<lparr>transformed_request := Some (request_body c), token_mappings := Some []\<rparr>, w), None)))"

definition guard_execute :: "gateway \<Rightarrow> gstate \<Rightarrow> gstate \<times> raised option" where
  "guard_execute gw st =
     (let (c, w) = st
      in case classification_result c of
           None \<Rightarrow> ((fail_with 503 ''ForwardingGuard: classification did not complete'' c, w), None)
         | Some _ \<Rightarrow>
             (let c = c\<lparr>provider_dispatch_time := Some (gw_dispatch_time gw)\<rparr>
              in ((if detections c = None then fail_with 503 ''ForwardingGuard: detection did not complete'' c
                   else if token_mappings c = None then fail_with 503 ''ForwardingGuard: tokenisation did not complete'' c
                   else if transformed_request c = None then fail_with 503 ''ForwardingGuard: request was not tokenized'' c
                   else c, w), None)))"

subsection \<open>Provider, outbound DLP, restoration\<close>

definition provider_outcome :: "http_outcome \<Rightarrow> processing_context \<Rightarrow> processing_context \<times> raised option" where
  "provider_outcome o' c =
     (case o' of
        HttpTimeout \<Rightarrow> (fail_with 504 ''Upstream provider timeout'' c, None)
      | HttpConnectError \<Rightarrow> (fail_with 503 ''Provider unavailable'' c, None)
      | HttpRequestError t \<Rightarrow> (fail_with 502 (''Provider request failed: '' @ t) c, None)
      | HttpCancelled \<Rightarrow> (c, Some Cancelled)
      | HttpResponse status is_error body \<Rightarrow>
          if is_error then (fail_with 502 (''Provider returned HTTP '' @ dec status) c, None)
          else (case body of
                  None \<Rightarrow> (fail_with 502 ''Provider response parse error'' c, None)
                | Some j \<Rightarrow> (c\<lparr>provider_response := (if j = JNull then None else Some j)\<rparr>, None)))"

definition provider_execute :: "gateway \<Rightarrow> gstate \<Rightarrow> gstate \<times> raised option" where
  "provider_execute gw st =
     (let (c, w) = st;
          send = (\<lambda>c body. let (c', r) = provider_outcome (gw_post gw body) c
                           in ((c', w\<lparr>posted := posted w @ [body]\<rparr>), r))
      in case transformed_request c of
           None \<Rightarrow> ((fail_with 500 ''No request body available for provider'' c, w), None)
         | Some body \<Rightarrow>
             if map_of body ''stream'' = Some (JBool True)
             then ((fail_with 500 ''Streaming requests must use provider adapter streaming'' c, w), None)
             else (case gw_alias gw of
                     None \<Rightarrow> send c body
                   | Some resolve \<Rightarrow>
                       (case resolve (gw_py_str gw (dict_get body ''model'' (JStr []))) of
                          None \<Rightarrow> ((fail_with 400 ''Unknown model alias'' c, w), None)
                        | Some (prov, mdl) \<Rightarrow>
                            send (c\<lparr>provider := Some prov, model := Some mdl\<rparr>)
                                 (AList.update ''model'' (JStr mdl) body))))"

text \<open>\<open>_extract_response_text\<close>; None is an exception it lets escape.\<close>

fun choice_texts :: "json list \<Rightarrow> string list option" where
  "choice_texts [] = Some []"
| "choice_texts (ch # chs) =
     (case ch of
        JObj choice \<Rightarrow>
          (case dict_get choice ''message'' (JObj []) of
             JObj msg \<Rightarrow>
               (case choice_texts chs of
                  None \<Rightarrow> None
                | Some ts \<Rightarrow>
                    (let content = dict_get msg ''content'' (JStr [])
                     in if \<not> truthy content then Some ts
                        else (case content of JStr s \<Rightarrow> Some (s # ts) | _ \<Rightarrow> None)))
           | _ \<Rightarrow> None)
      | _ \<Rightarrow> None)"

definition extract_response_text :: "processing_context \<Rightarrow> string option" where
  "extract_response_text c =
     (case provider_response c of
        None \<Rightarrow> Some []
      | Some j \<Rightarrow>
          if \<not> truthy j then Some []
          else (case j of
                  JObj r \<Rightarrow>
                    (case dict_get r ''choices'' (JList []) of
                       JList choices \<Rightarrow> map_option join_lines (choice_texts choices)
                     | JObj kvs \<Rightarrow> if kvs = [] then Some [] else None
                     | JStr s \<Rightarrow> if s = [] then Some [] else None
                     | _ \<Rightarrow> None)
                | _ \<Rightarrow> None))"

definition outbound_dlp_execute :: "app_state option \<Rightarrow> gstate \<Rightarrow> gstate \<times> raised option" where
  "outbound_dlp_execute app st =
     (let (c, w) = st
      in case (case app of None \<Rightarrow> None | Some a \<Rightarrow> as_dlp a) of
           None \<Rightarrow> ((c, w), None)
         | Some e \<Rightarrow>
             (case extract_response_text c of
                None \<Rightarrow> ((c, w), Some (Exc (PyExn TypeError)))
              | Some text' \<Rightarrow>
                  if text' = [] then ((c, w), None)
                  else (case inspect e text' (tenant_id c) of
                          None \<Rightarrow> ((c, w), Some (Exc (PyExn ValueError)))
                        | Some r \<Rightarrow>
                            (let c = c\<lparr>outbound_dlp_result := Some r\<rparr>
                             in ((if dr_blocked r then fail_secure (OutboundDLPError ''Outbound DLP blocked response'') c
                                  else c, w), None)))))"

definition restoration_execute :: "gateway \<Rightarrow> gstate \<Rightarrow> gstate \<times> raised option" where
  "restoration_execute gw st =
     (let (c, w) = st
      in if class_action c = ''PASS'' \<or> class_action c = ''BLOCK'' then ((c, w), None)
         else (case provider_response c of
                 None \<Rightarrow> ((fail_with 500 ''No provider response to restore'' c, w), None)
               | Some resp \<Rightarrow>
                   (let mapping = (case token_mappings c of None \<Rightarrow> [] | Some m \<Rightarrow> m);
                        timed = (\<lambda>c. case request_receipt_time c of
                                       None \<Rightarrow> c
                                     | Some t \<Rightarrow> c\<lparr>processing_overhead_ms := Some ((gw_restore_time gw - t) * 1000)\<rparr>)
                    in case resp of
                         JObj kvs \<Rightarrow>
                           ((timed (c\<lparr>restored_response := Some (JObj (restore_response kvs mapping))\<rparr>), w), None)
                       | other \<Rightarrow>
                           if mapping = [] then ((timed (c\<lparr>restored_response := Some other\<rparr>), w), None)
                           else ((fail_with 500 ''Restoration stage failed'' c, w), None))))"

subsection \<open>Audit write and cleanup\<close>

record audit_fields =
  af_action :: string
  af_rules :: "string list"
  af_counts :: "(string, nat) dict"
  af_tokens :: nat
  af_status :: nat
  af_taken :: string
  af_level :: "string option"
  af_labels :: "string list"
  af_override :: bool
  af_asserted :: "string option"

definition entity_counts :: "span list \<Rightarrow> (string, nat) dict" where
  "entity_counts ds = foldl (\<lambda>m d. AList.update (entity_type d) (dict_get m (entity_type d) 0 + 1) m) [] ds"

definition anonymization_audit_fields :: "processing_context \<Rightarrow> audit_fields" where
  "anonymization_audit_fields c =
     \<lparr>af_action = (case classification_result c of None \<Rightarrow> ''unknown'' | Some r \<Rightarrow> co_action r),
      af_rules = (case classification_result c of None \<Rightarrow> [] | Some r \<Rightarrow> matched_rule_ids r),
      af_counts = entity_counts (case detections c of None \<Rightarrow> [] | Some ds \<Rightarrow> ds),
      af_tokens = (case token_mappings c of None \<Rightarrow> 0 | Some m \<Rightarrow> length m),
      af_status = (case (provider_response c, restored_response c) of
                     (Some p, Some r) \<Rightarrow> if truthy p \<and> truthy r then 200 else 0 | _ \<Rightarrow> 0),
      af_taken = (case classification_result c of
                    None \<Rightarrow> ''anonymized''
                  | Some r \<Rightarrow> if co_action r = ''PASS'' then ''passed''
                              else if co_action r = ''BLOCK'' then ''blocked'' else ''anonymized''),
      af_level = map_option (\<lambda>r. level_name (highest r)) (classification_result_v2 c),
      af_labels = (case classification_result_v2 c of None \<Rightarrow> [] | Some r \<Rightarrow> labels r),
      af_override = (case classification_result_v2 c of None \<Rightarrow> False | Some r \<Rightarrow> client_override r),
      af_asserted = (case classification_result_v2 c of None \<Rightarrow> None
                     | Some r \<Rightarrow> map_option level_name (client_asserted_level r))\<rparr>"

definition retry_attempts :: "int \<Rightarrow> nat" where
  "retry_attempts n = nat (max 1 (min n 5))"

definition backoff_delay :: "nat \<Rightarrow> rat \<Rightarrow> rat" where
  "backoff_delay attempt backoff = min (max 0 (min backoff 1) * 2 ^ (attempt - 1)) 1"

definition opt_str :: "string option \<Rightarrow> json" where
  "opt_str x = (case x of None \<Rightarrow> JNull | Some s \<Rightarrow> JStr s)"

definition audit_metadata_fields :: "processing_context \<Rightarrow> (string \<times> json) list" where
  "audit_metadata_fields c =
     (let f = anonymization_audit_fields c
      in [(''entity_types'', JList (map JStr (sort (map fst (af_counts f))))),
          (''entity_counts'', JObj (map (\<lambda>(k, n). (k, JInt (int n))) (af_counts f))),
          (''token_count'', JInt (int (af_tokens f))),
          (''locale'', opt_str (map_of (audit_metadata c) ''locale'')),
          (''model'', opt_str (model c)),
          (''compliance_preset'', opt_str (map_of (audit_metadata c) ''compliance_preset''))]
         @ (case terminal_state c of Some (x # xs) \<Rightarrow> [(''terminal_state'', JStr (x # xs))] | _ \<Rightarrow> []))"

definition anonymization_event :: "gateway \<Rightarrow> processing_context \<Rightarrow> nat \<Rightarrow> audit_event" where
  "anonymization_event gw c k =
     new_audit_event (gw_event_id gw (tenant_id c) (request_id c)) (gw_log_time gw k) ''anonymization''
       (tenant_id c) (Some (request_id c)) (map_of (audit_metadata c) ''operator_id'') (provider c)
       (Some (af_action (anonymization_audit_fields c)))
       (map_option truncate_rat (processing_overhead_ms c))
       (gw_dumps gw (audit_metadata_fields c)) (gw_retention gw)"

text \<open>
  Attempts \<open>k, k + 1, \<dots>\<close>, \<open>n\<close> of them: one returned, all failed, or the task was cancelled, which no
  \<open>except Exception\<close> catches.
\<close>

datatype emission = Emitted | GaveUp | EmitCancelled

fun emit_attempts :: "gateway \<Rightarrow> processing_context \<Rightarrow> nat \<Rightarrow> nat \<Rightarrow> audit_db \<Rightarrow> audit_db \<times> emission" where
  "emit_attempts gw c k 0 db = (db, GaveUp)"
| "emit_attempts gw c k (Suc n) db =
     (let db' = (case store_event (gw_digest gw) db (anonymization_event gw c k) of Inr (d, _) \<Rightarrow> d | Inl _ \<Rightarrow> db)
      in case gw_log gw k of
           Logged \<Rightarrow> (db', Emitted)
         | LogFailed \<Rightarrow> emit_attempts gw c (Suc k) n db
         | LogTimedOut \<Rightarrow> emit_attempts gw c (Suc k) n db'
         | LogCancelled stored \<Rightarrow> (if stored then db' else db, EmitCancelled))"

definition emit_anonymization_audit ::
  "gateway \<Rightarrow> processing_context \<Rightarrow> world \<Rightarrow> world \<times> raised option" where
  "emit_anonymization_audit gw c w =
     (if \<not> has_audit_chain c then (w, None)
      else (let (db, e) = emit_attempts gw c 1 (retry_attempts (gw_attempts gw)) (audit_table w)
            in (w\<lparr>audit_table := db\<rparr>,
                case e of Emitted \<Rightarrow> None | GaveUp \<Rightarrow> Some (Exc (PipelineAbortError 500 ''Audit write failed''))
                        | EmitCancelled \<Rightarrow> Some Cancelled)))"

definition cleanup_execute :: "gateway \<Rightarrow> gstate \<Rightarrow> gstate \<times> raised option" where
  "cleanup_execute gw st =
     (let (c, w) = st;
          (w1, pending) =
            (if token_mappings c \<noteq> None \<and> token_mappings c \<noteq> Some [] \<and> context_id c \<noteq> None \<and> context_id c \<noteq> Some []
             then (let (removed, r) = gw_delete gw (session_key c)
                   in (if removed then w\<lparr>mapping_store := AList.delete (session_key c) (mapping_store w)\<rparr> else w,
                       if r = Some Cancelled then r else None))
             else (w, None));
          (w2, failed) = emit_anonymization_audit gw c w1
      in ((c, w2), if failed \<noteq> None then failed else pending))"

subsection \<open>The pipelines\<close>

definition mk_stage :: "string \<Rightarrow> (gstate \<Rightarrow> gstate \<times> raised option) \<Rightarrow> stage" where
  "mk_stage n f = \<lparr>stage_name = n, guaranteed = False, execute = f\<rparr>"

definition shared_stages :: "gateway \<Rightarrow> stage list" where
  "shared_stages gw =
     [mk_stage ''ClassificationStage'' (classification_execute gw),
      mk_stage ''LocaleNegotiationStage'' (locale_execute gw),
      mk_stage ''DetectionStage'' (detection_execute (gw_detect gw)),
      mk_stage ''SensitivityClassificationStage'' (sensitivity_execute gw)]"

definition build_pre_provider_pipeline :: "gateway \<Rightarrow> app_state option \<Rightarrow> stage list" where
  "build_pre_provider_pipeline gw app =
     shared_stages gw @
     [mk_stage ''PolicyEnforcementStage'' (policy_execute app),
      mk_stage ''InboundDLPStage'' (inbound_dlp_execute app),
      mk_stage ''ToolGovernanceStage'' (tool_execute gw app),
      mk_stage ''TokenizationStage'' (tokenization_execute gw),
      mk_stage ''ForwardingGuard'' (guard_execute gw)]"

definition build_pipeline :: "gateway \<Rightarrow> app_state option \<Rightarrow> stage list" where
  "build_pipeline gw app =
     build_pre_provider_pipeline gw app @
     [mk_stage ''ProviderStage'' (provider_execute gw),
      mk_stage ''OutboundDLPStage'' (outbound_dlp_execute app),
      mk_stage ''RestorationStage'' (restoration_execute gw),
      \<lparr>stage_name = ''CleanupStage'', guaranteed = True, execute = cleanup_execute gw\<rparr>]"

text \<open>The streaming route builds its stages without the application state.\<close>

definition streaming_pipeline :: "gateway \<Rightarrow> stage list" where
  "streaming_pipeline gw = build_pre_provider_pipeline gw None"

subsection \<open>The route's answers\<close>

datatype http_error = HTTPError nat string | LanguageError string

definition raise_for_pipeline_errors :: "processing_context \<Rightarrow> http_error option" where
  "raise_for_pipeline_errors c =
     (if \<not> has_errors c then None
      else (case last (errors c) of
              PresidioLanguageUnsupportedError l \<Rightarrow> Some (LanguageError l)
            | DependencyUnavailableError _ \<Rightarrow> Some (HTTPError 503 ''Service temporarily unavailable'')
            | PipelineAbortError s msg \<Rightarrow>
                Some (if List.member [400, 403, 404, 501, 451] s then HTTPError s msg
                      else if s = 504 then HTTPError 504 ''Upstream provider timeout''
                      else if s = 503 then HTTPError 503 ''Service temporarily unavailable''
                      else HTTPError 500 ''Internal gateway error'')
            | PipelineBlockedError msg \<Rightarrow> Some (HTTPError 451 msg)
            | OutboundDLPError msg \<Rightarrow> Some (HTTPError 451 msg)
            | _ \<Rightarrow> Some (HTTPError 500 ''Internal gateway error'')))"

text \<open>
  The request model (\<open>models/chat.py\<close>) and what \<open>model_dump\<close> makes of it: every field is a key, an absent
  one with the value \<open>None\<close>. A content is a string, a list of parts or absent.
\<close>

record chat_message =
  cm_role :: string
  cm_content :: json
  cm_name :: "string option"
  cm_tool_calls :: "json list option"
  cm_tool_call_id :: "string option"

record chat_request =
  cr_model :: string
  cr_messages :: "chat_message list"
  cr_stream :: bool
  cr_temperature :: "rat option"
  cr_top_p :: "rat option"
  cr_n :: "int option"
  cr_stop :: json
  cr_max_tokens :: "int option"
  cr_presence_penalty :: "rat option"
  cr_frequency_penalty :: "rat option"
  cr_logit_bias :: "(string, rat) dict option"
  cr_user :: "string option"
  cr_tools :: "json list option"
  cr_tool_choice :: json
  cr_response_format :: "(string \<times> json) list option"
  cr_seed :: "int option"

definition opt_json :: "('a \<Rightarrow> json) \<Rightarrow> 'a option \<Rightarrow> json" where
  "opt_json f x = (case x of None \<Rightarrow> JNull | Some v \<Rightarrow> f v)"

definition dump_message :: "chat_message \<Rightarrow> json" where
  "dump_message m =
     JObj [(''role'', JStr (cm_role m)), (''content'', cm_content m), (''name'', opt_str (cm_name m)),
           (''tool_calls'', opt_json JList (cm_tool_calls m)), (''tool_call_id'', opt_str (cm_tool_call_id m))]"

definition dump_request :: "chat_request \<Rightarrow> (string \<times> json) list" where
  "dump_request r =
     [(''model'', JStr (cr_model r)), (''messages'', JList (map dump_message (cr_messages r))),
      (''stream'', JBool (cr_stream r)), (''temperature'', opt_json JFloat (cr_temperature r)),
      (''top_p'', opt_json JFloat (cr_top_p r)), (''n'', opt_json JInt (cr_n r)), (''stop'', cr_stop r),
      (''max_tokens'', opt_json JInt (cr_max_tokens r)), (''presence_penalty'', opt_json JFloat (cr_presence_penalty r)),
      (''frequency_penalty'', opt_json JFloat (cr_frequency_penalty r)),
      (''logit_bias'', opt_json (\<lambda>d. JObj (map (\<lambda>(k, v). (k, JFloat v)) d)) (cr_logit_bias r)),
      (''user'', opt_str (cr_user r)), (''tools'', opt_json JList (cr_tools r)), (''tool_choice'', cr_tool_choice r),
      (''response_format'', opt_json JObj (cr_response_format r)), (''seed'', opt_json JInt (cr_seed r))]"

record request_info =
  ri_request_id :: string
  ri_tenant :: string
  ri_context_id :: string
  ri_body :: "(string \<times> json) list"
  ri_model :: string
  ri_locale :: "string option"
  ri_client_level :: "level option"
  ri_audit_chain :: bool
  ri_presets :: "string list"

definition new_request_context :: "request_info \<Rightarrow> processing_context" where
  "new_request_context ri =
     (let c = (new_processing_context (ri_request_id ri) (ri_tenant ri))
            \<lparr>context_id := Some (ri_context_id ri), original_request := Some (ri_body ri),
             text_nodes := Some (extract_text (ri_body ri)), locale_header := ri_locale ri,
             client_classification := ri_client_level ri, has_audit_chain := ri_audit_chain ri,
             model := Some (ri_model ri)\<rparr>
      in if ri_presets ri \<noteq> [] then set_audit ''compliance_preset'' (join '','' (ri_presets ri)) c else c)"

definition chat_response :: "processing_context \<Rightarrow> http_error + json" where
  "chat_response c =
     (case raise_for_pipeline_errors c of
        Some e \<Rightarrow> Inl e
      | None \<Rightarrow>
          (let act = (case classification_result c of None \<Rightarrow> ''ANONYMIZE'' | Some r \<Rightarrow> co_action r)
           in if act = ''BLOCK'' then Inl (HTTPError 403 ''Request blocked by policy'')
              else if act = ''ROUTE_LOCAL'' then Inl (HTTPError 501 ''ROUTE_LOCAL not yet implemented'')
              else (case (restored_response c, provider_response c) of
                      (Some r, p) \<Rightarrow>
                        if act = ''ANONYMIZE'' \<and> truthy r then Inr r
                        else (case p of Some v \<Rightarrow> if truthy v then Inr v else Inl (HTTPError 500 ''No response produced'')
                              | None \<Rightarrow> Inl (HTTPError 500 ''No response produced''))
                    | (None, Some v) \<Rightarrow> if truthy v then Inr v else Inl (HTTPError 500 ''No response produced'')
                    | (None, None) \<Rightarrow> Inl (HTTPError 500 ''No response produced''))))"

end
