(* ===== verification/Gateway.thy ===== *)
theory Gateway
  imports Stages "HOL-Library.Sublist"
begin

text \<open>
  The gateway's pipeline as a whole: what its stages leave alone, the interpretation of the
  stage contracts on the pipeline \<open>build_pipeline\<close> returns, what must hold when a request was
  posted to the provider, and how often the audit event is written.
\<close>

subsection \<open>What a stage leaves alone\<close>

definition keeps_request :: "processing_context \<Rightarrow> processing_context \<Rightarrow> bool" where
  "keeps_request c c' \<longleftrightarrow>
     prefix (errors c) (errors c') \<and> original_request c' = original_request c
     \<and> (text_nodes c \<noteq> None \<longrightarrow> text_nodes c' = text_nodes c)
     \<and> tenant_id c' = tenant_id c \<and> request_id c' = request_id c \<and> context_id c' = context_id c
     \<and> has_audit_chain c' = has_audit_chain c \<and> client_classification c' = client_classification c"

lemma keeps_request_refl [simp]: "keeps_request c c"
  by (simp add: keeps_request_def)

lemma keeps_request_trans: "keeps_request a b \<Longrightarrow> keeps_request b c \<Longrightarrow> keeps_request a c"
  unfolding keeps_request_def by (metis prefix_order.trans)

lemma keeps_fail [simp]: "keeps_request c (fail_with s m c') = keeps_request c (c'\<lparr>errors := errors c' @ [PipelineAbortError s m]\<rparr>)"
  by (simp add: fail_with_def fail_secure_def)

lemma keeps_update [simp]:
  "keeps_request c (c'\<lparr>transformed_request := a\<rparr>) = keeps_request c c'"
  "keeps_request c (c'\<lparr>token_mappings := b\<rparr>) = keeps_request c c'"
  "keeps_request c (c'\<lparr>provider := d\<rparr>) = keeps_request c c'"
  "keeps_request c (c'\<lparr>model := d\<rparr>) = keeps_request c c'"
  "keeps_request c (c'\<lparr>policy_decision_of := e\<rparr>) = keeps_request c c'"
  "keeps_request c (c'\<lparr>policy_enforcement := f\<rparr>) = keeps_request c c'"
  "keeps_request c (c'\<lparr>classification_result := g\<rparr>) = keeps_request c c'"
  "keeps_request c (c'\<lparr>provider_response := h\<rparr>) = keeps_request c c'"
  by (simp_all add: keeps_request_def)

lemma keeps_update_errors [simp]:
  "keeps_request c (c'\<lparr>transformed_request := a, errors := es\<rparr>) = keeps_request c (c'\<lparr>errors := es\<rparr>)"
  "keeps_request c (c'\<lparr>token_mappings := b, errors := es\<rparr>) = keeps_request c (c'\<lparr>errors := es\<rparr>)"
  "keeps_request c (c'\<lparr>provider := d, errors := es\<rparr>) = keeps_request c (c'\<lparr>errors := es\<rparr>)"
  "keeps_request c (c'\<lparr>model := d, errors := es\<rparr>) = keeps_request c (c'\<lparr>errors := es\<rparr>)"
  "keeps_request c (c'\<lparr>policy_decision_of := e, errors := es\<rparr>) = keeps_request c (c'\<lparr>errors := es\<rparr>)"
  "keeps_request c (c'\<lparr>policy_enforcement := f, errors := es\<rparr>) = keeps_request c (c'\<lparr>errors := es\<rparr>)"
  "keeps_request c (c'\<lparr>classification_result := g, errors := es\<rparr>) = keeps_request c (c'\<lparr>errors := es\<rparr>)"
  by (simp_all add: keeps_request_def)

lemma keeps_more_errors [simp]: "keeps_request c (c\<lparr>errors := errors c @ es\<rparr>)"
  by (simp add: keeps_request_def)

definition framed :: "(gstate \<Rightarrow> gstate \<times> raised option) \<Rightarrow> bool" where
  "framed f \<longleftrightarrow> (\<forall>st. keeps_request (fst st) (fst (fst (f st))))"

definition silent :: "(gstate \<Rightarrow> gstate \<times> raised option) \<Rightarrow> bool" where
  "silent f \<longleftrightarrow> (\<forall>st. posted (snd (fst (f st))) = posted (snd st))"

lemma framedI: "(\<And>c w. keeps_request c (fst (fst (f (c, w))))) \<Longrightarrow> framed f"
  by (simp add: framed_def)

lemma silentI: "(\<And>c w. posted (snd (fst (f (c, w)))) = posted w) \<Longrightarrow> silent f"
  by (simp add: silent_def)

lemma classification_framed: "framed (classification_execute gw)" "silent (classification_execute gw)"
  by (rule framedI silentI, simp add: classification_execute_def Let_def keeps_request_def fail_with_def fail_secure_def
      split: option.split)+

lemma locale_framed: "framed (locale_execute gw)" "silent (locale_execute gw)"
  by (rule framedI silentI, simp add: locale_execute_def Let_def keeps_request_def fail_with_def fail_secure_def set_audit_def
      split: sum.split prod.split)+

definition detected_context :: "detect_services \<Rightarrow> processing_context \<Rightarrow> processing_context \<times> raised option" where
  "detected_context sv c =
     (let nodes = (case text_nodes c of None \<Rightarrow> [] | Some ns \<Rightarrow> ns)
      in if nodes = [] then (c\<lparr>detections := Some []\<rparr>, None)
         else (case detect_all sv c nodes of
                 Inl (DetAbort e) \<Rightarrow> (c, Some (Exc e))
               | Inl (DetUnsupported l) \<Rightarrow> (fail_secure (PresidioLanguageUnsupportedError l) c, None)
               | Inl (DetEnterprise t) \<Rightarrow>
                   (fail_secure (PipelineAbortError 500 (''Detection stage failed: '' @ t)) c, None)
               | Inl DetFailed \<Rightarrow> (fail_secure (PipelineAbortError 500 ''Detection stage failed'') c, None)
               | Inr ds \<Rightarrow>
                   (if ds = [] then (c\<lparr>detections := Some ds\<rparr>, None)
                    else (case boost_nodes sv 0 nodes ds of
                            Inl _ \<Rightarrow> (fail_secure (PipelineAbortError 500 ''Detection stage failed'')
                                        (c\<lparr>detections := Some ds\<rparr>), None)
                          | Inr bs \<Rightarrow> (c\<lparr>detections := Some bs\<rparr>, None)))))"

lemma detection_execute_context:
  "detection_execute sv (c, w) =
     (if class_action c = ''BLOCK'' then ((c, w), None)
      else (let (c', r) = detected_context sv
                  (if text_nodes c = None then c\<lparr>text_nodes := Some (extract_text (request_body c))\<rparr> else c)
            in ((c', w), r)))"
proof -
  have blocked: "(case classification_result c of None \<Rightarrow> False | Some r \<Rightarrow> co_action r = ''BLOCK'')
      \<longleftrightarrow> class_action c = ''BLOCK''"
    by (simp add: class_action_def split: option.split)
  define c1 where "c1 = (if text_nodes c = None then c\<lparr>text_nodes := Some (extract_text (request_body c))\<rparr> else c)"
  show ?thesis
    unfolding detection_execute_def Let_def prod.case blocked c1_def [symmetric]
    by (simp add: detected_context_def Let_def split: sum.split detect_exn.split)
qed

lemma detected_context_keeps: "keeps_request c (fst (detected_context sv c))"
  by (simp add: detected_context_def Let_def keeps_request_def fail_secure_def split: sum.split detect_exn.split)

lemma detection_framed: "framed (detection_execute sv)" "silent (detection_execute sv)"
proof -
  have "keeps_request c (fst (detected_context sv (c\<lparr>text_nodes := Some ns\<rparr>)))" if "text_nodes c = None" for c ns
    using that by (intro keeps_request_trans [OF _ detected_context_keeps]) (simp add: keeps_request_def)
  then show "framed (detection_execute sv)" "silent (detection_execute sv)"
    using detected_context_keeps by (auto simp: framed_def silent_def detection_execute_context Let_def case_prod_beta)
qed

lemma sensitivity_framed: "framed (sensitivity_execute gw)" "silent (sensitivity_execute gw)"
  by (rule framedI silentI, simp add: sensitivity_execute_def Let_def keeps_request_def fail_with_def fail_secure_def
      set_audit_def)+

lemma policy_framed: "framed (policy_execute app)" "silent (policy_execute app)"
  by (rule framedI silentI, simp add: policy_execute_def Let_def split: option.split prod.split)+

lemma inbound_dlp_framed: "framed (inbound_dlp_execute app)" "silent (inbound_dlp_execute app)"
  by (rule framedI silentI, simp add: inbound_dlp_execute_def Let_def keeps_request_def fail_secure_def
      split: option.split)+

lemma evaluate_calls_keeps: "keeps_request c (evaluate_calls te calls c)"
proof (induction te calls c rule: evaluate_calls.induct)
  case (1 te c)
  then show ?case by simp
next
  case (2 te call calls c)
  obtain d err appr where e: "evaluate_tool te (provider c) (map_of (audit_metadata c) ''delegation_id'') call = (d, err, appr)"
    by (metis prod_cases3)
  define c1 where "c1 = (if appr then c\<lparr>requires_approval := True\<rparr> else c)"
  define c2 where "c2 = (case err of None \<Rightarrow> c1 | Some msg \<Rightarrow> fail_secure (ToolBlockedError msg) c1)"
  have k: "keeps_request c c2"
    by (simp add: c2_def c1_def keeps_request_def fail_secure_def split: option.split)
  have eq: "evaluate_calls te (call # calls) c = (if has_errors c2 then c2 else evaluate_calls te calls c2)"
    unfolding evaluate_calls.simps Let_def e prod.case c2_def c1_def by (rule refl)
  have "\<not> has_errors c2 \<Longrightarrow> keeps_request c2 (evaluate_calls te calls c2)"
    using "2.IH" [OF e [symmetric] refl refl c1_def c2_def] by simp
  then show ?case using k unfolding eq by (auto intro: keeps_request_trans)
qed

lemma govern_messages_keeps: "keeps_request c (govern_messages lib te fmt ms c)"
proof (induction ms arbitrary: c)
  case Nil
  then show ?case by simp
next
  case (Cons m ms)
  have "keeps_request c (govern_messages lib te fmt ms (evaluate_calls te calls c))" for calls
    using evaluate_calls_keeps Cons by (rule keeps_request_trans)
  then show ?case
    using Cons evaluate_calls_keeps
    by (simp add: Let_def keeps_request_def fail_secure_def split: json.split option.split)
qed

lemma tool_framed: "framed (tool_execute gw app)" "silent (tool_execute gw app)"
  by (rule framedI silentI, simp add: tool_execute_def govern_messages_keeps
      split: option.split json.split prod.split)+

lemma tokenization_framed: "framed (tokenization_execute gw)" "silent (tokenization_execute gw)"
  by (rule framedI silentI, simp add: tokenization_execute_def Let_def put_mapping_def
      split: option.split json.split prod.split list.split)+

lemma guard_framed: "framed (guard_execute gw)" "silent (guard_execute gw)"
  by (rule framedI silentI, simp add: guard_execute_def Let_def keeps_request_def fail_with_def fail_secure_def
      split: option.split)+

lemma provider_framed: "framed (provider_execute gw)"
  by (rule framedI, simp add: provider_execute_def provider_outcome_def Let_def
      split: option.split http_outcome.split prod.split)

lemma outbound_dlp_framed: "framed (outbound_dlp_execute app)" "silent (outbound_dlp_execute app)"
  by (rule framedI silentI, simp add: outbound_dlp_execute_def Let_def keeps_request_def fail_secure_def
      split: option.split)+

lemma restoration_framed: "framed (restoration_execute gw)" "silent (restoration_execute gw)"
  by (rule framedI silentI, simp add: restoration_execute_def Let_def keeps_request_def fail_with_def fail_secure_def
      split: option.split json.split)+

lemma cleanup_framed: "framed (cleanup_execute gw)" "silent (cleanup_execute gw)"
  by (rule framedI silentI, simp add: cleanup_execute_def emit_anonymization_audit_def Let_def
      split: prod.split)+

lemmas stages_framed = classification_framed locale_framed detection_framed sensitivity_framed policy_framed
  inbound_dlp_framed tool_framed tokenization_framed guard_framed provider_framed outbound_dlp_framed
  restoration_framed cleanup_framed

lemmas pipeline_defs = build_pipeline_def build_pre_provider_pipeline_def shared_stages_def mk_stage_def

subsection \<open>The contracts hold on the gateway\<close>

lemma pipeline_framed: "s \<in> set (build_pipeline gw app) \<Longrightarrow> framed (execute s)"
  unfolding pipeline_defs using stages_framed by auto

lemma pipeline_length [simp]: "length (build_pipeline gw app) = 13"
  by (simp add: pipeline_defs)

interpretation gate: posting_family "build_pipeline gw app" 9 for gw app
proof unfold_locales
  fix s st assume "s \<in> set (build_pipeline gw app)"
  then show "\<exists>new. errors (fst (fst (execute s st))) = errors (fst st) @ new"
    using pipeline_framed [of s gw app] unfolding framed_def keeps_request_def prefix_def by blast
next
  show "9 < length (build_pipeline gw app)" by simp
next
  show "\<not> guaranteed (build_pipeline gw app ! 9)" by (simp add: pipeline_defs)
next
  fix i st assume i: "i < length (build_pipeline gw app)" "i \<noteq> 9"
  then have "i = 0 \<or> i = 1 \<or> i = 2 \<or> i = 3 \<or> i = 4 \<or> i = 5 \<or> i = 6 \<or> i = 7 \<or> i = 8 \<or> i = 10 \<or> i = 11 \<or> i = 12"
    unfolding pipeline_length by presburger
  then have "silent (execute (build_pipeline gw app ! i))"
    unfolding pipeline_defs using stages_framed by (elim disjE) simp_all
  then show "posted (snd (fst (execute (build_pipeline gw app ! i) st))) = posted (snd st)"
    unfolding silent_def by blast
qed

subsection \<open>Stages that finished cleanly\<close>

definition clean_exec :: "stage \<Rightarrow> gstate \<Rightarrow> gstate \<Rightarrow> bool" where
  "clean_exec s st st' \<longleftrightarrow> \<not> has_errors (fst st) \<and> execute s st = (st', None) \<and> \<not> has_errors (fst st')"

lemma clean_run_ConsE:
  assumes "clean_run (s # ss) st = Some sj"
  obtains st1 where "clean_exec s st st1" "clean_run ss st1 = Some sj"
proof -
  obtain c w r where ex: "execute s st = ((c, w), r)" by (metis surj_pair)
  from assms have ne: "\<not> has_errors (fst st)" and inv: "case invoke s st of (st', Finished None) \<Rightarrow> clean_run ss st' = Some sj | _ \<Rightarrow> False"
    by (auto split: if_splits prod.splits invoked.splits option.splits)
  show thesis
  proof (cases r)
    case None
    with inv ex have "length (errors c) \<le> length (errors (fst st))" "clean_run ss (c, w) = Some sj"
      by (auto simp: invoke_def split: if_splits)
    with ne ex None show thesis by (intro that [of "(c, w)"]) (auto simp: clean_exec_def has_errors_def)
  next
    case (Some x)
    with inv ex show thesis by (cases x) (auto simp: invoke_def)
  qed
qed

lemma has_errors_fail [simp]: "has_errors (fail_with s m c)" "has_errors (fail_secure e c)"
  by (simp_all add: has_errors_def fail_with_def fail_secure_def)

lemma classification_clean:
  assumes "clean_exec (mk_stage n (classification_execute gw)) (c, w) (c', w')" "text_nodes c = Some ns"
  shows "classification_result c' \<noteq> None \<and> class_action c' \<noteq> ''BLOCK'' \<and> class_action c' \<noteq> ''ROUTE_LOCAL''
    \<and> co_action (classify (gw_engine gw) ns) \<notin> {''BLOCK'', ''ROUTE_LOCAL''} \<and> w' = w"
proof -
  define r where "r = classify (gw_engine gw) ns"
  define r' where "r' = (if co_action r = ''PASS''
                    then r\<lparr>co_action := ''ANONYMIZE'', configured_action := Some ''PASS''\<rparr> else r)"
  have "classification_execute gw (c, w) = ((let c = c\<lparr>text_nodes := Some ns, classification_result := Some r'\<rparr> in
      if co_action r' = ''BLOCK'' then fail_with 403 ''Request blocked by policy'' c
      else if co_action r' = ''ROUTE_LOCAL'' then fail_with 501 ''ROUTE_LOCAL not yet implemented'' c else c, w), None)"
    unfolding classification_execute_def r'_def r_def by (simp add: assms(2) Let_def)
  with assms(1) have *: "co_action r' \<noteq> ''BLOCK''" "co_action r' \<noteq> ''ROUTE_LOCAL''"
    "c' = c\<lparr>text_nodes := Some ns, classification_result := Some r'\<rparr>" "w' = w"
    by (auto simp: clean_exec_def mk_stage_def Let_def split: if_splits)
  moreover from * have "co_action r \<noteq> ''BLOCK''" "co_action r \<noteq> ''ROUTE_LOCAL''"
    by (auto simp: r'_def split: if_splits)
  ultimately show ?thesis by (simp add: class_action_def r_def)
qed

text \<open>What the stages between classification and the provider leave alone.\<close>

definition keeps_class :: "processing_context \<Rightarrow> processing_context \<Rightarrow> bool" where
  "keeps_class c c' \<longleftrightarrow> (classification_result c \<noteq> None \<longrightarrow>
     classification_result c' \<noteq> None \<and> class_action c' = class_action c)"

lemma keeps_class_trans: "keeps_class a b \<Longrightarrow> keeps_class b c \<Longrightarrow> keeps_class a c"
  by (simp add: keeps_class_def)

definition holds_detections :: "processing_context \<Rightarrow> processing_context \<Rightarrow> bool" where
  "holds_detections c c' \<longleftrightarrow> detections c' = detections c"

lemma locale_keeps: "keeps_class c (fst (fst (locale_execute gw (c, w))))"
  "decisions (snd (fst (locale_execute gw (c, w)))) = decisions w"
  by (simp_all add: locale_execute_def Let_def keeps_class_def class_action_def fail_with_def fail_secure_def set_audit_def
      split: sum.split prod.split)

lemma detection_keeps: "keeps_class c (fst (fst (detection_execute sv (c, w))))"
  "snd (fst (detection_execute sv (c, w))) = w"
proof -
  have "keeps_class c (fst (detected_context sv c))" for c
    by (simp add: detected_context_def Let_def keeps_class_def class_action_def fail_secure_def
        split: sum.split detect_exn.split)
  moreover have "keeps_class c (c\<lparr>text_nodes := ns\<rparr>)" for c ns
    by (simp add: keeps_class_def class_action_def)
  moreover have "keeps_class c c" by (simp add: keeps_class_def)
  ultimately show "keeps_class c (fst (fst (detection_execute sv (c, w))))"
    by (auto simp: detection_execute_context Let_def case_prod_beta intro: keeps_class_trans)
  show "snd (fst (detection_execute sv (c, w))) = w"
    by (simp add: detection_execute_context Let_def case_prod_beta)
qed

lemma sensitivity_keeps: "keeps_class c (fst (fst (sensitivity_execute gw (c, w))))"
  "holds_detections c (fst (fst (sensitivity_execute gw (c, w))))" "snd (fst (sensitivity_execute gw (c, w))) = w"
  by (simp_all add: sensitivity_execute_def Let_def keeps_class_def class_action_def holds_detections_def
      fail_with_def fail_secure_def set_audit_def)

lemma policy_keeps: "keeps_class c (fst (fst (policy_execute app (c, w))))"
  "holds_detections c (fst (fst (policy_execute app (c, w))))"
  by (simp_all add: policy_execute_def Let_def keeps_class_def class_action_def holds_detections_def merge_levels_def
      fail_with_def fail_secure_def split: option.split prod.split)

lemma inbound_dlp_keeps: "keeps_class c (fst (fst (inbound_dlp_execute app (c, w))))"
  "holds_detections c (fst (fst (inbound_dlp_execute app (c, w))))"
  by (simp_all add: inbound_dlp_execute_def Let_def keeps_class_def class_action_def holds_detections_def
      fail_secure_def split: option.split)

lemma evaluate_calls_only: "\<exists>es b. evaluate_calls te calls c = c\<lparr>errors := es, requires_approval := b\<rparr>"
proof (induction calls arbitrary: c)
  case Nil
  show ?case by (intro exI [of _ "errors c"] exI [of _ "requires_approval c"]) simp
next
  case (Cons call calls)
  obtain d err appr where e: "evaluate_tool te (provider c) (map_of (audit_metadata c) ''delegation_id'') call = (d, err, appr)"
    by (metis prod_cases3)
  define c2 where "c2 = (let c1 = (if appr then c\<lparr>requires_approval := True\<rparr> else c)
      in case err of None \<Rightarrow> c1 | Some msg \<Rightarrow> fail_secure (ToolBlockedError msg) c1)"
  have eq: "evaluate_calls te (call # calls) c = (if has_errors c2 then c2 else evaluate_calls te calls c2)"
    unfolding evaluate_calls.simps Let_def e prod.case c2_def by (rule refl)
  have "\<exists>es2 b2. c2 = c\<lparr>errors := es2, requires_approval := b2\<rparr>"
  proof (cases err)
    case None
    then show ?thesis
      by (intro exI [of _ "errors c"] exI [of _ "appr \<or> requires_approval c"]) (simp add: c2_def)
  next
    case (Some msg)
    then show ?thesis
      by (intro exI [of _ "errors c @ [ToolBlockedError msg]"] exI [of _ "appr \<or> requires_approval c"])
        (simp add: c2_def fail_secure_def)
  qed
  then obtain es2 b2 where c2: "c2 = c\<lparr>errors := es2, requires_approval := b2\<rparr>" by blast
  obtain es b where "evaluate_calls te calls c2 = c2\<lparr>errors := es, requires_approval := b\<rparr>" using Cons by blast
  with c2 eq show ?case by (cases "has_errors c2") auto
qed

lemma govern_messages_only: "\<exists>es b. govern_messages lib te fmt ms c = c\<lparr>errors := es, requires_approval := b\<rparr>"
proof (induction ms arbitrary: c)
  case Nil
  show ?case by (intro exI [of _ "errors c"] exI [of _ "requires_approval c"]) simp
next
  case (Cons m ms)
  show ?case
  proof (cases m)
    case (JObj msg)
    show ?thesis
    proof (cases "extract_calls lib msg fmt")
      case None
      then show ?thesis
        by (intro exI [of _ "errors c @ [ToolBlockedError ''Failed to extract tool calls: ToolExtractionError'']"]
            exI [of _ "requires_approval c"]) (simp add: JObj fail_secure_def)
    next
      case (Some calls)
      obtain es1 b1 where 1: "evaluate_calls te calls c = c\<lparr>errors := es1, requires_approval := b1\<rparr>"
        using evaluate_calls_only by blast
      obtain es b where 2: "govern_messages lib te fmt ms (evaluate_calls te calls c)
          = (evaluate_calls te calls c)\<lparr>errors := es, requires_approval := b\<rparr>" using Cons by blast
      show ?thesis
      proof (cases "calls \<noteq> [] \<and> has_errors (evaluate_calls te calls c)")
        case True
        then show ?thesis using 1 by (intro exI [of _ es1] exI [of _ b1]) (simp add: JObj Some Let_def)
      next
        case False
        then show ?thesis using 1 2 by (intro exI [of _ es] exI [of _ b]) (auto simp: JObj Some Let_def)
      qed
    qed
  qed (use Cons in simp_all)
qed

lemma tool_only: "\<exists>es b. tool_execute gw app (c, w) = ((c\<lparr>errors := es, requires_approval := b\<rparr>, w), None)"
proof -
  have same: "\<exists>es b. ((c, w), None) = ((c\<lparr>errors := es, requires_approval := b\<rparr>, w), None :: raised option)"
    by (intro exI [of _ "errors c"] exI [of _ "requires_approval c"]) simp
  show ?thesis
    using govern_messages_only [of "gw_json gw" _ _ _ c] same
    by (simp add: tool_execute_def split: option.split json.split)
qed

lemma tool_keeps: "keeps_class c (fst (fst (tool_execute gw app (c, w))))"
  "holds_detections c (fst (fst (tool_execute gw app (c, w))))"
  using tool_only [of gw app c w] by (auto simp: keeps_class_def class_action_def holds_detections_def)

end
