(* ===== verification/GatewayRuns.thy ===== *)
theory GatewayRuns
  imports Gateway
begin

text \<open>
  What a run of the gateway posts. The texts of all nodes are tokenized in one session; a request that
  reaches the provider passed every gate, and each of its text nodes reads there as its tokenized text.
\<close>

subsection \<open>Tokenizing all nodes\<close>

definition node_spans :: "span list \<Rightarrow> nat \<Rightarrow> string \<Rightarrow> span list" where
  "node_spans ds i u = non_overlapping u (map Spn (filter (\<lambda>d. node_index d = i) ds))"

definition hidden_text :: "session \<Rightarrow> span list \<Rightarrow> nat \<Rightarrow> string \<Rightarrow> string" where
  "hidden_text se ds i u = render u 0 (node_spans ds i u) (session_token se u)"

lemma node_spans_none: "\<forall>d \<in> set ds. node_index d \<noteq> i \<Longrightarrow> node_spans ds i u = []"
  by (simp add: node_spans_def non_overlapping_def filter_empty_conv)

lemma hidden_text_none: "\<forall>d \<in> set ds. node_index d \<noteq> i \<Longrightarrow> hidden_text se ds i u = u"
  by (simp add: hidden_text_def node_spans_none py_slice_full)

lemma session_token_mono:
  assumes "map_of (value_to_token se) \<subseteq>\<^sub>m map_of (value_to_token se')"
    and "map_of (value_to_token se) (span_value u s, reversible s) = Some t"
  shows "session_token se' u s = session_token se u s"
  using assms by (auto simp: session_token_def map_le_def dom_def)

lemma tokenize_nodes_properties:
  assumes "tokenize_nodes se i ns ds m0 = (se', ts, m)" "session_ok se" "mapping_ok se M"
  shows "session_ok se' \<and> map_of (value_to_token se) \<subseteq>\<^sub>m map_of (value_to_token se') \<and> length ts = length ns
    \<and> (\<forall>k < length ns. ts ! k = hidden_text se' ds (i + k) (node_text (ns ! k))
         \<and> (\<forall>s \<in> set (node_spans ds (i + k) (node_text (ns ! k))).
              map_of (value_to_token se') (span_value (node_text (ns ! k)) s, reversible s) \<noteq> None))"
  using assms
proof (induction se i ns ds m0 arbitrary: se' ts m M rule: tokenize_nodes.induct)
  case (1 se i ds m0)
  then show ?case by simp
next
  case (2 se i n ns ds m0)
  let ?nd = "filter (\<lambda>d. node_index d = i) ds"
  let ?u = "node_text n"
  show ?case
  proof (cases "?nd = []")
    case True
    obtain se1 ts1 m1 where r: "tokenize_nodes se (Suc i) ns ds m0 = (se1, ts1, m1)" by (metis prod_cases3)
    with "2.prems"(1) True have eq: "se' = se1" "ts = node_text n # ts1" by auto
    have "hidden_text se' ds i ?u = ?u" "node_spans ds i ?u = []"
      using True by (intro hidden_text_none node_spans_none; auto simp: filter_empty_conv)+
    with "2.IH"(1) [OF refl True r "2.prems"(2,3)] eq show ?thesis by (auto simp: nth_Cons' gr0_conv_Suc)
  next
    case False
    obtain se1 t nm where tk: "tokenize se ?u (map Spn ?nd) = (se1, t, nm)" by (metis prod_cases3)
    obtain se2 ts2 m2 where r: "tokenize_nodes se1 (Suc i) ns ds (dict_update m0 nm) = (se2, ts2, m2)"
      by (metis prod_cases3)
    with "2.prems"(1) False tk have eq: "se' = se2" "ts = t # ts2" by (auto simp: Let_def)
    note P = tokenize_properties [OF tk "2.prems"(2,3)]
    note IH = "2.IH"(2) [OF refl False refl tk [symmetric] refl r P(1,2)]
    have "t = hidden_text se' ds i ?u"
      unfolding P(6) hidden_text_def node_spans_def
      using P(5) IH eq by (intro render_cong) (metis session_token_mono)
    moreover have "map_of (value_to_token se') (span_value ?u s, reversible s) \<noteq> None" if "s \<in> set (node_spans ds i ?u)" for s
      using P(5) IH eq that unfolding node_spans_def by (metis domD domI map_le_def option.distinct(1))
    ultimately show ?thesis using IH P(4) eq by (auto simp: nth_Cons' gr0_conv_Suc intro: map_le_trans)
  qed
qed

lemma node_writes_fst: "length ts = length ns \<Longrightarrow> map fst (node_writes ns ts ds) = ns"
  by (rule nth_equalityI) (simp_all add: node_writes_def case_prod_beta)

lemma node_writes_nth:
  assumes "length ts = length ns" "k < length ns"
  shows "\<exists>b. (ns ! k, ts ! k, b) \<in> set (node_writes ns ts ds)"
proof -
  have "node_writes ns ts ds ! k = (ns ! k, ts ! k, list_ex (\<lambda>d. node_index d = k) ds)" "k < length (node_writes ns ts ds)"
    using assms by (simp_all add: node_writes_def)
  then show ?thesis by (metis nth_mem)
qed

subsection \<open>The body the tokenization stage builds\<close>

text \<open>
  The session a request's texts are tokenized in and the body written from them. Each text node of the
  body reads its hidden text, in which a token of the session stands for every accepted span.
\<close>

definition request_session :: "gateway \<Rightarrow> request_info \<Rightarrow> span list \<Rightarrow> session" where
  "request_session gw ri ds =
     fst (tokenize_nodes (initialize_session (gw_seed gw) new_tokenizer) 0 (extract_text (ri_body ri)) ds [])"

definition tokenized_body :: "gateway \<Rightarrow> request_info \<Rightarrow> span list \<Rightarrow> (string \<times> json) list option" where
  "tokenized_body gw ri ds =
     (if ds = [] then Some (ri_body ri)
      else (let ns = extract_text (ri_body ri);
                (se, texts, mapping) = tokenize_nodes (initialize_session (gw_seed gw) new_tokenizer) 0 ns ds []
            in case write_nodes (JObj (ri_body ri)) (node_writes ns texts ds) of Some (JObj body) \<Rightarrow> Some body | _ \<Rightarrow> None))"

definition carries_hidden :: "(string \<times> json) list \<Rightarrow> text_node list \<Rightarrow> session \<Rightarrow> span list \<Rightarrow> bool" where
  "carries_hidden body ns se ds \<longleftrightarrow>
     (\<forall>k < length ns. read_keys (JObj body) (node_keys (ns ! k))
        = Some (JStr (hidden_text se ds k (node_text (ns ! k))))
        \<and> (\<forall>s \<in> set (node_spans ds k (node_text (ns ! k))). \<exists>ty n. session_token se (node_text (ns ! k)) s = mk_token ty n))"

lemma session_token_form:
  assumes "session_ok se" "map_of (value_to_token se) (span_value u s, reversible s) \<noteq> None"
  shows "\<exists>ty n. session_token se u s = mk_token ty n"
  using assms unfolding session_ok_def session_token_def by fastforce

lemma tokenized_body_hidden:
  assumes "tokenized_body gw ri ds = Some body"
  shows "carries_hidden body (extract_text (ri_body ri)) (request_session gw ri ds) ds"
proof (cases "ds = []")
  case True
  have "read_keys (JObj (ri_body ri)) (node_keys (extract_text (ri_body ri) ! k)) = Some (JStr (node_text (extract_text (ri_body ri) ! k)))"
    if "k < length (extract_text (ri_body ri))" for k
    using extract_text_at [of "extract_text (ri_body ri) ! k" "ri_body ri"] that by simp
  with True assms show ?thesis
    by (simp add: carries_hidden_def hidden_text_none node_spans_none tokenized_body_def)
next
  case False
  let ?ns = "extract_text (ri_body ri)"
  obtain se ts m where tn: "tokenize_nodes (initialize_session (gw_seed gw) new_tokenizer) 0 ?ns ds [] = (se, ts, m)"
    by (metis prod_cases3)
  note T = tokenize_nodes_properties [OF tn session_ok_initialize mapping_ok_initialize]
  have se: "request_session gw ri ds = se" by (simp add: request_session_def tn)
  have wa: "well_addressed (JObj (ri_body ri)) (map fst (node_writes ?ns ts ds))"
    using T by (simp add: node_writes_fst extract_text_addressed)
  from write_nodes_total [OF wa] obtain doc where doc: "write_nodes (JObj (ri_body ri)) (node_writes ?ns ts ds) = Some doc"
    "\<forall>(n, t, _) \<in> set (node_writes ?ns ts ds). read_keys doc (node_keys n) = Some (JStr t)" by blast
  have body: "doc = JObj body" using assms False tn doc(1) by (auto simp: tokenized_body_def split: json.splits)
  show ?thesis
    unfolding carries_hidden_def se
  proof (intro allI impI conjI ballI)
    fix k assume k: "k < length ?ns"
    then obtain bb where "(?ns ! k, ts ! k, bb) \<in> set (node_writes ?ns ts ds)"
      using node_writes_nth [of ts ?ns k ds] T by auto
    with doc(2) body have "read_keys (JObj body) (node_keys (?ns ! k)) = Some (JStr (ts ! k))" by blast
    then show "read_keys (JObj body) (node_keys (?ns ! k)) = Some (JStr (hidden_text se ds k (node_text (?ns ! k))))"
      using T k by simp
    fix s assume "s \<in> set (node_spans ds k (node_text (?ns ! k)))"
    then show "\<exists>ty n. session_token se (node_text (?ns ! k)) s = mk_token ty n"
      using T k by (intro session_token_form) auto
  qed
qed

lemma tokenization_clean:
  assumes ex: "tokenization_execute gw (c, w) = ((c', w'), None)" "\<not> has_errors c'"
    and c: "class_action c \<noteq> ''BLOCK''" "original_request c = Some (ri_body ri)" "text_nodes c = Some (extract_text (ri_body ri))"
    and d: "detections c = Some ds"
  shows "\<exists>body. transformed_request c' = Some body \<and> tokenized_body gw ri ds = Some body"
proof (cases ds)
  case Nil
  then have "c' = c\<lparr>transformed_request := Some (ri_body ri), token_mappings := Some []\<rparr>"
    using ex(1) c d by (simp add: tokenization_execute_def)
  then show ?thesis using Nil by (simp add: tokenized_body_def)
next
  case (Cons x xs)
  let ?ns = "extract_text (ri_body ri)"
  obtain se ts m where tn: "tokenize_nodes (initialize_session (gw_seed gw) new_tokenizer) 0 ?ns ds [] = (se, ts, m)"
    by (metis prod_cases3)
  show ?thesis
  proof (cases "\<exists>body. write_nodes (JObj (ri_body ri)) (node_writes ?ns ts ds) = Some (JObj body)")
    case True
    then obtain body where body: "write_nodes (JObj (ri_body ri)) (node_writes ?ns ts ds) = Some (JObj body)" by blast
    have "transformed_request c' = Some body"
      using ex c d Cons tn body
      by (auto simp: tokenization_execute_def Let_def split: if_splits option.splits)
    then show ?thesis using Cons tn body by (simp add: tokenized_body_def)
  next
    case False
    then have "c' = fail_with 500 ''Tokenization stage failed'' c"
      using ex(1) c d Cons tn
      by (auto simp: tokenization_execute_def Let_def split: option.splits json.splits)
    with ex(2) show ?thesis by simp
  qed
qed

lemma guard_clean:
  assumes "guard_execute gw (c, w) = ((c', w'), None)" "\<not> has_errors c'"
  shows "transformed_request c' = transformed_request c \<and> w' = w \<and> detections c \<noteq> None
    \<and> classification_result c \<noteq> None \<and> class_action c' = class_action c"
  using assms by (auto simp: guard_execute_def Let_def class_action_def split: option.splits if_splits)

lemma read_model_update:
  assumes "message_key i ks"
  shows "read_keys (JObj (AList.update ''model'' v b)) ks = read_keys (JObj b) ks"
proof -
  have "ks = KName ''messages'' # tl ks"
    using assms by (auto simp: message_key_def content_keys_def arguments_keys_def)
  moreover have "get_key (JObj (AList.update ''model'' v b)) (KName ''messages'') = get_key (JObj b) (KName ''messages'')"
    by (simp add: get_key_def map_of_update)
  ultimately show ?thesis by (metis read_keys.simps(2))
qed

text \<open>The body a provider stage sends is the tokenized one, up to the model's name.\<close>

definition same_but_model :: "(string \<times> json) list \<Rightarrow> (string \<times> json) list \<Rightarrow> bool" where
  "same_but_model body b \<longleftrightarrow> body = b \<or> (\<exists>m. body = AList.update ''model'' (JStr m) b)"

lemma provider_posts:
  assumes "provider_execute gw (c, w) = ((c', w'), r)"
  shows "posted w' = posted w
    \<or> (\<exists>b body. transformed_request c = Some b \<and> posted w' = posted w @ [body] \<and> same_but_model body b)"
  using assms
  by (auto simp: provider_execute_def Let_def same_but_model_def split: option.splits if_splits prod.splits)

lemma carries_hidden_model:
  assumes "carries_hidden b (extract_text b0) se ds" "same_but_model body b"
  shows "carries_hidden body (extract_text b0) se ds"
proof -
  have "read_keys (JObj body) (node_keys n) = read_keys (JObj b) (node_keys n)" if "n \<in> set (extract_text b0)" for n
    using assms(2) extract_text_at [OF that] read_model_update unfolding same_but_model_def by metis
  with assms(1) show ?thesis by (simp add: carries_hidden_def)
qed

subsection \<open>Tool governance\<close>

abbreviation call_permission :: "tool_evaluator \<Rightarrow> processing_context \<Rightarrow> tool_call \<Rightarrow> tool_permission" where
  "call_permission te c call \<equiv>
     td_permission (fst (evaluate_tool te (provider c) (map_of (audit_metadata c) ''delegation_id'') call))"

lemma evaluate_calls_allowed:
  assumes "\<not> has_errors (evaluate_calls te calls c)" "call \<in> set calls"
  shows "call_permission te c call \<noteq> BlockTool"
  using assms
proof (induction calls arbitrary: c)
  case (Cons a calls)
  obtain d err appr where e: "evaluate_tool te (provider c) (map_of (audit_metadata c) ''delegation_id'') a = (d, err, appr)"
    by (metis prod_cases3)
  define c1 where "c1 = (if appr then c\<lparr>requires_approval := True\<rparr> else c)"
  define c2 where "c2 = (case err of None \<Rightarrow> c1 | Some msg \<Rightarrow> fail_secure (ToolBlockedError msg) c1)"
  have eq: "evaluate_calls te (a # calls) c = (if has_errors c2 then c2 else evaluate_calls te calls c2)"
    unfolding evaluate_calls.simps Let_def e prod.case c2_def c1_def by (rule refl)
  with Cons.prems(1) have ne: "\<not> has_errors c2" "\<not> has_errors (evaluate_calls te calls c2)" by (auto split: if_splits)
  have "err = None"
  proof (cases err)
    case (Some msg)
    then have "has_errors c2" by (simp add: c2_def)
    with ne show ?thesis by simp
  qed
  then have c2: "provider c2 = provider c" "audit_metadata c2 = audit_metadata c" by (simp_all add: c2_def c1_def)
  show ?case
  proof (cases "call = a")
    case True
    have "td_permission d \<noteq> BlockTool"
      using evaluate_tool_blocked [of te "provider c" "map_of (audit_metadata c) ''delegation_id''" a] e \<open>err = None\<close> by simp
    then show ?thesis using True e by simp
  next
    case False
    then show ?thesis using Cons.IH [OF ne(2)] Cons.prems(2) c2 by simp
  qed
qed simp

lemma has_errors_keeps: "keeps_request c c' \<Longrightarrow> \<not> has_errors c' \<Longrightarrow> \<not> has_errors c"
  by (auto simp: keeps_request_def has_errors_def prefix_def)

lemma govern_messages_allowed:
  assumes "\<not> has_errors (govern_messages lib te fmt ms c)" "JObj msg \<in> set ms"
  shows "\<exists>calls. extract_calls lib msg fmt = Some calls \<and> list_all (\<lambda>call. call_permission te c call \<noteq> BlockTool) calls"
  using assms
proof (induction ms arbitrary: c)
  case (Cons m ms)
  have same: "provider (evaluate_calls te calls c) = provider c" "audit_metadata (evaluate_calls te calls c) = audit_metadata c"
    for calls using evaluate_calls_only [of te calls c] by auto
  show ?case
  proof (cases m)
    case (JObj msg')
    show ?thesis
    proof (cases "extract_calls lib msg' fmt")
      case None
      with Cons.prems(1) JObj show ?thesis by simp
    next
      case (Some calls)
      let ?c = "evaluate_calls te calls c"
      have g: "govern_messages lib te fmt (m # ms) c
          = (if calls \<noteq> [] \<and> has_errors ?c then ?c else govern_messages lib te fmt ms ?c)"
        by (simp add: JObj Some Let_def)
      with Cons.prems(1) have ne: "\<not> has_errors (govern_messages lib te fmt ms ?c)" by (auto split: if_splits)
      have ok: "\<not> has_errors ?c" by (rule has_errors_keeps [OF govern_messages_keeps ne])
      show ?thesis
      proof (cases "msg' = msg")
        case True
        then show ?thesis using Some evaluate_calls_allowed [OF ok] by (auto simp: list_all_iff)
      next
        case False
        with Cons.prems(2) JObj have "JObj msg \<in> set ms" by simp
        from Cons.IH [OF ne this] show ?thesis unfolding same .
      qed
    qed
  qed (use Cons in auto)
qed simp

subsection \<open>Gates\<close>

text \<open>The level the classification of a request's detections gives it, which the gates work with.\<close>

definition request_level :: "gateway \<Rightarrow> request_info \<Rightarrow> span list \<Rightarrow> level_result" where
  "request_level gw ri ds = service_classify (gw_entity_map gw) (gw_set_list gw (map entity_type ds)) (ri_client_level ri)"

definition level_admitted :: "gateway \<Rightarrow> request_info \<Rightarrow> level_result \<Rightarrow> bool" where
  "level_admitted gw ri r \<longleftrightarrow> handling_action r \<noteq> ''block''
     \<or> ri_client_level ri = None \<and> upper (case gw_default_action gw of None \<Rightarrow> [] | Some a \<Rightarrow> a) = ''ANONYMIZE''"

lemma sensitivity_clean:
  assumes "sensitivity_execute gw (c, w) = ((c', w'), None)" "\<not> has_errors c'"
    and "detections c = Some ds" "client_classification c = ri_client_level ri"
  shows "classification_result_v2 c' = Some (request_level gw ri ds) \<and> level_admitted gw ri (request_level gw ri ds)"
  using assms by (auto simp: sensitivity_execute_def Let_def request_level_def level_admitted_def set_audit_def split: if_splits)

lemma policy_clean:
  assumes "policy_execute (Some a) (c, w) = ((c', w'), None)" "\<not> has_errors c'" "as_policy a = Some pe"
    and "classification_result_v2 c = Some r"
  shows "pd_action (fst (evaluate_all (pe_services pe) (pe_get pe) (pe_set pe) (pe_now pe) (decisions w)
      (tenant_id c) (model c) (level_name (highest r)) (provider c))) \<in> {ALLOW, FLAG_AND_FORWARD}"
proof -
  define c1 where "c1 = c\<lparr>classification_result := Some (merge_levels (classification_result c) r)\<rparr>"
  have lv: "(case classification_result c1 of None \<Rightarrow> []
      | Some r \<Rightarrow> (case classification_level r of None \<Rightarrow> [] | Some l \<Rightarrow> l)) = level_name (highest r)"
    by (simp add: c1_def merge_levels_def)
  have same: "tenant_id c1 = tenant_id c" "model c1 = model c" "provider c1 = provider c"
    by (simp_all add: c1_def)
  obtain d cache where e: "evaluate_all (pe_services pe) (pe_get pe) (pe_set pe) (pe_now pe) (decisions w)
      (tenant_id c) (model c) (level_name (highest r)) (provider c) = (d, cache)" by fastforce
  have "\<exists>n tr. should_forward (enforce d n tr (pe_decision_id pe) (pe_stamp pe))"
    using assms(1,2) e
    unfolding policy_execute_def Let_def prod.case option.case assms(3,4) c1_def [symmetric] same lv
    by (auto split: if_splits)
  then show ?thesis using e enforce_forward by (metis fst_conv insertCI)
qed

lemma inbound_dlp_clean:
  assumes "inbound_dlp_execute (Some a) (c, w) = ((c', w'), None)" "\<not> has_errors c'" "as_dlp a = Some e"
    "text_nodes c = Some ns"
  shows "\<exists>r. inspect_request e ns (tenant_id c) = Some r \<and> \<not> dr_blocked r"
  using assms by (auto simp: inbound_dlp_execute_def Let_def split: option.splits if_splits)

definition keeps_route :: "processing_context \<Rightarrow> processing_context \<Rightarrow> bool" where
  "keeps_route c c' \<longleftrightarrow> model c' = model c \<and> provider c' = provider c
     \<and> map_of (audit_metadata c') ''delegation_id'' = map_of (audit_metadata c) ''delegation_id''"

lemma keeps_route_trans: "keeps_route a b \<Longrightarrow> keeps_route b c \<Longrightarrow> keeps_route a c"
  by (simp add: keeps_route_def)

lemma early_route:
  "keeps_route c (fst (fst (classification_execute gw (c, w))))"
  "keeps_route c (fst (fst (locale_execute gw (c, w))))"
  "keeps_route c (fst (fst (detection_execute sv (c, w))))"
  "keeps_route c (fst (fst (sensitivity_execute gw (c, w))))"
  "keeps_route c (fst (fst (policy_execute app (c, w))))"
  "keeps_route c (fst (fst (inbound_dlp_execute app (c, w))))"
proof -
  show "keeps_route c (fst (fst (classification_execute gw (c, w))))"
    by (simp add: keeps_route_def classification_execute_def Let_def fail_with_def fail_secure_def)
  show "keeps_route c (fst (fst (locale_execute gw (c, w))))"
    by (simp add: keeps_route_def locale_execute_def Let_def fail_with_def fail_secure_def set_audit_def map_of_update
        split: sum.split prod.split)
  have "keeps_route c (fst (detected_context sv c))" for c
    by (simp add: keeps_route_def detected_context_def Let_def fail_secure_def split: sum.split detect_exn.split)
  moreover have "keeps_route c (c\<lparr>text_nodes := ns\<rparr>)" "keeps_route c c" for ns by (simp_all add: keeps_route_def)
  ultimately show "keeps_route c (fst (fst (detection_execute sv (c, w))))"
    by (auto simp: detection_execute_context Let_def case_prod_beta intro: keeps_route_trans)
  show "keeps_route c (fst (fst (sensitivity_execute gw (c, w))))"
    by (simp add: keeps_route_def sensitivity_execute_def Let_def fail_with_def fail_secure_def set_audit_def map_of_update)
  show "keeps_route c (fst (fst (policy_execute app (c, w))))"
    by (simp add: keeps_route_def policy_execute_def Let_def fail_with_def fail_secure_def split: option.split prod.split)
  show "keeps_route c (fst (fst (inbound_dlp_execute app (c, w))))"
    by (simp add: keeps_route_def inbound_dlp_execute_def Let_def fail_secure_def split: option.split)
qed

lemma framed_step: "framed f \<Longrightarrow> f (c, w) = ((c', w'), r) \<Longrightarrow> keeps_request c c'"
  unfolding framed_def by (metis fst_conv)

text \<open>The context a request enters the pipeline with, and what stays of it.\<close>

definition intake :: "request_info \<Rightarrow> processing_context \<Rightarrow> bool" where
  "intake ri c \<longleftrightarrow> original_request c = Some (ri_body ri) \<and> text_nodes c = Some (extract_text (ri_body ri))
     \<and> tenant_id c = ri_tenant ri \<and> client_classification c = ri_client_level ri"

lemma intake_new: "intake ri (new_request_context ri)"
  "model (new_request_context ri) = Some (ri_model ri)" "provider (new_request_context ri) = None"
  "map_of (audit_metadata (new_request_context ri)) ''delegation_id'' = None"
  by (simp_all add: intake_def new_request_context_def new_processing_context_def Let_def set_audit_def)

lemma intake_step: "intake ri c \<Longrightarrow> keeps_request c c' \<Longrightarrow> intake ri c'"
  by (simp add: intake_def keeps_request_def)

text \<open>
  What passing the gates means for a request whose detections are \<open>ds\<close>: the classification of its text
  and the level of its detections do not stop it, the decision point allows it at that level, the DLP
  engine does not block a text node, and no tool call in a message is forbidden. The provider is not
  known yet and no delegation is recorded.
\<close>

definition tools_admitted :: "gateway \<Rightarrow> app_state option \<Rightarrow> request_info \<Rightarrow> bool" where
  "tools_admitted gw app ri \<longleftrightarrow>
     (\<forall>a te fmt ms msg. app = Some a \<and> as_tools a = Some te \<and> detect_format (ri_body ri) = Some fmt
        \<and> map_of (ri_body ri) ''messages'' = Some (JList ms) \<and> JObj msg \<in> set ms \<longrightarrow>
        (\<exists>calls. extract_calls (gw_json gw) msg fmt = Some calls
           \<and> list_all (\<lambda>call. td_permission (fst (evaluate_tool te None None call)) \<noteq> BlockTool) calls))"

definition admitted_for :: "gateway \<Rightarrow> app_state option \<Rightarrow> request_info \<Rightarrow> string option \<Rightarrow> span list \<Rightarrow> world \<Rightarrow> bool" where
  "admitted_for gw app ri mdl ds w \<longleftrightarrow>
     co_action (classify (gw_engine gw) (extract_text (ri_body ri))) \<notin> {''BLOCK'', ''ROUTE_LOCAL''}
     \<and> level_admitted gw ri (request_level gw ri ds)
     \<and> (\<forall>a pe. app = Some a \<and> as_policy a = Some pe \<longrightarrow>
          pd_action (fst (evaluate_all (pe_services pe) (pe_get pe) (pe_set pe) (pe_now pe) (decisions w)
             (ri_tenant ri) mdl (level_name (highest (request_level gw ri ds))) None)) \<in> {ALLOW, FLAG_AND_FORWARD})
     \<and> (\<forall>a e. app = Some a \<and> as_dlp a = Some e \<longrightarrow>
          (\<exists>r. inspect_request e (extract_text (ri_body ri)) (ri_tenant ri) = Some r \<and> \<not> dr_blocked r))
     \<and> tools_admitted gw app ri"

text \<open>The detections are those the first three stages leave on the request.\<close>

definition request_detections :: "gateway \<Rightarrow> gstate \<Rightarrow> span list option" where
  "request_detections gw st =
     detections (fst (fst (detection_execute (gw_detect gw) (fst (locale_execute gw (fst (classification_execute gw st)))))))"

text \<open>What may leave the gateway for a request: its tokenized body, the model's name aside, if it is admitted.\<close>

definition safe_body :: "gateway \<Rightarrow> app_state option \<Rightarrow> request_info \<Rightarrow> string option \<Rightarrow> span list \<Rightarrow> world
    \<Rightarrow> (string \<times> json) list \<Rightarrow> bool" where
  "safe_body gw app ri mdl ds w body \<longleftrightarrow> admitted_for gw app ri mdl ds w
     \<and> (\<exists>b. tokenized_body gw ri ds = Some b \<and> same_but_model body b)
     \<and> carries_hidden body (extract_text (ri_body ri)) (request_session gw ri ds) ds"

lemma safe_bodyI:
  assumes "admitted_for gw app ri mdl ds w" "tokenized_body gw ri ds = Some b" "same_but_model body b"
  shows "safe_body gw app ri mdl ds w body"
  using assms carries_hidden_model [OF tokenized_body_hidden [OF assms(2)] assms(3)] by (auto simp: safe_body_def)

lemma tokenization_holds: "holds_detections c (fst (fst (tokenization_execute gw (c, w))))"
  by (simp add: tokenization_execute_def Let_def holds_detections_def fail_with_def fail_secure_def
      split: option.split json.split prod.split list.split)

lemma clean_run_mk:
  assumes "clean_run (mk_stage n f # ss) (c, w) = Some sj"
  shows "\<exists>c' w'. f (c, w) = ((c', w'), None) \<and> \<not> has_errors c \<and> \<not> has_errors c' \<and> clean_run ss (c', w') = Some sj"
proof -
  obtain st1 where st1: "clean_exec (mk_stage n f) (c, w) st1" "clean_run ss st1 = Some sj"
    using clean_run_ConsE [OF assms] by blast
  then show ?thesis
    by (intro exI [of _ "fst st1"] exI [of _ "snd st1"]) (simp add: clean_exec_def mk_stage_def)
qed

text \<open>The states between the nine stages before the provider.\<close>

lemma pre_provider_states:
  assumes "clean_run (build_pre_provider_pipeline gw app) (c0, w0) = Some (c9, w9)"
  shows "\<exists>c1 w1 c2 w2 c3 w3 c4 w4 c5 w5 c6 w6 c7 w7 c8 w8.
      clean_exec (mk_stage ''ClassificationStage'' (classification_execute gw)) (c0, w0) (c1, w1)
    \<and> locale_execute gw (c1, w1) = ((c2, w2), None)
    \<and> detection_execute (gw_detect gw) (c2, w2) = ((c3, w3), None) \<and> \<not> has_errors c3
    \<and> sensitivity_execute gw (c3, w3) = ((c4, w4), None) \<and> \<not> has_errors c4
    \<and> policy_execute app (c4, w4) = ((c5, w5), None) \<and> \<not> has_errors c5
    \<and> inbound_dlp_execute app (c5, w5) = ((c6, w6), None) \<and> \<not> has_errors c6
    \<and> tool_execute gw app (c6, w6) = ((c7, w7), None) \<and> \<not> has_errors c7
    \<and> tokenization_execute gw (c7, w7) = ((c8, w8), None) \<and> \<not> has_errors c8
    \<and> guard_execute gw (c8, w8) = ((c9, w9), None) \<and> \<not> has_errors c9"
proof -
  let ?s9 = "[] :: stage list"
  let ?s8 = "mk_stage ''ForwardingGuard'' (guard_execute gw) # ?s9"
  let ?s7 = "mk_stage ''TokenizationStage'' (tokenization_execute gw) # ?s8"
  let ?s6 = "mk_stage ''ToolGovernanceStage'' (tool_execute gw app) # ?s7"
  let ?s5 = "mk_stage ''InboundDLPStage'' (inbound_dlp_execute app) # ?s6"
  let ?s4 = "mk_stage ''PolicyEnforcementStage'' (policy_execute app) # ?s5"
  let ?s3 = "mk_stage ''SensitivityClassificationStage'' (sensitivity_execute gw) # ?s4"
  let ?s2 = "mk_stage ''DetectionStage'' (detection_execute (gw_detect gw)) # ?s3"
  let ?s1 = "mk_stage ''LocaleNegotiationStage'' (locale_execute gw) # ?s2"
  let ?s0 = "mk_stage ''ClassificationStage'' (classification_execute gw) # ?s1"
  have r0: "clean_run ?s0 (c0, w0) = Some (c9, w9)"
    using assms unfolding build_pre_provider_pipeline_def shared_stages_def append.simps .
  from clean_run_mk [OF r0] obtain c1 w1 where s1: "(classification_execute gw) (c0, w0) = ((c1, w1), None)"
    "\<not> has_errors c0" "\<not> has_errors c1" and r1: "clean_run ?s1 (c1, w1) = Some (c9, w9)" by blast
  from clean_run_mk [OF r1] obtain c2 w2 where s2: "(locale_execute gw) (c1, w1) = ((c2, w2), None)"
    "\<not> has_errors c1" "\<not> has_errors c2" and r2: "clean_run ?s2 (c2, w2) = Some (c9, w9)" by blast
  from clean_run_mk [OF r2] obtain c3 w3 where s3: "(detection_execute (gw_detect gw)) (c2, w2) = ((c3, w3), None)"
    "\<not> has_errors c2" "\<not> has_errors c3" and r3: "clean_run ?s3 (c3, w3) = Some (c9, w9)" by blast
  from clean_run_mk [OF r3] obtain c4 w4 where s4: "(sensitivity_execute gw) (c3, w3) = ((c4, w4), None)"
    "\<not> has_errors c3" "\<not> has_errors c4" and r4: "clean_run ?s4 (c4, w4) = Some (c9, w9)" by blast
  from clean_run_mk [OF r4] obtain c5 w5 where s5: "(policy_execute app) (c4, w4) = ((c5, w5), None)"
    "\<not> has_errors c4" "\<not> has_errors c5" and r5: "clean_run ?s5 (c5, w5) = Some (c9, w9)" by blast
  from clean_run_mk [OF r5] obtain c6 w6 where s6: "(inbound_dlp_execute app) (c5, w5) = ((c6, w6), None)"
    "\<not> has_errors c5" "\<not> has_errors c6" and r6: "clean_run ?s6 (c6, w6) = Some (c9, w9)" by blast
  from clean_run_mk [OF r6] obtain c7 w7 where s7: "(tool_execute gw app) (c6, w6) = ((c7, w7), None)"
    "\<not> has_errors c6" "\<not> has_errors c7" and r7: "clean_run ?s7 (c7, w7) = Some (c9, w9)" by blast
  from clean_run_mk [OF r7] obtain c8 w8 where s8: "(tokenization_execute gw) (c7, w7) = ((c8, w8), None)"
    "\<not> has_errors c7" "\<not> has_errors c8" and r8: "clean_run ?s8 (c8, w8) = Some (c9, w9)" by blast
  from clean_run_mk [OF r8] have s9: "guard_execute gw (c8, w8) = ((c9, w9), None)" "\<not> has_errors c9" by auto
  have "clean_exec (mk_stage ''ClassificationStage'' (classification_execute gw)) (c0, w0) (c1, w1)"
    using s1 by (simp add: clean_exec_def mk_stage_def)
  with s2 s3 s4 s5 s6 s7 s8 s9 show ?thesis by blast
qed

lemma gateway_clean_prefix_from:
  assumes "clean_run (take 9 (build_pipeline gw app)) (c0, w) = Some (c9, w9)" "intake ri c0" "provider c0 = None"
    and "map_of (audit_metadata c0) ''delegation_id'' = None"
  shows "\<exists>ds body. transformed_request c9 = Some body \<and> request_detections gw (c0, w) = Some ds
    \<and> admitted_for gw app ri (model c0) ds w \<and> tokenized_body gw ri ds = Some body"
proof -
  have "take 9 (build_pipeline gw app) = build_pre_provider_pipeline gw app"
    by (simp add: pipeline_defs)
  with assms(1) have run: "clean_run (build_pre_provider_pipeline gw app) (c0, w) = Some (c9, w9)" by simp
  obtain c1 w1 c2 w2 c3 w3 c4 w4 c5 w5 c6 w6 c7 w7 c8 w8 where
    s1: "clean_exec (mk_stage ''ClassificationStage'' (classification_execute gw)) (c0, w) (c1, w1)"
    and s2: "locale_execute gw (c1, w1) = ((c2, w2), None)"
    and s3: "detection_execute (gw_detect gw) (c2, w2) = ((c3, w3), None)" "\<not> has_errors c3"
    and s4: "sensitivity_execute gw (c3, w3) = ((c4, w4), None)" "\<not> has_errors c4"
    and s5: "policy_execute app (c4, w4) = ((c5, w5), None)" "\<not> has_errors c5"
    and s6: "inbound_dlp_execute app (c5, w5) = ((c6, w6), None)" "\<not> has_errors c6"
    and s7: "tool_execute gw app (c6, w6) = ((c7, w7), None)" "\<not> has_errors c7"
    and s8: "tokenization_execute gw (c7, w7) = ((c8, w8), None)" "\<not> has_errors c8"
    and s9: "guard_execute gw (c8, w8) = ((c9, w9), None)" "\<not> has_errors c9"
    using pre_provider_states [OF run] by blast
  have e1: "classification_execute gw (c0, w) = ((c1, w1), None)"
    using s1 by (simp add: clean_exec_def mk_stage_def)
  note step = intake_step [OF _ framed_step]
  have i0: "intake ri c0" by (rule assms(2))
  have i1: "intake ri c1" by (rule step [OF i0 classification_framed(1) e1])
  have i2: "intake ri c2" by (rule step [OF i1 locale_framed(1) s2])
  have i3: "intake ri c3" by (rule step [OF i2 detection_framed(1) s3(1)])
  have i4: "intake ri c4" by (rule step [OF i3 sensitivity_framed(1) s4(1)])
  have i5: "intake ri c5" by (rule step [OF i4 policy_framed(1) s5(1)])
  have i6: "intake ri c6" by (rule step [OF i5 inbound_dlp_framed(1) s6(1)])
  have i7: "intake ri c7" by (rule step [OF i6 tool_framed(1) s7(1)])
  note C = classification_clean [OF s1, of "extract_text (ri_body ri)"]
  have cl1: "classification_result c1 \<noteq> None" "class_action c1 \<noteq> ''BLOCK''" "w1 = w"
    and adm1: "co_action (classify (gw_engine gw) (extract_text (ri_body ri))) \<notin> {''BLOCK'', ''ROUTE_LOCAL''}"
    using C i0 by (auto simp: intake_def)
  have k2: "keeps_class c1 c2" using locale_keeps(1) [of c1 gw w1] s2 by simp
  have k3: "keeps_class c2 c3" using detection_keeps(1) [of c2 "gw_detect gw" w2] s3 by simp
  have k4: "keeps_class c3 c4" using sensitivity_keeps(1) [of c3 gw w3] s4 by simp
  have k5: "keeps_class c4 c5" using policy_keeps(1) [of c4 app w4] s5 by simp
  have k6: "keeps_class c5 c6" using inbound_dlp_keeps(1) [of c5 app w5] s6 by simp
  have k7: "keeps_class c6 c7" using tool_keeps(1) [of c6 gw app w6] s7 by simp
  have "keeps_class c1 c3" by (rule keeps_class_trans [OF k2 k3])
  then have "keeps_class c1 c5" by (blast intro: keeps_class_trans k4 k5)
  then have "keeps_class c1 c7" by (blast intro: keeps_class_trans k6 k7)
  then have cl7: "class_action c7 \<noteq> ''BLOCK''" "class_action c2 \<noteq> ''BLOCK''"
    using cl1 k2 by (auto simp: keeps_class_def)
  have d4: "detections c4 = detections c3" using sensitivity_keeps(2) [of c3 gw w3] s4 by (simp add: holds_detections_def)
  have d5: "detections c5 = detections c4" using policy_keeps(2) [of c4 app w4] s5 by (simp add: holds_detections_def)
  have d6: "detections c6 = detections c5" using inbound_dlp_keeps(2) [of c5 app w5] s6 by (simp add: holds_detections_def)
  have d7: "detections c7 = detections c6" using tool_keeps(2) [of c6 gw app w6] s7 by (simp add: holds_detections_def)
  have r1: "keeps_route c0 c1" using early_route(1) [of c0 gw w] e1 by simp
  have r2: "keeps_route c1 c2" using early_route(2) [of c1 gw w1] s2 by simp
  have r3: "keeps_route c2 c3" using early_route(3) [of c2 "gw_detect gw" w2] s3 by simp
  have r4: "keeps_route c3 c4" using early_route(4) [of c3 gw w3] s4 by simp
  have r5: "keeps_route c4 c5" using early_route(5) [of c4 app w4] s5 by simp
  have r6: "keeps_route c5 c6" using early_route(6) [of c5 app w5] s6 by simp
  have "keeps_route c0 c4" by (rule keeps_route_trans [OF keeps_route_trans [OF keeps_route_trans [OF r1 r2] r3] r4])
  then have route: "model c4 = model c0" "provider c4 = None" by (simp_all add: keeps_route_def assms(3))
  have "keeps_route c0 c6" by (rule keeps_route_trans [OF keeps_route_trans [OF \<open>keeps_route c0 c4\<close> r5] r6])
  then have route6: "provider c6 = None" "map_of (audit_metadata c6) ''delegation_id'' = None"
    using assms(3,4) by (simp_all add: keeps_route_def)
  have dec: "decisions w4 = decisions w"
    using cl1(3) locale_keeps(2) [of gw c1 w1] s2 detection_keeps(2) [of "gw_detect gw" c2 w2] s3
      sensitivity_keeps(3) [of gw c3 w3] s4 by simp
  have G: "transformed_request c9 = transformed_request c8" "detections c8 \<noteq> None"
    using guard_clean [OF s9] by auto
  have d8: "detections c8 = detections c7" using tokenization_holds [of c7 gw w7] s8 by (simp add: holds_detections_def)
  obtain ds where ds: "detections c7 = Some ds" using d8 G(2) by (cases "detections c7") auto
  have d3: "detections c3 = Some ds" using d4 d5 d6 d7 ds by simp
  have found: "request_detections gw (c0, w) = Some ds" using e1 s2 s3 d3 by (simp add: request_detections_def)
  have sens: "classification_result_v2 c4 = Some (request_level gw ri ds)" "level_admitted gw ri (request_level gw ri ds)"
    using sensitivity_clean [OF s4 d3, of ri] i3 by (simp_all add: intake_def)
  have pol: "pd_action (fst (evaluate_all (pe_services pe) (pe_get pe) (pe_set pe) (pe_now pe) (decisions w)
             (ri_tenant ri) (model c0) (level_name (highest (request_level gw ri ds))) None)) \<in> {ALLOW, FLAG_AND_FORWARD}"
    if "app = Some a" "as_policy a = Some pe" for a pe
  proof -
    have "policy_execute (Some a) (c4, w4) = ((c5, w5), None)" using s5(1) that by simp
    from policy_clean [OF this s5(2) that(2) sens(1)] show ?thesis using route dec i4 by (simp add: intake_def)
  qed
  have dlp: "\<exists>r. inspect_request e (extract_text (ri_body ri)) (ri_tenant ri) = Some r \<and> \<not> dr_blocked r"
    if "app = Some a" "as_dlp a = Some e" for a e
  proof -
    have i: "text_nodes c5 = Some (extract_text (ri_body ri))" "tenant_id c5 = ri_tenant ri" using i5 by (simp_all add: intake_def)
    have "inbound_dlp_execute (Some a) (c5, w5) = ((c6, w6), None)" using s6(1) that by simp
    from inbound_dlp_clean [OF this s6(2) that(2) i(1)] show ?thesis using i by simp
  qed
  have tools: "tools_admitted gw app ri"
    unfolding tools_admitted_def
  proof (intro allI impI, elim conjE)
    fix a te fmt ms msg
    assume h: "app = Some a" "as_tools a = Some te" "detect_format (ri_body ri) = Some fmt"
      "map_of (ri_body ri) ''messages'' = Some (JList ms)" "JObj msg \<in> set ms"
    have "original_request c6 = Some (ri_body ri)" using i6 by (simp add: intake_def)
    then have "c7 = govern_messages (gw_json gw) te fmt ms c6" using s7(1) h by (simp add: tool_execute_def dict_get_def)
    with s7(2) have "\<not> has_errors (govern_messages (gw_json gw) te fmt ms c6)" by simp
    from govern_messages_allowed [OF this h(5)] show "\<exists>calls. extract_calls (gw_json gw) msg fmt = Some calls
           \<and> list_all (\<lambda>call. td_permission (fst (evaluate_tool te None None call)) \<noteq> BlockTool) calls"
      unfolding route6 .
  qed
  have adm: "admitted_for gw app ri (model c0) ds w" using adm1 sens(2) pol dlp tools unfolding admitted_for_def by blast
  have o7: "original_request c7 = Some (ri_body ri)" "text_nodes c7 = Some (extract_text (ri_body ri))"
    using i7 by (simp_all add: intake_def)
  obtain body where body: "transformed_request c8 = Some body" "tokenized_body gw ri ds = Some body"
    using tokenization_clean [OF s8 cl7(1) o7 ds] by blast
  with adm found G(1) show ?thesis by auto
qed

subsection \<open>Whole runs\<close>

lemma clean_run_posted:
  assumes "clean_run ss st = Some st'" "\<forall>s \<in> set ss. silent (execute s)"
  shows "posted (snd st') = posted (snd st)"
  using assms
proof (induction ss arbitrary: st)
  case (Cons s ss)
  from clean_run_ConsE [OF Cons.prems(1)] obtain st1 where st1: "clean_exec s st st1" "clean_run ss st1 = Some st'" .
  have "posted (snd st1) = posted (snd st)"
    using st1(1) Cons.prems(2) unfolding clean_exec_def silent_def by (metis fst_conv list.set_intros(1))
  moreover have "posted (snd st') = posted (snd st1)" using Cons.IH [OF st1(2)] Cons.prems(2) by simp
  ultimately show ?case by (rule trans [rotated])
qed simp

lemma pre_provider_silent: "s \<in> set (build_pre_provider_pipeline gw app) \<Longrightarrow> silent (execute s)"
  unfolding pipeline_defs using stages_framed by auto

lemma pre_provider_take: "take 9 (build_pipeline gw app) = build_pre_provider_pipeline gw app"
  by (simp add: pipeline_defs)

lemma provider_nth: "execute (build_pipeline gw app ! 9) = provider_execute gw"
  by (simp add: pipeline_defs)

lemma gateway_run_posted_from:
  assumes "run_pipeline (build_pipeline gw app) (c0, w) = (st', ex, r)" "intake ri c0" "provider c0 = None"
    and "map_of (audit_metadata c0) ''delegation_id'' = None"
  shows "posted (snd st') = posted w
    \<or> (\<exists>body ds. posted (snd st') = posted w @ [body] \<and> request_detections gw (c0, w) = Some ds
        \<and> safe_body gw app ri (model c0) ds w body)"
proof -
  let ?st = "(c0, w)"
  consider "posted (snd st') = posted w"
    | sj where "clean_run (take 9 (build_pipeline gw app)) ?st = Some sj"
      "posted (snd st') = posted (snd (fst (provider_execute gw sj)))"
    using gate.run_posted [OF assms(1)] unfolding provider_nth by auto
  then show ?thesis
  proof cases
    case 2
    obtain c9 w9 where sj: "sj = (c9, w9)" by fastforce
    obtain cp wp rp where pe: "provider_execute gw (c9, w9) = ((cp, wp), rp)" by (metis surj_pair)
    have w9: "posted w9 = posted w"
      using clean_run_posted [of "build_pre_provider_pipeline gw app" ?st "(c9, w9)"] 2(1) pre_provider_silent
      unfolding pre_provider_take sj by simp
    from gateway_clean_prefix_from [OF 2(1) [unfolded sj] assms(2-4)] obtain ds body where
      pre: "transformed_request c9 = Some body" "request_detections gw (c0, w) = Some ds"
      "admitted_for gw app ri (model c0) ds w" "tokenized_body gw ri ds = Some body" by blast
    from provider_posts [OF pe] consider "posted wp = posted w9"
      | b bd where "transformed_request c9 = Some b" "posted wp = posted w9 @ [bd]" "same_but_model bd b" by blast
    then show ?thesis
    proof cases
      case 1
      with 2(2) w9 sj pe show ?thesis by simp
    next
      case b: 2
      then have "safe_body gw app ri (model c0) ds w bd"
        using safe_bodyI [OF pre(3,4)] pre(1) by simp
      moreover have "posted (snd st') = posted w @ [bd]" using b(2) 2(2) w9 sj pe by simp
      ultimately show ?thesis using pre(2) by blast
    qed
  qed simp
qed

lemma gateway_run_posted:
  assumes "run_pipeline (build_pipeline gw app) (new_request_context ri, w) = (st', ex, r)"
  shows "posted (snd st') = posted w
    \<or> (\<exists>body ds. posted (snd st') = posted w @ [body] \<and> request_detections gw (new_request_context ri, w) = Some ds
        \<and> safe_body gw app ri (Some (ri_model ri)) ds w body)"
  using gateway_run_posted_from [OF assms intake_new(1,3,4)] by (simp add: intake_new(2))

text \<open>The guaranteed stage at the end of a pipeline is executed by the final loop whatever happened before.\<close>

lemma final_loop_last:
  assumes "\<forall>s \<in> set ss. \<not> guaranteed s" "guaranteed l" "i + length ss \<notin> set rn"
    and "final_loop i (ss @ [l]) st surf rn pend ex = (st', surf', ex', esc)"
  shows "ex' = ex @ [i + length ss]"
  using assms
proof (induction ss arbitrary: i)
  case Nil
  then show ?case by (auto split: prod.splits invoked.splits)
next
  case (Cons s ss)
  then show ?case using Cons.IH [of "Suc i"] by simp
qed

lemma final_loop_done:
  assumes "\<forall>j. i \<le> j \<and> j < i + length ss \<longrightarrow> j \<in> set rn"
  shows "final_loop i ss st surf rn pend ex = (st, surf, ex, False)"
  using assms
proof (induction ss arbitrary: i)
  case (Cons s ss)
  then have "i \<in> set rn" "\<forall>j. Suc i \<le> j \<and> j < Suc i + length ss \<longrightarrow> j \<in> set rn" by auto
  with Cons.IH show ?case by simp
qed simp

lemma gateway_executed:
  assumes "run_pipeline (build_pipeline gw app) st = (st', ex, r)"
  shows "ex = [0 ..< 13] \<or> (\<exists>k \<le> 13. ex = [0 ..< k] @ [12])"
proof -
  let ?ss = "build_pipeline gw app"
  obtain st1 surf rn pend where m: "main_loop 0 ?ss st [] = (st1, surf, rn, pend)" by (metis prod_cases4)
  define ex0 where "ex0 = (if pend then rn @ [length rn] else rn)"
  obtain st2 surf2 ex2 esc where f: "final_loop 0 ?ss st1 surf rn pend ex0 = (st2, surf2, ex2, esc)" by (metis prod_cases4)
  have ex: "ex = ex2"
    using assms m f unfolding ex0_def by (auto simp: run_pipeline_def Let_def split: if_splits option.splits)
  obtain k where k: "k \<le> 13" "rn = [0 ..< k]" "pend \<Longrightarrow> k < 13"
    using main_loop_prefix [OF m] by (metis append_Nil add_0 pipeline_length)
  have split: "?ss = (take 12 ?ss) @ [?ss ! 12]" "length (take 12 ?ss) = 12"
    by (simp_all add: pipeline_defs)
  have g: "\<forall>s \<in> set (take 12 ?ss). \<not> guaranteed s" "guaranteed (?ss ! 12)" by (auto simp: pipeline_defs)
  show ?thesis
  proof (cases "k = 13")
    case True
    then have "\<not> pend" using k(3) by auto
    moreover have "final_loop 0 ?ss st1 surf rn pend ex0 = (st1, surf, ex0, False)"
      using True k(2) by (intro final_loop_done) auto
    ultimately show ?thesis using f ex k(2) True by (auto simp: ex0_def)
  next
    case False
    then have "0 + length (take 12 ?ss) \<notin> set rn" using k(1,2) by simp
    from final_loop_last [OF g this] f split have "ex2 = ex0 @ [12]" by (metis add_0)
    moreover have "ex0 = [0 ..< k] \<or> (ex0 = [0 ..< Suc k] \<and> k < 13)" using k(2,3) by (auto simp: ex0_def)
    ultimately show ?thesis using ex k(1) by (metis Suc_leI)
  qed
qed

subsection \<open>The streaming pipeline\<close>

definition loop_view :: "gstate \<times> pipe_exn list option \<times> nat list \<times> bool \<Rightarrow> gstate \<times> pipe_exn list option \<times> bool" where
  "loop_view q = (fst q, fst (snd q), snd (snd (snd q)))"

lemma main_loop_indices: "loop_view (main_loop i ss st rn) = loop_view (main_loop j ss st rn')"
proof (induction ss arbitrary: i j st rn rn')
  case Nil
  show ?case by (simp add: loop_view_def)
next
  case (Cons s ss)
  obtain st1 r where inv: "invoke s st = (st1, r)" by (metis surj_pair)
  show ?case
  proof (cases "has_errors (fst st) \<or> r \<noteq> Finished None")
    case True
    then show ?thesis using inv by (auto simp: loop_view_def split: invoked.split option.split)
  next
    case False
    then show ?thesis using inv Cons [of "Suc i" st1 "rn @ [i]" "Suc j" "rn' @ [j]"] by simp
  qed
qed

lemma final_loop_plain:
  "\<forall>s \<in> set ss. \<not> guaranteed s \<Longrightarrow> final_loop i ss st surf rn pend ex = (st, surf, ex, False)"
  by (induction ss arbitrary: i) simp_all

definition loop_end :: "stage list \<Rightarrow> gstate \<Rightarrow> gstate \<times> pipe_exn list option \<times> bool" where
  "loop_end ss st = loop_view (main_loop 0 ss st [])"

lemma loop_end_simps:
  "loop_end [] st = (st, None, False)"
  "loop_end (s # ss) st =
     (if has_errors (fst st) then (st, Some (errors (fst st)), False)
      else (case invoke s st of
              (st', Escaped) \<Rightarrow> (st', None, True)
            | (st', Finished (Some e)) \<Rightarrow> (st', Some (errors (fst st')), False)
            | (st', Finished None) \<Rightarrow> loop_end ss st'))"
proof -
  show "loop_end [] st = (st, None, False)" by (simp add: loop_end_def loop_view_def)
  obtain st1 r where inv: "invoke s st = (st1, r)" by (metis surj_pair)
  show "loop_end (s # ss) st =
     (if has_errors (fst st) then (st, Some (errors (fst st)), False)
      else (case invoke s st of
              (st', Escaped) \<Rightarrow> (st', None, True)
            | (st', Finished (Some e)) \<Rightarrow> (st', Some (errors (fst st')), False)
            | (st', Finished None) \<Rightarrow> loop_end ss st'))"
  proof (cases "has_errors (fst st) \<or> r \<noteq> Finished None")
    case True
    then show ?thesis using inv by (auto simp: loop_end_def loop_view_def split: invoked.split option.split)
  next
    case False
    then show ?thesis using inv main_loop_indices [of "Suc 0" ss st1 "[0]" 0 "[]"] by (simp add: loop_end_def)
  qed
qed

lemma loop_end_append_cong:
  "(\<And>st'. loop_end ts st' = loop_end us st') \<Longrightarrow> loop_end (ss @ ts) st = loop_end (ss @ us) st"
  by (induction ss arbitrary: st) (simp_all add: loop_end_simps split: prod.split invoked.split option.split)

lemma loop_end_skip:
  assumes "execute s = (\<lambda>st. (st, None))"
  shows "loop_end (s # t # ss) st = loop_end (t # ss) st"
  using assms by (cases st) (simp add: loop_end_simps invoke_def Let_def)

lemma run_pipeline_plain:
  assumes "\<forall>s \<in> set ss. \<not> guaranteed s" "\<forall>s \<in> set ts. \<not> guaranteed s" "loop_end ss st = loop_end ts st"
  shows "fst (run_pipeline ss st) = fst (run_pipeline ts st) \<and> snd (snd (run_pipeline ss st)) = snd (snd (run_pipeline ts st))"
proof -
  obtain a b x d where s: "main_loop 0 ss st [] = (a, b, x, d)" by (metis prod_cases4)
  obtain a' b' x' d' where t: "main_loop 0 ts st [] = (a', b', x', d')" by (metis prod_cases4)
  have "a = a'" "b = b'" "d = d'" using assms(3) s t by (simp_all add: loop_end_def loop_view_def)
  then show ?thesis
    using s t final_loop_plain [OF assms(1)] final_loop_plain [OF assms(2)]
    by (auto simp: run_pipeline_def Let_def split: option.split)
qed

lemma app_less_stages:
  "policy_execute None = (\<lambda>st. (st, None))" "inbound_dlp_execute None = (\<lambda>st. (st, None))"
  "tool_execute gw None = (\<lambda>st. (st, None))"
  by (auto simp: fun_eq_iff policy_execute_def inbound_dlp_execute_def tool_execute_def)

lemma streaming_ungoverned:
  "fst (run_pipeline (streaming_pipeline gw) st)
     = fst (run_pipeline (shared_stages gw @ [mk_stage ''TokenizationStage'' (tokenization_execute gw),
                                              mk_stage ''ForwardingGuard'' (guard_execute gw)]) st)"
  (is "_ = fst (run_pipeline (_ @ ?rest) st)")
proof -
  have skip: "execute (mk_stage n (policy_execute None)) = (\<lambda>st. (st, None))"
    "execute (mk_stage n (inbound_dlp_execute None)) = (\<lambda>st. (st, None))"
    "execute (mk_stage n (tool_execute gw None)) = (\<lambda>st. (st, None))" for n
    by (simp_all add: mk_stage_def app_less_stages)
  have "loop_end ([mk_stage ''PolicyEnforcementStage'' (policy_execute None),
      mk_stage ''InboundDLPStage'' (inbound_dlp_execute None),
      mk_stage ''ToolGovernanceStage'' (tool_execute gw None)] @ ?rest) st' = loop_end ?rest st'" for st'
    unfolding append.simps loop_end_skip [OF skip(1)] loop_end_skip [OF skip(2)] loop_end_skip [OF skip(3)] by (rule refl)
  then have "loop_end (streaming_pipeline gw) st = loop_end (shared_stages gw @ ?rest) st"
    unfolding streaming_pipeline_def build_pre_provider_pipeline_def append.simps
    by (intro loop_end_append_cong)
  moreover have "\<forall>s \<in> set (streaming_pipeline gw). \<not> guaranteed s" "\<forall>s \<in> set (shared_stages gw @ ?rest). \<not> guaranteed s"
    by (auto simp: streaming_pipeline_def pipeline_defs)
  ultimately show ?thesis using run_pipeline_plain by blast
qed

subsection \<open>The audit write\<close>

lemma store_event_again:
  assumes "\<exists>r \<in> set (rows db). event_id r = event_id e" "event_hash e = []"
  shows "\<exists>e'. store_event digest db e = Inr (db, e')"
proof (cases "find (\<lambda>r. event_id r = event_id e) (rows db)")
  case None
  with assms(1) show ?thesis by (auto simp: find_None_iff)
next
  case (Some r)
  with assms(2) show ?thesis by (simp add: store_event_def Let_def)
qed

lemma anonymization_event_fields [simp]:
  "event_hash (anonymization_event gw c k) = []"
  "event_id (anonymization_event gw c k) = gw_event_id gw (tenant_id c) (request_id c)"
  "ae_tenant (anonymization_event gw c k) = tenant_id c"
  by (simp_all add: anonymization_event_def new_audit_event_def Let_def)

lemma emit_attempts_again:
  assumes "\<exists>r \<in> set (rows db). event_id r = gw_event_id gw (tenant_id c) (request_id c)"
  shows "fst (emit_attempts gw c k n db) = db"
  using assms
proof (induction n arbitrary: k)
  case (Suc n)
  obtain e' where "store_event (gw_digest gw) db (anonymization_event gw c k) = Inr (db, e')"
    using store_event_again [of db "anonymization_event gw c k" "gw_digest gw"] Suc.prems by auto
  with Suc show ?case by (simp add: Let_def split: log_outcome.split)
qed simp

lemma emit_attempts_once:
  assumes "emit_attempts gw c k n db = (db', ok)" "db_ok (gw_digest gw) db"
  shows "db_ok (gw_digest gw) db'
    \<and> (db' = db \<or> (\<exists>r. rows db' = rows db @ [r] \<and> event_id r = gw_event_id gw (tenant_id c) (request_id c)
                     \<and> ae_tenant r = tenant_id c))
    \<and> (ok = Emitted \<longrightarrow> (\<exists>r \<in> set (rows db'). event_id r = gw_event_id gw (tenant_id c) (request_id c)))"
  using assms
proof (induction n arbitrary: k)
  case (Suc n)
  let ?e = "anonymization_event gw c k"
  obtain db1 e1 where st: "store_event (gw_digest gw) db ?e = Inr (db1, e1)"
    by (cases "store_event (gw_digest gw) db ?e") (auto simp: store_event_def Let_def split: option.splits)
  have ok1: "db_ok (gw_digest gw) db1" by (rule store_event_ok [OF Suc.prems(2) st])
  have one: "(db1 = db \<or> (\<exists>r. rows db1 = rows db @ [r] \<and> event_id r = event_id ?e \<and> ae_tenant r = tenant_id c))
      \<and> (\<exists>r \<in> set (rows db1). event_id r = event_id ?e)"
    using st
  proof (cases rule: store_event_cases)
    case (present r)
    then show ?thesis by (auto simp: find_Some_iff)
  next
    case (fresh e2)
    then show ?thesis by auto
  qed
  have rest: "fst (emit_attempts gw c k' n db1) = db1" for k' using one by (intro emit_attempts_again) auto
  show ?case
  proof (cases "gw_log gw k")
    case Logged
    with Suc.prems(1) st ok1 one show ?thesis by (auto simp: Let_def)
  next
    case LogFailed
    then have "emit_attempts gw c (Suc k) n db = (db', ok)" using Suc.prems(1) st by (simp add: Let_def)
    then show ?thesis using Suc.IH Suc.prems(2) by blast
  next
    case LogTimedOut
    then have "db' = db1" using Suc.prems(1) st rest [of "Suc k"] by (auto simp: Let_def)
    with ok1 one show ?thesis by auto
  next
    case (LogCancelled stored)
    with Suc.prems st ok1 one show ?thesis by (auto simp: Let_def split: if_splits)
  qed
qed simp

subsection \<open>Messages whose content is a list\<close>

definition parts_message :: "chat_message \<Rightarrow> bool" where
  "parts_message m \<longleftrightarrow> (case cm_content m of JList _ \<Rightarrow> True | JNull \<Rightarrow> True | _ \<Rightarrow> False)
     \<and> (case cm_tool_calls m of None \<Rightarrow> True | Some calls \<Rightarrow> calls = [])"

lemma parts_messages_no_text: "list_all parts_message ms \<Longrightarrow> message_nodes i (map dump_message ms) = []"
proof (induction ms arbitrary: i)
  case (Cons m ms)
  then show ?case
    by (auto simp: parts_message_def dump_message_def content_nodes_def opt_json_def split: option.splits json.splits)
qed simp

lemma parts_request_no_text:
  "list_all parts_message (cr_messages rq) \<Longrightarrow> extract_text (dump_request rq) = []"
  by (simp add: extract_text_def dump_request_def dict_get_def parts_messages_no_text)

lemma clean_run_fwd:
  assumes "execute s st = (st1, None)" "errors (fst st) = []" "errors (fst st1) = []"
  shows "clean_run (s # ss) st = clean_run ss st1"
  using assms by (cases st1) (simp add: has_errors_def invoke_def)

text \<open>Without policy, DLP and tools, and with nothing to block, a request without text nodes is posted as it came.\<close>

lemma untexted_posted:
  assumes nodes: "extract_text (ri_body ri) = []"
    and cls: "co_action (classify (gw_engine gw) []) \<noteq> ''BLOCK''" "co_action (classify (gw_engine gw) []) \<noteq> ''ROUTE_LOCAL''"
    and loc: "negotiate (gw_registry gw) (gw_universal gw) (ri_locale ri) = Inr (bnds, pr)"
    and sens: "highest (service_classify (gw_entity_map gw) (gw_set_list gw []) (ri_client_level ri)) \<noteq> HIGHLY_RESTRICTED"
    and plain: "map_of (ri_body ri) ''stream'' \<noteq> Some (JBool True)"
      "\<forall>resolve. gw_alias gw = Some resolve \<longrightarrow> resolve (gw_py_str gw (dict_get (ri_body ri) ''model'' (JStr []))) \<noteq> None"
  shows "\<exists>body. posted (snd (fst (run_pipeline (build_pipeline gw None) (new_request_context ri, w)))) = posted w @ [body]
    \<and> same_but_model body (ri_body ri)"
proof -
  let ?c0 = "new_request_context ri"
  have c0: "errors ?c0 = []" "original_request ?c0 = Some (ri_body ri)" "text_nodes ?c0 = Some []"
    "client_classification ?c0 = ri_client_level ri" "locale_header ?c0 = ri_locale ri"
    using nodes by (simp_all add: new_request_context_def new_processing_context_def Let_def set_audit_def)
  define r where "r = (if co_action (classify (gw_engine gw) []) = ''PASS''
      then (classify (gw_engine gw) [])\<lparr>co_action := ''ANONYMIZE'', configured_action := Some ''PASS''\<rparr>
      else classify (gw_engine gw) [])"
  have ra: "co_action r \<noteq> ''BLOCK''" "co_action r \<noteq> ''ROUTE_LOCAL''" using cls by (simp_all add: r_def)
  define c1 where "c1 = ?c0\<lparr>text_nodes := Some [], classification_result := Some r\<rparr>"
  have e1: "classification_execute gw (?c0, w) = ((c1, w), None)"
    unfolding classification_execute_def Let_def prod.case c0(3) option.case r_def [symmetric] c1_def using ra by simp
  obtain c2 where e2: "locale_execute gw (c1, w) = ((c2, w), None)"
    and c2: "errors c2 = []" "original_request c2 = Some (ri_body ri)" "text_nodes c2 = Some []"
      "client_classification c2 = ri_client_level ri" "classification_result c2 = Some r"
    using loc c0 by (simp add: locale_execute_def Let_def c1_def set_audit_def)
  define c3 where "c3 = c2\<lparr>detections := Some []\<rparr>"
  have e3: "detection_execute (gw_detect gw) (c2, w) = ((c3, w), None)"
    using ra c2 by (simp add: detection_execute_context detected_context_def class_action_def c3_def)
  have hb: "handling_action (service_classify (gw_entity_map gw) (gw_set_list gw []) (ri_client_level ri)) \<noteq> ''block''"
    using sens handling_block service_handling by metis
  obtain c4 where e4: "sensitivity_execute gw (c3, w) = ((c4, w), None)"
    and c4: "errors c4 = []" "original_request c4 = Some (ri_body ri)" "detections c4 = Some []" "classification_result c4 = Some r"
    using hb c2 by (simp add: sensitivity_execute_def Let_def c3_def set_audit_def)
  define c8 where "c8 = c4\<lparr>transformed_request := Some (ri_body ri), token_mappings := Some []\<rparr>"
  have e8: "tokenization_execute gw (c4, w) = ((c8, w), None)"
    using ra c4 by (simp add: tokenization_execute_def class_action_def c8_def)
  define c9 where "c9 = c8\<lparr>provider_dispatch_time := Some (gw_dispatch_time gw)\<rparr>"
  have e9: "guard_execute gw (c8, w) = ((c9, w), None)"
    using c4 by (simp add: guard_execute_def Let_def c8_def c9_def)
  have c9: "errors c8 = []" "errors c9 = []" "transformed_request c9 = Some (ri_body ri)" using c4 by (simp_all add: c8_def c9_def)
  have id: "policy_execute None (c, w) = ((c, w), None)" "inbound_dlp_execute None (c, w) = ((c, w), None)"
    "tool_execute gw None (c, w) = ((c, w), None)" for c by (simp_all add: app_less_stages)
  have "clean_run (build_pre_provider_pipeline gw None) (?c0, w) = Some (c9, w)"
  proof -
    have st: "clean_run (mk_stage n f # ss) (c, w) = clean_run ss (c', w)"
      if "f (c, w) = ((c', w), None)" "errors c = []" "errors c' = []" for n f ss c c'
      using that by (intro clean_run_fwd) (simp_all add: mk_stage_def)
    have n: "errors c1 = []" "errors c3 = []" using c0 c2 by (simp_all add: c1_def c3_def)
    show ?thesis
      unfolding build_pre_provider_pipeline_def shared_stages_def append.simps
        st [where f = "classification_execute gw", OF e1 c0(1) n(1)] st [where f = "locale_execute gw", OF e2 n(1) c2(1)] st [where f = "detection_execute (gw_detect gw)", OF e3 c2(1) n(2)] st [where f = "sensitivity_execute gw", OF e4 n(2) c4(1)]
        st [where f = "policy_execute None", OF id(1) c4(1) c4(1)] st [where f = "inbound_dlp_execute None", OF id(2) c4(1) c4(1)] st [where f = "tool_execute gw None", OF id(3) c4(1) c4(1)]
        st [where f = "tokenization_execute gw", OF e8 c4(1) c9(1)] st [where f = "guard_execute gw", OF e9 c9(1) c9(2)]
      by simp
  qed
  then have eq: "posted (snd (fst (run_pipeline (build_pipeline gw None) (?c0, w)))) = posted (snd (fst (provider_execute gw (c9, w))))"
    using gate.run_reaches [of gw None "(?c0, w)" "(c9, w)"] c9(2)
    unfolding provider_nth pre_provider_take by (simp add: has_errors_def)
  have "\<exists>body. posted (snd (fst (provider_execute gw (c9, w)))) = posted w @ [body] \<and> same_but_model body (ri_body ri)"
    using c9(3) plain by (auto simp: provider_execute_def Let_def same_but_model_def split: prod.split option.split)
  then show ?thesis unfolding eq .
qed

end
