(* ===== verification/Workflows.thy ===== *)
theory Workflows
  imports Tools "HOL-Library.Sublist"
begin

text \<open>
  Two governance workflows that live in Valkey: the stages of a tenant's lifecycle
  (\<open>services/lifecycle.py\<close>) and the human approval of tool calls (\<open>governance/approval.py\<close>). The
  locale \<open>step_system\<close> states what both promise, an invariant that each step keeps, and proves it for
  every reachable state; its extension \<open>settling_system\<close> adds facts that no step changes once they
  hold. Times are rational numbers of seconds, the random token is an argument, and the ISO text of a
  time stands for the time.
\<close>

subsection \<open>Step systems\<close>

locale step_system =
  fixes step :: "'s \<Rightarrow> 's \<Rightarrow> bool" and initial :: 's and inv :: "'s \<Rightarrow> bool"
  assumes initial_inv: "inv initial"
    and step_inv: "step s s' \<Longrightarrow> inv s \<Longrightarrow> inv s'"
begin

inductive reachable :: "'s \<Rightarrow> bool" where
  start: "reachable initial"
| advance: "reachable s \<Longrightarrow> step s s' \<Longrightarrow> reachable s'"

lemma reachable_inv: "reachable s \<Longrightarrow> inv s"
  by (induction rule: reachable.induct) (auto intro: initial_inv step_inv)

lemma steps_inv: "step\<^sup>*\<^sup>* s s' \<Longrightarrow> inv s \<Longrightarrow> inv s'"
  by (induction rule: rtranclp_induct) (auto intro: step_inv)

lemma initial_steps_inv: "step\<^sup>*\<^sup>* initial s \<Longrightarrow> inv s"
  using steps_inv initial_inv by blast

end

locale settling_system = step_system step initial inv
  for step :: "'s \<Rightarrow> 's \<Rightarrow> bool" and initial :: 's and inv :: "'s \<Rightarrow> bool" +
  fixes settled :: "'s \<Rightarrow> 'f \<Rightarrow> bool"
  assumes settled_step: "step s s' \<Longrightarrow> inv s \<Longrightarrow> settled s f \<Longrightarrow> settled s' f"
begin

lemma steps_settled: "step\<^sup>*\<^sup>* s s' \<Longrightarrow> inv s \<Longrightarrow> settled s f \<Longrightarrow> settled s' f"
  by (induction rule: rtranclp_induct) (auto intro: settled_step steps_inv)

end

subsection \<open>Lifecycle stages\<close>

datatype lifecycle_stage = DESIGN | REVIEW | TESTING | PRODUCTION | RETIRED

fun valid_transitions :: "lifecycle_stage \<Rightarrow> lifecycle_stage list" where
  "valid_transitions DESIGN = [REVIEW]"
| "valid_transitions REVIEW = [TESTING, DESIGN]"
| "valid_transitions TESTING = [PRODUCTION, REVIEW]"
| "valid_transitions PRODUCTION = [REVIEW, RETIRED]"
| "valid_transitions RETIRED = [DESIGN]"

record lifecycle_transition =
  from_stage :: lifecycle_stage
  to_stage :: lifecycle_stage
  approved_by :: string
  lt_notes :: "string option"
  lt_time :: rat

record lifecycle_state =
  current_stage :: lifecycle_stage
  transitions :: "lifecycle_transition list"
  ls_version :: nat
  ls_created :: rat
  ls_updated :: rat

text \<open>The two kinds of values below the prefix \<open>anonreq:lifecycle\<close>, each under its own key.\<close>

datatype lifecycle_value = StateValue lifecycle_state | HistoryValue "lifecycle_transition list"

type_synonym lifecycle_store = "(string, lifecycle_value) dict"

definition state_key :: "string \<Rightarrow> string" where
  "state_key tenant = ''anonreq:lifecycle:'' @ tenant"

definition transitions_key :: "string \<Rightarrow> string" where
  "transitions_key tenant = ''anonreq:lifecycle:transitions:'' @ tenant"

fun read_lifecycle_state :: "lifecycle_value option \<Rightarrow> lifecycle_state option py_result" where
  "read_lifecycle_state None = Inr None"
| "read_lifecycle_state (Some (StateValue s)) = Inr (Some s)"
| "read_lifecycle_state (Some (HistoryValue h)) = Inl TypeError"

definition get_state :: "lifecycle_store \<Rightarrow> string \<Rightarrow> lifecycle_state option py_result" where
  "get_state st tenant = read_lifecycle_state (map_of st (state_key tenant))"

definition get_current_stage :: "lifecycle_store \<Rightarrow> string \<Rightarrow> lifecycle_stage py_result" where
  "get_current_stage st tenant =
     bind_result (get_state st tenant) (\<lambda>s. Inr (case s of None \<Rightarrow> DESIGN | Some s \<Rightarrow> current_stage s))"

definition next_lifecycle_state ::
  "lifecycle_state option \<Rightarrow> lifecycle_transition \<Rightarrow> lifecycle_state" where
  "next_lifecycle_state old t =
     (let vers = (case old of None \<Rightarrow> 0 | Some s \<Rightarrow> ls_version s);
          ts = (case old of None \<Rightarrow> [] | Some s \<Rightarrow> transitions s)
      in \<lparr>current_stage = to_stage t, transitions = ts @ [t], ls_version = vers + 1,
          ls_created = (if vers = 0 then lt_time t else case ts of [] \<Rightarrow> lt_time t | u # _ \<Rightarrow> lt_time u),
          ls_updated = lt_time t\<rparr>)"

text \<open>
  The four awaited commands of a call of \<open>transition\<close>, each a definition of its own, since other calls may
  come between them: the state is read and the transition checked, the state is written, the history is
  read, the history is written.
\<close>

definition transition_read ::
  "lifecycle_store \<Rightarrow> string \<Rightarrow> lifecycle_stage \<Rightarrow> string \<Rightarrow> string option \<Rightarrow> rat
     \<Rightarrow> (lifecycle_transition \<times> lifecycle_state) py_result" where
  "transition_read st tenant to approver notes now =
     bind_result (get_state st tenant)
       (\<lambda>old. let current = (case old of None \<Rightarrow> DESIGN | Some s \<Rightarrow> current_stage s);
                  t = \<lparr>from_stage = current, to_stage = to, approved_by = approver, lt_notes = notes, lt_time = now\<rparr>
              in if current = to \<or> \<not> List.member (valid_transitions current) to then Inl ValueError
                 else Inr (t, next_lifecycle_state old t))"

definition transition_store :: "lifecycle_store \<Rightarrow> string \<Rightarrow> lifecycle_state \<Rightarrow> lifecycle_store" where
  "transition_store st tenant s = AList.update (state_key tenant) (StateValue s) st"

definition history_read :: "lifecycle_store \<Rightarrow> string \<Rightarrow> lifecycle_transition \<Rightarrow> lifecycle_transition list py_result" where
  "history_read st tenant t =
     (case map_of st (transitions_key tenant) of
        None \<Rightarrow> Inr [t] | Some (HistoryValue h) \<Rightarrow> Inr (h @ [t]) | Some (StateValue _) \<Rightarrow> Inl (OtherExn ''AttributeError''))"

definition history_store :: "lifecycle_store \<Rightarrow> string \<Rightarrow> lifecycle_transition list \<Rightarrow> lifecycle_store" where
  "history_store st tenant h = AList.update (transitions_key tenant) (HistoryValue h) st"

text \<open>A call that no other call interrupts; the state is already stored when the history turns out unusable.\<close>

definition append_transition ::
  "lifecycle_store \<Rightarrow> string \<Rightarrow> lifecycle_transition \<Rightarrow> lifecycle_store py_result" where
  "append_transition st tenant t = bind_result (history_read st tenant t) (\<lambda>h. Inr (history_store st tenant h))"

definition lifecycle_transition_op ::
  "lifecycle_store \<Rightarrow> string \<Rightarrow> lifecycle_stage \<Rightarrow> string \<Rightarrow> string option \<Rightarrow> rat
     \<Rightarrow> lifecycle_store \<times> lifecycle_state py_result" where
  "lifecycle_transition_op st tenant to approver notes now =
     (case transition_read st tenant to approver notes now of
        Inl e \<Rightarrow> (st, Inl e)
      | Inr (t, s) \<Rightarrow>
          (let stored = transition_store st tenant s
           in case append_transition stored tenant t of
                Inl e \<Rightarrow> (stored, Inl e) | Inr st' \<Rightarrow> (st', Inr s)))"

lemmas lifecycle_op_defs = lifecycle_transition_op_def transition_read_def transition_store_def append_transition_def
  history_read_def history_store_def

definition get_transition_history :: "lifecycle_store \<Rightarrow> string \<Rightarrow> lifecycle_transition list py_result" where
  "get_transition_history st tenant =
     (case map_of st (transitions_key tenant) of
        None \<Rightarrow> Inr [] | Some (HistoryValue h) \<Rightarrow> Inr h | Some (StateValue _) \<Rightarrow> Inl (OtherExn ''AttributeError''))"

text \<open>
  A tenant whose name begins with \<open>transitions:\<close> has the key of another tenant's history as the key
  of its state; the laws below are those of all other names.
\<close>

definition plain_tenant :: "string \<Rightarrow> bool" where
  "plain_tenant tenant \<longleftrightarrow> \<not> prefix ''transitions:'' tenant"

lemma keys_apart [simp]:
  "state_key t = state_key u \<longleftrightarrow> t = u" "transitions_key t = transitions_key u \<longleftrightarrow> t = u"
  "plain_tenant t \<Longrightarrow> state_key t \<noteq> transitions_key u" "plain_tenant t \<Longrightarrow> transitions_key u \<noteq> state_key t"
  by (auto simp: state_key_def transitions_key_def plain_tenant_def)

lemma key_collision: "state_key (''transitions:'' @ t) = transitions_key t"
  by (simp add: state_key_def transitions_key_def)

text \<open>A chain of transitions: each starts where the one before ended and is a valid one.\<close>

fun stage_path :: "lifecycle_stage \<Rightarrow> lifecycle_transition list \<Rightarrow> lifecycle_stage \<Rightarrow> bool" where
  "stage_path a [] b \<longleftrightarrow> a = b"
| "stage_path a (t # ts) b \<longleftrightarrow>
     from_stage t = a \<and> to_stage t \<in> set (valid_transitions a) \<and> stage_path (to_stage t) ts b"

lemma stage_path_append: "stage_path a (ts @ us) c \<longleftrightarrow> (\<exists>b. stage_path a ts b \<and> stage_path b us c)"
  by (induction ts arbitrary: a) auto

definition lifecycle_state_ok :: "lifecycle_state \<Rightarrow> bool" where
  "lifecycle_state_ok s \<longleftrightarrow>
     stage_path DESIGN (transitions s) (current_stage s) \<and> transitions s \<noteq> []
     \<and> ls_version s = length (transitions s) \<and> ls_created s = lt_time (hd (transitions s))
     \<and> ls_updated s = lt_time (last (transitions s))"

definition tenant_ok :: "lifecycle_store \<Rightarrow> string \<Rightarrow> bool" where
  "tenant_ok st tenant \<longleftrightarrow>
     (case get_state st tenant of
        Inl _ \<Rightarrow> False
      | Inr None \<Rightarrow> map_of st (transitions_key tenant) = None
      | Inr (Some s) \<Rightarrow> lifecycle_state_ok s
          \<and> map_of st (transitions_key tenant) = Some (HistoryValue (transitions s)))"

definition lifecycle_ok :: "lifecycle_store \<Rightarrow> bool" where
  "lifecycle_ok st \<longleftrightarrow> (\<forall>tenant. plain_tenant tenant \<longrightarrow> tenant_ok st tenant)"

lemma next_state_ok:
  assumes "case old of None \<Rightarrow> from_stage t = DESIGN
    | Some s \<Rightarrow> lifecycle_state_ok s \<and> from_stage t = current_stage s"
    and "to_stage t \<in> set (valid_transitions (from_stage t))"
  shows "lifecycle_state_ok (next_lifecycle_state old t)"
proof (cases old)
  case None
  with assms show ?thesis by (simp add: lifecycle_state_ok_def next_lifecycle_state_def)
next
  case (Some s)
  with assms show ?thesis
    by (cases "transitions s") (auto simp: lifecycle_state_ok_def next_lifecycle_state_def stage_path_append)
qed

lemma transitions_next:
  "transitions (next_lifecycle_state old t) = (case old of None \<Rightarrow> [] | Some s \<Rightarrow> transitions s) @ [t]"
  by (simp add: next_lifecycle_state_def Let_def)

text \<open>Every result of \<open>transition\<close>, with the state of the tenant known to be in order.\<close>

lemma lifecycle_op_cases:
  assumes "tenant_ok st tenant" "plain_tenant tenant"
  obtains (refused) "lifecycle_transition_op st tenant to by' nt now = (st, Inl ValueError)"
      "\<not> List.member (valid_transitions (case get_state st tenant of Inr (Some s) \<Rightarrow> current_stage s | _ \<Rightarrow> DESIGN)) to"
  | (done_op) old t h where
      "get_state st tenant = Inr old" "to_stage t = to"
      "h = (case old of None \<Rightarrow> [] | Some s \<Rightarrow> transitions s)"
      "lifecycle_state_ok (next_lifecycle_state old t)"
      "lifecycle_transition_op st tenant to by' nt now =
        (AList.update (transitions_key tenant) (HistoryValue (h @ [t]))
           (AList.update (state_key tenant) (StateValue (next_lifecycle_state old t)) st),
         Inr (next_lifecycle_state old t))"
proof -
  obtain old where old: "get_state st tenant = Inr old"
    using assms(1) by (auto simp: tenant_ok_def split: sum.splits)
  define cur where "cur = (case old of None \<Rightarrow> DESIGN | Some s \<Rightarrow> current_stage s)"
  let ?t = "\<lparr>from_stage = cur, to_stage = to, approved_by = by', lt_notes = nt, lt_time = now\<rparr>"
  let ?h = "case old of None \<Rightarrow> [] | Some s \<Rightarrow> transitions s"
  show thesis
  proof (cases "List.member (valid_transitions cur) to")
    case False
    then show thesis
      using old by (intro refused) (auto simp: lifecycle_op_defs Let_def cur_def split: option.splits)
  next
    case True
    then have "cur \<noteq> to" by (cases cur) auto
    moreover have "lifecycle_state_ok (next_lifecycle_state old ?t)"
      using assms(1) old True by (intro next_state_ok) (auto simp: tenant_ok_def cur_def split: option.splits)
    moreover have "append_transition (AList.update (state_key tenant) (StateValue s) st) tenant ?t =
        Inr (AList.update (transitions_key tenant) (HistoryValue (?h @ [?t]))
          (AList.update (state_key tenant) (StateValue s) st))" for s
      using assms old by (cases old) (auto simp: lifecycle_op_defs map_of_update tenant_ok_def)
    ultimately show thesis
      using old True by (intro done_op [of old ?t ?h]) (simp_all add: lifecycle_transition_op_def transition_read_def transition_store_def Let_def cur_def)
  qed
qed

lemma lifecycle_op_ok:
  assumes ok: "lifecycle_ok st" and plain: "plain_tenant tenant"
  shows "lifecycle_ok (fst (lifecycle_transition_op st tenant to by' nt now))"
proof -
  have "tenant_ok st tenant" using assms by (simp add: lifecycle_ok_def)
  from this plain show ?thesis
  proof (cases rule: lifecycle_op_cases [where to = to and by' = by' and nt = nt and now = now])
    case refused
    then show ?thesis using ok by simp
  next
    case (done_op old t h)
    show ?thesis unfolding lifecycle_ok_def
    proof (intro allI impI)
      fix u assume u: "plain_tenant u"
      then show "tenant_ok (fst (lifecycle_transition_op st tenant to by' nt now)) u"
        using done_op plain ok [unfolded lifecycle_ok_def, rule_format, OF u]
        by (cases "u = tenant")
           (auto simp: tenant_ok_def get_state_def map_of_update transitions_next split: sum.splits option.splits)
    qed
  qed
qed

inductive lifecycle_step :: "lifecycle_store \<Rightarrow> lifecycle_store \<Rightarrow> bool" where
  transition: "plain_tenant tenant
     \<Longrightarrow> lifecycle_step st (fst (lifecycle_transition_op st tenant to by' nt now))"

interpretation lifecycle: step_system lifecycle_step "[]" lifecycle_ok
proof
  show "lifecycle_ok []"
    by (simp add: lifecycle_ok_def tenant_ok_def get_state_def)
  show "lifecycle_step st st' \<Longrightarrow> lifecycle_ok st \<Longrightarrow> lifecycle_ok st'" for st st'
    by (auto elim: lifecycle_step.cases intro: lifecycle_op_ok)
qed

text \<open>Production is entered from testing only, and testing from review only.\<close>

lemma stage_path_last:
  assumes "stage_path a ts b" "a \<noteq> b"
  obtains us t where "ts = us @ [t]" "stage_path a us (from_stage t)"
    "b \<in> set (valid_transitions (from_stage t))" "to_stage t = b"
proof (cases ts rule: rev_cases)
  case Nil
  then show thesis using assms by simp
next
  case (snoc us t)
  then show thesis using assms(1) by (intro that) (auto simp: stage_path_append)
qed

lemma entered_from:
  "PRODUCTION \<in> set (valid_transitions a) \<longleftrightarrow> a = TESTING" "TESTING \<in> set (valid_transitions a) \<longleftrightarrow> a = REVIEW"
  by (cases a; simp)+

lemma production_reviewed:
  assumes "stage_path DESIGN ts PRODUCTION"
  shows "\<exists>us r t. ts = us @ [r, t] \<and> from_stage r = REVIEW \<and> to_stage r = TESTING
     \<and> from_stage t = TESTING \<and> to_stage t = PRODUCTION"
proof -
  obtain vs t where t: "ts = vs @ [t]" "stage_path DESIGN vs TESTING" "from_stage t = TESTING" "to_stage t = PRODUCTION"
    using stage_path_last [OF assms] by (auto simp: entered_from)
  obtain us r where "vs = us @ [r]" "from_stage r = REVIEW" "to_stage r = TESTING"
    by (rule stage_path_last [OF t(2)]) (auto simp: entered_from)
  with t show ?thesis by auto
qed

text \<open>
  The colliding names: after a step of tenant \<open>t\<close>, the state of tenant \<open>transitions:t\<close> cannot be read.
\<close>

lemma lifecycle_key_collision:
  assumes "lifecycle_ok st" "plain_tenant t" "get_current_stage st t = Inr DESIGN"
  shows "get_state (fst (lifecycle_transition_op st t REVIEW by' nt now)) (''transitions:'' @ t) = Inl TypeError"
proof -
  have "tenant_ok st t" using assms by (simp add: lifecycle_ok_def)
  from this assms(2) show ?thesis
  proof (cases rule: lifecycle_op_cases [where to = REVIEW and by' = by' and nt = nt and now = now])
    case refused
    then show ?thesis
      using assms(3) by (auto simp: get_current_stage_def py_simps split: option.splits)
  next
    case (done_op old t' h)
    then show ?thesis unfolding get_state_def key_collision by (simp add: map_of_update)
  qed
qed

text \<open>
  Calls that overlap: a move to production that was checked in testing is written after another call went
  back to review, so production is entered from review, and the history shows a step that starts elsewhere.
\<close>

lemma transition_race:
  assumes "get_state st tenant = Inr (Some s)" "current_stage s = TESTING" "plain_tenant tenant"
    and "map_of st (transitions_key tenant) = Some (HistoryValue h)"
  shows "\<exists>t t' s' st1 st2. transition_read st tenant PRODUCTION by1 n1 now1 = Inr (t', s')
     \<and> lifecycle_transition_op st tenant REVIEW by2 n2 now2 = (st1, Inr (next_lifecycle_state (Some s) t))
     \<and> get_current_stage st1 tenant = Inr REVIEW
     \<and> append_transition (transition_store st1 tenant s') tenant t' = Inr st2
     \<and> get_current_stage st2 tenant = Inr PRODUCTION
     \<and> get_transition_history st2 tenant = Inr (h @ [t, t']) \<and> to_stage t = REVIEW \<and> from_stage t' = TESTING"
  using assms
  by (auto simp: lifecycle_op_defs get_current_stage_def get_state_def map_of_update get_transition_history_def
      next_lifecycle_state_def Let_def)

subsection \<open>Approval tokens\<close>

datatype approval_status = PENDING | APPROVED | DENIED | EXPIRED

text \<open>The hash of a token; the fields of a decision are empty strings until it is taken.\<close>

record approval =
  ap_tool_call :: tool_call
  ap_context :: string
  ap_tenant :: string
  ap_status :: approval_status
  ap_created :: rat
  ap_expires :: rat
  ap_decided_by :: string
  ap_decided_at :: "rat option"
  ap_note :: string

text \<open>What Valkey keeps for a key: the hash and the time at which the key disappears.\<close>

record approval_entry =
  ae_hash :: approval
  ae_deadline :: rat

type_synonym approval_store = "(string, approval_entry) dict"

definition hgetall :: "approval_store \<Rightarrow> string \<Rightarrow> rat \<Rightarrow> approval option" where
  "hgetall st token now =
     (case map_of st token of
        None \<Rightarrow> None
      | Some e \<Rightarrow> if now < ae_deadline e then Some (ae_hash e) else None)"

definition approval_ttl :: "int \<Rightarrow> int" where
  "approval_ttl ttl = max (ttl + 3600) 7200"

definition create_approval ::
  "int \<Rightarrow> approval_store \<Rightarrow> string \<Rightarrow> tool_call \<Rightarrow> string option \<Rightarrow> string \<Rightarrow> rat \<Rightarrow> approval_store" where
  "create_approval ttl st token call context tenant now =
     AList.update token
       \<lparr>ae_hash = \<lparr>ap_tool_call = call, ap_context = (case context of None \<Rightarrow> [] | Some c \<Rightarrow> c),
          ap_tenant = tenant, ap_status = PENDING, ap_created = now,
          ap_expires = of_int (\<lfloor>now\<rfloor> + ttl), ap_decided_by = [], ap_decided_at = None, ap_note = []\<rparr>,
        ae_deadline = now + of_int (approval_ttl ttl)\<rparr> st"

text \<open>\<open>get_approval_status\<close>: the answer is the hash after the check for expiry, None for not found.\<close>

definition get_approval_status :: "approval_store \<Rightarrow> string \<Rightarrow> rat \<Rightarrow> approval_store \<times> approval option" where
  "get_approval_status st token now =
     (case hgetall st token now of
        None \<Rightarrow> (st, None)
      | Some raw \<Rightarrow>
          if now > ap_expires raw \<and> ap_status raw = PENDING
          then (let raw' = raw\<lparr>ap_status := EXPIRED\<rparr>
                in (AList.map_entry token (\<lambda>e. e\<lparr>ae_hash := raw'\<rparr>) st, Some raw'))
          else (st, Some raw))"

datatype approval_error = NotFound404 | AlreadyResolved409 approval_status

text \<open>
  The two halves of \<open>approve_approval\<close> and \<open>deny_approval\<close>: what is read and checked, and the hash
  that is written back, with an expiry of 60 seconds. Other calls may come between them.
\<close>

definition resolve_read ::
  "approval_status \<Rightarrow> approval_store \<Rightarrow> string \<Rightarrow> string \<Rightarrow> string \<Rightarrow> rat \<Rightarrow> approval_error + approval" where
  "resolve_read decision st token decided_by note now =
     (case hgetall st token now of
        None \<Rightarrow> Inl NotFound404
      | Some raw \<Rightarrow>
          if ap_status raw \<noteq> PENDING then Inl (AlreadyResolved409 (ap_status raw))
          else Inr (raw\<lparr>ap_status := decision, ap_decided_by := decided_by,
                        ap_decided_at := Some now, ap_note := note\<rparr>))"

definition resolve_write :: "approval_store \<Rightarrow> string \<Rightarrow> approval \<Rightarrow> rat \<Rightarrow> approval_store" where
  "resolve_write st token raw now = AList.update token \<lparr>ae_hash = raw, ae_deadline = now + 60\<rparr> st"

definition resolve_approval ::
  "approval_status \<Rightarrow> approval_store \<Rightarrow> string \<Rightarrow> string \<Rightarrow> string \<Rightarrow> rat
     \<Rightarrow> approval_store \<times> (approval_error + approval)" where
  "resolve_approval decision st token decided_by note now =
     (case resolve_read decision st token decided_by note now of
        Inl e \<Rightarrow> (st, Inl e) | Inr raw \<Rightarrow> (resolve_write st token raw now, Inr raw))"

definition approve_approval ::
  "approval_store \<Rightarrow> string \<Rightarrow> string \<Rightarrow> string \<Rightarrow> rat \<Rightarrow> approval_store \<times> (approval_error + approval)" where
  "approve_approval = resolve_approval APPROVED"

definition deny_approval ::
  "approval_store \<Rightarrow> string \<Rightarrow> string \<Rightarrow> string \<Rightarrow> rat \<Rightarrow> approval_store \<times> (approval_error + approval)" where
  "deny_approval = resolve_approval DENIED"

definition approval_expired :: "approval_store \<Rightarrow> rat \<Rightarrow> string \<Rightarrow> bool" where
  "approval_expired st now token =
     (case hgetall st token now of None \<Rightarrow> False | Some raw \<Rightarrow> now > ap_expires raw \<and> ap_status raw = PENDING)"

text \<open>\<open>cleanup_expired\<close>: one pass over the keys, with the number of keys it deleted.\<close>

definition cleanup_expired :: "approval_store \<Rightarrow> rat \<Rightarrow> approval_store \<times> nat" where
  "cleanup_expired st now =
     (filter (\<lambda>(token, _). \<not> approval_expired st now token) st,
      length (filter (\<lambda>(token, _). approval_expired st now token) st))"

text \<open>
  The steps of the system when each call runs without interruption. A new token is one never
  issued before (\<open>secrets.token_urlsafe\<close>); the clock readings are arbitrary.
\<close>

inductive approval_step :: "int \<Rightarrow> approval_store \<Rightarrow> approval_store \<Rightarrow> bool" for ttl where
  create: "token \<notin> fst ` set st \<Longrightarrow> approval_step ttl st (create_approval ttl st token call context tenant now)"
| status: "approval_step ttl st (fst (get_approval_status st token now))"
| approve: "approval_step ttl st (fst (approve_approval st token decided_by note now))"
| deny: "approval_step ttl st (fst (deny_approval st token decided_by note now))"
| cleanup: "approval_step ttl st (fst (cleanup_expired st now))"

definition approval_ok :: "approval \<Rightarrow> bool" where
  "approval_ok a \<longleftrightarrow>
     (ap_status a \<in> {PENDING, EXPIRED} \<longrightarrow> ap_decided_at a = None \<and> ap_decided_by a = [])
     \<and> (ap_status a \<in> {APPROVED, DENIED} \<longrightarrow> ap_decided_at a \<noteq> None)"

definition approvals_ok :: "approval_store \<Rightarrow> bool" where
  "approvals_ok st \<longleftrightarrow> distinct (map fst st) \<and> (\<forall>k e. map_of st k = Some e \<longrightarrow> approval_ok (ae_hash e))"

definition approval_settled :: "approval_store \<Rightarrow> string \<times> approval \<Rightarrow> bool" where
  "approval_settled st f \<longleftrightarrow>
     (\<exists>e. map_of st (fst f) = Some e \<and> ae_hash e = snd f \<and> ap_status (snd f) \<noteq> PENDING)"

text \<open>Every step either puts one entry in place, or drops pending entries.\<close>

lemma hgetall_Some: "hgetall st token now = Some raw \<longleftrightarrow> (\<exists>e. map_of st token = Some e \<and> now < ae_deadline e \<and> ae_hash e = raw)"
  by (auto simp: hgetall_def split: option.splits)

lemma map_of_filter_keys:
  "map_of (filter (\<lambda>(k, _). P k) st) k = (if P k then map_of st k else None)"
  by (induction st) auto

lemma cleanup_map_of:
  "map_of (fst (cleanup_expired st now)) k = (if approval_expired st now k then None else map_of st k)"
  by (simp add: cleanup_expired_def map_of_filter_keys)

lemma approval_ok_found: "approvals_ok st \<Longrightarrow> hgetall st token now = Some raw \<Longrightarrow> approval_ok raw"
  by (auto simp only: approvals_ok_def hgetall_Some)

definition approval_put :: "approval_store \<Rightarrow> string \<Rightarrow> approval_entry \<Rightarrow> approval_store \<Rightarrow> bool" where
  "approval_put st token e st' \<longleftrightarrow>
     map_of st' = (map_of st)(token \<mapsto> e) \<and> distinct (map fst st') \<and> approval_ok (ae_hash e)
     \<and> (\<forall>old. map_of st token = Some old \<longrightarrow> ap_status (ae_hash old) = PENDING)"

lemma status_effect:
  assumes "approvals_ok st" "st' = fst (get_approval_status st token now)"
  shows "st' = st \<or> (\<exists>e. approval_put st token e st')"
proof (cases "hgetall st token now")
  case None
  then show ?thesis using assms(2) by (simp add: get_approval_status_def)
next
  case (Some raw)
  show ?thesis
  proof (cases "now > ap_expires raw \<and> ap_status raw = PENDING")
    case False
    then show ?thesis using assms(2) Some by (auto simp: get_approval_status_def)
  next
    case True
    obtain e where e: "map_of st token = Some e" "ae_hash e = raw" using Some by (auto simp: hgetall_Some)
    have "st' = AList.map_entry token (\<lambda>e. e\<lparr>ae_hash := raw\<lparr>ap_status := EXPIRED\<rparr>\<rparr>) st"
      using True assms(2) Some by (simp add: get_approval_status_def Let_def)
    then have "approval_put st token (e\<lparr>ae_hash := raw\<lparr>ap_status := EXPIRED\<rparr>\<rparr>) st'"
      using e True assms(1) approval_ok_found [OF assms(1) Some]
      by (simp add: approval_put_def map_of_map_entry distinct_map_entry approvals_ok_def approval_ok_def)
    then show ?thesis by blast
  qed
qed

lemma resolve_effect:
  assumes "approvals_ok st" "st' = fst (resolve_approval d st token by' note now)" "d \<in> {APPROVED, DENIED}"
  shows "st' = st \<or> (\<exists>e. approval_put st token e st')"
proof (cases "resolve_read d st token by' note now")
  case (Inl e)
  then show ?thesis using assms(2) by (simp add: resolve_approval_def)
next
  case (Inr raw)
  then have "st' = resolve_write st token raw now" using assms(2) by (simp add: resolve_approval_def)
  moreover have "approval_ok raw" "\<forall>old. map_of st token = Some old \<longrightarrow> ap_status (ae_hash old) = PENDING"
    using Inr assms(3)
    by (auto simp: resolve_read_def approval_ok_def hgetall_def split: option.splits if_splits)
  ultimately have "approval_put st token \<lparr>ae_hash = raw, ae_deadline = now + 60\<rparr> st'"
    using assms(1) by (simp add: resolve_write_def approval_put_def map_of_update distinct_update approvals_ok_def)
  then show ?thesis by blast
qed

lemma create_effect:
  assumes "approvals_ok st" "token \<notin> fst ` set st"
  shows "\<exists>e. approval_put st token e (create_approval ttl st token call context tenant now)"
  using assms map_of_eq_None_iff [of st token]
  by (intro exI) (auto simp: create_approval_def approval_put_def map_of_update distinct_update approvals_ok_def approval_ok_def)

lemma approval_step_effect:
  assumes "approval_step ttl st st'" "approvals_ok st"
  obtains (same) "st' = st"
  | (put) token e where "approval_put st token e st'"
  | (dropped) now where "st' = fst (cleanup_expired st now)"
  using assms(1)
proof (cases rule: approval_step.cases)
  case (create token call ctx tenant now)
  then show thesis using create_effect [OF assms(2)] put by blast
next
  case (status token now)
  then show thesis using status_effect [OF assms(2)] same put by blast
next
  case (approve token by' nt now)
  then show thesis using resolve_effect [OF assms(2)] same put unfolding approve_approval_def by blast
next
  case (deny token by' nt now)
  then show thesis using resolve_effect [OF assms(2)] same put unfolding deny_approval_def by blast
next
  case (cleanup now)
  then show thesis using dropped by blast
qed

lemma cleanup_keeps_settled: "approval_settled st f \<Longrightarrow> approval_settled (fst (cleanup_expired st now)) f"
  by (auto simp: approval_settled_def cleanup_map_of approval_expired_def hgetall_def split: if_splits)

lemma cleanup_ok: "approvals_ok st \<Longrightarrow> approvals_ok (fst (cleanup_expired st now))"
  by (simp add: approvals_ok_def cleanup_map_of) (simp add: cleanup_expired_def distinct_map_filter)

lemma put_ok: "approval_put st token e st' \<Longrightarrow> approvals_ok st \<Longrightarrow> approvals_ok st'"
  unfolding approval_put_def approvals_ok_def by (simp del: map_of_eq_Some_iff)

lemma put_keeps_settled: "approval_put st token e st' \<Longrightarrow> approval_settled st f \<Longrightarrow> approval_settled st' f"
  by (auto simp: approval_put_def approval_settled_def)

interpretation approvals: settling_system "approval_step ttl" "[]" approvals_ok approval_settled
proof
  show "approvals_ok []" by (simp add: approvals_ok_def)
  fix s s' assume step: "approval_step ttl s s'" and ok: "approvals_ok s"
  from step ok show "approvals_ok s'"
    by (cases rule: approval_step_effect) (use ok put_ok cleanup_ok in blast)+
  fix f assume f: "approval_settled s f"
  from step ok show "approval_settled s' f"
    by (cases rule: approval_step_effect) (use f put_keeps_settled cleanup_keeps_settled in blast)+
qed

text \<open>What a settled token answers: nothing once the key is gone, and its one decision before.\<close>

lemma settled_answers:
  assumes "approval_settled st (token, a)"
  shows "snd (get_approval_status st token now) \<in> {None, Some a}"
    and "\<exists>e. snd (resolve_approval d st token by' nt now) = Inl e"
  using assms
  by (auto simp: approval_settled_def get_approval_status_def resolve_approval_def resolve_read_def hgetall_def)

lemma resolved_settles:
  assumes "snd (resolve_approval d st token by' nt now) = Inr a" "d \<noteq> PENDING"
  shows "approval_settled (fst (resolve_approval d st token by' nt now)) (token, a)"
  using assms
  by (auto simp: approval_settled_def resolve_approval_def resolve_write_def resolve_read_def map_of_update
      split: sum.splits option.splits if_splits)

text \<open>The decision looks at the key and its status, never at the time the token was to expire.\<close>

lemma resolve_after_create:
  "(\<exists>a. snd (resolve_approval d (create_approval ttl st token call ctx tenant c) token by' nt now) = Inr a)
     \<longleftrightarrow> now < c + of_int (approval_ttl ttl)"
  by (auto simp: resolve_approval_def resolve_read_def hgetall_def create_approval_def map_of_update)

text \<open>Two operators who both read the pending hash both get their decision; the later write stays.\<close>

lemma resolve_race:
  assumes "hgetall st token t1 = Some raw" "hgetall st token t2 = Some raw" "ap_status raw = PENDING"
  obtains a d where "resolve_read APPROVED st token by1 n1 t1 = Inr a"
    "resolve_read DENIED st token by2 n2 t2 = Inr d"
    "ap_status a = APPROVED" "ap_status d = DENIED"
    "hgetall (resolve_write (resolve_write st token a t1) token d t2) token t2 = Some d"
  using assms by (auto simp: resolve_read_def resolve_write_def hgetall_def map_of_update)

subsection \<open>Properties\<close>

text \<open>C22. once an operator's decision on an approval token has succeeded, no later sequence of calls
  (polls, further decisions, cleanups, new tokens) changes it: a poll answers with exactly that
  decision, or with nothing once the key is gone, and every later approval or denial is refused.
\<close>

theorem approval_decision_final:
  assumes "(approval_step ttl)\<^sup>*\<^sup>* [] st" "d \<in> {APPROVED, DENIED}"
    and "snd (resolve_approval d st token operator nt now) = Inr a"
    and "(approval_step ttl)\<^sup>*\<^sup>* (fst (resolve_approval d st token operator nt now)) st'"
  shows "snd (get_approval_status st' token later) \<in> {None, Some a}
     \<and> (\<exists>e. snd (approve_approval st' token operator' nt' later) = Inl e)
     \<and> (\<exists>e. snd (deny_approval st' token operator' nt' later) = Inl e)"
proof -
  let ?st = "fst (resolve_approval d st token operator nt now)"
  have ok: "approvals_ok st" using approvals.initial_steps_inv [OF assms(1)] .
  have "d \<noteq> PENDING" using assms(2) by auto
  then have settled: "approval_settled ?st (token, a)" using resolved_settles [OF assms(3)] by simp
  have "approvals_ok ?st" using resolve_effect [OF ok refl assms(2)] ok put_ok by metis
  from approvals.steps_settled [OF assms(4) this settled]
  show ?thesis unfolding approve_approval_def deny_approval_def using settled_answers by blast
qed

definition sample_call :: tool_call where
  "sample_call = \<lparr>tc_id = JStr ''c1'', tc_name = ''pay'', tc_arguments = JObj [], tc_format = ''openai'', tc_domain = ''model'',
     tc_provider = None, credential_context = None\<rparr>"

definition sample_approvals :: approval_store where
  "sample_approvals = create_approval 300 [] ''tok'' sample_call None ''acme'' 0"

definition sample_decision :: approval where
  "sample_decision = (case snd (resolve_approval APPROVED sample_approvals ''tok'' ''ann'' [] 10) of Inr a \<Rightarrow> a)"

theorem approval_decision_final_witness:
  "snd (get_approval_status (fst (resolve_approval APPROVED sample_approvals ''tok'' ''ann'' [] 10)) ''tok'' 20) \<in> {None, Some sample_decision}"
proof -
  have "(approval_step 300)\<^sup>*\<^sup>* [] sample_approvals"
    unfolding sample_approvals_def by (rule r_into_rtranclp, rule approval_step.create) simp
  moreover have "snd (resolve_approval APPROVED sample_approvals ''tok'' ''ann'' [] 10) = Inr sample_decision"
    by (simp add: sample_decision_def sample_approvals_def resolve_approval_def resolve_read_def hgetall_def create_approval_def approval_ttl_def)
  ultimately show ?thesis
    using approval_decision_final [of 300 sample_approvals APPROVED "''tok''" "''ann''" "[]" 10 sample_decision
      "fst (resolve_approval APPROVED sample_approvals ''tok'' ''ann'' [] 10)" 20]
    by simp
qed

text \<open>C23. in every state reachable from the empty store by calls that do not overlap, a tenant (of a plain
  name) whose current stage is PRODUCTION has a recorded history that ends with the transitions REVIEW to
  TESTING to PRODUCTION: production is only entered through review and testing, and the history shows it.
  (Overlapping calls can break this: \<open>transition_race\<close>.)
\<close>

theorem production_entered_by_review:
  assumes "lifecycle_step\<^sup>*\<^sup>* [] st" "plain_tenant tenant" "get_current_stage st tenant = Inr PRODUCTION"
  shows "\<exists>us r t. get_transition_history st tenant = Inr (us @ [r, t])
     \<and> from_stage r = REVIEW \<and> to_stage r = TESTING \<and> from_stage t = TESTING \<and> to_stage t = PRODUCTION"
proof -
  have "tenant_ok st tenant"
    using lifecycle.initial_steps_inv [OF assms(1)] assms(2) by (simp add: lifecycle_ok_def)
  moreover obtain s where "get_state st tenant = Inr (Some s)" "current_stage s = PRODUCTION"
    using assms(3) by (auto simp: get_current_stage_def py_simps split: option.splits)
  ultimately show ?thesis
    using production_reviewed [of "transitions s"]
    by (auto simp: tenant_ok_def lifecycle_state_ok_def get_transition_history_def)
qed

definition sample_lifecycle :: lifecycle_store where
  "sample_lifecycle =
     foldl (\<lambda>st to. fst (lifecycle_transition_op st ''acme'' to ''ann'' None 0)) [] [REVIEW, TESTING, PRODUCTION]"

theorem production_entered_by_review_witness:
  "\<exists>us r t. get_transition_history sample_lifecycle ''acme'' = Inr (us @ [r, t])
     \<and> from_stage r = REVIEW \<and> to_stage r = TESTING \<and> from_stage t = TESTING \<and> to_stage t = PRODUCTION"
proof (rule production_entered_by_review)
  have plain: "plain_tenant ''acme''" by code_simp
  then show "plain_tenant ''acme''" .
  have "lifecycle_step st (fst (lifecycle_transition_op st ''acme'' to ''ann'' None 0))" for st to
    using plain by (rule lifecycle_step.transition)
  then show "lifecycle_step\<^sup>*\<^sup>* [] sample_lifecycle"
    unfolding sample_lifecycle_def by (simp only: foldl.simps) (blast intro: rtranclp.intros)
  show "get_current_stage sample_lifecycle ''acme'' = Inr PRODUCTION" by code_simp
qed

end
