(* ===== verification/Records.thy ===== *)
theory Records
  imports Workflows
begin

text \<open>
  Retention, legal holds and data subject requests: the hold table (\<open>retention/legal_hold.py\<close>), the
  purge of the retention tiers (\<open>retention/tiers.py\<close>), the holds kept in Valkey
  (\<open>services/retention.py\<close>), and the request workflow with its erasure and restriction services
  (\<open>dsar/workflow.py\<close>, \<open>dsar/erasure.py\<close>, \<open>dsar/restriction.py\<close>, with the endpoints of
  \<open>governance/router_dsar.py\<close>).

  A table is the list of its rows in insertion order. Whether a database statement or a Valkey call
  raises is an argument, one for each statement; generated identifiers and clock readings are
  arguments too. A key scan in Valkey is a parameter that yields the keys it delivered and whether it
  came to its end.
\<close>

subsection \<open>The hold table\<close>

datatype hold_scope = TenantScope | RecordScope

record legal_hold =
  lh_id :: string
  lh_tenant :: string
  lh_scope :: hold_scope
  lh_record :: "string option"
  lh_reason :: string
  lh_activated_by :: string
  lh_activated_at :: rat
  lh_expires_at :: "rat option"
  lh_released_at :: "rat option"
  lh_released_by :: "string option"

definition given :: "string option \<Rightarrow> bool" where
  "given s \<longleftrightarrow> s \<noteq> None \<and> s \<noteq> Some []"

definition activate_hold ::
  "bool \<Rightarrow> legal_hold list \<Rightarrow> string \<Rightarrow> string \<Rightarrow> string \<Rightarrow> string \<Rightarrow> hold_scope \<Rightarrow> string option \<Rightarrow> rat option \<Rightarrow> rat
     \<Rightarrow> legal_hold list \<times> legal_hold py_result" where
  "activate_hold insert_ok holds hid tenant why activated_by scope rid expires now =
     (if scope = RecordScope \<and> \<not> given rid then (holds, Inl ValueError)
      else (let hold = \<lparr>lh_id = hid, lh_tenant = tenant, lh_scope = scope, lh_record = rid, lh_reason = why,
                        lh_activated_by = activated_by, lh_activated_at = now, lh_expires_at = expires,
                        lh_released_at = None, lh_released_by = None\<rparr>
            in if insert_ok then (holds @ [hold], Inr hold) else (holds, Inl RuntimeError)))"

text \<open>The time and the operator of the record that \<open>release_hold\<close> returns are those it writes.\<close>

definition release_hold ::
  "bool \<Rightarrow> bool \<Rightarrow> legal_hold list \<Rightarrow> string \<Rightarrow> string \<Rightarrow> rat \<Rightarrow> legal_hold list \<times> (rat \<times> string) py_result" where
  "release_hold select_ok update_ok holds hid released_by now =
     (if \<not> select_ok \<or> \<not> list_ex (\<lambda>h. lh_id h = hid) holds then (holds, Inl ValueError)
      else if \<not> update_ok then (holds, Inl RuntimeError)
      else (map (\<lambda>h. if lh_id h = hid then h\<lparr>lh_released_at := Some now, lh_released_by := Some released_by\<rparr> else h) holds,
            Inr (now, released_by)))"

definition hold_active :: "rat \<Rightarrow> legal_hold \<Rightarrow> bool" where
  "hold_active now h \<longleftrightarrow>
     lh_released_at h = None \<and> (case lh_expires_at h of None \<Rightarrow> True | Some e \<Rightarrow> e > now)"

definition is_on_hold :: "bool \<Rightarrow> legal_hold list \<Rightarrow> string \<Rightarrow> string option \<Rightarrow> rat \<Rightarrow> bool" where
  "is_on_hold select_ok holds tenant rid now =
     (if \<not> select_ok then False
      else 0 < length (filter (\<lambda>h. (lh_tenant h = tenant \<or> given rid \<and> lh_record h = rid) \<and> hold_active now h) holds))"

definition list_active_holds :: "bool \<Rightarrow> legal_hold list \<Rightarrow> string option \<Rightarrow> legal_hold list" where
  "list_active_holds select_ok holds tenant =
     (if \<not> select_ok then []
      else sort_key (\<lambda>h. - lh_activated_at h)
             (filter (\<lambda>h. (given tenant \<longrightarrow> Some (lh_tenant h) = tenant) \<and> lh_released_at h = None) holds))"

definition get_records_on_hold :: "bool \<Rightarrow> legal_hold list \<Rightarrow> string \<Rightarrow> rat \<Rightarrow> string list" where
  "get_records_on_hold select_ok holds tenant now =
     (if \<not> select_ok then []
      else map (the \<circ> lh_record) (filter (\<lambda>h. given (lh_record h))
             (filter (\<lambda>h. lh_tenant h = tenant \<and> lh_scope h = RecordScope \<and> hold_active now h) holds)))"

subsection \<open>Retention tiers\<close>

record lineage_row =
  lr_tenant :: string
  lr_id :: string
  lr_time :: rat

type_synonym tier_config = "(string, int option) dict"

definition RETENTION_TIERS :: tier_config where
  "RETENTION_TIERS = [(''postgresql'', Some 90), (''minio_worm'', Some 2555), (''valkey'', None), (''legal_hold'', None)]"

definition update_retention_config :: "tier_config \<Rightarrow> string \<Rightarrow> int \<Rightarrow> tier_config py_result" where
  "update_retention_config cfg tier days =
     (if map_of cfg tier = None then Inl ValueError else Inr (AList.update tier (Some days) cfg))"

record purge_result =
  pr_tier :: string
  pr_deleted :: nat
  pr_skipped :: nat
  pr_dry_run :: bool

definition unpurged_tiers :: "string list" where
  "unpurged_tiers = [''valkey'', ''minio_worm'', ''legal_hold'']"

text \<open>
  \<open>purge_expired\<close>: the hold manager is None, or the hold table with the outcome of the query; the
  last flag is that of the count or delete statement.
\<close>

definition purge_expired ::
  "tier_config \<Rightarrow> (bool \<times> legal_hold list) option \<Rightarrow> bool \<Rightarrow> lineage_row list \<Rightarrow> string \<Rightarrow> bool \<Rightarrow> rat
     \<Rightarrow> lineage_row list \<times> purge_result py_result" where
  "purge_expired cfg mgr stmt_ok rows tier dry now =
     (case map_of cfg tier of
        None \<Rightarrow> (rows, Inl ValueError)
      | Some duration \<Rightarrow>
          if List.member unpurged_tiers tier
          then (rows, Inr \<lparr>pr_tier = tier, pr_deleted = 0, pr_skipped = 0, pr_dry_run = dry\<rparr>)
          else (case duration of
            None \<Rightarrow> (rows, Inl TypeError)
          | Some days \<Rightarrow>
              (let cutoff = now - of_int (days * 86400);
                   skipped = (case mgr of None \<Rightarrow> 0
                     | Some (ok, holds) \<Rightarrow> if is_on_hold ok holds ''*'' None now then 1 else 0);
                   old = filter (\<lambda>r. lr_time r < cutoff) rows;
                   n = (if stmt_ok then length old else 0)
               in (if dry \<or> \<not> stmt_ok then rows else filter (\<lambda>r. \<not> lr_time r < cutoff) rows,
                   Inr \<lparr>pr_tier = ''postgresql'', pr_deleted = n, pr_skipped = skipped, pr_dry_run = dry\<rparr>))))"

fun scheduled_purge ::
  "tier_config \<Rightarrow> (bool \<times> legal_hold list) option \<Rightarrow> bool \<Rightarrow> rat \<Rightarrow> tier_config \<Rightarrow> lineage_row list
     \<Rightarrow> lineage_row list \<times> purge_result list py_result" where
  "scheduled_purge cfg mgr ok now [] rows = (rows, Inr [])"
| "scheduled_purge cfg mgr ok now ((tier, duration) # rest) rows =
     (if duration = None then scheduled_purge cfg mgr ok now rest rows
      else (case purge_expired cfg mgr ok rows tier False now of
              (rows', Inl e) \<Rightarrow> (rows', Inl e)
            | (rows', Inr r) \<Rightarrow>
                (case scheduled_purge cfg mgr ok now rest rows' of
                   (rows'', Inl e) \<Rightarrow> (rows'', Inl e) | (rows'', Inr rs) \<Rightarrow> (rows'', Inr (r # rs)))))"

definition run_scheduled_purge ::
  "tier_config \<Rightarrow> (bool \<times> legal_hold list) option \<Rightarrow> bool \<Rightarrow> lineage_row list \<Rightarrow> rat
     \<Rightarrow> lineage_row list \<times> purge_result list py_result" where
  "run_scheduled_purge cfg mgr ok rows now = scheduled_purge cfg mgr ok now cfg rows"

subsection \<open>Holds and policies in Valkey\<close>

record retention_policy =
  rp_type :: string
  rp_days :: int
  rp_action :: string

record valkey_hold =
  vh_id :: string
  vh_types :: "string list"
  vh_tenant :: string
  vh_ref :: string
  vh_by :: string
  vh_at :: rat
  vh_released_at :: "rat option"
  vh_released_by :: "string option"
  vh_filters :: "json option"

record retention_store =
  rs_policies :: "(string, retention_policy) dict"
  rs_holds :: "(string, valkey_hold) dict"
  rs_index :: "string list"

definition set_policy :: "retention_store \<Rightarrow> string \<Rightarrow> int \<Rightarrow> string \<Rightarrow> retention_store" where
  "set_policy st rtype days act =
     st\<lparr>rs_policies := AList.update rtype \<lparr>rp_type = rtype, rp_days = days, rp_action = act\<rparr> (rs_policies st)\<rparr>"

definition get_policy :: "retention_store \<Rightarrow> string \<Rightarrow> retention_policy option" where
  "get_policy st rtype = map_of (rs_policies st) rtype"

definition list_policies :: "retention_store \<Rightarrow> retention_policy list" where
  "list_policies st = map snd (rs_policies st)"

definition impose_hold ::
  "retention_store \<Rightarrow> string \<Rightarrow> string list \<Rightarrow> string \<Rightarrow> string \<Rightarrow> string \<Rightarrow> json option \<Rightarrow> rat
     \<Rightarrow> retention_store \<times> valkey_hold" where
  "impose_hold st hid types tenant ref imposed_by filters now =
     (let hold = \<lparr>vh_id = hid, vh_types = types, vh_tenant = tenant, vh_ref = ref, vh_by = imposed_by, vh_at = now,
                  vh_released_at = None, vh_released_by = None, vh_filters = filters\<rparr>
      in (st\<lparr>rs_holds := AList.update hid hold (rs_holds st), rs_index := List.insert hid (rs_index st)\<rparr>, hold))"

text \<open>
  The index is itself a key below the prefix of the holds, \<open>anonreq:legalhold:index\<close>: reading it as a
  hold is an error of the server, once it exists.
\<close>

definition get_hold :: "retention_store \<Rightarrow> string \<Rightarrow> valkey_hold option py_result" where
  "get_hold st hid =
     (if hid = ''index'' \<and> rs_index st \<noteq> [] then Inl (OtherExn ''ResponseError'')
      else Inr (map_of (rs_holds st) hid))"

definition vk_release_hold ::
  "retention_store \<Rightarrow> string \<Rightarrow> string \<Rightarrow> rat \<Rightarrow> (retention_store \<times> valkey_hold) py_result" where
  "vk_release_hold st hid released_by now =
     bind_result (get_hold st hid) (\<lambda>found. case found of
        None \<Rightarrow> Inl ValueError
      | Some hold \<Rightarrow>
          (let hold' = hold\<lparr>vh_released_at := Some now, vh_released_by := Some released_by\<rparr>
           in Inr (st\<lparr>rs_holds := AList.update hid hold' (rs_holds st)\<rparr>, hold')))"

fun list_holds_from :: "retention_store \<Rightarrow> string list \<Rightarrow> valkey_hold list py_result" where
  "list_holds_from st [] = Inr []"
| "list_holds_from st (hid # hids) =
     bind_result (get_hold st hid) (\<lambda>found.
       bind_result (list_holds_from st hids) (\<lambda>rest. Inr (case found of None \<Rightarrow> rest | Some h \<Rightarrow> h # rest)))"

definition list_holds :: "retention_store \<Rightarrow> valkey_hold list py_result" where
  "list_holds st = list_holds_from st (rs_index st)"

fun hold_active_from :: "retention_store \<Rightarrow> string \<Rightarrow> string \<Rightarrow> string list \<Rightarrow> bool py_result" where
  "hold_active_from st rtype tenant [] = Inr False"
| "hold_active_from st rtype tenant (hid # hids) =
     bind_result (get_hold st hid) (\<lambda>found. case found of
        None \<Rightarrow> hold_active_from st rtype tenant hids
      | Some hold \<Rightarrow>
          if vh_released_at hold \<noteq> None then hold_active_from st rtype tenant hids
          else if vh_tenant hold \<noteq> tenant then hold_active_from st rtype tenant hids
          else if \<not> List.member (vh_types hold) rtype then hold_active_from st rtype tenant hids
          else Inr True)"

definition is_hold_active :: "retention_store \<Rightarrow> string \<Rightarrow> string \<Rightarrow> bool py_result" where
  "is_hold_active st rtype tenant = hold_active_from st rtype tenant (rs_index st)"

subsection \<open>Erasure\<close>

text \<open>The keys a scan delivered are deleted; a scan that fails ends the loop over the patterns.\<close>

type_synonym key_scan = "string \<Rightarrow> string list \<Rightarrow> string list \<times> bool"

definition erasure_patterns :: "string \<Rightarrow> string list" where
  "erasure_patterns subject = [''anonreq:subject:'' @ subject @ '':*'', ''anonreq:*:'' @ subject]"

fun erase_keys :: "key_scan \<Rightarrow> string list \<Rightarrow> string list \<Rightarrow> string list \<times> bool" where
  "erase_keys scan [] keys = (keys, False)"
| "erase_keys scan (p # ps) keys =
     (case scan p keys of
        (hits, finished) \<Rightarrow>
          (let left = filter (\<lambda>k. \<not> List.member hits k) keys
           in if finished then (case erase_keys scan ps left of (keys', e) \<Rightarrow> (keys', hits \<noteq> [] \<or> e))
              else (left, hits \<noteq> [])))"

text \<open>The database session is None, or Some flag of the insert; the recorded erasures are the subjects.\<close>

definition erase_subject_data ::
  "key_scan \<Rightarrow> bool option \<Rightarrow> string list \<Rightarrow> string list \<Rightarrow> string \<Rightarrow> (string list \<times> string list) \<times> bool" where
  "erase_subject_data scan db keys erasures subject =
     (case erase_keys scan (erasure_patterns subject) keys of
        (keys', erased) \<Rightarrow>
          if db = Some True then ((keys', erasures @ [subject]), True) else ((keys', erasures), erased))"

definition has_been_erased :: "bool option \<Rightarrow> string list \<Rightarrow> string \<Rightarrow> bool" where
  "has_been_erased db erasures subject =
     (db = Some True \<and> 0 < length (filter (\<lambda>s. s = subject) erasures))"

subsection \<open>Restriction\<close>

record restriction_state =
  rx_rows :: "(string \<times> string \<times> rat) list"
  rx_cache :: "(string, rat) dict"

definition cached_restriction :: "restriction_state \<Rightarrow> string \<Rightarrow> rat \<Rightarrow> bool" where
  "cached_restriction st subject now =
     (case map_of (rx_cache st) subject of None \<Rightarrow> False | Some deadline \<Rightarrow> now < deadline)"

definition is_subject_restricted :: "bool \<Rightarrow> bool \<Rightarrow> restriction_state \<Rightarrow> string \<Rightarrow> rat \<Rightarrow> bool" where
  "is_subject_restricted cache_ok db_ok st subject now =
     (if cache_ok \<and> cached_restriction st subject now then True
      else if db_ok then 0 < length (filter (\<lambda>(_, s, _). s = subject) (rx_rows st))
      else False)"

text \<open>The flags of \<open>restrict_subject\<close>: those of the check, of the insert, and of the cache write.\<close>

definition restrict_subject ::
  "bool \<Rightarrow> bool \<Rightarrow> bool \<Rightarrow> bool \<Rightarrow> restriction_state \<Rightarrow> string \<Rightarrow> string \<Rightarrow> rat \<Rightarrow> restriction_state \<times> bool py_result" where
  "restrict_subject cache_ok db_ok insert_ok setex_ok st tenant subject now =
     (if is_subject_restricted cache_ok db_ok st subject now then (st, Inr False)
      else if \<not> insert_ok then (st, Inl RuntimeError)
      else (let st' = st\<lparr>rx_rows := rx_rows st @ [(tenant, subject, now)]\<rparr>
            in (if setex_ok then st'\<lparr>rx_cache := AList.update subject (now + 86400) (rx_cache st')\<rparr> else st', Inr True)))"

definition remove_restriction :: "bool \<Rightarrow> bool \<Rightarrow> restriction_state \<Rightarrow> string \<Rightarrow> restriction_state \<times> bool" where
  "remove_restriction delete_ok cache_ok st subject =
     (let gone = filter (\<lambda>(_, s, _). s = subject) (rx_rows st);
          st' = (if delete_ok then st\<lparr>rx_rows := filter (\<lambda>(_, s, _). s \<noteq> subject) (rx_rows st)\<rparr> else st)
      in (if cache_ok then st'\<lparr>rx_cache := AList.delete subject (rx_cache st')\<rparr> else st', delete_ok \<and> gone \<noteq> []))"

definition list_restricted_subjects :: "bool \<Rightarrow> restriction_state \<Rightarrow> (string \<times> string \<times> rat) list" where
  "list_restricted_subjects select_ok st =
     (if \<not> select_ok then []
      else map (\<lambda>(t, s, since). (s, t, since)) (filter (\<lambda>(_, s, _). s \<noteq> []) (sort_key (\<lambda>(_, _, since). - since) (rx_rows st))))"

subsection \<open>The request workflow\<close>

datatype dsar_type = ERASURE | RESTRICTION | RECTIFICATION | PORTABILITY | ACCESS

datatype subject_status = ACTIVE | DELETED | PROCESSING_RESTRICTED | LEGAL_HOLD

datatype dsar_status = PendingVerification | Processing | Fulfilled

fun dsar_type_of :: "string \<Rightarrow> dsar_type option" where
  "dsar_type_of s =
     map_of [(''ERASURE'', ERASURE), (''RESTRICTION'', RESTRICTION), (''RECTIFICATION'', RECTIFICATION),
             (''PORTABILITY'', PORTABILITY), (''ACCESS'', ACCESS)] s"

text \<open>A caller passes a member of the enumeration, or a plain string.\<close>

datatype type_arg = EnumArg dsar_type | StrArg string

record dsar_request =
  dq_id :: string
  dq_tenant :: string
  dq_subject :: string
  dq_type :: dsar_type
  dq_status :: dsar_status
  dq_verified_by :: "string option"
  dq_fulfilled_by :: "string option"
  dq_result :: "subject_status option"
  dq_submitted_at :: rat
  dq_verified_at :: "rat option"
  dq_fulfilled_at :: "rat option"
  dq_notes :: "string option"

text \<open>Everything the workflow reads or writes; an audit event is its type, tenant, request and result.\<close>

record dsar_world =
  dw_requests :: "dsar_request list"
  dw_keys :: "string list"
  dw_erasures :: "string list"
  dw_restrictions :: restriction_state
  dw_holds :: "legal_hold list"
  dw_audit :: "(string \<times> string \<times> string \<times> subject_status option) list"

text \<open>
  The services the workflow was built with, and the outcome of each statement and call it makes.
  \<open>ev_hold\<close> is None when the hold manager itself raises, else the outcome of its query.
\<close>

record dsar_env =
  has_erasure :: bool
  has_restriction :: bool
  has_holds :: bool
  has_audit :: bool
  ev_scan :: key_scan
  ev_get :: bool
  ev_hold :: "bool option"
  ev_erase :: bool
  ev_restrict :: "bool \<times> bool \<times> bool \<times> bool"
  ev_write :: bool
  ev_audit :: bool

definition emit_dsar_event ::
  "dsar_env \<Rightarrow> dsar_world \<Rightarrow> string \<Rightarrow> string \<Rightarrow> string \<Rightarrow> subject_status option \<Rightarrow> dsar_world" where
  "emit_dsar_event ev w etype tenant rid result =
     (if has_audit ev \<and> ev_audit ev then w\<lparr>dw_audit := dw_audit w @ [(etype, tenant, rid, result)]\<rparr> else w)"

text \<open>
  \<open>submit_request\<close>. The model of the request turns a string into the enumeration and refuses any
  other one; the audit event asks the argument for its \<open>value\<close>, which a string does not have.
\<close>

definition submit_request ::
  "dsar_env \<Rightarrow> dsar_world \<Rightarrow> string \<Rightarrow> string \<Rightarrow> string \<Rightarrow> type_arg \<Rightarrow> string option \<Rightarrow> rat
     \<Rightarrow> dsar_world \<times> dsar_request py_result" where
  "submit_request ev w rid tenant subject ty notes now =
     (case (case ty of EnumArg t \<Rightarrow> Some t | StrArg s \<Rightarrow> dsar_type_of s) of
        None \<Rightarrow> (w, Inl (OtherExn ''ValidationError''))
      | Some t \<Rightarrow>
          (let q = \<lparr>dq_id = rid, dq_tenant = tenant, dq_subject = subject, dq_type = t, dq_status = PendingVerification,
                    dq_verified_by = None, dq_fulfilled_by = None, dq_result = None, dq_submitted_at = now,
                    dq_verified_at = None, dq_fulfilled_at = None, dq_notes = notes\<rparr>;
               w' = w\<lparr>dw_requests := dw_requests w @ [q]\<rparr>
           in if \<not> ev_write ev then (w, Inl RuntimeError)
              else (case ty of
                      StrArg _ \<Rightarrow> (w', Inl (OtherExn ''AttributeError''))
                    | EnumArg _ \<Rightarrow> (emit_dsar_event ev w' ''dsar_request_received'' tenant rid None, Inr q))))"

definition verify_request ::
  "dsar_env \<Rightarrow> dsar_world \<Rightarrow> string \<Rightarrow> string \<Rightarrow> rat \<Rightarrow> dsar_world \<times> unit py_result" where
  "verify_request ev w rid verified_by now =
     (if \<not> ev_write ev then (w, Inl ValueError)
      else (w\<lparr>dw_requests := map (\<lambda>q. if dq_id q = rid
               then q\<lparr>dq_status := Processing, dq_verified_by := Some verified_by, dq_verified_at := Some now\<rparr> else q)
               (dw_requests w)\<rparr>,
            if list_ex (\<lambda>q. dq_id q = rid) (dw_requests w) then Inr () else Inl ValueError))"

definition get_request :: "dsar_env \<Rightarrow> dsar_world \<Rightarrow> string \<Rightarrow> dsar_request option" where
  "get_request ev w rid = (if ev_get ev then List.find (\<lambda>q. dq_id q = rid) (dw_requests w) else None)"

definition dsar_on_hold :: "dsar_env \<Rightarrow> dsar_world \<Rightarrow> dsar_request \<Rightarrow> rat \<Rightarrow> bool" where
  "dsar_on_hold ev w q now =
     (has_holds ev \<and> (case ev_hold ev of None \<Rightarrow> False
        | Some ok \<Rightarrow> is_on_hold ok (dw_holds w) (dq_tenant q) (Some (dq_subject q)) now))"

definition perform_erasure :: "dsar_env \<Rightarrow> dsar_world \<Rightarrow> string \<Rightarrow> dsar_world" where
  "perform_erasure ev w subject =
     (if has_erasure ev
      then (case erase_subject_data (ev_scan ev) (Some (ev_erase ev)) (dw_keys w) (dw_erasures w) subject of
              ((keys, erasures), _) \<Rightarrow> w\<lparr>dw_keys := keys, dw_erasures := erasures\<rparr>)
      else w)"

definition perform_restriction :: "dsar_env \<Rightarrow> dsar_world \<Rightarrow> dsar_request \<Rightarrow> rat \<Rightarrow> dsar_world \<times> unit py_result" where
  "perform_restriction ev w q now =
     (if has_restriction ev
      then (case ev_restrict ev of (c, d, i, s) \<Rightarrow>
              (case restrict_subject c d i s (dw_restrictions w) (dq_tenant q) (dq_subject q) now of
                 (st, Inl _) \<Rightarrow> (w\<lparr>dw_restrictions := st\<rparr>, Inl RuntimeError)
               | (st, Inr _) \<Rightarrow> (w\<lparr>dw_restrictions := st\<rparr>, Inr ())))
      else (w, Inr ()))"

definition update_request_fulfillment ::
  "dsar_env \<Rightarrow> dsar_world \<Rightarrow> string \<Rightarrow> subject_status \<Rightarrow> string \<Rightarrow> rat \<Rightarrow> dsar_world" where
  "update_request_fulfillment ev w rid status fulfilled_by now =
     (if \<not> ev_write ev then w
      else w\<lparr>dw_requests := map (\<lambda>q. if dq_id q = rid
               then q\<lparr>dq_status := Fulfilled, dq_result := Some status, dq_fulfilled_by := Some fulfilled_by,
                     dq_fulfilled_at := Some now\<rparr> else q) (dw_requests w)\<rparr>)"

text \<open>The action a request calls for, with the status it reports.\<close>

definition dsar_action :: "dsar_env \<Rightarrow> dsar_world \<Rightarrow> dsar_request \<Rightarrow> rat \<Rightarrow> dsar_world \<times> subject_status py_result" where
  "dsar_action ev w q now =
     (case dq_type q of
        ERASURE \<Rightarrow> if dsar_on_hold ev w q now then (w, Inr LEGAL_HOLD) else (perform_erasure ev w (dq_subject q), Inr DELETED)
      | RESTRICTION \<Rightarrow> (case perform_restriction ev w q now of
            (w', Inl e) \<Rightarrow> (w', Inl e) | (w', Inr _) \<Rightarrow> (w', Inr PROCESSING_RESTRICTED))
      | _ \<Rightarrow> (w, Inr ACTIVE))"

definition fulfill_request ::
  "dsar_env \<Rightarrow> dsar_world \<Rightarrow> string \<Rightarrow> string \<Rightarrow> rat \<Rightarrow> dsar_world \<times> subject_status py_result" where
  "fulfill_request ev w rid fulfilled_by now =
     (case get_request ev w rid of
        None \<Rightarrow> (w, Inl ValueError)
      | Some q \<Rightarrow>
          (case dsar_action ev w q now of
             (w', Inl e) \<Rightarrow> (w', Inl e)
           | (w', Inr status) \<Rightarrow>
               (emit_dsar_event ev (update_request_fulfillment ev w' rid status fulfilled_by now)
                  ''dsar_completed'' (dq_tenant q) rid (Some status), Inr status)))"

definition list_requests ::
  "dsar_env \<Rightarrow> dsar_world \<Rightarrow> string option \<Rightarrow> dsar_status option \<Rightarrow> nat \<Rightarrow> nat \<Rightarrow> dsar_request list" where
  "list_requests ev w tenant status skip cap =
     (if \<not> ev_get ev then []
      else take cap (drop skip (sort_key (\<lambda>q. - dq_submitted_at q)
             (filter (\<lambda>q. (given tenant \<longrightarrow> Some (dq_tenant q) = tenant) \<and> (status \<noteq> None \<longrightarrow> Some (dq_status q) = status))
                (dw_requests w)))))"

text \<open>The endpoints build the workflow from the database session alone.\<close>

definition endpoint_env :: "dsar_env \<Rightarrow> dsar_env" where
  "endpoint_env ev = ev\<lparr>has_erasure := False, has_restriction := False, has_holds := False, has_audit := False\<rparr>"

definition submit_endpoint ::
  "dsar_env \<Rightarrow> dsar_world \<Rightarrow> string \<Rightarrow> string option \<Rightarrow> string option \<Rightarrow> string option \<Rightarrow> string option \<Rightarrow> rat
     \<Rightarrow> dsar_world \<times> dsar_request py_result" where
  "submit_endpoint ev w rid tenant subject ty notes now =
     (let tenant' = (case tenant of None \<Rightarrow> ''default'' | Some t \<Rightarrow> t);
          subject' = (case subject of None \<Rightarrow> tenant' | Some s \<Rightarrow> s)
      in case ty of
           None \<Rightarrow> (w, Inl KeyError)
         | Some s \<Rightarrow> submit_request (endpoint_env ev) w rid tenant' subject' (StrArg s) notes now)"

definition fulfill_endpoint ::
  "dsar_env \<Rightarrow> dsar_world \<Rightarrow> string \<Rightarrow> string option \<Rightarrow> rat \<Rightarrow> dsar_world \<times> subject_status py_result" where
  "fulfill_endpoint ev w rid fulfilled_by now =
     fulfill_request (endpoint_env ev) w rid (case fulfilled_by of None \<Rightarrow> ''unknown'' | Some s \<Rightarrow> s) now"

text \<open>The endpoint for erasure hands no session to the service.\<close>

definition erase_endpoint :: "dsar_env \<Rightarrow> dsar_world \<Rightarrow> string \<Rightarrow> dsar_world \<times> bool" where
  "erase_endpoint ev w subject =
     (case erase_subject_data (ev_scan ev) None (dw_keys w) (dw_erasures w) subject of
        ((keys, erasures), erased) \<Rightarrow> (w\<lparr>dw_keys := keys, dw_erasures := erasures\<rparr>, erased))"

definition erasure_check_endpoint :: "dsar_env \<Rightarrow> dsar_world \<Rightarrow> string \<Rightarrow> bool" where
  "erasure_check_endpoint ev w subject = has_been_erased None (dw_erasures w) subject"

subsection \<open>Holds\<close>

lemma is_on_hold_iff:
  "is_on_hold True holds tenant rid now \<longleftrightarrow>
     (\<exists>h \<in> set holds. (lh_tenant h = tenant \<or> given rid \<and> lh_record h = rid) \<and> hold_active now h)"
  by (auto simp: is_on_hold_def filter_empty_conv)

lemma failed_query_no_hold: "\<not> is_on_hold False holds tenant rid now"
  by (simp add: is_on_hold_def)

text \<open>Everything the hold table can undergo, apart from the release of one hold.\<close>

inductive hold_step :: "string \<Rightarrow> legal_hold list \<Rightarrow> legal_hold list \<Rightarrow> bool" for hid where
  activate: "hold_step hid holds (fst (activate_hold ok holds i tenant why by' scope rid expires now))"
| release: "i \<noteq> hid \<Longrightarrow> hold_step hid holds (fst (release_hold ok ok' holds i by' now))"

definition hold_present :: "string \<Rightarrow> legal_hold list \<Rightarrow> legal_hold \<Rightarrow> bool" where
  "hold_present hid holds h \<longleftrightarrow> h \<in> set holds \<and> lh_id h = hid"

interpretation holds: settling_system "hold_step hid" "[]" "\<lambda>_. True" "hold_present hid"
proof
  show "hold_step hid s s' \<Longrightarrow> hold_present hid s f \<Longrightarrow> hold_present hid s' f" for s s' f
    by (erule hold_step.cases)
       (auto simp: hold_present_def activate_hold_def release_hold_def Let_def image_iff)
qed simp_all

lemma activated_on_hold:
  assumes "activate_hold ok holds hid tenant why by' scope rid expires t0 = (holds1, Inr h)"
    and "(hold_step hid)\<^sup>*\<^sup>* holds1 holds2"
    and "case expires of None \<Rightarrow> True | Some e \<Rightarrow> now < e"
  shows "is_on_hold True holds2 tenant r now"
proof -
  have "hold_present hid holds1 h" and h: "lh_tenant h = tenant" "hold_active now h"
    using assms(1,3)
    by (auto simp: activate_hold_def hold_present_def hold_active_def Let_def split: if_splits option.splits)
  then have "hold_present hid holds2 h" using holds.steps_settled [OF assms(2)] by blast
  with h show ?thesis by (auto simp: is_on_hold_iff hold_present_def)
qed

lemma released_not_active:
  assumes "release_hold True True holds hid by' t = (holds', Inr a)" "h \<in> set holds'" "lh_id h = hid"
  shows "\<not> hold_active now h"
proof -
  have "holds' = map (\<lambda>h. if lh_id h = hid then h\<lparr>lh_released_at := Some t, lh_released_by := Some by'\<rparr> else h) holds"
    using assms(1) unfolding release_hold_def by (simp split: if_split_asm)
  with assms(2) obtain g where "h = (if lh_id g = hid then g\<lparr>lh_released_at := Some t, lh_released_by := Some by'\<rparr> else g)"
    by (simp only: set_map) blast
  then have "lh_released_at h = Some t" using assms(3) by (cases "lh_id g = hid") simp_all
  then show ?thesis by (simp add: hold_active_def)
qed

text \<open>What a purge keeps of the rows is decided by their age alone.\<close>

lemma purge_rows:
  assumes "map_of cfg tier = Some (Some days)" "\<not> List.member unpurged_tiers tier"
  shows "fst (purge_expired cfg mgr True rows tier False now) =
     filter (\<lambda>r. now - of_int (days * 86400) \<le> lr_time r) rows"
  using assms by (simp add: purge_expired_def Let_def not_less)

lemma purge_ignores_manager:
  "fst (purge_expired cfg mgr ok rows tier dry now) = fst (purge_expired cfg None ok rows tier dry now)"
  by (simp add: purge_expired_def Let_def split: option.split)

lemma purge_error_ignores_manager:
  "(\<exists>e. snd (purge_expired cfg mgr ok rows tier dry now) = Inl e) \<longleftrightarrow>
   (\<exists>e. snd (purge_expired cfg None ok rows tier dry now) = Inl e)"
  by (auto simp: purge_expired_def Let_def split: option.split)

lemma scheduled_purge_ignores_manager:
  "fst (scheduled_purge cfg mgr ok now tiers rows) = fst (scheduled_purge cfg None ok now tiers rows)"
proof (induction cfg mgr ok now tiers rows rule: scheduled_purge.induct)
  case (2 cfg mgr ok now tier duration rest rows)
  then show ?case
    using purge_ignores_manager [of cfg mgr ok rows tier False now]
      purge_error_ignores_manager [of cfg mgr ok rows tier False now]
    by (cases duration) (auto split: prod.splits sum.splits)
qed simp

subsection \<open>Holds in Valkey\<close>

definition retention_ok :: "retention_store \<Rightarrow> bool" where
  "retention_ok st \<longleftrightarrow> set (rs_index st) = fst ` set (rs_holds st) \<and> ''index'' \<notin> set (rs_index st)"

lemma hold_active_from_iff:
  assumes "''index'' \<notin> set hids"
  shows "hold_active_from st rtype tenant hids = Inr (\<exists>hid \<in> set hids. \<exists>h. map_of (rs_holds st) hid = Some h
     \<and> vh_released_at h = None \<and> vh_tenant h = tenant \<and> rtype \<in> set (vh_types h))"
  using assms by (induction hids) (auto simp: get_hold_def split: option.split)

lemma is_hold_active_iff:
  assumes "retention_ok st"
  shows "is_hold_active st rtype tenant = Inr (\<exists>hid h. map_of (rs_holds st) hid = Some h
     \<and> vh_released_at h = None \<and> vh_tenant h = tenant \<and> rtype \<in> set (vh_types h))"
proof -
  have "hid \<in> set (rs_index st)" if "map_of (rs_holds st) hid = Some h" for hid h
    using that assms map_of_SomeD [OF that] by (force simp: retention_ok_def)
  moreover have "''index'' \<notin> set (rs_index st)" using assms unfolding retention_ok_def by blast
  then have "hold_active_from st rtype tenant (rs_index st) = Inr (\<exists>hid \<in> set (rs_index st). \<exists>h.
     map_of (rs_holds st) hid = Some h \<and> vh_released_at h = None \<and> vh_tenant h = tenant \<and> rtype \<in> set (vh_types h))"
    by (rule hold_active_from_iff)
  ultimately show ?thesis
    unfolding is_hold_active_def by (simp only: sum.inject) blast
qed

text \<open>Steps of the retention service; a generated identifier is a UUID, never the word \<open>index\<close>.\<close>

inductive retention_step :: "retention_store \<Rightarrow> retention_store \<Rightarrow> bool" where
  policy: "retention_step st (set_policy st rtype days act)"
| impose: "hid \<noteq> ''index'' \<Longrightarrow> retention_step st (fst (impose_hold st hid types tenant ref by' filters now))"
| release: "vk_release_hold st hid by' now = Inr (st', h) \<Longrightarrow> retention_step st st'"

definition empty_retention :: retention_store where
  "empty_retention = \<lparr>rs_policies = [], rs_holds = [], rs_index = []\<rparr>"

interpretation retention: step_system retention_step empty_retention retention_ok
proof
  show "retention_ok empty_retention" by (simp add: retention_ok_def empty_retention_def)
  show "retention_step s s' \<Longrightarrow> retention_ok s \<Longrightarrow> retention_ok s'" for s s'
  proof (induction rule: retention_step.induct)
    case (release st hid by' now st' h)
    then obtain h0 where "map_of (rs_holds st) hid = Some h0"
      "st' = st\<lparr>rs_holds := AList.update hid h (rs_holds st)\<rparr>"
      by (auto simp: vk_release_hold_def get_hold_def Let_def py_simps split: if_splits option.splits)
    moreover from this have "hid \<in> fst ` set (rs_holds st)"
      by (metis domI dom_map_of_conv_image_fst)
    ultimately show ?case
      using release.prems unfolding retention_ok_def by (simp add: fst_set_update insert_absorb) metis
  qed (auto simp: retention_ok_def set_policy_def impose_hold_def Let_def fst_set_update)
qed

subsection \<open>Erasure and restriction\<close>

text \<open>A scan that comes to its end has delivered exactly the keys that match its pattern.\<close>

definition full_scan :: "(string \<Rightarrow> string \<Rightarrow> bool) \<Rightarrow> key_scan \<Rightarrow> bool" where
  "full_scan matches scan \<longleftrightarrow> (\<forall>p keys. scan p keys = (filter (matches p) keys, True))"

lemma erase_keys_full:
  assumes "full_scan matches scan"
  shows "erase_keys scan ps keys =
     (filter (\<lambda>k. \<not> list_ex (\<lambda>p. matches p k) ps) keys, list_ex (\<lambda>k. list_ex (\<lambda>p. matches p k) ps) keys)"
proof (induction ps arbitrary: keys)
  case Nil
  show ?case by (simp add: list_ex_iff)
next
  case (Cons p ps)
  have "scan p keys = (filter (matches p) keys, True)" using assms by (simp add: full_scan_def)
  moreover have "filter (\<lambda>k. \<not> List.member (filter (matches p) keys) k) keys = filter (\<lambda>k. \<not> matches p k) keys"
    by (rule filter_cong) auto
  ultimately show ?case
    using Cons.IH by (auto simp: Let_def filter_empty_conv list_ex_iff)
qed

lemma erase_leaves_no_match:
  assumes "full_scan matches scan" "erase_subject_data scan db keys erasures subject = ((keys', erasures'), e)"
  shows "keys' = filter (\<lambda>k. \<not> list_ex (\<lambda>p. matches p k) (erasure_patterns subject)) keys"
  using assms(2) erase_keys_full [OF assms(1)]
  by (auto simp: erase_subject_data_def split: if_splits)

lemma recorded_erasure:
  "erase_subject_data scan (Some True) keys erasures subject = ((keys', erasures'), e)
     \<Longrightarrow> e \<and> has_been_erased (Some True) erasures' subject"
  by (auto simp: erase_subject_data_def has_been_erased_def split: prod.splits)

lemma restricted_iff:
  "is_subject_restricted c True st subject now \<longleftrightarrow>
     c \<and> cached_restriction st subject now \<or> (\<exists>t at'. (t, subject, at') \<in> set (rx_rows st))"
  by (force simp: is_subject_restricted_def filter_empty_conv)

text \<open>A restriction outlives its cache entry: the row is found at any later time.\<close>

lemma restricted_stays:
  assumes "restrict_subject c True i x st tenant subject now = (st', Inr b)"
    and "\<forall>s deadline. map_of (rx_cache st) s = Some deadline \<longrightarrow> (\<exists>t at'. (t, s, at') \<in> set (rx_rows st))"
  shows "is_subject_restricted c' True st' subject later"
proof (cases "is_subject_restricted c True st subject now")
  case True
  then have "\<exists>t at'. (t, subject, at') \<in> set (rx_rows st)"
    using assms(2) by (auto simp: restricted_iff cached_restriction_def split: option.splits)
  moreover have "st' = st" using assms(1) True by (simp add: restrict_subject_def)
  ultimately show ?thesis by (simp add: restricted_iff)
next
  case False
  then have "rx_rows st' = rx_rows st @ [(tenant, subject, now)]"
    using assms(1) by (auto simp: restrict_subject_def Let_def split: if_splits)
  then show ?thesis by (simp add: restricted_iff) blast
qed

lemma removed_unrestricted:
  "\<not> is_subject_restricted c d (fst (remove_restriction True True st subject)) subject now"
  by (auto simp: remove_restriction_def is_subject_restricted_def cached_restriction_def Let_def
      filter_empty_conv delete_conv')

subsection \<open>Requests\<close>

text \<open>The action looks at the type, the tenant and the subject of a request, not at its status.\<close>

lemma dsar_action_cong:
  assumes "dq_type q = dq_type q'" "dq_tenant q = dq_tenant q'" "dq_subject q = dq_subject q'"
  shows "dsar_action ev (w\<lparr>dw_requests := qs\<rparr>) q now =
    (let (w', r) = dsar_action ev w q' now in (w'\<lparr>dw_requests := qs\<rparr>, r))"
proof -
  have "dsar_on_hold ev (w\<lparr>dw_requests := qs\<rparr>) q now = dsar_on_hold ev w q' now"
    using assms by (cases "ev_hold ev") (simp_all add: dsar_on_hold_def)
  moreover have "perform_erasure ev (w\<lparr>dw_requests := qs\<rparr>) s = (perform_erasure ev w s)\<lparr>dw_requests := qs\<rparr>" for s
    by (simp add: perform_erasure_def split: prod.split)
  moreover have "perform_restriction ev (w\<lparr>dw_requests := qs\<rparr>) q now =
      (let (w', r) = perform_restriction ev w q' now in (w'\<lparr>dw_requests := qs\<rparr>, r))"
    using assms by (simp add: perform_restriction_def split: prod.split sum.split)
  ultimately show ?thesis
    using assms by (cases "dq_type q'") (simp_all add: dsar_action_def split: prod.split sum.split)
qed

lemma find_map_id:
  assumes "\<And>q. dq_id (f q) = dq_id q"
  shows "List.find (\<lambda>q. dq_id q = rid) (map f qs) = map_option f (List.find (\<lambda>q. dq_id q = rid) qs)"
  using assms by (induction qs) auto

lemma fulfill_ignores_verification:
  "snd (fulfill_request ev (fst (verify_request ev' w rid by' t)) rid by'' now)
     = snd (fulfill_request ev w rid by'' now)"
proof (cases "ev_write ev'")
  case True
  define f :: "dsar_request \<Rightarrow> dsar_request" where "f = (\<lambda>q. if dq_id q = rid then q\<lparr>dq_status := Processing, dq_verified_by := Some by', dq_verified_at := Some t\<rparr> else q)"
  have w': "fst (verify_request ev' w rid by' t) = w\<lparr>dw_requests := map f (dw_requests w)\<rparr>"
    using True by (simp add: verify_request_def f_def)
  have "get_request ev (w\<lparr>dw_requests := map f (dw_requests w)\<rparr>) rid = map_option f (get_request ev w rid)"
    by (auto simp: get_request_def f_def intro!: find_map_id)
  moreover have "dsar_action ev (w\<lparr>dw_requests := qs\<rparr>) (f q) now =
      (let (w', r) = dsar_action ev w q now in (w'\<lparr>dw_requests := qs\<rparr>, r))" for q qs
    by (rule dsar_action_cong) (simp_all add: f_def)
  ultimately show ?thesis
    unfolding w' fulfill_request_def
    by (auto split: option.split prod.split sum.split)
qed (simp add: verify_request_def)

text \<open>The endpoints: fulfilling an erasure reports success and touches no data.\<close>

lemma endpoint_env_simps [simp]:
  "has_erasure (endpoint_env ev) = False" "has_restriction (endpoint_env ev) = False"
  "has_holds (endpoint_env ev) = False" "has_audit (endpoint_env ev) = False"
  "ev_get (endpoint_env ev) = ev_get ev" "ev_write (endpoint_env ev) = ev_write ev"
  by (simp_all add: endpoint_env_def)

lemma endpoint_action:
  "dsar_action (endpoint_env ev) w q now =
     (w, Inr (case dq_type q of ERASURE \<Rightarrow> DELETED | RESTRICTION \<Rightarrow> PROCESSING_RESTRICTED | _ \<Rightarrow> ACTIVE))"
  by (cases "dq_type q") (simp_all add: dsar_action_def dsar_on_hold_def perform_erasure_def perform_restriction_def)

lemma update_keeps [frame_simps]:
  "dw_keys (update_request_fulfillment ev w rid s by' now) = dw_keys w"
  "dw_erasures (update_request_fulfillment ev w rid s by' now) = dw_erasures w"
  "dw_restrictions (update_request_fulfillment ev w rid s by' now) = dw_restrictions w"
  "dw_holds (update_request_fulfillment ev w rid s by' now) = dw_holds w"
  by (simp_all add: update_request_fulfillment_def)

lemma emit_keeps [frame_simps]:
  "dw_keys (emit_dsar_event ev w e t rid r) = dw_keys w" "dw_erasures (emit_dsar_event ev w e t rid r) = dw_erasures w"
  "dw_restrictions (emit_dsar_event ev w e t rid r) = dw_restrictions w" "dw_holds (emit_dsar_event ev w e t rid r) = dw_holds w"
  by (simp_all add: emit_dsar_event_def)

lemma fulfill_endpoint_effect:
  assumes "get_request ev w rid = Some q"
  shows "snd (fulfill_endpoint ev w rid by' now) =
      Inr (case dq_type q of ERASURE \<Rightarrow> DELETED | RESTRICTION \<Rightarrow> PROCESSING_RESTRICTED | _ \<Rightarrow> ACTIVE)"
    and "dw_keys (fst (fulfill_endpoint ev w rid by' now)) = dw_keys w"
    and "dw_erasures (fst (fulfill_endpoint ev w rid by' now)) = dw_erasures w"
    and "dw_restrictions (fst (fulfill_endpoint ev w rid by' now)) = dw_restrictions w"
  using assms
  by (simp_all add: fulfill_endpoint_def fulfill_request_def get_request_def endpoint_action frame_simps)

lemma submit_endpoint_fails: "\<exists>e. snd (submit_endpoint ev w rid tenant subject ty notes now) = Inl e"
  by (auto simp: submit_endpoint_def submit_request_def Let_def split: option.split simp del: dsar_type_of.simps)

text \<open>The workflow with its services: a hold that is seen keeps the data, one that cannot be read does not.\<close>

lemma fulfill_erasure_effect:
  assumes "get_request ev w rid = Some q" "dq_type q = ERASURE"
  shows "snd (fulfill_request ev w rid by' now) = Inr (if dsar_on_hold ev w q now then LEGAL_HOLD else DELETED)"
    and "dw_keys (fst (fulfill_request ev w rid by' now)) =
       (if dsar_on_hold ev w q now then dw_keys w else dw_keys (perform_erasure ev w (dq_subject q)))"
  using assms by (simp_all add: fulfill_request_def dsar_action_def frame_simps)

subsection \<open>Properties\<close>

text \<open>C24. a tenant or record hold that has been activated keeps its tenant on hold, for every record, at
  every time before its expiry, whatever other holds are activated or released in between, as long as
  it is not itself released and the query succeeds.
\<close>

theorem hold_stays_until_released:
  assumes "activate_hold ok holds hid tenant why operator scope rid expires t0 = (holds1, Inr h)"
    and "(hold_step hid)\<^sup>*\<^sup>* holds1 holds2"
    and "case expires of None \<Rightarrow> True | Some e \<Rightarrow> now < e"
  shows "is_on_hold True holds2 tenant r now"
  using activated_on_hold [OF assms] .

definition sample_hold :: legal_hold where
  "sample_hold = \<lparr>lh_id = ''h1'', lh_tenant = ''acme'', lh_scope = TenantScope, lh_record = None, lh_reason = ''case 7'',
     lh_activated_by = ''ann'', lh_activated_at = 0, lh_expires_at = None, lh_released_at = None, lh_released_by = None\<rparr>"

theorem hold_stays_until_released_witness:
  "is_on_hold True (fst (release_hold True True [sample_hold] ''h2'' ''bob'' 5)) ''acme'' (Some ''r9'') 1000"
proof (rule hold_stays_until_released)
  show "activate_hold True [] ''h1'' ''acme'' ''case 7'' ''ann'' TenantScope None None 0 = ([sample_hold], Inr sample_hold)"
    by (simp add: activate_hold_def sample_hold_def Let_def)
  show "(hold_step ''h1'')\<^sup>*\<^sup>* [sample_hold] (fst (release_hold True True [sample_hold] ''h2'' ''bob'' 5))"
    by (rule r_into_rtranclp, rule hold_step.release) simp
qed simp

text \<open>the purge of an operational tier deletes exactly the rows older than the retention period, for
  every hold manager and every set of holds: rows under an active legal hold are deleted like any other.
\<close>

theorem purge_decided_by_age:
  assumes "map_of cfg tier = Some (Some days)" "\<not> List.member unpurged_tiers tier"
  shows "r \<in> set (fst (purge_expired cfg (Some (hold_query_ok, holds)) True rows tier False now))
     \<longleftrightarrow> r \<in> set rows \<and> now - of_int (days * 86400) \<le> lr_time r"
  using purge_rows [OF assms] by simp

theorem purge_decided_by_age_witness:
  "\<lparr>lr_tenant = ''acme'', lr_id = ''r1'', lr_time = 0\<rparr> \<notin>
     set (fst (purge_expired RETENTION_TIERS (Some (True, [sample_hold]))
       True [\<lparr>lr_tenant = ''acme'', lr_id = ''r1'', lr_time = 0\<rparr>] ''postgresql'' False 10000000))"
proof -
  have "map_of RETENTION_TIERS ''postgresql'' = Some (Some 90)" "\<not> List.member unpurged_tiers ''postgresql''"
    by code_simp+
  from purge_decided_by_age [OF this] show ?thesis by simp
qed

text \<open>the endpoint that fulfils an erasure request answers DELETED and leaves the mapping keys, the
  erasure records and the restrictions as they were: it builds the workflow without the erasure
  service, without the restriction service and without the legal-hold manager.
\<close>

theorem fulfilled_erasure_erases_nothing:
  assumes "get_request ev w rid = Some q" "dq_type q = ERASURE"
  shows "snd (fulfill_endpoint ev w rid operator now) = Inr DELETED
     \<and> dw_keys (fst (fulfill_endpoint ev w rid operator now)) = dw_keys w
     \<and> dw_erasures (fst (fulfill_endpoint ev w rid operator now)) = dw_erasures w
     \<and> dw_restrictions (fst (fulfill_endpoint ev w rid operator now)) = dw_restrictions w"
  using fulfill_endpoint_effect [OF assms(1)] assms(2) by simp

definition sample_dsar_env :: dsar_env where
  "sample_dsar_env = \<lparr>has_erasure = True, has_restriction = True, has_holds = True, has_audit = True,
     ev_scan = (\<lambda>p keys. ([], True)), ev_get = True, ev_hold = Some True, ev_erase = True,
     ev_restrict = (True, True, True, True), ev_write = True, ev_audit = True\<rparr>"

definition sample_dsar :: dsar_world where
  "sample_dsar =
     \<lparr>dw_requests = [\<lparr>dq_id = ''d1'', dq_tenant = ''acme'', dq_subject = ''s1'', dq_type = ERASURE, dq_status = PendingVerification,
        dq_verified_by = None, dq_fulfilled_by = None, dq_result = None, dq_submitted_at = 0, dq_verified_at = None,
        dq_fulfilled_at = None, dq_notes = None\<rparr>],
      dw_keys = [''anonreq:subject:s1:x''], dw_erasures = [], dw_restrictions = \<lparr>rx_rows = [], rx_cache = []\<rparr>,
      dw_holds = [sample_hold], dw_audit = []\<rparr>"

theorem fulfilled_erasure_erases_nothing_witness:
  "snd (fulfill_endpoint sample_dsar_env sample_dsar ''d1'' None 5) = Inr DELETED
     \<and> dw_keys (fst (fulfill_endpoint sample_dsar_env sample_dsar ''d1'' None 5)) = [''anonreq:subject:s1:x'']"
proof -
  have "get_request sample_dsar_env sample_dsar ''d1'' = Some (hd (dw_requests sample_dsar))"
    by (simp add: get_request_def sample_dsar_env_def sample_dsar_def)
  moreover have "dq_type (hd (dw_requests sample_dsar)) = ERASURE" "dw_keys sample_dsar = [''anonreq:subject:s1:x'']"
    by (simp_all add: sample_dsar_def)
  ultimately show ?thesis using fulfilled_erasure_erases_nothing [of sample_dsar_env sample_dsar "''d1''" _ None 5] by simp
qed

end
