(* ===== verification/SocBuffer.thy ===== *)
theory SocBuffer
  imports Workflows
begin

text \<open>
  The buffer in front of each sink of the security event export (\<open>soc/buffer.py\<close>): a bounded queue
  that gives up its oldest event for a new one, a loop that hands events to the sink with a bounded
  number of attempts, and the drain at shutdown. The sink is a parameter: the outcome of each attempt,
  None when it raises. The abstract specification is the list of all events ever accepted; the queue is
  proved to be its last part, and every event to be accounted for exactly once. Times and the factors
  of the backoff are rational numbers.
\<close>

subsection \<open>Backoff\<close>

record backoff_config =
  bo_initial :: rat
  bo_multiplier :: rat
  bo_max :: rat
  bo_jitter :: rat
  bo_max_retries :: int

definition default_backoff :: backoff_config where
  "default_backoff = \<lparr>bo_initial = 1, bo_multiplier = 2, bo_max = 60, bo_jitter = 1 / 10, bo_max_retries = 5\<rparr>"

text \<open>The argument \<open>u\<close> in \<open>[-1, 1]\<close> is the random draw, scaled by the amount of jitter.\<close>

definition backoff_delay :: "backoff_config \<Rightarrow> nat \<Rightarrow> rat \<Rightarrow> rat" where
  "backoff_delay c attempt u =
     (let base = min (bo_initial c * bo_multiplier c ^ attempt) (bo_max c); jitter_amount = base * bo_jitter c
      in base + u * jitter_amount)"

lemma backoff_delay_bounds:
  assumes "- 1 \<le> u" "u \<le> 1" "0 \<le> bo_initial c" "0 \<le> bo_multiplier c" "0 \<le> bo_max c" "0 \<le> bo_jitter c" "bo_jitter c \<le> 1"
  shows "0 \<le> backoff_delay c n u" "backoff_delay c n u \<le> bo_max c * (1 + bo_jitter c)"
proof -
  define b where "b = min (bo_initial c * bo_multiplier c ^ n) (bo_max c)"
  have b: "0 \<le> b" "b \<le> bo_max c" using assms by (simp_all add: b_def)
  have d: "backoff_delay c n u = b * (1 + u * bo_jitter c)"
    by (simp add: backoff_delay_def b_def Let_def algebra_simps)
  have "- 1 \<le> u * bo_jitter c"
    using assms mult_right_mono [of "- 1" u "bo_jitter c"] by linarith
  then show "0 \<le> backoff_delay c n u" using b by (simp add: d)
  have "u * bo_jitter c \<le> bo_jitter c" using assms mult_right_mono [of u 1 "bo_jitter c"] by simp
  then have "b * (1 + u * bo_jitter c) \<le> b * (1 + bo_jitter c)" using b by (simp add: mult_left_mono)
  also have "\<dots> \<le> bo_max c * (1 + bo_jitter c)" using b assms by (simp add: mult_right_mono)
  finally show "backoff_delay c n u \<le> bo_max c * (1 + bo_jitter c)" by (simp add: d)
qed

subsection \<open>The buffer\<close>

text \<open>
  \<open>sb_forwarded\<close>, \<open>sb_dropped\<close> and \<open>sb_drained\<close> are the counters of the metrics and of the log line of
  the drain, \<open>sb_warnings\<close> the number of overflow warnings. A bound that is not positive is no bound.
\<close>

record 'e sink_buffer =
  sb_maxsize :: int
  sb_queue :: "(nat \<times> 'e) list"
  sb_counter :: nat
  sb_overflow_emitted :: bool
  sb_overflow_total :: nat
  sb_warnings :: nat
  sb_forwarded :: nat
  sb_dropped :: nat
  sb_drained :: nat

definition new_buffer :: "int \<Rightarrow> 'e sink_buffer" where
  "new_buffer maxsize = \<lparr>sb_maxsize = maxsize, sb_queue = [], sb_counter = 0, sb_overflow_emitted = False,
     sb_overflow_total = 0, sb_warnings = 0, sb_forwarded = 0, sb_dropped = 0, sb_drained = 0\<rparr>"

definition queue_full :: "'e sink_buffer \<Rightarrow> bool" where
  "queue_full b \<longleftrightarrow> 0 < sb_maxsize b \<and> sb_maxsize b \<le> int (length (sb_queue b))"

definition evict_oldest :: "'e sink_buffer \<Rightarrow> 'e sink_buffer" where
  "evict_oldest b = b\<lparr>sb_queue := tl (sb_queue b), sb_overflow_total := sb_overflow_total b + 1,
     sb_warnings := (if sb_overflow_emitted b then sb_warnings b else sb_warnings b + 1), sb_overflow_emitted := True\<rparr>"

definition put_event :: "'e sink_buffer \<Rightarrow> 'e \<Rightarrow> 'e sink_buffer" where
  "put_event b e =
     (let n = sb_counter b; b1 = b\<lparr>sb_counter := n + 1\<rparr>
      in if \<not> queue_full b1 then b1\<lparr>sb_queue := sb_queue b1 @ [(n, e)], sb_overflow_emitted := False\<rparr>
         else (let b2 = evict_oldest b1
               in if \<not> queue_full b2 then b2\<lparr>sb_queue := sb_queue b2 @ [(n, e)]\<rparr> else b2))"

text \<open>The attempts for one event: whether it was sent, and how many attempts were made.\<close>

function send_attempts :: "(nat \<Rightarrow> bool option) \<Rightarrow> int \<Rightarrow> nat \<Rightarrow> bool \<times> nat" where
  "send_attempts send retries attempt =
     (if retries + 1 \<le> int attempt then (False, attempt)
      else if send attempt = Some True then (True, attempt + 1)
      else send_attempts send retries (attempt + 1))"
  by pat_completeness auto
termination
  by (relation "measure (\<lambda>(_, r, a). nat (r + 1 - int a))") auto

declare send_attempts.simps [simp del]

text \<open>One turn of \<open>_retry_loop\<close>; with an empty queue the loop waits.\<close>

definition retry_turn :: "backoff_config \<Rightarrow> ('e \<Rightarrow> nat \<Rightarrow> bool option) \<Rightarrow> 'e sink_buffer \<Rightarrow> 'e sink_buffer" where
  "retry_turn c send b =
     (case sb_queue b of
        [] \<Rightarrow> b
      | (_, e) # q \<Rightarrow>
          (if fst (send_attempts (send e) (bo_max_retries c) 0)
           then b\<lparr>sb_queue := q, sb_forwarded := sb_forwarded b + 1\<rparr>
           else b\<lparr>sb_queue := q, sb_dropped := sb_dropped b + 1\<rparr>))"

definition drain :: "'e sink_buffer \<Rightarrow> 'e sink_buffer" where
  "drain b = b\<lparr>sb_queue := [], sb_drained := sb_drained b + length (sb_queue b)\<rparr>"

subsection \<open>Attempts\<close>

text \<open>An event is sent exactly when one of the attempts zero to \<open>max_retries\<close> succeeds.\<close>

lemma send_attempts_iff:
  "fst (send_attempts send retries a) \<longleftrightarrow> (\<exists>k \<ge> a. int k \<le> retries \<and> send k = Some True)"
proof (induction send retries a rule: send_attempts.induct)
  case (1 send retries a)
  show ?case
  proof (cases "retries + 1 \<le> int a")
    case False
    have "(\<exists>k \<ge> a. int k \<le> retries \<and> send k = Some True) \<longleftrightarrow>
        send a = Some True \<or> (\<exists>k \<ge> a + 1. int k \<le> retries \<and> send k = Some True)"
    proof -
      have "(\<lambda>k. a \<le> k) = (\<lambda>k. k = a \<or> a + 1 \<le> k)" by (rule ext) linarith
      moreover have "int a \<le> retries" using False by simp
      ultimately show ?thesis by (auto simp: fun_eq_iff)
    qed
    then show ?thesis using 1 False by (subst send_attempts.simps) auto
  qed (subst send_attempts.simps, auto)
qed

lemma send_attempts_bound: "a \<le> nat (retries + 1) \<Longrightarrow> snd (send_attempts send retries a) \<le> nat (retries + 1)"
proof (induction send retries a rule: send_attempts.induct)
  case (1 send retries a)
  then show ?case by (subst send_attempts.simps) auto
qed

subsection \<open>Order and accounting\<close>

definition buffer_ok :: "'e sink_buffer \<Rightarrow> bool" where
  "buffer_ok b \<longleftrightarrow>
     (0 < sb_maxsize b \<longrightarrow> int (length (sb_queue b)) \<le> sb_maxsize b)
     \<and> length (sb_queue b) \<le> sb_counter b
     \<and> map fst (sb_queue b) = [sb_counter b - length (sb_queue b) ..< sb_counter b]
     \<and> sb_counter b = length (sb_queue b) + sb_overflow_total b + sb_forwarded b + sb_dropped b + sb_drained b
     \<and> sb_warnings b \<le> sb_overflow_total b"

inductive buffer_step :: "backoff_config \<Rightarrow> 'e sink_buffer \<Rightarrow> 'e sink_buffer \<Rightarrow> bool" for c where
  put: "buffer_step c b (put_event b e)"
| turn: "buffer_step c b (retry_turn c send b)"
| stop: "buffer_step c b (drain b)"

lemma upt_tail: "map fst q' = [n - length q' ..< n] \<Longrightarrow> length q' \<le> n \<Longrightarrow> q' = x # q \<Longrightarrow>
    map fst q = [n - length q ..< n]"
  by (cases n) (auto simp: upt_conv_Cons Suc_diff_le split: if_splits)

lemma pop_ok:
  assumes "buffer_ok b" "sb_queue b = x # q"
  shows "map fst q = [sb_counter b - length q ..< sb_counter b]" "length q < sb_counter b"
    "0 < sb_maxsize b \<Longrightarrow> int (length q) < sb_maxsize b"
  using assms upt_tail [of "sb_queue b" "sb_counter b" x q] by (auto simp: buffer_ok_def)

lemma upt_snoc_ok: "map fst q = [n - length q ..< n] \<Longrightarrow> length q \<le> n \<Longrightarrow>
    map fst (q @ [(n, e)]) = [Suc n - length (q @ [(n, e)]) ..< Suc n]"
  by simp

lemma put_event_ok:
  assumes ok: "buffer_ok b"
  shows "buffer_ok (put_event b e)"
proof (cases "queue_full b")
  case False
  then show ?thesis
    using ok by (auto simp: put_event_def queue_full_def buffer_ok_def Let_def)
next
  case True
  then obtain x q where q: "sb_queue b = x # q" by (cases "sb_queue b") (auto simp: queue_full_def)
  note pop = pop_ok [OF ok q]
  show ?thesis
    using True q ok pop by (auto simp: put_event_def evict_oldest_def queue_full_def buffer_ok_def Let_def)
qed

lemma turn_ok: "buffer_ok b \<Longrightarrow> buffer_ok (retry_turn c send b)"
  using pop_ok [of b] by (cases "sb_queue b") (auto simp: retry_turn_def buffer_ok_def split: prod.split)

lemma drain_ok: "buffer_ok b \<Longrightarrow> buffer_ok (drain b)"
  by (auto simp: drain_def buffer_ok_def)

interpretation buffer: step_system "buffer_step c" "new_buffer maxsize" buffer_ok
proof
  show "buffer_ok (new_buffer maxsize)" by (simp add: buffer_ok_def new_buffer_def)
  show "buffer_step c s s' \<Longrightarrow> buffer_ok s \<Longrightarrow> buffer_ok s'" for s s'
    by (auto elim: buffer_step.cases intro: put_event_ok turn_ok drain_ok)
qed

text \<open>The abstract buffer: the last \<open>maxsize\<close> of all events accepted.\<close>

definition keep_newest :: "int \<Rightarrow> 'a list \<Rightarrow> 'a list" where
  "keep_newest maxsize xs = (if 0 < maxsize then drop (length xs - nat maxsize) xs else xs)"

lemma keep_newest_snoc:
  "keep_newest m (xs @ [x]) =
     (if 0 < m \<and> m \<le> int (length (keep_newest m xs)) then tl (keep_newest m xs) @ [x] else keep_newest m xs @ [x])"
proof (cases "0 < m \<and> m \<le> int (length xs)")
  case True
  then have "length (keep_newest m xs) = nat m" by (simp add: keep_newest_def) linarith
  moreover have "Suc (length xs) - nat m = Suc (length xs - nat m)" using True by (simp add: Suc_diff_le nat_le_iff)
  ultimately show ?thesis
    using True by (auto simp: keep_newest_def drop_Suc drop_tl tl_append nat_le_iff split: list.split)
next
  case False
  then show ?thesis by (auto simp: keep_newest_def)
qed

lemma put_refines:
  assumes "map snd (sb_queue b) = keep_newest (sb_maxsize b) es"
  shows "map snd (sb_queue (put_event b e)) = keep_newest (sb_maxsize b) (es @ [e])"
proof -
  have len: "length (sb_queue b) = length (keep_newest (sb_maxsize b) es)"
    using assms by (metis length_map)
  have bound: "0 < sb_maxsize b \<Longrightarrow> int (length (sb_queue b)) \<le> sb_maxsize b"
    by (simp add: len keep_newest_def)
  show ?thesis
    using assms len bound
    by (auto simp: put_event_def evict_oldest_def queue_full_def keep_newest_snoc Let_def map_tl)
qed

lemma puts_refine:
  assumes "map snd (sb_queue b) = keep_newest (sb_maxsize b) es"
  shows "map snd (sb_queue (foldl put_event b ds)) = keep_newest (sb_maxsize b) (es @ ds)"
  using assms
proof (induction ds arbitrary: b es)
  case (Cons d ds)
  have "sb_maxsize (put_event b d) = sb_maxsize b" by (simp add: put_event_def evict_oldest_def Let_def)
  then show ?case using Cons.IH [of "put_event b d" "es @ [d]"] put_refines [OF Cons.prems] by simp
qed simp

subsection \<open>Properties\<close>

text \<open>C25. after any sequence of events put into a new buffer, the buffer holds, in order, exactly the last
  \<open>maxsize\<close> of them (all of them when the bound is not positive).
\<close>

theorem sink_buffer_keeps_newest:
  "map snd (sb_queue (foldl put_event (new_buffer maxsize) es)) = keep_newest maxsize es"
  using puts_refine [of "new_buffer maxsize" "[]" es] by (simp add: new_buffer_def keep_newest_def)

text \<open>in every state reachable by puts, delivery turns and drains, every event accepted is accounted
  for exactly once (waiting, evicted, forwarded, dropped after its attempts, or drained), the waiting
  ones are the most recent in the order of arrival, and a positive bound is respected.
\<close>

theorem sink_buffer_accounts:
  assumes "(buffer_step c)\<^sup>*\<^sup>* (new_buffer maxsize) b"
  shows "sb_counter b = length (sb_queue b) + sb_overflow_total b + sb_forwarded b + sb_dropped b + sb_drained b
     \<and> map fst (sb_queue b) = [sb_counter b - length (sb_queue b) ..< sb_counter b]
     \<and> (sb_maxsize b \<le> 0 \<or> int (length (sb_queue b)) \<le> sb_maxsize b)"
  using buffer.initial_steps_inv [OF assms] unfolding buffer_ok_def by linarith

theorem sink_buffer_accounts_witness:
  "sb_counter (put_event (put_event (new_buffer 1) ''a'') ''b'') = 2
   \<and> map fst (sb_queue (put_event (put_event (new_buffer 1) ''a'') ''b'')) = [1]"
proof -
  let ?b = "put_event (put_event (new_buffer 1) ''a'') ''b''"
  have "(buffer_step default_backoff)\<^sup>*\<^sup>* (new_buffer 1) ?b"
    by (blast intro: rtranclp.intros buffer_step.put)
  from sink_buffer_accounts [OF this] show ?thesis
    by (simp add: put_event_def new_buffer_def evict_oldest_def queue_full_def)
qed

end
