(* ===== verification/PyText.thy ===== *)
theory PyText
  imports Classify
begin

text \<open>
  Text and byte functions of Python's library that the storage and export components call:
  \<open>str.rpartition\<close>, \<open>int\<close> of a string, UTF-8 and Base64, with their round trips. Bytes are characters.
  Decoding UTF-8 is defined on the code points below 256, the range of a model string; any other
  sequence is an error.
\<close>

subsection \<open>Partition and integers\<close>

text \<open>The text before and after the last separator; None when there is none.\<close>

definition rpartition :: "char \<Rightarrow> string \<Rightarrow> (string \<times> string) option" where
  "rpartition d s =
     (let after = takeWhile (\<lambda>c. c \<noteq> d) (rev s)
      in if length after = length s then None
         else Some (take (length s - length after - 1) s, rev after))"

lemma rpartition_append: "d \<notin> set t \<Longrightarrow> rpartition d (s @ d # t) = Some (s, t)"
  by (simp add: rpartition_def Let_def takeWhile_append)

text \<open>Decimal digits, with single underscores between them.\<close>

fun digits_value :: "nat \<Rightarrow> string \<Rightarrow> nat option" where
  "digits_value acc [] = Some acc"
| "digits_value acc (c # cs) =
     (if is_digit c then digits_value (10 * acc + ((of_char c :: nat) - 48)) cs
      else if c = CHR ''_'' then (case cs of d # _ \<Rightarrow> if is_digit d then digits_value acc cs else None | [] \<Rightarrow> None)
      else None)"

definition py_int :: "string \<Rightarrow> int option" where
  "py_int s =
     (let t = strip_space s; neg = (t \<noteq> [] \<and> hd t = CHR ''-'');
          body = (if t \<noteq> [] \<and> (hd t = CHR ''-'' \<or> hd t = CHR ''+'') then tl t else t)
      in if body = [] \<or> \<not> is_digit (hd body) then None
         else map_option (\<lambda>n. if neg then - int n else int n) (digits_value 0 body))"

definition py_str_int :: "int \<Rightarrow> string" where
  "py_str_int i = (if i < 0 then CHR ''-'' # dec (nat (- i)) else dec (nat i))"

lemma digits_value_all:
  "(\<forall>c \<in> set s. is_digit c) \<Longrightarrow> digits_value acc s = Some (foldl (\<lambda>a c. 10 * a + ((of_char c :: nat) - 48)) acc s)"
  by (induction s arbitrary: acc) auto

lemma digit_not_space: "is_digit c \<Longrightarrow> \<not> is_space c"
  by (auto simp: is_digit_def is_space_def Let_def)

lemma sign_not_digit: "\<not> is_digit (CHR ''-'')" "\<not> is_digit (CHR ''+'')" "\<not> is_space (CHR ''-'')"
  by (simp_all add: is_digit_def is_space_def)

lemma strip_space_clean: "\<forall>c \<in> set s. \<not> is_space c \<Longrightarrow> strip_space s = s"
proof -
  have "dropWhile is_space t = t" if "\<forall>c \<in> set t. \<not> is_space c" for t
    using that by (cases t) auto
  from this [of s] this [of "rev s"] show "\<forall>c \<in> set s. \<not> is_space c \<Longrightarrow> strip_space s = s"
    by (simp add: strip_space_def)
qed

lemma digits_value_dec: "digits_value 0 (dec n) = Some n"
  using digits_value_all [of "dec n" 0] dec_digits undec_dec [of n] by (simp add: undec_def)

lemma hd_dec: "is_digit (hd (dec n))"
  using dec_digits [of "hd (dec n)" n] by simp

lemma py_int_dec: "py_int (dec n) = Some (int n)"
proof -
  have "strip_space (dec n) = dec n"
    by (rule strip_space_clean) (use dec_digits digit_not_space in blast)
  moreover have "hd (dec n) \<noteq> CHR ''-''" "hd (dec n) \<noteq> CHR ''+''"
    using hd_dec sign_not_digit by metis+
  ultimately show ?thesis using hd_dec digits_value_dec by (simp add: py_int_def Let_def)
qed

lemma py_int_str: "py_int (py_str_int i) = Some i"
proof (cases "i < 0")
  case False
  then show ?thesis by (simp add: py_str_int_def py_int_dec)
next
  case True
  have "\<forall>c \<in> set (CHR ''-'' # dec (nat (- i))). \<not> is_space c"
    using dec_digits digit_not_space sign_not_digit(3) by (auto simp del: dec.simps)
  then have "strip_space (CHR ''-'' # dec (nat (- i))) = CHR ''-'' # dec (nat (- i))"
    by (rule strip_space_clean)
  then show ?thesis
    using True hd_dec digits_value_dec by (simp add: py_str_int_def py_int_def Let_def)
qed

subsection \<open>UTF-8\<close>

fun utf8_encode :: "string \<Rightarrow> string" where
  "utf8_encode [] = []"
| "utf8_encode (c # cs) =
     (let n = (of_char c :: nat)
      in if n < 128 then c # utf8_encode cs
         else char_of (192 + n div 64) # char_of (128 + n mod 64) # utf8_encode cs)"

fun utf8_decode :: "string \<Rightarrow> string option" where
  "utf8_decode [] = Some []"
| "utf8_decode (a # bs) =
     (let n = (of_char a :: nat)
      in if n < 128 then map_option ((#) a) (utf8_decode bs)
         else (case bs of
                 [] \<Rightarrow> None
               | b # cs \<Rightarrow>
                   (let m = (of_char b :: nat)
                    in if n \<in> {194, 195} \<and> 128 \<le> m \<and> m < 192
                       then map_option ((#) (char_of ((n - 192) * 64 + (m - 128)))) (utf8_decode cs) else None)))"

lemma utf8_round_trip: "utf8_decode (utf8_encode s) = Some s"
proof (induction s)
  case (Cons c cs)
  define n where "n = (of_char c :: nat)"
  have n: "n < 256" by (simp add: n_def of_char_lt_256)
  show ?case
  proof (cases "n < 128")
    case True
    then show ?thesis using Cons by (simp add: Let_def n_def)
  next
    case False
    then have d: "n div 64 \<in> {2, 3}" using n by auto
    have lead: "(of_char (char_of (192 + n div 64) :: char) :: nat) = 192 + n div 64"
      using d by (auto simp: of_char_char_of_small)
    have cont: "(of_char (char_of (128 + n mod 64) :: char) :: nat) = 128 + n mod 64"
      by (rule of_char_char_of_small) (use mod_less_divisor [of 64 n] in linarith)
    have "char_of (n div 64 * 64 + n mod 64) = c" by (simp only: div_mult_mod_eq) (simp add: n_def)
    then show ?thesis
      using False d Cons lead cont by (auto simp: Let_def n_def [symmetric])
  qed
qed simp

subsection \<open>Base64\<close>

definition b64_alphabet :: string where
  "b64_alphabet = ''ABCDEFGHIJKLMNOPQRSTUVWXYZabcdefghijklmnopqrstuvwxyz0123456789+/''"

definition b64_char :: "nat \<Rightarrow> char" where
  "b64_char n = b64_alphabet ! n"

definition b64_value :: "char \<Rightarrow> nat option" where
  "b64_value c =
     (let n = (of_char c :: nat)
      in if is_upper c then Some (n - 65) else if is_lower c then Some (n - 71) else if is_digit c then Some (n + 4)
         else if c = CHR ''+'' then Some 62 else if c = CHR ''/'' then Some 63 else None)"

fun b64encode :: "string \<Rightarrow> string" where
  "b64encode [] = []"
| "b64encode [a] = (let x = (of_char a :: nat) in [b64_char (x div 4), b64_char (x mod 4 * 16), CHR ''='', CHR ''=''])"
| "b64encode [a, b] =
     (let x = (of_char a :: nat); y = (of_char b :: nat)
      in [b64_char (x div 4), b64_char (x mod 4 * 16 + y div 16), b64_char (y mod 16 * 4), CHR ''=''])"
| "b64encode (a # b # c # rest) =
     (let x = (of_char a :: nat); y = (of_char b :: nat); z = (of_char c :: nat)
      in b64_char (x div 4) # b64_char (x mod 4 * 16 + y div 16) # b64_char (y mod 16 * 4 + z div 64) # b64_char (z mod 64)
         # b64encode rest)"

text \<open>
  \<open>b64decode\<close> without validation: characters outside the alphabet are skipped; padding ends the text
  once a quantum is complete; None is \<open>binascii.Error\<close>. The arguments are the position in the
  quantum, the bits left over, and the padding seen.
\<close>

fun b64_step :: "nat \<Rightarrow> nat \<Rightarrow> nat \<Rightarrow> string \<Rightarrow> string option" where
  "b64_step pos left pads [] = (if pos = 0 then Some [] else None)"
| "b64_step pos left pads (c # cs) =
     (if c = CHR ''='' then
        (if 2 \<le> pos \<and> 4 \<le> pos + pads + 1 then Some [] else b64_step pos left (if 2 \<le> pos then pads + 1 else pads) cs)
      else (case b64_value c of
        None \<Rightarrow> b64_step pos left pads cs
      | Some v \<Rightarrow>
          if pos = 0 then b64_step 1 v 0 cs
          else if pos = 1 then map_option ((#) (char_of (left * 4 + v div 16))) (b64_step 2 (v mod 16) 0 cs)
          else if pos = 2 then map_option ((#) (char_of (left * 16 + v div 4))) (b64_step 3 (v mod 4) 0 cs)
          else map_option ((#) (char_of (left * 64 + v))) (b64_step 0 0 0 cs)))"

definition b64decode :: "string \<Rightarrow> string option" where
  "b64decode s = b64_step 0 0 0 s"

lemma b64_alphabet_values: "map b64_value b64_alphabet = map Some [0..<64]"
  by code_simp

lemma b64_alphabet_no_pad: "CHR ''='' \<notin> set b64_alphabet"
  by code_simp

lemma b64_char_facts: "n < 64 \<Longrightarrow> b64_value (b64_char n) = Some n" "n < 64 \<Longrightarrow> b64_char n \<noteq> CHR ''=''"
proof -
  have len: "length b64_alphabet = 64" by code_simp
  show "n < 64 \<Longrightarrow> b64_value (b64_char n) = Some n"
    using arg_cong [OF b64_alphabet_values, of "\<lambda>xs. xs ! n"] len by (simp add: b64_char_def)
  show "n < 64 \<Longrightarrow> b64_char n \<noteq> CHR ''=''"
    unfolding b64_char_def using b64_alphabet_no_pad len nth_mem [of n b64_alphabet] by metis
qed

lemma b64_step_char:
  assumes "v < 64"
  shows "b64_step 0 left pads (b64_char v # cs) = b64_step 1 v 0 cs"
    "b64_step (Suc 0) left pads (b64_char v # cs) = map_option ((#) (char_of (left * 4 + v div 16))) (b64_step 2 (v mod 16) 0 cs)"
    "b64_step 2 left pads (b64_char v # cs) = map_option ((#) (char_of (left * 16 + v div 4))) (b64_step 3 (v mod 4) 0 cs)"
    "b64_step 3 left pads (b64_char v # cs) = map_option ((#) (char_of (left * 64 + v))) (b64_step 0 0 0 cs)"
  using b64_char_facts [OF assms] by simp_all

lemma b64_step_end: "b64_step 0 left pads [] = Some []" "b64_step 2 left 0 ''=='' = Some []" "b64_step 3 left 0 ''='' = Some []"
  by simp_all

declare b64_step.simps [simp del]

lemma b64_first:
  assumes "x < (256::nat)" "y < 256"
  shows "x div 4 < 64" "x mod 4 * 16 < 64" "x mod 4 * 16 + y div 16 < 64"
    "(x mod 4 * 16 + y div 16) div 16 = x mod 4" "(x mod 4 * 16 + y div 16) mod 16 = y div 16"
proof -
  have "y div 16 < 16" "x mod 4 < 4" using assms by auto
  then show "x div 4 < 64" "x mod 4 * 16 < 64" "x mod 4 * 16 + y div 16 < 64"
    "(x mod 4 * 16 + y div 16) div 16 = x mod 4" "(x mod 4 * 16 + y div 16) mod 16 = y div 16"
    using assms by (linarith | simp)+
qed

lemma b64_second:
  assumes "y < (256::nat)" "z < 256"
  shows "y mod 16 * 4 < 64" "y mod 16 * 4 + z div 64 < 64" "z mod 64 < 64"
    "(y mod 16 * 4 + z div 64) div 4 = y mod 16" "(y mod 16 * 4 + z div 64) mod 4 = z div 64"
proof -
  have "z div 64 < 4" "y mod 16 < 16" using assms by auto
  then show "y mod 16 * 4 < 64" "y mod 16 * 4 + z div 64 < 64" "z mod 64 < 64"
    "(y mod 16 * 4 + z div 64) div 4 = y mod 16" "(y mod 16 * 4 + z div 64) mod 4 = z div 64"
    using assms by (linarith | simp)+
qed

lemma b64_high:
  "(of_char a :: nat) div 16 mod 16 = of_char a div 16" "(of_char a :: nat) div 64 mod 4 = of_char a div 64"
proof -
  have "(of_char a :: nat) div 16 < 16" "(of_char a :: nat) div 64 < 4" using of_char_lt_256 [of a] by linarith+
  then show "(of_char a :: nat) div 16 mod 16 = of_char a div 16" "(of_char a :: nat) div 64 mod 4 = of_char a div 64"
    by (simp_all only: mod_less)
qed

lemmas b64_simps = b64_first [OF of_char_lt_256 of_char_lt_256] b64_second [OF of_char_lt_256 of_char_lt_256]
  b64_step_char b64_step_end b64_high

lemma b64_round_trip: "b64decode (b64encode s) = Some s"
  unfolding b64decode_def
  by (induction s rule: b64encode.induct) (simp_all add: Let_def b64_simps)

end
