(* ===== verification/MappingStore.thy ===== *)
theory MappingStore
  imports PyText Workflows
begin

text \<open>
  The store of token mappings (\<open>cache/manager.py\<close>): the parsing of node lists, the retry loop around
  each Valkey call, and storing, reading and deleting the mapping of a session, with values encrypted
  when a key service is configured; and the cleanup at the end of a stream (\<open>streaming/cleanup.py\<close>).
  The locale \<open>session_store\<close> states what clients rely on; the model of the cache manager is its
  instance, with and without encryption.

  An attempt of a call either completes, or breaks with an exception, and in that case the server may
  or may not have executed it. The key service is a pair of parameters. The exponential part of the
  waiting time, the jitter and the duration of each attempt are arguments.
\<close>

subsection \<open>Node lists\<close>

definition parse_node :: "string \<Rightarrow> (string \<times> int) option" where
  "parse_node entry =
     (let node = strip_space entry
      in if node = [] \<or> List.member node (CHR ''@'') then None
         else (case rpartition (CHR '':'') node of
                 None \<Rightarrow> None
               | Some (host, port_text) \<Rightarrow>
                   if host = [] \<or> port_text = [] \<or> List.member host (CHR '':'') then None
                   else (case py_int port_text of
                           None \<Rightarrow> None
                         | Some port \<Rightarrow> if port < 1 \<or> port > 65535 then None else Some (host, port))))"

fun parse_nodes :: "string list \<Rightarrow> (string \<times> int) list option" where
  "parse_nodes [] = Some []"
| "parse_nodes (e # es) =
     (case parse_node e of
        None \<Rightarrow> None
      | Some n \<Rightarrow> (case parse_nodes es of None \<Rightarrow> None | Some ns \<Rightarrow> Some (n # ns)))"

text \<open>None is the \<open>ValueError\<close> of an invalid topology.\<close>

definition parse_host_port_list :: "string \<Rightarrow> (string \<times> int) list option" where
  "parse_host_port_list raw =
     (case parse_nodes (split_on (CHR '','') raw) of None \<Rightarrow> None | Some [] \<Rightarrow> None | Some ns \<Rightarrow> Some ns)"

subsection \<open>Retries\<close>

datatype cache_exn = ConnectionError | TimeoutError | ReadOnlyError | ClusterDownError | MasterDownError | OtherCacheError

datatype store_exn = DependencyUnavailable string | CacheFailure cache_exn | DataError | KmsFailure py_exn

definition is_retryable_cache_error :: "cache_exn \<Rightarrow> bool" where
  "is_retryable_cache_error e \<longleftrightarrow> e \<noteq> OtherCacheError"

text \<open>One attempt: done, or broken, where the flag says that the server had executed the call.\<close>

datatype attempt = Completed | Broken cache_exn bool

text \<open>\<open>_cache_retry_wait\<close>, from the exponential part and the jitter drawn.\<close>

definition cache_retry_wait :: "rat \<Rightarrow> rat \<Rightarrow> rat" where
  "cache_retry_wait base jitter = max (1 / 10) (min 2 (base * jitter))"

lemma cache_retry_wait_bounds: "1 / 10 \<le> cache_retry_wait b j" "cache_retry_wait b j \<le> 2"
  by (auto simp: cache_retry_wait_def)

text \<open>The waiting time is at least a tenth of a second, so at most 300 waits fit into the limit.\<close>

definition tenths_left :: "rat \<Rightarrow> nat" where
  "tenths_left elapsed = nat \<lceil>(30 - elapsed) * 10\<rceil>"

lemma retry_progress:
  assumes "\<not> 30 \<le> elapsed + max 0 d"
  shows "tenths_left (elapsed + max 0 d + cache_retry_wait b j) < tenths_left elapsed"
proof -
  have "elapsed < 30" using assms by (simp add: max_def split: if_splits)
  have "(30 - (elapsed + max 0 d + cache_retry_wait b j)) * 10 \<le> (30 - elapsed) * 10 - 1"
    using cache_retry_wait_bounds(1) [of b j] by (simp add: max_def split: if_splits)
  then have "\<lceil>(30 - (elapsed + max 0 d + cache_retry_wait b j)) * 10\<rceil> \<le> \<lceil>(30 - elapsed) * 10 - 1\<rceil>"
    by (rule ceiling_mono)
  also have "\<dots> = \<lceil>(30 - elapsed) * 10\<rceil> - 1" by (rule ceiling_diff_one)
  finally have "\<lceil>(30 - (elapsed + max 0 d + cache_retry_wait b j)) * 10\<rceil> \<le> \<lceil>(30 - elapsed) * 10\<rceil> - 1" .
  moreover have "0 < \<lceil>(30 - elapsed) * 10\<rceil>" using \<open>elapsed < 30\<close> by simp
  ultimately show ?thesis by (simp add: tenths_left_def)
qed

record retry_env =
  re_attempt :: "nat \<Rightarrow> attempt"
  re_duration :: "nat \<Rightarrow> rat"
  re_base :: "nat \<Rightarrow> rat"
  re_jitter :: "nat \<Rightarrow> rat"

text \<open>
  The loop stops when the call completes, when it breaks with an error that is not retryable, or when
  at least 30 seconds have passed; the result is the exception of the last attempt, whether some
  attempt was executed by the server, and the number of attempts.
\<close>

function retry_calls :: "retry_env \<Rightarrow> nat \<Rightarrow> rat \<Rightarrow> bool \<Rightarrow> cache_exn option \<times> bool \<times> nat" where
  "retry_calls env n elapsed executed =
     (let now = elapsed + max 0 (re_duration env n)
      in case re_attempt env n of
           Completed \<Rightarrow> (None, True, n + 1)
         | Broken e ran_it \<Rightarrow>
             if \<not> is_retryable_cache_error e \<or> 30 \<le> now then (Some e, executed \<or> ran_it, n + 1)
             else retry_calls env (n + 1) (now + cache_retry_wait (re_base env n) (re_jitter env n)) (executed \<or> ran_it))"
  by pat_completeness auto
termination
  by (relation "measure (\<lambda>(_, _, elapsed, _). tenths_left elapsed)") (auto intro!: retry_progress)

declare retry_calls.simps [simp del]

definition execute_with_retry :: "retry_env \<Rightarrow> store_exn option \<times> bool" where
  "execute_with_retry env =
     (case retry_calls env 0 0 False of
        (None, executed, _) \<Rightarrow> (None, executed)
      | (Some e, executed, _) \<Rightarrow>
          (Some (if is_retryable_cache_error e then DependencyUnavailable ''valkey'' else CacheFailure e), executed))"

text \<open>A call that completes has been executed; the number of attempts is bounded by the time left.\<close>

lemma retry_completed: "fst (retry_calls env n t x) = None \<Longrightarrow> fst (snd (retry_calls env n t x))"
proof (induction env n t x rule: retry_calls.induct)
  case (1 env n t x)
  then show ?case
    by (subst (asm) retry_calls.simps, subst retry_calls.simps)
       (auto simp: Let_def split: attempt.splits if_splits)
qed

lemma retry_attempts_bound: "snd (snd (retry_calls env n t x)) \<le> n + 1 + tenths_left t"
proof (induction env n t x rule: retry_calls.induct)
  case (1 env n t x)
  then show ?case
    using retry_progress [of t "re_duration env n" "re_base env n" "re_jitter env n"]
    by (subst retry_calls.simps) (fastforce simp: Let_def split: attempt.splits)
qed

lemma execute_completed: "fst (execute_with_retry env) = None \<Longrightarrow> snd (execute_with_retry env)"
  using retry_completed [of env 0 0 False] by (auto simp: execute_with_retry_def split: prod.splits option.splits)

subsection \<open>Mappings\<close>

type_synonym mapping_store = "(string, (string, string) dict \<times> rat) dict"

record kms_client =
  kms_encrypt :: "string \<Rightarrow> string \<Rightarrow> string py_result"
  kms_decrypt :: "string \<Rightarrow> string \<Rightarrow> string py_result"

record cache_manager =
  cm_ttl :: int
  cm_kms :: "kms_client option"

definition session_key :: "string \<Rightarrow> string \<Rightarrow> string" where
  "session_key tenant session = ''anonreq:'' @ tenant @ '':'' @ session"

definition visible :: "mapping_store \<Rightarrow> string \<Rightarrow> rat \<Rightarrow> (string, string) dict" where
  "visible st key now = (case map_of st key of None \<Rightarrow> [] | Some (h, deadline) \<Rightarrow> if now < deadline then h else [])"

fun encrypt_values :: "kms_client \<Rightarrow> string \<Rightarrow> (string, string) dict \<Rightarrow> (string, string) dict py_result" where
  "encrypt_values k tenant [] = Inr []"
| "encrypt_values k tenant ((token, v) # rest) =
     bind_result (kms_encrypt k tenant (utf8_encode v)) (\<lambda>c.
       bind_result (encrypt_values k tenant rest) (\<lambda>es. Inr ((token, b64encode c) # es)))"

fun decrypt_values :: "kms_client \<Rightarrow> string \<Rightarrow> (string, string) dict \<Rightarrow> (string, string) dict option" where
  "decrypt_values k tenant [] = Some []"
| "decrypt_values k tenant ((token, b) # rest) =
     (case b64decode b of
        None \<Rightarrow> None
      | Some c \<Rightarrow>
          (case kms_decrypt k tenant c of
             Inl _ \<Rightarrow> None
           | Inr p \<Rightarrow>
               (case utf8_decode p of
                  None \<Rightarrow> None
                | Some v \<Rightarrow> map_option ((#) (token, v)) (decrypt_values k tenant rest))))"

text \<open>
  \<open>now\<close> is the clock of the server when it executes the transaction, for the last time if an attempt that
  had been executed is repeated: the deadline counts from there, not from the start of the call.
\<close>

definition store_mapping ::
  "cache_manager \<Rightarrow> retry_env \<Rightarrow> mapping_store \<Rightarrow> string \<Rightarrow> string \<Rightarrow> (string, string) dict \<Rightarrow> rat
     \<Rightarrow> mapping_store \<times> (store_exn + unit)" where
  "store_mapping cm env st tenant session mapping now =
     (case (case cm_kms cm of None \<Rightarrow> Inr mapping | Some k \<Rightarrow> encrypt_values k tenant mapping) of
        Inl e \<Rightarrow> (st, Inl (KmsFailure e))
      | Inr stored \<Rightarrow>
          if stored = [] then (st, Inl DataError)
          else (let key = session_key tenant session;
                    st' = AList.update key (dict_update (visible st key now) stored, now + of_int (cm_ttl cm)) st;
                    (exn, executed) = execute_with_retry env
                in (if executed then st' else st, case exn of None \<Rightarrow> Inr () | Some e \<Rightarrow> Inl e)))"

definition read_mapping ::
  "cache_manager \<Rightarrow> retry_env \<Rightarrow> mapping_store \<Rightarrow> string \<Rightarrow> string \<Rightarrow> rat \<Rightarrow> store_exn + (string, string) dict" where
  "read_mapping cm env st tenant session now =
     (case execute_with_retry env of
        (Some e, _) \<Rightarrow> Inl e
      | (None, _) \<Rightarrow>
          (let raw = visible st (session_key tenant session) now
           in case cm_kms cm of
                None \<Rightarrow> Inr raw
              | Some k \<Rightarrow>
                  if raw = [] then Inr raw
                  else (case decrypt_values k tenant raw of
                          None \<Rightarrow> Inl (DependencyUnavailable ''kms'') | Some m \<Rightarrow> Inr m)))"

definition delete_mapping ::
  "cache_manager \<Rightarrow> retry_env \<Rightarrow> mapping_store \<Rightarrow> string \<Rightarrow> string \<Rightarrow> mapping_store \<times> (store_exn + unit)" where
  "delete_mapping cm env st tenant session =
     (case execute_with_retry env of
        (exn, executed) \<Rightarrow>
          (if executed then AList.delete (session_key tenant session) st else st,
           case exn of None \<Rightarrow> Inr () | Some e \<Rightarrow> Inl e))"

subsection \<open>What the clients rely on\<close>

datatype ('k, 'm) store_op = Put 'k 'm | Del 'k

fun op_key :: "('k, 'm) store_op \<Rightarrow> 'k" where
  "op_key (Put k m) = k"
| "op_key (Del k) = k"

locale session_store =
  fixes put :: "'s \<Rightarrow> 'k \<Rightarrow> 'm \<Rightarrow> 's" and del :: "'s \<Rightarrow> 'k \<Rightarrow> 's" and find :: "'s \<Rightarrow> 'k \<Rightarrow> 'v"
    and nothing :: 'v and view :: "'m \<Rightarrow> 'v" and valid :: "'k \<Rightarrow> 'm \<Rightarrow> bool" and key_ok :: "'k \<Rightarrow> bool"
  assumes put_find: "key_ok k \<Longrightarrow> valid k m \<Longrightarrow> find s k = nothing \<Longrightarrow> find (put s k m) k = view m"
    and put_frame: "key_ok k \<Longrightarrow> key_ok k' \<Longrightarrow> k \<noteq> k' \<Longrightarrow> find (put s k m) k' = find s k'"
    and del_find: "find (del s k) k = nothing"
    and del_frame: "key_ok k \<Longrightarrow> key_ok k' \<Longrightarrow> k \<noteq> k' \<Longrightarrow> find (del s k) k' = find s k'"
begin

fun apply_op :: "'s \<Rightarrow> ('k, 'm) store_op \<Rightarrow> 's" where
  "apply_op s (Put k m) = put s k m"
| "apply_op s (Del k) = del s k"

lemma others_isolated:
  assumes "key_ok k" "\<forall>op \<in> set ops. key_ok (op_key op) \<and> op_key op \<noteq> k"
  shows "find (foldl apply_op s ops) k = find s k"
  using assms(2)
proof (induction ops arbitrary: s)
  case (Cons op ops)
  then show ?case using assms(1) by (cases op) (auto simp: put_frame del_frame)
qed simp

lemma session_round_trip:
  assumes "key_ok k" "valid k m" "find s k = nothing" "\<forall>op \<in> set ops. key_ok (op_key op) \<and> op_key op \<noteq> k"
  shows "find (foldl apply_op (put s k m) ops) k = view m"
    and "find (del (foldl apply_op (put s k m) ops) k) k = nothing"
  using assms others_isolated [OF assms(1,4)] by (simp_all add: put_find del_find)

end

subsection \<open>The cache manager as a session store\<close>

definition calm_env :: retry_env where
  "calm_env = \<lparr>re_attempt = (\<lambda>_. Completed), re_duration = (\<lambda>_. 0), re_base = (\<lambda>_. 0), re_jitter = (\<lambda>_. 0)\<rparr>"

lemma execute_calm [simp]: "execute_with_retry calm_env = (None, True)"
  by (simp add: execute_with_retry_def calm_env_def retry_calls.simps)

text \<open>A call that succeeds after any number of attempts has the effect of an undisturbed one.\<close>

lemma store_success_calm:
  "snd (store_mapping cm env st t sid m now) = Inr () \<Longrightarrow>
     fst (store_mapping cm env st t sid m now) = fst (store_mapping cm calm_env st t sid m now)"
  using execute_completed [of env]
  by (auto simp: store_mapping_def Let_def split: sum.splits prod.splits option.splits if_splits)

lemma delete_success_calm:
  "snd (delete_mapping cm env st t sid) = Inr () \<Longrightarrow>
     fst (delete_mapping cm env st t sid) = fst (delete_mapping cm calm_env st t sid)"
  using execute_completed [of env]
  by (auto simp: delete_mapping_def split: prod.splits option.splits)

text \<open>A mapping that can be stored: not empty, each token once, every value encrypted and decrypted.\<close>

definition storable :: "cache_manager \<Rightarrow> string \<Rightarrow> (string, string) dict \<Rightarrow> bool" where
  "storable cm tenant m \<longleftrightarrow> m \<noteq> [] \<and> distinct (map fst m) \<and>
     (case cm_kms cm of None \<Rightarrow> True
      | Some k \<Rightarrow> \<forall>v \<in> snd ` set m. \<exists>c. kms_encrypt k tenant (utf8_encode v) = Inr c
          \<and> kms_decrypt k tenant c = Inr (utf8_encode v))"

lemma encrypt_decrypt:
  assumes "\<forall>v \<in> snd ` set m. \<exists>c. kms_encrypt k tenant (utf8_encode v) = Inr c \<and> kms_decrypt k tenant c = Inr (utf8_encode v)"
  shows "\<exists>es. encrypt_values k tenant m = Inr es \<and> map fst es = map fst m \<and> decrypt_values k tenant es = Some m"
  using assms
proof (induction m)
  case (Cons tv m)
  obtain t v where tv: "tv = (t, v)" by (cases tv)
  from Cons obtain es where "encrypt_values k tenant m = Inr es" "map fst es = map fst m" "decrypt_values k tenant es = Some m"
    by auto
  moreover obtain c where "kms_encrypt k tenant (utf8_encode v) = Inr c" "kms_decrypt k tenant c = Inr (utf8_encode v)"
    using Cons.prems tv by auto
  ultimately show ?case by (simp add: tv b64_round_trip utf8_round_trip)
qed simp

lemma update_new: "k \<notin> fst ` set e \<Longrightarrow> AList.update k v e = e @ [(k, v)]"
  by (induction e) auto

lemma dict_update_nil: "distinct (map fst e) \<Longrightarrow> dict_update [] e = e"
proof (induction e rule: rev_induct)
  case (snoc kv e)
  then have "AList.update (fst kv) (snd kv) e = e @ [kv]" using update_new [of "fst kv" e "snd kv"] by simp
  with snoc show ?case by (simp add: dict_update_def)
qed (simp add: dict_update_def)

text \<open>What the entry of a session is after storing into a store that has none, and what is read back.\<close>

definition wire :: "cache_manager \<Rightarrow> string \<Rightarrow> (string, string) dict \<Rightarrow> (string, string) dict" where
  "wire cm tenant m = (case cm_kms cm of None \<Rightarrow> m
     | Some k \<Rightarrow> (case encrypt_values k tenant m of Inl _ \<Rightarrow> [] | Inr es \<Rightarrow> es))"

lemma wire_facts:
  assumes "storable cm tenant m"
  shows "wire cm tenant m \<noteq> []" "distinct (map fst (wire cm tenant m))"
    "(case cm_kms cm of None \<Rightarrow> Inr m | Some k \<Rightarrow> encrypt_values k tenant m) = Inr (wire cm tenant m)"
    "case cm_kms cm of None \<Rightarrow> wire cm tenant m = m | Some k \<Rightarrow> decrypt_values k tenant (wire cm tenant m) = Some m"
proof -
  show "wire cm tenant m \<noteq> []" "distinct (map fst (wire cm tenant m))"
    "(case cm_kms cm of None \<Rightarrow> Inr m | Some k \<Rightarrow> encrypt_values k tenant m) = Inr (wire cm tenant m)"
    "case cm_kms cm of None \<Rightarrow> wire cm tenant m = m | Some k \<Rightarrow> decrypt_values k tenant (wire cm tenant m) = Some m"
    using assms encrypt_decrypt [of m "the (cm_kms cm)" tenant]
    by (cases "cm_kms cm"; auto simp: storable_def wire_def)+
qed

lemma stored_entry:
  assumes "storable cm tenant m" "visible st (session_key tenant sid) now = []"
  shows "fst (store_mapping cm calm_env st tenant sid m now) =
    AList.update (session_key tenant sid) (wire cm tenant m, now + of_int (cm_ttl cm)) st"
  using wire_facts [OF assms(1)] assms(2) by (simp add: store_mapping_def dict_update_nil Let_def)

lemma read_stored:
  assumes "storable cm tenant m" "map_of st (session_key tenant sid) = Some (wire cm tenant m, deadline)"
  shows "read_mapping cm calm_env st tenant sid later = Inr (if later < deadline then m else [])"
  using wire_facts [OF assms(1)] assms
  by (auto simp: read_mapping_def visible_def Let_def split: option.splits)

text \<open>Session keys are apart as long as no tenant name has a colon.\<close>

definition colon_free :: "string \<Rightarrow> bool" where
  "colon_free tenant \<longleftrightarrow> CHR '':'' \<notin> set tenant"

lemma session_key_eq:
  assumes "colon_free t" "colon_free t'"
  shows "session_key t s = session_key t' s' \<longleftrightarrow> t = t' \<and> s = s'"
proof
  assume "session_key t s = session_key t' s'"
  then have eq: "t @ '':'' @ s = t' @ '':'' @ s'" by (simp add: session_key_def)
  have "takeWhile (\<lambda>c. c \<noteq> CHR '':'') (u @ '':'' @ r) = u" if "colon_free u" for u r
  proof -
    have "\<forall>c \<in> set u. c \<noteq> CHR '':''" using that unfolding colon_free_def by blast
    then show ?thesis by (simp add: takeWhile_append2)
  qed
  with eq assms have "t = t'" by metis
  with eq show "t = t' \<and> s = s'" by simp
qed simp

lemma session_keys_collide: "session_key (a @ '':'' @ b) c = session_key a (b @ '':'' @ c)"
  by (simp add: session_key_def)

definition manager_put :: "cache_manager \<Rightarrow> rat \<Rightarrow> mapping_store \<Rightarrow> string \<times> string \<Rightarrow> (string, string) dict \<Rightarrow> mapping_store" where
  "manager_put cm now st k m = fst (store_mapping cm calm_env st (fst k) (snd k) m now)"

definition manager_del :: "cache_manager \<Rightarrow> mapping_store \<Rightarrow> string \<times> string \<Rightarrow> mapping_store" where
  "manager_del cm st k = fst (delete_mapping cm calm_env st (fst k) (snd k))"

definition manager_find :: "cache_manager \<Rightarrow> rat \<Rightarrow> mapping_store \<Rightarrow> string \<times> string \<Rightarrow> store_exn + (string \<rightharpoonup> string)" where
  "manager_find cm now st k = map_sum id map_of (read_mapping cm calm_env st (fst k) (snd k) now)"

lemma decrypt_nonempty: "decrypt_values k tenant (x # raw) = Some m \<Longrightarrow> m \<noteq> []"
  by (cases x) (auto split: option.splits sum.splits)

lemma found_nothing:
  assumes "manager_find cm now st k = Inr Map.empty"
  shows "visible st (session_key (fst k) (snd k)) now = []"
  using assms decrypt_nonempty
  by (cases "visible st (session_key (fst k) (snd k)) now")
     (auto simp: manager_find_def read_mapping_def Let_def split: option.splits)

lemma find_visible_cong:
  "visible st (session_key (fst k) (snd k)) now = visible st' (session_key (fst k) (snd k)) now
     \<Longrightarrow> manager_find cm now st k = manager_find cm now st' k"
  by (simp add: manager_find_def read_mapping_def)

lemma put_elsewhere:
  "session_key (fst k) (snd k) \<noteq> key \<Longrightarrow> visible (manager_put cm now st k m) key t = visible st key t"
  by (auto simp: manager_put_def store_mapping_def visible_def map_of_update Let_def split: sum.splits option.splits)

lemma del_visible:
  "visible (manager_del cm st k) key t = (if session_key (fst k) (snd k) = key then [] else visible st key t)"
  by (auto simp: manager_del_def delete_mapping_def visible_def delete_conv')

definition key_plain :: "string \<times> string \<Rightarrow> bool" where
  "key_plain k \<longleftrightarrow> colon_free (fst k)"

interpretation manager: session_store "manager_put cm now" "manager_del cm" "manager_find cm now" "Inr Map.empty"
  "\<lambda>m. Inr (map_of m)" "\<lambda>k m. storable cm (fst k) m \<and> 0 < cm_ttl cm" key_plain
proof
  fix k :: "string \<times> string" and m s
  assume "storable cm (fst k) m \<and> 0 < cm_ttl cm" "manager_find cm now s k = Inr Map.empty"
  then show "manager_find cm now (manager_put cm now s k m) k = Inr (map_of m)"
    using stored_entry [of cm "fst k" m s "snd k" now] found_nothing [of cm now s k]
      read_stored [of cm "fst k" m "manager_put cm now s k m" "snd k" "now + of_int (cm_ttl cm)" now]
    by (simp add: manager_find_def manager_put_def map_of_update)
next
  fix k k' :: "string \<times> string" and s m
  assume "key_plain k" "key_plain k'" "k \<noteq> k'"
  then have "session_key (fst k) (snd k) \<noteq> session_key (fst k') (snd k')"
    by (auto simp: key_plain_def session_key_eq prod_eq_iff)
  then show "manager_find cm now (manager_put cm now s k m) k' = manager_find cm now s k'"
    "manager_find cm now (manager_del cm s k) k' = manager_find cm now s k'"
    by (auto intro!: find_visible_cong simp: put_elsewhere del_visible)
next
  show "manager_find cm now (manager_del cm s k) k = Inr Map.empty" for s k
    by (simp add: manager_find_def read_mapping_def del_visible Let_def split: option.split)
qed

subsection \<open>Cleanup at the end of a stream\<close>

text \<open>
  The counters are the calls made: deletions of the mapping, audit writes, log lines, and increments of
  the disconnect metric. A call gets the outcome of the deletion, of the audit write and of the log.
\<close>

record session_cleanup =
  sc_tenant :: string
  sc_session :: string
  sc_context :: bool
  sc_logger :: bool
  sc_metrics :: bool
  sc_cleaned :: bool
  sc_terminal :: "string option"
  sc_deletes :: nat
  sc_audits :: nat
  sc_logs :: nat
  sc_disconnects :: nat

record cleanup_env =
  ce_delete :: retry_env
  ce_audit :: "py_exn option"
  ce_log :: bool

definition emit_terminal_log :: "bool \<Rightarrow> session_cleanup \<Rightarrow> string \<Rightarrow> session_cleanup" where
  "emit_terminal_log log_ok s state =
     (let s1 = (if sc_logger s then s\<lparr>sc_logs := sc_logs s + 1\<rparr> else s)
      in if sc_logger s \<and> \<not> log_ok then s1
         else if state = ''CLIENT_DISCONNECT'' \<and> sc_metrics s then s1\<lparr>sc_disconnects := sc_disconnects s1 + 1\<rparr> else s1)"

definition stream_cleanup ::
  "cache_manager \<Rightarrow> cleanup_env \<Rightarrow> session_cleanup \<times> mapping_store \<Rightarrow> string
     \<Rightarrow> (session_cleanup \<times> mapping_store) \<times> py_exn option" where
  "stream_cleanup cm env st state =
     (case st of (s, store) \<Rightarrow>
        if sc_cleaned s then ((s, store), None)
        else (let s1 = s\<lparr>sc_cleaned := True, sc_terminal := Some state, sc_deletes := sc_deletes s + 1\<rparr>;
                  store' = fst (delete_mapping cm (ce_delete env) store (sc_tenant s) (sc_session s));
                  s2 = (if sc_context s then s1\<lparr>sc_audits := sc_audits s1 + 1\<rparr> else s1)
              in ((emit_terminal_log (ce_log env) s2 state, store'), if sc_context s then ce_audit env else None)))"

definition new_cleanup :: "string \<Rightarrow> string \<Rightarrow> bool \<Rightarrow> bool \<Rightarrow> bool \<Rightarrow> session_cleanup" where
  "new_cleanup tenant session has_context logger metrics =
     \<lparr>sc_tenant = tenant, sc_session = session, sc_context = has_context, sc_logger = logger, sc_metrics = metrics,
      sc_cleaned = False, sc_terminal = None, sc_deletes = 0, sc_audits = 0, sc_logs = 0, sc_disconnects = 0\<rparr>"

lemma cleanup_marks: "sc_cleaned (fst (fst (stream_cleanup cm env st state)))"
  by (auto simp: stream_cleanup_def emit_terminal_log_def Let_def split: prod.split)

lemma cleanup_again: "sc_cleaned (fst st) \<Longrightarrow> stream_cleanup cm env st state = (st, None)"
  by (cases st) (simp add: stream_cleanup_def)

lemma cleanups_once:
  "foldl (\<lambda>st (env, state). fst (stream_cleanup cm env st state)) st ((env0, state0) # calls)
     = fst (stream_cleanup cm env0 st state0)"
proof -
  have "sc_cleaned (fst st) \<Longrightarrow> foldl (\<lambda>st (env, state). fst (stream_cleanup cm env st state)) st calls = st" for st
    by (induction calls) (auto simp: cleanup_again)
  then show ?thesis by (simp add: cleanup_marks)
qed

lemma first_cleanup:
  assumes "fst st = new_cleanup tenant sid ctx logger metrics"
  shows "sc_terminal (fst (fst (stream_cleanup cm env st state))) = Some state"
    "sc_deletes (fst (fst (stream_cleanup cm env st state))) = 1"
    "sc_audits (fst (fst (stream_cleanup cm env st state))) = (if ctx then 1 else 0)"
    "snd (fst (stream_cleanup cm env st state)) = fst (delete_mapping cm (ce_delete env) (snd st) tenant sid)"
  using assms by (auto simp: stream_cleanup_def emit_terminal_log_def new_cleanup_def Let_def split: prod.split)

subsection \<open>Properties\<close>

text \<open>C20. a mapping stored for a new session, through any number of retried attempts, is read back
  unchanged until its time to live is over and is empty from then on, with or without a key service;
  and no other session, of this or of another tenant whose name has no colon, sees a difference.
\<close>

theorem stored_mapping_read_back:
  assumes "storable cm tenant m" "map_of st (session_key tenant sid) = None"
    and "snd (store_mapping cm env st tenant sid m now) = Inr ()" "fst (execute_with_retry env') = None"
    and "colon_free tenant" "colon_free tenant'" "(tenant', sid') \<noteq> (tenant, sid)"
  shows "read_mapping cm env' (fst (store_mapping cm env st tenant sid m now)) tenant sid later
        = Inr (if later < now + of_int (cm_ttl cm) then m else [])
     \<and> read_mapping cm env'' (fst (store_mapping cm env st tenant sid m now)) tenant' sid' later
        = read_mapping cm env'' st tenant' sid' later"
proof -
  let ?st = "fst (store_mapping cm env st tenant sid m now)"
  have calm: "?st = manager_put cm now st (tenant, sid) m"
    using store_success_calm [OF assms(3)] by (simp add: manager_put_def)
  have "visible st (session_key tenant sid) now = []" using assms(2) by (simp add: visible_def)
  then have "map_of ?st (session_key tenant sid) = Some (wire cm tenant m, now + of_int (cm_ttl cm))"
    using stored_entry [OF assms(1), of st sid now] unfolding calm manager_put_def by (simp add: map_of_update)
  from read_stored [OF assms(1) this, of later]
  have "read_mapping cm calm_env ?st tenant sid later = Inr (if later < now + of_int (cm_ttl cm) then m else [])" .
  moreover have "read_mapping cm env' s t i l = read_mapping cm calm_env s t i l" for s t i l
    using assms(4) by (cases "execute_with_retry env'") (simp add: read_mapping_def)
  moreover have "session_key tenant sid \<noteq> session_key tenant' sid'"
    using assms(5-7) by (auto simp: session_key_eq)
  then have "visible ?st (session_key tenant' sid') later = visible st (session_key tenant' sid') later"
    unfolding calm by (simp add: put_elsewhere)
  then have "read_mapping cm env'' ?st tenant' sid' later = read_mapping cm env'' st tenant' sid' later"
    by (simp only: read_mapping_def)
  ultimately show ?thesis by simp
qed

definition sample_manager :: cache_manager where
  "sample_manager = \<lparr>cm_ttl = 300, cm_kms = Some \<lparr>kms_encrypt = (\<lambda>t v. Inr (rev v)), kms_decrypt = (\<lambda>t c. Inr (rev c))\<rparr>\<rparr>"

definition flaky_env :: retry_env where
  "flaky_env = calm_env\<lparr>re_attempt := (\<lambda>n. if n = 0 then Broken TimeoutError True else Completed)\<rparr>"

lemma flaky_completes: "execute_with_retry flaky_env = (None, True)"
  by (simp add: execute_with_retry_def flaky_env_def calm_env_def retry_calls.simps is_retryable_cache_error_def)

theorem stored_mapping_read_back_witness:
  "read_mapping sample_manager flaky_env
     (fst (store_mapping sample_manager flaky_env [] ''acme'' ''s1'' [(''[NAME_1]'', ''Ann'')] 0)) ''acme'' ''s1'' 299
     = Inr [(''[NAME_1]'', ''Ann'')]"
proof -
  have "storable sample_manager ''acme'' [(''[NAME_1]'', ''Ann'')]" by (simp add: storable_def sample_manager_def)
  moreover have "snd (store_mapping sample_manager flaky_env [] ''acme'' ''s1'' [(''[NAME_1]'', ''Ann'')] 0) = Inr ()"
    by (simp add: store_mapping_def sample_manager_def flaky_completes Let_def)
  moreover have "fst (execute_with_retry flaky_env) = None" by (simp add: flaky_completes)
  moreover have "colon_free ''acme''" by code_simp
  ultimately show ?thesis
    using stored_mapping_read_back [of sample_manager "''acme''" "[(''[NAME_1]'', ''Ann'')]" "[]" "''s1''" flaky_env 0 flaky_env
      "''acme''" "''s2''" 299]
    by (simp add: sample_manager_def)
qed

end
