(* ===== verification/AuditExport.thy ===== *)
theory AuditExport
  imports AuditChain PyText Policy "HOL-Library.List_Lexorder" "HOL-Library.Char_ord"
begin

text \<open>
  The projections of audit events that leave the gateway (\<open>services/audit_export.py\<close>): the checks of
  names, the escaping of spreadsheet formulas, the CSV rendering with the quoting of Python's \<open>csv\<close>
  module, the counts of entity types and the keyset cursor. The abstract specification of the rendering
  is a reader of RFC 4180 text: it returns exactly the rows that were rendered.

  Parameters: reading a JSON text (None when it is not one), the ISO text of a time and its inverse, and
  Unicode normalisation. The full-width formula characters lie outside the characters of a model string.
\<close>

subsection \<open>Names\<close>

definition entity_type_name :: "string \<Rightarrow> bool" where
  "entity_type_name s \<longleftrightarrow>
     2 \<le> length s \<and> length s \<le> 64 \<and> is_upper (hd s) \<and> list_all (\<lambda>c. is_upper c \<or> c = CHR ''_'') (tl s)"

fun valid_entity_type_names :: "json option \<Rightarrow> string list" where
  "valid_entity_type_names (Some (JList items)) =
     concat (map (\<lambda>j. case j of JStr s \<Rightarrow> if entity_type_name s then [s] else [] | _ \<Rightarrow> []) items)"
| "valid_entity_type_names _ = []"

definition exported_names :: "(string, json) dict \<Rightarrow> string list" where
  "exported_names meta =
     (let names = valid_entity_type_names (map_of meta ''entity_types'')
      in if names \<noteq> [] then names
         else (case map_of meta ''entity_counts'' of
                 Some (JObj kvs) \<Rightarrow> valid_entity_type_names (Some (JList (map (JStr \<circ> fst) kvs)))
               | _ \<Rightarrow> []))"

definition entity_types_cell :: "(string, json) dict \<Rightarrow> string" where
  "entity_types_cell meta = join '','' (exported_names meta)"

definition ascii_alpha :: "char \<Rightarrow> bool" where
  "ascii_alpha c \<longleftrightarrow> is_upper c \<or> is_lower c"

definition ascii_alnum :: "char \<Rightarrow> bool" where
  "ascii_alnum c \<longleftrightarrow> ascii_alpha c \<or> is_digit c"

definition iban_shape :: "string \<Rightarrow> bool" where
  "iban_shape s \<longleftrightarrow>
     15 \<le> length s \<and> length s \<le> 34 \<and> list_all ascii_alpha (take 2 s) \<and> list_all is_digit (take 2 (drop 2 s))
     \<and> list_all ascii_alnum (drop 4 s)"

definition is_iban_like :: "string \<Rightarrow> bool" where
  "is_iban_like s \<longleftrightarrow>
     iban_shape s \<or> (let compact = filter (\<lambda>c. \<not> is_space c \<and> c \<noteq> CHR ''-'') s
                     in compact \<noteq> [] \<and> compact \<noteq> s \<and> iban_shape compact)"

definition formula_lead :: "char \<Rightarrow> bool" where
  "formula_lead c \<longleftrightarrow> c \<in> set ''=+-@|'' \<or> of_char c \<in> {9, 10, 13 :: nat}"

text \<open>A text a spreadsheet would take for a formula: it leads the text, or what follows its spaces.\<close>

definition formula_text :: "string \<Rightarrow> bool" where
  "formula_text s \<longleftrightarrow>
     (s \<noteq> [] \<and> formula_lead (hd s)) \<or>
     (let probe = dropWhile (\<lambda>c. c = CHR '' '') s in probe \<noteq> [] \<and> formula_lead (hd probe))"

definition py_isdigit :: "char \<Rightarrow> bool" where
  "py_isdigit c \<longleftrightarrow> is_digit c \<or> of_char c \<in> {178, 179, 185 :: nat}"

definition operator_letter :: "char \<Rightarrow> bool" where
  "operator_letter c \<longleftrightarrow> py_isalnum c \<and> \<not> is_digit c"

definition operator_shape :: "string \<Rightarrow> bool" where
  "operator_shape s \<longleftrightarrow>
     s \<noteq> [] \<and> length s \<le> 64 \<and> operator_letter (hd s)
     \<and> list_all (\<lambda>c. operator_letter c \<or> is_digit c \<or> c \<in> set '' ._-'' \<or> of_char c = (39 :: nat)) (tl s)"

definition valid_operator_id :: "(string \<Rightarrow> string) \<Rightarrow> string option \<Rightarrow> string option" where
  "valid_operator_id nfc value =
     (case value of
        None \<Rightarrow> None
      | Some v \<Rightarrow>
          (let raw = nfc v; s = strip_space raw
           in if s = [] then None
              else if formula_text raw then None
              else if length s > 64 then None
              else if List.member s (CHR ''@'') then None
              else if is_iban_like s then None
              else if length (filter py_isdigit s) > 6 then None
              else if \<not> operator_shape s then None
              else Some s))"

definition model_shape :: "string \<Rightarrow> bool" where
  "model_shape s \<longleftrightarrow>
     s \<noteq> [] \<and> length s \<le> 128 \<and> ascii_alnum (hd s) \<and> list_all (\<lambda>c. ascii_alnum c \<or> c \<in> set ''._:/-'') (tl s)"

definition valid_model_name :: "json option \<Rightarrow> string option" where
  "valid_model_name value =
     (case value of
        Some (JStr v) \<Rightarrow>
          if \<not> model_shape v then None
          else if iban_shape v then None
          else (let letters = length (filter ascii_alpha v); digits = length (filter is_digit v)
                in if letters = 0 then None
                   else if digits \<ge> 8 \<and> letters \<le> 4 \<and> \<not> list_ex (\<lambda>c. c \<in> set ''-.:/'') v then None
                   else Some v)
      | _ \<Rightarrow> None)"

definition export_model :: "(string, json) dict \<Rightarrow> string option \<Rightarrow> string option" where
  "export_model meta prov =
     (case valid_model_name (map_of meta ''model'') of
        Some m \<Rightarrow> Some m
      | None \<Rightarrow> valid_model_name (map_option JStr prov))"

fun optional_text :: "json option \<Rightarrow> string option" where
  "optional_text (Some (JStr s)) = Some s"
| "optional_text _ = None"

fun token_count :: "json option \<Rightarrow> int option" where
  "token_count (Some (JInt i)) = Some i"
| "token_count _ = None"

definition sanitize_request_id :: "string option \<Rightarrow> string option" where
  "sanitize_request_id value =
     (case value of
        None \<Rightarrow> None
      | Some v \<Rightarrow> (let cleaned = filter (\<lambda>c. of_char c \<noteq> (13 :: nat) \<and> of_char c \<noteq> (10 :: nat)) v
                  in if cleaned = [] then None else Some cleaned))"

definition escape_csv_formula :: "string option \<Rightarrow> string" where
  "escape_csv_formula value =
     (case value of
        None \<Rightarrow> []
      | Some s \<Rightarrow> if s = [] then [] else if formula_text s then char_of (39 :: nat) # s else s)"

subsection \<open>Rows\<close>

definition EXPORT_METADATA_KEYS :: "string list" where
  "EXPORT_METADATA_KEYS =
     [''entity_types'', ''entity_counts'', ''token_count'', ''locale'', ''model'', ''compliance_preset'']"

definition safe_metadata :: "(string \<Rightarrow> json option) \<Rightarrow> audit_event \<Rightarrow> (string, json) dict" where
  "safe_metadata loads e =
     (case metadata_json e of
        None \<Rightarrow> []
      | Some m \<Rightarrow>
          if m = [] then []
          else (case loads m of
                  Some (JObj kvs) \<Rightarrow>
                    concat (map (\<lambda>k. case map_of kvs k of None \<Rightarrow> [] | Some v \<Rightarrow> [(k, v)]) EXPORT_METADATA_KEYS)
                | _ \<Rightarrow> []))"

text \<open>The cells of a safe row, in the order of the CSV fields.\<close>

definition ANONYMIZATION_CSV_FIELDS :: "string list" where
  "ANONYMIZATION_CSV_FIELDS =
     [''timestamp'', ''request_id'', ''tenant_id'', ''operator_id'', ''model'', ''locale'', ''entity_types'',
      ''token_count'', ''decision'', ''compliance_preset'']"

definition safe_anonymization_row ::
  "(string \<Rightarrow> json option) \<Rightarrow> (rat \<Rightarrow> string) \<Rightarrow> (string \<Rightarrow> string) \<Rightarrow> audit_event \<Rightarrow> string option list" where
  "safe_anonymization_row loads isofmt nfc e =
     (let meta = safe_metadata loads e
      in [Some (isofmt (timestamp e)), sanitize_request_id (ae_request e), Some (ae_tenant e),
          valid_operator_id nfc (operator_id e), export_model meta (ae_provider e),
          optional_text (map_of meta ''locale''), Some (entity_types_cell meta),
          map_option py_str_int (token_count (map_of meta ''token_count'')), ae_decision e,
          optional_text (map_of meta ''compliance_preset'')])"

text \<open>\<open>csv.writer\<close> with its defaults, for rows of more than one cell.\<close>

definition csv_special :: "char \<Rightarrow> bool" where
  "csv_special c \<longleftrightarrow> of_char c \<in> {10, 13, 34, 44 :: nat}"

definition dquote :: char where
  "dquote = char_of (34 :: nat)"

definition csv_cell :: "string \<Rightarrow> string" where
  "csv_cell s =
     (if list_ex csv_special s
      then dquote # concat (map (\<lambda>c. if c = dquote then [dquote, dquote] else [c]) s) @ [dquote] else s)"

definition crlf :: string where
  "crlf = [char_of (13 :: nat), char_of (10 :: nat)]"

definition csv_line :: "string list \<Rightarrow> string" where
  "csv_line cells = join '','' (map csv_cell cells) @ crlf"

definition utf8_bom :: string where
  "utf8_bom = map char_of [239, 187, 191 :: nat]"

definition render_anonymization_csv :: "string option list list \<Rightarrow> bool \<Rightarrow> string" where
  "render_anonymization_csv rs bom =
     (let payload = utf8_encode (csv_line ANONYMIZATION_CSV_FIELDS
            @ concat (map (\<lambda>row. csv_line (map escape_csv_formula row)) rs))
      in if bom then utf8_bom @ payload else payload)"

subsection \<open>Event records and cursors\<close>

text \<open>\<open>int\<close> of a JSON value; None for a \<open>TypeError\<close> or \<open>ValueError\<close>.\<close>

fun json_int :: "json \<Rightarrow> int option" where
  "json_int (JInt i) = Some i"
| "json_int (JBool b) = Some (if b then 1 else 0)"
| "json_int (JFloat r) = Some (if r < 0 then - \<lfloor>- r\<rfloor> else \<lfloor>r\<rfloor>)"
| "json_int (JStr s) = py_int s"
| "json_int _ = None"

fun merge_counts :: "(string, int) dict \<Rightarrow> (string \<times> json) list \<Rightarrow> (string, int) dict" where
  "merge_counts acc [] = acc"
| "merge_counts acc ((k, v) # kvs) =
     (if \<not> entity_type_name k then merge_counts acc kvs
      else (case json_int v of None \<Rightarrow> merge_counts acc kvs | Some i \<Rightarrow> merge_counts (AList.update k i acc) kvs))"

fun merge_listed :: "(string, int) dict \<Rightarrow> string list \<Rightarrow> (string, int) dict" where
  "merge_listed acc [] = acc"
| "merge_listed acc (s # names) =
     merge_listed (if map_of acc s = None then AList.update s 1 acc else acc) names"

definition entity_type_counts :: "(string, json) dict \<Rightarrow> (string \<times> int) list" where
  "entity_type_counts meta =
     (let counted = (case map_of meta ''entity_counts'' of Some (JObj kvs) \<Rightarrow> merge_counts [] kvs | _ \<Rightarrow> []);
          merged = merge_listed counted (valid_entity_type_names (map_of meta ''entity_types''))
      in map (\<lambda>k. (k, the (map_of merged k))) (sort (map fst merged)))"

definition event_metadata :: "(string \<Rightarrow> json option) \<Rightarrow> audit_event \<Rightarrow> (string, json) dict" where
  "event_metadata loads e =
     (case metadata_json e of
        None \<Rightarrow> []
      | Some m \<Rightarrow> if m = [] then [] else (case loads m of Some (JObj kvs) \<Rightarrow> kvs | _ \<Rightarrow> []))"

record event_record =
  er_request :: "string option"
  er_timestamp :: string
  er_tenant :: string
  er_model :: "string option"
  er_locale :: "string option"
  er_decision :: "string option"
  er_tokens :: "int option"
  er_types :: "(string \<times> int) list"
  er_row :: nat

definition anonymization_event_record ::
  "(string \<Rightarrow> json option) \<Rightarrow> (rat \<Rightarrow> string) \<Rightarrow> audit_event \<Rightarrow> event_record" where
  "anonymization_event_record loads isofmt e =
     (let meta = event_metadata loads e
      in \<lparr>er_request = sanitize_request_id (ae_request e), er_timestamp = isofmt (timestamp e), er_tenant = ae_tenant e,
          er_model = export_model meta (ae_provider e), er_locale = optional_text (map_of meta ''locale''),
          er_decision = ae_decision e, er_tokens = token_count (map_of meta ''token_count''),
          er_types = entity_type_counts meta, er_row = row_id e\<rparr>)"

text \<open>The compact \<open>json.dumps\<close> of the counts; entity type names need no escapes.\<close>

definition quoted :: "string \<Rightarrow> string" where
  "quoted s = dquote # s @ [dquote]"

definition dumps_counts :: "(string \<times> int) list \<Rightarrow> string" where
  "dumps_counts cs =
     ''['' @ join '','' (map (\<lambda>(t, n). ''{'' @ quoted ''type'' @ '':'' @ quoted t @ '','' @ quoted ''count'' @ '':''
        @ py_str_int n @ ''}'') cs) @ '']''"

definition anonymization_event_csv_row :: "event_record \<Rightarrow> string list" where
  "anonymization_event_csv_row r =
     map escape_csv_formula [er_request r, Some (er_timestamp r), Some (er_tenant r), er_model r, er_locale r,
       er_decision r, map_option py_str_int (er_tokens r), Some (dumps_counts (er_types r))]"

definition csv_error_trailer :: "string list \<Rightarrow> (string, string) dict" where
  "csv_error_trailer names =
     map (\<lambda>f. (f, if f = ''request_id'' then escape_csv_formula (Some ''#error'')
                  else if f = ''decision'' then ''export_failed'' else [])) (remdups names)"

definition encode_event_cursor :: "string \<Rightarrow> int \<Rightarrow> string" where
  "encode_event_cursor stamp rid = stamp @ ''|'' @ py_str_int rid"

definition decode_event_cursor :: "(string \<Rightarrow> rat option) \<Rightarrow> string \<Rightarrow> (rat \<times> int) py_result" where
  "decode_event_cursor parse_time cursor =
     (case rpartition (CHR ''|'') cursor of
        None \<Rightarrow> Inl ValueError
      | Some (stamp, raw_id) \<Rightarrow>
          if stamp = [] \<or> raw_id = [] then Inl ValueError
          else (case py_int raw_id of
                  None \<Rightarrow> Inl ValueError
                | Some rid \<Rightarrow>
                    if rid < 1 then Inl ValueError
                    else (case parse_time stamp of None \<Rightarrow> Inl ValueError | Some t \<Rightarrow> Inr (t, rid))))"

subsection \<open>Checked names\<close>

lemma valid_entity_type_names_sound: "s \<in> set (valid_entity_type_names j) \<Longrightarrow> entity_type_name s"
  by (induction j rule: valid_entity_type_names.induct) (auto split: json.splits if_splits)

lemma join_chars: "set (join sep xs) \<subseteq> set sep \<union> \<Union> (set (map set xs))"
  by (cases xs) (auto simp: join_def)

lemma entity_type_name_chars: "entity_type_name s \<Longrightarrow> c \<in> set s \<Longrightarrow> is_upper c \<or> c = CHR ''_''"
  by (cases s) (auto simp: entity_type_name_def list_all_iff)

lemma exported_names_sound:
  assumes "s \<in> set (exported_names meta)"
  shows "entity_type_name s"
proof -
  obtain j where "s \<in> set (valid_entity_type_names j)"
    using assms unfolding exported_names_def Let_def
    by (simp split: if_split_asm option.split_asm json.split_asm del: valid_entity_type_names.simps; blast)
  then show ?thesis by (rule valid_entity_type_names_sound)
qed

text \<open>The cell of entity types holds capital letters, underscores and commas, and nothing else.\<close>

lemma entity_types_cell_chars:
  assumes "c \<in> set (entity_types_cell meta)"
  shows "is_upper c \<or> c = CHR ''_'' \<or> c = CHR '',''"
proof -
  have "c \<in> set '','' \<union> \<Union> (set (map set (exported_names meta)))"
    using assms join_chars [of "'',''" "exported_names meta"] by (auto simp: entity_types_cell_def)
  then show ?thesis using exported_names_sound entity_type_name_chars by fastforce
qed

lemma valid_operator_id_sound:
  assumes "valid_operator_id nfc v = Some s"
  shows "length s \<le> 64" "CHR ''@'' \<notin> set s" "\<not> is_iban_like s" "length (filter py_isdigit s) \<le> 6" "operator_letter (hd s)" "s \<noteq> []"
  using assms by (auto simp: valid_operator_id_def operator_shape_def Let_def split: option.splits if_splits)

lemma valid_model_name_sound:
  assumes "valid_model_name v = Some s"
  shows "v = Some (JStr s)" "model_shape s" "\<not> iban_shape s" "\<exists>c \<in> set s. ascii_alpha c"
proof -
  show "v = Some (JStr s)" "model_shape s" "\<not> iban_shape s"
    using assms unfolding valid_model_name_def Let_def by (auto split: option.splits json.splits if_splits)
  have "length (filter ascii_alpha s) \<noteq> 0"
    using assms unfolding valid_model_name_def Let_def by (auto split: option.splits json.splits if_splits)
  then show "\<exists>c \<in> set s. ascii_alpha c" by (auto simp: filter_empty_conv)
qed

subsection \<open>Escaping\<close>

lemma escaped_harmless: "\<not> formula_text (escape_csv_formula v)"
proof (cases v)
  case None
  then show ?thesis by (simp add: escape_csv_formula_def formula_text_def)
next
  case (Some s)
  have "\<not> formula_lead (char_of (39 :: nat))" "char_of (39 :: nat) \<noteq> CHR '' ''" by code_simp+
  then have "\<not> formula_text (char_of (39 :: nat) # s)" by (simp add: formula_text_def)
  then show ?thesis
    using Some by (simp add: escape_csv_formula_def) (simp add: formula_text_def)
qed

lemma escape_idem: "escape_csv_formula (Some (escape_csv_formula v)) = escape_csv_formula v"
  using escaped_harmless [of v] by (simp add: escape_csv_formula_def)

lemma event_row_harmless: "cell \<in> set (anonymization_event_csv_row r) \<Longrightarrow> \<not> formula_text cell"
  unfolding anonymization_event_csv_row_def using escaped_harmless by auto

text \<open>Metadata outside the exported keys has no influence on the row.\<close>

lemma safe_metadata_cong:
  assumes "loads m = Some (JObj kvs)" "loads m' = Some (JObj kvs')" "m \<noteq> []" "m' \<noteq> []"
    and "\<And>k. k \<in> set EXPORT_METADATA_KEYS \<Longrightarrow> map_of kvs k = map_of kvs' k"
  shows "safe_anonymization_row loads isofmt nfc (e\<lparr>metadata_json := Some m\<rparr>) =
    safe_anonymization_row loads isofmt nfc (e\<lparr>metadata_json := Some m'\<rparr>)"
proof -
  have eq: "map (\<lambda>k. case map_of kvs k of None \<Rightarrow> [] | Some v \<Rightarrow> [(k, v)]) EXPORT_METADATA_KEYS =
        map (\<lambda>k. case map_of kvs' k of None \<Rightarrow> [] | Some v \<Rightarrow> [(k, v)]) EXPORT_METADATA_KEYS"
    by (rule map_cong [OF refl]) (simp only: assms(5))
  have "safe_metadata loads (e\<lparr>metadata_json := Some m\<rparr>) = safe_metadata loads (e\<lparr>metadata_json := Some m'\<rparr>)"
    using assms(1-4) by (simp add: safe_metadata_def del: map_eq_conv) (simp only: eq)
  then show ?thesis by (simp add: safe_anonymization_row_def)
qed

subsection \<open>Cursors\<close>

lemma cursor_round_trip:
  assumes "1 \<le> rid" "stamp \<noteq> []" "parse_time stamp = Some t"
  shows "decode_event_cursor parse_time (encode_event_cursor stamp rid) = Inr (t, rid)"
proof -
  have "CHR ''|'' \<notin> set (py_str_int rid)"
    using assms(1) dec_digits [of "CHR ''|''" "nat rid"] by (auto simp: py_str_int_def is_digit_def)
  then have "rpartition (CHR ''|'') (encode_event_cursor stamp rid) = Some (stamp, py_str_int rid)"
    by (simp add: encode_event_cursor_def rpartition_append)
  moreover have "py_str_int rid \<noteq> []" by (simp add: py_str_int_def)
  ultimately show ?thesis using assms by (simp add: decode_event_cursor_def py_int_str)
qed

subsection \<open>Reading the rendered rows\<close>

text \<open>A reader of RFC 4180 text, one character at a time: the cell and the row read so far are kept.\<close>

datatype csv_state = CellStart | PlainCell | QuotedCell | QuoteSeen

fun csv_read :: "csv_state \<Rightarrow> string \<Rightarrow> string list \<Rightarrow> string \<Rightarrow> string list list" where
  "csv_read st cell row [] = (if cell = [] \<and> row = [] then [] else [row @ [cell]])"
| "csv_read st cell row (c # cs) =
     (if st = QuotedCell then
        (if c = dquote then csv_read QuoteSeen cell row cs else csv_read QuotedCell (cell @ [c]) row cs)
      else if st = QuoteSeen \<and> c = dquote then csv_read QuotedCell (cell @ [c]) row cs
      else if st = CellStart \<and> c = dquote then csv_read QuotedCell cell row cs
      else if c = CHR '','' then csv_read CellStart [] (row @ [cell]) cs
      else if c = char_of (13 :: nat) then csv_read st cell row cs
      else if c = char_of (10 :: nat) then (row @ [cell]) # csv_read CellStart [] [] cs
      else csv_read PlainCell (cell @ [c]) row cs)"

definition read_csv :: "string \<Rightarrow> string list list" where
  "read_csv s = csv_read CellStart [] [] s"

lemma special_chars:
  "dquote \<noteq> CHR '',''" "dquote \<noteq> char_of (13 :: nat)" "dquote \<noteq> char_of (10 :: nat)"
  "CHR '','' \<noteq> char_of (13 :: nat)" "CHR '','' \<noteq> char_of (10 :: nat)" "char_of (13 :: nat) \<noteq> (char_of (10 :: nat) :: char)"
  "csv_special dquote" "csv_special (CHR '','')" "csv_special (char_of (13 :: nat))" "csv_special (char_of (10 :: nat))"
  by code_simp+

lemma read_comma: "st \<noteq> QuotedCell \<Longrightarrow> csv_read st cell row (CHR '','' # cs) = csv_read CellStart [] (row @ [cell]) cs"
  using special_chars by auto

lemma read_crlf: "st \<noteq> QuotedCell \<Longrightarrow> csv_read st cell row (crlf @ cs) = (row @ [cell]) # csv_read CellStart [] [] cs"
  using special_chars by (auto simp: crlf_def)

lemma read_plain:
  "\<forall>c \<in> set s. \<not> csv_special c \<Longrightarrow> st \<in> {CellStart, PlainCell} \<Longrightarrow>
     \<exists>st'. st' \<in> {CellStart, PlainCell} \<and> csv_read st cell row (s @ rest) = csv_read st' (cell @ s) row rest"
proof (induction s arbitrary: st cell)
  case (Cons c s)
  then have "c \<noteq> dquote" "c \<noteq> CHR '',''" "c \<noteq> char_of (13 :: nat)" "c \<noteq> char_of (10 :: nat)"
    using special_chars by auto
  then have "csv_read st cell row ((c # s) @ rest) = csv_read PlainCell (cell @ [c]) row (s @ rest)"
    using Cons.prems by auto
  then show ?case using Cons.IH [of PlainCell "cell @ [c]"] Cons.prems by auto
qed auto

lemma read_quoted_cell:
  "csv_read QuotedCell cell row (concat (map (\<lambda>c. if c = dquote then [dquote, dquote] else [c]) s) @ dquote # rest)
     = csv_read QuoteSeen (cell @ s) row rest"
  by (induction s arbitrary: cell) auto

declare csv_read.simps(2) [simp del]

lemma read_cell:
  "\<exists>st'. st' \<noteq> QuotedCell \<and> csv_read CellStart [] row (csv_cell s @ rest) = csv_read st' s row rest"
proof (cases "list_ex csv_special s")
  case True
  then have "csv_read CellStart [] row (csv_cell s @ rest) = csv_read QuoteSeen s row rest"
    using read_quoted_cell [of "[]" row s rest] by (simp add: csv_cell_def csv_read.simps(2))
  then show ?thesis by blast
next
  case False
  then have "\<forall>c \<in> set s. \<not> csv_special c" by (simp add: list_ex_iff)
  from read_plain [OF this, of CellStart "[]" row rest] show ?thesis
    using False by (auto simp: csv_cell_def)
qed

lemma read_line:
  "csv_read CellStart [] row (join '','' (map csv_cell (x # xs)) @ crlf @ rest)
     = (row @ x # xs) # csv_read CellStart [] [] rest"
proof (induction xs arbitrary: x row)
  case Nil
  obtain st where "st \<noteq> QuotedCell" "csv_read CellStart [] row (csv_cell x @ crlf @ rest) = csv_read st x row (crlf @ rest)"
    using read_cell by blast
  then show ?case by (simp add: join_def read_crlf)
next
  case (Cons y ys)
  let ?tail = "join '','' (map csv_cell (y # ys)) @ crlf @ rest"
  have "join '','' (map csv_cell (x # y # ys)) @ crlf @ rest = csv_cell x @ CHR '','' # ?tail"
    by (simp add: join_def)
  moreover obtain st where "st \<noteq> QuotedCell"
      "csv_read CellStart [] row (csv_cell x @ CHR '','' # ?tail) = csv_read st x row (CHR '','' # ?tail)"
    using read_cell by blast
  ultimately have "csv_read CellStart [] row (join '','' (map csv_cell (x # y # ys)) @ crlf @ rest)
      = csv_read CellStart [] (row @ [x]) ?tail"
    by (simp only: read_comma not_False_eq_True)
  then show ?case using Cons.IH [of "row @ [x]" y] by simp
qed

lemma read_csv_lines:
  "[] \<notin> set rs \<Longrightarrow> read_csv (concat (map csv_line rs)) = rs"
proof (induction rs)
  case (Cons r rs)
  then obtain x xs where "r = x # xs" by (cases r) auto
  then show ?case
    using Cons read_line [of "[]" x xs "concat (map csv_line rs)"]
    by (simp add: read_csv_def csv_line_def [of "x # xs"])
qed (simp add: read_csv_def)

text \<open>The bytes of a whole export, read back: the header, then the escaped cells of every row.\<close>

lemma render_read:
  assumes "[] \<notin> set rs"
  shows "map_option read_csv (utf8_decode (render_anonymization_csv rs False)) =
    Some (ANONYMIZATION_CSV_FIELDS # map (map escape_csv_formula) rs)"
proof -
  have "[] \<notin> set (ANONYMIZATION_CSV_FIELDS # map (map escape_csv_formula) rs)"
    using assms by (auto simp: ANONYMIZATION_CSV_FIELDS_def)
  from read_csv_lines [OF this] show ?thesis
    by (simp add: render_anonymization_csv_def Let_def utf8_round_trip comp_def)
qed

text \<open>Every safe row has a cell for every field.\<close>

lemma safe_row_length: "length (safe_anonymization_row loads isofmt nfc e) = length ANONYMIZATION_CSV_FIELDS"
  by (simp add: safe_anonymization_row_def ANONYMIZATION_CSV_FIELDS_def Let_def)

subsection \<open>Counts\<close>

lemma merge_counts_keys:
  "distinct (map fst acc) \<Longrightarrow> \<forall>k \<in> fst ` set acc. entity_type_name k \<Longrightarrow>
     distinct (map fst (merge_counts acc kvs)) \<and> (\<forall>k \<in> fst ` set (merge_counts acc kvs). entity_type_name k)"
proof (induction kvs arbitrary: acc)
  case (Cons kv kvs)
  obtain k v where kv: "kv = (k, v)" by (cases kv)
  show ?case
  proof (cases "entity_type_name k \<and> json_int v \<noteq> None")
    case True
    then obtain i where i: "json_int v = Some i" by blast
    have "distinct (map fst (AList.update k i acc))" "\<forall>k' \<in> fst ` set (AList.update k i acc). entity_type_name k'"
      using True Cons.prems by (auto simp: distinct_update fst_set_update)
    from Cons.IH [OF this] show ?thesis using True i kv by simp
  next
    case False
    then have "merge_counts acc ((k, v) # kvs) = merge_counts acc kvs" by auto
    then show ?thesis using Cons kv by simp
  qed
qed simp

lemma merge_listed_keys:
  "distinct (map fst acc) \<Longrightarrow> \<forall>k \<in> fst ` set acc \<union> set names. entity_type_name k \<Longrightarrow>
     distinct (map fst (merge_listed acc names)) \<and> (\<forall>k \<in> fst ` set (merge_listed acc names). entity_type_name k)"
  by (induction acc names rule: merge_listed.induct) (auto simp: distinct_update fst_set_update)

lemma entity_type_counts_ok:
  "sorted (map fst (entity_type_counts meta)) \<and> distinct (map fst (entity_type_counts meta))
     \<and> (\<forall>k \<in> fst ` set (entity_type_counts meta). entity_type_name k)"
proof -
  define counted where "counted = (case map_of meta ''entity_counts'' of Some (JObj kvs) \<Rightarrow> merge_counts [] kvs | _ \<Rightarrow> [])"
  define names where "names = valid_entity_type_names (map_of meta ''entity_types'')"
  have "distinct (map fst counted) \<and> (\<forall>k \<in> fst ` set counted. entity_type_name k)"
  proof -
    obtain kvs where "counted = merge_counts [] kvs \<or> counted = []"
      unfolding counted_def by (cases "map_of meta ''entity_counts''"; cases "the (map_of meta ''entity_counts'')") auto
    then show ?thesis using merge_counts_keys [of "[]" kvs] by auto
  qed
  moreover have "\<forall>k \<in> set names. entity_type_name k" unfolding names_def using valid_entity_type_names_sound by blast
  ultimately have keys: "distinct (map fst (merge_listed counted names))"
    "\<forall>k \<in> fst ` set (merge_listed counted names). entity_type_name k"
    using merge_listed_keys [of counted names] by blast+
  have "map fst (entity_type_counts meta) = sort (map fst (merge_listed counted names))"
    by (simp add: entity_type_counts_def Let_def counted_def names_def comp_def)
  moreover from this have "fst ` set (entity_type_counts meta) = fst ` set (merge_listed counted names)"
    by (metis set_map set_sort)
  ultimately show ?thesis using keys by simp
qed

subsection \<open>Properties\<close>

text \<open>C21. the CSV export of any list of audit events reads back, by an RFC 4180 reader, as the header and one
  row of ten cells for each event, each cell the escaped value of the safe projection, so no value can
  add a row or a cell; and no cell is text that a spreadsheet would take for a formula.
\<close>

theorem csv_export_reads_back:
  "map_option read_csv (utf8_decode (render_anonymization_csv (map (safe_anonymization_row loads isofmt nfc) events) False))
     = Some (ANONYMIZATION_CSV_FIELDS # map (\<lambda>e. map escape_csv_formula (safe_anonymization_row loads isofmt nfc e)) events)
   \<and> list_all (\<lambda>e. length (safe_anonymization_row loads isofmt nfc e) = length ANONYMIZATION_CSV_FIELDS) events
   \<and> list_all (\<lambda>e. list_all (\<lambda>cell. \<not> formula_text cell)
        (map escape_csv_formula (safe_anonymization_row loads isofmt nfc e))) events"
proof -
  have "safe_anonymization_row loads isofmt nfc e \<noteq> []" for e
    by (simp add: safe_anonymization_row_def Let_def)
  then have "[] \<notin> set (map (safe_anonymization_row loads isofmt nfc) events)" by (metis imageE set_map)
  from render_read [OF this] show ?thesis
    by (simp add: comp_def list_all_iff safe_row_length escaped_harmless)
qed

end
