(* ===== verification/FirewallRules.thy ===== *)
theory FirewallRules
  imports Complex_Main Json PyText
begin

text \<open>
  The rule firewall (\<open>firewall/models.py\<close>, \<open>rules.py\<close>, \<open>reloader.py\<close>, \<open>engine.py\<close>, \<open>gates.py\<close>,
  \<open>streaming.py\<close>, \<open>ml_model.py\<close>, \<open>audit.py\<close>, \<open>admin.py\<close>) and its two middlewares
  (\<open>middleware/firewall_inbound.py\<close>, \<open>middleware/firewall_outbound.py\<close>). The patterns of the rules come
  from a configuration file: the matcher \<open>rx\<close> is a parameter that maps a pattern to None when it does
  not compile and to the matched text of a search otherwise. The construction of a rule from YAML and
  the ML model are parameters as well. Confidences are real numbers.
\<close>

subsection \<open>Rules and results\<close>

datatype fw_category =
    PromptInjection | Jailbreak | SystemPromptExtraction | InstructionOverride
  | RoleEscalation | HiddenToolInvocation | SecretExfiltration

fun category_value :: "fw_category \<Rightarrow> string" where
  "category_value PromptInjection = ''prompt_injection''"
| "category_value Jailbreak = ''jailbreak''"
| "category_value SystemPromptExtraction = ''system_prompt_extraction''"
| "category_value InstructionOverride = ''instruction_override''"
| "category_value RoleEscalation = ''role_escalation''"
| "category_value HiddenToolInvocation = ''hidden_tool_invocation''"
| "category_value SecretExfiltration = ''secret_exfiltration''"

definition all_categories :: "fw_category list" where
  "all_categories = [PromptInjection, Jailbreak, SystemPromptExtraction, InstructionOverride,
     RoleEscalation, HiddenToolInvocation, SecretExfiltration]"

definition category_of :: "string \<Rightarrow> fw_category option" where
  "category_of s = List.find (\<lambda>c. category_value c = s) all_categories"

datatype fw_severity = SevLow | SevMedium | SevHigh

fun severity_score :: "fw_severity \<Rightarrow> nat" where
  "severity_score SevHigh = 3"
| "severity_score SevMedium = 2"
| "severity_score SevLow = 1"

datatype fw_action = FwBlock | FwFlag | FwMonitor

text \<open>The field \<open>metadata\<close> of a rule is read nowhere and is left out.\<close>

record fw_rule =
  fr_id :: string
  fr_category :: fw_category
  fr_enabled :: bool
  fr_pattern :: "string option"
  fr_description :: "string option"
  fr_semantic :: "string option"
  fr_action :: fw_action
  fr_severity :: fw_severity
  fr_priority :: int

record fw_result =
  dr_category :: fw_category
  dr_confidence :: real
  dr_rule :: "string option"
  dr_severity :: fw_severity
  dr_action :: fw_action
  dr_snippet :: "string option"

record category_config =
  cc_enabled :: bool
  cc_threshold :: real

definition default_category_config :: category_config where
  "default_category_config = \<lparr>cc_enabled = True, cc_threshold = 85 / 100\<rparr>"

record severity_mapping =
  sm_high :: fw_action
  sm_medium :: fw_action
  sm_low :: fw_action

definition default_severity_mapping :: severity_mapping where
  "default_severity_mapping = \<lparr>sm_high = FwBlock, sm_medium = FwFlag, sm_low = FwMonitor\<rparr>"

subsection \<open>Loading and reloading\<close>

text \<open>
  A file after parsing: the outcome of building each rule, the category entries (None for a value that
  is no mapping), None for a section that is no mapping at all, and the severity mapping when present.
\<close>

record rules_file =
  rf_rules :: "fw_rule py_result list"
  rf_categories :: "(string \<times> category_config py_result option) list option"
  rf_mapping :: "severity_mapping py_result option"

record fw_loader =
  fl_rules :: "fw_rule list"
  fl_categories :: "(string, category_config) dict"
  fl_mapping :: severity_mapping

definition new_loader :: fw_loader where
  "new_loader = \<lparr>fl_rules = [], fl_categories = [], fl_mapping = default_severity_mapping\<rparr>"

fun parse_rules :: "fw_rule py_result list \<Rightarrow> fw_rule list \<Rightarrow> string list \<Rightarrow> fw_rule list py_result" where
  "parse_rules [] parsed seen = Inr parsed"
| "parse_rules (Inl e # rest) parsed seen = Inl e"
| "parse_rules (Inr r # rest) parsed seen =
     parse_rules rest
       ((if List.member seen (fr_id r) then filter (\<lambda>q. fr_id q \<noteq> fr_id r) parsed else parsed) @ [r])
       (fr_id r # seen)"

fun parse_category_entries ::
  "(string \<times> category_config py_result option) list \<Rightarrow> (string, category_config) dict
     \<Rightarrow> (string, category_config) dict \<times> py_exn option" where
  "parse_category_entries [] cfg = (cfg, None)"
| "parse_category_entries ((k, None) # rest) cfg =
     parse_category_entries rest (AList.update k default_category_config cfg)"
| "parse_category_entries ((k, Some (Inl e)) # rest) cfg = (cfg, Some e)"
| "parse_category_entries ((k, Some (Inr c)) # rest) cfg = parse_category_entries rest (AList.update k c cfg)"

definition parse_category_config ::
  "(string \<times> category_config py_result option) list option \<Rightarrow> (string, category_config) dict \<times> py_exn option" where
  "parse_category_config raw =
     (case raw of None \<Rightarrow> ([], Some (OtherExn ''AttributeError'')) | Some kvs \<Rightarrow> parse_category_entries kvs [])"

text \<open>\<open>load\<close>: None for a missing file, an error for one that cannot be read.\<close>

definition load_rules :: "rules_file py_result option \<Rightarrow> fw_loader \<Rightarrow> fw_loader \<times> fw_rule list py_result" where
  "load_rules file l =
     (case file of
        None \<Rightarrow> (l, Inr [])
      | Some (Inl e) \<Rightarrow> (l, Inl e)
      | Some (Inr f) \<Rightarrow>
          (case parse_rules (rf_rules f) [] [] of
             Inl e \<Rightarrow> (l, Inl e)
           | Inr parsed \<Rightarrow>
               (case parse_category_config (rf_categories f) of
                  (cfg, Some e) \<Rightarrow> (l\<lparr>fl_categories := cfg\<rparr>, Inl e)
                | (cfg, None) \<Rightarrow>
                    (case rf_mapping f of
                       None \<Rightarrow> (l\<lparr>fl_categories := cfg, fl_rules := parsed\<rparr>, Inr parsed)
                     | Some (Inl e) \<Rightarrow> (l\<lparr>fl_categories := cfg\<rparr>, Inl e)
                     | Some (Inr m) \<Rightarrow> (l\<lparr>fl_categories := cfg, fl_mapping := m, fl_rules := parsed\<rparr>, Inr parsed)))))"

definition get_rules_by_category :: "fw_loader \<Rightarrow> fw_category \<Rightarrow> fw_rule list" where
  "get_rules_by_category l c = filter (\<lambda>r. fr_category r = c) (fl_rules l)"

text \<open>\<open>FirewallRuleReloader.reload\<close>: the rules before and after; an error keeps the old ones.\<close>

definition reload_rules :: "rules_file py_result option \<Rightarrow> fw_loader \<Rightarrow> fw_loader \<times> fw_rule list \<times> fw_rule list" where
  "reload_rules file l =
     (let old = fl_rules l
      in case load_rules file l of (l', Inr new) \<Rightarrow> (l', old, new) | (l', Inl e) \<Rightarrow> (l', old, old))"

text \<open>The reference: of the rules with one identifier the last one stays, at its own place.\<close>

fun keep_last :: "fw_rule list \<Rightarrow> fw_rule list" where
  "keep_last [] = []"
| "keep_last (r # rs) = (if fr_id r \<in> fr_id ` set rs then keep_last rs else r # keep_last rs)"

lemma keep_last_ids: "fr_id ` set (keep_last rs) = fr_id ` set rs"
  by (induction rs) auto

lemma keep_last_distinct: "distinct (map fr_id (keep_last rs))"
proof (induction rs)
  case (Cons r rs)
  have "fr_id r \<notin> set (map fr_id (keep_last rs))" if "fr_id r \<notin> fr_id ` set rs"
    using that keep_last_ids [of rs] by simp
  with Cons show ?case by auto
qed simp

lemma keep_last_lookup: "r \<in> set (keep_last rs) \<longleftrightarrow> List.find (\<lambda>q. fr_id q = fr_id r) (rev rs) = Some r"
proof (induction rs)
  case (Cons q rs)
  have f: "List.find P (xs @ ys) = (case List.find P xs of None \<Rightarrow> List.find P ys | Some x \<Rightarrow> Some x)"
    for P :: "fw_rule \<Rightarrow> bool" and xs ys
    by (induction xs) auto
  have n: "List.find (\<lambda>p. fr_id p = i) (rev rs) = None \<longleftrightarrow> i \<notin> fr_id ` set rs" for i
    by (auto simp: find_None_iff)
  show ?case
  proof (cases "fr_id q \<in> fr_id ` set rs")
    case True
    then have "List.find (\<lambda>p. fr_id p = fr_id q) (rev rs) \<noteq> None" using n by blast
    with True Cons show ?thesis by (auto simp: f split: option.splits)
  next
    case False
    have "r \<notin> set (keep_last rs)" if "fr_id r = fr_id q"
      using False that keep_last_ids [of rs] by (metis imageI)
    with False Cons n [of "fr_id q"] show ?thesis by (auto simp: f split: option.splits)
  qed
qed simp

lemma keep_last_distinct_id: "distinct (map fr_id rs) \<Longrightarrow> keep_last rs = rs"
  by (induction rs) auto

lemma keep_last_skip:
  "keep_last (filter (\<lambda>q. fr_id q \<noteq> fr_id r) a @ r # b) = keep_last (a @ r # b)"
  by (induction a) auto

lemma parse_rules_keep_last:
  "distinct (map fr_id p) \<Longrightarrow> set seen = fr_id ` set p \<Longrightarrow>
     parse_rules (map Inr rs) p seen = Inr (keep_last (p @ rs))"
proof (induction rs arbitrary: p seen)
  case Nil
  then show ?case by (simp add: keep_last_distinct_id)
next
  case (Cons r rs)
  let ?p = "(if List.member seen (fr_id r) then filter (\<lambda>q. fr_id q \<noteq> fr_id r) p else p)"
  have eq: "?p = filter (\<lambda>q. fr_id q \<noteq> fr_id r) p"
    using Cons.prems(2) by (auto intro!: filter_True [symmetric]) (metis imageI)
  have d: "distinct (map fr_id (?p @ [r]))"
    unfolding eq using Cons.prems(1) by (auto simp: distinct_map_filter)
  have s: "set (fr_id r # seen) = fr_id ` set (?p @ [r])"
    unfolding eq using Cons.prems(2) by auto
  from Cons.IH [OF d s] show ?case
    by (simp add: eq keep_last_skip)
qed

lemma parse_rules_error: "Inl e \<in> set raws \<Longrightarrow> \<exists>e'. parse_rules raws p seen = Inl e'"
  by (induction raws p seen rule: parse_rules.induct) auto

subsection \<open>Failed reloads\<close>

lemma reload_failure_keeps_rules:
  "snd (load_rules file l) = Inl e \<Longrightarrow>
     fl_rules (fst (reload_rules file l)) = fl_rules l \<and> snd (reload_rules file l) = (fl_rules l, fl_rules l)
     \<and> fl_mapping (fst (reload_rules file l)) = fl_mapping l"
  by (auto simp: load_rules_def reload_rules_def Let_def split: option.splits sum.splits prod.splits)

text \<open>
  The category settings are not protected the same way: a file whose category section is good and whose
  severity mapping is bad is refused, the rules stay, and the new category settings are in force. A file
  with an empty category section thus switches a disabled category on while the reload fails.
\<close>

lemma failed_reload_changes_categories:
  "\<exists>file l e. snd (load_rules file l) = Inl e \<and> fl_categories l = [(''jailbreak'', \<lparr>cc_enabled = False, cc_threshold = 1\<rparr>)]
     \<and> fl_categories (fst (reload_rules file l)) = []"
  by (rule exI [of _ "Some (Inr \<lparr>rf_rules = [], rf_categories = Some [], rf_mapping = Some (Inl ValueError)\<rparr>)"],
      rule exI [of _ "new_loader\<lparr>fl_categories := [(''jailbreak'', \<lparr>cc_enabled = False, cc_threshold = 1\<rparr>)]\<rparr>"])
     (simp add: load_rules_def reload_rules_def parse_category_config_def new_loader_def)

lemma load_rules_keep_last:
  "snd (load_rules (Some (Inr \<lparr>rf_rules = map Inr rs, rf_categories = Some [], rf_mapping = None\<rparr>)) l) = Inr (keep_last rs)"
  using parse_rules_keep_last [of "[]" "[]" rs] by (simp add: load_rules_def parse_category_config_def)

lemma load_rules_result:
  assumes "load_rules (Some (Inr f)) l = (l', Inr rs)"
  shows "fl_rules l' = rs" and "\<exists>raw. rf_rules f = map Inr raw \<and> rs = keep_last raw"
proof -
  from assms obtain p: "parse_rules (rf_rules f) [] [] = Inr rs" and r: "fl_rules l' = rs"
    by (auto simp: load_rules_def split: option.splits sum.splits prod.splits)
  show "fl_rules l' = rs" by (rule r)
  have "\<exists>raw. raws = map Inr raw" if "parse_rules raws q seen = Inr out" for raws q seen out
    using that
  proof (induction raws q seen rule: parse_rules.induct)
    case (3 r rest parsed seen)
    then obtain raw where "rest = map Inr raw" by auto
    then have "Inr r # rest = map Inr (r # raw)" by simp
    then show ?case by (rule exI)
  qed auto
  with p obtain raw where raw: "rf_rules f = map Inr raw" by blast
  from p parse_rules_keep_last [of "[]" "[]" raw] have "rs = keep_last raw" by (simp add: raw)
  with raw show "\<exists>raw. rf_rules f = map Inr raw \<and> rs = keep_last raw" by blast
qed

subsection \<open>The engine\<close>

record fw_engine =
  fe_rules :: "fw_rule list"
  fe_categories :: "(string, category_config) dict"
  fe_mapping :: severity_mapping

definition new_engine :: "fw_rule list \<Rightarrow> (string, category_config) dict \<Rightarrow> severity_mapping \<Rightarrow> fw_engine" where
  "new_engine rs cats m =
     \<lparr>fe_rules = sort_key (\<lambda>r. - fr_priority r) rs, fe_categories = cats, fe_mapping = m\<rparr>"

type_synonym rule_matcher = "string \<Rightarrow> (string \<Rightarrow> string option) option"

definition rule_search :: "rule_matcher \<Rightarrow> fw_rule \<Rightarrow> string \<Rightarrow> string option" where
  "rule_search rx r s =
     (case fr_pattern r of None \<Rightarrow> None
      | Some p \<Rightarrow> (case rx p of None \<Rightarrow> None | Some search \<Rightarrow> search s))"

definition match_rule :: "rule_matcher \<Rightarrow> fw_rule \<Rightarrow> string \<Rightarrow> bool \<times> real" where
  "match_rule rx r s =
     (case rule_search rx r s of
        None \<Rightarrow> (False, 0)
      | Some m \<Rightarrow> (True, min 1 (real (length m) / 100 + 8 / 10)))"

definition make_snippet :: "rule_matcher \<Rightarrow> string \<Rightarrow> fw_rule \<Rightarrow> string option" where
  "make_snippet rx s r = (case rule_search rx r s of None \<Rightarrow> None | Some m \<Rightarrow> Some (if 50 < length m then take 50 m else m))"

text \<open>One turn of the loop of \<open>evaluate\<close>: the result a rule adds, or None when it is skipped.\<close>

definition evaluate_rule :: "rule_matcher \<Rightarrow> fw_engine \<Rightarrow> string \<Rightarrow> fw_rule \<Rightarrow> fw_result option" where
  "evaluate_rule rx e s r =
     (let cfg = map_of (fe_categories e) (category_value (fr_category r))
      in if \<not> fr_enabled r then None
         else if (case cfg of None \<Rightarrow> False | Some c \<Rightarrow> \<not> cc_enabled c) then None
         else if fr_pattern r = None then None
         else (case match_rule rx r s of (matched, confidence) \<Rightarrow>
             if \<not> matched then None
             else if confidence < (case cfg of None \<Rightarrow> 85 / 100 | Some c \<Rightarrow> cc_threshold c) then None
             else Some \<lparr>dr_category = fr_category r, dr_confidence = confidence, dr_rule = Some (fr_id r),
                    dr_severity = fr_severity r, dr_action = fr_action r, dr_snippet = make_snippet rx s r\<rparr>))"

fun dedup_by_category :: "(fw_category, fw_result) dict \<Rightarrow> fw_result list \<Rightarrow> (fw_category, fw_result) dict" where
  "dedup_by_category best [] = best"
| "dedup_by_category best (r # rs) =
     dedup_by_category
       (case map_of best (dr_category r) of
          None \<Rightarrow> AList.update (dr_category r) r best
        | Some x \<Rightarrow> if severity_score (dr_severity r) > severity_score (dr_severity x)
                   then AList.update (dr_category r) r best else best) rs"

definition raw_hits :: "rule_matcher \<Rightarrow> fw_engine \<Rightarrow> string \<Rightarrow> fw_result list" where
  "raw_hits rx e s = List.map_filter (evaluate_rule rx e s) (fe_rules e)"

definition evaluate_rules :: "rule_matcher \<Rightarrow> fw_engine \<Rightarrow> string \<Rightarrow> fw_result list" where
  "evaluate_rules rx e s = map snd (dedup_by_category [] (raw_hits rx e s))"

definition merge_results :: "fw_result list \<Rightarrow> fw_result list \<Rightarrow> fw_result list" where
  "merge_results rule_results ml_results =
     map snd (foldl (\<lambda>merged m. case map_of merged (dr_category m) of
                        None \<Rightarrow> AList.update (dr_category m) m merged
                      | Some x \<Rightarrow> if dr_confidence m > dr_confidence x then AList.update (dr_category m) m merged else merged)
                (foldl (\<lambda>merged r. AList.update (dr_category r) r merged) [] rule_results) ml_results)"

text \<open>The ML model is consulted only when a rule fired; when it fails the rules decide alone.\<close>

definition evaluate_with_ml :: "rule_matcher \<Rightarrow> (string \<Rightarrow> fw_result list py_result) \<Rightarrow> fw_engine \<Rightarrow> string \<Rightarrow> fw_result list" where
  "evaluate_with_ml rx predict e s =
     (let rule_results = evaluate_rules rx e s
      in if rule_results = [] then []
         else (case predict s of Inl _ \<Rightarrow> rule_results | Inr ml_results \<Rightarrow> merge_results rule_results ml_results))"

subsection \<open>What one category reports\<close>

text \<open>
  The reference for \<open>_deduplicate_by_category\<close>: of the results of one category the first one of the
  highest severity.
\<close>

fun pick :: "fw_result \<Rightarrow> fw_result list \<Rightarrow> fw_result" where
  "pick x [] = x"
| "pick x (r # rs) = pick (if severity_score (dr_severity r) > severity_score (dr_severity x) then r else x) rs"

definition strongest :: "fw_result list \<Rightarrow> fw_result option" where
  "strongest rs = (case rs of [] \<Rightarrow> None | x # xs \<Rightarrow> Some (pick x xs))"

lemma dedup_lookup:
  "map_of (dedup_by_category best rs) c =
     (case map_of best c of
        None \<Rightarrow> strongest (filter (\<lambda>r. dr_category r = c) rs)
      | Some x \<Rightarrow> Some (pick x (filter (\<lambda>r. dr_category r = c) rs)))"
proof (induction rs arbitrary: best)
  case Nil
  then show ?case by (simp add: strongest_def split: option.splits)
next
  case (Cons r rs)
  then show ?case
    by (cases "dr_category r = c") (auto simp: strongest_def map_of_update split: option.splits)
qed

lemma dedup_keys:
  "distinct (map fst best) \<Longrightarrow> distinct (map fst (dedup_by_category best rs))"
  by (induction rs arbitrary: best) (auto simp: distinct_update split: option.splits)

lemma pick_split:
  "\<exists>a b. x # rs = a @ pick x rs # b
     \<and> (\<forall>y \<in> set a. severity_score (dr_severity y) < severity_score (dr_severity (pick x rs)))
     \<and> (\<forall>y \<in> set b. severity_score (dr_severity y) \<le> severity_score (dr_severity (pick x rs)))"
proof (induction rs arbitrary: x)
  case Nil
  show ?case by (rule exI [of _ "[]"], rule exI [of _ "[]"]) simp
next
  case (Cons r rs)
  show ?case
  proof (cases "severity_score (dr_severity r) > severity_score (dr_severity x)")
    case True
    from Cons [of r] obtain a b where ab: "r # rs = a @ pick r rs # b"
        "\<forall>y \<in> set a. severity_score (dr_severity y) < severity_score (dr_severity (pick r rs))"
        "\<forall>y \<in> set b. severity_score (dr_severity y) \<le> severity_score (dr_severity (pick r rs))" by blast
    have "r \<in> set (a @ pick r rs # b)" using ab(1) by (metis list.set_intros(1))
    then have "severity_score (dr_severity r) \<le> severity_score (dr_severity (pick r rs))"
      using ab(2,3) by auto
    moreover have "pick x (r # rs) = pick r rs" using True by simp
    moreover have "x # r # rs = (x # a) @ pick r rs # b" by (simp only: ab(1) append_Cons)
    ultimately show ?thesis using True ab(2,3) by (intro exI [of _ "x # a"] exI [of _ b]) (simp del: pick.simps)
  next
    case False
    from Cons [of x] obtain a b where ab: "x # rs = a @ pick x rs # b"
        "\<forall>y \<in> set a. severity_score (dr_severity y) < severity_score (dr_severity (pick x rs))"
        "\<forall>y \<in> set b. severity_score (dr_severity y) \<le> severity_score (dr_severity (pick x rs))" by blast
    show ?thesis
    proof (cases a)
      case Nil
      with ab False show ?thesis by (intro exI [of _ "[]"] exI [of _ "r # b"]) auto
    next
      case (Cons z zs)
      with ab have z: "z = x" and rs: "rs = zs @ pick x rs # b" by auto
      with ab(2) Cons have "severity_score (dr_severity x) < severity_score (dr_severity (pick x rs))" by simp
      with False ab rs z Cons show ?thesis by (intro exI [of _ "x # r # zs"] exI [of _ b]) auto
    qed
  qed
qed

lemma strongest_in: "strongest rs = Some p \<Longrightarrow> p \<in> set rs"
proof -
  assume "strongest rs = Some p"
  then obtain x xs where "rs = x # xs" "p = pick x xs" by (auto simp: strongest_def split: list.splits)
  with pick_split [of x xs] show "p \<in> set rs" by (metis in_set_conv_decomp)
qed

lemma in_evaluate_rules:
  "r \<in> set (evaluate_rules rx e s) \<longleftrightarrow>
     strongest (filter (\<lambda>q. dr_category q = dr_category r) (raw_hits rx e s)) = Some r"
proof -
  let ?d = "dedup_by_category [] (raw_hits rx e s)"
  have l: "map_of ?d c = strongest (filter (\<lambda>q. dr_category q = c) (raw_hits rx e s))" for c
    by (simp add: dedup_lookup)
  have k: "map_of ?d c = Some q \<longleftrightarrow> (c, q) \<in> set ?d" for c q
    using dedup_keys [of "[]" "raw_hits rx e s"] by simp
  have cat: "dr_category q = c" if "map_of ?d c = Some q" for c q
    using that l [of c] strongest_in by fastforce
  show ?thesis
  proof
    assume "r \<in> set (evaluate_rules rx e s)"
    then obtain c where "(c, r) \<in> set ?d" by (auto simp: evaluate_rules_def)
    then have "map_of ?d c = Some r" using k by blast
    with cat l show "strongest (filter (\<lambda>q. dr_category q = dr_category r) (raw_hits rx e s)) = Some r" by metis
  next
    assume "strongest (filter (\<lambda>q. dr_category q = dr_category r) (raw_hits rx e s)) = Some r"
    then have "(dr_category r, r) \<in> set ?d" using k l by simp
    then show "r \<in> set (evaluate_rules rx e s)" by (force simp: evaluate_rules_def)
  qed
qed

lemma in_raw_hits: "h \<in> set (raw_hits rx e s) \<longleftrightarrow> (\<exists>r \<in> set (fe_rules e). evaluate_rule rx e s r = Some h)"
  by (force simp: raw_hits_def List.map_filter_def)

lemma evaluate_rule_fields:
  "evaluate_rule rx e s r = Some h \<Longrightarrow>
     dr_category h = fr_category r \<and> dr_severity h = fr_severity r \<and> dr_action h = fr_action r \<and> dr_rule h = Some (fr_id r)
     \<and> fr_enabled r \<and> (\<exists>m. rule_search rx r s = Some m \<and> dr_confidence h = min 1 (real (length m) / 100 + 8 / 10))"
  by (auto simp: evaluate_rule_def match_rule_def Let_def split: if_splits option.splits)

lemma evaluate_reports_category:
  assumes "h \<in> set (raw_hits rx e s)"
  shows "\<exists>r \<in> set (evaluate_rules rx e s). dr_category r = dr_category h
           \<and> severity_score (dr_severity h) \<le> severity_score (dr_severity r)"
proof -
  let ?f = "filter (\<lambda>q. dr_category q = dr_category h) (raw_hits rx e s)"
  have h: "h \<in> set ?f" using assms by simp
  then obtain x xs where xs: "?f = x # xs" by (cases ?f) auto
  from pick_split [of x xs] obtain a b where ab: "x # xs = a @ pick x xs # b"
      "\<forall>y \<in> set a. severity_score (dr_severity y) < severity_score (dr_severity (pick x xs))"
      "\<forall>y \<in> set b. severity_score (dr_severity y) \<le> severity_score (dr_severity (pick x xs))" by blast
  have "pick x xs \<in> set ?f" using ab(1) xs by simp
  then have c: "dr_category (pick x xs) = dr_category h" by simp
  then have "pick x xs \<in> set (evaluate_rules rx e s)"
    using xs by (simp add: in_evaluate_rules strongest_def)
  moreover have "severity_score (dr_severity h) \<le> severity_score (dr_severity (pick x xs))"
  proof -
    have "h \<in> set (a @ pick x xs # b)" using h xs ab(1) by simp
    with ab(2,3) show ?thesis by auto
  qed
  ultimately show ?thesis using c by blast
qed

subsection \<open>When a blocking rule blocks\<close>

definition should_block :: "fw_result list \<Rightarrow> bool" where
  "should_block rs = list_ex (\<lambda>r. dr_action r = FwBlock) rs"

text \<open>
  Within one category, in the order the engine tries the rules: no rule that does not block comes first
  with at least the severity of a blocking one, and none comes later with more.
\<close>

definition yields_to :: "fw_rule \<Rightarrow> fw_rule \<Rightarrow> bool" where
  "yields_to r q \<longleftrightarrow>
     fr_category q = fr_category r \<longrightarrow>
       (fr_action q = FwBlock \<and> severity_score (fr_severity q) \<le> severity_score (fr_severity r) \<longrightarrow> fr_action r = FwBlock)
       \<and> (fr_action r = FwBlock \<and> severity_score (fr_severity q) > severity_score (fr_severity r) \<longrightarrow> fr_action q = FwBlock)"

fun block_consistent :: "fw_rule list \<Rightarrow> bool" where
  "block_consistent [] = True"
| "block_consistent (r # rs) = (list_all (yields_to r) rs \<and> block_consistent rs)"

lemma block_consistent_append:
  "block_consistent (a @ b) \<longleftrightarrow> block_consistent a \<and> block_consistent b \<and> (\<forall>r \<in> set a. \<forall>q \<in> set b. yields_to r q)"
  by (induction a) (auto simp: list_all_iff)

text \<open>The hits of a consistent list of rules, as a list with the same property.\<close>

definition hit_yields :: "fw_result \<Rightarrow> fw_result \<Rightarrow> bool" where
  "hit_yields x y \<longleftrightarrow>
     dr_category y = dr_category x \<longrightarrow>
       (dr_action y = FwBlock \<and> severity_score (dr_severity y) \<le> severity_score (dr_severity x) \<longrightarrow> dr_action x = FwBlock)
       \<and> (dr_action x = FwBlock \<and> severity_score (dr_severity y) > severity_score (dr_severity x) \<longrightarrow> dr_action y = FwBlock)"

fun hits_consistent :: "fw_result list \<Rightarrow> bool" where
  "hits_consistent [] = True"
| "hits_consistent (x # xs) = (list_all (hit_yields x) xs \<and> hits_consistent xs)"

lemma hits_consistent_append:
  "hits_consistent (a @ b) \<longleftrightarrow> hits_consistent a \<and> hits_consistent b \<and> (\<forall>x \<in> set a. \<forall>y \<in> set b. hit_yields x y)"
  by (induction a) (auto simp: list_all_iff)

lemma hits_consistent_filter: "hits_consistent xs \<Longrightarrow> hits_consistent (filter P xs)"
  by (induction xs) (auto simp: list_all_iff)

lemma hits_of_consistent_rules:
  "block_consistent rs \<Longrightarrow> hits_consistent (List.map_filter (evaluate_rule rx e s) rs)"
proof (induction rs)
  case (Cons r rs)
  show ?case
  proof (cases "evaluate_rule rx e s r")
    case None
    with Cons show ?thesis by (simp add: List.map_filter_def)
  next
    case (Some h)
    have "hit_yields h y" if y: "y \<in> set (List.map_filter (evaluate_rule rx e s) rs)" for y
    proof -
      from y obtain q where q: "q \<in> set rs" "evaluate_rule rx e s q = Some y"
        by (auto simp: List.map_filter_def)
      from q(1) Cons.prems have "yields_to r q" by (simp add: list_all_iff)
      then show ?thesis
        using evaluate_rule_fields [OF Some] evaluate_rule_fields [OF q(2)] by (simp add: yields_to_def hit_yields_def)
    qed
    with Some Cons show ?thesis by (simp add: List.map_filter_def list_all_iff)
  qed
qed (simp add: List.map_filter_def)

lemma consistent_hits_block:
  assumes c: "hits_consistent xs" "\<forall>x \<in> set xs. dr_category x = k" and y: "y \<in> set xs" "dr_action y = FwBlock"
    and p: "strongest xs = Some p"
  shows "dr_action p = FwBlock"
proof -
  from p obtain z zs where z: "xs = z # zs" "p = pick z zs" by (auto simp: strongest_def split: list.splits)
  from pick_split [of z zs] obtain a b where ab: "xs = a @ p # b"
      "\<forall>w \<in> set a. severity_score (dr_severity w) < severity_score (dr_severity p)"
      "\<forall>w \<in> set b. severity_score (dr_severity w) \<le> severity_score (dr_severity p)" unfolding z by blast
  from c(2) y(1) ab(1) have k: "dr_category y = k" "dr_category p = k" by auto
  from y(1) ab(1) consider "y \<in> set a" | "y = p" | "y \<in> set b" by auto
  then show ?thesis
  proof cases
    case 1
    with c(1) ab(1) have "hit_yields y p" by (simp add: hits_consistent_append)
    with 1 ab(2) k y(2) show ?thesis by (simp add: hit_yields_def)
  next
    case 2
    with y(2) show ?thesis by simp
  next
    case 3
    with c(1) ab(1) have "hit_yields p y" by (simp add: hits_consistent_append list_all_iff)
    with 3 ab(3) k y(2) show ?thesis by (simp add: hit_yields_def)
  qed
qed

text \<open>Blocking. When the rules are consistent, as the shipped ones are, the gate blocks a text exactly
  when some enabled rule with the action BLOCK fires on it, although the engine reports only one result
  for each category.
\<close>

theorem firewall_blocks_iff:
  assumes "block_consistent (fe_rules e)"
  shows "should_block (evaluate_rules rx e s) \<longleftrightarrow>
     (\<exists>r \<in> set (fe_rules e). fr_action r = FwBlock \<and> evaluate_rule rx e s r \<noteq> None)"
proof
  assume "should_block (evaluate_rules rx e s)"
  then obtain h where h: "h \<in> set (evaluate_rules rx e s)" "dr_action h = FwBlock"
    by (auto simp: should_block_def list_ex_iff)
  from h(1) strongest_in have "h \<in> set (raw_hits rx e s)" by (fastforce simp: in_evaluate_rules)
  then obtain r where "r \<in> set (fe_rules e)" "evaluate_rule rx e s r = Some h" by (auto simp: in_raw_hits)
  with h(2) evaluate_rule_fields [of rx e s r h]
  show "\<exists>r \<in> set (fe_rules e). fr_action r = FwBlock \<and> evaluate_rule rx e s r \<noteq> None" by auto
next
  assume "\<exists>r \<in> set (fe_rules e). fr_action r = FwBlock \<and> evaluate_rule rx e s r \<noteq> None"
  then obtain r h where r: "r \<in> set (fe_rules e)" "fr_action r = FwBlock" "evaluate_rule rx e s r = Some h" by auto
  then have h: "h \<in> set (raw_hits rx e s)" "dr_action h = FwBlock"
    using evaluate_rule_fields [OF r(3)] by (auto simp: in_raw_hits)
  let ?f = "filter (\<lambda>q. dr_category q = dr_category h) (raw_hits rx e s)"
  have hf: "h \<in> set ?f" using h by simp
  then obtain p where p: "strongest ?f = Some p" by (cases ?f) (auto simp: strongest_def)
  have "dr_action p = FwBlock"
  proof (rule consistent_hits_block [where k = "dr_category h", OF _ _ hf h(2) p])
    show "hits_consistent ?f"
      using hits_of_consistent_rules [OF assms] by (simp add: raw_hits_def hits_consistent_filter)
  qed simp
  moreover have "p \<in> set (evaluate_rules rx e s)"
    using p strongest_in [OF p] by (simp add: in_evaluate_rules)
  ultimately show "should_block (evaluate_rules rx e s)" by (auto simp: should_block_def list_ex_iff)
qed

definition sample_rule :: "string \<Rightarrow> fw_category \<Rightarrow> string \<Rightarrow> fw_action \<Rightarrow> fw_severity \<Rightarrow> int \<Rightarrow> fw_rule" where
  "sample_rule i c p a v n = \<lparr>fr_id = i, fr_category = c, fr_enabled = True, fr_pattern = Some p, fr_description = None,
     fr_semantic = None, fr_action = a, fr_severity = v, fr_priority = n\<rparr>"

lemma firewall_blocks_iff_witness:
  "should_block (evaluate_rules (\<lambda>p. Some (\<lambda>s. if s = p then Some p else None))
     (new_engine [sample_rule ''b'' PromptInjection ''malicious'' FwFlag SevHigh 80,
                  sample_rule ''a'' PromptInjection ''malicious'' FwBlock SevHigh 100] [] default_severity_mapping)
     ''malicious'')"
  by (subst firewall_blocks_iff)
     (simp_all add: new_engine_def sample_rule_def yields_to_def evaluate_rule_def match_rule_def rule_search_def)

text \<open>
  Without consistency a severe rule that only monitors hides a milder rule that blocks, whatever their
  priorities: both fire, one result is reported, and the request passes.
\<close>

lemma monitor_rule_hides_block:
  "\<exists>e rx s r. r \<in> set (fe_rules e) \<and> fr_action r = FwBlock \<and> evaluate_rule rx e s r \<noteq> None
     \<and> \<not> should_block (evaluate_rules rx e s)"
proof -
  define e where "e = new_engine [sample_rule ''block'' Jailbreak ''malicious'' FwBlock SevMedium 100,
    sample_rule ''watch'' Jailbreak ''malicious'' FwMonitor SevHigh 1] [] default_severity_mapping"
  define rx :: rule_matcher where "rx = (\<lambda>p. Some (\<lambda>s. if s = p then Some p else None))"
  have "\<not> should_block (evaluate_rules rx e ''malicious'')"
    by (simp add: e_def rx_def new_engine_def sample_rule_def evaluate_rules_def raw_hits_def List.map_filter_def
        evaluate_rule_def match_rule_def rule_search_def should_block_def)
  moreover have "evaluate_rule rx e ''malicious'' (sample_rule ''block'' Jailbreak ''malicious'' FwBlock SevMedium 100) \<noteq> None"
    by (simp add: e_def rx_def new_engine_def sample_rule_def evaluate_rule_def match_rule_def rule_search_def)
  moreover have "sample_rule ''block'' Jailbreak ''malicious'' FwBlock SevMedium 100 \<in> set (fe_rules e)"
    by (simp add: e_def new_engine_def sample_rule_def)
  ultimately show ?thesis by (intro exI conjI) (simp_all add: sample_rule_def)
qed

text \<open>
  With the default threshold the confidence depends only on the length of the match, and a match of
  fewer than five characters is never reported: a rule for a short word can not fire.
\<close>

lemma short_matches_ignored:
  assumes "map_of (fe_categories e) (category_value (fr_category r)) = None"
  shows "evaluate_rule rx e s r \<noteq> None \<longleftrightarrow>
     fr_enabled r \<and> (\<exists>m. rule_search rx r s = Some m \<and> 5 \<le> length m)"
proof -
  have "min 1 (real n / 100 + 8 / 10) < (85 / 100 :: real) \<longleftrightarrow> n < 5" for n :: nat by (auto simp: min_def)
  with assms show ?thesis
    by (auto simp: evaluate_rule_def match_rule_def rule_search_def Let_def not_less split: option.splits)
qed

subsection \<open>The gates\<close>

text \<open>
  What the gates leave in the audit metadata of a context: the latencies by name, the elapsed time of
  each check being an argument, and the last firewall event.
\<close>

record fw_event =
  fv_type :: string
  fv_result :: fw_result

record fw_ctx =
  fc_latency :: "(string, real) dict"
  fc_event :: "fw_event option"

definition new_fw_ctx :: fw_ctx where
  "new_fw_ctx = \<lparr>fc_latency = [], fc_event = None\<rparr>"

type_synonym ml_predict = "string \<Rightarrow> fw_result list py_result"

record inbound_gate =
  ig_engine :: fw_engine
  ig_ml :: "ml_predict option"

definition gate_results :: "rule_matcher \<Rightarrow> fw_engine \<Rightarrow> ml_predict option \<Rightarrow> string \<Rightarrow> fw_result list" where
  "gate_results rx e ml s =
     (let results = evaluate_rules rx e s
      in case ml of None \<Rightarrow> results
         | Some predict \<Rightarrow> if results = [] then results else evaluate_with_ml rx predict e s)"

definition check_pre_anon :: "rule_matcher \<Rightarrow> inbound_gate \<Rightarrow> string \<Rightarrow> real \<Rightarrow> fw_ctx \<Rightarrow> fw_result list \<times> fw_ctx" where
  "check_pre_anon rx g s elapsed c =
     (gate_results rx (ig_engine g) (ig_ml g) s,
      c\<lparr>fc_latency := AList.update ''inbound_firewall_latency_ms'' elapsed (fc_latency c)\<rparr>)"

definition check_post_anon :: "rule_matcher \<Rightarrow> inbound_gate \<Rightarrow> string \<Rightarrow> real \<Rightarrow> fw_ctx \<Rightarrow> fw_result list \<times> fw_ctx" where
  "check_post_anon rx g s elapsed c =
     (evaluate_rules rx (ig_engine g) s,
      c\<lparr>fc_latency := AList.update ''post_anon_firewall_latency_ms'' elapsed (fc_latency c)\<rparr>)"

record fw_reply =
  fp_status :: nat
  fp_message :: string
  fp_code :: string

definition inbound_block_response :: "fw_result \<Rightarrow> fw_reply" where
  "inbound_block_response r = \<lparr>fp_status = 400,
     fp_message = ''Request blocked by security firewall: '' @ category_value (dr_category r),
     fp_code = category_value (dr_category r)\<rparr>"

definition inbound_emit_audit :: "fw_result \<Rightarrow> fw_ctx \<Rightarrow> fw_ctx" where
  "inbound_emit_audit r c = c\<lparr>fc_event := Some \<lparr>fv_type = ''firewall_injection_detected'', fv_result = r\<rparr>\<rparr>"

record outbound_gate =
  og_engine :: fw_engine
  og_mapping :: severity_mapping
  og_ml :: "ml_predict option"

fun outbound_action :: "severity_mapping \<Rightarrow> fw_severity \<Rightarrow> fw_action" where
  "outbound_action m SevHigh = sm_high m"
| "outbound_action m SevMedium = sm_medium m"
| "outbound_action m SevLow = sm_low m"

definition apply_severity_mapping :: "severity_mapping \<Rightarrow> fw_result list \<Rightarrow> fw_result list" where
  "apply_severity_mapping m rs = map (\<lambda>r. r\<lparr>dr_action := outbound_action m (dr_severity r)\<rparr>) rs"

definition check_pre_restore :: "rule_matcher \<Rightarrow> outbound_gate \<Rightarrow> string \<Rightarrow> real \<Rightarrow> fw_ctx \<Rightarrow> fw_result list \<times> fw_ctx" where
  "check_pre_restore rx g s elapsed c =
     (apply_severity_mapping (og_mapping g) (gate_results rx (og_engine g) (og_ml g) s),
      c\<lparr>fc_latency := AList.update ''pre_restore_firewall_latency_ms'' elapsed (fc_latency c)\<rparr>)"

definition check_post_restore :: "rule_matcher \<Rightarrow> outbound_gate \<Rightarrow> string \<Rightarrow> real \<Rightarrow> fw_ctx \<Rightarrow> fw_result list \<times> fw_ctx" where
  "check_post_restore rx g s elapsed c =
     (apply_severity_mapping (og_mapping g) (evaluate_rules rx (og_engine g) s),
      c\<lparr>fc_latency := AList.update ''post_restore_firewall_latency_ms'' elapsed (fc_latency c)\<rparr>)"

definition outbound_block_response :: "fw_result \<Rightarrow> fw_reply" where
  "outbound_block_response r = \<lparr>fp_status = 451,
     fp_message = ''Output blocked by security firewall: '' @ category_value (dr_category r),
     fp_code = ''output_policy_violation''\<rparr>"

definition outbound_emit_audit :: "fw_result \<Rightarrow> fw_ctx \<Rightarrow> fw_ctx" where
  "outbound_emit_audit r c = c\<lparr>fc_event := Some \<lparr>fv_type = ''firewall_outbound_violation'', fv_result = r\<rparr>\<rparr>"

subsection \<open>The middlewares\<close>

text \<open>Reading a parsed body: \<open>x.get(k, dflt)\<close> and iteration over a value.\<close>

fun json_get :: "json \<Rightarrow> string \<Rightarrow> json \<Rightarrow> json py_result" where
  "json_get (JObj kvs) k dflt = Inr (case map_of kvs k of None \<Rightarrow> dflt | Some v \<Rightarrow> v)"
| "json_get j k dflt = Inl (OtherExn ''AttributeError'')"

fun json_iter :: "json \<Rightarrow> json list py_result" where
  "json_iter (JList xs) = Inr xs"
| "json_iter (JObj kvs) = Inr (map (JStr \<circ> fst) kvs)"
| "json_iter (JStr s) = Inr (map (\<lambda>c. JStr [c]) s)"
| "json_iter j = Inl TypeError"

fun gather_text :: "(json \<Rightarrow> json py_result) \<Rightarrow> json list \<Rightarrow> string py_result" where
  "gather_text content [] = Inr []"
| "gather_text content (m # ms) =
     bind_result (content m) (\<lambda>v. bind_result (gather_text content ms)
       (\<lambda>rest. Inr ((case v of JStr s \<Rightarrow> s @ [CHR 10] | _ \<Rightarrow> []) @ rest)))"

definition inbound_text :: "json \<Rightarrow> string py_result" where
  "inbound_text body =
     bind_result (json_get body ''messages'' (JList [])) (\<lambda>ms.
     bind_result (json_iter ms) (gather_text (\<lambda>m. json_get m ''content'' (JStr []))))"

definition outbound_text :: "json \<Rightarrow> string py_result" where
  "outbound_text body =
     bind_result (json_get body ''choices'' (JList [])) (\<lambda>cs.
     bind_result (json_iter cs) (gather_text (\<lambda>ch.
       bind_result (json_get ch ''message'' (JObj [])) (\<lambda>m. json_get m ''content'' (JStr [])))))"

definition inbound_skip_paths :: "string list" where
  "inbound_skip_paths = [''/health'', ''/health/ready'', ''/metrics'', ''/'', ''/v1/config/rules'']"

definition outbound_skip_paths :: "string list" where
  "outbound_skip_paths = [''/health'', ''/health/ready'', ''/metrics'', ''/'']"

definition path_skipped :: "string list \<Rightarrow> string \<Rightarrow> bool" where
  "path_skipped skips p \<longleftrightarrow> List.member skips p \<or> take 4 p \<noteq> ''/v1/''"

datatype 'r fw_answer = Upstream 'r | Refused fw_reply

record 'r fw_outcome =
  fo_answer :: "'r fw_answer"
  fo_forwarded :: bool
  fo_ctx :: fw_ctx

text \<open>
  \<open>InboundFirewallMiddleware.dispatch\<close>. The body is None when it is not JSON. The gate is built
  without the ML model, which the middleware keeps and never uses.
\<close>

definition inbound_dispatch ::
  "rule_matcher \<Rightarrow> fw_engine option \<Rightarrow> ml_predict option \<Rightarrow> string \<Rightarrow> json option \<Rightarrow> real \<Rightarrow> real \<Rightarrow> 'r
     \<Rightarrow> 'r fw_outcome py_result" where
  "inbound_dispatch rx eng ml p body t1 t2 upstream =
     (if path_skipped inbound_skip_paths p then Inr \<lparr>fo_answer = Upstream upstream, fo_forwarded = True, fo_ctx = new_fw_ctx\<rparr>
      else case eng of
        None \<Rightarrow> Inr \<lparr>fo_answer = Upstream upstream, fo_forwarded = True, fo_ctx = new_fw_ctx\<rparr>
      | Some e \<Rightarrow>
          bind_result (inbound_text (case body of None \<Rightarrow> JObj [] | Some b \<Rightarrow> b)) (\<lambda>s.
            let g = \<lparr>ig_engine = e, ig_ml = None\<rparr>; (pre, c1) = check_pre_anon rx g s t1 new_fw_ctx
            in if should_block pre
               then Inr \<lparr>fo_answer = Refused (inbound_block_response (hd pre)), fo_forwarded = False,
                         fo_ctx = inbound_emit_audit (hd pre) c1\<rparr>
               else (let (post, c2) = check_post_anon rx g s t2 c1
                     in if should_block post
                        then Inr \<lparr>fo_answer = Refused (inbound_block_response (hd post)), fo_forwarded = True,
                                  fo_ctx = inbound_emit_audit (hd post) c2\<rparr>
                        else Inr \<lparr>fo_answer = Upstream upstream, fo_forwarded = True, fo_ctx = c2\<rparr>)))"

text \<open>\<open>OutboundFirewallMiddleware.dispatch\<close>, after the response has been read in full.\<close>

definition outbound_dispatch ::
  "rule_matcher \<Rightarrow> fw_engine option \<Rightarrow> severity_mapping option \<Rightarrow> ml_predict option \<Rightarrow> string \<Rightarrow> json option
     \<Rightarrow> real \<Rightarrow> real \<Rightarrow> 'r \<Rightarrow> 'r fw_outcome py_result" where
  "outbound_dispatch rx eng m ml p body t1 t2 upstream =
     (if path_skipped outbound_skip_paths p then Inr \<lparr>fo_answer = Upstream upstream, fo_forwarded = True, fo_ctx = new_fw_ctx\<rparr>
      else case eng of
        None \<Rightarrow> Inr \<lparr>fo_answer = Upstream upstream, fo_forwarded = True, fo_ctx = new_fw_ctx\<rparr>
      | Some e \<Rightarrow>
          bind_result (outbound_text (case body of None \<Rightarrow> JObj [] | Some b \<Rightarrow> b)) (\<lambda>s.
            let g = \<lparr>og_engine = e, og_mapping = (case m of None \<Rightarrow> default_severity_mapping | Some x \<Rightarrow> x), og_ml = ml\<rparr>;
                (pre, c1) = check_pre_restore rx g s t1 new_fw_ctx
            in if should_block pre
               then Inr \<lparr>fo_answer = Refused (outbound_block_response (hd pre)), fo_forwarded = True,
                         fo_ctx = outbound_emit_audit (hd pre) c1\<rparr>
               else (let (post, c2) = check_post_restore rx g s t2 c1
                     in if should_block post
                        then Inr \<lparr>fo_answer = Refused (outbound_block_response (hd post)), fo_forwarded = True,
                                  fo_ctx = outbound_emit_audit (hd post) c2\<rparr>
                        else Inr \<lparr>fo_answer = Upstream upstream, fo_forwarded = True, fo_ctx = c2\<rparr>)))"

text \<open>
  The check after the call looks at the same text with the same rules as the one before it, so it never
  blocks: what the middleware does is decided before the request is passed on.
\<close>

lemma inbound_decided_before_call:
  assumes "\<not> path_skipped inbound_skip_paths p" "inbound_text (case body of None \<Rightarrow> JObj [] | Some b \<Rightarrow> b) = Inr s"
  shows "\<exists>c. inbound_dispatch rx (Some e) ml p body t1 t2 upstream =
     Inr (if should_block (evaluate_rules rx e s)
          then \<lparr>fo_answer = Refused (inbound_block_response (hd (evaluate_rules rx e s))), fo_forwarded = False, fo_ctx = c\<rparr>
          else \<lparr>fo_answer = Upstream upstream, fo_forwarded = True, fo_ctx = c\<rparr>)"
  using assms by (auto simp: inbound_dispatch_def check_pre_anon_def check_post_anon_def gate_results_def Let_def)

text \<open>
  The reply and the audit event name the first result, which need not be the one that blocks.
\<close>

lemma block_reply_names_other_category:
  "\<exists>rx e s c. inbound_dispatch rx (Some e) None ''/v1/chat'' (Some (JObj [(''messages'', JList [JObj [(''content'', JStr s)]])])) 0 0 ()
       = Inr \<lparr>fo_answer = Refused (inbound_block_response c), fo_forwarded = False,
              fo_ctx = inbound_emit_audit c \<lparr>fc_latency = [(''inbound_firewall_latency_ms'', 0)], fc_event = None\<rparr>\<rparr>
     \<and> dr_action c = FwMonitor \<and> dr_category c = RoleEscalation"
  by (rule exI [of _ "\<lambda>p. Some (\<lambda>s. Some ''malicious'')"],
      rule exI [of _ "new_engine [sample_rule ''r'' RoleEscalation ''x'' FwMonitor SevHigh 100,
        sample_rule ''s'' Jailbreak ''x'' FwBlock SevHigh 1] [] default_severity_mapping"],
      rule exI [of _ "[]"],
      rule exI [of _ "\<lparr>dr_category = RoleEscalation, dr_confidence = 89 / 100, dr_rule = Some ''r'',
         dr_severity = SevHigh, dr_action = FwMonitor, dr_snippet = Some ''malicious''\<rparr>"])
     (simp add: make_snippet_def inbound_dispatch_def path_skipped_def inbound_skip_paths_def inbound_text_def check_pre_anon_def
        gate_results_def new_engine_def sample_rule_def evaluate_rules_def raw_hits_def List.map_filter_def
        evaluate_rule_def match_rule_def rule_search_def should_block_def new_fw_ctx_def Let_def)

text \<open>
  The ML model can only report a weaker action, and its result takes the place of a rule's result of
  lower confidence: a gate with a model lets a request pass that the rules alone block.
\<close>

lemma ml_result_lifts_block:
  "\<exists>rx e s predict. should_block (evaluate_rules rx e s) \<and> \<not> should_block (gate_results rx e (Some predict) s)"
  by (rule exI [of _ "\<lambda>p. Some (\<lambda>s. Some ''malicious'')"],
      rule exI [of _ "new_engine [sample_rule ''s'' Jailbreak ''x'' FwBlock SevHigh 1] [] default_severity_mapping"],
      rule exI [of _ "[]"],
      rule exI [of _ "\<lambda>s. Inr [\<lparr>dr_category = Jailbreak, dr_confidence = 95 / 100, dr_rule = None,
         dr_severity = SevMedium, dr_action = FwFlag, dr_snippet = None\<rparr>]"])
     (simp add: gate_results_def evaluate_with_ml_def merge_results_def new_engine_def sample_rule_def evaluate_rules_def
        raw_hits_def List.map_filter_def evaluate_rule_def match_rule_def rule_search_def should_block_def Let_def)

subsection \<open>Streaming: the sliding window\<close>

record window_detector =
  wd_size :: int
  wd_buffer :: string

definition ingest_chunk :: "rule_matcher \<Rightarrow> fw_engine \<Rightarrow> string \<Rightarrow> window_detector \<Rightarrow> window_detector \<times> fw_result list" where
  "ingest_chunk rx e chunk d =
     (let b = wd_buffer d @ chunk;
          b' = (if int (length b) > wd_size d then drop (nat (int (length b) - wd_size d)) b else b)
      in (d\<lparr>wd_buffer := b'\<rparr>, evaluate_rules rx e b'))"

definition flush_window :: "rule_matcher \<Rightarrow> fw_engine \<Rightarrow> window_detector \<Rightarrow> window_detector \<times> fw_result list" where
  "flush_window rx e d = (d\<lparr>wd_buffer := []\<rparr>, evaluate_rules rx e (wd_buffer d))"

definition reset_window :: "window_detector \<Rightarrow> window_detector" where
  "reset_window d = d\<lparr>wd_buffer := []\<rparr>"

text \<open>
  \<open>StreamingFirewallDetector.process_chunk\<close>: each chunk of bytes is decoded on its own and passed on
  unchanged, whatever the results.
\<close>

definition process_chunk ::
  "rule_matcher \<Rightarrow> fw_engine \<Rightarrow> (string \<Rightarrow> string) \<Rightarrow> string \<Rightarrow> window_detector \<Rightarrow> window_detector \<times> string \<times> fw_result list" where
  "process_chunk rx e decode_replace chunk d =
     (case ingest_chunk rx e (decode_replace chunk) d of (d', results) \<Rightarrow> (d', chunk, results))"

fun ingest_chunks :: "rule_matcher \<Rightarrow> fw_engine \<Rightarrow> string list \<Rightarrow> window_detector \<Rightarrow> window_detector \<times> fw_result list list" where
  "ingest_chunks rx e [] d = (d, [])"
| "ingest_chunks rx e (c # cs) d =
     (let (d1, r) = ingest_chunk rx e c d; (d2, rs) = ingest_chunks rx e cs d1 in (d2, r # rs))"

text \<open>The last \<open>n\<close> characters of a text.\<close>

definition suffix_of :: "int \<Rightarrow> string \<Rightarrow> string" where
  "suffix_of n s = drop (length s - nat n) s"

lemma suffix_of_append: "0 \<le> n \<Longrightarrow> suffix_of n (suffix_of n s @ t) = suffix_of n (s @ t)"
  by (simp add: suffix_of_def drop_append) (metis (no_types, opaque_lifting) add_diff_cancel_left' diff_diff_eq diff_le_self
      drop_drop le_add_diff_inverse2 nat_le_linear diff_is_0_eq)

lemma suffix_of_short: "int (length s) \<le> n \<Longrightarrow> suffix_of n s = s"
  by (simp add: suffix_of_def)

lemma suffix_of_length: "0 \<le> n \<Longrightarrow> int (length (suffix_of n s)) \<le> n"
  by (simp add: suffix_of_def)

lemma ingest_suffix:
  assumes "0 \<le> wd_size d"
  shows "ingest_chunk rx e c d =
     (d\<lparr>wd_buffer := suffix_of (wd_size d) (wd_buffer d @ c)\<rparr>, evaluate_rules rx e (suffix_of (wd_size d) (wd_buffer d @ c)))"
proof -
  have "(if int (length b) > wd_size d then drop (nat (int (length b) - wd_size d)) b else b) = suffix_of (wd_size d) b" for b
  proof -
    have "nat (int (length b) - wd_size d) = length b - nat (wd_size d)" using assms by arith
    then show ?thesis using assms by (auto simp: suffix_of_def)
  qed
  then show ?thesis by (simp only: ingest_chunk_def Let_def)
qed

text \<open>
  The window: after each chunk the rules are tried on the last characters of everything received so
  far, whatever the boundaries of the chunks, and on nothing else.
\<close>

lemma window_sees_suffixes:
  assumes "0 \<le> wd_size d" "int (length (wd_buffer d)) \<le> wd_size d"
  shows "ingest_chunks rx e cs d =
     (d\<lparr>wd_buffer := suffix_of (wd_size d) (wd_buffer d @ concat cs)\<rparr>,
      map (\<lambda>k. evaluate_rules rx e (suffix_of (wd_size d) (wd_buffer d @ concat (take (Suc k) cs)))) [0 ..< length cs])"
  using assms
proof (induction cs arbitrary: d)
  case Nil
  then show ?case by (simp add: suffix_of_short)
next
  case (Cons c cs)
  let ?n = "wd_size d" and ?b = "suffix_of (wd_size d) (wd_buffer d @ c)"
  have i: "ingest_chunk rx e c d = (d\<lparr>wd_buffer := ?b\<rparr>, evaluate_rules rx e ?b)"
    using Cons.prems by (simp add: ingest_suffix)
  have IH: "ingest_chunks rx e cs (d\<lparr>wd_buffer := ?b\<rparr>) =
      (d\<lparr>wd_buffer := suffix_of ?n (?b @ concat cs)\<rparr>,
       map (\<lambda>k. evaluate_rules rx e (suffix_of ?n (?b @ concat (take (Suc k) cs)))) [0 ..< length cs])"
    using Cons.IH [of "d\<lparr>wd_buffer := ?b\<rparr>"] Cons.prems by (simp add: suffix_of_length)
  have m: "[0 ..< length (c # cs)] = 0 # map Suc [0 ..< length cs]"
    by (simp add: upt_conv_Cons map_Suc_upt del: upt_Suc)
  show ?case
    using Cons.prems
    by (simp only: ingest_chunks.simps i IH Let_def prod.case m list.map map_map o_def take_Suc_Cons concat.simps
          suffix_of_append append_assoc take0 append_Nil2)
qed

lemma window_of_full_stream:
  assumes "concat cs = concat cs'" "0 \<le> n"
  shows "fst (ingest_chunks rx e cs \<lparr>wd_size = n, wd_buffer = []\<rparr>) = fst (ingest_chunks rx e cs' \<lparr>wd_size = n, wd_buffer = []\<rparr>)"
  using assms by (simp add: window_sees_suffixes)

text \<open>The beginning of a chunk longer than the window is never tried.\<close>

lemma long_chunk_start_unseen:
  "\<exists>rx e. should_block (evaluate_rules rx e (''malicious'' @ replicate 3 (CHR ''x'')))
     \<and> \<not> list_ex should_block (snd (ingest_chunks rx e [''malicious'' @ replicate 3 (CHR ''x'')] \<lparr>wd_size = 9, wd_buffer = []\<rparr>))"
  by (rule exI [of _ "\<lambda>p. Some (\<lambda>s. if take 9 s = p then Some p else None)"],
      rule exI [of _ "new_engine [sample_rule ''s'' Jailbreak ''malicious'' FwBlock SevHigh 1] [] default_severity_mapping"])
     (simp add: ingest_chunk_def new_engine_def sample_rule_def evaluate_rules_def numeral_3_eq_3
        raw_hits_def List.map_filter_def evaluate_rule_def match_rule_def rule_search_def should_block_def Let_def)

subsection \<open>Results of the ML model\<close>

text \<open>\<open>FirewallMLModel._parse_output\<close> on a flat vector of probabilities, one per category in order.\<close>

fun parse_output_from :: "fw_category list \<Rightarrow> real list \<Rightarrow> fw_result list" where
  "parse_output_from (c # cs) (p # ps) =
     (let confidence = min 1 (max 0 p)
      in (if 1 / 2 \<le> confidence
          then [\<lparr>dr_category = c, dr_confidence = confidence, dr_rule = None, dr_severity = SevMedium,
                 dr_action = FwFlag, dr_snippet = None\<rparr>] else []) @ parse_output_from cs ps)"
| "parse_output_from cs ps = []"

definition parse_output :: "real list \<Rightarrow> fw_result list" where
  "parse_output ps = parse_output_from all_categories ps"

lemma parse_output_never_blocks: "\<not> should_block (parse_output ps)"
proof -
  have "\<forall>r \<in> set (parse_output_from cs ps). dr_action r = FwFlag" for cs
    by (induction cs ps rule: parse_output_from.induct) (auto simp: Let_def)
  then show ?thesis by (auto simp: parse_output_def should_block_def list_ex_iff)
qed

subsection \<open>Audit events and administration\<close>

definition truncate_snippet :: "nat \<Rightarrow> string option \<Rightarrow> string option" where
  "truncate_snippet n t = map_option (\<lambda>s. if length s \<le> n then s else take n s @ ''...'') t"

record fw_publication =
  fu_type :: string
  fu_timestamp :: string
  fu_tenant :: string
  fu_session :: string
  fu_result :: fw_result

definition publish_injection :: "string \<Rightarrow> string \<Rightarrow> string \<Rightarrow> fw_result \<Rightarrow> fw_publication" where
  "publish_injection now tenant session r =
     \<lparr>fu_type = ''firewall_injection_detected'', fu_timestamp = now, fu_tenant = tenant, fu_session = session,
      fu_result = r\<lparr>dr_snippet := truncate_snippet 50 (dr_snippet r)\<rparr>\<rparr>"

definition publish_outbound_violation :: "string \<Rightarrow> string \<Rightarrow> string \<Rightarrow> fw_result \<Rightarrow> fw_publication" where
  "publish_outbound_violation now tenant session r =
     \<lparr>fu_type = ''firewall_outbound_violation'', fu_timestamp = now, fu_tenant = tenant, fu_session = session,
      fu_result = r\<lparr>dr_snippet := truncate_snippet 50 (dr_snippet r)\<rparr>\<rparr>"

text \<open>The snippets the engine makes are never longer than fifty characters, so the publisher keeps them.\<close>

lemma engine_snippets_kept:
  assumes "evaluate_rule rx e s r = Some h"
  shows "truncate_snippet 50 (dr_snippet h) = dr_snippet h"
proof -
  have "dr_snippet h = make_snippet rx s r"
    using assms by (auto simp: evaluate_rule_def match_rule_def Let_def split: if_splits option.splits)
  then show ?thesis by (auto simp: make_snippet_def truncate_snippet_def split: option.splits)
qed

record rules_listing =
  rl_rules :: "fw_rule list"
  rl_total :: nat
  rl_enabled :: nat

text \<open>\<open>list_firewall_rules\<close>: None for an unknown category, which is answered with 422.\<close>

definition list_firewall_rules :: "fw_loader \<Rightarrow> string option \<Rightarrow> bool option \<Rightarrow> rules_listing option" where
  "list_firewall_rules l category flag =
     (let by_cat = (case category of
              None \<Rightarrow> Some (fl_rules l)
            | Some [] \<Rightarrow> Some (fl_rules l)
            | Some c \<Rightarrow> map_option (\<lambda>k. filter (\<lambda>r. fr_category r = k) (fl_rules l)) (category_of c))
      in map_option (\<lambda>rs. \<lparr>rl_rules = (case flag of None \<Rightarrow> rs | Some b \<Rightarrow> filter (\<lambda>r. fr_enabled r = b) rs),
             rl_total = length (fl_rules l), rl_enabled = length (filter fr_enabled (fl_rules l))\<rparr>) by_cat)"

text \<open>None is answered with 404.\<close>

definition get_firewall_rule :: "fw_loader \<Rightarrow> string \<Rightarrow> fw_rule option" where
  "get_firewall_rule l i = List.find (\<lambda>r. fr_id r = i) (fl_rules l)"

lemma category_of_value: "category_of (category_value c) = Some c"
  by (cases c) (simp_all add: category_of_def all_categories_def)

text \<open>After a load every rule of the file can be fetched by its identifier, in its last version.\<close>

lemma loaded_rule_fetched:
  assumes "load_rules (Some (Inr f)) l = (l', Inr rs)" "r \<in> set rs"
  shows "get_firewall_rule l' (fr_id r) = Some r"
proof -
  from load_rules_result [OF assms(1)] have l': "fl_rules l' = rs" and d: "distinct (map fr_id rs)"
    using keep_last_distinct by auto
  have "List.find (\<lambda>q. fr_id q = fr_id r) rs = Some r"
    using assms(2) d by (induction rs) auto
  then show ?thesis by (simp add: get_firewall_rule_def l')
qed

end
