(* ===== verification/Proxy.thy ===== *)
theory Proxy
  imports FirewallPipeline GatewayRuns
begin

text \<open>
  The network proxies in front of the gateway: traffic and pinning detection
  (\<open>proxy/detection.py\<close>), the modes (\<open>proxy/modes.py\<close>), the transparent proxy with the inline firewall
  (\<open>proxy/transparent_proxy.py\<close>), the adapter to the pipeline (\<open>proxy/pipeline_dispatcher.py\<close>), the
  reverse proxy (\<open>proxy/reverse_proxy.py\<close>) and the PAC file (\<open>proxy/pac.py\<close>). Bytes are characters.
  The TLS interceptor, the decoding of bytes with replacement, \<open>json.loads\<close> and \<open>json.dumps\<close>, and
  \<open>urljoin\<close> are parameters. The locale \<open>proxy_dispatcher\<close> states what the transparent proxy needs of the
  dispatcher behind it; the pipeline adapter is its interpretation.
\<close>

subsection \<open>Modes\<close>

datatype proxy_mode = ProxyOnly | FullMode | Transparent

fun mode_value :: "proxy_mode \<Rightarrow> string" where
  "mode_value ProxyOnly = ''proxy-only''"
| "mode_value FullMode = ''full''"
| "mode_value Transparent = ''transparent''"

definition proxy_only_stages :: "string list" where
  "proxy_only_stages = [''auth'', ''routing'', ''forwarding_guard'', ''audit'']"

definition full_stages :: "string list" where
  "full_stages = [''auth'', ''routing'', ''classification'', ''detection'', ''anonymization'', ''forwarding_guard'',
     ''provider_call'', ''restoration'', ''audit'']"

definition get_pipeline_for_mode :: "proxy_mode \<Rightarrow> string list" where
  "get_pipeline_for_mode m = (if m = ProxyOnly then proxy_only_stages else full_stages)"

definition requires_mitm :: "proxy_mode \<Rightarrow> bool" where
  "requires_mitm m \<longleftrightarrow> m = Transparent"

definition requires_detection :: "proxy_mode \<Rightarrow> bool" where
  "requires_detection m \<longleftrightarrow> m \<noteq> ProxyOnly"

text \<open>None stands for the configuration error; the argument is the variable, None when it is not set.\<close>

definition mode_from_env :: "string option \<Rightarrow> proxy_mode option" where
  "mode_from_env v =
     (let raw = casefold (strip_space (case v of None \<Rightarrow> ''full'' | Some s \<Rightarrow> s))
      in List.find (\<lambda>m. mode_value m = raw) [ProxyOnly, FullMode, Transparent])"

text \<open>The mode decides about detection as the pipeline of the mode says.\<close>

lemma mode_detection_stage: "requires_detection m \<longleftrightarrow> ''detection'' \<in> set (get_pipeline_for_mode m)"
  by (cases m) (simp_all add: requires_detection_def get_pipeline_for_mode_def full_stages_def proxy_only_stages_def)

lemma mode_from_env_value: "mode_from_env (Some (mode_value m)) = Some m"
proof -
  have "mode_from_env (Some ''proxy-only'') = Some ProxyOnly" "mode_from_env (Some ''full'') = Some FullMode"
    "mode_from_env (Some ''transparent'') = Some Transparent" by code_simp+
  then show ?thesis by (cases m) simp_all
qed

subsection \<open>Traffic detection\<close>

definition ai_api_domains :: "string list" where
  "ai_api_domains = [''api.openai.com'', ''api.anthropic.com'', ''generativelanguage.googleapis.com'', ''gemini.google.com'',
     ''api.mistral.ai'', ''api.deepseek.com'', ''api.cohere.ai'', ''api.together.xyz'', ''api.perplexity.ai'', ''localhost'',
     ''127.0.0.1'']"

definition at_start :: rx where
  "at_start = NotBehind (\<lambda>_. True)"

definition ai_api_patterns :: "rx list" where
  "ai_api_patterns =
     [Cat at_start (Cat (lit_ci ''/v1/'') (Cat (alts [lit_ci ''chat/completions'', lit_ci ''completions'', lit_ci ''embeddings'',
        lit_ci ''messages'', lit_ci ''models'']) AtEnd)),
      Cat at_start (Cat (lit_ci ''/v1/'') (alts [lit_ci ''responses'', lit_ci ''assistants'', lit_ci ''threads'', lit_ci ''runs''])),
      Cat at_start (Cat (lit_ci ''/v1beta/models/'') (Cat (Rep (\<lambda>c. c \<noteq> CHR 10) 1 None) (Cat (lit_ci '':'')
        (Cat (alts [lit_ci ''generateContent'', lit_ci ''streamGenerateContent'']) AtEnd)))),
      Cat at_start (Cat (lit_ci ''/api/'') (Cat (alts [lit_ci ''chat'', lit_ci ''generate'', lit_ci ''embeddings'']) AtEnd))]"

datatype traffic_class = TrafficAI | TrafficUnknown | TrafficNonAI

fun traffic_reason :: "traffic_class \<Rightarrow> string" where
  "traffic_reason TrafficAI = ''known_ai_host_and_path''"
| "traffic_reason TrafficUnknown = ''known_ai_host_unknown_path''"
| "traffic_reason TrafficNonAI = ''host_not_in_ai_registry''"

fun traffic_name :: "traffic_class \<Rightarrow> string" where
  "traffic_name TrafficAI = ''ai''"
| "traffic_name TrafficUnknown = ''unknown''"
| "traffic_name TrafficNonAI = ''non_ai''"

definition strip_chars :: "(char \<Rightarrow> bool) \<Rightarrow> string \<Rightarrow> string" where
  "strip_chars p s = rev (dropWhile p (rev (dropWhile p s)))"

definition normalize_host :: "string \<Rightarrow> string" where
  "normalize_host h =
     casefold (strip_chars (\<lambda>c. c = CHR ''.'') (strip_space (takeWhile (\<lambda>c. c \<noteq> CHR '':'') h)))"

record traffic_detector =
  td_domains :: "string list"
  td_patterns :: "rx list"

definition new_traffic_detector :: "string list \<Rightarrow> rx list \<Rightarrow> traffic_detector" where
  "new_traffic_detector domains patterns =
     \<lparr>td_domains = map (\<lambda>d. strip_chars (\<lambda>c. c = CHR ''.'') (casefold d)) (if domains = [] then ai_api_domains else domains),
      td_patterns = (if patterns = [] then ai_api_patterns else patterns)\<rparr>"

definition host_matches :: "traffic_detector \<Rightarrow> string \<Rightarrow> bool" where
  "host_matches d h \<longleftrightarrow>
     (let clean = normalize_host h
      in list_ex (\<lambda>dom. clean = dom \<or> suffix (CHR ''.'' # dom) clean) (td_domains d))"

definition is_ai_traffic :: "traffic_detector \<Rightarrow> string \<Rightarrow> string \<Rightarrow> bool" where
  "is_ai_traffic d h p \<longleftrightarrow>
     host_matches d h \<and> list_ex (\<lambda>r. re_search r (if p = [] then ''/'' else p)) (td_patterns d)"

definition classify_traffic :: "traffic_detector \<Rightarrow> string \<Rightarrow> string \<Rightarrow> traffic_class" where
  "classify_traffic d h p =
     (let clean = normalize_host h
      in if is_ai_traffic d clean p then TrafficAI
         else if host_matches d clean then TrafficUnknown else TrafficNonAI)"

definition pinning_markers :: "string list" where
  "pinning_markers = [''certificate pinning'', ''pin-sha256'', ''public-key-pins'', ''x509_verify_cert_error'',
     ''bad certificate'', ''unknown ca'']"

text \<open>\<open>encode('ascii', 'ignore')\<close> keeps the characters below 128.\<close>

definition ascii_only :: "string \<Rightarrow> string" where
  "ascii_only s = filter (\<lambda>c. (of_char c :: nat) < 128) s"

definition check_pinning :: "string \<Rightarrow> string \<Rightarrow> bool" where
  "check_pinning hello domain =
     (if hello = [] then False
      else (let lowered = casefold hello
            in list_ex (\<lambda>m. sublist m lowered) pinning_markers
               \<or> (domain \<noteq> [] \<and> \<not> sublist (ascii_only (casefold domain)) lowered)))"

text \<open>A host under a known domain is known, and a host with the domain only inside its name is not.\<close>

lemma host_suffix_known:
  "d \<in> set (td_domains t) \<Longrightarrow> normalize_host h = sub @ CHR ''.'' # d \<Longrightarrow> host_matches t h"
  by (auto simp: host_matches_def Let_def list_ex_iff suffix_def)

subsection \<open>The transparent proxy\<close>

record proxy_request =
  pq_method :: string
  pq_host :: string
  pq_path :: string
  pq_headers :: "(string, string) dict"
  pq_body :: string
  pq_hello :: string

record proxy_response =
  ps_status :: nat
  ps_body :: string
  ps_headers :: "(string, string) dict"
  ps_untouched :: bool
  ps_routed :: bool
  ps_class :: string

text \<open>
  What a dispatcher answers: bytes, an exception, or a \<open>BaseException\<close> that no \<open>except Exception\<close>
  catches.
\<close>

datatype dispatch_outcome = DispBody string | DispRaised | DispCancelled

type_synonym 'w dispatcher = "string \<Rightarrow> string \<Rightarrow> string \<Rightarrow> 'w \<Rightarrow> 'w \<times> dispatch_outcome"

text \<open>
  \<open>tp_decode\<close> is \<open>decode('utf-8', errors='replace')\<close>, \<open>tp_cert\<close> tells whether the interceptor has a
  certificate for a host, and \<open>tp_digest\<close> is the digest of the firewall's scorer.
\<close>

record transparent_proxy =
  tp_detector :: traffic_detector
  tp_fail_open :: bool
  tp_cert :: "string \<Rightarrow> bool"
  tp_decode :: "string \<Rightarrow> string"
  tp_digest :: "string \<Rightarrow> nat list"
  tp_elapsed :: real

definition preserve_headers :: "(string, string) dict \<Rightarrow> (string, string) dict" where
  "preserve_headers hs =
     (let preserved = foldl (\<lambda>acc (k, v). AList.update (casefold k) v acc) [] hs
      in foldl (\<lambda>acc name. case map_of acc name of None \<Rightarrow> acc
                 | Some v \<Rightarrow> AList.update name (dict_get hs name v) acc) preserved [''connection'', ''keep-alive'', ''host''])"

definition blocked_response :: "string \<Rightarrow> nat \<Rightarrow> string \<Rightarrow> proxy_response" where
  "blocked_response why status cls =
     \<lparr>ps_status = status, ps_body = ''Blocked by AnonReq transparent proxy: '' @ why,
      ps_headers = [(''connection'', ''close''), (''x-anonreq-block-reason'', why)],
      ps_untouched = False, ps_routed = False, ps_class = cls\<rparr>"

definition forward_untouched_request :: "proxy_request \<Rightarrow> string \<Rightarrow> proxy_response" where
  "forward_untouched_request q why =
     \<lparr>ps_status = 200, ps_body = pq_body q,
      ps_headers = AList.update ''x-anonreq-pass-through-reason'' why (preserve_headers (pq_headers q)),
      ps_untouched = True, ps_routed = False, ps_class = ''non_ai''\<rparr>"

definition evaluate_firewall ::
  "transparent_proxy \<Rightarrow> fw_pipeline option \<Rightarrow> proxy_request \<Rightarrow> fw_pipeline option \<times> proxy_response option" where
  "evaluate_firewall tp fw q =
     (case fw of
        None \<Rightarrow> (None, None)
      | Some p \<Rightarrow>
          (case evaluate_request (tp_digest tp) p (tp_elapsed tp) (tp_decode tp (pq_body q)) of
             (p', _, Inl _) \<Rightarrow>
               (Some p', Some \<lparr>ps_status = 500, ps_body = ''Security firewall failed closed.'',
                  ps_headers = [(''connection'', ''close''), (''x-anonreq-block-reason'', ''firewall_error'')],
                  ps_untouched = False, ps_routed = False, ps_class = ''unknown''\<rparr>)
           | (p', _, Inr d) \<Rightarrow>
               (Some p', if fd_action d = VBlock
                  then Some \<lparr>ps_status = 403, ps_body = ''Security policy violation. Request blocked.'',
                     ps_headers = [(''connection'', ''close''), (''x-anonreq-block-reason'', ''ai_firewall''),
                                   (''x-anonreq-mitre-atlas-id'', case fd_mitre d of None \<Rightarrow> [] | Some m \<Rightarrow> m)],
                     ps_untouched = False, ps_routed = False,
                     ps_class = (case fd_type d of None \<Rightarrow> ''ai_firewall'' | Some ty \<Rightarrow> ty)\<rparr>
                  else None)))"

definition route_to_dispatcher ::
  "'w dispatcher \<Rightarrow> proxy_request \<Rightarrow> string \<Rightarrow> 'w \<Rightarrow> 'w \<times> (proxy_response, dispatch_outcome) sum" where
  "route_to_dispatcher disp q cls w =
     (let headers = preserve_headers (pq_headers q)
      in case disp (dict_get headers ''content-type'' ''application/json'') (pq_body q) (pq_host q) w of
           (w', DispBody b) \<Rightarrow> (w', Inl \<lparr>ps_status = 200, ps_body = b, ps_headers = headers, ps_untouched = False,
               ps_routed = True, ps_class = cls\<rparr>)
         | (w', o') \<Rightarrow> (w', Inr o'))"

definition interception_error :: "string \<Rightarrow> proxy_response" where
  "interception_error cls = \<lparr>ps_status = 500, ps_body = ''Transparent proxy failed closed.'',
     ps_headers = [(''connection'', ''close''), (''x-anonreq-block-reason'', ''interception_error'')],
     ps_untouched = False, ps_routed = False, ps_class = cls\<rparr>"

text \<open>\<open>handle_request\<close>; None when a \<open>BaseException\<close> ends it.\<close>

definition handle_request ::
  "transparent_proxy \<Rightarrow> 'w dispatcher \<Rightarrow> fw_pipeline option \<Rightarrow> proxy_request \<Rightarrow> 'w
     \<Rightarrow> fw_pipeline option \<times> 'w \<times> proxy_response option" where
  "handle_request tp disp fw q w =
     (case evaluate_firewall tp fw q of
        (fw', Some r) \<Rightarrow> (fw', w, Some r)
      | (fw', None) \<Rightarrow>
          if check_pinning (pq_hello q) (pq_host q)
          then (fw', w, Some (if \<not> tp_fail_open tp then blocked_response ''certificate_pinning_detected'' 451 ''unknown''
                              else forward_untouched_request q ''certificate_pinning''))
          else (let cls = classify_traffic (tp_detector tp) (pq_host q) (pq_path q)
                in if cls \<noteq> TrafficAI
                   then (fw', w, Some (if tp_fail_open tp then forward_untouched_request q (traffic_reason cls)
                                       else blocked_response (traffic_reason cls) 451 (traffic_name cls)))
                   else if \<not> tp_cert tp (pq_host q) then (fw', w, Some (interception_error (traffic_name cls)))
                   else (case route_to_dispatcher disp q (traffic_name cls) w of
                           (w', Inl r) \<Rightarrow> (fw', w', Some r)
                         | (w', Inr DispCancelled) \<Rightarrow> (fw', w', None)
                         | (w', Inr _) \<Rightarrow> (fw', w', Some (interception_error (traffic_name cls))))))"

subsection \<open>Connections\<close>

definition line_break :: "char \<Rightarrow> bool" where
  "line_break c \<longleftrightarrow> (let n = (of_char c :: nat) in n = 10 \<or> n = 11 \<or> n = 12 \<or> n = 13 \<or> n = 28 \<or> n = 29 \<or> n = 30 \<or> n = 133)"

text \<open>\<open>str.splitlines\<close> on the code points below 256; \<open>run\<close> is the line so far.\<close>

fun splitlines_from :: "string \<Rightarrow> string \<Rightarrow> string list" where
  "splitlines_from run [] = (if run = [] then [] else [run])"
| "splitlines_from run [c] = [if line_break c then run else run @ [c]]"
| "splitlines_from run (c # d # cs) =
     (if c = CHR 13 \<and> d = CHR 10 then run # splitlines_from [] cs
      else if line_break c then run # splitlines_from [] (d # cs)
      else splitlines_from (run @ [c]) (d # cs))"

definition splitlines :: "string \<Rightarrow> string list" where
  "splitlines s = splitlines_from [] s"

text \<open>\<open>str.split(sep, n)\<close>.\<close>

fun split_max :: "char \<Rightarrow> nat \<Rightarrow> string \<Rightarrow> string list" where
  "split_max d 0 s = [s]"
| "split_max d (Suc n) s =
     (let a = takeWhile (\<lambda>c. c \<noteq> d) s
      in if length a = length s then [s] else a # split_max d n (drop (length a + 1) s))"

text \<open>\<open>bytes.partition(b'\r\n\r\n')\<close>: what stands before and after the first blank line.\<close>

fun partition_head :: "string \<Rightarrow> string \<times> string" where
  "partition_head [] = ([], [])"
| "partition_head (c # cs) =
     (if take 4 (c # cs) = [CHR 13, CHR 10, CHR 13, CHR 10] then ([], drop 3 cs)
      else (let (h, b) = partition_head cs in (c # h, b)))"

fun header_lines :: "string list \<Rightarrow> (string, string) dict \<Rightarrow> (string, string) dict" where
  "header_lines [] hs = hs"
| "header_lines (l # ls) hs =
     header_lines ls
       (case split_max (CHR '':'') 1 l of
          [k, v] \<Rightarrow> AList.update (casefold (strip_space k)) (strip_space v) hs
        | _ \<Rightarrow> hs)"

text \<open>None for the \<open>IndexError\<close> of an empty head.\<close>

definition parse_http_request :: "string \<Rightarrow> proxy_request option" where
  "parse_http_request bytes =
     (let (head, body) = partition_head bytes
      in case splitlines head of
           [] \<Rightarrow> None
         | l # ls \<Rightarrow>
             (let ws = split_max (CHR '' '') 2 l @ [[], []]; hs = header_lines ls []; p = ws ! 1
              in Some \<lparr>pq_method = ws ! 0, pq_host = dict_get hs ''host'' [], pq_path = (if p = [] then ''/'' else p),
                       pq_headers = hs, pq_body = body, pq_hello = take 512 bytes\<rparr>))"

definition status_reason :: "nat \<Rightarrow> string" where
  "status_reason n = (if n = 403 then ''Forbidden'' else if n = 451 then ''Unavailable For Legal Reasons''
     else if n = 500 then ''Internal Server Error'' else ''OK'')"

definition http_crlf :: string where
  "http_crlf = [CHR 13, CHR 10]"

definition response_headers :: "proxy_response \<Rightarrow> (string, string) dict" where
  "response_headers r = dict_update [(''content-length'', dec (length (ps_body r)))] (ps_headers r)"

text \<open>None for the \<open>UnicodeEncodeError\<close> of a header outside ASCII.\<close>

definition serialize_response :: "proxy_response \<Rightarrow> string option" where
  "serialize_response r =
     (let blob = ''HTTP/1.1 '' @ dec (ps_status r) @ '' '' @ status_reason (ps_status r) @ http_crlf
                 @ concat (map (\<lambda>(k, v). k @ '': '' @ v @ http_crlf) (response_headers r)) @ http_crlf
      in if list_all (\<lambda>c. (of_char c :: nat) < 128) blob then Some (blob @ ps_body r) else None)"

definition plain_500 :: string where
  "plain_500 = ''HTTP/1.1 500 Internal Server Error'' @ http_crlf @ ''Connection: close'' @ http_crlf @ http_crlf"

text \<open>
  \<open>_handle_connection\<close>: one read of at most 65536 bytes, one answer. \<open>rd\<close> is None when the read fails
  or times out; the answer is None when a \<open>BaseException\<close> passes.
\<close>

definition handle_connection ::
  "transparent_proxy \<Rightarrow> 'w dispatcher \<Rightarrow> fw_pipeline option \<Rightarrow> string option \<Rightarrow> 'w
     \<Rightarrow> fw_pipeline option \<times> 'w \<times> string option" where
  "handle_connection tp disp fw rd w =
     (case rd of
        None \<Rightarrow> (fw, w, Some plain_500)
      | Some bytes \<Rightarrow>
          (case parse_http_request (take 65536 bytes) of
             None \<Rightarrow> (fw, w, Some plain_500)
           | Some q \<Rightarrow>
               (case handle_request tp disp fw q w of
                  (fw', w', None) \<Rightarrow> (fw', w', None)
                | (fw', w', Some r) \<Rightarrow>
                    (fw', w', Some (case serialize_response r of None \<Rightarrow> plain_500 | Some b \<Rightarrow> b)))))"

subsection \<open>The adapter to the pipeline\<close>

definition fail_closed_body :: string where
  "fail_closed_body = [CHR 123] @ [CHR 34] @ ''error'' @ [CHR 34] @ '': '' @ [CHR 123] @ [CHR 34] @ ''message'' @ [CHR 34] @ '': '' @ [CHR 34]
     @ ''Request blocked by AnonReq security gateway'' @ [CHR 34] @ '', '' @ [CHR 34] @ ''type'' @ [CHR 34] @ '': '' @ [CHR 34]
     @ ''fail_closed'' @ [CHR 34, CHR 125, CHR 125]"

definition unsupported_media_body :: string where
  "unsupported_media_body = [CHR 123] @ [CHR 34] @ ''error'' @ [CHR 34] @ '': '' @ [CHR 123] @ [CHR 34] @ ''message'' @ [CHR 34] @ '': '' @ [CHR 34]
     @ ''Unsupported Content-Type'' @ [CHR 34] @ '', '' @ [CHR 34] @ ''type'' @ [CHR 34] @ '': '' @ [CHR 34]
     @ ''unsupported_media_type'' @ [CHR 34, CHR 125, CHR 125]"

text \<open>
  \<open>dv_loads\<close> and \<open>dv_dumps\<close> are the JSON functions (None for their exceptions), \<open>dv_request\<close> and
  \<open>dv_context\<close> the generated identifiers, \<open>dv_locale\<close> the attribute of the application state, and
  \<open>dv_language\<close> the body for a language that is not supported.
\<close>

record dispatch_env =
  dv_loads :: "string \<Rightarrow> json option"
  dv_dumps :: "json \<Rightarrow> string option"
  dv_request :: string
  dv_context :: string
  dv_locale :: "string option"
  dv_language :: "string \<Rightarrow> string"

definition dispatch_request :: "dispatch_env \<Rightarrow> (string \<times> json) list \<Rightarrow> processing_context" where
  "dispatch_request ev body =
     (new_processing_context (dv_request ev) ''default'')
       \<lparr>context_id := Some (dv_context ev), original_request := Some body, text_nodes := Some (extract_text body),
        locale_header := (case dv_locale ev of None \<Rightarrow> None | Some [] \<Rightarrow> None | Some l \<Rightarrow> Some l)\<rparr>"

definition dispatch_answer :: "dispatch_env \<Rightarrow> processing_context \<Rightarrow> string" where
  "dispatch_answer ev c =
     (if has_errors c
      then (case last (errors c) of PresidioLanguageUnsupportedError l \<Rightarrow> dv_language ev l | _ \<Rightarrow> fail_closed_body)
      else (case restored_response c of
              Some r \<Rightarrow> (case dv_dumps ev r of None \<Rightarrow> fail_closed_body | Some b \<Rightarrow> b)
            | None \<Rightarrow>
                (case provider_response c of
                   Some r \<Rightarrow> (case dv_dumps ev r of None \<Rightarrow> fail_closed_body | Some b \<Rightarrow> b)
                 | None \<Rightarrow> fail_closed_body)))"

definition pipeline_dispatch :: "dispatch_env \<Rightarrow> gateway \<Rightarrow> app_state option \<Rightarrow> world dispatcher" where
  "pipeline_dispatch ev gw app content_type bytes host w =
     (if \<not> prefix ''application/json'' content_type \<or> bytes = [] then (w, DispBody unsupported_media_body)
      else (case dv_loads ev bytes of
              Some (JObj body) \<Rightarrow>
                (case run_pipeline (build_pipeline gw app) (dispatch_request ev body, w) of
                   ((c, w'), _, raised) \<Rightarrow> (w', if raised then DispCancelled else DispBody (dispatch_answer ev c)))
            | _ \<Rightarrow> (w, DispBody fail_closed_body)))"

subsection \<open>What a proxy needs of its dispatcher\<close>

text \<open>
  A dispatcher sends at most one thing onward for a request, and only what is safe for it. \<open>sent\<close> lists
  what has left, \<open>safe\<close> relates the state, the bytes of the request and what is sent.
\<close>

locale proxy_dispatcher =
  fixes disp :: "'w dispatcher" and sent :: "'w \<Rightarrow> 'a list" and safe :: "'w \<Rightarrow> string \<Rightarrow> 'a \<Rightarrow> bool"
  assumes sends_safe: "disp ct bytes host w = (w', out) \<Longrightarrow>
      sent w' = sent w \<or> (\<exists>x. sent w' = sent w @ [x] \<and> safe w bytes x)"
begin

lemma handled_sends_safe:
  assumes "handle_request tp disp fw q w = (fw', w', r)"
  shows "sent w' = sent w
     \<or> snd (evaluate_firewall tp fw q) = None \<and> \<not> check_pinning (pq_hello q) (pq_host q)
       \<and> classify_traffic (tp_detector tp) (pq_host q) (pq_path q) = TrafficAI \<and> tp_cert tp (pq_host q)
       \<and> (\<exists>x. sent w' = sent w @ [x] \<and> safe w (pq_body q) x)"
proof (cases "sent w' = sent w")
  case False
  obtain f o' where f: "evaluate_firewall tp fw q = (f, o')" by fastforce
  have "w' \<noteq> w" using False by auto
  with assms f have o': "o' = None" and pin: "\<not> check_pinning (pq_hello q) (pq_host q)"
    and ai: "classify_traffic (tp_detector tp) (pq_host q) (pq_path q) = TrafficAI" and cert: "tp_cert tp (pq_host q)"
    by (auto simp: handle_request_def Let_def split: option.splits if_splits)
  obtain out where "disp (dict_get (preserve_headers (pq_headers q)) ''content-type'' ''application/json'')
      (pq_body q) (pq_host q) w = (w', out)"
    using assms f o' pin ai cert
    by (auto simp: handle_request_def route_to_dispatcher_def Let_def split: prod.splits dispatch_outcome.splits)
  from sends_safe [OF this] False o' pin ai cert f show ?thesis by auto
qed simp

lemma connection_sends_safe:
  assumes "handle_connection tp disp fw rd w = (fw', w', r)"
  shows "sent w' = sent w
     \<or> (\<exists>bytes q. rd = Some bytes \<and> parse_http_request (take 65536 bytes) = Some q
          \<and> snd (evaluate_firewall tp fw q) = None \<and> \<not> check_pinning (pq_hello q) (pq_host q)
          \<and> classify_traffic (tp_detector tp) (pq_host q) (pq_path q) = TrafficAI \<and> tp_cert tp (pq_host q)
          \<and> (\<exists>x. sent w' = sent w @ [x] \<and> safe w (pq_body q) x))"
proof (cases "sent w' = sent w")
  case False
  then have "w' \<noteq> w" by auto
  with assms obtain bytes q f r' where q: "rd = Some bytes" "parse_http_request (take 65536 bytes) = Some q"
      and h: "handle_request tp disp fw q w = (f, w', r')"
    by (auto simp: handle_connection_def split: option.splits prod.splits)
  from handled_sends_safe [OF h] False q show ?thesis by blast
qed simp

text \<open>Whatever is answered without the dispatcher leaves the world as it is.\<close>

lemma refusals_touched:
  "evaluate_firewall tp fw q = (fw', Some r) \<Longrightarrow> \<not> ps_untouched r" "\<not> ps_untouched (blocked_response why n cls)"
  "\<not> ps_untouched (interception_error cls)"
  by (auto simp: evaluate_firewall_def blocked_response_def interception_error_def split: option.splits sum.splits prod.splits if_splits)

lemma routed_touched: "route_to_dispatcher disp q cls w = (w', Inl r) \<Longrightarrow> \<not> ps_untouched r"
  by (auto simp: route_to_dispatcher_def Let_def split: prod.splits dispatch_outcome.splits)

lemma unrouted_sends_nothing:
  assumes "handle_request tp disp fw q w = (fw', w', Some r)" "ps_untouched r"
  shows "w' = w \<and> tp_fail_open tp"
proof -
  obtain fw1 a where f: "evaluate_firewall tp fw q = (fw1, a)" by fastforce
  obtain w1 o1 where o: "route_to_dispatcher disp q (traffic_name (classify_traffic (tp_detector tp) (pq_host q) (pq_path q))) w = (w1, o1)"
    by fastforce
  show ?thesis
  proof (cases a)
    case (Some r')
    then show ?thesis using assms f refusals_touched(1) by (auto simp: handle_request_def)
  next
    case None
    then show ?thesis using assms f o refusals_touched routed_touched
      by (cases o1) (auto simp: handle_request_def Let_def split: if_split_asm dispatch_outcome.splits)
  qed
qed

end

text \<open>
  What is safe to post for the bytes of a request: the tokenized body of exactly that document, with the
  detections found on it, when the gates admit it. The dispatcher sets neither model nor client level.
\<close>

definition dispatch_info :: "dispatch_env \<Rightarrow> (string \<times> json) list \<Rightarrow> request_info" where
  "dispatch_info ev body =
     \<lparr>ri_request_id = dv_request ev, ri_tenant = ''default'', ri_context_id = dv_context ev, ri_body = body, ri_model = [],
      ri_locale = dv_locale ev, ri_client_level = None, ri_audit_chain = False, ri_presets = []\<rparr>"

definition safe_post :: "dispatch_env \<Rightarrow> gateway \<Rightarrow> app_state option \<Rightarrow> world \<Rightarrow> string \<Rightarrow> (string \<times> json) list \<Rightarrow> bool" where
  "safe_post ev gw app w bytes posted_body \<longleftrightarrow>
     (\<exists>body ds. dv_loads ev bytes = Some (JObj body) \<and> request_detections gw (dispatch_request ev body, w) = Some ds
        \<and> safe_body gw app (dispatch_info ev body) None ds w posted_body)"

lemma dispatch_request_fields:
  "intake (dispatch_info ev body) (dispatch_request ev body)" "model (dispatch_request ev body) = None"
  "provider (dispatch_request ev body) = None" "map_of (audit_metadata (dispatch_request ev body)) ''delegation_id'' = None"
  by (simp_all add: intake_def dispatch_info_def dispatch_request_def new_processing_context_def)

interpretation pipe: proxy_dispatcher "pipeline_dispatch ev gw app" posted "safe_post ev gw app" for ev gw app
proof
  fix ct bytes host w w' out
  assume d: "pipeline_dispatch ev gw app ct bytes host w = (w', out)"
  show "posted w' = posted w \<or> (\<exists>x. posted w' = posted w @ [x] \<and> safe_post ev gw app w bytes x)"
  proof (cases "w' = w")
    case False
    with d obtain body c ex r where l: "dv_loads ev bytes = Some (JObj body)"
      and run: "run_pipeline (build_pipeline gw app) (dispatch_request ev body, w) = ((c, w'), ex, r)"
      by (auto simp: pipeline_dispatch_def split: if_splits option.splits json.splits prod.splits)
    from gateway_run_posted_from [OF run dispatch_request_fields(1,3,4)] l show ?thesis
      unfolding dispatch_request_fields(2) safe_post_def by auto
  qed simp
qed

subsection \<open>The proxied request, end to end\<close>

definition firewall_cleared :: "transparent_proxy \<Rightarrow> fw_pipeline option \<Rightarrow> proxy_request \<Rightarrow> bool" where
  "firewall_cleared tp fw q \<longleftrightarrow>
     (case fw of None \<Rightarrow> True
      | Some p \<Rightarrow> (\<exists>d. firewall_verdict (tp_digest tp) p (tp_elapsed tp) (tp_decode tp (pq_body q)) = Inr d \<and> fd_action d = VAllow))"

lemma firewall_cleared_iff: "snd (evaluate_firewall tp fw q) = None \<longleftrightarrow> firewall_cleared tp fw q"
proof (cases fw)
  case (Some p)
  obtain p' fx r where "evaluate_request (tp_digest tp) p (tp_elapsed tp) (tp_decode tp (pq_body q)) = (p', fx, r)"
    by (metis prod_cases3)
  then show ?thesis
    by (cases r) (auto simp: Some evaluate_firewall_def firewall_cleared_def firewall_verdict_def intro: fw_verdict.exhaust)
qed (simp add: evaluate_firewall_def firewall_cleared_def)

text \<open>C26. What leaves through the transparent proxy. For one connection, whatever bytes arrive, at most one
  request is posted to the provider; then the firewall allowed the body, no sign of certificate pinning
  was seen, host and path are those of a known AI interface, and the posted body is the tokenized body
  of exactly the document that arrived: written from the tokens of one session for the detections found
  on it, after every gate of the pipeline admitted it (\<open>safe_body\<close>); what is no text node stays as it came.
\<close>

theorem proxy_posts_tokenized:
  "(let w' = fst (snd (handle_connection tp (pipeline_dispatch ev gw app) fw rd w))
    in posted w' = posted w
       \<or> (\<exists>bytes q body. rd = Some bytes \<and> parse_http_request (take 65536 bytes) = Some q
            \<and> firewall_cleared tp fw q \<and> \<not> check_pinning (pq_hello q) (pq_host q)
            \<and> classify_traffic (tp_detector tp) (pq_host q) (pq_path q) = TrafficAI
            \<and> posted w' = posted w @ [body]
            \<and> (\<exists>doc ds. dv_loads ev (pq_body q) = Some (JObj doc) \<and> request_detections gw (dispatch_request ev doc, w) = Some ds
                 \<and> safe_body gw app (dispatch_info ev doc) None ds w body)))"
proof -
  obtain fw' w' r where h: "handle_connection tp (pipeline_dispatch ev gw app) fw rd w = (fw', w', r)" by (metis prod_cases3)
  from pipe.connection_sends_safe [OF h] show ?thesis unfolding h Let_def firewall_cleared_iff safe_post_def by auto
qed

text \<open>
  A request that the firewall does not clear is answered by the proxy itself, with 403 or 500, and
  changes nothing; without the option to fail open no request is passed on untouched.
\<close>

lemma uncleared_refused:
  assumes "\<not> firewall_cleared tp fw q" "handle_request tp disp fw q w = (fw', w', r)"
  shows "w' = w \<and> (\<exists>a. r = Some a \<and> ps_status a \<in> {403, 500} \<and> \<not> ps_routed a \<and> \<not> ps_untouched a)"
proof -
  obtain f o' where f: "evaluate_firewall tp fw q = (f, o')" by fastforce
  with assms(1) firewall_cleared_iff [of tp fw q] obtain a where a: "o' = Some a" by auto
  then have "ps_status a \<in> {403, 500} \<and> \<not> ps_routed a \<and> \<not> ps_untouched a"
    using f by (auto simp: evaluate_firewall_def split: option.splits prod.splits sum.splits if_splits)
  with a f assms(2) show ?thesis by (auto simp: handle_request_def)
qed

lemma closed_proxy_never_untouched:
  assumes "\<not> tp_fail_open tp" "handle_request tp (pipeline_dispatch ev gw app) fw q w = (fw', w', Some r)"
  shows "\<not> ps_untouched r"
  using pipe.unrouted_sends_nothing [OF assms(2)] assms(1) by blast

text \<open>Attacks stop at the proxy. With the default firewall, a request whose decoded body holds the word
  jailbreak or DAN on its own, in any case, is refused with 403 or 500 by the proxy itself: the
  dispatcher is not called and nothing is posted, whatever else the request is.
\<close>

theorem proxy_refuses_jailbreak:
  assumes "tp_decode tp (pq_body q) = a @ k @ z" "casefold k \<in> {''dan'', ''jailbreak''}" "alone a z"
    and "pl_config p = default_fw_config"
  shows "(case handle_request tp disp (Some p) q w of
      (_, w', r) \<Rightarrow> w' = w \<and> (\<exists>x. r = Some x \<and> ps_status x \<in> {403, 500} \<and> \<not> ps_routed x \<and> \<not> ps_untouched x))"
proof -
  obtain fw' w' r where h: "handle_request tp disp (Some p) q w = (fw', w', r)" by (metis prod_cases3)
  have "firewall_verdict (tp_digest tp) p (tp_elapsed tp) (a @ k @ z) = Inl (OtherExn ''FirewallEvaluationError'')
     \<or> (\<exists>d. firewall_verdict (tp_digest tp) p (tp_elapsed tp) (a @ k @ z) = Inr d \<and> fd_action d = VBlock)"
    using assms(2-4) by (intro jailbreak_word_stopped) (simp_all add: default_fw_config_def)
  then have "\<not> firewall_cleared tp (Some p) q"
    using assms(1) by (auto simp: firewall_cleared_def)
  from uncleared_refused [OF this h] h show ?thesis by simp
qed

definition sample_proxy :: transparent_proxy where
  "sample_proxy = \<lparr>tp_detector = new_traffic_detector [] [], tp_fail_open = True, tp_cert = (\<lambda>h. True), tp_decode = (\<lambda>b. b),
     tp_digest = (\<lambda>t. []), tp_elapsed = 0\<rparr>"

definition sample_attack :: proxy_request where
  "sample_attack = \<lparr>pq_method = ''POST'', pq_host = ''intranet'', pq_path = ''/'', pq_headers = [],
     pq_body = ''hi '' @ ''DAN'' @ ''!'', pq_hello = []\<rparr>"

lemma proxy_refuses_jailbreak_witness:
  "(case handle_request sample_proxy (\<lambda>ct b h w. (w + 1, DispBody b)) (Some plain_pipeline) sample_attack (0 :: nat) of
      (_, w', r) \<Rightarrow> w' = 0 \<and> (\<exists>x. r = Some x \<and> ps_status x \<in> {403, 500} \<and> \<not> ps_routed x \<and> \<not> ps_untouched x))"
proof (rule proxy_refuses_jailbreak)
  show "tp_decode sample_proxy (pq_body sample_attack) = ''hi '' @ ''DAN'' @ ''!''"
    by (simp add: sample_proxy_def sample_attack_def)
  show "casefold ''DAN'' \<in> {''dan'', ''jailbreak''}" by (simp only: dan_folds insert_iff simp_thms)
  show "alone ''hi '' ''!''" by code_simp
qed (simp add: plain_pipeline_def new_fw_pipeline_def)

subsection \<open>What the client is told\<close>

text \<open>
  A routed answer carries the headers of the request, and they replace the computed ones: the length the
  client is told is the length of its own request, not of the body it receives.
\<close>

lemma answer_length_of_request:
  assumes "distinct (map fst (ps_headers r))" "map_of (ps_headers r) ''content-length'' = Some v"
  shows "map_of (response_headers r) ''content-length'' = Some v"
  using assms by (simp add: response_headers_def map_of_dict_update)

lemma routed_answer_wrong_length:
  "\<exists>q r. handle_request sample_proxy (\<lambda>ct b h w. (w, DispBody ''ok'')) None q (0 :: nat) = (None, 0, Some r)
     \<and> ps_body r = ''ok'' \<and> map_of (response_headers r) ''content-length'' = Some ''99''"
proof -
  define q :: proxy_request where "q = \<lparr>pq_method = ''POST'', pq_host = ''localhost'', pq_path = ''/api/chat'',
    pq_headers = [(''content-length'', ''99'')], pq_body = [], pq_hello = []\<rparr>"
  have c: "classify_traffic (tp_detector sample_proxy) ''localhost'' ''/api/chat'' = TrafficAI" by code_simp
  have hd: "preserve_headers [(''content-length'', ''99'')] = [(''content-length'', ''99'')]" by (simp add: preserve_headers_def lower_def is_upper_def)
  have "handle_request sample_proxy (\<lambda>ct b h w. (w, DispBody ''ok'')) None q (0 :: nat) = (None, 0, Some
      \<lparr>ps_status = 200, ps_body = ''ok'', ps_headers = [(''content-length'', ''99'')], ps_untouched = False, ps_routed = True,
       ps_class = ''ai''\<rparr>)"
    using c by (simp add: handle_request_def evaluate_firewall_def q_def check_pinning_def route_to_dispatcher_def hd sample_proxy_def)
  moreover have "map_of (response_headers \<lparr>ps_status = 200, ps_body = ''ok'', ps_headers = [(''content-length'', ''99'')],
       ps_untouched = False, ps_routed = True, ps_class = ''ai''\<rparr>) ''content-length'' = Some ''99''"
    by (rule answer_length_of_request) simp_all
  ultimately show ?thesis by (intro exI conjI) (assumption | simp)+
qed

text \<open>An error of the pipeline reaches the client as a body under the status 200.\<close>

lemma pipeline_error_answers_200:
  assumes "dv_loads ev (pq_body q) = None" "pq_body q \<noteq> []" "prefix ''application/json'' (dict_get (preserve_headers (pq_headers q)) ''content-type'' ''application/json'')"
  shows "route_to_dispatcher (pipeline_dispatch ev gw app) q cls w =
     (w, Inl \<lparr>ps_status = 200, ps_body = fail_closed_body, ps_headers = preserve_headers (pq_headers q), ps_untouched = False,
        ps_routed = True, ps_class = cls\<rparr>)"
  using assms by (simp add: route_to_dispatcher_def pipeline_dispatch_def)

text \<open>
  The first bytes of the HTTP request stand in for the TLS hello: a request that mentions a marker, in
  a header or at the start of its body, counts as pinned.
\<close>

lemma body_text_counts_as_pinning:
  "\<exists>bytes q. parse_http_request bytes = Some q \<and> pq_host q = ''localhost'' \<and> pq_body q = ''unknown ca'' \<and> check_pinning (pq_hello q) (pq_host q)"
proof -
  define bytes where "bytes = ''GET / HTTP/1.1'' @ http_crlf @ ''Host: localhost'' @ http_crlf @ http_crlf @ ''unknown ca''"
  have "(case parse_http_request bytes of None \<Rightarrow> False
     | Some q \<Rightarrow> pq_host q = ''localhost'' \<and> pq_body q = ''unknown ca'' \<and> check_pinning (pq_hello q) (pq_host q))"
    unfolding bytes_def by code_simp
  then show ?thesis by (auto split: option.splits)
qed

end
