(* ===== verification/ProxyConfig.thy ===== *)
theory ProxyConfig
  imports Proxy
begin

text \<open>
  The other proxy front ends: the reverse proxy (\<open>proxy/reverse_proxy.py\<close>), the CONNECT handler
  (\<open>proxy/mitm_handler.py\<close>) and the generator of PAC files with its administration
  (\<open>proxy/pac.py\<close>). \<open>urljoin\<close> and the hash of the generator's state are parameters. The abstract
  specification of a PAC file is the list of its routes in order; the text is proved to be the rendering
  of that list, cached or not.
\<close>

subsection \<open>Reverse proxy\<close>

record reverse_request =
  rq_method :: string
  rq_path :: string
  rq_headers :: "(string, string) dict"
  rq_body :: string

record reverse_response =
  rr_status :: nat
  rr_body :: string
  rr_headers :: "(string, string) dict"
  rr_tunnel :: bool
  rr_upstream :: "string option"

definition preserve_metadata :: "(string, string) dict \<Rightarrow> (string, string) dict" where
  "preserve_metadata hs = foldl (\<lambda>acc (k, v). AList.update (casefold k) v acc) [] hs"

definition rewrite_url :: "(string \<Rightarrow> string \<Rightarrow> string) \<Rightarrow> string \<Rightarrow> string \<Rightarrow> string" where
  "rewrite_url urljoin base p = urljoin (base @ ''/'') (dropWhile (\<lambda>c. c = CHR ''/'') p)"

definition handle_reverse_connect :: "reverse_request \<Rightarrow> reverse_response" where
  "handle_reverse_connect q =
     (let target = (if rq_path q = [] then dict_get (rq_headers q) ''host'' [] else rq_path q)
      in \<lparr>rr_status = 200, rr_body = [], rr_headers = [(''connection'', ''keep-alive''), (''x-anonreq-connect-target'', target)],
          rr_tunnel = True, rr_upstream = Some (''https://'' @ target)\<rparr>)"

text \<open>None when the dispatcher raises; the base address has no slash at its end.\<close>

definition handle_reverse ::
  "(string \<Rightarrow> string \<Rightarrow> string) \<Rightarrow> string \<Rightarrow> 'w dispatcher \<Rightarrow> reverse_request \<Rightarrow> 'w \<Rightarrow> 'w \<times> reverse_response option" where
  "handle_reverse urljoin base disp q w =
     (if upper (rq_method q) = ''CONNECT'' then (w, Some (handle_reverse_connect q))
      else (let headers = preserve_metadata (rq_headers q)
            in case disp (dict_get headers ''content-type'' ''application/json'') (rq_body q) (rq_path q) w of
                 (w', DispBody b) \<Rightarrow> (w', Some \<lparr>rr_status = 200, rr_body = b, rr_headers = headers, rr_tunnel = False,
                     rr_upstream = Some (rewrite_url urljoin base (rq_path q))\<rparr>)
               | (w', _) \<Rightarrow> (w', None)))"

text \<open>The reverse proxy has the same guarantee as the transparent one, from the same contract.\<close>

context proxy_dispatcher begin

lemma reverse_sends_safe:
  assumes "handle_reverse urljoin base disp q w = (w', r)"
  shows "sent w' = sent w \<or> (\<exists>x. sent w' = sent w @ [x] \<and> safe w (rq_body q) x)"
proof (cases "upper (rq_method q) = ''CONNECT''")
  case False
  obtain out where "disp (dict_get (preserve_metadata (rq_headers q)) ''content-type'' ''application/json'') (rq_body q) (rq_path q) w
      = (w', out)"
    using assms False by (auto simp: handle_reverse_def Let_def split: prod.splits dispatch_outcome.splits)
  then show ?thesis by (rule sends_safe)
qed (use assms in \<open>simp add: handle_reverse_def\<close>)

end

text \<open>A CONNECT request is answered with an open tunnel to any target, without the dispatcher.\<close>

lemma connect_opens_tunnel:
  "upper (rq_method q) = ''CONNECT'' \<Longrightarrow> rq_path q \<noteq> [] \<Longrightarrow>
     handle_reverse urljoin base disp q w =
       (w, Some \<lparr>rr_status = 200, rr_body = [], rr_headers = [(''connection'', ''keep-alive''), (''x-anonreq-connect-target'', rq_path q)],
          rr_tunnel = True, rr_upstream = Some (''https://'' @ rq_path q)\<rparr>)"
  by (simp add: handle_reverse_def handle_reverse_connect_def Let_def)

lemma pipeline_reverse_safe:
  "handle_reverse urljoin base (pipeline_dispatch ev gw app) q w = (w', r) \<Longrightarrow>
     posted w' = posted w \<or> (\<exists>x. posted w' = posted w @ [x] \<and> safe_post ev gw app w (rq_body q) x)"
  by (rule pipe.reverse_sends_safe)

subsection \<open>The CONNECT handler\<close>

record mitm_handler =
  mh_active :: "nat set"
  mh_counter :: nat

datatype connect_answer = BadTarget | PinnedClient | TunnelEstablished nat

text \<open>\<open>pinned\<close> is the answer of the interceptor for a client certificate that is present.\<close>

definition establish_tls_tunnel :: "mitm_handler \<Rightarrow> mitm_handler \<times> connect_answer" where
  "establish_tls_tunnel h =
     (let tid = mh_counter h; h1 = h\<lparr>mh_counter := tid + 1, mh_active := insert tid (mh_active h)\<rparr>
      in (h1\<lparr>mh_active := mh_active h1 - {tid}\<rparr>, TunnelEstablished tid))"

definition handle_connect :: "mitm_handler \<Rightarrow> string \<Rightarrow> bool option \<Rightarrow> mitm_handler \<times> connect_answer" where
  "handle_connect h target pinned =
     (if target = [] then (h, BadTarget)
      else if pinned = Some True then (h, PinnedClient)
      else establish_tls_tunnel h)"

text \<open>No tunnel outlives its request: the set of active tunnels is empty after any sequence of requests.\<close>

lemma no_tunnel_stays: "mh_active h = {} \<Longrightarrow> mh_active (fst (handle_connect h target pinned)) = {}"
  by (simp add: handle_connect_def establish_tls_tunnel_def Let_def)

subsection \<open>PAC files\<close>

record pac_generator =
  pg_host :: string
  pg_port :: nat
  pg_domains :: "string list"
  pg_rules :: "(string \<times> string) list"
  pg_cached :: "string option"
  pg_hash :: "string option"

definition new_pac :: "string list \<Rightarrow> string \<Rightarrow> nat \<Rightarrow> pac_generator" where
  "new_pac domains h p = \<lparr>pg_host = h, pg_port = p, pg_domains = domains, pg_rules = [], pg_cached = None, pg_hash = None\<rparr>"

definition js_quoted :: "string \<Rightarrow> string" where
  "js_quoted s = [CHR 34] @ s @ [CHR 34]"

definition pac_line :: "string \<Rightarrow> string \<Rightarrow> string" where
  "pac_line zone target = ''    if (dnsDomainIs(host, '' @ js_quoted zone @ '')) return '' @ js_quoted target @ '';''"

text \<open>The routes in the order of the file: the names compared and the proxy they lead to.\<close>

definition rule_domain :: "string \<Rightarrow> string" where
  "rule_domain pattern = (if prefix ''*.'' pattern then ''.'' @ drop 2 pattern else pattern)"

definition pac_routes :: "pac_generator \<Rightarrow> (string \<times> string) list" where
  "pac_routes g =
     map (\<lambda>(p, target). (rule_domain p, target)) (pg_rules g)
     @ map (\<lambda>d. (''.'' @ dropWhile (\<lambda>c. c = CHR ''.'') d, ''PROXY '' @ pg_host g @ '':'' @ dec (pg_port g))) (pg_domains g)"

definition render_pac :: "(string \<times> string) list \<Rightarrow> string" where
  "render_pac routes =
     concat (map (\<lambda>l. l @ [CHR 10])
       ([''function FindProxyForURL(url, host) {''] @ map (\<lambda>(d, t). pac_line d t) routes @ [''    return '' @ js_quoted ''DIRECT'' @ '';'', ''}'']))"

definition generate_pac_js :: "pac_generator \<Rightarrow> string" where
  "generate_pac_js g =
     (let proxy = ''PROXY '' @ pg_host g @ '':'' @ dec (pg_port g);
          custom = map (\<lambda>(pattern, target).
             if prefix ''*.'' pattern then pac_line (''.'' @ drop 2 pattern) target else pac_line pattern target) (pg_rules g);
          known = map (\<lambda>d. pac_line (''.'' @ dropWhile (\<lambda>c. c = CHR ''.'') d) proxy) (pg_domains g)
      in join_with [CHR 10] ([''function FindProxyForURL(url, host) {''] @ custom @ known @ [''    return '' @ js_quoted ''DIRECT'' @ '';'', ''}''])
         @ [CHR 10])"

definition generate_pac :: "(pac_generator \<Rightarrow> string) \<Rightarrow> pac_generator \<Rightarrow> pac_generator \<times> string" where
  "generate_pac hash g =
     (case pg_cached g of
        Some c \<Rightarrow> if pg_hash g = Some (hash g) then (g, c)
                  else (g\<lparr>pg_cached := Some (generate_pac_js g), pg_hash := Some (hash g)\<rparr>, generate_pac_js g)
      | None \<Rightarrow> (g\<lparr>pg_cached := Some (generate_pac_js g), pg_hash := Some (hash g)\<rparr>, generate_pac_js g))"

fun replace_rule :: "string \<Rightarrow> string \<Rightarrow> (string \<times> string) list \<Rightarrow> (string \<times> string) list option" where
  "replace_rule p t [] = None"
| "replace_rule p t ((q, u) # rs) = (if q = p then Some ((p, t) # rs) else map_option ((#) (q, u)) (replace_rule p t rs))"

definition add_custom_rule :: "string \<Rightarrow> string \<Rightarrow> pac_generator \<Rightarrow> pac_generator" where
  "add_custom_rule p t g =
     (case replace_rule p t (pg_rules g) of
        Some rs \<Rightarrow> g\<lparr>pg_rules := rs, pg_cached := None\<rparr>
      | None \<Rightarrow> g\<lparr>pg_rules := pg_rules g @ [(p, t)], pg_cached := None\<rparr>)"

definition remove_custom_rule :: "string \<Rightarrow> pac_generator \<Rightarrow> pac_generator" where
  "remove_custom_rule p g = g\<lparr>pg_rules := filter (\<lambda>(q, u). q \<noteq> p) (pg_rules g), pg_cached := None\<rparr>"

text \<open>The invariant: patterns are distinct, and a cached file is the current one.\<close>

definition pac_ok :: "pac_generator \<Rightarrow> bool" where
  "pac_ok g \<longleftrightarrow> distinct (map fst (pg_rules g)) \<and> (\<forall>c. pg_cached g = Some c \<longrightarrow> c = generate_pac_js g)"

inductive pac_step :: "(pac_generator \<Rightarrow> string) \<Rightarrow> pac_generator \<Rightarrow> pac_generator \<Rightarrow> bool" for hash where
  pac_generated: "pac_step hash g (fst (generate_pac hash g))"
| pac_added: "pac_step hash g (add_custom_rule p t g)"
| pac_removed: "pac_step hash g (remove_custom_rule p g)"

lemma replace_rule_None: "replace_rule p t rs = None \<longleftrightarrow> p \<notin> fst ` set rs"
  by (induction p t rs rule: replace_rule.induct) auto

lemma replace_rule_Some: "replace_rule p t rs = Some rs' \<Longrightarrow> map fst rs' = map fst rs \<and> (p, t) \<in> set rs'"
  by (induction rs arbitrary: rs') (auto split: if_splits)

lemma generate_js_cache: "generate_pac_js (g\<lparr>pg_cached := c, pg_hash := h\<rparr>) = generate_pac_js g"
  by (simp add: generate_pac_js_def)

lemma distinct_fst_filter: "distinct (map fst rs) \<Longrightarrow> distinct (map fst (filter P rs))"
  by (induction rs) auto

interpretation pac: step_system "pac_step hash" "new_pac domains h p" pac_ok for hash domains h p
proof
  show "pac_ok (new_pac domains h p)" by (simp add: pac_ok_def new_pac_def)
next
  fix g g' assume "pac_step hash g g'" "pac_ok g"
  then show "pac_ok g'"
  proof (cases rule: pac_step.cases)
    case pac_generated
    then show ?thesis using \<open>pac_ok g\<close>
      by (auto simp: pac_ok_def generate_pac_def generate_js_cache split: option.splits if_splits)
  next
    case (pac_added p t)
    then show ?thesis using \<open>pac_ok g\<close> replace_rule_Some [of p t "pg_rules g"] replace_rule_None [of p t "pg_rules g"]
      by (auto simp: pac_ok_def add_custom_rule_def split: option.splits)
  next
    case (pac_removed p)
    then show ?thesis using \<open>pac_ok g\<close>
      by (auto simp: pac_ok_def remove_custom_rule_def intro: distinct_fst_filter)
  qed
qed

lemma join_with_lines: "xs \<noteq> [] \<Longrightarrow> join_with [CHR 10] xs @ [CHR 10] = concat (map (\<lambda>l. l @ [CHR 10]) xs)"
proof (induction xs)
  case (Cons x xs)
  then show ?case by (cases xs) simp_all
qed simp

lemma generate_renders_routes: "generate_pac_js g = render_pac (pac_routes g)"
proof -
  have c: "map (\<lambda>(pattern, target). if prefix ''*.'' pattern then pac_line (''.'' @ drop 2 pattern) target else pac_line pattern target) rs
      = map (\<lambda>(d, t). pac_line d t) (map (\<lambda>(p, target). (rule_domain p, target)) rs)" for rs
    by (auto simp: rule_domain_def)
  show ?thesis
    unfolding generate_pac_js_def render_pac_def pac_routes_def Let_def c
    by (subst join_with_lines) (simp_all add: o_def)
qed

text \<open>
  Every generated file, cached or not, after any changes of the rules and whatever the hash, is the
  rendering of the current routes: the custom rules, each pattern once, before the known domains.
\<close>

lemma pac_file_current:
  assumes "pac.reachable hash domains h p g"
  shows "snd (generate_pac hash g) = render_pac (pac_routes g)"
  using pac.reachable_inv [OF assms]
  by (auto simp: pac_ok_def generate_pac_def generate_renders_routes split: option.splits)

lemma custom_rule_routes_first:
  assumes "pac_ok g"
  shows "\<exists>pre post. pac_routes (add_custom_rule p t g) = pre @ (rule_domain p, t) # post
    \<and> length pre < length (pg_rules (add_custom_rule p t g))"
proof -
  have "(p, t) \<in> set (pg_rules (add_custom_rule p t g))"
    using replace_rule_Some by (auto simp: add_custom_rule_def split: option.splits)
  then obtain xs ys where x: "pg_rules (add_custom_rule p t g) = xs @ (p, t) # ys" by (meson split_list)
  then show ?thesis
    by (intro exI [of _ "map (\<lambda>(p, target). (rule_domain p, target)) xs"] exI) (simp add: pac_routes_def)
qed

text \<open>Custom rules go into the script as they are: a pattern with a quote ends the string it stands in.\<close>

lemma custom_rule_unescaped:
  "pac_line ([CHR 34] @ '') || evil('' @ [CHR 34]) t
     = ''    if (dnsDomainIs(host, '' @ js_quoted [] @ '') || evil('' @ js_quoted [] @ '')) return '' @ js_quoted t @ '';''"
  by (simp add: pac_line_def js_quoted_def)

end
