(* ===== verification/ProviderKeys.thy ===== *)
theory ProviderKeys
  imports Workflows PyText Tools "HOL-Library.Sublist" "HOL-Library.List_Lexorder" "HOL-Library.Char_ord"
begin

text \<open>
  Which credential, adapter and model a request is sent with: the runtime secret store, its rotation
  buffer and the secret file reloader (\<open>secrets/store.py\<close>, \<open>secrets/rotation.py\<close>,
  \<open>secrets/reloader.py\<close>), the resolution of a provider's API key and the adapter registry
  (\<open>providers/registry.py\<close>), and the model aliases (\<open>routing/alias_registry.py\<close>). Locks make each
  operation atomic. Environment variables are a dictionary; a YAML file is the document it holds.
\<close>

subsection \<open>The secret store\<close>

record secret_snapshot =
  provider_api_keys :: "(string, string) dict"
  ss_source :: string

definition store_replace :: "secret_snapshot \<Rightarrow> secret_snapshot \<Rightarrow> secret_snapshot" where
  "store_replace old snap = \<lparr>provider_api_keys = provider_api_keys snap, ss_source = ss_source snap\<rparr>"

definition get_provider_api_key :: "secret_snapshot \<Rightarrow> string \<Rightarrow> string option" where
  "get_provider_api_key snap name = map_of (provider_api_keys snap) name"

text \<open>The process-wide store and the one bound to the running request.\<close>

definition get_runtime_secret_store :: "'st option \<Rightarrow> 'st option \<Rightarrow> 'st option" where
  "get_runtime_secret_store scoped process = (case scoped of Some s \<Rightarrow> Some s | None \<Rightarrow> process)"

subsection \<open>The rotation buffer\<close>

record rotation_buffer =
  rb_current :: secret_snapshot
  rb_previous :: "secret_snapshot option"
  rb_sessions :: "(string, secret_snapshot) dict"

definition new_rotation_buffer :: "secret_snapshot option \<Rightarrow> rotation_buffer" where
  "new_rotation_buffer snap =
     \<lparr>rb_current = (case snap of Some s \<Rightarrow> s | None \<Rightarrow> \<lparr>provider_api_keys = [], ss_source = ''empty''\<rparr>),
      rb_previous = None, rb_sessions = []\<rparr>"

definition rotate_secrets :: "rotation_buffer \<Rightarrow> secret_snapshot \<Rightarrow> rotation_buffer" where
  "rotate_secrets rb snap = rb\<lparr>rb_previous := Some (rb_current rb), rb_current := snap\<rparr>"

definition begin_session :: "rotation_buffer \<Rightarrow> string \<Rightarrow> rotation_buffer" where
  "begin_session rb sid = rb\<lparr>rb_sessions := AList.update sid (rb_current rb) (rb_sessions rb)\<rparr>"

definition snapshot_for_session :: "rotation_buffer \<Rightarrow> string \<Rightarrow> secret_snapshot" where
  "snapshot_for_session rb sid = dict_get (rb_sessions rb) sid (rb_current rb)"

definition end_session :: "rotation_buffer \<Rightarrow> string \<Rightarrow> rotation_buffer" where
  "end_session rb sid =
     (let sessions = AList.delete sid (rb_sessions rb)
      in rb\<lparr>rb_sessions := sessions, rb_previous := (if sessions = [] then None else rb_previous rb)\<rparr>)"

subsection \<open>The secret file\<close>

text \<open>\<open>str_of\<close> is Python's \<open>str\<close>; a document that cannot be opened or parsed is None.\<close>

definition load_secret_snapshot :: "(json \<Rightarrow> string) \<Rightarrow> string \<Rightarrow> json option \<Rightarrow> secret_snapshot py_result" where
  "load_secret_snapshot str_of name doc =
     (case doc of
        None \<Rightarrow> Inl (OtherExn ''OSError or YAMLError'')
      | Some j \<Rightarrow>
          (let raw = (if truthy j then j else JObj []);
               raw = (case raw of JObj kvs \<Rightarrow> (case map_of kvs ''provider_api_keys'' of Some v \<Rightarrow> v | None \<Rightarrow> raw)
                        | _ \<Rightarrow> raw)
           in case raw of
                JObj kvs \<Rightarrow>
                  Inr \<lparr>provider_api_keys = map (\<lambda>(p, k). (p, str_of k)) (filter (\<lambda>(p, k). k \<noteq> JNull) kvs),
                       ss_source = name\<rparr>
              | _ \<Rightarrow> Inl (OtherExn ''SecretReloadError'')))"

record secret_reloader =
  sr_snapshot :: secret_snapshot
  sr_store :: secret_snapshot
  sr_rotation :: "rotation_buffer option"
  sr_last_trigger :: rat

definition reload_secrets :: "(json \<Rightarrow> string) \<Rightarrow> string \<Rightarrow> json option \<Rightarrow> secret_reloader
    \<Rightarrow> secret_reloader \<times> (py_exn + secret_snapshot \<times> secret_snapshot)" where
  "reload_secrets str_of name doc r =
     (let old = sr_snapshot r
      in case load_secret_snapshot str_of name doc of
           Inl _ \<Rightarrow> (r, Inl (OtherExn ''SecretReloadError''))
         | Inr snap \<Rightarrow>
             (r\<lparr>sr_snapshot := snap, sr_store := store_replace (sr_store r) snap,
                sr_rotation := map_option (\<lambda>rb. rotate_secrets rb snap) (sr_rotation r)\<rparr>, Inr (old, snap)))"

definition maybe_reload :: "rat \<Rightarrow> (json \<Rightarrow> string) \<Rightarrow> string \<Rightarrow> json option \<Rightarrow> bool \<Rightarrow> bool \<Rightarrow> rat
    \<Rightarrow> secret_reloader \<Rightarrow> secret_reloader" where
  "maybe_reload debounce str_of name doc is_directory touches_target now r =
     (if is_directory \<or> \<not> touches_target \<or> now - sr_last_trigger r < debounce then r
      else fst (reload_secrets str_of name doc (r\<lparr>sr_last_trigger := now\<rparr>)))"

subsection \<open>Provider credentials\<close>

definition is_placeholder_credential :: "string \<Rightarrow> bool" where
  "is_placeholder_credential v =
     (let stripped = strip_space v; folded = casefold stripped
      in stripped \<noteq> [] \<and>
         (prefix ''change-me'' folded \<or> prefix ''changeme'' folded
          \<or> (prefix ''<'' stripped \<and> suffix ''>'' stripped)
          \<or> (prefix ''your-'' folded \<and> suffix ''-key'' folded)))"

definition nonblank :: "string option \<Rightarrow> string option" where
  "nonblank v =
     (case v of
        None \<Rightarrow> None
      | Some s \<Rightarrow>
          (let stripped = strip_space s
           in if stripped \<noteq> [] \<and> \<not> is_placeholder_credential stripped then Some stripped else None))"

definition KEYLESS_PROVIDERS :: "string list" where
  "KEYLESS_PROVIDERS = [''mock'', ''local'', ''ollama'']"

definition provider_requires_api_key :: "string \<Rightarrow> (string, bool) dict option \<Rightarrow> bool" where
  "provider_requires_api_key name flags =
     (let normalized = casefold (strip_space name)
      in if normalized = [] \<or> normalized = ''mock'' \<or> normalized = ''local'' then False
         else (case (case flags of None \<Rightarrow> None | Some fl \<Rightarrow> map_of fl normalized) of
                 Some b \<Rightarrow> b
               | None \<Rightarrow> \<not> List.member KEYLESS_PROVIDERS normalized))"

record key_env =
  ke_store :: "secret_snapshot option"
  ke_environ :: "(string, string) dict"

definition first_key :: "string option list \<Rightarrow> string option" where
  "first_key vs = (case List.map_filter nonblank vs of [] \<Rightarrow> None | k # _ \<Rightarrow> Some k)"

definition resolve_api_key :: "key_env \<Rightarrow> string \<Rightarrow> string py_result" where
  "resolve_api_key ke name =
     (let pfx = upper name; getenv = map_of (ke_environ ke)
      in case first_key
           ([case ke_store ke of None \<Rightarrow> None | Some s \<Rightarrow> get_provider_api_key s name,
             getenv (''ANONREQ_'' @ pfx @ ''_API_KEY''),
             getenv (pfx @ ''_API_KEY'')]
            @ (if pfx = ''OPENAI'' then [getenv ''PROVIDER_API_KEY''] else []))
         of Some k \<Rightarrow> Inr k | None \<Rightarrow> Inl ValueError)"

definition resolve_upstream_api_key :: "key_env \<Rightarrow> string option \<Rightarrow> string option" where
  "resolve_upstream_api_key ke explicit =
     (case resolve_api_key ke ''openai'' of Inr k \<Rightarrow> Some k | Inl _ \<Rightarrow> nonblank explicit)"

definition provider_has_credential :: "key_env \<Rightarrow> string \<Rightarrow> string option \<Rightarrow> bool" where
  "provider_has_credential ke name explicit =
     (case resolve_api_key ke name of
        Inr k \<Rightarrow> True
      | Inl _ \<Rightarrow> casefold (strip_space name) = ''openai'' \<and> nonblank explicit \<noteq> None)"

subsection \<open>The adapter registry\<close>

text \<open>\<open>importer\<close> is the import system: module and class name to the class, or None on an import or attribute error.\<close>

datatype registry_exn = ProviderNotFoundError string | RegistryExn py_exn

record 'a adapter_registry =
  adapter_paths :: "(string, string) dict"
  adapter_cache :: "(string, 'a) dict"

definition load_adapter_paths :: "(string, (string, string) dict) dict option \<Rightarrow> (string, string) dict py_result" where
  "load_adapter_paths providers =
     (case providers of
        None \<Rightarrow> Inr []
      | Some ps \<Rightarrow>
          foldl (\<lambda>acc (name, config).
             bind_result acc (\<lambda>d. case map_of config ''adapter'' of
                None \<Rightarrow> Inl KeyError | Some p \<Rightarrow> Inr (AList.update name p d))) (Inr []) ps)"

definition import_adapter :: "(string \<Rightarrow> string \<Rightarrow> 'a option) \<Rightarrow> 'a adapter_registry \<Rightarrow> string
    \<Rightarrow> 'a adapter_registry \<times> (registry_exn + 'a)" where
  "import_adapter importer reg name =
     (case map_of (adapter_paths reg) name of
        None \<Rightarrow> (reg, Inl (ProviderNotFoundError name))
      | Some p \<Rightarrow>
          (case map_of (adapter_cache reg) name of
             Some c \<Rightarrow> (reg, Inr c)
           | None \<Rightarrow>
               (case rpartition (CHR ''.'') p of
                  None \<Rightarrow> (reg, Inl (RegistryExn ValueError))
                | Some (module_path, class_name) \<Rightarrow>
                    (case importer module_path class_name of
                       None \<Rightarrow> (reg, Inl (ProviderNotFoundError name))
                     | Some c \<Rightarrow> (reg\<lparr>adapter_cache := AList.update name c (adapter_cache reg)\<rparr>, Inr c)))))"

definition list_providers :: "'a adapter_registry \<Rightarrow> string list" where
  "list_providers reg = sort (map fst (adapter_paths reg))"

subsection \<open>Model aliases\<close>

record model_alias =
  ma_provider :: string
  ma_model :: string

record alias_registry =
  ar_aliases :: "(string, model_alias) dict"
  ar_names :: "(string, string) dict"

text \<open>The mapping of the file may hold names that fold to the same key; those are refused.\<close>

fun load_aliases :: "(string, model_alias) dict \<Rightarrow> alias_registry \<Rightarrow> alias_registry py_result" where
  "load_aliases [] ar = Inr ar"
| "load_aliases ((name, a) # rest) ar =
     (if map_of (ar_aliases ar) (casefold name) \<noteq> None then Inl ValueError
      else load_aliases rest
             (ar\<lparr>ar_aliases := AList.update (casefold name) a (ar_aliases ar),
                 ar_names := AList.update (casefold name) name (ar_names ar)\<rparr>))"

definition validate_aliases :: "string list option \<Rightarrow> alias_registry \<Rightarrow> unit py_result" where
  "validate_aliases providers ar =
     (case providers of
        None \<Rightarrow> Inr ()
      | Some ps \<Rightarrow>
          if list_all (\<lambda>(k, a). List.member ps (ma_provider a)) (ar_aliases ar) then Inr () else Inl ValueError)"

definition new_alias_registry :: "(string, model_alias) dict \<Rightarrow> string list option \<Rightarrow> alias_registry py_result" where
  "new_alias_registry doc providers =
     bind_result (load_aliases doc \<lparr>ar_aliases = [], ar_names = []\<rparr>)
       (\<lambda>ar. bind_result (validate_aliases providers ar) (\<lambda>_. Inr ar))"

definition resolve_alias :: "alias_registry \<Rightarrow> string \<Rightarrow> model_alias option" where
  "resolve_alias ar alias = map_of (ar_aliases ar) (casefold alias)"

definition list_aliases :: "alias_registry \<Rightarrow> (string \<times> model_alias) list" where
  "list_aliases ar =
     map (\<lambda>k. (dict_get (ar_names ar) k [], the (map_of (ar_aliases ar) k)))
       (sort (map fst (ar_aliases ar)))"

subsection \<open>Stable credentials of a running stream\<close>

text \<open>
  What a stream relies on: binding a session fixes the value it sees until it is released, whatever
  is published, bound or released for others in between.
\<close>

datatype ('k, 'v) pin_op = Publish 'v | Bind 'k | Release 'k

locale session_pins =
  fixes publish :: "'s \<Rightarrow> 'v \<Rightarrow> 's" and bind_to :: "'s \<Rightarrow> 'k \<Rightarrow> 's" and release :: "'s \<Rightarrow> 'k \<Rightarrow> 's"
    and bound :: "'s \<Rightarrow> 'k \<Rightarrow> 'v" and now_at :: "'s \<Rightarrow> 'v" and opened :: "'s \<Rightarrow> 'k \<Rightarrow> bool"
  assumes bind_bound: "opened (bind_to s k) k \<and> bound (bind_to s k) k = now_at s"
    and bind_frame: "k' \<noteq> k \<Longrightarrow> opened s k \<Longrightarrow> opened (bind_to s k') k \<and> bound (bind_to s k') k = bound s k"
    and release_frame: "k' \<noteq> k \<Longrightarrow> opened s k \<Longrightarrow> opened (release s k') k \<and> bound (release s k') k = bound s k"
    and publish_frame: "opened s k \<Longrightarrow> opened (publish s v) k \<and> bound (publish s v) k = bound s k"
    and publish_now: "now_at (publish s v) = v"
    and release_unbound: "bound (release s k) k = now_at s"
begin

fun pin_step :: "'s \<Rightarrow> ('k, 'v) pin_op \<Rightarrow> 's" where
  "pin_step s (Publish v) = publish s v"
| "pin_step s (Bind k) = bind_to s k"
| "pin_step s (Release k) = release s k"

lemma pinned_step:
  "opened s k \<Longrightarrow> p \<noteq> Bind k \<Longrightarrow> p \<noteq> Release k \<Longrightarrow> opened (pin_step s p) k \<and> bound (pin_step s p) k = bound s k"
  by (cases p) (auto simp: publish_frame bind_frame release_frame)

lemma pinned_run:
  "opened s k \<Longrightarrow> \<forall>p \<in> set ops. p \<noteq> Bind k \<and> p \<noteq> Release k \<Longrightarrow> bound (foldl pin_step s ops) k = bound s k"
proof (induction ops arbitrary: s)
  case (Cons p ops)
  then have "opened (pin_step s p) k" "bound (pin_step s p) k = bound s k" using pinned_step by auto
  with Cons.IH [of "pin_step s p"] Cons.prems(2) show ?case by simp
qed simp

lemma pinned_from_bind:
  "\<forall>p \<in> set ops. p \<noteq> Bind k \<and> p \<noteq> Release k \<Longrightarrow> bound (foldl pin_step (bind_to s k) ops) k = now_at s"
  using pinned_run [of "bind_to s k" k ops] bind_bound by simp

end

interpretation rotation: session_pins rotate_secrets begin_session end_session snapshot_for_session rb_current
  "\<lambda>rb sid. map_of (rb_sessions rb) sid \<noteq> None"
  by unfold_locales
    (auto simp: rotate_secrets_def begin_session_def end_session_def snapshot_for_session_def dict_get_def
       map_of_update delete_conv' Let_def)

text \<open>Retained is at most one old snapshot, and none once the last session has ended.\<close>

lemma last_session_releases:
  assumes "rb_sessions rb = [(sid, snap)]"
  shows "rb_previous (end_session rb sid) = None \<and> rb_sessions (end_session rb sid) = []
     \<and> rb_current (end_session rb sid) = rb_current rb"
  using assms by (simp add: end_session_def Let_def)

text \<open>A rotation with no session open keeps the retired keys until some later session ends.\<close>

lemma idle_rotation_retains:
  "rb_previous (rotate_secrets (new_rotation_buffer (Some old)) snap) = Some old"
  by (simp add: rotate_secrets_def new_rotation_buffer_def)

subsection \<open>Reloading\<close>

lemma failed_reload_keeps:
  assumes "load_secret_snapshot str_of name doc = Inl e"
  shows "reload_secrets str_of name doc r = (r, Inl (OtherExn ''SecretReloadError''))"
  using assms by (simp add: reload_secrets_def Let_def)

lemma reload_publishes:
  assumes "load_secret_snapshot str_of name doc = Inr snap"
  shows "sr_snapshot (fst (reload_secrets str_of name doc r)) = snap
     \<and> sr_store (fst (reload_secrets str_of name doc r)) = snap
     \<and> snd (reload_secrets str_of name doc r) = Inr (sr_snapshot r, snap)
     \<and> map_option rb_current (sr_rotation (fst (reload_secrets str_of name doc r)))
         = map_option (\<lambda>_. snap) (sr_rotation r)"
  using assms by (cases "sr_rotation r") (simp_all add: reload_secrets_def store_replace_def rotate_secrets_def Let_def)

text \<open>A reload leaves the keys of a bound session as they were.\<close>

lemma reload_keeps_session:
  assumes "sr_rotation r = Some rb" "map_of (rb_sessions rb) sid = Some snap"
  shows "\<exists>rb'. sr_rotation (fst (reload_secrets str_of name doc r)) = Some rb' \<and> snapshot_for_session rb' sid = snap"
  using assms
  by (auto simp: reload_secrets_def Let_def rotate_secrets_def snapshot_for_session_def dict_get_def split: sum.split)

lemma reload_debounced:
  assumes "now - sr_last_trigger r < debounce"
  shows "maybe_reload debounce str_of name doc d t now r = r"
  using assms by (simp add: maybe_reload_def)

subsection \<open>Keys\<close>

lemma first_key_usable:
  assumes "first_key vs = Some k"
  shows "k \<noteq> [] \<and> \<not> is_placeholder_credential k \<and> (\<exists>v. Some v \<in> set vs \<and> k = strip_space v)"
  using assms
proof (induction vs)
  case (Cons v vs)
  show ?case
  proof (cases "nonblank v")
    case None
    with Cons show ?thesis by (auto simp: first_key_def map_filter_simps)
  next
    case (Some k')
    with Cons.prems have "nonblank v = Some k" by (simp add: first_key_def map_filter_simps)
    then show ?thesis by (auto simp: nonblank_def Let_def split: option.splits if_splits)
  qed
qed (simp add: first_key_def map_filter_simps)

lemma resolved_key_usable:
  assumes "resolve_api_key ke name = Inr k"
  shows "k \<noteq> [] \<and> \<not> is_placeholder_credential k
    \<and> (\<exists>v. k = strip_space v \<and>
        ((\<exists>s. ke_store ke = Some s \<and> get_provider_api_key s name = Some v)
         \<or> (\<exists>x \<in> {''ANONREQ_'' @ upper name @ ''_API_KEY'', upper name @ ''_API_KEY''}
                  \<union> (if upper name = ''OPENAI'' then {''PROVIDER_API_KEY''} else {}).
              map_of (ke_environ ke) x = Some v)))"
  using assms
  by (auto simp: resolve_api_key_def Let_def split: option.splits if_splits dest!: first_key_usable)

lemma env_names:
  "''ANONREQ_'' @ p @ ''_API_KEY'' \<noteq> ''ANONREQ_API_KEY''"
  "(p @ ''_API_KEY'' = ''ANONREQ_API_KEY'') = (p = ''ANONREQ'')"
proof
  assume "''ANONREQ_'' @ p @ ''_API_KEY'' = ''ANONREQ_API_KEY''"
  then have "length (''ANONREQ_'' @ p @ ''_API_KEY'') = length ''ANONREQ_API_KEY''" by simp
  then show False by simp
next
  have "''ANONREQ_API_KEY'' = ''ANONREQ'' @ ''_API_KEY''" by simp
  then show "(p @ ''_API_KEY'' = ''ANONREQ_API_KEY'') = (p = ''ANONREQ'')" by (metis append_same_eq)
qed

lemma environ_other:
  assumes "x \<noteq> y"
  shows "map_of (AList.update y v d) x = map_of d x"
  using assms by (simp add: map_of_update)

lemma gateway_key_unread:
  assumes "upper name \<noteq> ''ANONREQ''"
  shows "resolve_api_key (ke\<lparr>ke_environ := AList.update ''ANONREQ_API_KEY'' v (ke_environ ke)\<rparr>) name
       = resolve_api_key ke name"
proof -
  let ?u = "AList.update ''ANONREQ_API_KEY'' v (ke_environ ke)"
  have k1: "map_of ?u (''ANONREQ_'' @ upper name @ ''_API_KEY'') = map_of (ke_environ ke) (''ANONREQ_'' @ upper name @ ''_API_KEY'')"
    by (rule environ_other [OF env_names(1)])
  have k2: "map_of ?u (upper name @ ''_API_KEY'') = map_of (ke_environ ke) (upper name @ ''_API_KEY'')"
    using env_names(2) assms by (intro environ_other) blast
  have k3: "map_of ?u ''PROVIDER_API_KEY'' = map_of (ke_environ ke) ''PROVIDER_API_KEY''"
    by (intro environ_other) simp
  have f: "ke_store (ke\<lparr>ke_environ := ?u\<rparr>) = ke_store ke" "ke_environ (ke\<lparr>ke_environ := ?u\<rparr>) = ?u" by simp_all
  show ?thesis unfolding resolve_api_key_def Let_def f k1 k2 k3 by (rule refl)
qed

text \<open>The one name for which the gateway's own key is read as a provider credential.\<close>

lemma gateway_key_read_for_anonreq:
  "resolve_api_key \<lparr>ke_store = None, ke_environ = [(''ANONREQ_API_KEY'', ''client-secret'')]\<rparr> ''anonreq''
     = Inr ''client-secret''"
  by code_simp

lemma placeholders:
  "list_all is_placeholder_credential
     [''change-me'', '' Changeme123 '', ''<your key>'', ''your-openai-key'', ''YOUR-X-KEY'']"
  "\<not> list_ex is_placeholder_credential [[], ''  '', ''sk-live-1'', ''<half'', ''your-secret'']"
  by code_simp+

subsection \<open>Aliases\<close>

lemma load_aliases_keep:
  assumes "load_aliases doc ar = Inr ar'" "map_of (ar_aliases ar) k = Some a"
  shows "map_of (ar_aliases ar') k = Some a"
  using assms
proof (induction doc ar rule: load_aliases.induct)
  case (2 n b rest ar)
  then have fresh: "map_of (ar_aliases ar) (casefold n) = None" by (auto split: if_splits)
  with "2.prems"(2) have "k \<noteq> casefold n" by auto
  with 2 fresh show ?case by (auto simp: map_of_update)
qed simp

lemma load_aliases_resolves:
  assumes "load_aliases doc ar = Inr ar'" "(name, a) \<in> set doc"
  shows "map_of (ar_aliases ar') (casefold name) = Some a"
  using assms
proof (induction doc ar rule: load_aliases.induct)
  case (2 n b rest ar)
  let ?ar = "ar\<lparr>ar_aliases := AList.update (casefold n) b (ar_aliases ar), ar_names := AList.update (casefold n) n (ar_names ar)\<rparr>"
  have fresh: "map_of (ar_aliases ar) (casefold n) = None" and rest: "load_aliases rest ?ar = Inr ar'"
    using "2.prems"(1) by (auto split: if_splits)
  show ?case
  proof (cases "(name, a) \<in> set rest")
    case True
    with "2.IH" fresh rest show ?thesis by auto
  next
    case False
    with "2.prems"(2) have "map_of (ar_aliases ?ar) (casefold name) = Some a" by (simp add: map_of_update)
    then show ?thesis using load_aliases_keep [OF rest] by blast
  qed
qed simp

lemma load_aliases_from:
  assumes "load_aliases doc ar = Inr ar'" "map_of (ar_aliases ar') k = Some a"
  shows "map_of (ar_aliases ar) k = Some a \<or> (\<exists>name. (name, a) \<in> set doc \<and> k = casefold name)"
  using assms
proof (induction doc ar rule: load_aliases.induct)
  case (2 n b rest ar)
  then show ?case by (auto simp: map_of_update split: if_splits)
qed simp

lemma alias_resolution:
  assumes "new_alias_registry doc providers = Inr ar"
  shows "(resolve_alias ar alias = Some a) = (\<exists>name. (name, a) \<in> set doc \<and> casefold name = casefold alias)"
    and "providers = Some ps \<Longrightarrow> resolve_alias ar alias = Some a \<Longrightarrow> ma_provider a \<in> set ps"
proof -
  let ?e = "\<lparr>ar_aliases = [], ar_names = []\<rparr>"
  from assms have ld: "load_aliases doc ?e = Inr ar" and va: "validate_aliases providers ar = Inr ()"
    unfolding new_alias_registry_def bind_result_Inr by auto
  show "(resolve_alias ar alias = Some a) = (\<exists>name. (name, a) \<in> set doc \<and> casefold name = casefold alias)"
  proof
    assume "resolve_alias ar alias = Some a"
    then have "map_of (ar_aliases ar) (casefold alias) = Some a" by (simp add: resolve_alias_def)
    from load_aliases_from [OF ld this] show "\<exists>name. (name, a) \<in> set doc \<and> casefold name = casefold alias" by auto
  next
    assume "\<exists>name. (name, a) \<in> set doc \<and> casefold name = casefold alias"
    then obtain name where "(name, a) \<in> set doc" "casefold name = casefold alias" by blast
    with load_aliases_resolves [OF ld, of name a] show "resolve_alias ar alias = Some a" by (simp add: resolve_alias_def)
  qed
  show "ma_provider a \<in> set ps" if "providers = Some ps" "resolve_alias ar alias = Some a"
    using va that
    by (auto simp: validate_aliases_def resolve_alias_def list_all_iff List.member_iff split: if_splits dest: map_of_SomeD)
qed

subsection \<open>Adapters\<close>

lemma adapter_cached:
  assumes "import_adapter importer reg name = (reg', Inr c)"
  shows "import_adapter importer' reg' name = (reg', Inr c)"
  using assms by (auto simp: import_adapter_def map_of_update split: option.splits prod.splits)

lemma adapter_only_configured:
  assumes "import_adapter importer reg name = (reg', Inr c)"
  shows "\<exists>p. map_of (adapter_paths reg) name = Some p"
  using assms by (auto simp: import_adapter_def split: option.splits)

subsection \<open>Properties\<close>

fun rotation_step :: "rotation_buffer \<Rightarrow> (string, secret_snapshot) pin_op \<Rightarrow> rotation_buffer" where
  "rotation_step rb (Publish snap) = rotate_secrets rb snap"
| "rotation_step rb (Bind sid) = begin_session rb sid"
| "rotation_step rb (Release sid) = end_session rb sid"

lemma rotation_steps: "rotation.pin_step = rotation_step"
proof (intro ext)
  show "rotation.pin_step rb p = rotation_step rb p" for rb p by (cases p) simp_all
qed

text \<open>C34. a stream keeps the secret snapshot that was current when its session began, whatever
  rotations, and sessions of other streams, come in between; once the last session has ended, no
  earlier snapshot is retained.
\<close>

theorem stream_keeps_its_keys:
  assumes "\<forall>p \<in> set ops. p \<noteq> Bind sid \<and> p \<noteq> Release sid"
  shows "snapshot_for_session (foldl rotation_step (begin_session rb sid) ops) sid = rb_current rb
    \<and> (rb_sessions (end_session (foldl rotation_step (begin_session rb sid) ops) sid) = [] \<longrightarrow>
         rb_previous (end_session (foldl rotation_step (begin_session rb sid) ops) sid) = None)"
  using rotation.pinned_from_bind [OF assms, of rb] unfolding rotation_steps by (simp add: end_session_def Let_def)

definition key_snapshot :: "string \<Rightarrow> secret_snapshot" where
  "key_snapshot k = \<lparr>provider_api_keys = [(''openai'', k)], ss_source = ''vault''\<rparr>"

theorem stream_keeps_its_keys_witness:
  "provider_api_keys (snapshot_for_session (foldl rotation_step (begin_session (new_rotation_buffer (Some (key_snapshot ''k1''))) ''s1'')
     [Publish (key_snapshot ''k2''), Bind ''s2'', Publish (key_snapshot ''k3''), Release ''s2'']) ''s1'') = [(''openai'', ''k1'')]"
proof -
  have "\<forall>p \<in> set [Publish (key_snapshot ''k2''), Bind ''s2'', Publish (key_snapshot ''k3''), Release ''s2'' :: (string, secret_snapshot) pin_op].
      p \<noteq> Bind ''s1'' \<and> p \<noteq> Release ''s1''" by simp
  from stream_keeps_its_keys [OF this, of "new_rotation_buffer (Some (key_snapshot ''k1''))"]
  show ?thesis by (simp add: new_rotation_buffer_def key_snapshot_def)
qed

end
