(* ===== verification/Providers.thy ===== *)
theory Providers
  imports TailBuffers Stages ProviderKeys
begin

text \<open>
  The provider adapters (\<open>providers/openai.py\<close>, \<open>anthropic.py\<close>, \<open>gemini.py\<close>, \<open>ollama.py\<close>): the
  translation of a chat request into the provider's format, the answer to a posted request, the
  events of a streamed answer and the translation back. \<open>str_of\<close> is Python's \<open>str\<close> on values that
  are not strings, \<open>loads\<close> is \<open>json.loads\<close> (None: no JSON). The values of an event's metadata are kept
  as their text.
\<close>

datatype adapter = OpenAI | Anthropic | Gemini | Ollama

fun provider_name :: "adapter \<Rightarrow> string" where
  "provider_name OpenAI = ''openai''"
| "provider_name Anthropic = ''anthropic''"
| "provider_name Gemini = ''gemini''"
| "provider_name Ollama = ''ollama''"

fun api_label :: "adapter \<Rightarrow> string" where
  "api_label OpenAI = ''OpenAI API''"
| "api_label Anthropic = ''Anthropic API''"
| "api_label Gemini = ''Gemini API''"
| "api_label Ollama = ''Ollama API''"

subsection \<open>Python values\<close>

abbreviation AttributeError :: py_exn where "AttributeError \<equiv> OtherExn ''AttributeError''"

definition py_text :: "(json \<Rightarrow> string) \<Rightarrow> json \<Rightarrow> string" where
  "py_text str_of j = (case j of JStr s \<Rightarrow> s | _ \<Rightarrow> str_of j)"

definition py_iter :: "json \<Rightarrow> json list py_result" where
  "py_iter j =
     (case j of
        JList xs \<Rightarrow> Inr xs
      | JObj kvs \<Rightarrow> Inr (map (\<lambda>(k, v). JStr k) kvs)
      | JStr s \<Rightarrow> Inr (map (\<lambda>c. JStr [c]) s)
      | _ \<Rightarrow> Inl TypeError)"

definition py_dict :: "json \<Rightarrow> (string \<times> json) list py_result" where
  "py_dict j = (case j of JObj kvs \<Rightarrow> Inr kvs | _ \<Rightarrow> Inl AttributeError)"

definition get_or :: "(string \<times> json) list \<Rightarrow> string \<Rightarrow> json \<Rightarrow> json" where
  "get_or kvs k d = (let v = dict_get kvs k JNull in if truthy v then v else d)"

text \<open>A field declared \<open>str | None\<close> (a validation error is a \<open>ValueError\<close>).\<close>

definition opt_text :: "json \<Rightarrow> string option py_result" where
  "opt_text j = (case j of JNull \<Rightarrow> Inr None | JStr s \<Rightarrow> Inr (Some s) | _ \<Rightarrow> Inl ValueError)"

fun type_name :: "json \<Rightarrow> string" where
  "type_name JNull = ''NoneType''"
| "type_name (JBool _) = ''bool''"
| "type_name (JInt _) = ''int''"
| "type_name (JFloat _) = ''float''"
| "type_name (JStr _) = ''str''"
| "type_name (JList _) = ''list''"
| "type_name (JObj _) = ''dict''"

fun collect :: "('a \<Rightarrow> 'b list py_result) \<Rightarrow> 'a list \<Rightarrow> 'b list py_result" where
  "collect f [] = Inr []"
| "collect f (x # xs) = bind_result (f x) (\<lambda>y. bind_result (collect f xs) (\<lambda>ys. Inr (y @ ys)))"

subsection \<open>Requests\<close>

record provider_request =
  pr_url :: string
  pr_headers :: "(string, string) dict"
  pr_body :: "(string \<times> json) list"

record adapter_env =
  av_keys :: key_env
  av_str :: "json \<Rightarrow> string"
  av_ollama_host :: "string option"

text \<open>Only the last system message is kept, as in both adapters that lift it out.\<close>

fun split_system :: "(json \<Rightarrow> string) \<Rightarrow> (json \<Rightarrow> json \<Rightarrow> json) \<Rightarrow> json list \<Rightarrow> string option
    \<Rightarrow> (string option \<times> json list) py_result" where
  "split_system str_of conv [] sys = Inr (sys, [])"
| "split_system str_of conv (m # ms) sys =
     bind_result (py_dict m) (\<lambda>msg.
       let r = dict_get msg ''role'' (JStr []); content = dict_get msg ''content'' (JStr [])
       in if r = JStr ''system'' then split_system str_of conv ms (Some (py_text str_of content))
          else bind_result (split_system str_of conv ms sys) (\<lambda>(s, out). Inr (s, conv r content # out)))"

definition anthropic_message :: "json \<Rightarrow> json \<Rightarrow> json" where
  "anthropic_message r content = JObj [(''role'', r), (''content'', content)]"

definition gemini_content :: "json \<Rightarrow> json \<Rightarrow> json" where
  "gemini_content r content =
     JObj [(''role'', if r = JStr ''assistant'' then JStr ''model'' else r),
           (''parts'', case content of JStr s \<Rightarrow> JList [JObj [(''text'', JStr s)]] | _ \<Rightarrow> content)]"

definition convert_tool :: "string \<Rightarrow> json \<Rightarrow> json list py_result" where
  "convert_tool schema tool =
     bind_result (py_dict tool) (\<lambda>t. bind_result (py_dict (dict_get t ''function'' (JObj []))) (\<lambda>f.
       Inr [JObj [(''name'', dict_get f ''name'' (JStr [])),
                  (''description'', dict_get f ''description'' (JStr [])),
                  (schema, dict_get f ''parameters'' (JObj []))]]))"

definition convert_all :: "string \<Rightarrow> json \<Rightarrow> json list py_result" where
  "convert_all schema tools = bind_result (py_iter tools) (collect (convert_tool schema))"

definition anthropic_tool_choice :: "(string \<times> json) list \<Rightarrow> (string \<times> json) list" where
  "anthropic_tool_choice orig =
     (case dict_get orig ''tool_choice'' JNull of
        JStr s \<Rightarrow>
          if s = ''auto'' then [(''tool_choice'', JObj [(''type'', JStr ''auto'')])]
          else if s = ''required'' then [(''tool_choice'', JObj [(''type'', JStr ''any'')])]
          else if s = ''none'' then [(''tool_choice'', JObj [(''type'', JStr ''none'')])]
          else []
      | JObj kvs \<Rightarrow> [(''tool_choice'', JObj kvs)]
      | _ \<Rightarrow> [])"

definition copy_params :: "string list \<Rightarrow> (string \<times> json) list \<Rightarrow> (string \<times> json) list" where
  "copy_params ps orig =
     List.map_filter (\<lambda>p. case map_of orig p of
        None \<Rightarrow> None | Some v \<Rightarrow> if v = JNull then None else Some (p, v)) ps"

definition converted_tools :: "string \<Rightarrow> (json list \<Rightarrow> json) \<Rightarrow> (string \<times> json) list \<Rightarrow> (string \<times> json) list py_result" where
  "converted_tools schema wrap orig =
     (let tools = dict_get orig ''tools'' JNull
      in if truthy tools then bind_result (convert_all schema tools) (\<lambda>ts. Inr [(''tools'', wrap ts)]) else Inr [])"

definition system_field :: "string \<Rightarrow> (string \<Rightarrow> json) \<Rightarrow> string option \<Rightarrow> (string \<times> json) list" where
  "system_field k wrap sys = (case sys of None \<Rightarrow> [] | Some s \<Rightarrow> if s = [] then [] else [(k, wrap s)])"

definition anthropic_body :: "(json \<Rightarrow> string) \<Rightarrow> (string \<times> json) list \<Rightarrow> (string \<times> json) list py_result" where
  "anthropic_body str_of orig =
     bind_result (py_iter (dict_get orig ''messages'' (JList []))) (\<lambda>ms.
     bind_result (split_system str_of anthropic_message ms None) (\<lambda>(sys, out).
     bind_result (converted_tools ''input_schema'' JList orig) (\<lambda>tools.
       Inr ([(''model'', dict_get orig ''model'' (JStr ''claude-sonnet-4'')), (''messages'', JList out)]
            @ system_field ''system'' JStr sys @ tools @ anthropic_tool_choice orig
            @ copy_params [''temperature'', ''top_p'', ''max_tokens'', ''stop'', ''stream''] orig))))"

definition gemini_body :: "(json \<Rightarrow> string) \<Rightarrow> (string \<times> json) list \<Rightarrow> (string \<times> json) list py_result" where
  "gemini_body str_of orig =
     bind_result (py_iter (dict_get orig ''messages'' (JList []))) (\<lambda>ms.
     bind_result (split_system str_of gemini_content ms None) (\<lambda>(sys, out).
     bind_result (converted_tools ''parameters'' (\<lambda>ts. JList [JObj [(''function_declarations'', JList ts)]]) orig) (\<lambda>tools.
       let gen = copy_params [''temperature'', ''top_p'', ''max_tokens'', ''stop''] orig
       in Inr ([(''model'', dict_get orig ''model'' (JStr ''gemini-pro'')), (''contents'', JList out)]
            @ system_field ''system_instruction'' (\<lambda>s. JObj [(''parts'', JList [JObj [(''text'', JStr s)]])]) sys
            @ tools @ (if gen = [] then [] else [(''generationConfig'', JObj gen)])))))"

definition ollama_body :: "(string \<times> json) list \<Rightarrow> (string \<times> json) list" where
  "ollama_body orig =
     [(''model'', dict_get orig ''model'' (JStr ''llama3'')), (''messages'', dict_get orig ''messages'' (JList []))]
     @ copy_params [''temperature'', ''top_p'', ''top_k'', ''stream'', ''format'', ''options''] orig"

definition openai_body :: "(string \<times> json) list \<Rightarrow> (string \<times> json) list" where
  "openai_body orig = filter (\<lambda>(k, v). v \<noteq> JNull) orig"

definition translate_body :: "(json \<Rightarrow> string) \<Rightarrow> adapter \<Rightarrow> (string \<times> json) list \<Rightarrow> (string \<times> json) list py_result" where
  "translate_body str_of a orig =
     (case a of
        OpenAI \<Rightarrow> Inr (openai_body orig)
      | Anthropic \<Rightarrow> anthropic_body str_of orig
      | Gemini \<Rightarrow> gemini_body str_of orig
      | Ollama \<Rightarrow> Inr (ollama_body orig))"

definition rstrip_char :: "char \<Rightarrow> string \<Rightarrow> string" where
  "rstrip_char c s = rev (dropWhile (\<lambda>d. d = c) (rev s))"

definition ollama_base_url :: "string option \<Rightarrow> string" where
  "ollama_base_url host =
     rstrip_char (CHR ''/'') (case host of None \<Rightarrow> ''http://localhost:11434'' | Some h \<Rightarrow> h)"

definition gemini_base :: string where
  "gemini_base = ''https://generativelanguage.googleapis.com/v1beta/models''"

definition adapter_url :: "adapter_env \<Rightarrow> adapter \<Rightarrow> (string \<times> json) list \<Rightarrow> string" where
  "adapter_url av a orig =
     (case a of
        OpenAI \<Rightarrow> ''https://api.openai.com/v1/chat/completions''
      | Anthropic \<Rightarrow> ''https://api.anthropic.com/v1/messages''
      | Gemini \<Rightarrow>
          gemini_base @ ''/'' @ py_text (av_str av) (dict_get orig ''model'' (JStr ''gemini-pro''))
            @ (if truthy (dict_get orig ''stream'' (JBool False))
               then '':streamGenerateContent?alt=sse'' else '':generateContent'')
      | Ollama \<Rightarrow> ollama_base_url (av_ollama_host av) @ ''/api/chat'')"

definition auth_headers :: "adapter \<Rightarrow> string \<Rightarrow> (string, string) dict" where
  "auth_headers a key =
     (case a of
        OpenAI \<Rightarrow> [(''Authorization'', ''Bearer '' @ key), (''Content-Type'', ''application/json'')]
      | Anthropic \<Rightarrow> [(''x-api-key'', key), (''anthropic-version'', ''2023-06-01''), (''Content-Type'', ''application/json'')]
      | Gemini \<Rightarrow> [(''x-goog-api-key'', key), (''Content-Type'', ''application/json'')]
      | Ollama \<Rightarrow> [(''Content-Type'', ''application/json''), (''Authorization'', ''Bearer '' @ key)])"

definition translate_request :: "adapter_env \<Rightarrow> adapter \<Rightarrow> (string \<times> json) list option \<Rightarrow> provider_request py_result" where
  "translate_request av a original =
     (let orig = (case original of None \<Rightarrow> [] | Some b \<Rightarrow> b)
      in bind_result (translate_body (av_str av) a orig) (\<lambda>body.
           case resolve_api_key (av_keys av) (provider_name a) of
             Inr key \<Rightarrow> Inr \<lparr>pr_url = adapter_url av a orig, pr_headers = auth_headers a key, pr_body = body\<rparr>
           | Inl e \<Rightarrow>
               if a = Ollama
               then Inr \<lparr>pr_url = adapter_url av a orig, pr_headers = [(''Content-Type'', ''application/json'')], pr_body = body\<rparr>
               else Inl e))"

subsection \<open>Answers\<close>

datatype decode_exn = JSONDecodeError string | DecodeExn string

datatype transport_exn = TimeoutException string | ConnectError | RequestError string | OtherFailure string

datatype post_result = PostFailed transport_exn | Posted nat "decode_exn + json" "(string, string) dict"

definition is_error_status :: "nat \<Rightarrow> bool" where
  "is_error_status n \<longleftrightarrow> 400 \<le> n \<and> n \<le> 599"

definition map_http_status :: "adapter \<Rightarrow> nat \<Rightarrow> nat" where
  "map_http_status a status = (if a = OpenAI \<and> status = 408 then 504 else 502)"

definition returned_http :: "adapter \<Rightarrow> nat \<Rightarrow> string" where
  "returned_http a status = api_label a @ '' returned HTTP '' @ dec status"

text \<open>The message for an error answer; an escaping exception is its type name.\<close>

definition normalize_error :: "(json \<Rightarrow> string) \<Rightarrow> adapter \<Rightarrow> nat \<Rightarrow> decode_exn + json \<Rightarrow> string + string" where
  "normalize_error str_of a status body =
     (case body of
        Inl (JSONDecodeError _) \<Rightarrow> Inr (returned_http a status)
      | Inl (DecodeExn n) \<Rightarrow> Inl n
      | Inr (JObj data) \<Rightarrow>
          if a = Ollama
          then Inr (case map_of data ''error'' of
                      Some e \<Rightarrow> api_label a @ '' error: '' @ type_name e
                    | None \<Rightarrow> returned_http a status)
          else (case dict_get data ''error'' (JObj []) of
                  JObj info \<Rightarrow>
                    Inr (api_label a @ '' error: '' @
                         py_text str_of (if a = Gemini then dict_get info ''status'' (JStr ''UNKNOWN'')
                                         else dict_get info ''type'' (JStr ''unknown_error'')))
                | _ \<Rightarrow> Inl ''AttributeError'')
      | Inr _ \<Rightarrow> if a = Ollama then Inr (returned_http a status) else Inl ''AttributeError'')"

text \<open>The dash in the message of the local provider is the code point 8212, outside the model's characters.\<close>

definition unavailable_message :: "adapter \<Rightarrow> string" where
  "unavailable_message a =
     api_label a @ '' unavailable'' @ (if a = Ollama then '' - is the server running?'' else [])"

definition execute_request :: "(json \<Rightarrow> string) \<Rightarrow> adapter \<Rightarrow> post_result \<Rightarrow> pipe_exn + json \<times> (string, string) dict" where
  "execute_request str_of a res =
     (case res of
        PostFailed (TimeoutException _) \<Rightarrow> Inl (PipelineAbortError 504 (api_label a @ '' timeout''))
      | PostFailed ConnectError \<Rightarrow> Inl (PipelineAbortError 503 (unavailable_message a))
      | PostFailed (RequestError n) \<Rightarrow> Inl (PipelineAbortError 502 (api_label a @ '' request error: '' @ n))
      | PostFailed (OtherFailure n) \<Rightarrow> Inl (PipelineAbortError 502 (api_label a @ '' error: '' @ n))
      | Posted status body headers \<Rightarrow>
          if is_error_status status
          then Inl (case normalize_error str_of a status body of
                      Inr msg \<Rightarrow> PipelineAbortError (map_http_status a status) msg
                    | Inl n \<Rightarrow> PipelineAbortError 502 (api_label a @ '' error: '' @ n))
          else (case body of
                  Inr j \<Rightarrow> Inr (j, headers)
                | Inl (JSONDecodeError t) \<Rightarrow>
                    Inl (PipelineAbortError 502 (api_label a @ '' response parse error: JSONDecodeError: '' @ t))
                | Inl (DecodeExn n) \<Rightarrow> Inl (PipelineAbortError 502 (api_label a @ '' error: '' @ n))))"

subsection \<open>Finish reasons\<close>

definition finish_table :: "adapter \<Rightarrow> (string, finish_reason) dict" where
  "finish_table a =
     (case a of
        OpenAI \<Rightarrow> [(''stop'', STOP), (''length'', LENGTH), (''tool_calls'', TOOL_CALL), (''function_call'', TOOL_CALL),
                   (''content_filter'', CONTENT_FILTER)]
      | Anthropic \<Rightarrow> [(''end_turn'', STOP), (''stop_sequence'', STOP), (''max_tokens'', LENGTH), (''tool_use'', TOOL_CALL)]
      | Gemini \<Rightarrow> [(''STOP'', STOP), (''MAX_TOKENS'', LENGTH), (''SAFETY'', CONTENT_FILTER),
                   (''RECITATION'', CONTENT_FILTER), (''OTHER'', UNKNOWN)]
      | Ollama \<Rightarrow> [(''stop'', STOP), (''length'', LENGTH)])"

definition map_finish_reason :: "adapter \<Rightarrow> json \<Rightarrow> finish_reason py_result" where
  "map_finish_reason a why =
     (case why of
        JStr s \<Rightarrow> Inr (dict_get (finish_table a) s UNKNOWN)
      | JList _ \<Rightarrow> Inl TypeError
      | JObj _ \<Rightarrow> Inl TypeError
      | _ \<Rightarrow> Inr UNKNOWN)"

subsection \<open>Events of one chunk\<close>

text \<open>\<open>we_int\<close> is the validation of an integer field by the model library.\<close>

record wire_env =
  we_str :: "json \<Rightarrow> string"
  we_loads :: "string \<Rightarrow> json option"
  we_int :: "json \<Rightarrow> int option"

definition adapter_event :: "adapter \<Rightarrow> event_type \<Rightarrow> string option \<Rightarrow> stream_event" where
  "adapter_event a ty r =
     \<lparr>event_type = ty, delta_text = None, tool_call = None, reasoning = None, finish_reason = None,
      metadata = [], ev_provider = provider_name a, ev_role = r\<rparr>"

definition parse_anthropic_event :: "wire_env \<Rightarrow> string \<Rightarrow> json \<Rightarrow> stream_event list py_result" where
  "parse_anthropic_event we ty data =
     (let ev = (\<lambda>t. adapter_event Anthropic t (Some ''assistant''))
      in if ty = ''message_start'' then
           bind_result (py_dict data) (\<lambda>d. bind_result (py_dict (dict_get d ''message'' (JObj []))) (\<lambda>m.
             Inr [(ev START)\<lparr>metadata := [(''message_id'', py_text (we_str we) (dict_get m ''id'' (JStr [])))]\<rparr>]))
         else if ty = ''content_block_delta'' then
           bind_result (py_dict data) (\<lambda>d. bind_result (py_dict (dict_get d ''delta'' (JObj []))) (\<lambda>dl.
             let k = dict_get dl ''type'' JNull
             in if k = JStr ''text_delta'' then
                  bind_result (opt_text (dict_get dl ''text'' (JStr []))) (\<lambda>t. Inr [(ev TEXT_DELTA)\<lparr>delta_text := t\<rparr>])
                else if k = JStr ''input_json_delta'' then
                  Inr [(ev TOOL_CALL_DELTA)\<lparr>metadata :=
                         [(''partial_json'', py_text (we_str we) (dict_get dl ''partial_json'' (JStr [])))]\<rparr>]
                else Inr []))
         else if ty = ''message_delta'' then
           bind_result (py_dict data) (\<lambda>d. bind_result (py_dict (dict_get d ''delta'' (JObj []))) (\<lambda>dl.
             let why = dict_get dl ''stop_reason'' JNull
             in if truthy why then
                  bind_result (map_finish_reason Anthropic why) (\<lambda>fr.
                    Inr [(ev FINISH)\<lparr>finish_reason := Some fr, metadata :=
                           [(''stop_reason'', py_text (we_str we) why),
                            (''usage'', py_text (we_str we) (dict_get d ''usage'' (JObj [])))]\<rparr>])
                else Inr []))
         else if ty = ''error'' then
           bind_result (py_dict data) (\<lambda>d.
             Inr [(adapter_event Anthropic ERROR None)\<lparr>metadata := [(''error'', py_text (we_str we) (dict_get d ''error'' (JObj [])))]\<rparr>])
         else Inr [])"

definition first_item :: "json \<Rightarrow> json py_result" where
  "first_item j =
     (case j of
        JList (x # _) \<Rightarrow> Inr x
      | JStr (c # _) \<Rightarrow> Inr (JStr [c])
      | JObj _ \<Rightarrow> Inl KeyError
      | _ \<Rightarrow> Inl TypeError)"

definition part_texts :: "json list \<Rightarrow> json list" where
  "part_texts parts = List.map_filter (\<lambda>p. case p of JObj kvs \<Rightarrow> Some (dict_get kvs ''text'' (JStr [])) | _ \<Rightarrow> None) parts"

fun join_texts :: "json list \<Rightarrow> string py_result" where
  "join_texts [] = Inr []"
| "join_texts (JStr s # rest) = bind_result (join_texts rest) (\<lambda>t. Inr (s @ t))"
| "join_texts (_ # rest) = Inl TypeError"

text \<open>A chunk that ends the answer yields only the end: its text is not emitted.\<close>

definition parse_gemini_event :: "wire_env \<Rightarrow> json \<Rightarrow> stream_event list py_result" where
  "parse_gemini_event we data =
     bind_result (py_dict data) (\<lambda>d.
       let candidates = dict_get d ''candidates'' (JList [])
       in if \<not> truthy candidates then Inr []
          else bind_result (first_item candidates) (\<lambda>c0. bind_result (py_dict c0) (\<lambda>cand.
               bind_result (py_dict (dict_get cand ''content'' (JObj []))) (\<lambda>content.
               bind_result (py_iter (dict_get content ''parts'' (JList []))) (\<lambda>parts.
               bind_result (join_texts (part_texts parts)) (\<lambda>full.
               let r = dict_get content ''role'' (JStr ''model''); why = dict_get cand ''finishReason'' JNull
               in if truthy why then
                    bind_result (map_finish_reason Gemini why) (\<lambda>fr. bind_result (opt_text r) (\<lambda>rl.
                      Inr [(adapter_event Gemini FINISH rl)\<lparr>finish_reason := Some fr,
                             metadata := [(''finishReason'', py_text (we_str we) why)]\<rparr>]))
                  else if full \<noteq> [] then
                    bind_result (opt_text r) (\<lambda>rl. Inr [(adapter_event Gemini TEXT_DELTA rl)\<lparr>delta_text := Some full\<rparr>])
                  else Inr []))))))"

definition parse_ollama_chunk :: "wire_env \<Rightarrow> json \<Rightarrow> stream_event list py_result" where
  "parse_ollama_chunk we data =
     bind_result (py_dict data) (\<lambda>d.
       let (content, r) = (case dict_get d ''message'' (JObj []) of
                             JObj m \<Rightarrow> (dict_get m ''content'' (JStr []), dict_get m ''role'' (JStr ''assistant''))
                           | _ \<Rightarrow> (JStr [], JStr ''assistant''))
       in bind_result (if truthy content
                       then bind_result (opt_text content) (\<lambda>t. bind_result (opt_text r) (\<lambda>rl.
                              Inr [(adapter_event Ollama TEXT_DELTA rl)\<lparr>delta_text := t\<rparr>]))
                       else Inr []) (\<lambda>texts.
          bind_result (if truthy (dict_get d ''done'' (JBool False))
                       then (let why = dict_get d ''done_reason'' (JStr ''stop'')
                             in bind_result (map_finish_reason Ollama why) (\<lambda>fr. bind_result (opt_text r) (\<lambda>rl.
                                  Inr [(adapter_event Ollama FINISH rl)\<lparr>finish_reason := Some fr,
                                         metadata := [(''done_reason'', py_text (we_str we) why)]\<rparr>])))
                       else Inr []) (\<lambda>ends. Inr (texts @ ends))))"

definition tool_delta :: "wire_env \<Rightarrow> string option \<Rightarrow> nat \<times> json \<Rightarrow> stream_event list py_result" where
  "tool_delta we rl = (\<lambda>(index, call).
     bind_result (py_dict call) (\<lambda>tc. bind_result (py_dict (get_or tc ''function'' (JObj []))) (\<lambda>f.
     bind_result (case we_int we (dict_get tc ''index'' (JInt (int index))) of None \<Rightarrow> Inl ValueError | Some i \<Rightarrow> Inr i) (\<lambda>i.
     bind_result (opt_text (dict_get tc ''id'' JNull)) (\<lambda>cid.
     bind_result (opt_text (dict_get tc ''type'' JNull)) (\<lambda>ty.
     bind_result (opt_text (dict_get f ''name'' JNull)) (\<lambda>nm.
     bind_result (opt_text (dict_get f ''arguments'' JNull)) (\<lambda>args.
       Inr [(adapter_event OpenAI TOOL_CALL_DELTA rl)\<lparr>tool_call :=
              Some \<lparr>tc_index = i, tc_id = cid, tc_type = ty, function_name = nm, function_arguments = args\<rparr>\<rparr>]))))))))"

definition parse_choice :: "wire_env \<Rightarrow> (string \<times> json) list \<Rightarrow> json \<Rightarrow> stream_event list py_result" where
  "parse_choice we d choice =
     bind_result (py_dict choice) (\<lambda>ch. bind_result (py_dict (get_or ch ''delta'' (JObj []))) (\<lambda>delta.
       let r = dict_get delta ''role'' JNull; content = dict_get delta ''content'' JNull;
           why = dict_get ch ''finish_reason'' JNull;
           speaker = opt_text (if truthy r then r else JStr ''assistant'')
       in bind_result (if truthy r \<and> \<not> truthy content
                       then bind_result (opt_text r) (\<lambda>rl. Inr [(adapter_event OpenAI START rl)\<lparr>metadata :=
                              [(''id'', py_text (we_str we) (dict_get d ''id'' (JStr []))),
                               (''model'', py_text (we_str we) (dict_get d ''model'' (JStr [])))]\<rparr>])
                       else Inr []) (\<lambda>starts.
          bind_result (if truthy content
                       then bind_result speaker (\<lambda>rl. bind_result (opt_text content) (\<lambda>t.
                              Inr [(adapter_event OpenAI TEXT_DELTA rl)\<lparr>delta_text := t\<rparr>]))
                       else Inr []) (\<lambda>texts.
          bind_result (bind_result (py_iter (get_or delta ''tool_calls'' (JList []))) (\<lambda>tcs.
                         if tcs = [] then Inr [] else bind_result speaker (\<lambda>rl.
                           collect (tool_delta we rl) (enumerate 0 tcs)))) (\<lambda>calls.
          bind_result (if truthy why
                       then bind_result (map_finish_reason OpenAI why) (\<lambda>fr. bind_result speaker (\<lambda>rl.
                              Inr [(adapter_event OpenAI FINISH rl)\<lparr>finish_reason := Some fr,
                                     metadata := [(''finish_reason'', py_text (we_str we) why)]\<rparr>]))
                       else Inr []) (\<lambda>ends.
            Inr (starts @ texts @ calls @ ends)))))))"

definition parse_openai_chunk :: "wire_env \<Rightarrow> json \<Rightarrow> stream_event list py_result" where
  "parse_openai_chunk we data =
     bind_result (py_dict data) (\<lambda>d.
       bind_result (py_iter (get_or d ''choices'' (JList []))) (collect (parse_choice we d)))"

subsection \<open>The streamed answer\<close>

text \<open>The pending SSE event name and the payload of one line, if it has one.\<close>

definition line_payload :: "adapter \<Rightarrow> string \<Rightarrow> string \<Rightarrow> string \<times> string option" where
  "line_payload a pending raw =
     (let line = strip_space raw
      in case a of
           Anthropic \<Rightarrow>
             if line = [] \<or> prefix '':'' line then (pending, None)
             else if prefix ''event: '' line then (drop 7 line, None)
             else if prefix ''data: '' line then (pending, Some (drop 6 line))
             else (pending, None)
         | Gemini \<Rightarrow> (pending, if prefix ''data: '' line then Some (drop 6 line) else None)
         | OpenAI \<Rightarrow> (pending, if prefix ''data: '' line \<and> drop 6 line \<noteq> ''[DONE]'' then Some (drop 6 line) else None)
         | Ollama \<Rightarrow> (pending, if line = [] then None else Some line))"

definition parse_payload :: "wire_env \<Rightarrow> adapter \<Rightarrow> string \<Rightarrow> json \<Rightarrow> stream_event list py_result" where
  "parse_payload we a pending data =
     (case a of
        Anthropic \<Rightarrow> parse_anthropic_event we pending data
      | Gemini \<Rightarrow> parse_gemini_event we data
      | OpenAI \<Rightarrow> parse_openai_chunk we data
      | Ollama \<Rightarrow> parse_ollama_chunk we data)"

text \<open>The events yielded over the lines, and the exception that ended the parsing.\<close>

fun line_events :: "wire_env \<Rightarrow> adapter \<Rightarrow> string \<Rightarrow> string list \<Rightarrow> stream_event list \<times> py_exn option" where
  "line_events we a pending [] = ([], None)"
| "line_events we a pending (l # ls) =
     (case line_payload a pending l of
        (pending', None) \<Rightarrow> line_events we a pending' ls
      | (pending', Some p) \<Rightarrow>
          (case we_loads we p of
             None \<Rightarrow> line_events we a pending' ls
           | Some data \<Rightarrow>
               (case parse_payload we a pending' data of
                  Inl e \<Rightarrow> ([], Some e)
                | Inr evs \<Rightarrow> (case line_events we a pending' ls of (rest, e) \<Rightarrow> (evs @ rest, e)))))"

datatype opened_stream =
    OpenFailed transport_exn
  | OpenedStream nat "decode_exn + json" "string list" "transport_exn option"

definition stream_failure :: "adapter \<Rightarrow> transport_exn \<Rightarrow> pipe_exn" where
  "stream_failure a t =
     (case t of
        TimeoutException n \<Rightarrow> PipelineAbortError 503 (api_label a @ '' stream error: '' @ n)
      | ConnectError \<Rightarrow> PipelineAbortError 503 (api_label a @ '' stream error: ConnectError'')
      | RequestError n \<Rightarrow> PyExn (OtherExn n)
      | OtherFailure n \<Rightarrow> PyExn (OtherExn n))"

definition stream_events :: "wire_env \<Rightarrow> adapter \<Rightarrow> opened_stream \<Rightarrow> stream_event list \<times> pipe_exn option" where
  "stream_events we a s =
     (case s of
        OpenFailed t \<Rightarrow> ([], Some (stream_failure a t))
      | OpenedStream status body lns broken \<Rightarrow>
          if is_error_status status
          then ([], Some (case normalize_error (we_str we) a status body of
                            Inr msg \<Rightarrow> PipelineAbortError (map_http_status a status) msg
                          | Inl n \<Rightarrow> PyExn (OtherExn n)))
          else (case line_events we a [] lns of
                  (evs, Some e) \<Rightarrow> (evs, Some (PyExn e))
                | (evs, None) \<Rightarrow> (evs, map_option (stream_failure a) broken)))"

subsection \<open>The answer in the gateway's format\<close>

definition chat_completion :: "adapter \<Rightarrow> json \<Rightarrow> (string \<times> json) list \<Rightarrow> json \<Rightarrow> string \<Rightarrow> (string \<times> json) list" where
  "chat_completion a mdl body content finish =
     [(''id'', dict_get body ''id'' (JStr (''anonreq-'' @ provider_name a))),
      (''object'', JStr ''chat.completion''), (''created'', JInt 0),
      (''model'', dict_get body ''model'' mdl),
      (''choices'', JList [JObj [(''index'', JInt 0),
         (''message'', JObj [(''role'', JStr ''assistant''), (''content'', content)]),
         (''finish_reason'', JStr finish)]])]"

definition finish_text :: "finish_reason \<Rightarrow> string" where
  "finish_text fr = casefold (finish_value fr)"

definition text_blocks :: "json list \<Rightarrow> json list" where
  "text_blocks bs =
     List.map_filter (\<lambda>b. case b of
        JObj kvs \<Rightarrow> if dict_get kvs ''type'' JNull = JStr ''text'' then Some (dict_get kvs ''text'' (JStr [])) else None
      | _ \<Rightarrow> None) bs"

definition anthropic_response :: "json \<Rightarrow> json \<Rightarrow> json py_result" where
  "anthropic_response mdl response =
     bind_result (py_dict response) (\<lambda>body.
     bind_result (py_iter (dict_get body ''content'' (JList []))) (\<lambda>blocks.
     bind_result (join_texts (text_blocks blocks)) (\<lambda>full.
     bind_result (map_finish_reason Anthropic (dict_get body ''stop_reason'' (JStr ''end_turn''))) (\<lambda>fr.
       Inr (JObj (chat_completion Anthropic mdl body (JStr full) (finish_text fr)
              @ (case map_of body ''usage'' of Some u \<Rightarrow> [(''usage'', u)] | None \<Rightarrow> [])))))))"

definition gemini_answer :: "(string \<times> json) list \<Rightarrow> (string \<times> string) py_result" where
  "gemini_answer body =
     (let candidates = dict_get body ''candidates'' (JList [])
      in if \<not> truthy candidates then Inr ([], ''stop'')
         else bind_result (first_item candidates) (\<lambda>c0. bind_result (py_dict c0) (\<lambda>cand.
              bind_result (py_dict (dict_get cand ''content'' (JObj []))) (\<lambda>content.
              bind_result (py_iter (dict_get content ''parts'' (JList []))) (\<lambda>parts.
              bind_result (join_texts (part_texts parts)) (\<lambda>full.
              bind_result (map_finish_reason Gemini (dict_get cand ''finishReason'' (JStr ''STOP''))) (\<lambda>fr.
                Inr (full, finish_text fr))))))))"

definition gemini_response :: "json \<Rightarrow> json \<Rightarrow> json py_result" where
  "gemini_response mdl response =
     bind_result (py_dict response) (\<lambda>body. bind_result (gemini_answer body) (\<lambda>(full, fin).
       let usage = dict_get body ''usageMetadata'' JNull
       in Inr (JObj (chat_completion Gemini mdl body (JStr full) fin
                @ (if truthy usage then [(''usage'', usage)] else [])))))"

definition ollama_response :: "json \<Rightarrow> json \<Rightarrow> json py_result" where
  "ollama_response mdl response =
     bind_result (py_dict response) (\<lambda>body.
     let content = (case dict_get body ''message'' (JObj []) of JObj m \<Rightarrow> dict_get m ''content'' (JStr []) | _ \<Rightarrow> JStr []);
         why = dict_get body ''done_reason'' (JStr ''stop'')
     in bind_result (if truthy why then bind_result (map_finish_reason Ollama why) (\<lambda>fr. Inr (finish_text fr))
                     else Inr ''stop'') (\<lambda>fin.
          Inr (JObj (chat_completion Ollama mdl body content fin
                 @ (case map_of body ''total_duration'' of
                      Some t \<Rightarrow> [(''usage'', JObj [(''total_duration'', t)])] | None \<Rightarrow> [])))))"

definition translate_response :: "adapter \<Rightarrow> json \<Rightarrow> json \<Rightarrow> json py_result" where
  "translate_response a mdl response =
     (case a of
        OpenAI \<Rightarrow> Inr response
      | Anthropic \<Rightarrow> anthropic_response mdl response
      | Gemini \<Rightarrow> gemini_response mdl response
      | Ollama \<Rightarrow> ollama_response mdl response)"

subsection \<open>What a translated request carries\<close>

text \<open>The strings a document holds, keys aside.\<close>

fun json_texts :: "json \<Rightarrow> string list" where
  "json_texts (JStr s) = [s]"
| "json_texts (JList vs) = concat (map json_texts vs)"
| "json_texts (JObj kvs) = concat (map (\<lambda>(k, v). json_texts v) kvs)"
| "json_texts _ = []"

abbreviation texts_of :: "json \<Rightarrow> string set" where
  "texts_of j \<equiv> set (json_texts j)"

definition adapter_words :: "adapter \<Rightarrow> string list" where
  "adapter_words a =
     (case a of
        OpenAI \<Rightarrow> []
      | Anthropic \<Rightarrow> [[], ''claude-sonnet-4'', ''auto'', ''any'', ''none'']
      | Gemini \<Rightarrow> [[], ''gemini-pro'', ''model'']
      | Ollama \<Rightarrow> [''llama3''])"

text \<open>The contents of the messages as text, which is what a system message becomes.\<close>

definition content_texts :: "(json \<Rightarrow> string) \<Rightarrow> (string \<times> json) list \<Rightarrow> string list" where
  "content_texts str_of orig =
     (case dict_get orig ''messages'' (JList []) of
        JList ms \<Rightarrow> List.map_filter (\<lambda>m. case m of JObj kvs \<Rightarrow> Some (py_text str_of (dict_get kvs ''content'' (JStr []))) | _ \<Rightarrow> None) ms
      | _ \<Rightarrow> [])"

lemma texts_object: "texts_of (JObj kvs) = (\<Union>(k, v) \<in> set kvs. texts_of v)"
  by auto

lemma texts_Nil [simp]: "texts_of (JObj []) = {}"
  by simp

lemma texts_Cons [simp]: "texts_of (JObj ((k, v) # kvs)) = texts_of v \<union> texts_of (JObj kvs)"
  by simp

lemma texts_append [simp]: "texts_of (JObj (xs @ ys)) = texts_of (JObj xs) \<union> texts_of (JObj ys)"
  by simp

declare json_texts.simps(3) [simp del]

lemma texts_get: "map_of kvs k = Some v \<Longrightarrow> texts_of v \<subseteq> texts_of (JObj kvs)"
  unfolding texts_object by (drule map_of_SomeD) force

lemma texts_dict_get: "texts_of (dict_get kvs k d) \<subseteq> texts_of (JObj kvs) \<union> texts_of d"
  using texts_get [of kvs k] by (auto simp: dict_get_def split: option.splits)

lemma texts_iter:
  assumes "py_iter j = Inr xs" "x \<in> set xs" "py_dict x = Inr kvs"
  shows "x = JObj kvs \<and> texts_of x \<subseteq> texts_of j"
  using assms by (cases j; cases x) (auto simp: py_iter_def py_dict_def)

lemma texts_update: "texts_of (JObj (AList.update k v kvs)) \<subseteq> texts_of v \<union> texts_of (JObj kvs)"
proof
  fix s assume "s \<in> texts_of (JObj (AList.update k v kvs))"
  then obtain k' v' where kv: "(k', v') \<in> set (AList.update k v kvs)" "s \<in> texts_of v'" unfolding texts_object by auto
  from kv(1) have "(k', v') = (k, v) \<or> (k', v') \<in> set kvs"
    by (induction kvs) (auto split: if_splits)
  with kv(2) show "s \<in> texts_of v \<union> texts_of (JObj kvs)" unfolding texts_object by force
qed

lemma texts_copy_params: "texts_of (JObj (copy_params ps orig)) \<subseteq> texts_of (JObj orig)"
proof
  fix s assume "s \<in> texts_of (JObj (copy_params ps orig))"
  then obtain k v where "(k, v) \<in> set (copy_params ps orig)" "s \<in> texts_of v" unfolding texts_object by auto
  moreover from this(1) have "map_of orig k = Some v"
    by (auto simp: copy_params_def map_filter_def split: option.splits if_splits)
  ultimately show "s \<in> texts_of (JObj orig)" using texts_get by blast
qed

lemma split_system_texts:
  assumes "split_system str_of conv ms sys = Inr (sys', out)"
    and "\<And>r c. texts_of (conv r c) \<subseteq> texts_of r \<union> texts_of c \<union> W" "[] \<in> W"
    and "\<forall>x \<in> set ms. \<forall>kvs. py_dict x = Inr kvs \<longrightarrow> x = JObj kvs \<and> texts_of x \<subseteq> T"
  shows "texts_of (JList out) \<subseteq> T \<union> W
    \<and> (sys' = sys \<or> (\<exists>kvs. JObj kvs \<in> set ms \<and> sys' = Some (py_text str_of (dict_get kvs ''content'' (JStr [])))))"
  using assms(1,4)
proof (induction ms arbitrary: sys out)
  case (Cons m ms)
  from Cons.prems(1) obtain kvs where m: "py_dict m = Inr kvs" by (cases "py_dict m") auto
  then have mk: "m = JObj kvs" "texts_of m \<subseteq> T" using Cons.prems(2) by auto
  let ?r = "dict_get kvs ''role'' (JStr [])" and ?c = "dict_get kvs ''content'' (JStr [])"
  have rest: "\<forall>x \<in> set ms. \<forall>kvs. py_dict x = Inr kvs \<longrightarrow> x = JObj kvs \<and> texts_of x \<subseteq> T" using Cons.prems(2) by simp
  show ?case
  proof (cases "?r = JStr ''system''")
    case True
    with Cons.prems(1) m have "split_system str_of conv ms (Some (py_text str_of ?c)) = Inr (sys', out)" by simp
    from Cons.IH [OF this rest] mk(1) show ?thesis by auto
  next
    case False
    with Cons.prems(1) m obtain out' where o: "split_system str_of conv ms sys = Inr (sys', out')" "out = conv ?r ?c # out'"
      by (cases "split_system str_of conv ms sys") (auto simp: Let_def)
    have "texts_of ?r \<subseteq> T \<union> W" "texts_of ?c \<subseteq> T \<union> W"
      using texts_dict_get [of kvs "''role''" "JStr []"] texts_dict_get [of kvs "''content''" "JStr []"] mk assms(3)
      by (simp_all add: subset_iff) blast+
    with assms(2) [of ?r ?c] have "texts_of (conv ?r ?c) \<subseteq> T \<union> W" by blast
    with Cons.IH [OF o(1) rest] o(2) show ?thesis by auto
  qed
qed simp

lemma collect_Inr:
  "collect f xs = Inr ys \<Longrightarrow> y \<in> set ys \<Longrightarrow> \<exists>x \<in> set xs. \<exists>zs. f x = Inr zs \<and> y \<in> set zs"
proof (induction xs arbitrary: ys)
  case (Cons x xs)
  then show ?case by (fastforce simp: bind_result_Inr)
qed simp

lemma converted_tools_texts:
  assumes "converted_tools schema wrap orig = Inr kvs"
    and "\<And>ts. texts_of (wrap ts) = texts_of (JList ts)" "[] \<in> W"
  shows "texts_of (JObj kvs) \<subseteq> texts_of (JObj orig) \<union> W"
proof (cases "truthy (dict_get orig ''tools'' JNull)")
  case False
  with assms(1) show ?thesis by (simp add: converted_tools_def)
next
  case True
  let ?tools = "dict_get orig ''tools'' JNull"
  obtain xs ts where xs: "py_iter ?tools = Inr xs" "collect (convert_tool schema) xs = Inr ts" "kvs = [(''tools'', wrap ts)]"
    using assms(1) True by (auto simp: converted_tools_def convert_all_def bind_result_Inr)
  have "texts_of t \<subseteq> texts_of (JObj orig) \<union> W" if "t \<in> set ts" for t
  proof -
    from collect_Inr [OF xs(2) that] obtain x zs where x: "x \<in> set xs" "convert_tool schema x = Inr zs" "t \<in> set zs" by blast
    obtain d f where d: "py_dict x = Inr d" "py_dict (dict_get d ''function'' (JObj [])) = Inr f"
      and t: "t = JObj [(''name'', dict_get f ''name'' (JStr [])), (''description'', dict_get f ''description'' (JStr [])),
                  (schema, dict_get f ''parameters'' (JObj []))]"
      using x(2,3) by (auto simp: convert_tool_def bind_result_Inr)
    have dx: "x = JObj d" "texts_of x \<subseteq> texts_of ?tools" using texts_iter [OF xs(1) x(1) d(1)] by auto
    have tools: "texts_of ?tools \<subseteq> texts_of (JObj orig)" using texts_dict_get [of orig "''tools''" JNull] by simp
    have "dict_get d ''function'' (JObj []) = JObj f" using d(2) by (auto simp: py_dict_def split: json.splits)
    then have "texts_of (JObj f) \<subseteq> texts_of (JObj d)" using texts_dict_get [of d "''function''" "JObj []"] by simp
    then have f: "texts_of (JObj f) \<subseteq> texts_of (JObj orig)" using dx tools by blast
    show ?thesis
      using texts_dict_get [of f "''name''" "JStr []"] texts_dict_get [of f "''description''" "JStr []"]
        texts_dict_get [of f "''parameters''" "JObj []"] f assms(3) unfolding t by (simp add: subset_iff) blast
  qed
  then show ?thesis unfolding xs(3) by (simp add: assms(2)) blast
qed

lemma messages_texts:
  assumes "py_iter (dict_get orig ''messages'' (JList [])) = Inr ms"
  shows "\<forall>x \<in> set ms. \<forall>kvs. py_dict x = Inr kvs \<longrightarrow> x = JObj kvs \<and> texts_of x \<subseteq> texts_of (JObj orig)"
  using texts_iter [OF assms] texts_dict_get [of orig "''messages''" "JList []"] by fastforce

lemma system_text_content:
  assumes "py_iter (dict_get orig ''messages'' (JList [])) = Inr ms" "JObj kvs \<in> set ms"
  shows "py_text str_of (dict_get kvs ''content'' (JStr [])) \<in> set (content_texts str_of orig)"
  using assms
  by (cases "dict_get orig ''messages'' (JList [])") (force simp: content_texts_def py_iter_def map_filter_def)+

lemma system_field_texts:
  assumes "\<And>s. texts_of (wrap s) = {s}"
  shows "texts_of (JObj (system_field k wrap sys)) \<subseteq> (case sys of None \<Rightarrow> {} | Some s \<Rightarrow> {s})"
  using assms by (simp add: system_field_def split: option.split)

lemma anthropic_body_texts:
  assumes "anthropic_body str_of orig = Inr body"
  shows "texts_of (JObj body) \<subseteq> texts_of (JObj orig) \<union> set (adapter_words Anthropic) \<union> set (content_texts str_of orig)"
proof -
  let ?W = "set (adapter_words Anthropic)"
  obtain ms sys out tools where b: "py_iter (dict_get orig ''messages'' (JList [])) = Inr ms"
    "split_system str_of anthropic_message ms None = Inr (sys, out)" "converted_tools ''input_schema'' JList orig = Inr tools"
    "body = [(''model'', dict_get orig ''model'' (JStr ''claude-sonnet-4'')), (''messages'', JList out)]
            @ system_field ''system'' JStr sys @ tools @ anthropic_tool_choice orig
            @ copy_params [''temperature'', ''top_p'', ''max_tokens'', ''stop'', ''stream''] orig"
    using assms by (auto simp: anthropic_body_def bind_result_Inr)
  have W: "[] \<in> ?W" "texts_of (JStr ''claude-sonnet-4'') \<subseteq> ?W" by (simp_all add: adapter_words_def)
  have conv: "texts_of (anthropic_message r c) \<subseteq> texts_of r \<union> texts_of c \<union> ?W" for r c by (simp add: anthropic_message_def)
  have m: "texts_of (JList out) \<subseteq> texts_of (JObj orig) \<union> ?W"
    and sys: "sys = None \<or> (\<exists>kvs. JObj kvs \<in> set ms \<and> sys = Some (py_text str_of (dict_get kvs ''content'' (JStr []))))"
    using split_system_texts [OF b(2) conv W(1) messages_texts [OF b(1)]] by auto
  have "texts_of (JObj (system_field ''system'' JStr sys)) \<subseteq> set (content_texts str_of orig)"
    using system_field_texts [of JStr "''system''" sys] sys system_text_content [OF b(1)] by fastforce
  moreover have "texts_of (JObj tools) \<subseteq> texts_of (JObj orig) \<union> ?W"
    by (rule converted_tools_texts [OF b(3) refl W(1)])
  moreover have "texts_of (JObj (anthropic_tool_choice orig)) \<subseteq> texts_of (JObj orig) \<union> ?W"
    using texts_dict_get [of orig "''tool_choice''" JNull]
    by (auto simp: anthropic_tool_choice_def adapter_words_def split: json.split)
  moreover have "texts_of (dict_get orig ''model'' (JStr ''claude-sonnet-4'')) \<subseteq> texts_of (JObj orig) \<union> ?W"
    using texts_dict_get W(2) by blast
  ultimately show ?thesis
    using m texts_copy_params [of "[''temperature'', ''top_p'', ''max_tokens'', ''stop'', ''stream'']" orig]
    unfolding b(4) texts_append texts_Cons texts_Nil by blast
qed

lemma gemini_body_texts:
  assumes "gemini_body str_of orig = Inr body"
  shows "texts_of (JObj body) \<subseteq> texts_of (JObj orig) \<union> set (adapter_words Gemini) \<union> set (content_texts str_of orig)"
proof -
  let ?W = "set (adapter_words Gemini)"
  let ?gen = "copy_params [''temperature'', ''top_p'', ''max_tokens'', ''stop''] orig"
  let ?wrap = "\<lambda>ts. JList [JObj [(''function_declarations'', JList ts)]]"
  let ?sys = "\<lambda>s. JObj [(''parts'', JList [JObj [(''text'', JStr s)]])]"
  obtain ms sys out tools where b: "py_iter (dict_get orig ''messages'' (JList [])) = Inr ms"
    "split_system str_of gemini_content ms None = Inr (sys, out)" "converted_tools ''parameters'' ?wrap orig = Inr tools"
    "body = [(''model'', dict_get orig ''model'' (JStr ''gemini-pro'')), (''contents'', JList out)]
            @ system_field ''system_instruction'' ?sys sys
            @ tools @ (if ?gen = [] then [] else [(''generationConfig'', JObj ?gen)])"
    using assms by (auto simp: gemini_body_def bind_result_Inr Let_def)
  have W: "[] \<in> ?W" "texts_of (JStr ''gemini-pro'') \<subseteq> ?W" by (simp_all add: adapter_words_def)
  have conv: "texts_of (gemini_content r c) \<subseteq> texts_of r \<union> texts_of c \<union> ?W" for r c
    by (cases c) (auto simp: gemini_content_def adapter_words_def)
  have m: "texts_of (JList out) \<subseteq> texts_of (JObj orig) \<union> ?W"
    and sys: "sys = None \<or> (\<exists>kvs. JObj kvs \<in> set ms \<and> sys = Some (py_text str_of (dict_get kvs ''content'' (JStr []))))"
    using split_system_texts [OF b(2) conv W(1) messages_texts [OF b(1)]] by auto
  have "texts_of (JObj (system_field ''system_instruction'' ?sys sys)) \<subseteq> set (content_texts str_of orig)"
    using system_field_texts [of ?sys "''system_instruction''" sys] sys system_text_content [OF b(1)] by fastforce
  moreover have "texts_of (JObj tools) \<subseteq> texts_of (JObj orig) \<union> ?W"
    by (rule converted_tools_texts [OF b(3) _ W(1)]) simp
  moreover have "texts_of (JObj (if ?gen = [] then [] else [(''generationConfig'', JObj ?gen)])) \<subseteq> texts_of (JObj orig)"
    using texts_copy_params [of "[''temperature'', ''top_p'', ''max_tokens'', ''stop'']" orig] by simp
  moreover have "texts_of (dict_get orig ''model'' (JStr ''gemini-pro'')) \<subseteq> texts_of (JObj orig) \<union> ?W"
    using texts_dict_get W(2) by blast
  ultimately show ?thesis using m unfolding b(4) texts_append texts_Cons texts_Nil by blast
qed

lemma plain_body_texts:
  "texts_of (JObj (openai_body orig)) \<subseteq> texts_of (JObj orig)"
  "texts_of (JObj (ollama_body orig)) \<subseteq> texts_of (JObj orig) \<union> set (adapter_words Ollama)"
proof -
  show "texts_of (JObj (openai_body orig)) \<subseteq> texts_of (JObj orig)"
    unfolding openai_body_def texts_object by auto
  show "texts_of (JObj (ollama_body orig)) \<subseteq> texts_of (JObj orig) \<union> set (adapter_words Ollama)"
    using texts_dict_get [of orig "''model''" "JStr ''llama3''"] texts_dict_get [of orig "''messages''" "JList []"]
      texts_copy_params [of "[''temperature'', ''top_p'', ''top_k'', ''stream'', ''format'', ''options'']" orig]
    unfolding ollama_body_def texts_append texts_Cons texts_Nil by (auto simp: adapter_words_def)
qed

lemma translate_request_cases:
  assumes "translate_request av a (Some orig) = Inr req"
  obtains (keyed) k where "resolve_api_key (av_keys av) (provider_name a) = Inr k"
    "translate_body (av_str av) a orig = Inr (pr_body req)" "pr_headers req = auth_headers a k"
  | (keyless) "a = Ollama" "translate_body (av_str av) a orig = Inr (pr_body req)"
proof -
  obtain body where body: "translate_body (av_str av) a orig = Inr body"
    using assms by (cases "translate_body (av_str av) a orig") (simp_all add: translate_request_def)
  show thesis
  proof (cases "resolve_api_key (av_keys av) (provider_name a)")
    case (Inl e)
    with assms body show thesis by (intro keyless) (auto simp: translate_request_def split: if_splits)
  next
    case (Inr k)
    with assms body show thesis by (intro keyed [of k]) (auto simp: translate_request_def)
  qed
qed

lemma translate_request_body:
  "translate_request av a (Some orig) = Inr req \<Longrightarrow> translate_body (av_str av) a orig = Inr (pr_body req)"
  by (elim translate_request_cases)

lemma translated_texts:
  assumes "translate_request av a (Some orig) = Inr req"
  shows "texts_of (JObj (pr_body req))
     \<subseteq> texts_of (JObj orig) \<union> set (adapter_words a) \<union> set (content_texts (av_str av) orig)"
proof -
  have tb: "translate_body (av_str av) a orig = Inr (pr_body req)"
    by (rule translate_request_body [OF assms])
  show ?thesis
  proof (cases a)
    case OpenAI
    then have "pr_body req = openai_body orig" using tb by (simp add: translate_body_def)
    then show ?thesis using plain_body_texts(1) [of orig] by (simp only:) blast
  next
    case Anthropic
    with tb anthropic_body_texts show ?thesis by (simp add: translate_body_def)
  next
    case Gemini
    with tb gemini_body_texts show ?thesis by (simp add: translate_body_def)
  next
    case Ollama
    then have "pr_body req = ollama_body orig" using tb by (simp add: translate_body_def)
    then show ?thesis using plain_body_texts(2) [of orig] Ollama by (simp only:) blast
  qed
qed

text \<open>
  The messages other than system messages reach the provider in order, with their roles and contents;
  of several system messages the adapters that lift them keep the last.
\<close>

definition is_system :: "(string \<times> json) list \<Rightarrow> bool" where
  "is_system msg \<longleftrightarrow> dict_get msg ''role'' (JStr []) = JStr ''system''"

lemma split_system_messages:
  "split_system str_of conv (map JObj ms) sys =
     Inr (case filter is_system ms of [] \<Rightarrow> sys
          | _ \<Rightarrow> Some (py_text str_of (dict_get (last (filter is_system ms)) ''content'' (JStr []))),
          map (\<lambda>m. conv (dict_get m ''role'' (JStr [])) (dict_get m ''content'' (JStr []))) (filter (\<lambda>m. \<not> is_system m) ms))"
  by (induction ms arbitrary: sys) (auto simp: py_dict_def is_system_def Let_def split: list.split)

lemma earlier_system_messages_dropped:
  "anthropic_body (\<lambda>_. []) [(''model'', JStr ''m''), (''messages'', JList
      [JObj [(''role'', JStr ''system''), (''content'', JStr ''Never give advice'')],
       JObj [(''role'', JStr ''system''), (''content'', JStr ''Be brief'')],
       JObj [(''role'', JStr ''user''), (''content'', JStr ''hi'')]])]
   = Inr [(''model'', JStr ''m''), (''messages'', JList [JObj [(''role'', JStr ''user''), (''content'', JStr ''hi'')]]),
          (''system'', JStr ''Be brief'')]"
  by code_simp

subsection \<open>Keys\<close>

abbreviation with_gateway_key :: "adapter_env \<Rightarrow> string \<Rightarrow> adapter_env" where
  "with_gateway_key av v \<equiv>
     av\<lparr>av_keys := (av_keys av)\<lparr>ke_environ := AList.update ''ANONREQ_API_KEY'' v (ke_environ (av_keys av))\<rparr>\<rparr>"

lemma adapter_key_names: "upper (provider_name a) \<noteq> ''ANONREQ''"
proof (cases a)
  case OpenAI
  show ?thesis unfolding OpenAI by code_simp
next
  case Anthropic
  show ?thesis unfolding Anthropic by code_simp
next
  case Gemini
  show ?thesis unfolding Gemini by code_simp
next
  case Ollama
  show ?thesis unfolding Ollama by code_simp
qed

lemma gateway_key_not_sent: "translate_request (with_gateway_key av v) a original = translate_request av a original"
proof -
  have "resolve_api_key (av_keys (with_gateway_key av v)) (provider_name a) = resolve_api_key (av_keys av) (provider_name a)"
    using gateway_key_unread [OF adapter_key_names [of a], of v "av_keys av"] by simp
  moreover have "adapter_url (with_gateway_key av v) a = adapter_url av a" by (cases a) (simp_all add: adapter_url_def fun_eq_iff)
  moreover have "av_str (with_gateway_key av v) = av_str av" by simp
  ultimately show ?thesis unfolding translate_request_def by (simp only:)
qed

lemma only_ollama_keyless:
  assumes "translate_request av a (Some orig) = Inr req" "a \<noteq> Ollama"
  shows "\<exists>k. resolve_api_key (av_keys av) (provider_name a) = Inr k \<and> pr_headers req = auth_headers a k"
  using assms by (elim translate_request_cases) blast+

subsection \<open>What an error answer discloses\<close>

lemma error_answer_status:
  assumes "execute_request str_of a res = Inl e"
  shows "\<exists>n msg. e = PipelineAbortError n msg \<and> n \<in> {502, 503, 504}"
  using assms
  by (auto simp: execute_request_def map_http_status_def split: post_result.splits transport_exn.splits sum.splits decode_exn.splits if_splits)

text \<open>Two error bodies with the same error type, or status, give the same answer, whatever else they say.\<close>

definition error_kind :: "adapter \<Rightarrow> (string \<times> json) list \<Rightarrow> json option" where
  "error_kind a data =
     (if a = Ollama then map_option (\<lambda>e. JStr (type_name e)) (map_of data ''error'')
      else (case dict_get data ''error'' (JObj []) of
              JObj info \<Rightarrow> Some (if a = Gemini then dict_get info ''status'' (JStr ''UNKNOWN'')
                                 else dict_get info ''type'' (JStr ''unknown_error''))
            | _ \<Rightarrow> None))"

lemma error_answer_kind:
  assumes "error_kind a d = error_kind a d'" "is_error_status status"
  shows "execute_request str_of a (Posted status (Inr (JObj d)) h) = execute_request str_of a (Posted status (Inr (JObj d')) h')"
proof (cases "a = Ollama")
  case True
  with assms(1) have "map_option type_name (map_of d ''error'') = map_option type_name (map_of d' ''error'')"
    by (cases "map_of d ''error''"; cases "map_of d' ''error''") (simp_all add: error_kind_def)
  then show ?thesis
    using True assms(2)
    by (cases "map_of d ''error''"; cases "map_of d' ''error''") (simp_all add: execute_request_def normalize_error_def)
next
  case False
  have "normalize_error str_of a status (Inr (JObj x)) =
      (case error_kind a x of None \<Rightarrow> Inl ''AttributeError'' | Some k \<Rightarrow> Inr (api_label a @ '' error: '' @ py_text str_of k))" for x
    using False by (simp add: normalize_error_def error_kind_def split: json.split)
  then show ?thesis using assms by (simp add: execute_request_def)
qed

subsection \<open>The text of a streamed answer\<close>

definition deltas :: "stream_event list \<Rightarrow> string" where
  "deltas evs = concat (map delta_of evs)"

lemma deltas_simps [simp]: "deltas [] = []" "deltas (e # evs) = delta_of e @ deltas evs" "deltas (xs @ ys) = deltas xs @ deltas ys"
  by (simp_all add: deltas_def)

lemma delta_of_adapter_event [simp]:
  "event_type (adapter_event a ty r) = ty" "delta_text (adapter_event a ty r) = None"
  by (simp_all add: adapter_event_def)

lemma anthropic_text:
  "parse_anthropic_event we ''content_block_delta''
     (JObj [(''delta'', JObj [(''type'', JStr ''text_delta''), (''text'', JStr t)])])
   = Inr [(adapter_event Anthropic TEXT_DELTA (Some ''assistant''))\<lparr>delta_text := Some t\<rparr>]"
  by (simp add: parse_anthropic_event_def py_dict_def dict_get_def opt_text_def Let_def)

lemma ollama_text:
  assumes "parse_ollama_chunk we (JObj d) = Inr evs" "dict_get d ''message'' (JObj []) = JObj m"
    "dict_get m ''content'' (JStr []) = JStr t"
  shows "deltas evs = t"
  using assms
  by (auto simp: parse_ollama_chunk_def py_dict_def bind_result_Inr opt_text_def truthy_def delta_of_def Let_def split: if_splits)

lemma gemini_text:
  assumes "parse_gemini_event we (JObj d) = Inr evs" "dict_get d ''candidates'' (JList []) = JList [JObj cand]"
    "dict_get cand ''content'' (JObj []) = JObj content" "dict_get content ''parts'' (JList []) = JList parts"
    "join_texts (part_texts parts) = Inr t"
  shows "deltas evs = (if truthy (dict_get cand ''finishReason'' JNull) then [] else t)"
  using assms
  by (auto simp: parse_gemini_event_def py_dict_def bind_result_Inr first_item_def py_iter_def delta_of_def truthy_def [of "JList _"] Let_def
      split: if_splits)

text \<open>The last chunk of a short Gemini answer holds its text and its end; only the end is yielded.\<close>

lemma gemini_final_text_lost:
  "parse_gemini_event we (JObj [(''candidates'', JList [JObj
       [(''content'', JObj [(''parts'', JList [JObj [(''text'', JStr ''Yes.'')]]), (''role'', JStr ''model'')]),
        (''finishReason'', JStr ''STOP'')]])])
   = Inr [(adapter_event Gemini FINISH (Some ''model''))\<lparr>finish_reason := Some STOP, metadata := [(''finishReason'', ''STOP'')]\<rparr>]"
  by (simp add: parse_gemini_event_def py_dict_def dict_get_def opt_text_def first_item_def py_iter_def part_texts_def
      map_filter_simps truthy_def map_finish_reason_def finish_table_def py_text_def Let_def)

text \<open>The same document through the non-streaming translation keeps its text.\<close>

lemma gemini_response_text:
  "translate_response Gemini JNull (JObj [(''candidates'', JList [JObj
       [(''content'', JObj [(''parts'', JList [JObj [(''text'', JStr ''Yes.'')]]), (''role'', JStr ''model'')]),
        (''finishReason'', JStr ''STOP'')]])])
   = Inr (JObj (chat_completion Gemini JNull [(''candidates'', JList [JObj
       [(''content'', JObj [(''parts'', JList [JObj [(''text'', JStr ''Yes.'')]]), (''role'', JStr ''model'')]),
        (''finishReason'', JStr ''STOP'')]])] (JStr ''Yes.'') ''stop''))"
  by code_simp

text \<open>The events over the lines are those of the payloads, in order.\<close>

lemma line_events_append:
  "line_events we a pending (ls @ ls') =
     (case line_events we a pending ls of
        (evs, Some e) \<Rightarrow> (evs, Some e)
      | (evs, None) \<Rightarrow>
          (case line_events we a (foldl (\<lambda>p l. fst (line_payload a p l)) pending ls) ls' of (evs', e) \<Rightarrow> (evs @ evs', e)))"
  by (induction ls arbitrary: pending)
    (auto split: prod.splits option.splits sum.splits)

subsection \<open>The shape of the events\<close>

definition well_formed_event :: "adapter \<Rightarrow> stream_event \<Rightarrow> bool" where
  "well_formed_event a ev \<longleftrightarrow>
     ev_provider ev = provider_name a
     \<and> (case event_type ev of
          START \<Rightarrow> delta_text ev = None \<and> a \<in> {OpenAI, Anthropic}
        | TEXT_DELTA \<Rightarrow> a = Anthropic \<or> (\<exists>t. delta_text ev = Some t \<and> t \<noteq> [])
        | TOOL_CALL_DELTA \<Rightarrow> delta_text ev = None \<and>
            (a = OpenAI \<and> tool_call ev \<noteq> None \<or> a = Anthropic \<and> (\<exists>piece. metadata ev = [(''partial_json'', piece)]))
        | FINISH \<Rightarrow> delta_text ev = None \<and> finish_reason ev \<noteq> None
        | ERROR \<Rightarrow> delta_text ev = None \<and> a = Anthropic
        | _ \<Rightarrow> False)"

lemma adapter_event_provider [simp]: "ev_provider (adapter_event a ty r) = provider_name a"
  by (simp add: adapter_event_def)

lemma opt_text_truthy: "opt_text j = Inr t \<Longrightarrow> truthy j \<Longrightarrow> \<exists>s. t = Some s \<and> s \<noteq> []"
  by (auto simp: opt_text_def truthy_def split: json.splits)

definition all_well_formed :: "adapter \<Rightarrow> stream_event list py_result \<Rightarrow> bool" where
  "all_well_formed a r \<longleftrightarrow> (\<forall>evs. r = Inr evs \<longrightarrow> list_all (well_formed_event a) evs)"

lemma all_well_formed_simps [simp]:
  "all_well_formed a (Inl e)" "all_well_formed a (Inr evs) \<longleftrightarrow> list_all (well_formed_event a) evs"
  by (simp_all add: all_well_formed_def)

lemma well_formed_bind:
  "(\<And>x. m = Inr x \<Longrightarrow> all_well_formed a (f x)) \<Longrightarrow> all_well_formed a (bind_result m f)"
  by (cases m) simp_all

lemma well_formed_append:
  assumes "all_well_formed a m" "\<And>xs. list_all (well_formed_event a) xs \<Longrightarrow> all_well_formed a (f xs)"
  shows "all_well_formed a (bind_result m f)"
  using assms by (cases m) simp_all

lemma well_formed_collect: "(\<And>x. all_well_formed a (f x)) \<Longrightarrow> all_well_formed a (collect f xs)"
  by (induction xs) (auto intro!: well_formed_append)

lemma well_formed_if:
  "(c \<Longrightarrow> all_well_formed a x) \<Longrightarrow> (\<not> c \<Longrightarrow> all_well_formed a y) \<Longrightarrow> all_well_formed a (if c then x else y)"
  by simp

lemma anthropic_well_formed: "all_well_formed Anthropic (parse_anthropic_event we ty data)"
  unfolding parse_anthropic_event_def Let_def
  by (intro well_formed_if well_formed_bind) (simp_all add: well_formed_event_def)

lemma gemini_well_formed: "all_well_formed Gemini (parse_gemini_event we data)"
  unfolding parse_gemini_event_def Let_def
  by (intro well_formed_if well_formed_bind) (simp_all add: well_formed_event_def)

lemma ollama_well_formed: "all_well_formed Ollama (parse_ollama_chunk we data)"
proof -
  have t: "all_well_formed Ollama (if truthy content
      then bind_result (opt_text content) (\<lambda>t. bind_result (opt_text r) (\<lambda>rl. Inr [(adapter_event Ollama TEXT_DELTA rl)\<lparr>delta_text := t\<rparr>]))
      else Inr [])" for content r
    by (auto simp: well_formed_event_def intro!: well_formed_bind dest: opt_text_truthy)
  have e: "all_well_formed Ollama (if dn
      then bind_result (map_finish_reason Ollama why) (\<lambda>fr. bind_result (opt_text r) (\<lambda>rl.
        Inr [(adapter_event Ollama FINISH rl)\<lparr>finish_reason := Some fr, metadata := [(''done_reason'', py_text (we_str we) why)]\<rparr>]))
      else Inr [])" for dn why r
    by (auto simp: well_formed_event_def intro!: well_formed_bind)
  show ?thesis
    unfolding parse_ollama_chunk_def Let_def
    by (rule well_formed_bind, rule prod.split [THEN iffD2], intro allI impI, rule well_formed_append [OF t],
        rule well_formed_append [OF e], simp)
qed

lemma tool_delta_well_formed: "all_well_formed OpenAI (tool_delta we rl ic)"
  by (cases ic) (auto simp: tool_delta_def well_formed_event_def intro!: well_formed_bind)

lemma choice_well_formed: "all_well_formed OpenAI (parse_choice we d choice)"
proof -
  have s: "all_well_formed OpenAI (if q then bind_result (opt_text r) (\<lambda>rl. Inr [(adapter_event OpenAI START rl)\<lparr>metadata := md\<rparr>])
      else Inr [])" for q r md
    by (auto simp: well_formed_event_def intro!: well_formed_bind)
  have t: "all_well_formed OpenAI (if truthy content
      then bind_result sp (\<lambda>rl. bind_result (opt_text content) (\<lambda>t. Inr [(adapter_event OpenAI TEXT_DELTA rl)\<lparr>delta_text := t\<rparr>]))
      else Inr [])" for content sp
    by (auto simp: well_formed_event_def intro!: well_formed_bind dest: opt_text_truthy)
  have c: "all_well_formed OpenAI (bind_result m (\<lambda>tcs. if tcs = [] then Inr []
      else bind_result sp (\<lambda>rl. collect (tool_delta we rl) (enumerate 0 tcs))))" for m :: "json list py_result" and sp
    by (auto intro!: well_formed_bind well_formed_collect tool_delta_well_formed)
  have e: "all_well_formed OpenAI (if q
      then bind_result fr (\<lambda>fr. bind_result sp (\<lambda>rl. Inr [(adapter_event OpenAI FINISH rl)\<lparr>finish_reason := Some fr, metadata := md\<rparr>]))
      else Inr [])" for q fr sp md
    by (auto simp: well_formed_event_def intro!: well_formed_bind)
  show ?thesis
    unfolding parse_choice_def Let_def
    by (rule well_formed_bind, rule well_formed_bind, rule well_formed_append [OF s], rule well_formed_append [OF t],
        rule well_formed_append [OF c], rule well_formed_append [OF e], simp)
qed

lemma openai_well_formed: "all_well_formed OpenAI (parse_openai_chunk we data)"
  unfolding parse_openai_chunk_def by (intro well_formed_bind well_formed_collect choice_well_formed)

lemma payload_well_formed: "all_well_formed a (parse_payload we a pending data)"
  by (cases a) (simp_all add: parse_payload_def openai_well_formed anthropic_well_formed gemini_well_formed ollama_well_formed)

lemma lines_well_formed: "list_all (well_formed_event a) (fst (line_events we a pending ls))"
  by (induction we a pending ls rule: line_events.induct)
    (auto split: prod.splits option.splits sum.splits
      simp: payload_well_formed [unfolded all_well_formed_def, rule_format])

lemma stream_events_well_formed: "list_all (well_formed_event a) (fst (stream_events we a s))"
proof (cases s)
  case (OpenedStream status body lns broken)
  then show ?thesis
    using lines_well_formed [of a we "[]" lns] by (auto simp: stream_events_def split: prod.splits option.splits)
qed (simp add: stream_events_def)

subsection \<open>What a streamed answer says\<close>

text \<open>
  The text and the tool arguments of an answer by the fields the providers' formats give them, read by
  path, and the payloads of a stream with the event name each one came under.
\<close>

definition text_at :: "json \<Rightarrow> key list \<Rightarrow> string" where
  "text_at doc ks = (case read_keys doc ks of Some (JStr s) \<Rightarrow> s | _ \<Rightarrow> [])"

definition items_at :: "json \<Rightarrow> key list \<Rightarrow> json list" where
  "items_at doc ks = (case read_keys doc ks of Some (JList xs) \<Rightarrow> xs | _ \<Rightarrow> [])"

definition block_delta :: "string \<Rightarrow> json \<Rightarrow> string \<Rightarrow> bool" where
  "block_delta name data kind \<longleftrightarrow> name = ''content_block_delta''
     \<and> read_keys data [KName ''delta'', KName ''type''] = Some (JStr kind)"

definition answer_text :: "adapter \<Rightarrow> string \<Rightarrow> json \<Rightarrow> string" where
  "answer_text a name data =
     (case a of
        OpenAI \<Rightarrow> concat (map (\<lambda>ch. text_at ch [KName ''delta'', KName ''content'']) (items_at data [KName ''choices'']))
      | Anthropic \<Rightarrow> if block_delta name data ''text_delta'' then text_at data [KName ''delta'', KName ''text''] else []
      | Gemini \<Rightarrow>
          if (case read_keys data [KName ''candidates'', KIdx 0, KName ''finishReason''] of Some v \<Rightarrow> truthy v | None \<Rightarrow> False)
          then []
          else concat (map (\<lambda>p. text_at p [KName ''text''])
                 (items_at data [KName ''candidates'', KIdx 0, KName ''content'', KName ''parts'']))
      | Ollama \<Rightarrow> text_at data [KName ''message'', KName ''content''])"

definition answer_arguments :: "wire_env \<Rightarrow> adapter \<Rightarrow> string \<Rightarrow> json \<Rightarrow> string" where
  "answer_arguments we a name data =
     (case a of
        OpenAI \<Rightarrow> concat (map (\<lambda>ch. concat (map (\<lambda>tc. text_at tc [KName ''function'', KName ''arguments''])
                    (items_at ch [KName ''delta'', KName ''tool_calls'']))) (items_at data [KName ''choices'']))
      | Anthropic \<Rightarrow>
          if block_delta name data ''input_json_delta''
          then (case read_keys data [KName ''delta'', KName ''partial_json''] of Some j \<Rightarrow> py_text (we_str we) j | None \<Rightarrow> [])
          else []
      | _ \<Rightarrow> [])"

definition tool_text :: "stream_event \<Rightarrow> string" where
  "tool_text ev =
     (if event_type ev = TOOL_CALL_DELTA
      then (case tool_call ev of
              Some tc \<Rightarrow> (case function_arguments tc of None \<Rightarrow> [] | Some s \<Rightarrow> s)
            | None \<Rightarrow> dict_get (metadata ev) ''partial_json'' [])
      else [])"

fun payloads :: "wire_env \<Rightarrow> adapter \<Rightarrow> string \<Rightarrow> string list \<Rightarrow> (string \<times> json) list" where
  "payloads we a pending [] = []"
| "payloads we a pending (l # ls) =
     (let (pending', p) = line_payload a pending l
      in (case p of None \<Rightarrow> [] | Some t \<Rightarrow> (case we_loads we t of None \<Rightarrow> [] | Some d \<Rightarrow> [(pending', d)]))
           @ payloads we a pending' ls)"

lemma get_key_simps [simp]:
  "get_key (JObj kvs) (KName n) = map_of kvs n" "get_key (JStr s) k = None" "get_key JNull k = None"
  "get_key (JList xs) (KName n) = None" "get_key (JBool b) k = None" "get_key (JInt i) k = None" "get_key (JFloat r) k = None"
  by (simp_all add: get_key_def split: key.split)

definition says :: "stream_event list py_result \<Rightarrow> string \<Rightarrow> string \<Rightarrow> bool" where
  "says r t u \<longleftrightarrow> (\<forall>evs. r = Inr evs \<longrightarrow> deltas evs = t \<and> concat (map tool_text evs) = u)"

lemma says_simps [simp]:
  "says (Inl e) t u" "says (Inr evs) t u \<longleftrightarrow> deltas evs = t \<and> concat (map tool_text evs) = u"
  by (simp_all add: says_def)

lemma says_bind: "(\<And>x. m = Inr x \<Longrightarrow> says (f x) t u) \<Longrightarrow> says (bind_result m f) t u"
  by (cases m) simp_all

lemma says_if: "(c \<Longrightarrow> says x t u) \<Longrightarrow> (\<not> c \<Longrightarrow> says y t u) \<Longrightarrow> says (if c then x else y) t u"
  by simp

lemma says_append:
  assumes "says m t u" "\<And>xs. m = Inr xs \<Longrightarrow> deltas xs = t \<Longrightarrow> concat (map tool_text xs) = u \<Longrightarrow> says (f xs) v w"
  shows "says (bind_result m f) v w"
  using assms by (cases m) simp_all

lemma says_collect:
  "(\<And>x. x \<in> set xs \<Longrightarrow> says (f x) (g x) (h x)) \<Longrightarrow> says (collect f xs) (concat (map g xs)) (concat (map h xs))"
proof (induction xs)
  case (Cons x xs)
  have tail: "says (collect f xs) (concat (map g xs)) (concat (map h xs))" using Cons by simp
  have "says (f x) (g x) (h x)" using Cons.prems by simp
  then show ?case using tail by (auto intro!: says_append [OF _ says_append [OF tail]])
qed simp

lemma plain_event_text [simp]:
  "delta_of ((adapter_event a ty r)\<lparr>metadata := md\<rparr>) = []" "tool_text ((adapter_event a ty r)\<lparr>metadata := md\<rparr>)
     = (if ty = TOOL_CALL_DELTA then dict_get md ''partial_json'' [] else [])"
  "delta_of ((adapter_event a ty r)\<lparr>delta_text := d\<rparr>) = (if ty = TEXT_DELTA then (case d of None \<Rightarrow> [] | Some s \<Rightarrow> s) else [])"
  "tool_text ((adapter_event a TEXT_DELTA r)\<lparr>delta_text := d\<rparr>) = []"
  "delta_of ((adapter_event a ty r)\<lparr>finish_reason := x, metadata := md\<rparr>) = []"
  "tool_text ((adapter_event a FINISH r)\<lparr>finish_reason := x, metadata := md\<rparr>) = []"
  "delta_of ((adapter_event a ty r)\<lparr>tool_call := y\<rparr>) = []"
  by (simp_all add: delta_of_def tool_text_def adapter_event_def)

lemma py_dict_Inr: "py_dict j = Inr d \<longleftrightarrow> j = JObj d"
  by (cases j) (auto simp: py_dict_def)

lemma opt_text_Inr: "opt_text j = Inr t \<longleftrightarrow> (j = JNull \<and> t = None \<or> (\<exists>s. j = JStr s \<and> t = Some s))"
  by (cases j) (auto simp: opt_text_def)

lemma text_at_str [simp]: "text_at (JStr s) (k # ks) = []"
  by (simp add: text_at_def)

lemma text_at_field: "read_keys (JObj d) [KName a, KName b] = (case map_of d a of None \<Rightarrow> None | Some v \<Rightarrow> get_key v (KName b))"
  by (auto split: option.splits)

lemma anthropic_says: "says (parse_anthropic_event we n data) (answer_text Anthropic n data) (answer_arguments we Anthropic n data)"
proof (cases "n = ''content_block_delta''")
  case True
  show ?thesis
    unfolding says_def
  proof (intro allI impI)
    fix evs assume p: "parse_anthropic_event we n data = Inr evs"
    obtain d dl where d: "data = JObj d" "dict_get d ''delta'' (JObj []) = JObj dl"
      using p True by (auto simp: parse_anthropic_event_def bind_result_Inr py_dict_Inr Let_def)
    have rd: "read_keys data [KName ''delta'', KName k] = map_of dl k" for k
      using d by (auto simp: dict_get_def split: option.splits)
    let ?k = "dict_get dl ''type'' JNull" and ?ev = "\<lambda>t. adapter_event Anthropic t (Some ''assistant'')"
    have k: "?k = JStr s \<longleftrightarrow> map_of dl ''type'' = Some (JStr s)" for s by (simp add: dict_get_def split: option.split)
    have eq: "Inr evs =
        (if ?k = JStr ''text_delta'' then
           bind_result (opt_text (dict_get dl ''text'' (JStr []))) (\<lambda>t. Inr [(?ev TEXT_DELTA)\<lparr>delta_text := t\<rparr>])
         else if ?k = JStr ''input_json_delta'' then
           Inr [(?ev TOOL_CALL_DELTA)\<lparr>metadata := [(''partial_json'', py_text (we_str we) (dict_get dl ''partial_json'' (JStr [])))]\<rparr>]
         else Inr [])"
      unfolding p [symmetric] by (simp add: parse_anthropic_event_def True d py_dict_def Let_def)
    have tx: "answer_text Anthropic n data = (if ?k = JStr ''text_delta'' then case map_of dl ''text'' of Some (JStr s) \<Rightarrow> s | _ \<Rightarrow> [] else [])"
      unfolding answer_text_def block_delta_def text_at_def rd k using True by simp
    have ar: "answer_arguments we Anthropic n data = (if ?k = JStr ''input_json_delta''
        then case map_of dl ''partial_json'' of Some j \<Rightarrow> py_text (we_str we) j | None \<Rightarrow> [] else [])"
      unfolding answer_arguments_def block_delta_def rd k using True by simp
    consider "?k = JStr ''text_delta''" | "?k = JStr ''input_json_delta''" | "?k \<noteq> JStr ''text_delta''" "?k \<noteq> JStr ''input_json_delta''"
      by blast
    then show "deltas evs = answer_text Anthropic n data \<and> concat (map tool_text evs) = answer_arguments we Anthropic n data"
    proof cases
      case 1
      then obtain t where t: "opt_text (dict_get dl ''text'' (JStr [])) = Inr t" "evs = [(?ev TEXT_DELTA)\<lparr>delta_text := t\<rparr>]"
        using eq by (cases "opt_text (dict_get dl ''text'' (JStr []))") simp_all
      have "(case map_of dl ''text'' of Some (JStr s) \<Rightarrow> s | _ \<Rightarrow> []) = (case t of None \<Rightarrow> [] | Some s \<Rightarrow> s)"
        using t(1) by (cases "map_of dl ''text''") (auto simp: dict_get_def opt_text_Inr)
      then show ?thesis unfolding tx ar using 1 t(2) by simp
    next
      case 2
      have "py_text (we_str we) (dict_get dl ''partial_json'' (JStr []))
          = (case map_of dl ''partial_json'' of Some j \<Rightarrow> py_text (we_str we) j | None \<Rightarrow> [])"
        by (simp add: dict_get_def py_text_def split: option.split)
      then show ?thesis unfolding tx ar using 2 eq by (simp add: dict_get_def [of "[(''partial_json'', _)]"])
    next
      case 3
      then show ?thesis unfolding tx ar using eq by simp
    qed
  qed
next
  case False
  then have "answer_text Anthropic n data = []" "answer_arguments we Anthropic n data = []"
    by (simp_all add: answer_text_def answer_arguments_def block_delta_def)
  then show ?thesis
    unfolding parse_anthropic_event_def Let_def if_not_P [OF False]
    by (intro says_if says_bind) simp_all
qed

lemma ollama_says: "says (parse_ollama_chunk we data) (answer_text Ollama n data) (answer_arguments we Ollama n data)"
proof -
  have t: "says (if truthy content
      then bind_result (opt_text content) (\<lambda>t. bind_result (opt_text r) (\<lambda>rl. Inr [(adapter_event Ollama TEXT_DELTA rl)\<lparr>delta_text := t\<rparr>]))
      else Inr []) (case content of JStr s \<Rightarrow> s | _ \<Rightarrow> []) []" for content r
    by (auto intro!: says_bind simp: opt_text_Inr truthy_def split: json.splits)
  have e: "says (if dn
      then bind_result (map_finish_reason Ollama why) (\<lambda>fr. bind_result (opt_text r) (\<lambda>rl.
        Inr [(adapter_event Ollama FINISH rl)\<lparr>finish_reason := Some fr, metadata := [(''done_reason'', py_text (we_str we) why)]\<rparr>]))
      else Inr []) [] []" for dn why r
    by (auto intro!: says_bind)
  show ?thesis
    unfolding parse_ollama_chunk_def Let_def
    apply (rule says_bind, rule prod.split [THEN iffD2], intro allI impI, rule says_append [OF t],
        rule says_append [OF e])
    apply (auto simp: py_dict_Inr answer_text_def answer_arguments_def text_at_def dict_get_def split: option.splits json.splits)
    done
qed

lemma join_texts_Inr: "join_texts js = Inr t \<Longrightarrow> t = concat (map (\<lambda>j. case j of JStr s \<Rightarrow> s | _ \<Rightarrow> []) js)"
  by (induction js arbitrary: t rule: join_texts.induct) (auto simp: bind_result_Inr)

lemma part_texts_text:
  "concat (map (\<lambda>j. case j of JStr s \<Rightarrow> s | _ \<Rightarrow> []) (part_texts ps)) = concat (map (\<lambda>p. text_at p [KName ''text'']) ps)"
  by (induction ps) (auto simp: part_texts_def map_filter_simps text_at_def dict_get_def split: json.split option.split)

lemma gemini_says: "says (parse_gemini_event we data) (answer_text Gemini n data) (answer_arguments we Gemini n data)"
  unfolding says_def
proof (intro allI impI)
  fix evs assume p: "parse_gemini_event we data = Inr evs"
  obtain d where d: "data = JObj d" using p by (auto simp: parse_gemini_event_def bind_result_Inr py_dict_Inr)
  let ?cs = "dict_get d ''candidates'' (JList [])"
  show "deltas evs = answer_text Gemini n data \<and> concat (map tool_text evs) = answer_arguments we Gemini n data"
  proof (cases "truthy ?cs")
    case False
    then have "evs = []" using p d by (simp add: parse_gemini_event_def py_dict_def Let_def)
    moreover have "answer_text Gemini n data = []"
      using False d by (auto simp: answer_text_def items_at_def dict_get_def truthy_def get_key_def split: option.splits json.splits)
    ultimately show ?thesis by (simp add: answer_arguments_def)
  next
    case True
    obtain cand content parts full where c: "first_item ?cs = Inr (JObj cand)"
      "dict_get cand ''content'' (JObj []) = JObj content" "py_iter (dict_get content ''parts'' (JList [])) = Inr parts"
      "join_texts (part_texts parts) = Inr full"
      using p True by (auto simp: parse_gemini_event_def d py_dict_def [of "JObj d"] bind_result_Inr py_dict_Inr Let_def)
    obtain cs where cs: "?cs = JList (JObj cand # cs)"
      using c(1) by (auto simp: first_item_def split: json.splits list.splits)
    then have m: "map_of d ''candidates'' = Some (JList (JObj cand # cs))" by (auto simp: dict_get_def split: option.splits)
    have fr: "read_keys data [KName ''candidates'', KIdx 0, KName ''finishReason''] = map_of cand ''finishReason''"
      using m d by (simp add: get_key_def split: option.split)
    have pt: "concat (map (\<lambda>p. text_at p [KName ''text'']) (items_at data [KName ''candidates'', KIdx 0, KName ''content'', KName ''parts'']))
        = full"
    proof -
      have "read_keys data [KName ''candidates'', KIdx 0, KName ''content'', KName ''parts'']
          = (case map_of cand ''content'' of None \<Rightarrow> None | Some v \<Rightarrow> get_key v (KName ''parts''))"
        using m d by (simp add: get_key_def [of "JList _"] split: option.split)
      moreover have "concat (map (\<lambda>p. text_at p [KName ''text'']) (case dict_get content ''parts'' (JList []) of JList xs \<Rightarrow> xs | _ \<Rightarrow> [])) = full"
      proof -
        have "concat (map (\<lambda>p. text_at p [KName ''text'']) parts) = full"
          using join_texts_Inr [OF c(4)] by (simp add: part_texts_text)
        then show ?thesis using c(3) by (auto simp: py_iter_def comp_def case_prod_beta split: json.splits)
      qed
      ultimately show ?thesis using c(2) by (auto simp: items_at_def dict_get_def split: option.splits json.splits)
    qed
    show ?thesis
      using p True c fr pt cs
      by (auto simp: parse_gemini_event_def d py_dict_def [of "JObj _"] bind_result_Inr Let_def answer_text_def answer_arguments_def
          dict_get_def truthy_def [of JNull] split: if_splits option.splits)
  qed
qed

lemma get_or_field:
  assumes "get_or d k (JObj []) = JObj f"
  shows "read_keys (JObj d) [KName k, KName j] = map_of f j"
proof (cases "map_of d k")
  case None
  then have "f = []" using assms by (simp add: get_or_def dict_get_def truthy_def)
  with None show ?thesis by simp
next
  case (Some v)
  then show ?thesis
    using assms by (cases "truthy v") (auto simp: get_or_def dict_get_def Let_def truthy_def split: json.splits option.split)
qed

lemma get_or_items:
  assumes "py_iter (get_or d k (JList [])) = Inr xs"
  shows "(case map_of d k of Some (JList ys) \<Rightarrow> ys | _ \<Rightarrow> []) = xs \<or> (\<exists>x \<in> set xs. \<exists>s. x = JStr s)"
proof (cases "map_of d k")
  case None
  then show ?thesis using assms by (simp add: get_or_def dict_get_def truthy_def py_iter_def)
next
  case (Some v)
  show ?thesis
  proof (cases "truthy v")
    case False
    then have "xs = []" using assms Some by (simp add: get_or_def dict_get_def py_iter_def)
    then show ?thesis using False Some by (auto simp: truthy_def split: json.splits)
  next
    case True
    then have "py_iter v = Inr xs" using assms Some by (simp add: get_or_def dict_get_def)
    with True Some show ?thesis by (cases v) (auto simp: py_iter_def truthy_def neq_Nil_conv split: prod.split)
  qed
qed

text \<open>A sequence with a string among its items fails, whatever is done with each object.\<close>

lemma collect_object:
  assumes "collect f xs = Inr ys" "x \<in> set xs" shows "\<exists>y. f x = Inr y"
  using assms by (induction xs arbitrary: ys) (auto simp: bind_result_Inr)

lemma tool_delta_says: "says (tool_delta we rl (i, call)) [] (text_at call [KName ''function'', KName ''arguments''])"
  unfolding says_def
proof (intro allI impI)
  fix evs assume p: "tool_delta we rl (i, call) = Inr evs"
  obtain tc f i cid ty nm args where c: "call = JObj tc" "get_or tc ''function'' (JObj []) = JObj f" "opt_text (dict_get f ''arguments'' JNull) = Inr args"
    and e: "evs = [(adapter_event OpenAI TOOL_CALL_DELTA rl)\<lparr>tool_call :=
      Some \<lparr>tc_index = i, tc_id = cid, tc_type = ty, function_name = nm, function_arguments = args\<rparr>\<rparr>]"
    using p unfolding tool_delta_def prod.case bind_result_Inr py_dict_Inr by blast
  have "text_at call [KName ''function'', KName ''arguments''] = (case args of None \<Rightarrow> [] | Some s \<Rightarrow> s)"
    using c(3) unfolding text_at_def c(1) get_or_field [OF c(2)] by (auto simp: dict_get_def opt_text_Inr split: option.splits)
  then show "deltas evs = [] \<and> concat (map tool_text evs) = text_at call [KName ''function'', KName ''arguments'']"
    by (simp add: e tool_text_def adapter_event_def delta_of_def)
qed

lemma tool_deltas_says:
  "says (collect (tool_delta we rl) (enumerate n tcs)) [] (concat (map (\<lambda>tc. text_at tc [KName ''function'', KName ''arguments'']) tcs))"
proof (induction tcs arbitrary: n)
  case (Cons tc tcs)
  show ?case
    using tool_delta_says [of we rl n tc]
    by (auto intro!: says_append [OF _ says_append [OF Cons]])
qed simp

lemma choice_says:
  "says (parse_choice we d ch) (text_at ch [KName ''delta'', KName ''content''])
     (concat (map (\<lambda>tc. text_at tc [KName ''function'', KName ''arguments'']) (items_at ch [KName ''delta'', KName ''tool_calls''])))"
proof -
  have s: "says (if q then bind_result (opt_text r) (\<lambda>rl. Inr [(adapter_event OpenAI START rl)\<lparr>metadata := md\<rparr>]) else Inr []) [] []" for q r md
    by (auto intro!: says_bind)
  have t: "says (if truthy content
      then bind_result sp (\<lambda>rl. bind_result (opt_text content) (\<lambda>t. Inr [(adapter_event OpenAI TEXT_DELTA rl)\<lparr>delta_text := t\<rparr>]))
      else Inr []) (case content of JStr s \<Rightarrow> s | _ \<Rightarrow> []) []" for content sp
    by (auto intro!: says_bind simp: opt_text_Inr truthy_def split: json.splits)
  have e: "says (if q
      then bind_result fr (\<lambda>fr. bind_result sp (\<lambda>rl. Inr [(adapter_event OpenAI FINISH rl)\<lparr>finish_reason := Some fr, metadata := md\<rparr>]))
      else Inr []) [] []" for q fr sp md
    by (auto intro!: says_bind)
  have c: "says (bind_result (py_iter (get_or delta ''tool_calls'' (JList []))) (\<lambda>tcs. if tcs = [] then Inr []
      else bind_result sp (\<lambda>rl. collect (tool_delta we rl) (enumerate 0 tcs)))) []
      (concat (map (\<lambda>tc. text_at tc [KName ''function'', KName ''arguments''])
         (case map_of delta ''tool_calls'' of Some (JList ys) \<Rightarrow> ys | _ \<Rightarrow> [])))" for delta sp
  proof (rule says_bind)
    fix tcs assume i: "py_iter (get_or delta ''tool_calls'' (JList [])) = Inr tcs"
    consider "(case map_of delta ''tool_calls'' of Some (JList ys) \<Rightarrow> ys | _ \<Rightarrow> []) = tcs" | x s where "x \<in> set tcs" "x = JStr s"
      using get_or_items [OF i] by blast
    then show "says (if tcs = [] then Inr [] else bind_result sp (\<lambda>rl. collect (tool_delta we rl) (enumerate 0 tcs))) []
      (concat (map (\<lambda>tc. text_at tc [KName ''function'', KName ''arguments''])
         (case map_of delta ''tool_calls'' of Some (JList ys) \<Rightarrow> ys | _ \<Rightarrow> [])))"
    proof cases
      case 1
      then show ?thesis by (auto intro!: says_bind tool_deltas_says)
    next
      case 2
      then have "JStr s \<in> snd ` set (enumerate 0 tcs)" by (metis list.set_map map_snd_enumerate)
      then obtain j where j: "(j, JStr s) \<in> set (enumerate 0 tcs)" by auto
      have "collect (tool_delta we rl) (enumerate 0 tcs) \<noteq> Inr ys" for rl ys
        using collect_object [OF _ j, of "tool_delta we rl"] by (auto simp: tool_delta_def py_dict_def)
      then have "says (collect (tool_delta we rl) (enumerate 0 tcs)) t u" for rl t u by (simp add: says_def)
      then show ?thesis using 2 by (auto intro!: says_bind)
    qed
  qed
  show ?thesis
  proof (cases "\<exists>c delta. ch = JObj c \<and> get_or c ''delta'' (JObj []) = JObj delta")
    case False
    show ?thesis
    proof (cases "py_dict ch")
      case (Inr c)
      with False obtain e where "py_dict (get_or c ''delta'' (JObj [])) = Inl e"
        by (cases "py_dict (get_or c ''delta'' (JObj []))") (auto simp: py_dict_Inr)
      then show ?thesis using Inr by (simp add: parse_choice_def)
    qed (simp add: parse_choice_def)
  next
    case True
    then obtain c delta where h: "ch = JObj c" "get_or c ''delta'' (JObj []) = JObj delta" by blast
    have tx: "text_at ch [KName ''delta'', KName ''content''] = (case dict_get delta ''content'' JNull of JStr s \<Rightarrow> s | _ \<Rightarrow> [])"
      unfolding text_at_def h(1) get_or_field [OF h(2)] by (simp add: dict_get_def split: option.split)
    have it: "items_at ch [KName ''delta'', KName ''tool_calls''] = (case map_of delta ''tool_calls'' of Some (JList ys) \<Rightarrow> ys | _ \<Rightarrow> [])"
      unfolding items_at_def h(1) get_or_field [OF h(2)] by (rule refl)
    have dch: "py_dict ch = Inr c" "py_dict (get_or c ''delta'' (JObj [])) = Inr delta" using h by (simp_all add: py_dict_def)
    show ?thesis
      unfolding parse_choice_def dch bind_result.simps Let_def tx it
      by (rule says_append [OF s], rule says_append [OF t], rule says_append [OF c], rule says_append [OF e])
        (simp only: says_simps deltas_simps map_append concat_append append_Nil append_Nil2 simp_thms)
  qed
qed

lemma openai_says: "says (parse_openai_chunk we data) (answer_text OpenAI n data) (answer_arguments we OpenAI n data)"
  unfolding says_def
proof (intro allI impI)
  fix evs assume p: "parse_openai_chunk we data = Inr evs"
  obtain d chs where d: "data = JObj d" "py_iter (get_or d ''choices'' (JList [])) = Inr chs" "collect (parse_choice we d) chs = Inr evs"
    using p by (auto simp: parse_openai_chunk_def bind_result_Inr py_dict_Inr)
  have "\<not> (\<exists>x \<in> set chs. \<exists>s. x = JStr s)"
    using collect_object [OF d(3)] by (fastforce simp: parse_choice_def py_dict_def)
  with get_or_items [OF d(2)] have it: "items_at data [KName ''choices''] = chs"
    by (auto simp: items_at_def d(1) split: option.splits)
  have "says (collect (parse_choice we d) chs) (answer_text OpenAI n data) (answer_arguments we OpenAI n data)"
    unfolding answer_text_def answer_arguments_def it adapter.case by (rule says_collect) (rule choice_says)
  with d(3) show "deltas evs = answer_text OpenAI n data \<and> concat (map tool_text evs) = answer_arguments we OpenAI n data"
    by (simp add: says_def)
qed

lemma payload_says: "says (parse_payload we a n data) (answer_text a n data) (answer_arguments we a n data)"
  by (cases a) (simp_all add: parse_payload_def openai_says anthropic_says gemini_says ollama_says)

text \<open>The payloads the parser got through: those before the first it raises on.\<close>

definition parsed_payloads :: "wire_env \<Rightarrow> adapter \<Rightarrow> string list \<Rightarrow> (string \<times> json) list" where
  "parsed_payloads we a ls =
     takeWhile (\<lambda>(n, d). case parse_payload we a n d of Inr _ \<Rightarrow> True | Inl _ \<Rightarrow> False) (payloads we a [] ls)"

lemma lines_say:
  "deltas (fst (line_events we a pending ls)) =
     concat (map (\<lambda>(n, d). answer_text a n d)
       (takeWhile (\<lambda>(n, d). case parse_payload we a n d of Inr _ \<Rightarrow> True | Inl _ \<Rightarrow> False) (payloads we a pending ls)))
   \<and> concat (map tool_text (fst (line_events we a pending ls))) =
     concat (map (\<lambda>(n, d). answer_arguments we a n d)
       (takeWhile (\<lambda>(n, d). case parse_payload we a n d of Inr _ \<Rightarrow> True | Inl _ \<Rightarrow> False) (payloads we a pending ls)))"
proof (induction we a pending ls rule: line_events.induct)
  case (2 we a pending l ls)
  obtain p' p where lp: "line_payload a pending l = (p', p)" by fastforce
  show ?case
  proof (cases "\<exists>t d. p = Some t \<and> we_loads we t = Some d")
    case False
    then show ?thesis using 2 lp by (cases p) auto
  next
    case True
    then obtain t d where t: "p = Some t" "we_loads we t = Some d" by blast
    show ?thesis
    proof (cases "parse_payload we a p' d")
      case (Inl e)
      then show ?thesis using lp t by simp
    next
      case (Inr evs)
      then have "deltas evs = answer_text a p' d \<and> concat (map tool_text evs) = answer_arguments we a p' d"
        using payload_says [of we a p' d] by (simp add: says_def)
      with 2 lp t Inr show ?thesis by (cases "line_events we a p' ls") simp
    qed
  qed
qed simp

lemma stream_events_say:
  assumes "\<not> is_error_status status"
  shows "deltas (fst (stream_events we a (OpenedStream status body lns broken)))
      = concat (map (\<lambda>(n, d). answer_text a n d) (parsed_payloads we a lns))"
    and "concat (map tool_text (fst (stream_events we a (OpenedStream status body lns broken))))
      = concat (map (\<lambda>(n, d). answer_arguments we a n d) (parsed_payloads we a lns))"
  using assms lines_say [of we a "[]" lns]
  by (cases "line_events we a [] lns"; cases "snd (line_events we a [] lns)"; simp add: stream_events_def parsed_payloads_def)+

subsection \<open>Properties\<close>


text \<open>C32. the answer to a failed request tells the client nothing of the provider's error document but
  its kind: two documents with the same error type give the same answer, and its status is 502, 503
  or 504.
\<close>

theorem error_answers_disclose_kind_only:
  assumes "error_kind a d = error_kind a d'" "is_error_status status"
  shows "execute_request str_of a (Posted status (Inr (JObj d)) h) = execute_request str_of a (Posted status (Inr (JObj d')) h')
    \<and> (\<exists>n msg. execute_request str_of a (Posted status (Inr (JObj d)) h) = Inl (PipelineAbortError n msg) \<and> n \<in> {502, 503, 504})"
proof -
  have "\<exists>e. execute_request str_of a (Posted status (Inr (JObj d)) h) = Inl e"
    using assms(2) by (simp add: execute_request_def)
  with error_answer_status error_answer_kind [OF assms] show ?thesis by metis
qed

theorem error_answers_disclose_kind_only_witness:
  "execute_request (\<lambda>_. []) OpenAI (Posted 401 (Inr (JObj [(''error'', JObj
       [(''message'', JStr ''Incorrect key sk-live-9''), (''type'', JStr ''invalid_request_error'')])])) [])
   = execute_request (\<lambda>_. []) OpenAI (Posted 401 (Inr (JObj [(''error'', JObj [(''type'', JStr ''invalid_request_error'')])])) [(''x'', ''y'')])"
proof -
  have "error_kind OpenAI [(''error'', JObj [(''message'', JStr ''Incorrect key sk-live-9''), (''type'', JStr ''invalid_request_error'')])]
      = error_kind OpenAI [(''error'', JObj [(''type'', JStr ''invalid_request_error'')])]" "is_error_status 401"
    by (simp_all add: error_kind_def dict_get_def is_error_status_def)
  from error_answers_disclose_kind_only [OF this] show ?thesis by blast
qed

text \<open>C33. no request of an adapter depends on the gateway's own client key: setting it to anything
  changes neither the address, the headers nor the body that is sent, nor whether one is sent.
\<close>

theorem gateway_key_never_sent:
  "translate_request (av\<lparr>av_keys := (av_keys av)\<lparr>ke_environ := AList.update ''ANONREQ_API_KEY'' v (ke_environ (av_keys av))\<rparr>\<rparr>) a original
     = translate_request av a original"
  by (rule gateway_key_not_sent)

end
