(* ===== verification/StreamRoute.thy ===== *)
theory StreamRoute
  imports Providers GatewayRuns
begin

text \<open>
  The streaming route: \<open>_stream_chat_completions\<close> and its generator (\<open>routing/chat.py\<close>), the
  server-sent events it writes (\<open>streaming/emitter.py\<close>) and the cleanup of a session on the
  gateway's own store and audit table (\<open>streaming/cleanup.py\<close>). A stream is the list of events the
  adapter yields, each with the answer of \<open>request.is_disconnected\<close> and the two clock readings of
  the buffer, and the way the adapter ends. The consumer may close the generator at a frame.
\<close>

subsection \<open>Frames\<close>

datatype sse_frame = Payload json | DoneFrame

definition text_payload :: "string \<Rightarrow> sse_frame" where
  "text_payload s =
     Payload (JObj [(''choices'', JList [JObj [(''delta'', JObj [(''content'', JStr s)]), (''index'', JInt 0)]])])"

definition event_payload :: "stream_event \<Rightarrow> sse_frame" where
  "event_payload ev =
     (case event_type ev of
        TEXT_DELTA \<Rightarrow> text_payload (case delta_text ev of None \<Rightarrow> [] | Some d \<Rightarrow> d)
      | FINISH \<Rightarrow>
          Payload (JObj [(''choices'', JList [JObj [(''delta'', JObj []),
            (''finish_reason'', JStr (finish_text (case finish_reason ev of None \<Rightarrow> STOP | Some fr \<Rightarrow> fr))),
            (''index'', JInt 0)]])])
      | ERROR \<Rightarrow>
          Payload (JObj [(''error'', JObj [(''message'', JStr (dict_get (metadata ev) ''message'' ''stream error'')),
            (''type'', JStr (dict_get (metadata ev) ''type'' ''provider_error''))])])
      | _ \<Rightarrow> Payload (JObj [(''choices'', JList [JObj [(''delta'', JObj []), (''index'', JInt 0)]])]))"

definition frame_text :: "(json \<Rightarrow> string) \<Rightarrow> sse_frame \<Rightarrow> string" where
  "frame_text dumps f =
     ''data: '' @ (case f of Payload j \<Rightarrow> dumps j | DoneFrame \<Rightarrow> ''[DONE]'') @ [CHR 10, CHR 10]"

definition route_event :: "string option \<Rightarrow> event_type \<Rightarrow> stream_event" where
  "route_event prov ty =
     \<lparr>event_type = ty, delta_text = None, tool_call = None, reasoning = None, finish_reason = None,
      metadata = [], ev_provider = (case prov of Some p \<Rightarrow> if p = [] then ''unknown'' else p | None \<Rightarrow> ''unknown''),
      ev_role = None\<rparr>"

definition error_frame :: "string option \<Rightarrow> string \<Rightarrow> sse_frame" where
  "error_frame prov kind =
     event_payload ((route_event prov ERROR)\<lparr>metadata := [(''message'', ''stream error''), (''type'', kind)]\<rparr>)"

definition closing_finish :: "string option \<Rightarrow> sse_frame" where
  "closing_finish prov = event_payload ((route_event prov FINISH)\<lparr>finish_reason := Some STOP\<rparr>)"

subsection \<open>Cleanup of the session\<close>

definition session_cleanup_run :: "gateway \<Rightarrow> string \<Rightarrow> gstate \<Rightarrow> gstate \<times> raised option" where
  "session_cleanup_run gw state st =
     (let (c, w) = st;
          c1 = c\<lparr>terminal_state := Some state\<rparr>;
          (removed, r) = gw_delete gw (session_key c1);
          w1 = (if removed then w\<lparr>mapping_store := AList.delete (session_key c1) (mapping_store w)\<rparr> else w);
          (w2, failed) = emit_anonymization_audit gw c1 w1
      in ((c1, w2), if failed \<noteq> None then failed else if r = Some Cancelled then r else None))"

subsection \<open>The generator\<close>

record stream_state =
  sg_buffer :: tail_buffer
  sg_restorer :: stream_restorer
  sg_terminal :: string
  sg_finished :: bool

datatype stream_end = Exhausted | AdapterRaised | TaskCancelled

type_synonym stream_step = "stream_event \<times> bool \<times> rat \<times> rat"

text \<open>
  Each yielded frame comes with the state in which the generator waits there; then the state after
  the loop and whether the task was cancelled in it.
\<close>

fun stream_loop :: "string option \<Rightarrow> (tool_call_delta \<Rightarrow> string) \<Rightarrow> stream_step list \<Rightarrow> stream_end \<Rightarrow> stream_state
    \<Rightarrow> (sse_frame \<times> stream_state) list \<times> stream_state \<times> bool" where
  "stream_loop prov dump [] fin g =
     (case fin of
        TaskCancelled \<Rightarrow> ([], g, True)
      | AdapterRaised \<Rightarrow>
          (let g1 = g\<lparr>sg_terminal := ''PROVIDER_ERROR''\<rparr> in ([(error_frame prov ''provider_error'', g1)], g1, False))
      | Exhausted \<Rightarrow>
          (let (remaining, tb) = flush_remaining (sg_buffer g); g1 = g\<lparr>sg_buffer := tb\<rparr>
           in (if remaining = [] then []
               else [(text_payload (sr_restore_text (sg_restorer g) remaining), g1), (closing_finish prov, g1)], g1, False)))"
| "stream_loop prov dump ((ev, gone, now, now') # steps) fin g =
     (if gone then ([], g\<lparr>sg_terminal := ''CLIENT_DISCONNECT''\<rparr>, False)
      else if event_type ev = REASONING_DELTA then stream_loop prov dump steps fin g
      else if event_type ev = FINISH then
        (let (remaining, tb) = flush_remaining (sg_buffer g); g1 = g\<lparr>sg_buffer := tb\<rparr>
         in ((if remaining = [] then [] else [(text_payload (sr_restore_text (sg_restorer g) remaining), g1)])
               @ [(event_payload ev, g1)], g1\<lparr>sg_finished := True\<rparr>, False))
      else if event_type ev = ERROR then
        (let g1 = g\<lparr>sg_terminal := ''PROVIDER_ERROR''\<rparr> in ([(error_frame prov ''provider_error'', g1)], g1, False))
      else
        (let (chunks, tb) = ingest dump now now' ev (sg_buffer g); g1 = g\<lparr>sg_buffer := tb\<rparr>;
             restored = filter (\<lambda>s. s \<noteq> []) (map (sr_restore_text (sg_restorer g)) chunks);
             (ys, g2, cancelled) = stream_loop prov dump steps fin g1
         in (map (\<lambda>s. (text_payload s, g1)) restored @ ys, g2, cancelled)))"

record stream_run =
  rn_frames :: "sse_frame list"
  rn_state :: stream_state
  rn_context :: processing_context
  rn_world :: world
  rn_rotation :: "rotation_buffer option"
  rn_raised :: "raised option"

definition release_session :: "processing_context \<Rightarrow> rotation_buffer option \<Rightarrow> rotation_buffer option" where
  "release_session c rb = map_option (\<lambda>b. end_session b (case context_id c of None \<Rightarrow> [] | Some i \<Rightarrow> i)) rb"

definition shut :: "stream_state \<Rightarrow> stream_state" where
  "shut g = g\<lparr>sg_buffer := terminate (sg_buffer g), sg_restorer := sr_close_session (sg_restorer g)\<rparr>"

text \<open>
  The end of the \<open>finally\<close> block: the request's secret store is unbound, then its session released. \<open>home\<close>
  tells whether the block runs in the context that bound the store; an abandoned generator is closed in
  another one, where \<open>ContextVar.reset\<close> raises a \<open>ValueError\<close>. \<open>pending\<close> is the exception on its way.
\<close>

definition release_stream :: "bool \<Rightarrow> processing_context \<Rightarrow> rotation_buffer option \<Rightarrow> raised option
    \<Rightarrow> rotation_buffer option \<times> raised option" where
  "release_stream home c rb pending =
     (if home then (release_session c rb, pending) else (rb, Some (Exc (PyExn ValueError))))"

text \<open>
  The \<open>finally\<close> block when the cleanup has not run: its audit failure is only logged, but a cancellation
  of it leaves the block at once.
\<close>

definition interrupted :: "gateway \<Rightarrow> bool \<Rightarrow> sse_frame list \<Rightarrow> stream_state \<Rightarrow> gstate \<Rightarrow> rotation_buffer option
    \<Rightarrow> raised option \<Rightarrow> stream_run" where
  "interrupted gw home frames g st rb pending =
     (let (c, w) = st;
          c1 = (if terminal_state c = None then c\<lparr>terminal_state := Some (sg_terminal g)\<rparr> else c);
          state = (case terminal_state c1 of Some s \<Rightarrow> if s = [] then sg_terminal g else s | None \<Rightarrow> sg_terminal g);
          ((c2, w2), r) = session_cleanup_run gw state (c1, w);
          (rb2, raised) = (if r = Some Cancelled then (rb, Some Cancelled) else release_stream home c2 rb pending)
      in \<lparr>rn_frames = frames, rn_state = shut g, rn_context = c2, rn_world = w2, rn_rotation = rb2, rn_raised = raised\<rparr>)"

definition finished_loop :: "gateway \<Rightarrow> bool \<Rightarrow> sse_frame list \<Rightarrow> stream_state \<Rightarrow> gstate \<Rightarrow> rotation_buffer option \<Rightarrow> stream_run" where
  "finished_loop gw home frames g st rb =
     (let (c, w) = st;
          ((c2, w2), r) = session_cleanup_run gw (sg_terminal g) (c, w);
          last_frame =
            (if r = Some Cancelled \<or> sg_terminal g = ''CLIENT_DISCONNECT'' then []
             else if r \<noteq> None then [error_frame (provider c) ''audit_error''] else [DoneFrame]);
          (rb2, raised) = release_stream home c2 rb (if r = Some Cancelled then r else None)
      in \<lparr>rn_frames = frames @ last_frame, rn_state = shut g, rn_context = c2, rn_world = w2,
          rn_rotation = rb2, rn_raised = raised\<rparr>)"

definition open_stream :: "rat \<Rightarrow> (string, string) dict \<Rightarrow> stream_state" where
  "open_stream now mapping =
     \<lparr>sg_buffer = new_tail_buffer now, sg_restorer = sr_start_session mapping, sg_terminal = ''FINISH'', sg_finished = False\<rparr>"

text \<open>
  \<open>closed_at\<close> is the number of the frame at which the consumer closes the generator, \<open>unread\<close> the exception
  of the read of the mapping.
\<close>

definition stream_generator ::
  "gateway \<Rightarrow> (tool_call_delta \<Rightarrow> string) \<Rightarrow> rat \<Rightarrow> bool \<Rightarrow> raised option \<Rightarrow> stream_step list \<Rightarrow> stream_end \<Rightarrow> nat option
     \<Rightarrow> gstate \<Rightarrow> rotation_buffer option \<Rightarrow> stream_run" where
  "stream_generator gw dump now home unread steps fin closed_at st rb =
     (let (c, w) = st; mapping = dict_get (mapping_store w) (session_key c) []
      in if unread \<noteq> None
         then interrupted gw home [] (open_stream now []) st rb unread
         else (case stream_loop (provider c) dump steps fin (open_stream now mapping) of
                 (ys, g, cancelled) \<Rightarrow>
                   (case closed_at of
                      Some k \<Rightarrow>
                        if k < length ys then interrupted gw home (map fst (take (Suc k) ys)) (snd (ys ! k)) st rb None
                        else if cancelled then interrupted gw home (map fst ys) g st rb (Some Cancelled)
                        else finished_loop gw home (map fst ys) g st rb
                    | None \<Rightarrow>
                        if cancelled then interrupted gw home (map fst ys) g st rb (Some Cancelled)
                        else finished_loop gw home (map fst ys) g st rb)))"

subsection \<open>The route\<close>

record stream_services =
  sv_gateway :: gateway
  sv_pipeline :: bool
  sv_cache :: bool
  sv_aliases :: "alias_registry option"
  sv_adapters :: "(string \<Rightarrow> adapter option) option"
  sv_streaming :: "adapter \<Rightarrow> bool"
  sv_env :: adapter_env

datatype reject = RejectHttp http_error | RejectCrash py_exn

definition stream_body :: "(string \<times> json) list \<Rightarrow> (string \<times> json) list" where
  "stream_body transformed = AList.update ''stream'' (JBool True) transformed"

definition prepare_stream :: "stream_services \<Rightarrow> processing_context \<Rightarrow> processing_context \<times> (reject + adapter \<times> provider_request)" where
  "prepare_stream sv c =
     (let act = (case classification_result c of None \<Rightarrow> ''ANONYMIZE'' | Some r \<Rightarrow> co_action r);
          http = (\<lambda>n d. Inl (RejectHttp (HTTPError n d)))
      in case raise_for_pipeline_errors c of
           Some e \<Rightarrow> (c, Inl (RejectHttp e))
         | None \<Rightarrow>
         if act = ''BLOCK'' then (c, http 403 ''Request blocked by policy'')
         else if act = ''ROUTE_LOCAL'' then (c, http 501 ''ROUTE_LOCAL not yet implemented'')
         else case transformed_request c of
           None \<Rightarrow> (c, http 503 ''Request was not tokenized'')
         | Some transformed \<Rightarrow>
         let body = stream_body transformed
         in case sv_aliases sv of
           None \<Rightarrow> (c, http 503 ''Alias registry not initialized'')
         | Some ar \<Rightarrow>
         (case map_of body ''model'' of
           None \<Rightarrow> (c, Inl (RejectCrash KeyError))
         | Some (JStr m) \<Rightarrow>
         (case resolve_alias ar m of
           None \<Rightarrow> (c, http 400 ''Unknown model alias'')
         | Some al \<Rightarrow>
         let body = AList.update ''model'' (JStr (ma_model al)) body;
             c1 = c\<lparr>provider := Some (ma_provider al), model := Some (ma_model al)\<rparr>
         in case sv_adapters sv of
           None \<Rightarrow> (c1, http 503 ''Provider registry not initialized'')
         | Some get_adapter \<Rightarrow>
         (case get_adapter (ma_provider al) of
           None \<Rightarrow> (c1, http 400 ''Unknown provider'')
         | Some a \<Rightarrow>
         if \<not> sv_streaming sv a
         then (c1, http 400 (''Provider '' @ [CHR 39] @ ma_provider al @ [CHR 39] @ '' does not support streaming''))
         else let c2 = c1\<lparr>original_request := Some body\<rparr>
         in case translate_request (sv_env sv) a (original_request c2) of
           Inl ValueError \<Rightarrow> (c2, http 502 ''Provider configuration error'')
         | Inl e \<Rightarrow> (c2, Inl (RejectCrash e))
         | Inr req \<Rightarrow>
             if \<not> sv_cache sv then (c2, http 503 ''Cache manager not initialized'')
             else (c2, Inr (a, req))))
         | Some _ \<Rightarrow> (c, Inl (RejectCrash (OtherExn ''AttributeError'')))))"

datatype stream_answer =
    Refused reject
  | Started adapter provider_request
  | RouteCancelled

definition stream_chat_completions :: "stream_services \<Rightarrow> request_info \<Rightarrow> world \<Rightarrow> rotation_buffer option
    \<Rightarrow> stream_answer \<times> gstate \<times> rotation_buffer option" where
  "stream_chat_completions sv ri w rb =
     (let gw = sv_gateway sv; c0 = new_request_context ri;
          rb1 = map_option (\<lambda>b. begin_session b (ri_context_id ri)) rb
      in if \<not> sv_pipeline sv
         then (Refused (RejectHttp (HTTPError 503 ''Service dependencies not initialized'')), (c0, w), rb1)
         else (case run_pipeline (streaming_pipeline gw) (c0, w) of
                 ((c1, w1), _, True) \<Rightarrow> (RouteCancelled, (c1, w1), rb1)
               | ((c1, w1), _, False) \<Rightarrow>
                   (case prepare_stream sv c1 of
                      (c2, Inr (a, req)) \<Rightarrow> (Started a req, (c2, w1), rb1)
                    | (c2, Inl rej) \<Rightarrow>
                        (case session_cleanup_run gw ''REJECTED'' (c2, w1) of
                           (st3, None) \<Rightarrow> (Refused rej, st3, release_session c2 rb1)
                         | (st3, Some Cancelled) \<Rightarrow> (RouteCancelled, st3, rb1)
                         | (st3, Some (Exc _)) \<Rightarrow>
                             (Refused (RejectHttp (HTTPError 500 ''Internal gateway error'')), st3, rb1)))))"

subsection \<open>Cleanup\<close>

lemma audit_keeps_store: "mapping_store (fst (emit_anonymization_audit gw c w)) = mapping_store w"
  "posted (fst (emit_anonymization_audit gw c w)) = posted w"
  by (simp_all add: emit_anonymization_audit_def split: prod.split)

lemma cleanup_run_facts:
  assumes "session_cleanup_run gw state (c, w) = ((c', w'), r)"
  shows "c' = c\<lparr>terminal_state := Some state\<rparr>" "posted w' = posted w"
    "fst (gw_delete gw (session_key c)) \<Longrightarrow> map_of (mapping_store w') (session_key c) = None"
    "k \<noteq> session_key c \<Longrightarrow> map_of (mapping_store w') k = map_of (mapping_store w) k"
    "r = None \<Longrightarrow> snd (emit_anonymization_audit gw c' w) = None"
    "audit_table w' = audit_table (fst (emit_anonymization_audit gw c' w))"
proof -
  let ?c = "c\<lparr>terminal_state := Some state\<rparr>"
  obtain removed rd where del: "gw_delete gw (session_key c) = (removed, rd)" by fastforce
  define w1 where "w1 = (if removed then w\<lparr>mapping_store := AList.delete (session_key c) (mapping_store w)\<rparr> else w)"
  obtain w2 fl where em: "emit_anonymization_audit gw ?c w1 = (w2, fl)" by fastforce
  have key: "session_key ?c = session_key c" by simp
  have "session_cleanup_run gw state (c, w) = ((?c, w2), if fl \<noteq> None then fl else if rd = Some Cancelled then rd else None)"
    unfolding session_cleanup_run_def Let_def prod.case key del w1_def [symmetric] em by (rule refl)
  then have r: "c' = ?c" "w' = w2" "r = (if fl \<noteq> None then fl else if rd = Some Cancelled then rd else None)"
    using assms by simp_all
  have same: "audit_table w1 = audit_table w" "posted w1 = posted w" by (simp_all add: w1_def)
  have ms: "mapping_store w2 = mapping_store w1" "posted w2 = posted w1" using audit_keeps_store [of gw ?c w1] em by simp_all
  have aud: "snd (emit_anonymization_audit gw ?c w) = fl" "audit_table (fst (emit_anonymization_audit gw ?c w)) = audit_table w2"
    using em same by (auto simp: emit_anonymization_audit_def split: prod.splits if_splits)
  show "c' = ?c" "posted w' = posted w" using r ms same by simp_all
  show "map_of (mapping_store w') (session_key c) = None" if "fst (gw_delete gw (session_key c))"
    using that del r(2) ms(1) by (simp add: w1_def delete_conv')
  show "map_of (mapping_store w') k = map_of (mapping_store w) k" if "k \<noteq> session_key c"
    using that r(2) ms(1) by (auto simp: w1_def delete_conv')
  show "snd (emit_anonymization_audit gw c' w) = None" if "r = None" using that r aud(1) by (auto split: if_splits)
  show "audit_table w' = audit_table (fst (emit_anonymization_audit gw c' w))" using r aud(2) by simp
qed

subsection \<open>The loop\<close>

definition terminal_states :: "string set" where
  "terminal_states = {''FINISH'', ''CLIENT_DISCONNECT'', ''PROVIDER_ERROR''}"

lemma error_frame_not_done [simp]: "error_frame prov kind \<noteq> DoneFrame" "DoneFrame \<noteq> error_frame prov kind"
  by (simp_all add: error_frame_def event_payload_def route_event_def)

lemma event_payload_not_done [simp]: "event_payload ev \<noteq> DoneFrame" "text_payload s \<noteq> DoneFrame" "closing_finish prov \<noteq> DoneFrame"
  "DoneFrame \<noteq> event_payload ev" "DoneFrame \<noteq> text_payload s" "DoneFrame \<noteq> closing_finish prov"
  by (simp_all add: event_payload_def text_payload_def closing_finish_def split: event_type.split)

text \<open>Every state of the loop has a terminal state of the three, and no frame of it is the closing one.\<close>

lemma stream_loop_states:
  assumes "stream_loop prov dump steps fin g = (ys, g', cancelled)" "sg_terminal g \<in> terminal_states"
  shows "sg_terminal g' \<in> terminal_states \<and> (\<forall>(f, h) \<in> set ys. sg_terminal h \<in> terminal_states \<and> f \<noteq> DoneFrame)"
  using assms
proof (induction prov dump steps fin g arbitrary: ys rule: stream_loop.induct)
  case (1 prov dump fin g)
  then show ?case
    by (cases fin) (auto simp: flush_remaining_def terminal_states_def Let_def split: if_splits)
next
  case (2 prov dump ev gone now now' steps fin g)
  show ?case
  proof (cases "gone \<or> event_type ev \<in> {REASONING_DELTA, FINISH, ERROR}")
    case True
    with 2 show ?thesis
      by (auto simp: flush_remaining_def terminal_states_def Let_def split: if_splits)
  next
    case False
    obtain chunks tb where ing: "ingest dump now now' ev (sg_buffer g) = (chunks, tb)" by fastforce
    obtain zs h b where rest0: "stream_loop prov dump steps fin (g\<lparr>sg_buffer := tb\<rparr>) = (zs, h, b)" by (metis prod_cases3)
    have ys: "ys = map (\<lambda>s. (text_payload s, g\<lparr>sg_buffer := tb\<rparr>)) (filter (\<lambda>s. s \<noteq> []) (map (sr_restore_text (sg_restorer g)) chunks)) @ zs"
      "g' = h" "cancelled = b" using "2.prems"(1) False ing rest0 by (auto simp: Let_def)
    note rest = rest0 [folded ys(2,3)]
    have "sg_terminal g' \<in> terminal_states \<and> (\<forall>(f, h) \<in> set zs. sg_terminal h \<in> terminal_states \<and> f \<noteq> DoneFrame)"
      using "2.IH"(2) [OF _ _ _ _ refl ing [symmetric] refl refl rest] False "2.prems"(2) by simp
    with ys "2.prems"(2) show ?thesis by auto
  qed
qed

text \<open>Until the stream ends, the text that came in is the text that went out and what the buffer holds.\<close>

definition quiet :: "stream_step \<Rightarrow> bool" where
  "quiet = (\<lambda>(ev, gone, _, _). \<not> gone \<and> event_type ev \<in> {START, TEXT_DELTA, REASONING_DELTA, HEARTBEAT})"

lemma ingest_silent:
  assumes "event_type ev = START \<or> event_type ev = HEARTBEAT"
  shows "ingest dump now now' ev tb = ([], tb)"
  using assms by (auto simp: ingest_def format_non_text_delta_def Let_def)

lemma stream_loop_relays:
  assumes "\<forall>st \<in> set steps. quiet st" "tb_state (sg_buffer g) \<noteq> TERMINATED"
  shows "\<exists>chunks zs tb. fst (stream_loop prov dump (steps @ tail) fin g) = zs @ fst (stream_loop prov dump tail fin (g\<lparr>sg_buffer := tb\<rparr>))
    \<and> snd (stream_loop prov dump (steps @ tail) fin g) = snd (stream_loop prov dump tail fin (g\<lparr>sg_buffer := tb\<rparr>))
    \<and> map fst zs = map text_payload (filter (\<lambda>s. s \<noteq> []) (map (sr_restore_text (sg_restorer g)) chunks))
    \<and> concat chunks @ active_buffer tb = active_buffer (sg_buffer g) @ deltas (map fst steps)
    \<and> tb_state tb \<noteq> TERMINATED"
  using assms
proof (induction steps arbitrary: g)
  case Nil
  show ?case by (rule exI [of _ "[]"], rule exI [of _ "[]"], rule exI [of _ "sg_buffer g"]) (use Nil in simp)
next
  case (Cons st steps)
  obtain ev gone now now' where st: "st = (ev, gone, now, now')" by (metis prod_cases4)
  have q: "\<not> gone" "event_type ev \<in> {START, TEXT_DELTA, REASONING_DELTA, HEARTBEAT}" "\<forall>st \<in> set steps. quiet st"
    using Cons.prems(1) by (auto simp: st quiet_def)
  show ?case
  proof (cases "event_type ev = REASONING_DELTA")
    case True
    with q(1) have "stream_loop prov dump ((st # steps) @ tail) fin g = stream_loop prov dump (steps @ tail) fin g"
      and "deltas (map fst (st # steps)) = deltas (map fst steps)" by (simp_all add: st delta_of_def)
    with Cons.IH [OF q(3) Cons.prems(2)] show ?thesis by simp
  next
    case False
    obtain out tb1 where ing: "ingest dump now now' ev (sg_buffer g) = (out, tb1)" by fastforce
    let ?g1 = "g\<lparr>sg_buffer := tb1\<rparr>"
    have cons: "concat out @ active_buffer tb1 = active_buffer (sg_buffer g) @ delta_of ev"
    proof (cases "event_type ev = TEXT_DELTA")
      case True
      then show ?thesis using ingest_conserves [OF ing Cons.prems(2)] by simp
    next
      case no: False
      with False q(2) ingest_silent ing show ?thesis by (auto simp: delta_of_def)
    qed
    have nt: "tb_state (sg_buffer ?g1) \<noteq> TERMINATED" using ingest_not_terminated [OF ing Cons.prems(2)] by simp
    from Cons.IH [OF q(3) nt] obtain chunks zs tb where IH:
      "fst (stream_loop prov dump (steps @ tail) fin ?g1) = zs @ fst (stream_loop prov dump tail fin (?g1\<lparr>sg_buffer := tb\<rparr>))"
      "snd (stream_loop prov dump (steps @ tail) fin ?g1) = snd (stream_loop prov dump tail fin (?g1\<lparr>sg_buffer := tb\<rparr>))"
      "map fst zs = map text_payload (filter (\<lambda>s. s \<noteq> []) (map (sr_restore_text (sg_restorer ?g1)) chunks))"
      "concat chunks @ active_buffer tb = active_buffer (sg_buffer ?g1) @ deltas (map fst steps)" "tb_state tb \<noteq> TERMINATED"
      by blast
    let ?ys = "map (\<lambda>s. (text_payload s, ?g1)) (filter (\<lambda>s. s \<noteq> []) (map (sr_restore_text (sg_restorer g)) out))"
    have loop: "stream_loop prov dump ((st # steps) @ tail) fin g =
        (case stream_loop prov dump (steps @ tail) fin ?g1 of (ys, h, b) \<Rightarrow> (?ys @ ys, h, b))"
      using q False ing by (auto simp: st Let_def)
    have upd: "?g1\<lparr>sg_buffer := tb\<rparr> = g\<lparr>sg_buffer := tb\<rparr>" by simp
    show ?thesis
    proof (rule exI [of _ "out @ chunks"], rule exI [of _ "?ys @ zs"], rule exI [of _ tb], intro conjI)
      show "fst (stream_loop prov dump ((st # steps) @ tail) fin g) = (?ys @ zs) @ fst (stream_loop prov dump tail fin (g\<lparr>sg_buffer := tb\<rparr>))"
        unfolding loop using IH(1) upd by (simp split: prod.split) (metis fst_conv)
      show "snd (stream_loop prov dump ((st # steps) @ tail) fin g) = snd (stream_loop prov dump tail fin (g\<lparr>sg_buffer := tb\<rparr>))"
        unfolding loop using IH(2) upd by (simp split: prod.split) (metis snd_conv)
      show "map fst (?ys @ zs) = map text_payload (filter (\<lambda>s. s \<noteq> []) (map (sr_restore_text (sg_restorer g)) (out @ chunks)))"
        using IH(3) by (simp add: comp_def)
      have "concat (out @ chunks) @ active_buffer tb = concat out @ (active_buffer tb1 @ deltas (map fst steps))" using IH(4) by simp
      also have "\<dots> = (active_buffer (sg_buffer g) @ delta_of ev) @ deltas (map fst steps)" using cons by (simp flip: append_assoc)
      finally show "concat (out @ chunks) @ active_buffer tb = active_buffer (sg_buffer g) @ deltas (map fst (st # steps))" by (simp add: st)
      show "tb_state tb \<noteq> TERMINATED" by (rule IH(5))
    qed
  qed
qed

subsection \<open>The generator\<close>

lemma terminal_not_empty: "t \<in> terminal_states \<Longrightarrow> t \<noteq> []"
  by (auto simp: terminal_states_def)

lemma generator_cases:
  obtains (cut) fs g pend where
    "stream_generator gw dump now home unread steps fin closed_at (c, w) rb = interrupted gw home fs g (c, w) rb pend"
    "sg_terminal g \<in> terminal_states" "DoneFrame \<notin> set fs"
  | (through) fs g where "stream_generator gw dump now home unread steps fin closed_at (c, w) rb = finished_loop gw home fs g (c, w) rb"
    "sg_terminal g \<in> terminal_states" "DoneFrame \<notin> set fs"
proof (cases "unread = None")
  case False
  then show ?thesis
    by (intro cut [of "[]" "open_stream now []"]) (simp_all add: stream_generator_def open_stream_def terminal_states_def)
next
  case True
  let ?g0 = "open_stream now (dict_get (mapping_store w) (session_key c) [])"
  obtain ys g b where loop: "stream_loop (provider c) dump steps fin ?g0 = (ys, g, b)" by (metis prod_cases3)
  have st: "sg_terminal g \<in> terminal_states" "\<forall>(f, h) \<in> set ys. sg_terminal h \<in> terminal_states \<and> f \<noteq> DoneFrame"
    using stream_loop_states [OF loop] by (simp_all add: open_stream_def terminal_states_def)
  have nd: "DoneFrame \<notin> set (map fst ys)" "\<And>k. DoneFrame \<notin> set (map fst (take k ys))"
    using st(2) in_set_takeD by fastforce+
  have gen: "stream_generator gw dump now home unread steps fin closed_at (c, w) rb =
      (case closed_at of
         Some k \<Rightarrow> if k < length ys then interrupted gw home (map fst (take (Suc k) ys)) (snd (ys ! k)) (c, w) rb None
                   else if b then interrupted gw home (map fst ys) g (c, w) rb (Some Cancelled) else finished_loop gw home (map fst ys) g (c, w) rb
       | None \<Rightarrow> if b then interrupted gw home (map fst ys) g (c, w) rb (Some Cancelled) else finished_loop gw home (map fst ys) g (c, w) rb)"
    using True loop by (simp add: stream_generator_def Let_def)
  show ?thesis
  proof (cases "\<exists>k. closed_at = Some k \<and> k < length ys")
    case True
    then obtain k where k: "closed_at = Some k" "k < length ys" by blast
    have "sg_terminal (snd (ys ! k)) \<in> terminal_states" using st(2) nth_mem [OF k(2)] by (metis (mono_tags, lifting) case_prodE snd_conv)
    with k gen nd(2) show ?thesis by (intro cut) auto
  next
    case False
    with gen have "stream_generator gw dump now home unread steps fin closed_at (c, w) rb =
        (if b then interrupted gw home (map fst ys) g (c, w) rb (Some Cancelled) else finished_loop gw home (map fst ys) g (c, w) rb)"
      by (auto split: option.split)
    with st(1) nd(1) cut through show ?thesis by (metis (full_types))
  qed
qed

text \<open>What is left when the generator is over, whichever way, when it ended in \<open>state\<close>.\<close>

definition wound_up :: "gateway \<Rightarrow> bool \<Rightarrow> processing_context \<Rightarrow> world \<Rightarrow> rotation_buffer option \<Rightarrow> string \<Rightarrow> stream_run \<Rightarrow> bool" where
  "wound_up gw home c w rb state run \<longleftrightarrow>
     rn_context run = c\<lparr>terminal_state := Some state\<rparr>
     \<and> audit_table (rn_world run) = audit_table (fst (emit_anonymization_audit gw (c\<lparr>terminal_state := Some state\<rparr>) w))
     \<and> posted (rn_world run) = posted w
     \<and> (fst (gw_delete gw (session_key c)) \<longrightarrow> map_of (mapping_store (rn_world run)) (session_key c) = None)
     \<and> (\<forall>k. k \<noteq> session_key c \<longrightarrow> map_of (mapping_store (rn_world run)) k = map_of (mapping_store w) k)
     \<and> tb_state (sg_buffer (rn_state run)) = TERMINATED
     \<and> sr_mappings (sg_restorer (rn_state run)) = [] \<and> sr_lookup (sg_restorer (rn_state run)) = []
     \<and> (if \<not> home then rn_rotation run = rb
        else if snd (session_cleanup_run gw state (c, w)) = Some Cancelled
        then rn_rotation run = rb \<or> rn_rotation run = release_session c rb
        else rn_rotation run = release_session c rb)"

lemma released: "release_session c rb = Some b \<Longrightarrow>
    map_of (rb_sessions b) (case context_id c of None \<Rightarrow> [] | Some i \<Rightarrow> i) = None"
  by (auto simp: release_session_def end_session_def Let_def delete_conv')

lemma shut_state [simp]:
  "tb_state (sg_buffer (shut g)) = TERMINATED" "sr_mappings (sg_restorer (shut g)) = []" "sr_lookup (sg_restorer (shut g)) = []"
  by (simp_all add: shut_def terminate_def sr_close_session_def)

lemma cleanup_run_overrides:
  "session_cleanup_run gw state (c\<lparr>terminal_state := x\<rparr>, w) = session_cleanup_run gw state (c, w)"
  by (simp add: session_cleanup_run_def)

lemma wound_upI:
  assumes cl: "session_cleanup_run gw state (c, w) = ((c2, w2), r)"
    and rot: "rb2 = (if early \<and> r = Some Cancelled then rb else fst (release_stream home c2 rb pend))"
  shows "wound_up gw home c w rb state
    \<lparr>rn_frames = fs, rn_state = shut g, rn_context = c2, rn_world = w2, rn_rotation = rb2, rn_raised = e\<rparr>"
proof -
  note f = cleanup_run_facts [OF cl]
  have rel: "release_session c2 rb = release_session c rb" by (simp add: release_session_def f(1))
  have "if \<not> home then rb2 = rb else if r = Some Cancelled then rb2 = rb \<or> rb2 = release_session c rb else rb2 = release_session c rb"
    using rot rel by (auto simp: release_stream_def)
  then show ?thesis
    unfolding wound_up_def stream_run.select_convs shut_state cl snd_conv using f(1-4,6) by simp
qed

lemma interrupted_wound_up:
  assumes "terminal_state c = None" "sg_terminal g \<in> terminal_states"
  shows "wound_up gw home c w rb (sg_terminal g) (interrupted gw home fs g (c, w) rb pend)"
proof -
  obtain c2 w2 r where cl: "session_cleanup_run gw (sg_terminal g) (c, w) = ((c2, w2), r)" by (metis prod.collapse)
  have eq: "interrupted gw home fs g (c, w) rb pend =
      \<lparr>rn_frames = fs, rn_state = shut g, rn_context = c2, rn_world = w2,
       rn_rotation = (if True \<and> r = Some Cancelled then rb else fst (release_stream home c2 rb pend)),
       rn_raised = (if r = Some Cancelled then Some Cancelled else snd (release_stream home c2 rb pend))\<rparr>"
    using assms(1) cl terminal_not_empty [OF assms(2)]
    by (simp add: interrupted_def Let_def cleanup_run_overrides case_prod_beta)
  show ?thesis unfolding eq by (rule wound_upI [OF cl refl])
qed

lemma finished_wound_up: "wound_up gw home c w rb (sg_terminal g) (finished_loop gw home fs g (c, w) rb)"
proof -
  obtain c2 w2 r where cl: "session_cleanup_run gw (sg_terminal g) (c, w) = ((c2, w2), r)" by (metis prod.collapse)
  let ?rel = "release_stream home c2 rb (if r = Some Cancelled then r else None)"
  have rot: "fst ?rel = (if False \<and> r = Some Cancelled then rb else fst ?rel)" by simp
  obtain fs' where "finished_loop gw home fs g (c, w) rb =
      \<lparr>rn_frames = fs', rn_state = shut g, rn_context = c2, rn_world = w2, rn_rotation = fst ?rel, rn_raised = snd ?rel\<rparr>"
    using cl by (simp add: finished_loop_def Let_def case_prod_beta)
  then show ?thesis using wound_upI [OF cl rot] by simp
qed

lemma stream_wound_up:
  assumes "terminal_state c = None"
  shows "\<exists>state \<in> terminal_states.
    wound_up gw home c w rb state (stream_generator gw dump now home unread steps fin closed_at (c, w) rb)"
  by (rule generator_cases [of gw dump now home unread steps fin closed_at c w rb])
    (metis interrupted_wound_up [OF assms] finished_wound_up)+

text \<open>A write of the audit row that reports no error left the row of this request.\<close>

lemma emitted_row:
  assumes "snd (emit_anonymization_audit gw c w) = None" "has_audit_chain c" "db_ok (gw_digest gw) (audit_table w)"
  shows "\<exists>r \<in> set (rows (audit_table (fst (emit_anonymization_audit gw c w)))). event_id r = gw_event_id gw (tenant_id c) (request_id c)"
proof -
  obtain db e where a: "emit_attempts gw c 1 (retry_attempts (gw_attempts gw)) (audit_table w) = (db, e)" by fastforce
  with assms(1,2) have "e = Emitted" by (auto simp: emit_anonymization_audit_def split: emission.splits)
  with emit_attempts_once [OF a assms(3)] a assms(2) show ?thesis by (auto simp: emit_anonymization_audit_def)
qed

text \<open>
  When the cleanup of an interrupted stream is cancelled, the session of its secrets stays: the handler
  around it catches \<open>Exception\<close> only.
\<close>

lemma cancelled_cleanup_keeps_secrets:
  assumes "terminal_state c = None" "snd (session_cleanup_run gw (sg_terminal g) (c, w)) = Some Cancelled" "sg_terminal g \<in> terminal_states"
  shows "rn_rotation (interrupted gw home fs g (c, w) rb pend) = rb
    \<and> rn_raised (interrupted gw home fs g (c, w) rb pend) = Some Cancelled"
proof -
  obtain c2 w2 where "session_cleanup_run gw (sg_terminal g) (c, w) = ((c2, w2), Some Cancelled)"
    using assms(2) by (metis prod.collapse)
  then show ?thesis
    using assms(1) terminal_not_empty [OF assms(3)] by (simp add: interrupted_def Let_def cleanup_run_overrides)
qed

lemma stream_done_audited:
  assumes "DoneFrame \<in> set (rn_frames run)"
    and run_def: "run = stream_generator gw dump now home unread steps fin closed_at (c, w) rb"
  shows "\<exists>fs. rn_frames run = fs @ [DoneFrame] \<and> DoneFrame \<notin> set fs
    \<and> terminal_state (rn_context run) \<in> {Some ''FINISH'', Some ''PROVIDER_ERROR''}
    \<and> snd (emit_anonymization_audit gw (rn_context run) w) = None"
proof (cases rule: generator_cases [of gw dump now home unread steps fin closed_at c w rb])
  case (cut fs g pend)
  have "rn_frames (interrupted gw home fs g (c, w) rb pend) = fs" by (simp add: interrupted_def Let_def split: prod.split)
  with cut assms show ?thesis by simp
next
  case (through fs g)
  obtain c2 w2 r where cl: "session_cleanup_run gw (sg_terminal g) (c, w) = ((c2, w2), r)" by (metis prod.collapse)
  let ?last = "if r = Some Cancelled \<or> sg_terminal g = ''CLIENT_DISCONNECT'' then []
             else if r \<noteq> None then [error_frame (provider c) ''audit_error''] else [DoneFrame]"
  have run: "rn_frames run = fs @ ?last" "rn_context run = c2"
    using through(1) cl run_def by (simp_all add: finished_loop_def Let_def split: prod.split)
  have "DoneFrame \<in> set ?last" using assms(1) run(1) through(3) by simp
  then have ok: "r = None" "sg_terminal g \<noteq> ''CLIENT_DISCONNECT''" "?last = [DoneFrame]" by (auto split: if_splits)
  have "terminal_state c2 = Some (sg_terminal g)" using cleanup_run_facts(1) [OF cl] by simp
  with ok(2) through(2) have "terminal_state c2 \<in> {Some ''FINISH'', Some ''PROVIDER_ERROR''}" by (auto simp: terminal_states_def)
  with run ok(3) through(3) cleanup_run_facts(5) [OF cl ok(1)] show ?thesis by auto
qed

lemma stream_relays:
  assumes "\<forall>st \<in> set steps. quiet st" "event_type f = FINISH"
  shows "\<exists>chunks remaining closing. concat chunks @ remaining = deltas (map fst steps)
    \<and> rn_frames (stream_generator gw dump now home None (steps @ (f, False, n, n') # rest) fin None (c, w) rb)
       = (let restore = sr_restore_text (sr_start_session (dict_get (mapping_store w) (session_key c) []))
          in map text_payload (filter (\<lambda>s. s \<noteq> []) (map restore chunks)
               @ (if remaining = [] then [] else [restore remaining])) @ event_payload f # closing)
    \<and> closing \<in> {[], [DoneFrame], [error_frame (provider c) ''audit_error'']}"
proof -
  let ?sr = "sr_start_session (dict_get (mapping_store w) (session_key c) [])"
  let ?g0 = "open_stream now (dict_get (mapping_store w) (session_key c) [])"
  let ?last = "(f, False, n, n') # rest"
  have g0: "sg_restorer ?g0 = ?sr" "active_buffer (sg_buffer ?g0) = []" "tb_state (sg_buffer ?g0) \<noteq> TERMINATED"
    by (simp_all add: open_stream_def new_tail_buffer_def)
  from stream_loop_relays [OF assms(1) g0(3), of "provider c" dump ?last fin] obtain chunks zs tb where l:
    "fst (stream_loop (provider c) dump (steps @ ?last) fin ?g0) = zs @ fst (stream_loop (provider c) dump ?last fin (?g0\<lparr>sg_buffer := tb\<rparr>))"
    "snd (stream_loop (provider c) dump (steps @ ?last) fin ?g0) = snd (stream_loop (provider c) dump ?last fin (?g0\<lparr>sg_buffer := tb\<rparr>))"
    "map fst zs = map text_payload (filter (\<lambda>s. s \<noteq> []) (map (sr_restore_text ?sr) chunks))"
    "concat chunks @ active_buffer tb = deltas (map fst steps)"
    unfolding g0(1,2) by auto
  let ?rem = "active_buffer tb"
  obtain g ys where e: "stream_loop (provider c) dump ?last fin (?g0\<lparr>sg_buffer := tb\<rparr>) = (ys, g, False)"
    "map fst ys = map text_payload (if ?rem = [] then [] else [sr_restore_text ?sr ?rem]) @ [event_payload f]"
    using assms(2) g0(1) by (simp add: flush_remaining_def Let_def)
  have loop: "stream_loop (provider c) dump (steps @ ?last) fin ?g0 = (zs @ ys, g, False)"
    using l(1,2) e(1) by (metis fst_conv prod.collapse snd_conv)
  obtain closing where "rn_frames (finished_loop gw home (map fst (zs @ ys)) g (c, w) rb) = map fst (zs @ ys) @ closing"
    "closing \<in> {[], [DoneFrame], [error_frame (provider c) ''audit_error'']}"
    by (cases "session_cleanup_run gw (sg_terminal g) (c, w)") (auto simp: finished_loop_def Let_def case_prod_beta)
  moreover have "stream_generator gw dump now home None (steps @ ?last) fin None (c, w) rb = finished_loop gw home (map fst (zs @ ys)) g (c, w) rb"
    using loop by (simp add: stream_generator_def Let_def)
  ultimately show ?thesis
    using l(3,4) e(2) by (intro exI [of _ chunks] exI [of _ ?rem] exI [of _ closing]) (simp add: Let_def)
qed

text \<open>A mapping that cannot be read, or a cancelled task, ends the stream without any frame; the audit records \<open>FINISH\<close>.\<close>

lemma unread_mapping_audited_as_finish:
  assumes "terminal_state c = None"
  shows "rn_frames (stream_generator gw dump now home (Some e) steps fin closed_at (c, w) rb) = []
    \<and> terminal_state (rn_context (stream_generator gw dump now home (Some e) steps fin closed_at (c, w) rb)) = Some ''FINISH''"
proof -
  let ?c1 = "c\<lparr>terminal_state := Some ''FINISH''\<rparr>"
  obtain c2 w2 r where cl: "session_cleanup_run gw ''FINISH'' (?c1, w) = ((c2, w2), r)" by (metis prod.collapse)
  then show ?thesis using assms cleanup_run_facts(1) [OF cl]
    by (simp add: stream_generator_def interrupted_def open_stream_def Let_def split: prod.split)
qed

subsection \<open>The route\<close>

interpretation stream_gate: stage_family "streaming_pipeline gw" for gw
proof unfold_locales
  fix s st assume "s \<in> set (streaming_pipeline gw)"
  then have "s \<in> set (build_pipeline gw None)" by (simp add: streaming_pipeline_def build_pipeline_def)
  then show "\<exists>new. errors (fst (fst (execute s st))) = errors (fst st) @ new" by (rule gate.errors_grow)
qed

lemma main_loop_silent:
  assumes "\<forall>s \<in> set ss. silent (execute s)"
  shows "posted (snd (fst (main_loop i ss st rn))) = posted (snd st)"
  using assms
proof (induction i ss st rn rule: main_loop.induct)
  case (2 i s ss st rn)
  obtain st1 r where inv: "invoke s st = (st1, r)" by fastforce
  have "posted (snd st1) = posted (snd st)"
    using "2.prems" gate.invoke_posted [of s st] inv by (cases st) (simp add: silent_def)
  moreover have "r = Finished None \<Longrightarrow> \<not> has_errors (fst st) \<Longrightarrow>
      posted (snd (fst (main_loop (Suc i) ss st1 (rn @ [i])))) = posted (snd st1)"
    using "2.IH" [OF _ inv [symmetric]] "2.prems" by simp
  ultimately show ?case using inv by (auto split: invoked.split option.split)
qed simp

lemma streaming_run_silent: "posted (snd (fst (run_pipeline (streaming_pipeline gw) st))) = posted (snd st)"
proof -
  obtain st1 surf rn pend where m: "main_loop 0 (streaming_pipeline gw) st [] = (st1, surf, rn, pend)" by (metis prod_cases4)
  have ng: "\<forall>s \<in> set (streaming_pipeline gw). \<not> guaranteed s" by (auto simp: streaming_pipeline_def pipeline_defs)
  have "\<forall>s \<in> set (streaming_pipeline gw). silent (execute s)"
    using pre_provider_silent unfolding streaming_pipeline_def by blast
  from main_loop_silent [OF this, of 0 st "[]"] m have "posted (snd st1) = posted (snd st)" by simp
  then show ?thesis using m final_loop_plain [OF ng] by (auto simp: run_pipeline_def Let_def split: option.split)
qed

lemma raise_none: "raise_for_pipeline_errors c = None \<Longrightarrow> errors c = []"
  by (auto simp: raise_for_pipeline_errors_def has_errors_def Let_def split: if_splits pipe_exn.splits)

text \<open>The alias the model's name of a body resolves to, its adapter, and the body the adapter is handed.\<close>

definition routed_to :: "stream_services \<Rightarrow> (string \<times> json) list \<Rightarrow> adapter \<Rightarrow> model_alias \<Rightarrow> bool" where
  "routed_to sv body a al \<longleftrightarrow>
     (\<exists>ar m get. sv_aliases sv = Some ar \<and> map_of (stream_body body) ''model'' = Some (JStr m) \<and> resolve_alias ar m = Some al
        \<and> sv_adapters sv = Some get \<and> get (ma_provider al) = Some a)"

definition handed_body :: "(string \<times> json) list \<Rightarrow> model_alias \<Rightarrow> (string \<times> json) list" where
  "handed_body body al = AList.update ''model'' (JStr (ma_model al)) (stream_body body)"

lemma prepare_started:
  assumes "prepare_stream sv c = (c2, Inr (a, req))"
  shows "\<exists>body al. errors c = [] \<and> transformed_request c = Some body \<and> sv_streaming sv a \<and> routed_to sv body a al
    \<and> translate_request (sv_env sv) a (Some (handed_body body al)) = Inr req"
proof -
  let ?act = "case classification_result c of None \<Rightarrow> ''ANONYMIZE'' | Some r \<Rightarrow> co_action r"
  have e: "raise_for_pipeline_errors c = None" "?act \<noteq> ''BLOCK''" "?act \<noteq> ''ROUTE_LOCAL''"
    using assms by (auto simp: prepare_stream_def Let_def split: option.splits if_splits)
  obtain body where b: "transformed_request c = Some body"
    using assms e by (cases "transformed_request c") (simp_all add: prepare_stream_def Let_def)
  obtain ar where ar: "sv_aliases sv = Some ar"
    using assms e b by (cases "sv_aliases sv") (simp_all add: prepare_stream_def Let_def)
  obtain m where m: "map_of (stream_body body) ''model'' = Some (JStr m)"
    using assms e b ar by (auto simp: prepare_stream_def Let_def split: option.splits json.splits)
  obtain al where al: "resolve_alias ar m = Some al"
    using assms e b ar m by (cases "resolve_alias ar m") (simp_all add: prepare_stream_def Let_def)
  obtain ga where ga: "sv_adapters sv = Some ga"
    using assms e b ar m al by (cases "sv_adapters sv") (simp_all add: prepare_stream_def Let_def)
  obtain a' where a': "ga (ma_provider al) = Some a'"
    using assms e b ar m al ga by (cases "ga (ma_provider al)") (simp_all add: prepare_stream_def Let_def)
  have st: "sv_streaming sv a'"
    using assms e b ar m al ga a' by (cases "sv_streaming sv a'") (simp_all add: prepare_stream_def Let_def)
  let ?body = "AList.update ''model'' (JStr (ma_model al)) (stream_body body)"
  obtain rq where rq: "translate_request (sv_env sv) a' (Some ?body) = Inr rq"
    using assms e b ar m al ga a' st
    by (cases "translate_request (sv_env sv) a' (Some ?body)") (auto simp: prepare_stream_def Let_def split: py_exn.splits)
  have "a' = a \<and> rq = req"
    using assms e b ar m al ga a' st rq by (simp add: prepare_stream_def Let_def split: if_splits)
  moreover have "routed_to sv body a' al" using ar m al ga a' unfolding routed_to_def by blast
  ultimately show ?thesis using raise_none [OF e(1)] b st rq unfolding handed_body_def by blast
qed

lemma content_texts_body: "content_texts str_of (handed_body body al) = content_texts str_of body"
  by (simp add: content_texts_def handed_body_def stream_body_def dict_get_def map_of_update)

lemma handed_body_hidden:
  assumes "carries_hidden body (extract_text b0) se ds"
  shows "carries_hidden (handed_body body al) (extract_text b0) se ds"
proof -
  have "read_keys (JObj (handed_body body al)) (node_keys n) = read_keys (JObj body) (node_keys n)" if "n \<in> set (extract_text b0)" for n
  proof -
    from extract_text_at [OF that] have "node_keys n = KName ''messages'' # tl (node_keys n)"
      by (auto simp: message_key_def content_keys_def arguments_keys_def)
    moreover have "get_key (JObj (handed_body body al)) (KName ''messages'') = get_key (JObj body) (KName ''messages'')"
      by (simp add: get_key_def map_of_update handed_body_def stream_body_def)
    ultimately show ?thesis by (metis read_keys.simps(2))
  qed
  with assms show ?thesis by (simp add: carries_hidden_def)
qed

lemma stream_started:
  assumes "stream_chat_completions sv ri w rb = (Started a req, (c2, w2), rb2)"
  shows "posted w2 = posted w \<and> sv_streaming sv a
    \<and> (\<exists>body ds al. request_detections (sv_gateway sv) (new_request_context ri, w) = Some ds
        \<and> admitted_for (sv_gateway sv) None ri (Some (ri_model ri)) ds w
        \<and> tokenized_body (sv_gateway sv) ri ds = Some body \<and> routed_to sv body a al
        \<and> carries_hidden (handed_body body al) (extract_text (ri_body ri)) (request_session (sv_gateway sv) ri ds) ds
        \<and> translate_request (sv_env sv) a (Some (handed_body body al)) = Inr req
        \<and> texts_of (JObj (pr_body req)) \<subseteq> texts_of (JObj body) \<union> set (adapter_words a)
            \<union> set (content_texts (av_str (sv_env sv)) body) \<union> {ma_model al})"
proof -
  let ?gw = "sv_gateway sv" and ?c0 = "new_request_context ri"
  obtain c1 w1 ex r where run: "run_pipeline (streaming_pipeline ?gw) (?c0, w) = ((c1, w1), ex, r)" by (metis surj_pair)
  have sp: "sv_pipeline sv" "\<not> r"
    using assms run by (auto simp: stream_chat_completions_def Let_def split: if_splits bool.splits)
  obtain c2' pr where prep: "prepare_stream sv c1 = (c2', pr)" by fastforce
  have pr: "pr = Inr (a, req)" "c2' = c2" "w2 = w1"
    using assms run sp prep
    by (auto simp: stream_chat_completions_def Let_def split: sum.splits prod.splits option.splits raised.splits)
  obtain body al where p: "errors c1 = []" "transformed_request c1 = Some body" "sv_streaming sv a" "routed_to sv body a al"
    "translate_request (sv_env sv) a (Some (handed_body body al)) = Inr req"
    using prepare_started [OF prep [unfolded pr]] by blast
  have "clean_run (streaming_pipeline ?gw) (?c0, w) = Some (c1, w1)"
    by (rule stream_gate.run_outcome [of ?gw "(?c0, w)" "(c1, w1)" ex]) (use run sp(2) p(1) in auto)
  then have "clean_run (take 9 (build_pipeline ?gw None)) (?c0, w) = Some (c1, w1)"
    unfolding pre_provider_take streaming_pipeline_def .
  from gateway_clean_prefix_from [OF this intake_new(1,3,4)] p(2) obtain ds where
    h: "request_detections ?gw (?c0, w) = Some ds" "admitted_for ?gw None ri (Some (ri_model ri)) ds w"
      "tokenized_body ?gw ri ds = Some body"
    unfolding intake_new(2) by auto
  have "posted w2 = posted w" using streaming_run_silent [of ?gw "(?c0, w)"] run pr(3) by simp
  moreover have "texts_of (JObj (pr_body req))
      \<subseteq> texts_of (JObj body) \<union> set (adapter_words a) \<union> set (content_texts (av_str (sv_env sv)) body) \<union> {ma_model al}"
    using translated_texts [OF p(5)] texts_update [of "''model''" "JStr (ma_model al)" "stream_body body"]
      texts_update [of "''stream''" "JBool True" body]
    unfolding content_texts_body unfolding handed_body_def stream_body_def by auto
  ultimately show ?thesis using h p(3-5) handed_body_hidden [OF tokenized_body_hidden [OF h(3)]] by blast
qed

lemma stream_refused:
  assumes "stream_chat_completions sv ri w rb = (Refused rej, (c2, w2), rb2)" "sv_pipeline sv"
  shows "posted w2 = posted w \<and> terminal_state c2 = Some ''REJECTED''
    \<and> (fst (gw_delete (sv_gateway sv) (session_key c2)) \<longrightarrow> map_of (mapping_store w2) (session_key c2) = None)"
proof -
  let ?gw = "sv_gateway sv" and ?c0 = "new_request_context ri"
  obtain c1 w1 ex r where run: "run_pipeline (streaming_pipeline ?gw) (?c0, w) = ((c1, w1), ex, r)" by (metis surj_pair)
  have nr: "\<not> r" using assms run by (auto simp: stream_chat_completions_def Let_def split: bool.splits)
  obtain c2' pr where prep: "prepare_stream sv c1 = (c2', pr)" by fastforce
  obtain rj where pr: "pr = Inl rj"
    using assms run nr prep by (cases pr) (auto simp: stream_chat_completions_def Let_def)
  obtain st3 rs where cl: "session_cleanup_run ?gw ''REJECTED'' (c2', w1) = (st3, rs)" by fastforce
  have st3: "st3 = (c2, w2)"
    using assms run nr prep pr cl
    by (auto simp: stream_chat_completions_def Let_def split: option.splits raised.splits)
  note f = cleanup_run_facts [OF cl [unfolded st3]]
  have key: "session_key c2 = session_key c2'" using f(1) by simp
  show ?thesis
    using f(1-3) streaming_run_silent [of ?gw "(?c0, w)"] run unfolding key by auto
qed

subsection \<open>A sample gateway\<close>

definition sample_bundle :: locale_bundle where
  "sample_bundle = \<lparr>code = ''en'', entity_types = [], checksum = None, checksums = []\<rparr>"

definition sample_services :: detect_services where
  "sample_services =
     \<lparr>ds_regex = [], ds_compile = (\<lambda>_. None), ds_custom = [], ds_presidio = (\<lambda>ns _ _ _. Inr (map (\<lambda>_. []) ns)),
      ds_exclusions = \<lparr>excl_exact = [], excl_wildcards = []\<rparr>, ds_checksums = [], ds_mnpi = [], ds_enterprise = [],
      ds_languages = [''en''], ds_booster = Inl ValueError\<rparr>"

definition sample_gateway :: gateway where
  "sample_gateway =
     \<lparr>gw_engine = make_engine [] ''ANONYMIZE'', gw_registry = load_bundles [(''en'', Inr sample_bundle)],
      gw_universal = ''en'', gw_universal_bundle = sample_bundle, gw_detect = sample_services,
      gw_entity_map = entity_classification_map, gw_default_action = None, gw_set_list = remdups,
      gw_json = \<lparr>loads = (\<lambda>_. None), py_str = (\<lambda>_. [])\<rparr>, gw_seed = 0, gw_store = (\<lambda>_ _. None),
      gw_delete = (\<lambda>_. (True, None)), gw_alias = None, gw_py_str = (\<lambda>_. []),
      gw_post = (\<lambda>_. HttpResponse 200 False (Some (JObj []))), gw_dispatch_time = 1, gw_restore_time = 2, gw_attempts = 3,
      gw_log = (\<lambda>k. if k = 1 then LogTimedOut else Logged), gw_log_time = rat_of_nat, gw_digest = (\<lambda>e. event_id e @ dec (nat \<lfloor>timestamp e\<rfloor>)),
      gw_event_id = (\<lambda>t r. t @ '':'' @ r), gw_dumps = (\<lambda>_. []), gw_retention = 90\<rparr>"

definition sample_world :: world where
  "sample_world = \<lparr>mapping_store = [], posted = [], decisions = [], audit_table = empty_db\<rparr>"

definition sample_request :: "(string \<times> json) list \<Rightarrow> request_info" where
  "sample_request body =
     \<lparr>ri_request_id = ''r1'', ri_tenant = ''acme'', ri_context_id = ''c1'', ri_body = body, ri_model = ''gpt'',
      ri_locale = None, ri_client_level = None, ri_audit_chain = True, ri_presets = []\<rparr>"

subsection \<open>Properties\<close>

text \<open>C28. when the streaming route starts a stream, nothing was posted before, the request was admitted by
  classification and by the level of its detections (the route has no policy, DLP and tool services), and
  the body it hands to the adapter of the resolved model is the tokenized body of the request, written in
  one session from the detections found on it: each of its text nodes reads the text with a token in the
  place of every accepted span. What the adapter sends holds no string that is not in that tokenized body,
  in the textual form of its contents, the name of the resolved model or a word of the provider's protocol.
  Contents that are lists of parts are no text nodes: they are in that body as they came.
\<close>

theorem stream_forwards_tokenized:
  assumes "stream_chat_completions sv ri w rb = (Started a req, (c2, w2), rb2)"
  shows "posted w2 = posted w \<and> sv_streaming sv a
    \<and> (\<exists>body ds al. request_detections (sv_gateway sv) (new_request_context ri, w) = Some ds
        \<and> admitted_for (sv_gateway sv) None ri (Some (ri_model ri)) ds w
        \<and> tokenized_body (sv_gateway sv) ri ds = Some body \<and> routed_to sv body a al
        \<and> carries_hidden (handed_body body al) (extract_text (ri_body ri)) (request_session (sv_gateway sv) ri ds) ds
        \<and> translate_request (sv_env sv) a (Some (handed_body body al)) = Inr req
        \<and> set (json_texts (JObj (pr_body req)))
            \<subseteq> set (json_texts (JObj body)) \<union> set (adapter_words a) \<union> set (content_texts (av_str (sv_env sv)) body) \<union> {ma_model al})"
  by (rule stream_started [OF assms])

definition plain_stream :: "(string \<times> json) list" where
  "plain_stream = [(''model'', JStr ''gpt''), (''stream'', JBool True),
     (''messages'', JList [JObj [(''role'', JStr ''user''), (''content'', JStr ''hello'')]])]"

definition sample_stream_services :: stream_services where
  "sample_stream_services =
     \<lparr>sv_gateway = sample_gateway, sv_pipeline = True, sv_cache = True,
      sv_aliases = Some \<lparr>ar_aliases = [(''gpt'', \<lparr>ma_provider = ''ollama'', ma_model = ''llama3.1''\<rparr>)], ar_names = [(''gpt'', ''gpt'')]\<rparr>,
      sv_adapters = Some (\<lambda>n. if n = ''ollama'' then Some Ollama else None), sv_streaming = (\<lambda>_. True),
      sv_env = \<lparr>av_keys = \<lparr>ke_store = None, ke_environ = []\<rparr>, av_str = (\<lambda>_. []), av_ollama_host = None\<rparr>\<rparr>"

text \<open>The stages without the application state are the identity, which leaves a list that evaluates.\<close>

definition ungoverned_stages :: "gateway \<Rightarrow> stage list" where
  "ungoverned_stages gw = shared_stages gw @
     [mk_stage ''PolicyEnforcementStage'' (\<lambda>st. (st, None)), mk_stage ''InboundDLPStage'' (\<lambda>st. (st, None)),
      mk_stage ''ToolGovernanceStage'' (\<lambda>st. (st, None)), mk_stage ''TokenizationStage'' (tokenization_execute gw),
      mk_stage ''ForwardingGuard'' (guard_execute gw)]"

lemma streaming_stages: "streaming_pipeline gw = ungoverned_stages gw"
  by (simp add: ungoverned_stages_def streaming_pipeline_def build_pre_provider_pipeline_def app_less_stages)

lemma sample_stream_run:
  "case run_pipeline (ungoverned_stages sample_gateway) (new_request_context (sample_request plain_stream), sample_world)
   of ((c1, w1), _, r) \<Rightarrow> \<not> r \<and> (case snd (prepare_stream sample_stream_services c1) of Inr (a, _) \<Rightarrow> a = Ollama | _ \<Rightarrow> False)"
  by code_simp

theorem stream_forwards_tokenized_witness:
  "\<exists>req st rb. stream_chat_completions sample_stream_services (sample_request plain_stream) sample_world None = (Started Ollama req, st, rb)
     \<and> posted (snd st) = []"
proof -
  obtain st1 ex r where run: "run_pipeline (streaming_pipeline sample_gateway) (new_request_context (sample_request plain_stream), sample_world)
      = (st1, ex, r)" by (metis surj_pair)
  obtain c1 w1 where st1: "st1 = (c1, w1)" by fastforce
  obtain c2 req where "\<not> r" "prepare_stream sample_stream_services c1 = (c2, Inr (Ollama, req))"
    using sample_stream_run run unfolding streaming_stages st1
    by (cases "prepare_stream sample_stream_services c1") (auto split: sum.splits)
  then have started: "stream_chat_completions sample_stream_services (sample_request plain_stream) sample_world None
      = (Started Ollama req, (c2, w1), None)"
    using run by (simp add: stream_chat_completions_def sample_stream_services_def st1 Let_def)
  from stream_forwards_tokenized [OF started] have "posted w1 = []" by (simp add: sample_world_def)
  with started show ?thesis by auto
qed

text \<open>C29. however a stream goes - the client disconnects or closes it at any frame, the provider fails, the
  task is cancelled, the mapping cannot be read - it is wound up once, in one terminal state: one emission
  of the audit event is made with that state (several attempts, as C12 describes), and if it reports no
  error the row is there; the mapping of the session is deleted when the store executes the deletion, and no
  other is touched; the buffer takes no more text and the restorer forgets the values. The session of its
  secrets is released exactly then for certain when the generator is closed in the context that started it
  and the cleanup is not cancelled; in another context it is never released, as \<open>ContextVar.reset\<close> raises
  first (findings).
\<close>

theorem stream_always_wound_up:
  assumes "terminal_state c = None"
    and "run = stream_generator gw dump now home unread steps fin closed_at (c, w) rb"
  shows "\<exists>state \<in> {''FINISH'', ''CLIENT_DISCONNECT'', ''PROVIDER_ERROR''}.
      rn_context run = c\<lparr>terminal_state := Some state\<rparr>
    \<and> audit_table (rn_world run) = audit_table (fst (emit_anonymization_audit gw (c\<lparr>terminal_state := Some state\<rparr>) w))
    \<and> (snd (emit_anonymization_audit gw (c\<lparr>terminal_state := Some state\<rparr>) w) = None
         \<and> has_audit_chain c \<and> db_ok (gw_digest gw) (audit_table w) \<longrightarrow>
        (\<exists>r \<in> set (rows (audit_table (rn_world run))). event_id r = gw_event_id gw (tenant_id c) (request_id c)))
    \<and> posted (rn_world run) = posted w
    \<and> (fst (gw_delete gw (session_key c)) \<longrightarrow> map_of (mapping_store (rn_world run)) (session_key c) = None)
    \<and> (\<forall>k. k \<noteq> session_key c \<longrightarrow> map_of (mapping_store (rn_world run)) k = map_of (mapping_store w) k)
    \<and> tb_state (sg_buffer (rn_state run)) = TERMINATED
    \<and> sr_mappings (sg_restorer (rn_state run)) = [] \<and> sr_lookup (sg_restorer (rn_state run)) = []
    \<and> (if \<not> home then rn_rotation run = rb
       else if snd (session_cleanup_run gw state (c, w)) = Some Cancelled
       then rn_rotation run = rb \<or> rn_rotation run = release_session c rb
       else rn_rotation run = release_session c rb)"
proof -
  obtain state where s: "state \<in> terminal_states" "wound_up gw home c w rb state run"
    using stream_wound_up [OF assms(1), of gw home w rb dump now unread steps fin closed_at] unfolding assms(2) by blast
  have "\<exists>r \<in> set (rows (audit_table (rn_world run))). event_id r = gw_event_id gw (tenant_id c) (request_id c)"
    if "snd (emit_anonymization_audit gw (c\<lparr>terminal_state := Some state\<rparr>) w) = None" "has_audit_chain c"
      "db_ok (gw_digest gw) (audit_table w)"
    using emitted_row [OF that(1)] that(2,3) s(2) by (simp add: wound_up_def)
  then show ?thesis using s unfolding wound_up_def terminal_states_def by (intro bexI [of _ state]) simp_all
qed

definition stream_context :: processing_context where
  "stream_context = new_request_context (sample_request plain_stream)"

definition stream_world :: world where
  "stream_world = sample_world\<lparr>mapping_store := [((''acme'', ''c1''), [(''[EMAIL_7]'', ''a@b.c'')]), ((''acme'', ''c2''), [])]\<rparr>"

definition stream_text :: "string \<Rightarrow> stream_step" where
  "stream_text s = ((adapter_event OpenAI TEXT_DELTA None)\<lparr>delta_text := Some s\<rparr>, False, 1, 1)"

theorem stream_always_wound_up_witness:
  "mapping_store (rn_world (stream_generator sample_gateway (\<lambda>_. []) 1 True None [stream_text ''hi''] TaskCancelled (Some 0)
      (stream_context, stream_world) None)) = [((''acme'', ''c2''), [])]
   \<and> tb_state (sg_buffer (rn_state (stream_generator sample_gateway (\<lambda>_. []) 1 True None [stream_text ''hi''] TaskCancelled (Some 0)
      (stream_context, stream_world) None))) = TERMINATED"
proof -
  have "terminal_state stream_context = None"
    by (simp add: stream_context_def new_request_context_def new_processing_context_def Let_def set_audit_def)
  from stream_always_wound_up [OF this refl, of sample_gateway "\<lambda>_. []" 1 True None "[stream_text ''hi'']" TaskCancelled "Some 0" stream_world None]
  have "tb_state (sg_buffer (rn_state (stream_generator sample_gateway (\<lambda>_. []) 1 True None [stream_text ''hi''] TaskCancelled (Some 0)
      (stream_context, stream_world) None))) = TERMINATED" by blast
  moreover have "mapping_store (rn_world (stream_generator sample_gateway (\<lambda>_. []) 1 True None [stream_text ''hi''] TaskCancelled (Some 0)
      (stream_context, stream_world) None)) = [((''acme'', ''c2''), [])]" by code_simp
  ultimately show ?thesis by blast
qed

text \<open>a client that receives the closing frame receives it once, as the last frame, and then the audit
  row of the stream was written; it is not sent to a client that had disconnected.
\<close>

theorem done_frame_means_audited:
  assumes "DoneFrame \<in> set (rn_frames run)"
    and "run = stream_generator gw dump now home unread steps fin closed_at (c, w) rb"
  shows "\<exists>fs. rn_frames run = fs @ [DoneFrame] \<and> DoneFrame \<notin> set fs
    \<and> terminal_state (rn_context run) \<in> {Some ''FINISH'', Some ''PROVIDER_ERROR''}
    \<and> snd (emit_anonymization_audit gw (rn_context run) w) = None"
  by (rule stream_done_audited [OF assms])

text \<open>C30. until the provider ends the answer, the frames a connected client receives are the texts of the
  stream in order, cut into chunks that together are exactly the streamed text, each chunk with its
  tokens restored from the mapping of the session; then the end, then the closing frame or an error.
\<close>

theorem stream_relays_text:
  assumes "\<forall>st \<in> set steps. quiet st" "event_type f = FINISH"
  shows "\<exists>chunks remaining closing. concat chunks @ remaining = concat (map delta_of (map fst steps))
    \<and> rn_frames (stream_generator gw dump now home None (steps @ (f, False, n, n') # rest) fin None (c, w) rb)
       = (let restore = sr_restore_text (sr_start_session (dict_get (mapping_store w) (session_key c) []))
          in map text_payload (filter (\<lambda>s. s \<noteq> []) (map restore chunks)
               @ (if remaining = [] then [] else [restore remaining])) @ event_payload f # closing)
    \<and> closing \<in> {[], [DoneFrame], [error_frame (provider c) ''audit_error'']}"
  using stream_relays [OF assms, of gw dump now home n n' rest fin c w rb] unfolding deltas_def .

definition stream_finish :: stream_event where
  "stream_finish = (adapter_event OpenAI FINISH None)\<lparr>finish_reason := Some STOP\<rparr>"

definition sample_stream :: stream_run where
  "sample_stream = stream_generator sample_gateway (\<lambda>_. []) 1 True None
     ([stream_text ''mail [EMA'', stream_text ''IL_7] now''] @ (stream_finish, False, 1, 1) # []) Exhausted None
     (stream_context, stream_world) None"

lemma sample_stream_frames:
  "rn_frames sample_stream = [text_payload ''mail a@b.c now'', event_payload stream_finish, DoneFrame]"
  by code_simp

theorem done_frame_means_audited_witness:
  "terminal_state (rn_context sample_stream) \<in> {Some ''FINISH'', Some ''PROVIDER_ERROR''}"
proof -
  have "DoneFrame \<in> set (rn_frames sample_stream)" unfolding sample_stream_frames by simp
  from done_frame_means_audited [OF this sample_stream_def] show ?thesis by blast
qed

theorem stream_relays_text_witness:
  "\<exists>chunks remaining. concat chunks @ remaining = ''mail [EMAIL_7] now''
     \<and> rn_frames sample_stream = [text_payload ''mail a@b.c now'', event_payload stream_finish, DoneFrame]"
proof -
  have q: "\<forall>st \<in> set [stream_text ''mail [EMA'', stream_text ''IL_7] now'']. quiet st" "event_type stream_finish = FINISH"
    by (simp_all add: stream_text_def quiet_def stream_finish_def)
  have d: "concat (map delta_of (map fst [stream_text ''mail [EMA'', stream_text ''IL_7] now''])) = ''mail [EMAIL_7] now''"
    by (simp add: stream_text_def delta_of_def)
  show ?thesis
    using stream_relays_text [OF q, of sample_gateway "\<lambda>_. []" 1 True 1 1 "[]" Exhausted stream_context stream_world None]
    unfolding d sample_stream_frames by blast
qed

end
