(* ===== verification/Access.thy ===== *)
theory Access
  imports ProviderKeys
begin

text \<open>
  Who may do what for which tenant: the verification of OIDC tokens with the key cache
  (\<open>auth/oidc.py\<close>), the administrator credentials and the tenant they are bound to
  (\<open>admin/auth.py\<close>, \<open>admin/router.py\<close>), the gateway client key (\<open>dependencies.py\<close>), the tenant
  registry and middleware (\<open>tenant/registry.py\<close>, \<open>middleware/tenant.py\<close>), roles
  (\<open>middleware/rbac.py\<close>), the scope of audit reads (\<open>services/tenant_scope.py\<close>) and licences
  (\<open>license/validator.py\<close>). The RSA operations, the JSON parser, HMAC and the validation of the
  licence document are parameters; a header that is absent is None.
\<close>

subsection \<open>Settings, requests and errors\<close>

record admin_settings =
  ADMIN_API_KEY :: "string option"
  ADMIN_TENANT_ID :: "string option"
  ADMIN_ROLE :: string
  API_KEY :: "string option"
  OIDC_ISSUER :: "string option"
  OIDC_AUDIENCE :: "string option"
  OIDC_JWKS_URL :: "string option"
  OIDC_ROLE_CLAIM :: string
  SINGLE_TENANT :: bool

record principal =
  pn_id :: string
  pn_role :: string
  pn_tenant :: string
  pn_issuer :: "string option"

record tenant_profile =
  tp_id :: json
  tp_display_name :: json
  tp_enabled :: json
  tp_allowed_providers :: json
  tp_allowed_models :: json

record http_req =
  rq_path :: string
  rq_authorization :: "string option"
  rq_tenant_header :: "string option"
  rq_role_principal :: "principal option"
  rq_oidc_principal :: "principal option"
  rq_tenant_id :: "string option"
  rq_profile :: "tenant_profile option"

text \<open>\<open>Raised\<close> is any other exception, by the name of its class.\<close>

datatype auth_exn = HTTPException nat string | InvalidTenantHeaderError | OIDCVerificationError string | Raised string

definition or_empty :: "string option \<Rightarrow> string" where
  "or_empty o' = (case o' of None \<Rightarrow> [] | Some s \<Rightarrow> s)"

definition partition_at :: "char \<Rightarrow> string \<Rightarrow> string \<times> string" where
  "partition_at d s = (takeWhile (\<lambda>c. c \<noteq> d) s, drop 1 (dropWhile (\<lambda>c. c \<noteq> d) s))"

definition safe_compare :: "string \<Rightarrow> string \<Rightarrow> bool" where
  "safe_compare a b \<longleftrightarrow> utf8_encode a = utf8_encode b"

lemma safe_compare_eq [simp]: "safe_compare a b \<longleftrightarrow> a = b"
  unfolding safe_compare_def by (metis option.inject utf8_round_trip)

subsection \<open>Tenant identifiers\<close>

definition is_ascii :: "string \<Rightarrow> bool" where
  "is_ascii s \<longleftrightarrow> list_all (\<lambda>c. (of_char c :: nat) < 128) s"

definition clean_tenant :: "string option \<Rightarrow> string option" where
  "clean_tenant v =
     (case v of
        None \<Rightarrow> None
      | Some raw \<Rightarrow>
          let tenant = strip_space raw
          in if tenant = [] \<or> tenant = ''*'' \<or> length tenant > 64 then None
             else if \<not> is_ascii tenant \<or> list_ex (\<lambda>c. (of_char c :: nat) < 32 \<or> (of_char c :: nat) = 127) tenant then None
             else Some tenant)"

definition concrete_tenant :: "string option \<Rightarrow> string option" where
  "concrete_tenant v =
     (case v of
        None \<Rightarrow> None
      | Some raw \<Rightarrow>
          let tenant = strip_space raw
          in if tenant = [] \<or> tenant = ''*'' \<or> length tenant > 64 then None
             else if \<not> is_ascii tenant \<or> list_ex (\<lambda>c. (of_char c :: nat) < 32 \<or> (of_char c :: nat) = 127) tenant then None
             else Some tenant)"

definition tenant_header_is_invalid :: "string option \<Rightarrow> bool" where
  "tenant_header_is_invalid raw \<longleftrightarrow>
     (case raw of None \<Rightarrow> False | Some s \<Rightarrow> strip_space s \<noteq> [] \<and> clean_tenant raw = None)"

lemma concrete_is_clean: "concrete_tenant = clean_tenant"
  by (rule ext) (simp add: concrete_tenant_def clean_tenant_def)

lemma hd_dropWhile_space: "dropWhile is_space s \<noteq> [] \<Longrightarrow> \<not> is_space (hd (dropWhile is_space s))"
  by (rule hd_dropWhile)

lemma dropWhile_fixed: "s = [] \<or> \<not> is_space (hd s) \<Longrightarrow> dropWhile is_space s = s"
  by (cases s) auto

lemma strip_space_idem [simp]: "strip_space (strip_space s) = strip_space s"
proof -
  define a where "a = dropWhile is_space s"
  define b where "b = dropWhile is_space (rev a)"
  have b_end: "b = [] \<or> \<not> is_space (hd b)" unfolding b_def using hd_dropWhile_space by blast
  have a_end: "a = [] \<or> \<not> is_space (hd a)" unfolding a_def using hd_dropWhile_space by blast
  have "rev b = [] \<or> \<not> is_space (hd (rev b))"
  proof (cases "b = []")
    case False
    have "rev a = takeWhile is_space (rev a) @ b" by (simp add: b_def)
    then have "a = rev b @ rev (takeWhile is_space (rev a))" by (metis rev_append rev_rev_ident)
    with False a_end show ?thesis by (metis Nil_is_append_conv hd_append2 rev_is_Nil_conv)
  qed simp
  then have "dropWhile is_space (rev b) = rev b" by (rule dropWhile_fixed)
  moreover have "dropWhile is_space b = b" using b_end by (rule dropWhile_fixed)
  ultimately show ?thesis by (simp add: strip_space_def a_def [symmetric] b_def [symmetric])
qed

lemma clean_tenant_fixed: "clean_tenant v = Some t \<Longrightarrow> clean_tenant (Some t) = Some t \<and> strip_space t = t"
  by (auto simp: clean_tenant_def Let_def split: option.splits if_splits)

lemma clean_tenant_shape:
  "clean_tenant v = Some t \<Longrightarrow> t \<noteq> [] \<and> t \<noteq> ''*'' \<and> length t \<le> 64 \<and> is_ascii t"
  by (auto simp: clean_tenant_def Let_def split: option.splits if_splits)

lemma clean_tenant_strip: "clean_tenant (Some s) = Some t \<Longrightarrow> t = strip_space s"
  by (auto simp: clean_tenant_def Let_def split: if_splits)

subsection \<open>JSON web keys\<close>

type_synonym rsa_key = "nat \<times> nat"

text \<open>\<open>ol_rsa\<close> tells whether the numbers make a key, \<open>ol_verify\<close> checks a signature on bytes.\<close>

record oidc_library =
  ol_loads :: "string \<Rightarrow> json option"
  ol_rsa :: "rsa_key \<Rightarrow> bool"
  ol_verify :: "rsa_key \<Rightarrow> string \<Rightarrow> string \<Rightarrow> bool"

definition b64url_decode :: "string \<Rightarrow> string option" where
  "b64url_decode s =
     (if \<not> is_ascii s then None
      else b64decode (map (\<lambda>c. if c = CHR ''-'' then CHR ''+'' else if c = CHR ''_'' then CHR ''/'' else c)
                      (s @ replicate ((4 - length s mod 4) mod 4) CHR ''='')))"

definition from_bytes_big :: "string \<Rightarrow> nat" where
  "from_bytes_big bs = foldl (\<lambda>n c. 256 * n + of_char c) 0 bs"

definition jwk_number :: "(string \<times> json) list \<Rightarrow> string \<Rightarrow> auth_exn + nat" where
  "jwk_number jwk k =
     (case map_of jwk k of
        None \<Rightarrow> Inl (Raised ''KeyError'')
      | Some (JStr s) \<Rightarrow> (case b64url_decode s of None \<Rightarrow> Inl (Raised ''ValueError'') | Some bs \<Rightarrow> Inr (from_bytes_big bs))
      | Some _ \<Rightarrow> Inl (Raised ''TypeError''))"

definition public_key_from_jwk :: "oidc_library \<Rightarrow> (string \<times> json) list \<Rightarrow> auth_exn + rsa_key" where
  "public_key_from_jwk lib jwk =
     (if map_of jwk ''kty'' \<noteq> Some (JStr ''RSA'') then Inl (Raised ''ValueError'')
      else bind_result (jwk_number jwk ''n'') (\<lambda>n. bind_result (jwk_number jwk ''e'') (\<lambda>e.
             if ol_rsa lib (n, e) then Inr (n, e) else Inl (Raised ''ValueError''))))"

record jwks_cache =
  jc_keys :: "(string, rsa_key) dict"
  jc_expires :: rat
  jc_ttl :: rat

definition is_fresh :: "jwks_cache \<Rightarrow> rat \<Rightarrow> bool" where
  "is_fresh cache now \<longleftrightarrow> jc_keys cache \<noteq> [] \<and> now < jc_expires cache"

fun jwks_keys :: "oidc_library \<Rightarrow> json list \<Rightarrow> (string, rsa_key) dict \<Rightarrow> auth_exn + (string, rsa_key) dict" where
  "jwks_keys lib [] acc = Inr acc"
| "jwks_keys lib (JObj raw # rest) acc =
     (case map_of raw ''kid'' of
        Some (JStr kid) \<Rightarrow>
          if kid = [] then jwks_keys lib rest acc
          else bind_result (public_key_from_jwk lib raw) (\<lambda>k. jwks_keys lib rest (AList.update kid k acc))
      | _ \<Rightarrow> jwks_keys lib rest acc)"
| "jwks_keys lib (_ # rest) acc = jwks_keys lib rest acc"

text \<open>The fetched document, or the exception of the fetch; \<open>now\<close> is read after it.\<close>

definition refresh_jwks :: "oidc_library \<Rightarrow> string + (string \<times> json) list \<Rightarrow> rat \<Rightarrow> jwks_cache \<Rightarrow> auth_exn option \<times> jwks_cache" where
  "refresh_jwks lib fetched now cache =
     (case fetched of
        Inl n \<Rightarrow> (Some (Raised n), cache)
      | Inr jwks \<Rightarrow>
          (case dict_get jwks ''keys'' (JList []) of
             JList ks \<Rightarrow>
               (case jwks_keys lib ks [] of
                  Inl e \<Rightarrow> (Some e, cache)
                | Inr keys \<Rightarrow> (None, cache\<lparr>jc_keys := keys, jc_expires := now + jc_ttl cache\<rparr>))
           | JObj _ \<Rightarrow> (None, cache\<lparr>jc_keys := [], jc_expires := now + jc_ttl cache\<rparr>)
           | JStr _ \<Rightarrow> (None, cache\<lparr>jc_keys := [], jc_expires := now + jc_ttl cache\<rparr>)
           | _ \<Rightarrow> (Some (Raised ''TypeError''), cache)))"

text \<open>The clock at the check without the lock, at the check with it and after the fetch.\<close>

record key_fetch =
  kf_before :: rat
  kf_locked :: rat
  kf_fetched :: "string + (string \<times> json) list"
  kf_after :: rat

definition jwks_key :: "oidc_library \<Rightarrow> key_fetch \<Rightarrow> string \<Rightarrow> jwks_cache \<Rightarrow> (auth_exn + rsa_key) \<times> jwks_cache" where
  "jwks_key lib kf kid cache =
     (if kid = [] then (Inl (Raised ''ValueError''), cache)
      else case (if is_fresh cache (kf_before kf) \<or> is_fresh cache (kf_locked kf) then map_of (jc_keys cache) kid else None) of
        Some k \<Rightarrow> (Inr k, cache)
      | None \<Rightarrow>
          (case refresh_jwks lib (kf_fetched kf) (kf_after kf) cache of
             (Some e, cache1) \<Rightarrow> (Inl e, cache1)
           | (None, cache1) \<Rightarrow>
               (case map_of (jc_keys cache1) kid of
                  None \<Rightarrow> (Inl (Raised ''ValueError''), cache1)
                | Some k \<Rightarrow> (Inr k, cache1))))"

subsection \<open>Tokens\<close>

record oidc_verifier =
  ov_issuer :: string
  ov_audience :: string
  ov_role_claim :: string

definition extract_bearer_token :: "string option \<Rightarrow> auth_exn + string" where
  "extract_bearer_token authorization =
     (case authorization of
        None \<Rightarrow> Inl (OIDCVerificationError ''Missing Authorization header'')
      | Some a \<Rightarrow>
          let (scheme, token) = partition_at CHR '' '' a
          in if casefold scheme \<noteq> ''bearer'' \<or> token = []
             then Inl (OIDCVerificationError ''Invalid Authorization header'') else Inr token)"

definition split_token :: "oidc_library \<Rightarrow> string \<Rightarrow> auth_exn + json \<times> json \<times> string \<times> string" where
  "split_token lib token =
     (case split_on CHR ''.'' token of
        [header_b64, payload_b64, signature_b64] \<Rightarrow>
          (case (Option.bind (b64url_decode header_b64) (ol_loads lib), Option.bind (b64url_decode payload_b64) (ol_loads lib),
                 b64url_decode signature_b64) of
             (Some header, Some payload, Some signature) \<Rightarrow>
               if is_ascii (header_b64 @ ''.'' @ payload_b64)
               then Inr (header, payload, header_b64 @ ''.'' @ payload_b64, signature)
               else Inl (OIDCVerificationError ''Malformed JWT'')
           | _ \<Rightarrow> Inl (OIDCVerificationError ''Malformed JWT''))
      | _ \<Rightarrow> Inl (OIDCVerificationError ''Malformed JWT''))"

definition coerce_audience :: "json option \<Rightarrow> string list" where
  "coerce_audience aud =
     (case aud of
        Some (JStr s) \<Rightarrow> [s]
      | Some (JList xs) \<Rightarrow> List.map_filter (\<lambda>j. case j of JStr s \<Rightarrow> Some s | _ \<Rightarrow> None) xs
      | _ \<Rightarrow> [])"

text \<open>A bool is an int in Python. \<open>now\<close> is \<open>int(time.time())\<close>.\<close>

definition claim_int :: "json option \<Rightarrow> int option" where
  "claim_int j = (case j of Some (JInt i) \<Rightarrow> Some i | Some (JBool b) \<Rightarrow> Some (if b then 1 else 0) | _ \<Rightarrow> None)"

definition validate_claims :: "oidc_verifier \<Rightarrow> int \<Rightarrow> (string \<times> json) list \<Rightarrow> auth_exn + (string \<times> json) list" where
  "validate_claims v now claims =
     (if map_of claims ''iss'' \<noteq> Some (JStr (ov_issuer v)) then Inl (OIDCVerificationError ''Invalid issuer'')
      else if \<not> List.member (coerce_audience (map_of claims ''aud'')) (ov_audience v)
      then Inl (OIDCVerificationError ''Invalid audience'')
      else (case claim_int (map_of claims ''exp'') of
              None \<Rightarrow> Inl (OIDCVerificationError ''Token expired'')
            | Some e \<Rightarrow>
                if e \<le> now then Inl (OIDCVerificationError ''Token expired'')
                else (case map_of claims ''sub'' of
                        Some (JStr s) \<Rightarrow> if s = [] then Inl (OIDCVerificationError ''Missing subject'') else Inr claims
                      | _ \<Rightarrow> Inl (OIDCVerificationError ''Missing subject''))))"

definition first_string :: "json list \<Rightarrow> string option" where
  "first_string xs = (case List.map_filter (\<lambda>j. case j of JStr s \<Rightarrow> Some s | _ \<Rightarrow> None) xs of [] \<Rightarrow> None | s # _ \<Rightarrow> Some s)"

definition claim_text :: "(string \<times> json) list \<Rightarrow> string \<Rightarrow> string" where
  "claim_text claims k = (case map_of claims k of Some (JStr s) \<Rightarrow> s | _ \<Rightarrow> [])"

definition build_principal :: "oidc_verifier \<Rightarrow> (string \<times> json) list \<Rightarrow> auth_exn + principal" where
  "build_principal v claims =
     (let role_value = (case map_of claims (ov_role_claim v) of
                          Some (JList xs) \<Rightarrow> first_string xs | Some (JStr s) \<Rightarrow> Some s | _ \<Rightarrow> None)
      in case role_value of
           None \<Rightarrow> Inl (OIDCVerificationError ''Missing role claim'')
         | Some r \<Rightarrow>
             if r = [] then Inl (OIDCVerificationError ''Missing role claim'')
             else Inr \<lparr>pn_id = claim_text claims ''sub'', pn_role = r,
                       pn_tenant = (if claim_text claims ''tenant_id'' = [] then ''*'' else claim_text claims ''tenant_id''),
                       pn_issuer = Some (claim_text claims ''iss'')\<rparr>)"

definition verify_signed :: "oidc_library \<Rightarrow> oidc_verifier \<Rightarrow> int \<Rightarrow> rsa_key \<Rightarrow> json \<Rightarrow> string \<Rightarrow> string \<Rightarrow> auth_exn + principal" where
  "verify_signed lib v now k payload signing_input signature =
     (if \<not> ol_verify lib k signature signing_input then Inl (OIDCVerificationError ''Invalid JWT signature'')
      else (case payload of
              JObj claims \<Rightarrow> bind_result (validate_claims v now claims) (build_principal v)
            | _ \<Rightarrow> Inl (Raised ''AttributeError'')))"

definition verify_authorization ::
  "oidc_library \<Rightarrow> oidc_verifier \<Rightarrow> key_fetch \<Rightarrow> int \<Rightarrow> string option \<Rightarrow> jwks_cache \<Rightarrow> (auth_exn + principal) \<times> jwks_cache" where
  "verify_authorization lib v kf now authorization cache =
     (case bind_result (extract_bearer_token authorization) (split_token lib) of
        Inl e \<Rightarrow> (Inl e, cache)
      | Inr (header, payload, signing_input, signature) \<Rightarrow>
          (case header of
             JObj h \<Rightarrow>
               if map_of h ''alg'' \<noteq> Some (JStr ''RS256'') then (Inl (OIDCVerificationError ''Unsupported JWT algorithm''), cache)
               else (case map_of h ''kid'' of
                       Some (JStr kid) \<Rightarrow>
                         if kid = [] then (Inl (OIDCVerificationError ''Missing JWT key id''), cache)
                         else (case jwks_key lib kf kid cache of
                                 (Inl e, cache1) \<Rightarrow> (Inl e, cache1)
                               | (Inr k, cache1) \<Rightarrow> (verify_signed lib v now k payload signing_input signature, cache1))
                     | _ \<Rightarrow> (Inl (OIDCVerificationError ''Missing JWT key id''), cache))
           | _ \<Rightarrow> (Inl (Raised ''AttributeError''), cache)))"

subsection \<open>Administrator credentials\<close>

definition oidc_configured :: "admin_settings \<Rightarrow> bool" where
  "oidc_configured st \<longleftrightarrow>
     or_empty (OIDC_ISSUER st) \<noteq> [] \<and> or_empty (OIDC_AUDIENCE st) \<noteq> [] \<and> or_empty (OIDC_JWKS_URL st) \<noteq> []"

definition legacy_admin_auth_enabled :: "admin_settings \<Rightarrow> bool" where
  "legacy_admin_auth_enabled st \<longleftrightarrow> \<not> oidc_configured st \<and> or_empty (ADMIN_API_KEY st) \<noteq> []"

definition get_oidc_verifier :: "admin_settings \<Rightarrow> oidc_verifier" where
  "get_oidc_verifier st =
     \<lparr>ov_issuer = or_empty (OIDC_ISSUER st), ov_audience = or_empty (OIDC_AUDIENCE st), ov_role_claim = OIDC_ROLE_CLAIM st\<rparr>"

text \<open>The comparison of two strings raises \<open>TypeError\<close> unless both are ASCII; either way startup fails.\<close>

definition validate_admin_settings :: "admin_settings \<Rightarrow> bool" where
  "validate_admin_settings st \<longleftrightarrow>
     \<not> (or_empty (ADMIN_API_KEY st) \<noteq> [] \<and> clean_tenant (ADMIN_TENANT_ID st) = None)
     \<and> (or_empty (ADMIN_API_KEY st) \<noteq> [] \<and> or_empty (API_KEY st) \<noteq> [] \<longrightarrow>
          is_ascii (or_empty (ADMIN_API_KEY st)) \<and> is_ascii (or_empty (API_KEY st)) \<and> ADMIN_API_KEY st \<noteq> API_KEY st)"

definition reject_header_mismatch :: "http_req \<Rightarrow> string \<Rightarrow> auth_exn option" where
  "reject_header_mismatch rq tenant =
     (case rq_tenant_header rq of
        None \<Rightarrow> None
      | Some raw \<Rightarrow>
          if tenant_header_is_invalid (Some raw) then Some InvalidTenantHeaderError
          else if strip_space raw \<noteq> tenant
          then Some (HTTPException 403 ''X-AnonReq-Tenant-ID does not match the credential tenant'')
          else None)"

definition bound_principal :: "http_req \<Rightarrow> string option \<Rightarrow> string \<Rightarrow> (string \<Rightarrow> principal) \<Rightarrow> auth_exn + principal" where
  "bound_principal rq v unbound pn =
     (case clean_tenant v of
        None \<Rightarrow> Inl (HTTPException 403 unbound)
      | Some tenant \<Rightarrow> (case reject_header_mismatch rq tenant of Some e \<Rightarrow> Inl e | None \<Rightarrow> Inr (pn tenant)))"

definition admin_key_principal :: "admin_settings \<Rightarrow> http_req \<Rightarrow> auth_exn + principal" where
  "admin_key_principal st rq =
     bound_principal rq (ADMIN_TENANT_ID st) ''Admin API key is not bound to a tenant''
       (\<lambda>tenant. \<lparr>pn_id = ''admin'', pn_role = ADMIN_ROLE st, pn_tenant = tenant, pn_issuer = None\<rparr>)"

definition oidc_role_principal :: "http_req \<Rightarrow> principal \<Rightarrow> auth_exn + principal" where
  "oidc_role_principal rq p =
     bound_principal rq (Some (pn_tenant p)) ''Token is not bound to a tenant'' (\<lambda>tenant. p\<lparr>pn_tenant := tenant\<rparr>)"

text \<open>
  A dependency of a route returns its exception, if any, and leaves the request state and the key
  cache changed.
\<close>

type_synonym auth_result = "auth_exn option \<times> http_req \<times> jwks_cache"

record auth_clock =
  ac_fetch :: key_fetch
  ac_now :: int

definition hide_oidc_error :: "auth_exn \<Rightarrow> auth_exn" where
  "hide_oidc_error e = (case e of OIDCVerificationError _ \<Rightarrow> HTTPException 401 ''Invalid token'' | _ \<Rightarrow> e)"

definition verify_admin_credential :: "oidc_library \<Rightarrow> admin_settings \<Rightarrow> auth_clock \<Rightarrow> http_req \<Rightarrow> jwks_cache \<Rightarrow> auth_result" where
  "verify_admin_credential lib st ac rq cache =
     (if oidc_configured st then
        (case verify_authorization lib (get_oidc_verifier st) (ac_fetch ac) (ac_now ac) (rq_authorization rq) cache of
           (Inl e, cache1) \<Rightarrow> (Some (hide_oidc_error e), rq, cache1)
         | (Inr p, cache1) \<Rightarrow>
             (case oidc_role_principal rq p of
                Inl e \<Rightarrow> (Some e, rq, cache1)
              | Inr scoped \<Rightarrow> (None, rq\<lparr>rq_oidc_principal := Some scoped\<rparr>, cache1)))
      else if legacy_admin_auth_enabled st then
        (case rq_authorization rq of
           None \<Rightarrow> (Some (HTTPException 401 ''Missing Authorization header''), rq, cache)
         | Some a \<Rightarrow>
             let (scheme, token) = partition_at CHR '' '' a
             in if casefold scheme \<noteq> ''bearer'' \<or> \<not> safe_compare token (or_empty (ADMIN_API_KEY st))
                then (Some (HTTPException 401 ''Invalid admin API key''), rq, cache)
                else (case admin_key_principal st rq of
                        Inl e \<Rightarrow> (Some e, rq, cache)
                      | Inr p \<Rightarrow> (None, rq\<lparr>rq_oidc_principal := Some p\<rparr>, cache)))
      else (Some (HTTPException 401 ''Admin API not configured''), rq, cache))"

text \<open>The dependency of the admin router, after the credential was verified.\<close>

definition require_auth :: "oidc_library \<Rightarrow> admin_settings \<Rightarrow> auth_clock \<Rightarrow> http_req \<Rightarrow> jwks_cache \<Rightarrow> auth_result" where
  "require_auth lib st ac rq cache =
     (case verify_admin_credential lib st ac rq cache of
        (Some e, rq1, cache1) \<Rightarrow> (Some e, rq1, cache1)
      | (None, rq1, cache1) \<Rightarrow>
          (None, (case rq_oidc_principal rq1 of Some p \<Rightarrow> rq1\<lparr>rq_role_principal := Some p\<rparr> | None \<Rightarrow> rq1), cache1))"

definition bind_admin_principal ::
  "oidc_library \<Rightarrow> admin_settings \<Rightarrow> string \<Rightarrow> auth_clock \<Rightarrow> http_req \<Rightarrow> jwks_cache \<Rightarrow> auth_result" where
  "bind_admin_principal lib st route_label ac rq0 cache =
     (let rq = rq0\<lparr>rq_role_principal := None\<rparr>
      in if oidc_configured st then
           (case verify_authorization lib (get_oidc_verifier st) (ac_fetch ac) (ac_now ac) (rq_authorization rq) cache of
              (Inl e, cache1) \<Rightarrow> (Some (hide_oidc_error e), rq, cache1)
            | (Inr p, cache1) \<Rightarrow>
                (let rq1 = rq\<lparr>rq_oidc_principal := Some p\<rparr>
                 in case oidc_role_principal rq1 p of
                      Inl e \<Rightarrow> (Some e, rq1, cache1)
                    | Inr scoped \<Rightarrow> (None, rq1\<lparr>rq_role_principal := Some scoped\<rparr>, cache1)))
         else
           (case rq_authorization rq of
              None \<Rightarrow> (Some (HTTPException 401 ''Missing Authorization header''), rq, cache)
            | Some a \<Rightarrow>
                let (scheme, token) = partition_at CHR '' '' a
                in if casefold scheme \<noteq> ''bearer'' \<or> token = []
                   then (Some (HTTPException 401 ''Invalid Authorization header''), rq, cache)
                   else if or_empty (ADMIN_API_KEY st) \<noteq> [] \<and> safe_compare token (or_empty (ADMIN_API_KEY st))
                   then (case admin_key_principal st rq of
                           Inl e \<Rightarrow> (Some e, rq, cache)
                         | Inr p \<Rightarrow> (None, rq\<lparr>rq_role_principal := Some p\<rparr>, cache))
                   else if or_empty (API_KEY st) \<noteq> [] \<and> safe_compare token (or_empty (API_KEY st))
                   then (Some (HTTPException 403 (''Gateway API key cannot access '' @ route_label @ '' routes'')), rq, cache)
                   else (Some (HTTPException 401 ''Invalid admin API key''), rq, cache)))"

subsection \<open>Roles\<close>

datatype role_kind = ADMINISTRATOR | SECURITY_OFFICER | OPERATOR | READ_ONLY_AUDITOR

definition role_named :: "string \<Rightarrow> role_kind option" where
  "role_named s =
     map_of [(''administrator'', ADMINISTRATOR), (''security_officer'', SECURITY_OFFICER),
             (''operator'', OPERATOR), (''read_only_auditor'', READ_ONLY_AUDITOR)] s"

fun role_hierarchy :: "role_kind \<Rightarrow> nat" where
  "role_hierarchy ADMINISTRATOR = 4"
| "role_hierarchy SECURITY_OFFICER = 3"
| "role_hierarchy OPERATOR = 2"
| "role_hierarchy READ_ONLY_AUDITOR = 1"

definition normalize_role_value :: "string \<Rightarrow> string" where
  "normalize_role_value r = (if r = ''read_only'' then ''read_only_auditor'' else r)"

definition require_role :: "role_kind \<Rightarrow> http_req \<Rightarrow> auth_exn option" where
  "require_role minimum_role rq =
     (case rq_role_principal rq of
        None \<Rightarrow> Some (HTTPException 401 ''unauthorized'')
      | Some p \<Rightarrow>
          (case role_named (normalize_role_value (pn_role p)) of
             None \<Rightarrow> Some (HTTPException 403 ''unknown_role'')
           | Some r \<Rightarrow>
               if role_hierarchy r < role_hierarchy minimum_role then Some (HTTPException 403 ''insufficient_role'')
               else None))"

definition require_administrator :: "oidc_library \<Rightarrow> admin_settings \<Rightarrow> auth_clock \<Rightarrow> http_req \<Rightarrow> jwks_cache \<Rightarrow> auth_result" where
  "require_administrator lib st ac rq cache =
     (case bind_admin_principal lib st ''admin'' ac rq cache of
        (Some e, rq1, cache1) \<Rightarrow> (Some e, rq1, cache1)
      | (None, rq1, cache1) \<Rightarrow> (require_role ADMINISTRATOR rq1, rq1, cache1))"

text \<open>The client key of the gateway: \<open>credentials\<close> is the bearer token the framework extracted.\<close>

definition verify_api_key :: "admin_settings \<Rightarrow> string \<Rightarrow> auth_exn + string" where
  "verify_api_key st credentials =
     (if \<not> safe_compare credentials (or_empty (API_KEY st)) then Inl (HTTPException 401 ''authentication_error'') else Inr credentials)"

subsection \<open>Tenants\<close>

type_synonym tenant_registry = "(json, tenant_profile) dict"

definition seed_profile :: "(string \<times> json) list \<Rightarrow> tenant_profile option" where
  "seed_profile entry =
     (case map_of entry ''tenant_id'' of
        None \<Rightarrow> None
      | Some t \<Rightarrow>
          Some \<lparr>tp_id = t, tp_display_name = dict_get entry ''display_name'' t,
                tp_enabled = dict_get entry ''enabled'' (JBool True),
                tp_allowed_providers = (let v = dict_get entry ''allowed_providers'' JNull in if truthy v then v else JList []),
                tp_allowed_models = (let v = dict_get entry ''allowed_models'' JNull in if truthy v then v else JList [])\<rparr>)"

definition register_tenant :: "tenant_profile \<Rightarrow> tenant_registry \<Rightarrow> tenant_registry" where
  "register_tenant p reg = AList.update (tp_id p) p reg"

definition hashable :: "json \<Rightarrow> bool" where
  "hashable j = (case j of JList _ \<Rightarrow> False | JObj _ \<Rightarrow> False | _ \<Rightarrow> True)"

fun seed_entries :: "json list \<Rightarrow> tenant_registry \<Rightarrow> tenant_registry option" where
  "seed_entries [] reg = Some reg"
| "seed_entries (JObj entry # rest) reg =
     (case seed_profile entry of
        None \<Rightarrow> None
      | Some p \<Rightarrow> if hashable (tp_id p) then seed_entries rest (register_tenant p reg) else None)"
| "seed_entries (_ # rest) reg = None"

text \<open>The parsed configuration file, None if there is none; the result None is an exception at startup.\<close>

definition load_yaml_seed :: "json option \<Rightarrow> tenant_registry option" where
  "load_yaml_seed doc =
     (case doc of
        None \<Rightarrow> Some []
      | Some data \<Rightarrow>
          if \<not> truthy data then Some []
          else (case data of
                  JObj d \<Rightarrow>
                    (case map_of d ''tenants'' of
                       None \<Rightarrow> Some []
                     | Some (JList es) \<Rightarrow> seed_entries es []
                     | Some (JObj []) \<Rightarrow> Some []
                     | Some (JStr []) \<Rightarrow> Some []
                     | Some _ \<Rightarrow> None)
                | JList xs \<Rightarrow> if list_ex (\<lambda>j. case j of JStr s \<Rightarrow> s = ''tenants'' | _ \<Rightarrow> False) xs then None else Some []
                | JStr s \<Rightarrow> if sublist ''tenants'' s then None else Some []
                | _ \<Rightarrow> None))"

definition get_tenant :: "tenant_registry \<Rightarrow> string \<Rightarrow> tenant_profile option" where
  "get_tenant reg tenant_id = map_of reg (JStr tenant_id)"

definition validate_single_tenant :: "admin_settings \<Rightarrow> tenant_registry \<Rightarrow> bool" where
  "validate_single_tenant st reg \<longleftrightarrow> \<not> SINGLE_TENANT st \<or> \<not> length reg > 1"

definition single_tenant_default :: "admin_settings \<Rightarrow> http_req \<Rightarrow> string" where
  "single_tenant_default st rq =
     (if \<not> SINGLE_TENANT st then []
      else if oidc_configured st then []
      else let (scheme, token) = partition_at CHR '' '' (or_empty (rq_authorization rq));
               admin_key = or_empty (ADMIN_API_KEY st)
           in if casefold scheme = ''bearer'' \<and> admin_key \<noteq> [] \<and> or_empty (ADMIN_TENANT_ID st) \<noteq> [] \<and> safe_compare token admin_key
              then strip_space (or_empty (ADMIN_TENANT_ID st)) else [])"

definition skipped_path :: "string \<Rightarrow> bool" where
  "skipped_path p \<longleftrightarrow> List.member [''/health'', ''/health/ready'', ''/metrics'', ''/''] p \<or> \<not> prefix ''/v1/'' p"

text \<open>The middleware answers itself, or passes the request on with the state it has set.\<close>

definition tenant_dispatch :: "admin_settings \<Rightarrow> tenant_registry \<Rightarrow> http_req \<Rightarrow> nat \<times> string + http_req" where
  "tenant_dispatch st reg rq =
     (if skipped_path (rq_path rq) then Inr rq
      else if tenant_header_is_invalid (rq_tenant_header rq) then Inl (400, ''invalid_tenant'')
      else let given = strip_space (or_empty (rq_tenant_header rq));
               tenant_id = (if given = [] then single_tenant_default st rq else given)
           in if tenant_id = [] then Inl (400, ''missing_tenant'')
              else (case get_tenant reg tenant_id of
                      None \<Rightarrow> Inl (400, ''invalid_tenant'')
                    | Some profile \<Rightarrow>
                        if \<not> truthy (tp_enabled profile) then Inl (403, ''tenant_disabled'')
                        else Inr (rq\<lparr>rq_tenant_id := Some tenant_id, rq_profile := Some profile\<rparr>)))"

subsection \<open>The scope of audit reads\<close>

definition concrete_request_tenant :: "http_req \<Rightarrow> string option" where
  "concrete_request_tenant rq =
     (let state_tenant = concrete_tenant (rq_tenant_id rq); header_tenant = concrete_tenant (rq_tenant_header rq)
      in if state_tenant \<noteq> None \<and> header_tenant \<noteq> None \<and> state_tenant \<noteq> header_tenant then None
         else if state_tenant \<noteq> None then state_tenant else header_tenant)"

definition narrow_wildcard_principal :: "http_req \<Rightarrow> http_req" where
  "narrow_wildcard_principal rq =
     (case rq_role_principal rq of
        None \<Rightarrow> rq
      | Some p \<Rightarrow>
          if concrete_tenant (Some (pn_tenant p)) \<noteq> None then rq
          else rq\<lparr>rq_role_principal := Some (p\<lparr>pn_tenant := or_empty (concrete_request_tenant rq)\<rparr>)\<rparr>)"

definition principal_tenant :: "principal option \<Rightarrow> string option" where
  "principal_tenant po = (case po of None \<Rightarrow> None | Some p \<Rightarrow> concrete_tenant (Some (pn_tenant p)))"

definition caller_tenant :: "http_req \<Rightarrow> string option" where
  "caller_tenant rq =
     (case principal_tenant (rq_role_principal rq) of
        Some t \<Rightarrow> Some t
      | None \<Rightarrow> (case principal_tenant (rq_oidc_principal rq) of
                   Some t \<Rightarrow> Some t
                 | None \<Rightarrow> concrete_tenant (rq_tenant_id rq)))"

definition resolve_scoped_tenant :: "http_req \<Rightarrow> string option \<Rightarrow> (auth_exn + string) \<times> http_req" where
  "resolve_scoped_tenant rq0 requested_tenant_id =
     (let rq = narrow_wildcard_principal rq0
      in (case caller_tenant rq of
            None \<Rightarrow> Inl (HTTPException 403 ''Caller tenant could not be determined'')
          | Some tenant \<Rightarrow>
              (case requested_tenant_id of
                 None \<Rightarrow> Inr tenant
               | Some r \<Rightarrow>
                   let requested = strip_space r
                   in if requested = [] \<or> requested = tenant then Inr tenant
                      else Inl (HTTPException 403 ''tenant_id does not match the caller tenant'')), rq))"

subsection \<open>Licences\<close>

record licence_payload =
  lp_org :: string
  lp_tier :: string
  lp_features :: "string list"
  lp_expires_at :: rat

record licence_status =
  ls_valid :: bool
  ls_tier :: "string option"
  ls_features :: "string list"
  ls_expires_at :: "rat option"
  ls_organization :: "string option"
  ls_message :: string

text \<open>
  \<open>lc_hmac\<close> is the hexadecimal HMAC of the data under the secret, \<open>lc_payload\<close> the validation of the
  parsed document, \<open>lc_message\<close> the text of the exception raised on a key.
\<close>

record licence_library =
  lc_hmac :: "string \<Rightarrow> string \<Rightarrow> string"
  lc_loads :: "string \<Rightarrow> json option"
  lc_payload :: "json \<Rightarrow> licence_payload option"
  lc_message :: "string \<Rightarrow> string"

definition invalid_licence :: "string \<Rightarrow> licence_status" where
  "invalid_licence msg =
     \<lparr>ls_valid = False, ls_tier = None, ls_features = [], ls_expires_at = None, ls_organization = None, ls_message = msg\<rparr>"

definition validate_license :: "licence_library \<Rightarrow> string option \<Rightarrow> string option \<Rightarrow> rat \<Rightarrow> licence_status" where
  "validate_license lc key_setting secret_setting now =
     (let key = or_empty key_setting; secret = or_empty secret_setting;
          failed = invalid_licence (''License validation failed: '' @ lc_message lc key)
      in if key = [] then invalid_licence ''No license key configured''
         else if secret = [] then invalid_licence ''No license secret configured''
         else (case (if is_ascii key then Option.bind (b64decode key) utf8_decode else None) of
                 None \<Rightarrow> failed
               | Some decoded \<Rightarrow>
                   (case rpartition CHR ''.'' decoded of
                      None \<Rightarrow> invalid_licence ''Invalid license key format''
                    | Some (data, signature_hex) \<Rightarrow>
                        if \<not> is_ascii signature_hex then failed
                        else if lc_hmac lc secret data \<noteq> signature_hex then invalid_licence ''Invalid license signature''
                        else (case Option.bind (lc_loads lc data) (lc_payload lc) of
                                None \<Rightarrow> failed
                              | Some p \<Rightarrow>
                                  \<lparr>ls_valid = \<not> now > lp_expires_at p, ls_tier = Some (lp_tier p), ls_features = lp_features p,
                                   ls_expires_at = Some (lp_expires_at p), ls_organization = Some (lp_org p),
                                   ls_message = (if now > lp_expires_at p then ''License expired'' else ''License valid'')\<rparr>))))"

text \<open>The first status is kept for the life of the process.\<close>

definition get_status :: "licence_status \<Rightarrow> licence_status option \<Rightarrow> licence_status \<times> licence_status option" where
  "get_status validated cached = (case cached of Some s \<Rightarrow> (s, cached) | None \<Rightarrow> (validated, Some validated))"

definition check_feature :: "licence_status \<Rightarrow> string \<Rightarrow> bool" where
  "check_feature status feature \<longleftrightarrow> ls_valid status \<and> list_ex (\<lambda>f. f = feature) (ls_features status)"

definition require_license :: "licence_library \<Rightarrow> string option \<Rightarrow> string option \<Rightarrow> rat \<Rightarrow> string
    \<Rightarrow> licence_status option \<Rightarrow> auth_exn option \<times> licence_status option" where
  "require_license lc key secret now feature cached =
     (let (status, cached1) = get_status (validate_license lc key secret now) cached
      in (if check_feature status feature then None else Some (HTTPException 402 ''license_required''), cached1))"

subsection \<open>What a verified token guarantees\<close>

text \<open>A role claim names its role as a string, or as the first string of a list.\<close>

definition names_role :: "json \<Rightarrow> string \<Rightarrow> bool" where
  "names_role j r \<longleftrightarrow> r \<noteq> [] \<and> (j = JStr r
     \<or> (\<exists>before after. j = JList (before @ JStr r # after) \<and> (\<forall>x \<in> set before. \<forall>s. x \<noteq> JStr s)))"

text \<open>The claims a request's bearer token carries, verified or not.\<close>

definition presented_claims :: "oidc_library \<Rightarrow> string option \<Rightarrow> (string \<times> json) list option" where
  "presented_claims lib authorization =
     (case bind_result (extract_bearer_token authorization) (split_token lib) of
        Inr (JObj h, JObj claims, signing_input, signature) \<Rightarrow> Some claims
      | _ \<Rightarrow> None)"

definition token_verified :: "oidc_library \<Rightarrow> oidc_verifier \<Rightarrow> int \<Rightarrow> string option \<Rightarrow> (string, rsa_key) dict \<Rightarrow> principal \<Rightarrow> bool" where
  "token_verified lib v now authorization keys p \<longleftrightarrow>
     (\<exists>token h claims signing_input signature kid k e.
        extract_bearer_token authorization = Inr token
      \<and> split_token lib token = Inr (JObj h, JObj claims, signing_input, signature)
      \<and> map_of h ''alg'' = Some (JStr ''RS256'') \<and> map_of h ''kid'' = Some (JStr kid)
      \<and> map_of keys kid = Some k \<and> ol_verify lib k signature signing_input
      \<and> map_of claims ''iss'' = Some (JStr (ov_issuer v))
      \<and> List.member (coerce_audience (map_of claims ''aud'')) (ov_audience v)
      \<and> claim_int (map_of claims ''exp'') = Some e \<and> now < e
      \<and> map_of claims ''sub'' = Some (JStr (pn_id p)) \<and> pn_id p \<noteq> []
      \<and> (\<exists>j. map_of claims (ov_role_claim v) = Some j \<and> names_role j (pn_role p))
      \<and> (map_of claims ''tenant_id'' = Some (JStr (pn_tenant p))
         \<or> pn_tenant p = ''*'' \<and> (\<forall>s. s \<noteq> [] \<longrightarrow> map_of claims ''tenant_id'' \<noteq> Some (JStr s))))"

lemma token_verified_claims:
  assumes "token_verified lib v now authorization keys p"
  shows "\<exists>claims. presented_claims lib authorization = Some claims
    \<and> (\<exists>j. map_of claims (ov_role_claim v) = Some j \<and> names_role j (pn_role p))
    \<and> (map_of claims ''tenant_id'' = Some (JStr (pn_tenant p))
       \<or> pn_tenant p = ''*'' \<and> (\<forall>s. s \<noteq> [] \<longrightarrow> map_of claims ''tenant_id'' \<noteq> Some (JStr s)))"
  using assms unfolding token_verified_def by (elim exE conjE) (auto simp: presented_claims_def)

lemma first_string_first:
  "first_string xs = Some r \<Longrightarrow> \<exists>before after. xs = before @ JStr r # after \<and> (\<forall>x \<in> set before. \<forall>s. x \<noteq> JStr s)"
proof (induction xs)
  case (Cons x xs)
  show ?case
  proof (cases "\<exists>s. x = JStr s")
    case True
    with Cons.prems show ?thesis by (intro exI [of _ "[]"] exI [of _ xs]) (auto simp: first_string_def map_filter_simps)
  next
    case False
    then have "first_string xs = Some r" using Cons.prems by (cases x) (simp_all add: first_string_def map_filter_simps)
    then obtain before after where "xs = before @ JStr r # after" "\<forall>x \<in> set before. \<forall>s. x \<noteq> JStr s" using Cons.IH by blast
    with False show ?thesis by (intro exI [of _ "x # before"] exI [of _ after]) simp
  qed
qed (simp add: first_string_def map_filter_simps)

lemma jwks_key_sound:
  assumes "jwks_key lib kf kid cache = (Inr k, cache')"
  shows "map_of (jc_keys cache') kid = Some k"
  using assms by (auto simp: jwks_key_def split: if_splits option.splits prod.splits)

lemma validate_claims_sound:
  assumes "validate_claims v now claims = Inr cs"
  shows "cs = claims \<and> map_of claims ''iss'' = Some (JStr (ov_issuer v))
    \<and> List.member (coerce_audience (map_of claims ''aud'')) (ov_audience v)
    \<and> (\<exists>e. claim_int (map_of claims ''exp'') = Some e \<and> now < e) \<and> (\<exists>s. map_of claims ''sub'' = Some (JStr s) \<and> s \<noteq> [])"
  using assms by (auto simp: validate_claims_def split: if_splits option.splits json.splits)

lemma claim_text_present: "claim_text claims k \<noteq> [] \<Longrightarrow> map_of claims k = Some (JStr (claim_text claims k))"
  by (auto simp: claim_text_def split: option.splits json.splits)

lemma build_principal_sound:
  assumes "build_principal v claims = Inr p"
  shows "pn_id p = claim_text claims ''sub''
    \<and> (\<exists>j. map_of claims (ov_role_claim v) = Some j \<and> names_role j (pn_role p))
    \<and> (map_of claims ''tenant_id'' = Some (JStr (pn_tenant p))
       \<or> pn_tenant p = ''*'' \<and> (\<forall>s. s \<noteq> [] \<longrightarrow> map_of claims ''tenant_id'' \<noteq> Some (JStr s)))"
proof -
  obtain r where r: "r \<noteq> []" "(case map_of claims (ov_role_claim v) of
                          Some (JList xs) \<Rightarrow> first_string xs | Some (JStr s) \<Rightarrow> Some s | _ \<Rightarrow> None) = Some r"
    and p: "p = \<lparr>pn_id = claim_text claims ''sub'', pn_role = r,
              pn_tenant = (if claim_text claims ''tenant_id'' = [] then ''*'' else claim_text claims ''tenant_id''),
              pn_issuer = Some (claim_text claims ''iss'')\<rparr>"
    using assms unfolding build_principal_def Let_def by (simp split: option.splits if_split_asm)
  have "\<exists>j. map_of claims (ov_role_claim v) = Some j \<and> names_role j r"
    using r first_string_first by (fastforce simp: names_role_def split: option.splits json.splits)
  moreover have "map_of claims ''tenant_id'' \<noteq> Some (JStr s)" if "claim_text claims ''tenant_id'' = []" "s \<noteq> []" for s
    using that by (auto simp: claim_text_def)
  ultimately show ?thesis
    using p claim_text_present [of claims "''tenant_id''"] by (cases "claim_text claims ''tenant_id'' = []") simp_all
qed

lemma verify_authorization_sound:
  assumes "verify_authorization lib v kf now authorization cache = (Inr p, cache')"
  shows "token_verified lib v now authorization (jc_keys cache') p"
proof -
  obtain token header payload signing_input signature where t: "extract_bearer_token authorization = Inr token"
      "split_token lib token = Inr (header, payload, signing_input, signature)"
    using assms by (auto simp: verify_authorization_def py_simps split: sum.splits)
  obtain h kid k where h: "header = JObj h" "map_of h ''alg'' = Some (JStr ''RS256'')" "map_of h ''kid'' = Some (JStr kid)"
      "jwks_key lib kf kid cache = (Inr k, cache')" "verify_signed lib v now k payload signing_input signature = Inr p"
    using assms t
    by (auto simp: verify_authorization_def split: sum.splits json.splits if_splits option.splits prod.splits)
  obtain claims where c: "payload = JObj claims" "ol_verify lib k signature signing_input"
      "validate_claims v now claims = Inr claims" "build_principal v claims = Inr p"
    using h(5) by (auto simp: verify_signed_def py_simps dest: validate_claims_sound split: if_splits json.splits)
  note * = validate_claims_sound [OF c(3)] build_principal_sound [OF c(4)] t h c jwks_key_sound [OF h(4)]
  obtain n e where k: "k = (n, e)" by (cases k)
  with * have "pn_id p = claim_text claims ''sub''" by simp
  with * k show ?thesis unfolding token_verified_def by (auto simp: claim_text_def)
qed

text \<open>A key identifier the provider does not publish is an uncaught exception, not a refusal with 401.\<close>

lemma unknown_key_is_uncaught:
  assumes "oidc_configured st" "kid \<noteq> []"
    and "extract_bearer_token (rq_authorization rq) = Inr token"
    and "split_token lib token = Inr (JObj h, payload, signing_input, signature)"
    and "map_of h ''alg'' = Some (JStr ''RS256'')" "map_of h ''kid'' = Some (JStr kid)"
    and "jwks_key lib (ac_fetch ac) kid cache = (Inl (Raised ''ValueError''), cache')"
  shows "bind_admin_principal lib st lbl ac rq cache = (Some (Raised ''ValueError''), rq\<lparr>rq_role_principal := None\<rparr>, cache')"
  using assms by (simp add: bind_admin_principal_def verify_authorization_def hide_oidc_error_def)

subsection \<open>Bound principals\<close>

lemma bound_principal_sound:
  assumes "bound_principal rq v msg pn = Inr p"
  shows "\<exists>t. clean_tenant v = Some t \<and> p = pn t
    \<and> (rq_tenant_header rq = None \<or> strip_space (or_empty (rq_tenant_header rq)) = t \<and> clean_tenant (rq_tenant_header rq) = Some t)"
  using assms
  by (auto simp: bound_principal_def reject_header_mismatch_def tenant_header_is_invalid_def or_empty_def
      dest: clean_tenant_shape clean_tenant_strip split: option.splits if_splits)

definition tenant_bound :: "http_req \<Rightarrow> principal \<Rightarrow> bool" where
  "tenant_bound rq p \<longleftrightarrow> clean_tenant (Some (pn_tenant p)) = Some (pn_tenant p)
     \<and> (rq_tenant_header rq = None \<or> clean_tenant (rq_tenant_header rq) = Some (pn_tenant p))"

definition admin_credential :: "oidc_library \<Rightarrow> admin_settings \<Rightarrow> auth_clock \<Rightarrow> string option \<Rightarrow> jwks_cache \<Rightarrow> principal \<Rightarrow> bool" where
  "admin_credential lib st ac authorization cache p \<longleftrightarrow>
     (if oidc_configured st
      then (\<exists>q. token_verified lib (get_oidc_verifier st) (ac_now ac) authorization (jc_keys cache) q
              \<and> clean_tenant (Some (pn_tenant q)) = Some (pn_tenant p) \<and> p = q\<lparr>pn_tenant := pn_tenant p\<rparr>)
      else (\<exists>a. authorization = Some a \<and> casefold (fst (partition_at CHR '' '' a)) = ''bearer''
              \<and> ADMIN_API_KEY st = Some (snd (partition_at CHR '' '' a)) \<and> snd (partition_at CHR '' '' a) \<noteq> []
              \<and> clean_tenant (ADMIN_TENANT_ID st) = Some (pn_tenant p) \<and> pn_role p = ADMIN_ROLE st))"

lemma oidc_bound:
  assumes "verify_authorization lib (get_oidc_verifier st) (ac_fetch ac) (ac_now ac) authorization cache = (Inr q, cache')"
    and "oidc_role_principal rq q = Inr p" "oidc_configured st"
  shows "tenant_bound rq p \<and> admin_credential lib st ac authorization cache' p"
proof -
  obtain t where t: "clean_tenant (Some (pn_tenant q)) = Some t" "p = q\<lparr>pn_tenant := t\<rparr>"
      "rq_tenant_header rq = None \<or> clean_tenant (rq_tenant_header rq) = Some t"
    using bound_principal_sound [OF assms(2) [unfolded oidc_role_principal_def]] by blast
  with clean_tenant_fixed [OF t(1)] verify_authorization_sound [OF assms(1)] assms(3)
  show ?thesis by (auto simp: tenant_bound_def admin_credential_def)
qed

lemma or_empty_key: "or_empty v = k \<Longrightarrow> k \<noteq> [] \<Longrightarrow> v = Some k"
  by (auto simp: or_empty_def split: option.splits)

lemma admin_key_bound:
  assumes "admin_key_principal st rq = Inr p" "authorization = Some a" "partition_at CHR '' '' a = (scheme, token)"
    and "casefold scheme = ''bearer''" "or_empty (ADMIN_API_KEY st) = token" "token \<noteq> []" "\<not> oidc_configured st"
  shows "tenant_bound rq p \<and> admin_credential lib st ac authorization cache p"
proof -
  obtain t where t: "clean_tenant (ADMIN_TENANT_ID st) = Some t"
      "p = \<lparr>pn_id = ''admin'', pn_role = ADMIN_ROLE st, pn_tenant = t, pn_issuer = None\<rparr>"
      "rq_tenant_header rq = None \<or> clean_tenant (rq_tenant_header rq) = Some t"
    using bound_principal_sound [OF assms(1) [unfolded admin_key_principal_def]] by blast
  with clean_tenant_fixed [OF t(1)] assms(2-) or_empty_key [OF assms(5,6)]
  show ?thesis by (simp add: tenant_bound_def admin_credential_def)
qed

lemma bind_admin_principal_sound:
  assumes "bind_admin_principal lib st lbl ac rq cache = (None, rq', cache')"
  shows "\<exists>p. rq_role_principal rq' = Some p \<and> rq_tenant_header rq' = rq_tenant_header rq \<and> tenant_bound rq p
    \<and> admin_credential lib st ac (rq_authorization rq) cache' p"
proof (cases "oidc_configured st")
  case True
  then obtain q p where "verify_authorization lib (get_oidc_verifier st) (ac_fetch ac) (ac_now ac) (rq_authorization rq) cache = (Inr q, cache')"
      "oidc_role_principal (rq\<lparr>rq_role_principal := None, rq_oidc_principal := Some q\<rparr>) q = Inr p"
      "rq' = rq\<lparr>rq_role_principal := Some p, rq_oidc_principal := Some q\<rparr>"
    using assms by (auto simp: bind_admin_principal_def Let_def split: prod.splits sum.splits)
  with oidc_bound [OF this(1,2) True] show ?thesis by (simp add: tenant_bound_def)
next
  case False
  then obtain a scheme token p where "rq_authorization rq = Some a" "partition_at CHR '' '' a = (scheme, token)"
      "casefold scheme = ''bearer''" "or_empty (ADMIN_API_KEY st) = token" "token \<noteq> []"
      "admin_key_principal st (rq\<lparr>rq_role_principal := None\<rparr>) = Inr p" "rq' = rq\<lparr>rq_role_principal := Some p\<rparr>"
    using assms
    by (auto simp: bind_admin_principal_def Let_def split: prod.splits sum.splits option.splits if_splits)
  with admin_key_bound [OF this(6,1-5) False, of lib ac cache'] show ?thesis by (simp add: tenant_bound_def)
qed

lemma require_auth_sound:
  assumes "require_auth lib st ac rq cache = (None, rq', cache')"
  shows "\<exists>p. rq_role_principal rq' = Some p \<and> rq_tenant_header rq' = rq_tenant_header rq \<and> tenant_bound rq p
    \<and> admin_credential lib st ac (rq_authorization rq) cache' p"
proof (cases "oidc_configured st")
  case True
  then obtain q p where "verify_authorization lib (get_oidc_verifier st) (ac_fetch ac) (ac_now ac) (rq_authorization rq) cache = (Inr q, cache')"
      "oidc_role_principal rq q = Inr p" "rq' = rq\<lparr>rq_role_principal := Some p, rq_oidc_principal := Some p\<rparr>"
    using assms by (auto simp: require_auth_def verify_admin_credential_def split: prod.splits sum.splits option.splits)
  with oidc_bound [OF this(1,2) True] show ?thesis by simp
next
  case False
  then obtain a scheme token p where "rq_authorization rq = Some a" "partition_at CHR '' '' a = (scheme, token)"
      "casefold scheme = ''bearer''" "or_empty (ADMIN_API_KEY st) = token" "token \<noteq> []"
      "admin_key_principal st rq = Inr p" "rq' = rq\<lparr>rq_role_principal := Some p, rq_oidc_principal := Some p\<rparr>"
    using assms
    by (auto simp: require_auth_def verify_admin_credential_def legacy_admin_auth_enabled_def
        split: prod.splits sum.splits option.splits if_splits)
  with admin_key_bound [OF this(6,1-5) False, of lib ac cache'] show ?thesis by simp
qed

subsection \<open>What a bound principal may read\<close>

text \<open>
  The contract between the dependencies that bind a principal and the code that scopes audit reads:
  the principal names one tenant, and a tenant header cannot name another.
\<close>

locale tenant_binding =
  fixes admits :: "http_req \<Rightarrow> http_req \<Rightarrow> bool"
  assumes admitted_bound: "admits rq rq' \<Longrightarrow> \<exists>p. rq_role_principal rq' = Some p \<and> tenant_bound rq p"
begin

lemma not_narrowed: "admits rq rq' \<Longrightarrow> narrow_wildcard_principal rq' = rq'"
  using admitted_bound by (fastforce simp: narrow_wildcard_principal_def tenant_bound_def concrete_is_clean)

lemma caller_is_bound:
  assumes "admits rq rq'" "rq_role_principal rq' = Some p"
  shows "caller_tenant rq' = Some (pn_tenant p)"
  using admitted_bound [OF assms(1)] assms(2)
  by (auto simp: caller_tenant_def principal_tenant_def tenant_bound_def concrete_is_clean)

lemma reads_own_tenant:
  assumes "admits rq rq'" "resolve_scoped_tenant rq' requested = (Inr t, rq2)"
  shows "\<exists>p. rq_role_principal rq' = Some p \<and> tenant_bound rq p \<and> t = pn_tenant p \<and> rq2 = rq'
    \<and> strip_space (or_empty requested) \<in> {[], t}"
proof -
  obtain p where p: "rq_role_principal rq' = Some p" "tenant_bound rq p"
    using admitted_bound [OF assms(1)] by blast
  from caller_is_bound [OF assms(1) p(1)] not_narrowed [OF assms(1)] assms(2) p show ?thesis
    by (auto simp: resolve_scoped_tenant_def Let_def or_empty_def strip_space_def split: option.splits if_splits)
qed

lemma other_tenant_refused:
  assumes "admits rq rq'" "rq_role_principal rq' = Some p" "strip_space r \<noteq> []" "strip_space r \<noteq> pn_tenant p"
  shows "resolve_scoped_tenant rq' (Some r) = (Inl (HTTPException 403 ''tenant_id does not match the caller tenant''), rq')"
  using caller_is_bound [OF assms(1,2)] not_narrowed [OF assms(1)] assms(3,4)
  by (simp add: resolve_scoped_tenant_def Let_def)

end

interpretation governance: tenant_binding
  "\<lambda>rq rq'. \<exists>lib st lbl ac cache cache'. bind_admin_principal lib st lbl ac rq cache = (None, rq', cache')"
  by unfold_locales (use bind_admin_principal_sound in blast)

interpretation admin_router: tenant_binding
  "\<lambda>rq rq'. \<exists>lib st ac cache cache'. require_auth lib st ac rq cache = (None, rq', cache')"
  by unfold_locales (use require_auth_sound in blast)

subsection \<open>Tenants and licences\<close>

lemma tenant_dispatch_sound:
  assumes "tenant_dispatch st reg rq = Inr rq'" "\<not> skipped_path (rq_path rq)"
  shows "\<exists>t p. rq_tenant_id rq' = Some t \<and> rq_profile rq' = Some p \<and> get_tenant reg t = Some p \<and> truthy (tp_enabled p)
    \<and> (strip_space (or_empty (rq_tenant_header rq)) = t
       \<or> strip_space (or_empty (rq_tenant_header rq)) = [] \<and> SINGLE_TENANT st \<and> \<not> oidc_configured st
         \<and> t = strip_space (or_empty (ADMIN_TENANT_ID st)))"
  using assms
  by (auto simp: tenant_dispatch_def Let_def single_tenant_default_def split: if_splits option.splits prod.splits)

lemma licence_sound:
  assumes "ls_valid (validate_license lc key secret now)"
  shows "\<exists>data p. lc_hmac lc (or_empty secret) data \<in> {sig. \<exists>decoded. rpartition CHR ''.'' decoded = Some (data, sig)
        \<and> Option.bind (b64decode (or_empty key)) utf8_decode = Some decoded}
    \<and> Option.bind (lc_loads lc data) (lc_payload lc) = Some p \<and> now \<le> lp_expires_at p
    \<and> ls_features (validate_license lc key secret now) = lp_features p"
  using assms
  by (auto simp: validate_license_def Let_def invalid_licence_def split: if_splits option.splits prod.splits)

text \<open>The status is kept: once a licence was found valid, its expiry is not noticed before a restart.\<close>

lemma cached_licence_outlives_expiry:
  assumes "check_feature s feature"
  shows "fst (require_license lc key secret now feature (Some s)) = None"
  using assms by (simp add: require_license_def get_status_def)

subsection \<open>Properties\<close>

lemma top_role: "\<not> role_hierarchy r < role_hierarchy ADMINISTRATOR \<Longrightarrow> r = ADMINISTRATOR"
  by (cases r) auto

lemma require_role_none:
  assumes "require_role m rq = None" "rq_role_principal rq = Some p"
  shows "\<exists>r. role_named (normalize_role_value (pn_role p)) = Some r \<and> \<not> role_hierarchy r < role_hierarchy m"
  using assms unfolding require_role_def
  by (cases "role_named (normalize_role_value (pn_role p))") (simp_all split: if_split_asm)

lemma administrator_sound:
  assumes "require_administrator lib st ac rq cache = (None, rq', cache')"
  shows "\<exists>p. rq_role_principal rq' = Some p \<and> tenant_bound rq p \<and> admin_credential lib st ac (rq_authorization rq) cache' p
    \<and> role_named (normalize_role_value (pn_role p)) = Some ADMINISTRATOR"
proof -
  obtain e rq1 cache1 where b: "bind_admin_principal lib st ''admin'' ac rq cache = (e, rq1, cache1)" by (metis prod_cases3)
  with assms have r: "e = None" "require_role ADMINISTRATOR rq1 = None" "rq' = rq1" "cache' = cache1"
    unfolding require_administrator_def by (cases e; simp)+
  from bind_admin_principal_sound [OF b [unfolded r(1)]] obtain p where p: "rq_role_principal rq1 = Some p" "tenant_bound rq p"
      "admin_credential lib st ac (rq_authorization rq) cache1 p" by blast
  from require_role_none [OF r(2) p(1)] top_role
  have "role_named (normalize_role_value (pn_role p)) = Some ADMINISTRATOR" by metis
  with p r(3,4) show ?thesis by blast
qed

lemma gateway_key_no_admin:
  assumes "validate_admin_settings st" "\<not> oidc_configured st" "admin_credential lib st ac authorization cache p"
    and "API_KEY st = Some k" "k \<noteq> []"
  shows "snd (partition_at CHR '' '' (or_empty authorization)) \<noteq> k"
  using assms by (auto simp: validate_admin_settings_def admin_credential_def or_empty_def)

lemma wildcard_not_clean: "clean_tenant (Some ''*'') = None"
  by code_simp

lemma administrator_credential:
  assumes "admin_credential lib st ac authorization cache p" "oidc_configured st"
  shows "\<exists>q claims j. token_verified lib (get_oidc_verifier st) (ac_now ac) authorization (jc_keys cache) q
      \<and> pn_id q = pn_id p \<and> presented_claims lib authorization = Some claims
      \<and> map_of claims (OIDC_ROLE_CLAIM st) = Some j \<and> names_role j (pn_role p)
      \<and> (\<exists>raw. map_of claims ''tenant_id'' = Some (JStr raw) \<and> clean_tenant (Some raw) = Some (pn_tenant p))"
proof -
  obtain q where q: "token_verified lib (get_oidc_verifier st) (ac_now ac) authorization (jc_keys cache) q"
      "clean_tenant (Some (pn_tenant q)) = Some (pn_tenant p)" "p = q\<lparr>pn_tenant := pn_tenant p\<rparr>"
    using assms by (auto simp: admin_credential_def)
  have eq: "pn_id q = pn_id p" "pn_role q = pn_role p" by (subst q(3), simp)+
  obtain claims j where c: "presented_claims lib authorization = Some claims" "map_of claims (OIDC_ROLE_CLAIM st) = Some j"
      "names_role j (pn_role q)" "map_of claims ''tenant_id'' = Some (JStr (pn_tenant q)) \<or> pn_tenant q = ''*''"
    using token_verified_claims [OF q(1)] by (auto simp: get_oidc_verifier_def)
  have "pn_tenant q \<noteq> ''*''" using q(2) wildcard_not_clean by auto
  with c(4) have "map_of claims ''tenant_id'' = Some (JStr (pn_tenant q))" by simp
  with q(1,2) eq c show ?thesis by (intro exI [of _ q] exI [of _ claims] exI [of _ j]) auto
qed

text \<open>C35. a request that passes as an administrator's presented a credential that was verified for it, and
  the role it acts under is the one that credential gives. With OIDC: a token whose signature verifies
  under a published key and whose issuer, audience, expiry and subject are right, and whose role claim
  (the configured claim, a string or the first string of a list) names a role that means administrator.
  Without: the admin key, which the gateway's client key never is, with the configured role of that key.
\<close>

theorem administrator_is_authenticated:
  assumes "require_administrator lib st ac rq cache = (None, rq', cache')" "validate_admin_settings st"
  shows "\<exists>p. rq_role_principal rq' = Some p \<and> role_named (normalize_role_value (pn_role p)) = Some ADMINISTRATOR
    \<and> (oidc_configured st \<longrightarrow>
         (\<exists>q claims j. token_verified lib (get_oidc_verifier st) (ac_now ac) (rq_authorization rq) (jc_keys cache') q
            \<and> pn_id q = pn_id p \<and> presented_claims lib (rq_authorization rq) = Some claims
            \<and> map_of claims (OIDC_ROLE_CLAIM st) = Some j \<and> names_role j (pn_role p)))
    \<and> (\<not> oidc_configured st \<longrightarrow>
         ADMIN_API_KEY st = Some (snd (partition_at CHR '' '' (or_empty (rq_authorization rq)))) \<and> pn_role p = ADMIN_ROLE st
         \<and> (\<forall>k. API_KEY st = Some k \<and> k \<noteq> [] \<longrightarrow> snd (partition_at CHR '' '' (or_empty (rq_authorization rq))) \<noteq> k))"
proof -
  obtain p where p: "rq_role_principal rq' = Some p" "admin_credential lib st ac (rq_authorization rq) cache' p"
      "role_named (normalize_role_value (pn_role p)) = Some ADMINISTRATOR"
    using administrator_sound [OF assms(1)] by blast
  have "ADMIN_API_KEY st = Some (snd (partition_at CHR '' '' (or_empty (rq_authorization rq)))) \<and> pn_role p = ADMIN_ROLE st"
    if "\<not> oidc_configured st"
    using p(2) that by (auto simp: admin_credential_def or_empty_def)
  with p gateway_key_no_admin [OF assms(2) _ p(2)] administrator_credential [OF p(2)] show ?thesis by blast
qed

definition sample_oidc_library :: oidc_library where
  "sample_oidc_library =
     \<lparr>ol_loads = (\<lambda>s. map_of
        [(''h'', JObj [(''alg'', JStr ''RS256''), (''kid'', JStr ''k1'')]),
         (''p'', JObj [(''iss'', JStr ''idp''), (''aud'', JList [JStr ''anonreq'']), (''exp'', JInt 2000), (''sub'', JStr ''ada''),
                       (''role'', JStr ''administrator''), (''tenant_id'', JStr ''acme'')])] s),
      ol_rsa = (\<lambda>_. True), ol_verify = (\<lambda>k sig input. sig = ''s'')\<rparr>"

definition sample_admin_settings :: "string option \<Rightarrow> admin_settings" where
  "sample_admin_settings idp =
     \<lparr>ADMIN_API_KEY = Some ''root'', ADMIN_TENANT_ID = Some '' acme '', ADMIN_ROLE = ''administrator'', API_KEY = Some ''chat'',
      OIDC_ISSUER = idp, OIDC_AUDIENCE = Some ''anonreq'', OIDC_JWKS_URL = Some ''https://idp/keys'', OIDC_ROLE_CLAIM = ''role'',
      SINGLE_TENANT = False\<rparr>"

definition sample_auth_clock :: auth_clock where
  "sample_auth_clock =
     \<lparr>ac_fetch = \<lparr>kf_before = 0, kf_locked = 0,
        kf_fetched = Inr [(''keys'', JList [JObj [(''kty'', JStr ''RSA''), (''kid'', JStr ''k1''), (''n'', JStr ''Aw''), (''e'', JStr ''Aw'')]])],
        kf_after = 1\<rparr>, ac_now = 1000\<rparr>"

definition sample_http_req :: "string \<Rightarrow> http_req" where
  "sample_http_req a =
     \<lparr>rq_path = ''/v1/admin/usage'', rq_authorization = Some a, rq_tenant_header = Some ''acme'', rq_role_principal = None,
      rq_oidc_principal = None, rq_tenant_id = None, rq_profile = None\<rparr>"

definition no_keys :: jwks_cache where "no_keys = \<lparr>jc_keys = [], jc_expires = 0, jc_ttl = 300\<rparr>"

lemma sample_administrator:
  "fst (require_administrator sample_oidc_library (sample_admin_settings (Some ''idp'')) sample_auth_clock
         (sample_http_req ''Bearer aA.cA.cw'') no_keys) = None"
  "validate_admin_settings (sample_admin_settings (Some ''idp''))"
  by code_simp+

lemma idp_configured: "oidc_configured (sample_admin_settings (Some ''idp''))"
  by (simp add: oidc_configured_def sample_admin_settings_def or_empty_def)

theorem administrator_is_authenticated_witness:
  "\<exists>(p :: principal) (q :: principal) claims j. role_named (normalize_role_value (pn_role p)) = Some ADMINISTRATOR
    \<and> presented_claims sample_oidc_library (Some ''Bearer aA.cA.cw'') = Some claims
    \<and> map_of claims ''role'' = Some j \<and> names_role j (pn_role p)
    \<and> token_verified sample_oidc_library (get_oidc_verifier (sample_admin_settings (Some ''idp''))) 1000 (Some ''Bearer aA.cA.cw'')
        (jc_keys (snd (snd (require_administrator sample_oidc_library (sample_admin_settings (Some ''idp'')) sample_auth_clock
                              (sample_http_req ''Bearer aA.cA.cw'') no_keys)))) q"
proof -
  obtain rq' cache' where r: "require_administrator sample_oidc_library (sample_admin_settings (Some ''idp'')) sample_auth_clock
         (sample_http_req ''Bearer aA.cA.cw'') no_keys = (None, rq', cache')"
    using sample_administrator(1) by (metis prod.collapse)
  have "oidc_configured (sample_admin_settings (Some ''idp''))" "ac_now sample_auth_clock = 1000"
      "rq_authorization (sample_http_req ''Bearer aA.cA.cw'') = Some ''Bearer aA.cA.cw''"
      "OIDC_ROLE_CLAIM (sample_admin_settings (Some ''idp'')) = ''role''"
    by (simp_all add: oidc_configured_def sample_admin_settings_def or_empty_def sample_auth_clock_def sample_http_req_def)
  note facts = this
  from administrator_is_authenticated [OF r sample_administrator(2)] obtain p :: principal and q :: principal and claims j where
    "role_named (normalize_role_value (pn_role p)) = Some ADMINISTRATOR"
    "presented_claims sample_oidc_library (Some ''Bearer aA.cA.cw'') = Some claims"
    "map_of claims ''role'' = Some j" "names_role j (pn_role p)"
    "token_verified sample_oidc_library (get_oidc_verifier (sample_admin_settings (Some ''idp''))) 1000 (Some ''Bearer aA.cA.cw'')
       (jc_keys cache') q"
    unfolding facts(2-4) using facts(1) by blast
  then show ?thesis unfolding r snd_conv by blast
qed

text \<open>C36. whoever passes the governance routes' dependency reads one tenant: the tenant of the credential (with
  OIDC the token's own tenant claim, otherwise the tenant the admin key is bound to), never the wildcard,
  not what a header or a query names; other tenants are refused.
\<close>

theorem reads_stay_in_tenant:
  assumes "bind_admin_principal lib st lbl ac rq cache = (None, rq', cache')"
  shows "\<exists>t. clean_tenant (Some t) = Some t \<and> t \<noteq> ''*'' \<and> (rq_tenant_header rq = None \<or> clean_tenant (rq_tenant_header rq) = Some t)
    \<and> (oidc_configured st \<longrightarrow>
         (\<exists>claims raw. presented_claims lib (rq_authorization rq) = Some claims
            \<and> map_of claims ''tenant_id'' = Some (JStr raw) \<and> clean_tenant (Some raw) = Some t))
    \<and> (\<not> oidc_configured st \<longrightarrow> clean_tenant (ADMIN_TENANT_ID st) = Some t)
    \<and> resolve_scoped_tenant rq' None = (Inr t, rq')
    \<and> (\<forall>r. strip_space r \<noteq> [] \<and> strip_space r \<noteq> t \<longrightarrow>
         resolve_scoped_tenant rq' (Some r) = (Inl (HTTPException 403 ''tenant_id does not match the caller tenant''), rq'))"
proof -
  have a: "\<exists>lib st lbl ac cache cache'. bind_admin_principal lib st lbl ac rq cache = (None, rq', cache')" using assms by blast
  obtain p where p: "rq_role_principal rq' = Some p" "tenant_bound rq p" "admin_credential lib st ac (rq_authorization rq) cache' p"
    using bind_admin_principal_sound [OF assms] by blast
  from governance.caller_is_bound [OF a p(1)] governance.not_narrowed [OF a]
  have "resolve_scoped_tenant rq' None = (Inr (pn_tenant p), rq')" by (simp add: resolve_scoped_tenant_def Let_def)
  moreover have "clean_tenant (ADMIN_TENANT_ID st) = Some (pn_tenant p)" if "\<not> oidc_configured st"
    using p(3) that by (auto simp: admin_credential_def)
  moreover have "clean_tenant (Some (pn_tenant p)) = Some (pn_tenant p)" "pn_tenant p \<noteq> ''*''"
      "rq_tenant_header rq = None \<or> clean_tenant (rq_tenant_header rq) = Some (pn_tenant p)"
    using p(2) by (auto simp: tenant_bound_def dest: clean_tenant_shape)
  ultimately show ?thesis
    using administrator_credential [OF p(3)] governance.other_tenant_refused [OF a p(1)]
    by (intro exI [of _ "pn_tenant p"]) blast
qed

theorem reads_stay_in_tenant_witness:
  "\<exists>rq' t. resolve_scoped_tenant rq' None = (Inr t, rq') \<and> t = ''acme''
     \<and> resolve_scoped_tenant rq' (Some ''globex'') = (Inl (HTTPException 403 ''tenant_id does not match the caller tenant''), rq')"
proof -
  have "fst (bind_admin_principal sample_oidc_library (sample_admin_settings (Some ''idp'')) ''governance'' sample_auth_clock
          (sample_http_req ''bearer aA.cA.cw'') no_keys) = None" by code_simp
  then obtain rq' cache' where "bind_admin_principal sample_oidc_library (sample_admin_settings (Some ''idp'')) ''governance''
          sample_auth_clock (sample_http_req ''bearer aA.cA.cw'') no_keys = (None, rq', cache')" by (metis prod.collapse)
  from reads_stay_in_tenant [OF this]
  obtain t claims raw where t: "resolve_scoped_tenant rq' None = (Inr t, rq')"
      "presented_claims sample_oidc_library (rq_authorization (sample_http_req ''bearer aA.cA.cw'')) = Some claims"
      "map_of claims ''tenant_id'' = Some (JStr raw)" "clean_tenant (Some raw) = Some t"
      "strip_space ''globex'' \<noteq> [] \<and> strip_space ''globex'' \<noteq> t \<longrightarrow>
         resolve_scoped_tenant rq' (Some ''globex'') = (Inl (HTTPException 403 ''tenant_id does not match the caller tenant''), rq')"
    using idp_configured by blast
  have c: "map_option (\<lambda>cs. map_of cs ''tenant_id'')
      (presented_claims sample_oidc_library (rq_authorization (sample_http_req ''bearer aA.cA.cw''))) = Some (Some (JStr ''acme''))"
    "clean_tenant (Some ''acme'') = Some ''acme''" "strip_space ''globex'' = ''globex''"
    by code_simp+
  then have "t = ''acme''" using t(2-4) by simp
  with t(1,5) c(3) show ?thesis by auto
qed

end
