(* ===== verification/ServiceLevels.thy ===== *)
theory ServiceLevels
  imports Workflows PyText "HOL-Library.Multiset"
begin

text \<open>
  Service levels and their alarms: the counters and sliding windows of \<open>services/slo_engine.py\<close>, and the
  breach detector with its webhook and dead letter queue (\<open>services/breach_detector.py\<close>). Valkey is a
  record of counters, sorted sets and the times of the last breaches, by key. An entry whose time has
  passed is gone at the next operation. Each operation of the engine issues several commands and is one
  step here, so that a run is of calls that do not overlap; the read and the write of a cooldown, and the
  reads of a rate, are also defined apart, with what overlapping calls do to them (\<open>breach_race\<close>,
  \<open>rate_race\<close>). Rates and times are rational numbers. The configuration is
  given with the fields the code reads; the identifiers drawn and the outcome of each request to the
  webhook are arguments.
\<close>

subsection \<open>The store\<close>

record slo_db =
  sd_counts :: "(string, nat \<times> rat) dict"
  sd_sets :: "(string, (string, rat) dict \<times> rat option) dict"
  sd_breach :: "(string, rat) dict"

definition empty_slo_db :: slo_db where
  "empty_slo_db = \<lparr>sd_counts = [], sd_sets = [], sd_breach = []\<rparr>"

definition purge_expired_keys :: "rat \<Rightarrow> slo_db \<Rightarrow> slo_db" where
  "purge_expired_keys now db =
     db\<lparr>sd_counts := filter (\<lambda>(k, n, d). now < d) (sd_counts db),
        sd_sets := filter (\<lambda>(k, ms, d). case d of None \<Rightarrow> True | Some t \<Rightarrow> now < t) (sd_sets db)\<rparr>"

definition read_count :: "slo_db \<Rightarrow> string \<Rightarrow> nat" where
  "read_count db k = (case map_of (sd_counts db) k of None \<Rightarrow> 0 | Some (n, d) \<Rightarrow> n)"

definition incr_expire :: "rat \<Rightarrow> string \<Rightarrow> slo_db \<Rightarrow> slo_db" where
  "incr_expire deadline k db = db\<lparr>sd_counts := AList.update k (read_count db k + 1, deadline) (sd_counts db)\<rparr>"

definition zset :: "slo_db \<Rightarrow> string \<Rightarrow> (string, rat) dict" where
  "zset db k = (case map_of (sd_sets db) k of None \<Rightarrow> [] | Some (ms, d) \<Rightarrow> ms)"

definition zset_deadline :: "slo_db \<Rightarrow> string \<Rightarrow> rat option" where
  "zset_deadline db k = (case map_of (sd_sets db) k of None \<Rightarrow> None | Some (ms, d) \<Rightarrow> d)"

definition zadd :: "string \<Rightarrow> string \<Rightarrow> rat \<Rightarrow> slo_db \<Rightarrow> slo_db" where
  "zadd k m sc db = db\<lparr>sd_sets := AList.update k (AList.update m sc (zset db k), zset_deadline db k) (sd_sets db)\<rparr>"

definition zexpire :: "string \<Rightarrow> rat \<Rightarrow> slo_db \<Rightarrow> slo_db" where
  "zexpire k deadline db = db\<lparr>sd_sets := AList.update k (zset db k, Some deadline) (sd_sets db)\<rparr>"

text \<open>\<open>ZREMRANGEBYSCORE\<close> from minus infinity: the cutoff itself goes too.\<close>

definition zevict :: "string \<Rightarrow> rat \<Rightarrow> slo_db \<Rightarrow> slo_db" where
  "zevict k cutoff db =
     db\<lparr>sd_sets := AList.update k (filter (\<lambda>(m, s). cutoff < s) (zset db k), zset_deadline db k) (sd_sets db)\<rparr>"

subsection \<open>Recording\<close>

record slo_config =
  sc_target :: rat
  window_fixed :: "string list"
  window_rolling :: "string list"

text \<open>A reading of the clock with the names of its day and month.\<close>

record moment =
  mo_now :: rat
  mo_day :: string
  mo_month :: string

definition default_targets :: "(string, slo_config) dict" where
  "default_targets =
     map (\<lambda>(s, t). (s, \<lparr>sc_target = t, window_fixed = [''daily'', ''monthly''], window_rolling = [''24h'', ''30d'']\<rparr>))
       [(''success_rate'', 999 / 10), (''p95_latency_ms'', 100), (''fail_secure_rate'', 1 / 10), (''audit_write_rate'', 9999 / 100)]"

definition get_window_seconds :: "string \<Rightarrow> rat" where
  "get_window_seconds w = (if w = ''24h'' then 86400 else if w = ''30d'' then 30 * 86400 else 0)"

definition slo_base :: "string \<Rightarrow> string \<Rightarrow> string \<Rightarrow> string \<Rightarrow> string" where
  "slo_base t s w k = ''slo:'' @ t @ '':'' @ s @ '':'' @ w @ '':'' @ k"

definition count_event :: "rat \<Rightarrow> string \<Rightarrow> bool \<Rightarrow> slo_db \<Rightarrow> slo_db" where
  "count_event deadline base success db =
     (let db1 = incr_expire deadline (base @ '':den'') db
      in if success then incr_expire deadline (base @ '':num'') db1 else db1)"

definition roll_event :: "string \<Rightarrow> string \<Rightarrow> string \<Rightarrow> rat \<Rightarrow> bool \<Rightarrow> slo_db \<Rightarrow> string \<Rightarrow> slo_db" where
  "roll_event t s unique_member now success db w =
     (let base = slo_base t s ''rolling'' w;
          db1 = zadd (base @ '':den'') unique_member now db;
          db2 = (if success then zadd (base @ '':num'') unique_member now db1 else db1);
          cutoff = now - get_window_seconds w
      in zevict (base @ '':num'') cutoff (zevict (base @ '':den'') cutoff db2))"

definition record_event :: "(string, slo_config) dict \<Rightarrow> moment \<Rightarrow> string \<Rightarrow> string \<Rightarrow> bool \<Rightarrow> string \<Rightarrow> slo_db \<Rightarrow> slo_db" where
  "record_event targets mo t s success unique_member db0 =
     (case map_of targets s of
        None \<Rightarrow> db0
      | Some cfg \<Rightarrow>
          let now = mo_now mo;
              db = purge_expired_keys now db0;
              db1 = (if List.member (window_fixed cfg) ''daily''
                     then count_event (now + 35 * 86400) (slo_base t s ''daily'' (mo_day mo)) success db else db);
              db2 = (if List.member (window_fixed cfg) ''monthly''
                     then count_event (now + 90 * 86400) (slo_base t s ''monthly'' (mo_month mo)) success db1 else db1)
          in foldl (roll_event t s unique_member now success) db2 (window_rolling cfg))"

definition latency_member :: "int \<Rightarrow> string \<Rightarrow> string" where
  "latency_member latency_ms uuid = py_str_int latency_ms @ '':'' @ uuid"

definition record_latency :: "(string, slo_config) dict \<Rightarrow> moment \<Rightarrow> string \<Rightarrow> int \<Rightarrow> string \<Rightarrow> slo_db \<Rightarrow> slo_db" where
  "record_latency targets mo t latency_ms uuid db0 =
     (let now = mo_now mo; m = latency_member latency_ms uuid; s = ''p95_latency_ms''
      in case map_of targets s of
           None \<Rightarrow> db0
         | Some cfg \<Rightarrow>
             let db = purge_expired_keys now db0;
                 day = slo_base t s ''daily'' (mo_day mo) @ '':latencies'';
                 month = slo_base t s ''monthly'' (mo_month mo) @ '':latencies'';
                 db1 = (if List.member (window_fixed cfg) ''daily'' then zexpire day (now + 35 * 86400) (zadd day m now db) else db);
                 db2 = (if List.member (window_fixed cfg) ''monthly''
                        then zexpire month (now + 90 * 86400) (zadd month m now db1) else db1)
             in foldl (\<lambda>d w. let k = slo_base t s ''rolling'' w @ '':latencies''
                             in zevict k (now - get_window_seconds w) (zadd k m now d)) db2 (window_rolling cfg))"

subsection \<open>Compliance\<close>

record slo_compliance =
  cp_slo :: string
  cp_target :: rat
  cp_current :: rat
  cp_compliant :: bool
  cp_window_type :: string
  cp_window_key :: string
  cp_last_breach :: "rat option"

definition is_compliant :: "string \<Rightarrow> rat \<Rightarrow> rat \<Rightarrow> bool" where
  "is_compliant s target current \<longleftrightarrow>
     (if s = ''success_rate'' \<or> s = ''audit_write_rate'' then current \<ge> target else current \<le> target)"

definition breach_key :: "string \<Rightarrow> string \<Rightarrow> string \<Rightarrow> string" where
  "breach_key t s w = ''slo:'' @ t @ '':'' @ s @ '':'' @ w @ '':last_breach''"

definition compliance :: "string \<Rightarrow> string \<Rightarrow> slo_config \<Rightarrow> slo_db \<Rightarrow> string \<Rightarrow> string \<Rightarrow> rat \<Rightarrow> slo_compliance" where
  "compliance t s cfg db w wkey current =
     \<lparr>cp_slo = s, cp_target = sc_target cfg, cp_current = current, cp_compliant = is_compliant s (sc_target cfg) current,
      cp_window_type = w, cp_window_key = wkey, cp_last_breach = map_of (sd_breach db) (breach_key t s w)\<rparr>"

definition rate :: "string \<Rightarrow> nat \<Rightarrow> nat \<Rightarrow> rat" where
  "rate s num den =
     (if den > 0 then of_nat num / of_nat den * 100 else if s = ''fail_secure_rate'' then 0 else 100)"

definition calculate_p95 :: "rat list \<Rightarrow> rat" where
  "calculate_p95 latencies =
     (if latencies = [] then 0
      else let sorted_l = sort latencies; idx = length sorted_l * 95 div 100
           in sorted_l ! min idx (length sorted_l - 1))"

text \<open>The members are those \<open>record_latency\<close> writes; the part before the colon is the number.\<close>

definition get_latencies_from_zset :: "slo_db \<Rightarrow> string \<Rightarrow> rat list" where
  "get_latencies_from_zset db k =
     List.map_filter (\<lambda>(m, s). map_option rat_of_int (py_int (takeWhile (\<lambda>c. c \<noteq> CHR '':'') m))) (zset db k)"

definition fixed_rate :: "string \<Rightarrow> string \<Rightarrow> slo_config \<Rightarrow> slo_db \<Rightarrow> string \<Rightarrow> string \<Rightarrow> slo_compliance list" where
  "fixed_rate t s cfg db w wkey =
     (if \<not> List.member (window_fixed cfg) w then []
      else let base = slo_base t s w wkey
           in [compliance t s cfg db w wkey (rate s (read_count db (base @ '':num'')) (read_count db (base @ '':den'')))])"

definition fixed_p95 :: "string \<Rightarrow> string \<Rightarrow> slo_config \<Rightarrow> slo_db \<Rightarrow> string \<Rightarrow> string \<Rightarrow> slo_compliance list" where
  "fixed_p95 t s cfg db w wkey =
     (if \<not> List.member (window_fixed cfg) w then []
      else [compliance t s cfg db w wkey (calculate_p95 (get_latencies_from_zset db (slo_base t s w wkey @ '':latencies'')))])"

fun rolling_rates :: "string \<Rightarrow> string \<Rightarrow> slo_config \<Rightarrow> rat \<Rightarrow> string list \<Rightarrow> slo_db \<Rightarrow> slo_compliance list \<times> slo_db" where
  "rolling_rates t s cfg now [] db = ([], db)"
| "rolling_rates t s cfg now (w # ws) db =
     (let base = slo_base t s ''rolling'' w; cutoff = now - get_window_seconds w;
          db1 = zevict (base @ '':num'') cutoff (zevict (base @ '':den'') cutoff db);
          c = compliance t s cfg db1 w ''rolling'' (rate s (length (zset db1 (base @ '':num''))) (length (zset db1 (base @ '':den''))));
          (cs, db2) = rolling_rates t s cfg now ws db1
      in (c # cs, db2))"

fun rolling_p95 :: "string \<Rightarrow> string \<Rightarrow> slo_config \<Rightarrow> rat \<Rightarrow> string list \<Rightarrow> slo_db \<Rightarrow> slo_compliance list \<times> slo_db" where
  "rolling_p95 t s cfg now [] db = ([], db)"
| "rolling_p95 t s cfg now (w # ws) db =
     (let k = slo_base t s ''rolling'' w @ '':latencies'';
          db1 = zevict k (now - get_window_seconds w) db;
          c = compliance t s cfg db1 w ''rolling'' (calculate_p95 (get_latencies_from_zset db1 k));
          (cs, db2) = rolling_p95 t s cfg now ws db1
      in (c # cs, db2))"

definition compute_slo :: "string \<Rightarrow> moment \<Rightarrow> string \<Rightarrow> slo_config \<Rightarrow> slo_db \<Rightarrow> slo_compliance list \<times> slo_db" where
  "compute_slo t mo s cfg db =
     (if s = ''p95_latency_ms''
      then let (rolled, db1) = rolling_p95 t s cfg (mo_now mo) (window_rolling cfg) db
           in (fixed_p95 t s cfg db ''daily'' (mo_day mo) @ fixed_p95 t s cfg db ''monthly'' (mo_month mo) @ rolled, db1)
      else let (rolled, db1) = rolling_rates t s cfg (mo_now mo) (window_rolling cfg) db
           in (fixed_rate t s cfg db ''daily'' (mo_day mo) @ fixed_rate t s cfg db ''monthly'' (mo_month mo) @ rolled, db1))"

fun compute_slos :: "(string, slo_config) dict \<Rightarrow> string \<Rightarrow> moment \<Rightarrow> string list \<Rightarrow> slo_db \<Rightarrow> slo_compliance list \<times> slo_db" where
  "compute_slos targets t mo [] db = ([], db)"
| "compute_slos targets t mo (s # ss) db =
     (case map_of targets s of
        None \<Rightarrow> compute_slos targets t mo ss db
      | Some cfg \<Rightarrow>
          let (cs, db1) = compute_slo t mo s cfg db; (rest, db2) = compute_slos targets t mo ss db1
          in (cs @ rest, db2))"

definition compute_compliance ::
  "(string, slo_config) dict \<Rightarrow> string \<Rightarrow> moment \<Rightarrow> string option \<Rightarrow> slo_db \<Rightarrow> slo_compliance list \<times> slo_db" where
  "compute_compliance targets t mo slo_name db =
     compute_slos targets t mo (case slo_name of Some (c # cs) \<Rightarrow> [c # cs] | _ \<Rightarrow> map fst targets)
       (purge_expired_keys (mo_now mo) db)"

definition get_all_compliance :: "(string, slo_config) dict \<Rightarrow> string \<Rightarrow> moment \<Rightarrow> slo_db \<Rightarrow> (string, slo_compliance list) dict" where
  "get_all_compliance targets t mo db =
     foldl (\<lambda>grouped c. AList.update (cp_slo c) (dict_get grouped (cp_slo c) [] @ [c]) grouped) []
       (fst (compute_compliance targets t mo None db))"

subsection \<open>The percentile\<close>

lemma filter_length_sort: "length (filter P (sort xs)) = length (filter P xs)"
  by (metis mset_filter mset_sort size_mset)

lemma nth_sorted_counts:
  assumes "sorted xs" "i < length xs"
  shows "i + 1 \<le> length (filter (\<lambda>x. x \<le> xs ! i) xs)" "length xs - i \<le> length (filter (\<lambda>x. xs ! i \<le> x) xs)"
proof -
  have low: "\<forall>x \<in> set (take (i + 1) xs). x \<le> xs ! i"
    using assms by (fastforce simp: in_set_conv_nth sorted_iff_nth_mono)
  have high: "\<forall>x \<in> set (drop i xs). xs ! i \<le> x"
    using assms by (fastforce simp: in_set_conv_nth sorted_iff_nth_mono)
  have "length (filter (\<lambda>x. x \<le> xs ! i) (take (i + 1) xs)) \<le> length (filter (\<lambda>x. x \<le> xs ! i) xs)"
    by (metis append_take_drop_id filter_append le_add1 length_append)
  with low assms(2) show "i + 1 \<le> length (filter (\<lambda>x. x \<le> xs ! i) xs)" by (simp add: filter_True)
  have "length (filter (\<lambda>x. xs ! i \<le> x) (drop i xs)) \<le> length (filter (\<lambda>x. xs ! i \<le> x) xs)"
    by (metis append_take_drop_id filter_append le_add2 length_append)
  with high show "length xs - i \<le> length (filter (\<lambda>x. xs ! i \<le> x) xs)" by (simp add: filter_True)
qed

lemma p95_index: "n \<noteq> 0 \<Longrightarrow> min (n * 95 div 100) (n - 1) = n * 95 div (100 :: nat)"
  by linarith

lemma p95_percentile:
  assumes "xs \<noteq> []"
  shows "calculate_p95 xs \<in> set xs
    \<and> 95 * length xs < 100 * length (filter (\<lambda>x. x \<le> calculate_p95 xs) xs)
    \<and> 5 * length xs \<le> 100 * length (filter (\<lambda>x. calculate_p95 xs \<le> x) xs)"
proof -
  define s where "s = sort xs"
  define i where "i = length xs * 95 div 100"
  have len: "length s = length xs" "length xs \<noteq> 0" using assms by (simp_all add: s_def)
  have p: "calculate_p95 xs = s ! i"
    using assms p95_index [OF len(2)] len(1) by (simp add: calculate_p95_def Let_def s_def [symmetric] i_def)
  have "length xs * 95 div 100 < length xs" using len(2) by linarith
  then have i: "i < length s" using len by (simp add: i_def)
  from nth_sorted_counts [OF _ i] have
    "i + 1 \<le> length (filter (\<lambda>x. x \<le> s ! i) s)" "length s - i \<le> length (filter (\<lambda>x. s ! i \<le> x) s)"
    by (simp_all add: s_def)
  then have c: "i + 1 \<le> length (filter (\<lambda>x. x \<le> s ! i) xs)" "length xs - i \<le> length (filter (\<lambda>x. s ! i \<le> x) xs)"
    by (simp_all add: len s_def filter_length_sort)
  have "s ! i \<in> set xs" using nth_mem [OF i] by (simp add: s_def)
  moreover have "i * 100 + length xs * 95 mod 100 = length xs * 95" unfolding i_def by (rule div_mult_mod_eq)
  moreover have "length xs * 95 mod 100 < 100" by simp
  ultimately show ?thesis using c unfolding p by linarith
qed

subsection \<open>Rates\<close>

lemma key_suffixes [simp]:
  "b @ '':num'' \<noteq> b' @ '':den''" "b @ '':den'' \<noteq> b' @ '':num''" "b @ '':latencies'' \<noteq> b' @ '':den''" "b @ '':latencies'' \<noteq> b' @ '':num''"
  "b @ '':den'' \<noteq> b' @ '':latencies''" "b @ '':num'' \<noteq> b' @ '':latencies''"
  by (auto dest: arg_cong [of _ _ last])

lemma store_simps [simp]:
  "zset (zadd k m s db) k' = (if k' = k then AList.update m s (zset db k) else zset db k')"
  "zset (zexpire k d db) k' = zset db k'"
  "zset (zevict k c db) k' = (if k' = k then filter (\<lambda>(m, s). c < s) (zset db k) else zset db k')"
  "zset (incr_expire d k db) k' = zset db k'"
  "zset_deadline (zadd k m s db) k' = zset_deadline db k'"
  "zset_deadline (zexpire k d db) k' = (if k' = k then Some d else zset_deadline db k')"
  "zset_deadline (zevict k c db) k' = zset_deadline db k'"
  "zset_deadline (incr_expire d k db) k' = zset_deadline db k'"
  "sd_counts (zadd k m s db) = sd_counts db" "sd_counts (zevict k c db) = sd_counts db" "sd_counts (zexpire k d db) = sd_counts db"
  "sd_breach (zadd k m s db) = sd_breach db" "sd_breach (zevict k c db) = sd_breach db" "sd_breach (zexpire k d db) = sd_breach db"
  "sd_breach (incr_expire d k db) = sd_breach db"
  by (simp_all add: zset_def zadd_def zexpire_def zevict_def incr_expire_def zset_deadline_def map_of_update split: option.splits prod.splits)

lemma map_of_filter_snd:
  "distinct (map fst xs) \<Longrightarrow> map_of (filter (\<lambda>(k, v). P v) xs) k = (case map_of xs k of Some v \<Rightarrow> if P v then Some v else None | None \<Rightarrow> None)"
  by (induction xs) (auto simp: map_of_eq_None_iff split: option.splits dest: weak_map_of_SomeI)

text \<open>
  Every success was also counted as an event: a numerator has a denominator that is at least as large and
  does not disappear before it, and a window of successes is part of the window of events. \<open>prev\<close> is the
  time of the last operation, \<open>U\<close> holds the identifiers of the successes.
\<close>

definition ttl_of :: "string \<Rightarrow> rat" where
  "ttl_of base = (if \<exists>x day. base = x @ '':daily:'' @ day \<and> CHR '':'' \<notin> set day then 35 * 86400 else 90 * 86400)"

definition counts_paired :: "rat \<Rightarrow> (string, nat \<times> rat) dict \<Rightarrow> bool" where
  "counts_paired prev cs \<longleftrightarrow> distinct (map fst cs)
     \<and> (\<forall>b n d. map_of cs (b @ '':num'') = Some (n, d) \<longrightarrow> (\<exists>m e. map_of cs (b @ '':den'') = Some (m, e) \<and> n \<le> m \<and> d \<le> e))
     \<and> (\<forall>b m e. map_of cs (b @ '':den'') = Some (m, e) \<longrightarrow> e \<le> prev + ttl_of b)"

definition sets_paired :: "slo_db \<Rightarrow> bool" where
  "sets_paired db \<longleftrightarrow> distinct (map fst (sd_sets db)) \<and> (\<forall>k. distinct (map fst (zset db k)))
     \<and> (\<forall>b. map_of (zset db (b @ '':num'')) \<subseteq>\<^sub>m map_of (zset db (b @ '':den'')))
     \<and> (\<forall>b. zset_deadline db (b @ '':num'') = None \<and> zset_deadline db (b @ '':den'') = None)"

definition num_in :: "string set \<Rightarrow> slo_db \<Rightarrow> bool" where
  "num_in U db \<longleftrightarrow> (\<forall>b. fst ` set (zset db (b @ '':num'')) \<subseteq> U)"

lemma colon_split_unique:
  "x @ CHR '':'' # d = y @ CHR '':'' # e \<Longrightarrow> CHR '':'' \<notin> set d \<Longrightarrow> CHR '':'' \<notin> set e \<Longrightarrow> x = y \<and> d = e"
  by (metis option.inject prod.inject rpartition_append)

lemma ttl_daily: "CHR '':'' \<notin> set day \<Longrightarrow> ttl_of (slo_base t s ''daily'' day) = 35 * 86400"
proof -
  assume "CHR '':'' \<notin> set day"
  moreover have "slo_base t s ''daily'' day = (''slo:'' @ t @ '':'' @ s) @ '':daily:'' @ day" by (simp add: slo_base_def)
  ultimately have "\<exists>x day'. slo_base t s ''daily'' day = x @ '':daily:'' @ day' \<and> CHR '':'' \<notin> set day'" by blast
  then show ?thesis unfolding ttl_of_def by (rule if_P)
qed

lemma ttl_monthly:
  assumes "CHR '':'' \<notin> set month"
  shows "ttl_of (slo_base t s ''monthly'' month) = 90 * 86400"
proof -
  have "\<not> (\<exists>x day. slo_base t s ''monthly'' month = x @ '':daily:'' @ day \<and> CHR '':'' \<notin> set day)"
  proof safe
    fix x day
    assume eq: "slo_base t s ''monthly'' month = x @ '':daily:'' @ day" "CHR '':'' \<notin> set day"
    then have "(''slo:'' @ t @ '':'' @ s @ '':monthly'') @ CHR '':'' # month = (x @ '':daily'') @ CHR '':'' # day"
      by (simp add: slo_base_def)
    from colon_split_unique [OF this assms eq(2)] have "''slo:'' @ t @ '':'' @ s @ '':monthly'' = x @ '':daily''" by simp
    then have "rev (''slo:'' @ t @ '':'' @ s @ '':monthly'') = rev (x @ '':daily'')" by (rule arg_cong)
    then show False by simp
  qed
  then show ?thesis unfolding ttl_of_def by (simp only: if_False)
qed

lemma purge_counts:
  assumes "counts_paired prev cs"
  shows "counts_paired prev (filter (\<lambda>(k, n, d). now < d) cs)"
proof -
  define cs' where "cs' = filter (\<lambda>(k, n, d). now < d) cs"
  have dist: "distinct (map fst cs)" using assms by (simp add: counts_paired_def)
  then have get: "map_of cs' k = (case map_of cs k of Some v \<Rightarrow> if now < snd v then Some v else None | None \<Rightarrow> None)" for k
    unfolding cs'_def using map_of_filter_snd [of cs "\<lambda>v. now < snd v"] by (simp add: case_prod_beta')
  have "distinct (map fst cs')" unfolding cs'_def using dist by (simp add: distinct_map_filter)
  moreover have "\<exists>m e. map_of cs' (b @ '':den'') = Some (m, e) \<and> n \<le> m \<and> d \<le> e" if "map_of cs' (b @ '':num'') = Some (n, d)" for b n d
  proof -
    from that have "map_of cs (b @ '':num'') = Some (n, d)" "now < d" by (auto simp: get split: option.splits if_splits)
    moreover obtain m e where "map_of cs (b @ '':den'') = Some (m, e)" "n \<le> m" "d \<le> e"
      using assms calculation(1) unfolding counts_paired_def by blast
    ultimately show ?thesis by (auto simp: get)
  qed
  moreover have "e \<le> prev + ttl_of b" if "map_of cs' (b @ '':den'') = Some (m, e)" for b m e
    using that assms unfolding counts_paired_def by (auto simp: get split: option.splits if_splits)
  ultimately show ?thesis unfolding counts_paired_def cs'_def [symmetric] by blast
qed

lemma count_event_paired:
  assumes "counts_paired prev (sd_counts db)" "prev \<le> now" "deadline = now + ttl_of base"
  shows "counts_paired now (sd_counts (count_event deadline base success db))"
proof -
  define cs where "cs = sd_counts db"
  define cs' where "cs' = sd_counts (count_event deadline base success db)"
  have dist: "distinct (map fst cs)"
    and num: "\<And>b n d. map_of cs (b @ '':num'') = Some (n, d) \<Longrightarrow> \<exists>m e. map_of cs (b @ '':den'') = Some (m, e) \<and> n \<le> m \<and> d \<le> e"
    and den: "\<And>b m e. map_of cs (b @ '':den'') = Some (m, e) \<Longrightarrow> e \<le> prev + ttl_of b"
    using assms(1) unfolding counts_paired_def cs_def by blast+
  have get: "map_of cs' k = (if k = base @ '':den'' then Some (read_count db k + 1, deadline)
      else if success \<and> k = base @ '':num'' then Some (read_count db k + 1, deadline) else map_of cs k)" for k
    unfolding cs'_def cs_def by (auto simp: count_event_def incr_expire_def read_count_def Let_def map_of_update)
  have "distinct (map fst cs')" using dist unfolding cs'_def cs_def
    by (simp add: count_event_def incr_expire_def Let_def distinct_update)
  moreover have "\<exists>m e. map_of cs' (b @ '':den'') = Some (m, e) \<and> n \<le> m \<and> d \<le> e" if "map_of cs' (b @ '':num'') = Some (n, d)" for b n d
  proof (cases "b = base")
    case True
    have le: "read_count db (base @ '':num'') \<le> read_count db (base @ '':den'')"
      using num [of base] by (fastforce simp: read_count_def cs_def split: option.splits)
    have "d' \<le> deadline" if "map_of cs (base @ '':num'') = Some (n', d')" for n' d'
      using num [OF that] den assms(2,3) by fastforce
    with True that le show ?thesis by (auto simp: get read_count_def cs_def split: if_splits)
  next
    case False
    with that num show ?thesis by (simp add: get)
  qed
  moreover have "e \<le> now + ttl_of b" if "map_of cs' (b @ '':den'') = Some (m, e)" for b m e
    using that den [of b m e] assms(2,3) by (auto simp: get split: if_splits)
  ultimately show ?thesis unfolding counts_paired_def cs'_def [symmetric] by blast
qed

lemma counts_paired_later: "counts_paired prev cs \<Longrightarrow> prev \<le> now \<Longrightarrow> counts_paired now cs"
  unfolding counts_paired_def by fastforce

lemma zset_purged:
  assumes "distinct (map fst (sd_sets db))"
  shows "map_of (sd_sets (purge_expired_keys now db)) k =
     (case map_of (sd_sets db) k of Some (ms, d) \<Rightarrow> (case d of Some t \<Rightarrow> if now < t then Some (ms, d) else None | None \<Rightarrow> Some (ms, d)) | None \<Rightarrow> None)"
  using map_of_filter_snd [OF assms, of "\<lambda>v. case snd v of None \<Rightarrow> True | Some t \<Rightarrow> now < t" k]
  by (simp add: purge_expired_keys_def case_prod_beta' split: option.splits prod.splits)

lemma purge_sets:
  assumes "sets_paired db"
  shows "sets_paired (purge_expired_keys now db)"
proof -
  have dist: "distinct (map fst (sd_sets db))" using assms by (simp add: sets_paired_def)
  note get = zset_purged [OF dist, of now]
  have cases: "zset (purge_expired_keys now db) k = zset db k \<or> zset (purge_expired_keys now db) k = []" for k
    by (auto simp: zset_def get split: option.splits)
  have kept: "zset (purge_expired_keys now db) k = zset db k" "zset_deadline (purge_expired_keys now db) k = None"
    if "zset_deadline db k = None" for k
    using that by (auto simp: zset_def zset_deadline_def get split: option.splits)
  have "distinct (map fst (sd_sets (purge_expired_keys now db)))"
    using dist by (simp add: purge_expired_keys_def distinct_map_filter)
  moreover have "distinct (map fst (zset (purge_expired_keys now db) k))" for k
    using cases [of k] assms by (auto simp: sets_paired_def)
  ultimately show ?thesis using assms kept unfolding sets_paired_def by simp
qed

lemma distinct_sets [simp]:
  assumes "distinct (map fst (sd_sets db))"
  shows "distinct (map fst (sd_sets (zadd k m sc db)))" "distinct (map fst (sd_sets (zevict k c db)))"
    "distinct (map fst (sd_sets (zexpire k d db)))" "distinct (map fst (sd_sets (incr_expire d k db)))"
  using assms by (simp_all add: zadd_def zevict_def zexpire_def incr_expire_def distinct_update)

lemma sets_paired_latencies:
  assumes "sets_paired db" "distinct (map fst (sd_sets db'))" "distinct (map fst (zset db' (b @ '':latencies'')))"
    and "\<And>k. k \<noteq> b @ '':latencies'' \<Longrightarrow> zset db' k = zset db k \<and> zset_deadline db' k = zset_deadline db k"
  shows "sets_paired db'"
proof -
  have "zset db' (x @ '':num'') = zset db (x @ '':num'')" "zset db' (x @ '':den'') = zset db (x @ '':den'')"
       "zset_deadline db' (x @ '':num'') = zset_deadline db (x @ '':num'')"
       "zset_deadline db' (x @ '':den'') = zset_deadline db (x @ '':den'')" for x
    using assms(4) by simp_all
  moreover have "distinct (map fst (zset db' k))" for k
    using assms(1,3,4) by (cases "k = b @ '':latencies''") (simp_all add: sets_paired_def)
  ultimately show ?thesis using assms(1,2) by (simp add: sets_paired_def)
qed

lemma latency_sets:
  assumes "sets_paired db"
  shows "sets_paired (zadd (b @ '':latencies'') m sc db)" "sets_paired (zevict (b @ '':latencies'') c db)"
    "sets_paired (zexpire (b @ '':latencies'') d db)"
  using assms
  by (auto intro!: sets_paired_latencies [OF assms, of _ b] simp: sets_paired_def distinct_update distinct_map_filter)

lemma evicted_le:
  assumes "map_of xs \<subseteq>\<^sub>m map_of ys" "distinct (map fst xs)" "distinct (map fst ys)"
  shows "map_of (filter (\<lambda>(m, s). c < s) xs) \<subseteq>\<^sub>m map_of (filter (\<lambda>(m, s). c < s) ys)"
  using assms unfolding map_le_def dom_def
  by (fastforce simp: map_of_filter_snd split: option.splits if_splits)

lemma zevict_sets:
  assumes "sets_paired db"
  shows "sets_paired (zevict (b @ '':num'') c (zevict (b @ '':den'') c db))"
proof -
  have p: "map_of (zset db (b @ '':num'')) \<subseteq>\<^sub>m map_of (zset db (b @ '':den''))"
      "distinct (map fst (zset db (b @ '':num'')))" "distinct (map fst (zset db (b @ '':den'')))"
    using assms by (simp_all add: sets_paired_def)
  with assms evicted_le [OF p, of c] show ?thesis unfolding sets_paired_def by (simp add: distinct_map_filter)
qed

lemma zadd_den:
  assumes "sets_paired db" "num_in U db" "m \<notin> U"
  shows "sets_paired (zadd (b @ '':den'') m sc db)"
proof -
  have le: "map_of (zset db (x @ '':num'')) \<subseteq>\<^sub>m map_of (zset db (x @ '':den''))" for x using assms(1) by (simp add: sets_paired_def)
  have "map_of (zset db (b @ '':num'')) m = None"
    using assms by (fastforce simp: num_in_def map_of_eq_None_iff)
  then have "map_of (zset db (b @ '':num'')) \<subseteq>\<^sub>m (map_of (zset db (b @ '':den'')))(m \<mapsto> sc)"
    using le [of b] by (auto simp: map_le_def)
  with assms(1) le show ?thesis by (simp add: sets_paired_def distinct_update map_of_update)
qed

lemma zadd_both:
  assumes "sets_paired db"
  shows "sets_paired (zadd (b @ '':num'') m sc (zadd (b @ '':den'') m sc db))"
proof -
  have le: "map_of (zset db (x @ '':num'')) \<subseteq>\<^sub>m map_of (zset db (x @ '':den''))" for x using assms(1) by (simp add: sets_paired_def)
  have "(map_of (zset db (b @ '':num'')))(m \<mapsto> sc) \<subseteq>\<^sub>m (map_of (zset db (b @ '':den'')))(m \<mapsto> sc)"
    using le [of b] by (rule map_le_upd)
  with assms(1) le show ?thesis by (simp add: sets_paired_def distinct_update map_of_update)
qed

lemma num_in_steps:
  assumes "num_in U db"
  shows "num_in U (zadd (b @ '':den'') m sc db)" "m \<in> U \<Longrightarrow> num_in U (zadd (b @ '':num'') m sc db)"
    "num_in U (zadd (b @ '':latencies'') m sc db)" "num_in U (zevict k c db)" "num_in U (zexpire k d db)" "num_in U (incr_expire d k db)"
  using assms by (fastforce simp: num_in_def fst_set_update)+

lemma roll_event_sets:
  assumes "sets_paired db" "num_in U db" "success \<longleftrightarrow> m \<in> U"
  shows "sets_paired (roll_event t s m now success db w) \<and> num_in U (roll_event t s m now success db w)"
  using assms zadd_den zadd_both
  by (cases success) (simp_all add: roll_event_def Let_def zevict_sets num_in_steps)

lemma roll_events_sets:
  assumes "sets_paired db" "num_in U db" "success \<longleftrightarrow> m \<in> U"
  shows "sets_paired (foldl (roll_event t s m now success) db ws) \<and> num_in U (foldl (roll_event t s m now success) db ws)"
  using assms by (induction ws arbitrary: db) (simp_all add: roll_event_sets)

lemma roll_event_counts [simp]: "sd_counts (foldl (roll_event t s m now success) db ws) = sd_counts db"
  by (induction ws arbitrary: db) (simp_all add: roll_event_def Let_def)

lemma count_event_sets:
  assumes "sets_paired db" "num_in U db"
  shows "sets_paired (count_event d b success db) \<and> num_in U (count_event d b success db)"
  using assms by (simp add: count_event_def Let_def sets_paired_def num_in_def incr_expire_def zset_def zset_deadline_def)

lemma purge_num_in:
  assumes "sets_paired db" "num_in U db"
  shows "num_in U (purge_expired_keys now db)"
proof -
  have dist: "distinct (map fst (sd_sets db))" using assms by (simp add: sets_paired_def)
  have "zset (purge_expired_keys now db) k = zset db k \<or> zset (purge_expired_keys now db) k = []" for k
    by (auto simp: zset_def zset_purged [OF dist, of now] split: option.splits)
  with assms(2) show ?thesis unfolding num_in_def by (metis empty_subsetI image_empty list.set(1))
qed

definition slo_ok :: "rat \<Rightarrow> string set \<Rightarrow> slo_db \<Rightarrow> bool" where
  "slo_ok prev U db \<longleftrightarrow> counts_paired prev (sd_counts db) \<and> sets_paired db \<and> num_in U db"

lemma slo_ok_empty: "slo_ok prev U empty_slo_db"
  by (simp add: slo_ok_def empty_slo_db_def counts_paired_def sets_paired_def num_in_def zset_def zset_deadline_def)

lemma purge_ok: "slo_ok prev U db \<Longrightarrow> slo_ok prev U (purge_expired_keys now db)"
  using purge_counts purge_sets purge_num_in by (simp add: slo_ok_def) (simp add: purge_expired_keys_def)

lemma slo_ok_later: "slo_ok prev U db \<Longrightarrow> prev \<le> now \<Longrightarrow> U \<subseteq> V \<Longrightarrow> slo_ok now V db"
  unfolding slo_ok_def num_in_def using counts_paired_later by blast

lemma count_step_ok:
  assumes "slo_ok now U db" "deadline = now + ttl_of base"
  shows "slo_ok now U (if c then count_event deadline base success db else db)"
proof (cases c)
  case True
  have "counts_paired now (sd_counts (count_event deadline base success db))"
    using assms(1) count_event_paired [OF _ order.refl assms(2)] by (simp add: slo_ok_def)
  moreover have "sets_paired (count_event deadline base success db) \<and> num_in U (count_event deadline base success db)"
    using assms(1) count_event_sets [of db U] unfolding slo_ok_def by blast
  ultimately show ?thesis using True by (simp add: slo_ok_def)
qed (use assms in simp)

lemma record_event_ok:
  assumes "slo_ok prev U db" "prev \<le> mo_now mo" "CHR '':'' \<notin> set (mo_day mo)" "CHR '':'' \<notin> set (mo_month mo)" "m \<notin> U"
  shows "slo_ok (mo_now mo) (if success then insert m U else U) (record_event targets mo t s success m db)"
proof (cases "map_of targets s")
  case None
  with slo_ok_later [OF assms(1,2)] show ?thesis by (auto simp: record_event_def intro: slo_ok_later)
next
  case (Some cfg)
  define V where "V = (if success then insert m U else U)"
  have V: "success \<longleftrightarrow> m \<in> V" using assms(5) by (simp add: V_def)
  define db1 where "db1 = purge_expired_keys (mo_now mo) db"
  have ok1: "slo_ok (mo_now mo) V db1"
    unfolding db1_def V_def by (rule slo_ok_later [OF purge_ok [OF assms(1)] assms(2)]) auto
  define db2 where "db2 = (if List.member (window_fixed cfg) ''daily''
      then count_event (mo_now mo + 35 * 86400) (slo_base t s ''daily'' (mo_day mo)) success db1 else db1)"
  have ok2: "slo_ok (mo_now mo) V db2" unfolding db2_def by (rule count_step_ok [OF ok1]) (simp add: ttl_daily assms(3))
  define db3 where "db3 = (if List.member (window_fixed cfg) ''monthly''
      then count_event (mo_now mo + 90 * 86400) (slo_base t s ''monthly'' (mo_month mo)) success db2 else db2)"
  have ok3: "slo_ok (mo_now mo) V db3" unfolding db3_def by (rule count_step_ok [OF ok2]) (simp add: ttl_monthly assms(4))
  have "record_event targets mo t s success m db = foldl (roll_event t s m (mo_now mo) success) db3 (window_rolling cfg)"
    by (simp add: record_event_def Some Let_def db1_def db2_def db3_def)
  with roll_events_sets [OF _ _ V] ok3 show ?thesis by (simp add: slo_ok_def V_def)
qed

lemma latency_step_ok:
  assumes "slo_ok now U db"
  shows "slo_ok now U (zadd (b @ '':latencies'') m sc db)" "slo_ok now U (zevict (b @ '':latencies'') c db)"
    "slo_ok now U (zexpire (b @ '':latencies'') d db)"
  using assms latency_sets num_in_steps by (simp_all add: slo_ok_def)

lemma record_latency_ok:
  assumes "slo_ok prev U db" "prev \<le> mo_now mo"
  shows "slo_ok (mo_now mo) U (record_latency targets mo t ms uuid db)"
proof -
  have "slo_ok (mo_now mo) U (purge_expired_keys (mo_now mo) db)" by (rule slo_ok_later [OF purge_ok [OF assms(1)] assms(2)]) simp
  moreover have "slo_ok now U (foldl (\<lambda>d w. let k = slo_base t s ''rolling'' w @ '':latencies''
        in zevict k (now - get_window_seconds w) (zadd k m now d)) d ws)" if "slo_ok now U d" for now s m d ws
    using that by (induction ws arbitrary: d) (simp_all add: Let_def latency_step_ok)
  ultimately show ?thesis using slo_ok_later [OF assms]
    by (simp add: record_latency_def Let_def latency_step_ok split: option.splits)
qed

definition rate_in_range :: "slo_compliance \<Rightarrow> bool" where
  "rate_in_range c \<longleftrightarrow> (if cp_slo c = ''p95_latency_ms'' then True else 0 \<le> cp_current c \<and> cp_current c \<le> 100)"

lemma rate_bounds: "n \<le> d \<Longrightarrow> 0 \<le> rate s n d \<and> rate s n d \<le> 100"
  by (auto simp: rate_def divide_le_eq)

lemma paired_counts_le: "slo_ok prev U db \<Longrightarrow> read_count db (b @ '':num'') \<le> read_count db (b @ '':den'')"
proof (cases "map_of (sd_counts db) (b @ '':num'')")
  case (Some v)
  assume "slo_ok prev U db"
  then have "\<exists>m e. map_of (sd_counts db) (b @ '':den'') = Some (m, e) \<and> fst v \<le> m"
    using Some unfolding slo_ok_def counts_paired_def by (metis prod.collapse)
  with Some show ?thesis by (auto simp: read_count_def split: prod.splits)
qed (simp add: read_count_def)

lemma paired_lengths_le:
  assumes "sets_paired db"
  shows "length (zset db (b @ '':num'')) \<le> length (zset db (b @ '':den''))"
proof -
  have d: "distinct (map fst (zset db (b @ '':num'')))" "distinct (map fst (zset db (b @ '':den'')))"
      "map_of (zset db (b @ '':num'')) \<subseteq>\<^sub>m map_of (zset db (b @ '':den''))"
    using assms by (simp_all add: sets_paired_def)
  from map_le_implies_dom_le [OF d(3)] have "fst ` set (zset db (b @ '':num'')) \<subseteq> fst ` set (zset db (b @ '':den''))"
    by (simp add: dom_map_of_conv_image_fst)
  then have "card (set (map fst (zset db (b @ '':num'')))) \<le> card (set (map fst (zset db (b @ '':den''))))"
    by (intro card_mono) simp_all
  then show ?thesis using d(1,2) by (simp only: distinct_card length_map)
qed

lemma rolling_rates_ok:
  assumes "slo_ok prev U db" "rolling_rates t s cfg now ws db = (cs, db')"
  shows "slo_ok prev U db' \<and> list_all rate_in_range cs"
  using assms
proof (induction ws arbitrary: db cs)
  case (Cons w ws)
  define db1 where "db1 = (let base = slo_base t s ''rolling'' w; cutoff = now - get_window_seconds w
    in zevict (base @ '':num'') cutoff (zevict (base @ '':den'') cutoff db))"
  have ok: "slo_ok prev U db1" using Cons.prems(1) zevict_sets num_in_steps(4) by (simp add: db1_def slo_ok_def Let_def)
  obtain rest db2 where r: "rolling_rates t s cfg now ws db1 = (rest, db2)" by fastforce
  have "cs = compliance t s cfg db1 w ''rolling'' (rate s (length (zset db1 (slo_base t s ''rolling'' w @ '':num'')))
       (length (zset db1 (slo_base t s ''rolling'' w @ '':den'')))) # rest" "db' = db2"
    using Cons.prems(2) r unfolding db1_def rolling_rates.simps Let_def by simp_all
  note this r
  with Cons.IH [OF ok] rate_bounds paired_lengths_le ok show ?case
    by (simp add: rate_in_range_def compliance_def slo_ok_def)
qed simp

lemma rolling_p95_ok:
  assumes "slo_ok prev U db" "rolling_p95 t ''p95_latency_ms'' cfg now ws db = (cs, db')"
  shows "slo_ok prev U db' \<and> list_all rate_in_range cs"
  using assms
proof (induction ws arbitrary: db cs)
  case (Cons w ws)
  define db1 where "db1 = zevict (slo_base t ''p95_latency_ms'' ''rolling'' w @ '':latencies'') (now - get_window_seconds w) db"
  have ok: "slo_ok prev U db1" unfolding db1_def by (rule latency_step_ok(2) [OF Cons.prems(1)])
  obtain rest db2 where r: "rolling_p95 t ''p95_latency_ms'' cfg now ws db1 = (rest, db2)" by fastforce
  have "list_all rate_in_range cs = list_all rate_in_range rest" "db' = db2"
    using Cons.prems(2) r unfolding db1_def rolling_p95.simps Let_def by (auto simp: rate_in_range_def compliance_def)
  with Cons.IH [OF ok] r show ?case by simp
qed simp

lemma compute_slo_ok:
  assumes "slo_ok prev U db" "compute_slo t mo s cfg db = (cs, db')"
  shows "slo_ok prev U db' \<and> list_all rate_in_range cs"
proof (cases "s = ''p95_latency_ms''")
  case True
  with assms rolling_p95_ok [OF assms(1), of t cfg "mo_now mo" "window_rolling cfg"] show ?thesis
    by (auto simp: compute_slo_def fixed_p95_def rate_in_range_def compliance_def split: prod.splits if_splits)
next
  case False
  with assms rolling_rates_ok [OF assms(1), of t s cfg "mo_now mo" "window_rolling cfg"] paired_counts_le rate_bounds show ?thesis
    by (auto simp: compute_slo_def fixed_rate_def rate_in_range_def compliance_def Let_def split: prod.splits if_splits)
qed

lemma compute_slos_ok:
  assumes "slo_ok prev U db" "compute_slos targets t mo ss db = (cs, db')"
  shows "slo_ok prev U db' \<and> list_all rate_in_range cs"
  using assms
proof (induction ss arbitrary: db cs)
  case (Cons s ss)
  show ?case
  proof (cases "map_of targets s")
    case (Some cfg)
    obtain c1 db1 rest where "compute_slo t mo s cfg db = (c1, db1)" "compute_slos targets t mo ss db1 = (rest, db')" "cs = c1 @ rest"
      using Cons.prems(2) Some by (auto split: prod.splits)
    with Cons.IH compute_slo_ok [OF Cons.prems(1)] show ?thesis by fastforce
  qed (use Cons in simp)
qed simp

lemma compute_compliance_ok:
  assumes "slo_ok prev U db" "compute_compliance targets t mo name db = (cs, db')"
  shows "slo_ok prev U db' \<and> list_all rate_in_range cs"
  using compute_slos_ok [OF purge_ok [OF assms(1)]] assms(2) unfolding compute_compliance_def by blast

subsection \<open>The breach detector\<close>

record breach_event =
  be_id :: string
  be_slo :: string
  be_target :: rat
  be_current :: rat
  be_window_type :: string
  be_window_key :: string
  be_tenant :: string
  be_detected_at :: rat

definition cooling_down :: "rat \<Rightarrow> rat \<Rightarrow> rat option \<Rightarrow> bool" where
  "cooling_down cooldown now raw = (case raw of None \<Rightarrow> False | Some prev \<Rightarrow> now - prev < cooldown)"

text \<open>
  The commands of an evaluation on one window: the last breach is read, and written when an alarm is due.
\<close>

definition breach_due :: "rat \<Rightarrow> string \<Rightarrow> rat \<Rightarrow> slo_compliance \<Rightarrow> slo_db \<Rightarrow> bool" where
  "breach_due cooldown t now c db \<longleftrightarrow>
     \<not> cp_compliant c \<and> \<not> cooling_down cooldown now (map_of (sd_breach db) (breach_key t (cp_slo c) (cp_window_type c)))"

definition note_breach :: "string \<Rightarrow> rat \<Rightarrow> slo_compliance \<Rightarrow> slo_db \<Rightarrow> slo_db" where
  "note_breach t now c db = db\<lparr>sd_breach := AList.update (breach_key t (cp_slo c) (cp_window_type c)) now (sd_breach db)\<rparr>"

definition breach_of :: "string \<Rightarrow> rat \<Rightarrow> string \<Rightarrow> slo_compliance \<Rightarrow> breach_event" where
  "breach_of t now i c =
     \<lparr>be_id = i, be_slo = cp_slo c, be_target = cp_target c, be_current = cp_current c,
      be_window_type = cp_window_type c, be_window_key = cp_window_key c, be_tenant = t, be_detected_at = now\<rparr>"

text \<open>The events are logged and posted in the background, in the order in which they are returned.\<close>

fun evaluate_breaches :: "rat \<Rightarrow> string \<Rightarrow> rat \<Rightarrow> (nat \<Rightarrow> string) \<Rightarrow> slo_compliance list \<Rightarrow> slo_db \<Rightarrow> breach_event list \<times> slo_db" where
  "evaluate_breaches cooldown t now ids [] db = ([], db)"
| "evaluate_breaches cooldown t now ids (c # cs) db =
     (if \<not> breach_due cooldown t now c db then evaluate_breaches cooldown t now ids cs db
      else let (es, db1) = evaluate_breaches cooldown t now (\<lambda>n. ids (n + 1)) cs (note_breach t now c db)
           in (breach_of t now (ids 0) c # es, db1))"

definition evaluate_slos ::
  "(string, slo_config) dict \<Rightarrow> rat \<Rightarrow> string \<Rightarrow> moment \<Rightarrow> (nat \<Rightarrow> string) \<Rightarrow> slo_db \<Rightarrow> breach_event list \<times> slo_db" where
  "evaluate_slos targets cooldown t mo ids db =
     (let (comps, db1) = compute_compliance targets t mo None db
      in evaluate_breaches cooldown t (mo_now mo) ids comps db1)"

lemma compute_keeps_breaches: "sd_breach (snd (compute_compliance targets t mo name db)) = sd_breach db"
proof -
  have rates: "sd_breach (snd (rolling_rates t s cfg now ws d)) = sd_breach d" for s cfg now ws d
    by (induction ws arbitrary: d) (simp_all add: Let_def case_prod_beta')
  have p95: "sd_breach (snd (rolling_p95 t s cfg now ws d)) = sd_breach d" for s cfg now ws d
    by (induction ws arbitrary: d) (simp_all add: Let_def case_prod_beta')
  have "sd_breach (snd (compute_slos targets t mo ss d)) = sd_breach d" for ss d
    by (induction ss arbitrary: d) (simp_all add: Let_def case_prod_beta' compute_slo_def rates p95 split: option.splits)
  then show ?thesis by (simp add: compute_compliance_def purge_expired_keys_def)
qed

definition event_key :: "breach_event \<Rightarrow> string" where
  "event_key e = breach_key (be_tenant e) (be_slo e) (be_window_type e)"

text \<open>
  The rule that keeps alarms apart: an event comes a cooldown after the last breach noted under its key,
  and is noted itself.
\<close>

lemma evaluate_breaches_spaced:
  assumes "evaluate_breaches cooldown t now ids cs db = (es, db')"
  shows "(\<forall>e \<in> set es. be_detected_at e = now \<and> (\<forall>l. map_of (sd_breach db) (event_key e) = Some l \<longrightarrow> cooldown \<le> now - l))
    \<and> sorted_wrt (\<lambda>e1 e2. event_key e1 = event_key e2 \<longrightarrow> cooldown \<le> be_detected_at e2 - be_detected_at e1) es
    \<and> (\<forall>k. map_of (sd_breach db') k = (if \<exists>e \<in> set es. event_key e = k then Some now else map_of (sd_breach db) k))"
  using assms
proof (induction cs arbitrary: ids db es)
  case (Cons c cs)
  define k where "k = breach_key t (cp_slo c) (cp_window_type c)"
  show ?case
  proof (cases "breach_due cooldown t now c db")
    case False
    with Cons show ?thesis by auto
  next
    case True
    define e where "e = breach_of t now (ids 0) c"
    define db1 where "db1 = note_breach t now c db"
    obtain es' db2 where r: "evaluate_breaches cooldown t now (\<lambda>n. ids (n + 1)) cs db1 = (es', db2)" by fastforce
    have es: "es = e # es'" "db' = db2" "event_key e = k" "be_detected_at e = now"
      using Cons.prems True r by (simp_all add: k_def db1_def [symmetric] e_def event_key_def breach_of_def)
    have noted: "map_of (sd_breach db1) x = (if x = k then Some now else map_of (sd_breach db) x)" for x
      by (simp add: db1_def note_breach_def k_def map_of_update)
    have own: "cooldown \<le> now - l" if "map_of (sd_breach db) k = Some l" for l
      using True that by (simp add: breach_due_def k_def [symmetric] cooling_down_def)
    note ih = Cons.IH [OF r [folded es(2)]]
    have "cooldown \<le> now - l" if "e' \<in> set es'" "map_of (sd_breach db) (event_key e') = Some l" for e' l
    proof (cases "event_key e' = k")
      case True
      with that(2) own show ?thesis by simp
    next
      case False
      then have "map_of (sd_breach db1) (event_key e') = Some l" using that(2) noted by simp
      with ih that(1) show ?thesis by blast
    qed
    moreover have "cooldown \<le> be_detected_at e' - be_detected_at e" if "e' \<in> set es'" "event_key e' = k" for e'
      using ih that noted es(4) by fastforce
    ultimately show ?thesis unfolding es(1) using es(3,4) own noted ih by (auto split: if_splits)
  qed
qed simp

subsection \<open>Runs\<close>

datatype slo_op =
    RecordEvent moment string string bool string
  | RecordLatency moment string int string
  | EvaluateSlos moment string

fun op_moment :: "slo_op \<Rightarrow> moment" where
  "op_moment (RecordEvent mo _ _ _ _) = mo"
| "op_moment (RecordLatency mo _ _ _) = mo"
| "op_moment (EvaluateSlos mo _) = mo"

fun event_ids :: "slo_op list \<Rightarrow> string list" where
  "event_ids [] = []"
| "event_ids (RecordEvent _ _ _ _ m # ops) = m # event_ids ops"
| "event_ids (_ # ops) = event_ids ops"

fun slo_step :: "(string, slo_config) dict \<Rightarrow> rat \<Rightarrow> slo_op \<Rightarrow> slo_db \<Rightarrow> breach_event list \<times> slo_db" where
  "slo_step targets cooldown (RecordEvent mo t s success m) db = ([], record_event targets mo t s success m db)"
| "slo_step targets cooldown (RecordLatency mo t ms uuid) db = ([], record_latency targets mo t ms uuid db)"
| "slo_step targets cooldown (EvaluateSlos mo t) db = evaluate_slos targets cooldown t mo (\<lambda>_. []) db"

fun slo_run :: "(string, slo_config) dict \<Rightarrow> rat \<Rightarrow> slo_op list \<Rightarrow> slo_db \<Rightarrow> breach_event list \<times> slo_db" where
  "slo_run targets cooldown [] db = ([], db)"
| "slo_run targets cooldown (p # ops) db =
     (let (es, db1) = slo_step targets cooldown p db; (es', db2) = slo_run targets cooldown ops db1 in (es @ es', db2))"

lemma recording_keeps_breaches:
  "sd_breach (record_event targets mo t s success m db) = sd_breach db"
  "sd_breach (record_latency targets mo t ms uuid db) = sd_breach db"
proof -
  have "sd_breach (foldl (roll_event t s m now success) d ws) = sd_breach d" for now d ws
    by (induction ws arbitrary: d) (simp_all add: roll_event_def Let_def)
  moreover have "sd_breach (count_event x b success d) = sd_breach d" for x b d by (simp add: count_event_def Let_def)
  ultimately show "sd_breach (record_event targets mo t s success m db) = sd_breach db"
    by (simp add: record_event_def Let_def purge_expired_keys_def split: option.splits)
  have "sd_breach (foldl (\<lambda>d w. let k = slo_base t s ''rolling'' w @ '':latencies''
        in zevict k (now - get_window_seconds w) (zadd k m now d)) d ws) = sd_breach d" for now s m d ws
    by (induction ws arbitrary: d) (simp_all add: Let_def)
  then show "sd_breach (record_latency targets mo t ms uuid db) = sd_breach db"
    by (simp add: record_latency_def Let_def purge_expired_keys_def split: option.splits)
qed

lemma slo_step_spaced:
  assumes "slo_step targets cooldown p db = (es, db')"
  shows "(\<forall>e \<in> set es. be_detected_at e = mo_now (op_moment p)
        \<and> (\<forall>l. map_of (sd_breach db) (event_key e) = Some l \<longrightarrow> cooldown \<le> mo_now (op_moment p) - l))
    \<and> sorted_wrt (\<lambda>e1 e2. event_key e1 = event_key e2 \<longrightarrow> cooldown \<le> be_detected_at e2 - be_detected_at e1) es
    \<and> (\<forall>k. map_of (sd_breach db') k = (if \<exists>e \<in> set es. event_key e = k then Some (mo_now (op_moment p)) else map_of (sd_breach db) k))"
proof (cases p)
  case (EvaluateSlos mo t)
  obtain comps db1 where c: "compute_compliance targets t mo None db = (comps, db1)" by fastforce
  then have "evaluate_breaches cooldown t (mo_now mo) (\<lambda>_. []) comps db1 = (es, db')"
    using assms by (simp add: EvaluateSlos evaluate_slos_def)
  note evaluate_breaches_spaced [OF this]
  moreover have "sd_breach db1 = sd_breach db" using compute_keeps_breaches [of targets t mo None db] by (simp add: c)
  ultimately show ?thesis by (simp add: EvaluateSlos)
qed (use assms recording_keeps_breaches in auto)

lemma slo_run_after:
  assumes "0 \<le> cooldown" "e \<in> set (fst (slo_run targets cooldown ops db))" "map_of (sd_breach db) (event_key e) = Some l"
  shows "l + cooldown \<le> be_detected_at e"
  using assms(2,3)
proof (induction ops arbitrary: db l)
  case (Cons p ops)
  obtain es db1 where r: "slo_step targets cooldown p db = (es, db1)" by fastforce
  note sp = slo_step_spaced [OF r]
  show ?case
  proof (cases "e \<in> set es")
    case True
    with sp Cons.prems(2) show ?thesis by fastforce
  next
    case False
    then have e: "e \<in> set (fst (slo_run targets cooldown ops db1))" using Cons.prems(1) r by (auto split: prod.splits)
    show ?thesis
    proof (cases "\<exists>e' \<in> set es. event_key e' = event_key e")
      case True
      then have "map_of (sd_breach db1) (event_key e) = Some (mo_now (op_moment p))" "cooldown \<le> mo_now (op_moment p) - l"
        using sp Cons.prems(2) by fastforce+
      with Cons.IH [OF e] assms(1) show ?thesis by fastforce
    next
      case False
      then have "map_of (sd_breach db1) (event_key e) = Some l" using sp Cons.prems(2) by simp
      then show ?thesis by (rule Cons.IH [OF e])
    qed
  qed
qed simp

lemma slo_run_spaced:
  assumes "0 \<le> cooldown"
  shows "sorted_wrt (\<lambda>e1 e2. event_key e1 = event_key e2 \<longrightarrow> cooldown \<le> be_detected_at e2 - be_detected_at e1)
    (fst (slo_run targets cooldown ops db))"
proof (induction ops arbitrary: db)
  case (Cons p ops)
  obtain es db1 where r: "slo_step targets cooldown p db = (es, db1)" by fastforce
  note sp = slo_step_spaced [OF r]
  have "cooldown \<le> be_detected_at e2 - be_detected_at e1"
    if "e1 \<in> set es" "e2 \<in> set (fst (slo_run targets cooldown ops db1))" "event_key e1 = event_key e2" for e1 e2
  proof -
    have "map_of (sd_breach db1) (event_key e2) = Some (mo_now (op_moment p))" "be_detected_at e1 = mo_now (op_moment p)"
      using sp that by auto
    with slo_run_after [OF assms that(2)] show ?thesis by fastforce
  qed
  with Cons.IH [of db1] sp show ?case by (simp add: r sorted_wrt_append case_prod_beta' Let_def)
qed simp

lemma evaluate_breaches_ok:
  assumes "slo_ok prev U db" "evaluate_breaches cooldown t now ids cs db = (es, db')"
  shows "slo_ok prev U db'"
  using assms
proof (induction cs arbitrary: ids db es)
  case (Cons c cs)
  have "zset (db\<lparr>sd_breach := v\<rparr>) k = zset db k" "zset_deadline (db\<lparr>sd_breach := v\<rparr>) k = zset_deadline db k" for v k
    by (simp_all add: zset_def zset_deadline_def)
  then have "slo_ok prev U (db\<lparr>sd_breach := v\<rparr>)" for v
    using Cons.prems(1) by (simp add: slo_ok_def sets_paired_def num_in_def)
  then have "slo_ok prev U (note_breach t now c db)" by (simp add: note_breach_def)
  with Cons show ?case by (auto simp: Let_def split: if_splits prod.splits)
qed simp

text \<open>
  Evaluations that overlap: both read the last breach before either writes it, and both raise an alarm of
  the same tenant, objective and window, however near to each other they are.
\<close>

lemma breach_race:
  assumes "\<not> cp_compliant c" "map_of (sd_breach db) (breach_key t (cp_slo c) (cp_window_type c)) = None"
  shows "breach_due cooldown t now1 c db" "breach_due cooldown t now2 c db"
    "event_key (breach_of t now1 i c) = event_key (breach_of t now2 j c)"
    "be_detected_at (breach_of t now1 i c) = now1" "be_detected_at (breach_of t now2 j c) = now2"
  using assms by (simp_all add: breach_due_def cooling_down_def breach_of_def event_key_def)

text \<open>
  The denominator of a rate is read before its numerator: successes counted between the two reads raise
  the rate, without a bound of a hundred.
\<close>

lemma rate_race:
  assumes "read_count db (base @ '':den'') = 1" "read_count db (base @ '':num'') = 1"
  shows "rate s (read_count (count_event d base True db) (base @ '':num'')) (read_count db (base @ '':den'')) = 200"
  using assms by (simp add: rate_def count_event_def Let_def incr_expire_def read_count_def map_of_update)

fun new_ids :: "slo_op \<Rightarrow> string set" where
  "new_ids (RecordEvent _ _ _ _ m) = {m}"
| "new_ids _ = {}"

lemma slo_step_ok:
  assumes "slo_ok prev U db" "prev \<le> mo_now (op_moment p)" "CHR '':'' \<notin> set (mo_day (op_moment p)) \<union> set (mo_month (op_moment p))"
    and "new_ids p \<inter> U = {}" "slo_step targets cooldown p db = (es, db')"
  shows "slo_ok (mo_now (op_moment p)) (U \<union> new_ids p) db'"
proof (cases p)
  case (RecordEvent mo t s success m)
  with assms record_event_ok [OF assms(1), of mo m success targets t s] show ?thesis
    by (auto intro: slo_ok_later split: if_splits)
next
  case (RecordLatency mo t ms uuid)
  with assms record_latency_ok [OF assms(1), of mo] show ?thesis by auto
next
  case (EvaluateSlos mo t)
  obtain comps db1 where c: "compute_compliance targets t mo None db = (comps, db1)" by fastforce
  then have "evaluate_breaches cooldown t (mo_now mo) (\<lambda>_. []) comps db1 = (es, db')"
    using assms(5) by (simp add: EvaluateSlos evaluate_slos_def)
  with compute_compliance_ok [OF assms(1) c] evaluate_breaches_ok have "slo_ok prev U db'" by blast
  with assms(2) show ?thesis by (auto intro: slo_ok_later simp: EvaluateSlos)
qed

lemma slo_run_ok:
  assumes "slo_ok prev U db" "sorted (map (\<lambda>p. mo_now (op_moment p)) ops)" "\<forall>p \<in> set ops. prev \<le> mo_now (op_moment p)"
    and "\<forall>p \<in> set ops. CHR '':'' \<notin> set (mo_day (op_moment p)) \<union> set (mo_month (op_moment p))"
    and "distinct (event_ids ops)" "set (event_ids ops) \<inter> U = {}"
  shows "\<exists>prev' U'. slo_ok prev' U' (snd (slo_run targets cooldown ops db))"
  using assms
proof (induction ops arbitrary: prev U db)
  case (Cons p ops)
  obtain es db1 where r: "slo_step targets cooldown p db = (es, db1)" by fastforce
  have ids: "set (event_ids (p # ops)) = new_ids p \<union> set (event_ids ops)" "new_ids p \<inter> set (event_ids ops) = {}"
    "distinct (event_ids ops)"
    using Cons.prems(5) by (cases p; auto)+
  then have "new_ids p \<inter> U = {}" "set (event_ids ops) \<inter> (U \<union> new_ids p) = {}" using Cons.prems(6) by auto
  moreover have "slo_ok (mo_now (op_moment p)) (U \<union> new_ids p) db1"
    using slo_step_ok [OF Cons.prems(1) _ _ calculation(1) r] Cons.prems(3,4) by simp
  ultimately show ?case using Cons.IH [of "mo_now (op_moment p)" "U \<union> new_ids p" db1] Cons.prems ids(3) r
    by (auto split: prod.splits)
qed auto

subsection \<open>The webhook and the dead letter queue\<close>

record webhook_config =
  wh_url :: string
  wh_retry_max :: nat
  wh_backoff_base :: rat
  wh_dlq_max :: int

text \<open>\<open>LRANGE\<close> and \<open>LTRIM\<close> from the head: a negative end counts from the tail.\<close>

definition redis_head :: "int \<Rightarrow> 'a list \<Rightarrow> 'a list" where
  "redis_head stop xs = take (nat ((if stop < 0 then int (length xs) + stop else stop) + 1)) xs"

definition deliver_to_dlq :: "webhook_config \<Rightarrow> 'e \<Rightarrow> 'e list \<Rightarrow> 'e list" where
  "deliver_to_dlq wh ev q = redis_head (wh_dlq_max wh - 1) (ev # q)"

text \<open>The status of an answer, None when the request raised.\<close>

definition accepted_by_hook :: "nat option \<Rightarrow> bool" where
  "accepted_by_hook status = (case status of None \<Rightarrow> False | Some n \<Rightarrow> 200 \<le> n \<and> n < 300)"

text \<open>The attempts left from the given one on, with the waits between them.\<close>

fun post_attempts :: "rat \<Rightarrow> (nat \<Rightarrow> nat option) \<Rightarrow> nat \<Rightarrow> nat \<Rightarrow> bool \<times> rat list" where
  "post_attempts backoff outcomes attempt 0 = (False, [])"
| "post_attempts backoff outcomes attempt (Suc n) =
     (if accepted_by_hook (outcomes attempt) then (True, [])
      else let (ok, waits) = post_attempts backoff outcomes (attempt + 1) n
           in (ok, if n = 0 then waits else backoff * 2 ^ attempt # waits))"

definition fire_webhook :: "webhook_config \<Rightarrow> (nat \<Rightarrow> nat option) \<Rightarrow> 'e \<Rightarrow> 'e list \<Rightarrow> bool \<times> 'e list" where
  "fire_webhook wh outcomes ev q =
     (if wh_url wh = [] then (False, deliver_to_dlq wh ev q)
      else if fst (post_attempts (wh_backoff_base wh) outcomes 0 (wh_retry_max wh)) then (True, q)
      else (False, deliver_to_dlq wh ev q))"

definition fire_webhook_directly :: "webhook_config \<Rightarrow> nat option \<Rightarrow> bool" where
  "fire_webhook_directly wh outcome \<longleftrightarrow> wh_url wh \<noteq> [] \<and> accepted_by_hook outcome"

definition get_dlq_entries :: "int \<Rightarrow> 'e list \<Rightarrow> 'e list" where
  "get_dlq_entries n q = redis_head (n - 1) q"

definition ack_dlq_entry :: "string \<Rightarrow> breach_event list \<Rightarrow> breach_event list" where
  "ack_dlq_entry i q = (case find (\<lambda>e. be_id e = i) q of None \<Rightarrow> q | Some raw \<Rightarrow> filter (\<lambda>e. e \<noteq> raw) q)"

text \<open>The entries read at the start are posted one after the other; \<open>LREM\<close> removes every copy.\<close>

fun retry_dlq :: "webhook_config \<Rightarrow> ('e \<Rightarrow> nat option) \<Rightarrow> 'e list \<Rightarrow> 'e list \<Rightarrow> nat \<times> 'e list" where
  "retry_dlq wh outcome [] q = (0, q)"
| "retry_dlq wh outcome (raw # rest) q =
     (if fire_webhook_directly wh (outcome raw)
      then let (n, q1) = retry_dlq wh outcome rest (filter (\<lambda>e. e \<noteq> raw) q) in (n + 1, q1)
      else retry_dlq wh outcome rest q)"

lemma post_attempts_iff:
  "fst (post_attempts backoff outcomes a n) \<longleftrightarrow> (\<exists>i < n. accepted_by_hook (outcomes (a + i)))"
proof (induction n arbitrary: a)
  case (Suc n)
  have "(\<exists>i < Suc n. accepted_by_hook (outcomes (a + i)))
      \<longleftrightarrow> accepted_by_hook (outcomes a) \<or> (\<exists>i < n. accepted_by_hook (outcomes (a + 1 + i)))"
    by (auto simp: less_Suc_eq_0_disj)
  moreover have "fst (post_attempts backoff outcomes a (Suc n))
      \<longleftrightarrow> accepted_by_hook (outcomes a) \<or> fst (post_attempts backoff outcomes (a + 1) n)"
    by (simp add: case_prod_beta' Let_def)
  ultimately show ?case using Suc.IH by blast
qed simp

lemma waits_between: "\<not> fst (post_attempts backoff outcomes a n) \<Longrightarrow>
    snd (post_attempts backoff outcomes a n) = map (\<lambda>i. backoff * 2 ^ (a + i)) [0..<n - 1]"
proof (induction n arbitrary: a)
  case (Suc n)
  then have no: "\<not> accepted_by_hook (outcomes a)" "\<not> fst (post_attempts backoff outcomes (a + 1) n)"
    by (auto split: prod.splits if_splits simp: Let_def)
  show ?case
  proof (cases n)
    case (Suc m)
    have "map (\<lambda>i. backoff * 2 ^ (a + i)) [0..<Suc m] = backoff * 2 ^ a # map (\<lambda>i. backoff * 2 ^ (a + 1 + i)) [0..<m]"
      by (simp add: upt_rec [of 0 "Suc m"] map_Suc_upt [symmetric] del: upt_Suc)
    with Suc.IH [OF no(2)] no(1) Suc show ?thesis by (auto split: prod.splits simp: Let_def)
  qed (use no in simp)
qed simp

lemma fire_webhook_outcome:
  "fst (fire_webhook wh outcomes ev q) \<longleftrightarrow> wh_url wh \<noteq> [] \<and> (\<exists>i < wh_retry_max wh. accepted_by_hook (outcomes i))"
  "snd (fire_webhook wh outcomes ev q) = (if fst (fire_webhook wh outcomes ev q) then q else deliver_to_dlq wh ev q)"
  by (simp_all add: fire_webhook_def post_attempts_iff)

lemma dlq_newest:
  assumes "0 < wh_dlq_max wh"
  shows "foldl (\<lambda>q e. deliver_to_dlq wh e q) [] es = take (nat (wh_dlq_max wh)) (rev es)"
proof (induction es rule: rev_induct)
  case (snoc e es)
  obtain m where "nat (wh_dlq_max wh) = Suc m" using assms by (metis gr0_implies_Suc zero_less_nat_eq)
  moreover have "nat (wh_dlq_max wh - 1 + 1) = nat (wh_dlq_max wh)" by simp
  ultimately show ?case using snoc assms by (simp add: deliver_to_dlq_def redis_head_def min_def)
qed simp

lemma retry_dlq_keeps_undelivered:
  "set (snd (retry_dlq wh outcome raws q)) = set q - {e \<in> set raws. fire_webhook_directly wh (outcome e)}"
proof (induction raws arbitrary: q)
  case (Cons raw raws)
  have "snd (retry_dlq wh outcome (raw # raws) q) =
      snd (retry_dlq wh outcome raws (if fire_webhook_directly wh (outcome raw) then filter (\<lambda>e. e \<noteq> raw) q else q))"
    by (simp add: case_prod_beta' Let_def)
  with Cons.IH show ?case by auto
qed simp

text \<open>A limit of zero is no limit: the end -1 is the whole list.\<close>

lemma zero_limit_keeps_all: "wh_dlq_max wh = 0 \<Longrightarrow> deliver_to_dlq wh e q = e # q"
  by (simp add: deliver_to_dlq_def redis_head_def)

text \<open>A rolling window whose name is not known evicts what it has just recorded, so it always complies.\<close>

lemma unknown_window_forgets:
  assumes "get_window_seconds w = 0" "distinct (map fst (zset db (slo_base t s ''rolling'' w @ '':den'')))"
    and "\<forall>e \<in> set (zset db (slo_base t s ''rolling'' w @ '':den'')). snd e \<le> now"
  shows "zset (roll_event t s m now False db w) (slo_base t s ''rolling'' w @ '':den'') = []"
proof -
  define xs where "xs = zset db (slo_base t s ''rolling'' w @ '':den'')"
  have "\<forall>e \<in> set (AList.update m now xs). snd e \<le> now"
    using assms(3) unfolding xs_def [symmetric] by (induction xs) auto
  then show ?thesis using assms(1) by (simp add: roll_event_def Let_def xs_def [symmetric] filter_empty_conv) force
qed

subsection \<open>Properties\<close>

text \<open>C37. after any operations in the order of time, with fresh event identifiers, every rate that the
  engine reports is a percentage (for calls that do not overlap: see \<open>rate_race\<close>).
\<close>

theorem rates_within_bounds:
  assumes "sorted (map (\<lambda>p. mo_now (op_moment p)) ops)" "distinct (event_ids ops)"
    and "\<forall>p \<in> set ops. CHR '':'' \<notin> set (mo_day (op_moment p)) \<union> set (mo_month (op_moment p))"
  shows "list_all (\<lambda>c. if cp_slo c = ''p95_latency_ms'' then True else 0 \<le> cp_current c \<and> cp_current c \<le> 100)
     (fst (compute_compliance targets t mo name (snd (slo_run targets cooldown ops empty_slo_db))))"
proof -
  define t0 where "t0 = (if ops = [] then 0 else mo_now (op_moment (hd ops)))"
  have "\<forall>p \<in> set ops. t0 \<le> mo_now (op_moment p)" using assms(1) by (cases ops) (auto simp: t0_def)
  then obtain prev U where "slo_ok prev U (snd (slo_run targets cooldown ops empty_slo_db))"
    using slo_run_ok [OF slo_ok_empty [of t0 "{}"] assms(1) _ assms(3,2), of targets cooldown] by auto
  from compute_compliance_ok [OF this surjective_pairing] show ?thesis unfolding rate_in_range_def by blast
qed

definition sample_slo_ops :: "slo_op list" where
  "sample_slo_ops =
     (let mo = (\<lambda>n. \<lparr>mo_now = n, mo_day = ''2026-07-03'', mo_month = ''2026-07''\<rparr>)
      in [RecordEvent (mo 10) ''acme'' ''success_rate'' True ''e1'', RecordEvent (mo 20) ''acme'' ''success_rate'' False ''e2'',
          EvaluateSlos (mo 30) ''acme'', RecordLatency (mo 40) ''acme'' 250 ''e3'', EvaluateSlos (mo 50) ''acme'',
          EvaluateSlos (mo 700) ''acme''])"

lemma sample_slo_ops_fit:
  "sorted (map (\<lambda>p. mo_now (op_moment p)) sample_slo_ops)" "distinct (event_ids sample_slo_ops)"
  "list_all (\<lambda>p. CHR '':'' \<notin> set (mo_day (op_moment p)) \<union> set (mo_month (op_moment p))) sample_slo_ops"
  by (simp_all add: sample_slo_ops_def Let_def)

definition sample_targets :: "(string, slo_config) dict" where
  "sample_targets = [(''success_rate'', \<lparr>sc_target = 99, window_fixed = [''daily''], window_rolling = [''24h'']\<rparr>)]"

theorem rates_within_bounds_witness:
  "list_all (\<lambda>c. if cp_slo c = ''p95_latency_ms'' then True else 0 \<le> cp_current c \<and> cp_current c \<le> 100)
     (fst (compute_compliance sample_targets ''acme'' \<lparr>mo_now = 60, mo_day = ''2026-07-03'', mo_month = ''2026-07''\<rparr> None
            (snd (slo_run sample_targets 300 sample_slo_ops empty_slo_db))))"
  by (rule rates_within_bounds [OF sample_slo_ops_fit(1,2)]) (use sample_slo_ops_fit(3) in \<open>simp add: list_all_iff\<close>)

text \<open>C38. in any run of records and evaluations that do not overlap, two alarms with the same tenant, the
  same objective and the same window are at least the cooldown apart; alarms of one objective over
  different windows are not, and evaluations that overlap break it (\<open>breach_race\<close>).
\<close>

theorem alarms_keep_cooldown:
  assumes "0 \<le> cooldown"
  shows "sorted_wrt (\<lambda>e1 e2. if be_tenant e1 = be_tenant e2 \<and> be_slo e1 = be_slo e2 \<and> be_window_type e1 = be_window_type e2
            then cooldown \<le> be_detected_at e2 - be_detected_at e1 else True)
     (fst (slo_run targets cooldown ops db))"
  by (rule sorted_wrt_mono_rel [OF _ slo_run_spaced [OF assms]]) (simp add: event_key_def)

theorem alarms_keep_cooldown_witness:
  "sorted_wrt (\<lambda>e1 e2. if be_tenant e1 = be_tenant e2 \<and> be_slo e1 = be_slo e2 \<and> be_window_type e1 = be_window_type e2
            then 300 \<le> be_detected_at e2 - be_detected_at e1 else True)
     (fst (slo_run sample_targets 300 sample_slo_ops empty_slo_db))"
  by (rule alarms_keep_cooldown) simp

lemma sample_alarms:
  "let c = (\<lambda>ok. \<lparr>cp_slo = ''success_rate'', cp_target = 99, cp_current = 50, cp_compliant = ok, cp_window_type = ''24h'',
                 cp_window_key = ''rolling'', cp_last_breach = None\<rparr>);
       (es1, db1) = evaluate_breaches 300 ''acme'' 30 (\<lambda>_. ''b1'') [c False, c True] empty_slo_db;
       (es2, db2) = evaluate_breaches 300 ''acme'' 50 (\<lambda>_. ''b2'') [c False] db1;
       (es3, db3) = evaluate_breaches 300 ''acme'' 700 (\<lambda>_. ''b3'') [c False] db2
   in (map be_id es1, map be_id es2, map be_id es3) = ([''b1''], [], [''b3''])"
  by (simp add: Let_def empty_slo_db_def cooling_down_def breach_due_def note_breach_def breach_of_def)

end
