(* ===== verification/Incidents.thy ===== *)
theory Incidents
  imports Workflows PyText Tools
begin

text \<open>
  What the gateway does when something has gone wrong: breach notification templates and their rendering
  (\<open>breach/templates.py\<close>), the notifier with its tables (\<open>breach/notifications.py\<close>), the life of a breach
  notice (\<open>services/breach.py\<close>), incidents and their severity (\<open>governance/incidents.py\<close>,
  \<open>incidents/classification.py\<close>), the approval queue and kill switch (\<open>services/oversight.py\<close>) and the
  dispatch of governance events (\<open>services/notifications.py\<close>). Identifiers, clock readings and the
  outcome of database and network calls are arguments. A hash of the store is an association list.
\<close>

subsection \<open>Templates\<close>

record breach_template =
  bt_id :: string
  bt_framework :: string
  bt_region :: string
  bt_subject :: string
  bt_body :: string
  bt_language :: string

definition nl :: string where "nl = [CHR 0x0A]"

definition default_templates :: "((string \<times> string \<times> string) \<times> string \<times> string) list" where
  "default_templates =
     [((''gdpr'', ''eu'', ''en''), (''GDPR Breach Notification - {{tenant_name}}'',
        ''Dear {{recipient_name}},'' @ nl @ nl @
        ''This is a breach notification pursuant to Article 33 '' @
        ''of the General Data Protection Regulation (GDPR).'' @ nl @ nl @
        ''Breach ID: {{breach_id}}'' @ nl @ ''Date: {{date}}'' @ nl @ ''Description: {{description}}'' @ nl @ nl @
        ''Estimated affected data subjects: {{affected_count}}'' @ nl @ ''Mitigation steps: {{mitigation}}'' @ nl @ nl @
        ''This notification is sent in compliance with GDPR '' @ ''Article 33 requirements.'' @ nl @ nl @
        ''Regards,'' @ nl @ ''{{sender_name}}'')),
      ((''gdpr'', ''uk'', ''en''), (''UK DPA Breach Notification - {{tenant_name}}'',
        ''Dear {{recipient_name}},'' @ nl @ nl @
        ''This is a breach notification pursuant to the UK Data '' @ ''Protection Act 2018.'' @ nl @ nl @
        ''Breach ID: {{breach_id}}'' @ nl @ ''Date: {{date}}'' @ nl @ ''Description: {{description}}'' @ nl @ nl @
        ''Estimated affected data subjects: {{affected_count}}'' @ nl @ ''Mitigation steps: {{mitigation}}'' @ nl @ nl @
        ''This notification is sent in compliance with UK DPA '' @ ''requirements.'' @ nl @ nl @
        ''Regards,'' @ nl @ ''{{sender_name}}'')),
      ((''dora'', ''eu'', ''en''), (''DORA ICT Incident Notification - {{tenant_name}}'',
        ''Dear {{recipient_name}},'' @ nl @ nl @
        ''This is an ICT incident notification pursuant to '' @ ''Regulation (EU) 2022/2554 (DORA).'' @ nl @ nl @
        ''Breach ID: {{breach_id}}'' @ nl @ ''Date: {{date}}'' @ nl @ ''Incident description: {{description}}'' @ nl @
        ''Classification: {{classification}}'' @ nl @ ''Affected services: {{affected_services}}'' @ nl @ nl @
        ''Estimated impact: {{impact_description}}'' @ nl @ ''Mitigation steps: {{mitigation}}'' @ nl @ nl @
        ''This notification is sent in compliance with DORA '' @ ''Article 19 requirements.'' @ nl @ nl @
        ''Regards,'' @ nl @ ''{{sender_name}}''))]"

definition REQUIRED_VARIABLES :: "string list" where
  "REQUIRED_VARIABLES = [''recipient_name'', ''tenant_name'', ''breach_id'', ''date'', ''description'', ''sender_name'']"

definition template_key :: "string \<Rightarrow> string \<Rightarrow> string \<Rightarrow> string" where
  "template_key framework region language = framework @ '':'' @ region @ '':'' @ language"

definition get_template :: "(string, breach_template) dict \<Rightarrow> string \<Rightarrow> string \<Rightarrow> string \<Rightarrow> breach_template py_result" where
  "get_template custom framework region language =
     (case map_of custom (template_key framework region language) of
        Some t \<Rightarrow> Inr t
      | None \<Rightarrow>
          (case map_of default_templates (framework, region, language) of
             None \<Rightarrow> Inl ValueError
           | Some (subj, body) \<Rightarrow>
               Inr \<lparr>bt_id = framework @ ''-'' @ region @ ''-'' @ language, bt_framework = framework, bt_region = region,
                    bt_subject = subj, bt_body = body, bt_language = language\<rparr>))"

definition set_custom_template ::
  "string \<Rightarrow> string \<Rightarrow> breach_template \<Rightarrow> (string, breach_template) dict \<Rightarrow> (string, breach_template) dict" where
  "set_custom_template framework region t custom = AList.update (template_key framework region (bt_language t)) t custom"

fun custom_entries :: "(string, breach_template) dict \<Rightarrow> (string \<times> string \<times> string \<times> string \<times> bool) list option" where
  "custom_entries [] = Some []"
| "custom_entries ((k, t) # rest) =
     (case (split_on CHR '':'' k, custom_entries rest) of
        ([f, r, l], Some es) \<Rightarrow> Some ((f, r, l, bt_id t, True) # es)
      | _ \<Rightarrow> None)"

text \<open>None is the \<open>ValueError\<close> of a key with more than two colons.\<close>

definition list_available_templates ::
  "(string, breach_template) dict \<Rightarrow> (string \<times> string \<times> string \<times> string \<times> bool) list option" where
  "list_available_templates custom =
     map_option (\<lambda>es. map (\<lambda>((f, r, l), _). (f, r, l, f @ ''-'' @ r @ ''-'' @ l, False)) default_templates @ es) (custom_entries custom)"

subsection \<open>Rendering\<close>

text \<open>\<open>str.replace\<close> for a doubled character.\<close>

fun replace_double :: "char \<Rightarrow> string \<Rightarrow> string \<Rightarrow> string" where
  "replace_double a new (x # y # r) =
     (if x = a \<and> y = a then new @ replace_double a new r else x # replace_double a new (y # r))"
| "replace_double a new s = s"

definition id_start :: "char \<Rightarrow> bool" where
  "id_start c \<longleftrightarrow> c = CHR ''_'' \<or> is_lower c \<or> is_upper c"

definition id_char :: "char \<Rightarrow> bool" where
  "id_char c \<longleftrightarrow> id_start c \<or> is_digit c"

definition variable_text :: "(string, string) dict \<Rightarrow> string \<Rightarrow> string \<Rightarrow> string" where
  "variable_text vars name whole = (case map_of vars name of Some v \<Rightarrow> v | None \<Rightarrow> whole)"

text \<open>\<open>string.Template.safe_substitute\<close>: a doubled dollar, a name, a name in braces, or a lone dollar.\<close>

function safe_substitute :: "(string, string) dict \<Rightarrow> string \<Rightarrow> string" where
  "safe_substitute vars s =
     (case s of
        [] \<Rightarrow> []
      | c # r \<Rightarrow>
          if c \<noteq> CHR ''$'' then c # safe_substitute vars r
          else (case r of
                  [] \<Rightarrow> ''$''
                | d # r' \<Rightarrow>
                    if d = CHR ''$'' then CHR ''$'' # safe_substitute vars r'
                    else if id_start d
                    then variable_text vars (takeWhile id_char r) (CHR ''$'' # takeWhile id_char r)
                         @ safe_substitute vars (dropWhile id_char r)
                    else if d = CHR ''{'' \<and> r' \<noteq> [] \<and> id_start (hd r') \<and> dropWhile id_char r' \<noteq> [] \<and> hd (dropWhile id_char r') = CHR ''}''
                    then variable_text vars (takeWhile id_char r') (''${'' @ takeWhile id_char r' @ ''}'')
                         @ safe_substitute vars (tl (dropWhile id_char r'))
                    else CHR ''$'' # safe_substitute vars r))"
  by pat_completeness auto
termination
proof (relation "measure (\<lambda>(v, s). length s)", goal_cases)
  case (4 vars s c r d r')
  have "length (dropWhile id_char r) \<le> length r" by (rule length_dropWhile_le)
  with 4 show ?case by simp
next
  case (5 vars s c r d r')
  have "length (tl (dropWhile id_char r')) \<le> length r'" using length_dropWhile_le [of id_char r'] by simp
  with 5 show ?case by simp
qed simp_all

declare safe_substitute.simps [simp del]

definition template_text :: "string \<Rightarrow> string" where
  "template_text s = replace_double CHR ''}'' ''}'' (replace_double CHR ''{'' ''${'' s)"

definition render_template :: "breach_template \<Rightarrow> (string, string) dict \<Rightarrow> (string \<times> string) py_result" where
  "render_template t vars =
     (if list_ex (\<lambda>v. map_of vars v = None) REQUIRED_VARIABLES then Inl KeyError
      else Inr (safe_substitute vars (template_text (bt_subject t)), safe_substitute vars (template_text (bt_body t))))"

subsection \<open>Rendering puts each value in its place\<close>

text \<open>A template is text and slots; rendering replaces each slot by its value and leaves a slot without one as \<open>${name}\<close>.\<close>

datatype template_part = Literal string | Slot string

fun part_text :: "template_part \<Rightarrow> string" where
  "part_text (Literal s) = s"
| "part_text (Slot n) = ''{{'' @ n @ ''}}''"

fun part_value :: "(string, string) dict \<Rightarrow> template_part \<Rightarrow> string" where
  "part_value vars (Literal s) = s"
| "part_value vars (Slot n) = variable_text vars n (''${'' @ n @ ''}'')"

fun plain_part :: "template_part \<Rightarrow> bool" where
  "plain_part (Literal s) = list_all (\<lambda>c. c \<noteq> CHR ''{'' \<and> c \<noteq> CHR ''}'' \<and> c \<noteq> CHR ''$'') s"
| "plain_part (Slot n) = (n \<noteq> [] \<and> id_start (hd n) \<and> list_all id_char n)"

lemma replace_double_skip: "a \<notin> set s \<Longrightarrow> replace_double a new (s @ t) = s @ replace_double a new t"
proof (induction s)
  case (Cons x s)
  then show ?case by (cases "s @ t") auto
qed simp

lemma replace_double_hit: "replace_double a new (a # a # t) = new @ replace_double a new t"
  by simp

lemma id_char_plain: "id_char c \<Longrightarrow> c \<noteq> CHR ''{'' \<and> c \<noteq> CHR ''}'' \<and> c \<noteq> CHR ''$''"
  by (auto simp: id_char_def id_start_def is_lower_def is_upper_def is_digit_def)

lemma slot_plain: "plain_part (Slot n) \<Longrightarrow> CHR ''{'' \<notin> set n \<and> CHR ''}'' \<notin> set n"
  using id_char_plain by (auto simp: list_all_iff)

fun half_text :: "template_part \<Rightarrow> string" where
  "half_text (Literal s) = s"
| "half_text (Slot n) = ''${'' @ n @ ''}}''"

fun dollar_text :: "template_part \<Rightarrow> string" where
  "dollar_text (Literal s) = s"
| "dollar_text (Slot n) = ''${'' @ n @ ''}''"

lemma template_text_parts:
  assumes "list_all plain_part ps"
  shows "template_text (concat (map part_text ps)) = concat (map dollar_text ps)"
proof -
  have opened: "replace_double CHR ''{'' ''${'' (concat (map part_text ps))
      = concat (map half_text ps)"
    using assms
  proof (induction ps)
    case (Cons p ps)
    show ?case
    proof (cases p)
      case (Literal s)
      then have "CHR ''{'' \<notin> set s" using Cons.prems by (auto simp: list_all_iff)
      with Cons show ?thesis by (simp add: Literal replace_double_skip)
    next
      case (Slot n)
      then have "CHR ''{'' \<notin> set (n @ ''}}'')" using Cons.prems slot_plain by auto
      from replace_double_skip [OF this] Cons show ?thesis by (simp add: Slot)
    qed
  qed simp
  have "replace_double CHR ''}'' ''}'' (concat (map half_text ps))
      = concat (map dollar_text ps)"
    using assms
  proof (induction ps)
    case (Cons p ps)
    show ?case
    proof (cases p)
      case (Literal s)
      then have "CHR ''}'' \<notin> set s" using Cons.prems by (auto simp: list_all_iff)
      with Cons show ?thesis by (simp add: Literal replace_double_skip)
    next
      case (Slot n)
      then have "CHR ''}'' \<notin> set (''${'' @ n)" using Cons.prems slot_plain by auto
      from replace_double_skip [OF this] Cons show ?thesis by (simp add: Slot)
    qed
  qed simp
  with opened show ?thesis by (simp add: template_text_def)
qed

lemma substitute_literal: "CHR ''$'' \<notin> set s \<Longrightarrow> safe_substitute vars (s @ t) = s @ safe_substitute vars t"
proof (induction s)
  case (Cons c s)
  then have "c \<noteq> CHR ''$''" by auto
  with Cons show ?case by (subst safe_substitute.simps) simp
qed simp

lemma substitute_slot:
  assumes "plain_part (Slot n)"
  shows "safe_substitute vars (''${'' @ n @ ''}'' @ t) = variable_text vars n (''${'' @ n @ ''}'') @ safe_substitute vars t"
proof -
  have "takeWhile id_char (n @ CHR ''}'' # t) = n" "dropWhile id_char (n @ CHR ''}'' # t) = CHR ''}'' # t"
    using assms id_char_plain by (auto simp: list_all_iff takeWhile_append2 dropWhile_append2)
  moreover have "\<not> id_start CHR ''{''" "\<not> id_char CHR ''}''" "\<not> id_start CHR ''$''"
    by (simp_all add: id_start_def id_char_def is_lower_def is_upper_def is_digit_def)
  moreover have "id_start (hd (n @ CHR ''}'' # t))" using assms by simp
  ultimately show ?thesis using assms by (subst safe_substitute.simps) simp
qed

lemma render_parts:
  assumes "list_all plain_part ps"
  shows "safe_substitute vars (template_text (concat (map part_text ps))) = concat (map (part_value vars) ps)"
  unfolding template_text_parts [OF assms] using assms
proof (induction ps)
  case Nil
  show ?case by (simp add: safe_substitute.simps)
next
  case (Cons p ps)
  show ?case
  proof (cases p)
    case (Literal s)
    then have "CHR ''$'' \<notin> set s" using Cons.prems by (auto simp: list_all_iff)
    with Cons show ?thesis by (simp add: Literal substitute_literal)
  next
    case (Slot n)
    with Cons substitute_slot [of n] show ?thesis by simp
  qed
qed

subsection \<open>The notifier\<close>

record notice_row =
  nt_id :: string
  nt_breach :: string
  nt_target_type :: string
  nt_target :: string
  nt_template :: string
  nt_rendered :: "string \<times> string"
  nt_status :: string
  nt_created :: rat

record queue_row =
  qu_id :: string
  qu_regulator :: string
  qu_notice :: string
  qu_status :: string
  qu_priority :: int
  qu_created :: rat

record notice_db =
  nd_rows :: "notice_row list"
  nd_queue :: "queue_row list"

text \<open>
  What happens at an insert: \<open>ne_stored\<close> tells by the target whether the row is stored, else it raised;
  \<open>ne_contacts\<close> is what the governance service knows of a tenant, None if it is missing or raises.
\<close>

record notice_env =
  ne_stored :: "string \<Rightarrow> bool"
  ne_queued :: bool
  ne_contacts :: "string \<Rightarrow> string list option"
  ne_id :: "string \<Rightarrow> string"
  ne_now :: rat
  ne_date :: string

definition default_regulators :: "((string \<times> string) \<times> string \<times> string) list" where
  "default_regulators =
     [((''gdpr'', ''eu''), (''Lead SA (Supervisory Authority)'', ''regulator-gdpr-eu@example.com'')),
      ((''gdpr'', ''uk''), (''ICO (Information Commissioner'' @ [CHR 0x27] @ ''s Office)'', ''regulator-gdpr-uk@example.com'')),
      ((''dora'', ''eu''), (''Competent Authority (DORA)'', ''regulator-dora-eu@example.com''))]"

definition get_regulator_contact :: "string \<Rightarrow> string \<Rightarrow> (string \<times> string) option" where
  "get_regulator_contact framework region = map_of default_regulators (framework, region)"

definition get_tenant_contacts :: "notice_env \<Rightarrow> string \<Rightarrow> string list" where
  "get_tenant_contacts ne tenant =
     (case ne_contacts ne tenant of Some (c # cs) \<Rightarrow> c # cs | _ \<Rightarrow> [''compliance@'' @ tenant @ ''.example.com''])"

definition send_notification ::
  "notice_env \<Rightarrow> (string, breach_template) dict \<Rightarrow> string \<Rightarrow> string \<Rightarrow> string \<Rightarrow> string \<Rightarrow> string \<Rightarrow> (string, string) dict
     \<Rightarrow> notice_db \<Rightarrow> bool \<times> notice_db" where
  "send_notification ne custom breach target_type target framework region vars db =
     (case bind_result (get_template custom framework region ''en'')
             (\<lambda>t. bind_result (render_template t vars) (\<lambda>r. Inr (t, r))) of
        Inl _ \<Rightarrow> (False, db)
      | Inr (t, r) \<Rightarrow>
          if \<not> ne_stored ne target then (False, db)
          else (True, db\<lparr>nd_rows := nd_rows db @
                  [\<lparr>nt_id = ne_id ne target, nt_breach = breach, nt_target_type = target_type, nt_target = target,
                    nt_template = bt_id t, nt_rendered = r, nt_status = ''sent'', nt_created = ne_now ne\<rparr>]\<rparr>))"

definition queue_regulator_notification :: "notice_env \<Rightarrow> string \<Rightarrow> string \<Rightarrow> notice_db \<Rightarrow> notice_db" where
  "queue_regulator_notification ne breach regulator db =
     (if \<not> ne_queued ne then db
      else db\<lparr>nd_queue := nd_queue db @
             [\<lparr>qu_id = ne_id ne regulator, qu_regulator = regulator, qu_notice = breach, qu_status = ''pending'',
               qu_priority = 1, qu_created = ne_now ne\<rparr>]\<rparr>)"

fun notify_contacts ::
  "notice_env \<Rightarrow> (string, breach_template) dict \<Rightarrow> string \<Rightarrow> string \<Rightarrow> string \<Rightarrow> (string, string) dict \<Rightarrow> string list
     \<Rightarrow> notice_db \<Rightarrow> nat \<times> notice_db" where
  "notify_contacts ne custom breach framework region vars [] db = (0, db)"
| "notify_contacts ne custom breach framework region vars (c # cs) db =
     (let (ok, db1) = send_notification ne custom breach ''tenant'' c framework region vars db;
          (n, db2) = notify_contacts ne custom breach framework region vars cs db1
      in ((if ok then n + 1 else n), db2))"

fun notify_tenants ::
  "notice_env \<Rightarrow> (string, breach_template) dict \<Rightarrow> string \<Rightarrow> string \<Rightarrow> string \<Rightarrow> (string, string) dict \<Rightarrow> string list
     \<Rightarrow> notice_db \<Rightarrow> nat \<times> notice_db" where
  "notify_tenants ne custom breach framework region vars [] db = (0, db)"
| "notify_tenants ne custom breach framework region vars (t # ts) db =
     (let tenant_vars = AList.update ''tenant_name'' t (AList.update ''recipient_name'' (''Tenant '' @ t) vars);
          (n, db1) = notify_contacts ne custom breach framework region tenant_vars (get_tenant_contacts ne t) db;
          (m, db2) = notify_tenants ne custom breach framework region vars ts db1
      in (n + m, db2))"

definition breach_variables :: "string \<Rightarrow> string \<Rightarrow> string \<Rightarrow> string \<Rightarrow> string list \<Rightarrow> (string, string) dict" where
  "breach_variables breach date description classification affected =
     [(''breach_id'', breach), (''date'', date), (''description'', description), (''classification'', classification),
      (''sender_name'', ''AnonReq Security Team''), (''recipient_name'', ''Regulator''), (''tenant_name'', ''affected''),
      (''affected_count'', dec (length affected)), (''mitigation'', ''Under investigation'')]"

definition send_breach_notifications ::
  "notice_env \<Rightarrow> (string, breach_template) dict \<Rightarrow> string \<Rightarrow> string \<Rightarrow> string \<Rightarrow> string list \<Rightarrow> (string, string) dict \<Rightarrow> string
     \<Rightarrow> string \<Rightarrow> notice_db \<Rightarrow> (nat \<times> bool) \<times> notice_db" where
  "send_breach_notifications ne custom breach framework description affected variables region classification db =
     (let vars = dict_update (breach_variables breach (ne_date ne) description classification affected) variables;
          (queued, db1) =
            (case get_regulator_contact framework region of
               None \<Rightarrow> (False, db)
             | Some (name, contact) \<Rightarrow>
                 let (ok, d) = send_notification ne custom breach ''regulator'' contact framework region vars db
                 in (ok, queue_regulator_notification ne breach name d));
          (n, db2) = notify_tenants ne custom breach framework region vars affected db1
      in (((if queued then n + 1 else n), queued), db2))"

definition get_notification_queue :: "bool \<Rightarrow> string option \<Rightarrow> notice_db \<Rightarrow> queue_row list" where
  "get_notification_queue readable status db =
     (if \<not> readable then [] else sort_key (\<lambda>r. - qu_priority r) (sort_key qu_created
       (case status of Some (c # cs) \<Rightarrow> filter (\<lambda>r. qu_status r = c # cs) (nd_queue db) | _ \<Rightarrow> nd_queue db)))"

text \<open>\<open>updated\<close> tells by identifier whether the update of a row is committed.\<close>

definition retry_failed_notifications :: "bool \<Rightarrow> (string \<Rightarrow> bool) \<Rightarrow> notice_db \<Rightarrow> nat \<times> notice_db" where
  "retry_failed_notifications readable updated db =
     (if \<not> readable then (0, db)
      else (let again = (\<lambda>r. nt_status r = ''failed'' \<and> updated (nt_id r))
            in (length (filter again (nd_rows db)),
                db\<lparr>nd_rows := map (\<lambda>r. if again r then r\<lparr>nt_status := ''pending''\<rparr> else r) (nd_rows db)\<rparr>)))"

text \<open>
  The routes: each request has a template manager of its own, so no custom template is ever found, and one
  that is set is forgotten with the answer. A missing field is None.
\<close>

definition breach_notify_route ::
  "notice_env \<Rightarrow> string option \<Rightarrow> string option \<Rightarrow> string option \<Rightarrow> string list option \<Rightarrow> notice_db \<Rightarrow> (nat \<times> bool) py_result \<times> notice_db" where
  "breach_notify_route ne breach framework description affected db =
     (case breach of
        None \<Rightarrow> (Inl KeyError, db)
      | Some b \<Rightarrow> apfst Inr (send_breach_notifications ne [] b (case framework of None \<Rightarrow> ''gdpr'' | Some f \<Rightarrow> f)
          (case description of None \<Rightarrow> [] | Some d \<Rightarrow> d) (case affected of None \<Rightarrow> [] | Some ts \<Rightarrow> ts) [] ''eu'' ''HIGH'' db))"

definition set_template_route :: "string option \<Rightarrow> string \<Rightarrow> string \<Rightarrow> string \<Rightarrow> string \<Rightarrow> string" where
  "set_template_route i framework region subj body =
     (let t = \<lparr>bt_id = (case i of None \<Rightarrow> ''custom-'' @ framework @ ''-'' @ region | Some n \<Rightarrow> n), bt_framework = framework,
               bt_region = region, bt_subject = subj, bt_body = body, bt_language = ''en''\<rparr>;
          custom = set_custom_template framework region t []
      in bt_id t)"

text \<open>Every notice that is stored says it was sent, so there is never one to retry.\<close>

definition all_sent :: "notice_db \<Rightarrow> bool" where
  "all_sent db \<longleftrightarrow> list_all (\<lambda>r. nt_status r = ''sent'') (nd_rows db)"

lemma send_notification_rows:
  "send_notification ne custom b ty c f rg vars db = (ok, db') \<Longrightarrow>
     nd_queue db' = nd_queue db \<and> (all_sent db \<longrightarrow> all_sent db') \<and> length (nd_rows db') = length (nd_rows db) + (if ok then 1 else 0)"
  by (auto simp: send_notification_def all_sent_def split: sum.splits if_splits)

lemma notify_contacts_rows:
  "notify_contacts ne custom b f rg vars cs db = (n, db') \<Longrightarrow>
     nd_queue db' = nd_queue db \<and> (all_sent db \<longrightarrow> all_sent db') \<and> length (nd_rows db') = length (nd_rows db) + n"
proof (induction cs arbitrary: db n)
  case (Cons c cs)
  obtain ok db1 where s: "send_notification ne custom b ''tenant'' c f rg vars db = (ok, db1)" by fastforce
  obtain m db2 where r: "notify_contacts ne custom b f rg vars cs db1 = (m, db2)" by fastforce
  from Cons.prems s r have "n = (if ok then m + 1 else m)" "db2 = db'" by simp_all
  with send_notification_rows [OF s] Cons.IH [of db1 m] r show ?case by auto
qed simp

lemma notify_tenants_rows:
  "notify_tenants ne custom b f rg vars ts db = (n, db') \<Longrightarrow>
     nd_queue db' = nd_queue db \<and> (all_sent db \<longrightarrow> all_sent db') \<and> length (nd_rows db') = length (nd_rows db) + n"
proof (induction ts arbitrary: db n)
  case (Cons t ts)
  define tv where "tv = AList.update ''tenant_name'' t (AList.update ''recipient_name'' (''Tenant '' @ t) vars)"
  obtain k db1 where s: "notify_contacts ne custom b f rg tv (get_tenant_contacts ne t) db = (k, db1)" by fastforce
  obtain m db2 where r: "notify_tenants ne custom b f rg vars ts db1 = (m, db2)" by fastforce
  from Cons.prems s r have "n = k + m" "db2 = db'" by (simp_all add: tv_def)
  with notify_contacts_rows [OF s] Cons.IH [of db1 m] r show ?case by auto
qed simp

lemma breach_notices_counted:
  assumes "send_breach_notifications ne custom b f descr ts vs rg cl db = ((n, queued), db')"
  shows "length (nd_rows db') = length (nd_rows db) + n \<and> (all_sent db \<longrightarrow> all_sent db' \<and> fst (retry_failed_notifications readable updated db') = 0)
    \<and> length (nd_queue db') = length (nd_queue db) + (if get_regulator_contact f rg \<noteq> None \<and> ne_queued ne then 1 else 0)"
proof -
  define vars where "vars = dict_update (breach_variables b (ne_date ne) descr cl ts) vs"
  define step where "step = (case get_regulator_contact f rg of
               None \<Rightarrow> (False, db)
             | Some (name, contact) \<Rightarrow>
                 let (ok, d) = send_notification ne custom b ''regulator'' contact f rg vars db
                 in (ok, queue_regulator_notification ne b name d))"
  obtain ok db1 where s: "step = (ok, db1)" by fastforce
  obtain m db2 where t: "notify_tenants ne custom b f rg vars ts db1 = (m, db2)" by fastforce
  have r: "n = (if ok then m + 1 else m)" "db' = db2"
    using assms s t unfolding send_breach_notifications_def step_def vars_def Let_def by auto
  have "length (nd_rows db1) = length (nd_rows db) + (if ok then 1 else 0) \<and> (all_sent db \<longrightarrow> all_sent db1)
      \<and> length (nd_queue db1) = length (nd_queue db) + (if get_regulator_contact f rg \<noteq> None \<and> ne_queued ne then 1 else 0)"
  proof (cases "get_regulator_contact f rg")
    case None
    with s show ?thesis by (simp add: step_def)
  next
    case (Some nc)
    obtain k d where sn: "send_notification ne custom b ''regulator'' (snd nc) f rg vars db = (k, d)" by fastforce
    with s Some have "ok = k" "db1 = queue_regulator_notification ne b (fst nc) d"
      by (simp_all add: step_def case_prod_beta)
    with send_notification_rows [OF sn] Some show ?thesis
      by (simp add: queue_regulator_notification_def all_sent_def)
  qed
  moreover have "all_sent x \<longrightarrow> fst (retry_failed_notifications readable updated x) = 0" for x
    by (simp add: all_sent_def retry_failed_notifications_def list_all_iff)
  ultimately show ?thesis using notify_tenants_rows [OF t] r by auto
qed

subsection \<open>The life of a breach notice\<close>

record notice_template =
  tp_name :: string
  tp_subject :: string
  tp_body :: string
  tp_channels :: "string list"

record breach_notice =
  bn_id :: string
  bn_severity :: string
  bn_tenant :: string
  bn_description :: string
  bn_template :: string
  bn_detected_at :: rat
  bn_detected_by :: string
  bn_status :: string
  bn_sent_at :: "rat option"
  bn_sent_by :: "string option"
  bn_acknowledged_at :: "rat option"
  bn_acknowledged_by :: "string option"
  bn_closed_at :: "rat option"
  bn_closed_by :: "string option"
  bn_delivered :: bool
  bn_regulator_queue :: bool
  bn_affected :: "string list"

text \<open>One store holds documents and sets under their keys; an operation on a value of the other kind raises.\<close>

datatype breach_value = TemplateDoc notice_template | NoticeDoc breach_notice | Members "string list"

type_synonym breach_store = "(string, breach_value) dict"

definition notice_template_key :: "string \<Rightarrow> string" where
  "notice_template_key n = ''anonreq:breach-template:'' @ n"

definition notice_key :: "string \<Rightarrow> string" where
  "notice_key b = ''anonreq:breach:'' @ b"

definition tenant_notices_key :: "string \<Rightarrow> string" where
  "tenant_notices_key t = ''anonreq:breach:tenant:'' @ t"

definition regulator_queue_key :: string where
  "regulator_queue_key = ''anonreq:breach:regulator-queue''"

definition wrong_type :: py_exn where "wrong_type = OtherExn ''ResponseError''"

definition smembers :: "string \<Rightarrow> breach_store \<Rightarrow> string list py_result" where
  "smembers k st = (case map_of st k of None \<Rightarrow> Inr [] | Some (Members ms) \<Rightarrow> Inr ms | Some _ \<Rightarrow> Inl wrong_type)"

definition sadd :: "string \<Rightarrow> string \<Rightarrow> breach_store \<Rightarrow> breach_store py_result" where
  "sadd k m st = bind_result (smembers k st) (\<lambda>ms. Inr (AList.update k (Members (if m \<in> set ms then ms else ms @ [m])) st))"

definition set_notice_template :: "string \<Rightarrow> string \<Rightarrow> string \<Rightarrow> string list \<Rightarrow> breach_store \<Rightarrow> notice_template \<times> breach_store" where
  "set_notice_template n subj body channels st =
     (let t = \<lparr>tp_name = n, tp_subject = subj, tp_body = body, tp_channels = (if channels = [] then [''email''] else channels)\<rparr>
      in (t, AList.update (notice_template_key n) (TemplateDoc t) st))"

definition get_notice_template :: "string \<Rightarrow> breach_store \<Rightarrow> notice_template option py_result" where
  "get_notice_template n st =
     (case map_of st (notice_template_key n) of
        None \<Rightarrow> Inr None | Some (TemplateDoc t) \<Rightarrow> Inr (Some t) | Some (NoticeDoc _) \<Rightarrow> Inl ValueError | Some (Members _) \<Rightarrow> Inl wrong_type)"

definition delete_notice_template :: "string \<Rightarrow> breach_store \<Rightarrow> breach_store" where
  "delete_notice_template n st = AList.delete (notice_template_key n) st"

definition get_notice :: "string \<Rightarrow> breach_store \<Rightarrow> breach_notice option py_result" where
  "get_notice b st =
     (case map_of st (notice_key b) of
        None \<Rightarrow> Inr None | Some (NoticeDoc n) \<Rightarrow> Inr (Some n) | Some (TemplateDoc _) \<Rightarrow> Inl ValueError | Some (Members _) \<Rightarrow> Inl wrong_type)"

definition get_notice_or_raise :: "string \<Rightarrow> breach_store \<Rightarrow> breach_notice py_result" where
  "get_notice_or_raise b st =
     bind_result (get_notice b st) (\<lambda>r. case r of None \<Rightarrow> Inl ValueError | Some n \<Rightarrow> Inr n)"

definition put_notice :: "breach_notice \<Rightarrow> breach_store \<Rightarrow> breach_store" where
  "put_notice n st = AList.update (notice_key (bn_id n)) (NoticeDoc n) st"

definition create_notice ::
  "string \<Rightarrow> rat \<Rightarrow> string \<Rightarrow> string \<Rightarrow> string \<Rightarrow> string \<Rightarrow> string \<Rightarrow> bool \<Rightarrow> breach_store \<Rightarrow> breach_notice py_result \<times> breach_store" where
  "create_notice b now severity tenant description template detected_by queue st =
     (let n = \<lparr>bn_id = b, bn_severity = severity, bn_tenant = tenant, bn_description = description, bn_template = template,
               bn_detected_at = now, bn_detected_by = detected_by, bn_status = ''pending'', bn_sent_at = None, bn_sent_by = None,
               bn_acknowledged_at = None, bn_acknowledged_by = None, bn_closed_at = None, bn_closed_by = None,
               bn_delivered = False, bn_regulator_queue = queue, bn_affected = []\<rparr>;
          st1 = put_notice n st
      in case sadd (tenant_notices_key tenant) b st1 of
           Inl e \<Rightarrow> (Inl e, st1)
         | Inr st2 \<Rightarrow>
             if \<not> queue then (Inr n, st2)
             else (case sadd regulator_queue_key b st2 of Inl e \<Rightarrow> (Inl e, st2) | Inr st3 \<Rightarrow> (Inr n, st3)))"

text \<open>The operations on a stored notice read it, change fields, and write it back.\<close>

definition change_notice ::
  "(breach_notice \<Rightarrow> breach_notice) \<Rightarrow> string \<Rightarrow> breach_store \<Rightarrow> breach_notice py_result \<times> breach_store" where
  "change_notice f b st =
     (case get_notice_or_raise b st of
        Inl e \<Rightarrow> (Inl e, st)
      | Inr n \<Rightarrow> (Inr (f n), AList.update (notice_key b) (NoticeDoc (f n)) st))"

definition send_notice :: "rat \<Rightarrow> string \<Rightarrow> breach_store \<Rightarrow> breach_notice py_result \<times> breach_store" where
  "send_notice now = change_notice (\<lambda>n. n\<lparr>bn_status := ''sent'', bn_sent_at := Some now, bn_delivered := True\<rparr>)"

definition acknowledge_notice :: "rat \<Rightarrow> string \<Rightarrow> string \<Rightarrow> breach_store \<Rightarrow> breach_notice py_result \<times> breach_store" where
  "acknowledge_notice now who =
     change_notice (\<lambda>n. n\<lparr>bn_status := ''acknowledged'', bn_acknowledged_at := Some now, bn_acknowledged_by := Some who\<rparr>)"

definition close_notice :: "rat \<Rightarrow> string \<Rightarrow> string \<Rightarrow> breach_store \<Rightarrow> breach_notice py_result \<times> breach_store" where
  "close_notice now who =
     change_notice (\<lambda>n. n\<lparr>bn_status := ''closed'', bn_closed_at := Some now, bn_closed_by := Some who\<rparr>)"

definition notify_affected_tenants :: "string list \<Rightarrow> string \<Rightarrow> breach_store \<Rightarrow> breach_notice py_result \<times> breach_store" where
  "notify_affected_tenants affected = change_notice (\<lambda>n. n\<lparr>bn_affected := affected\<rparr>)"

fun collect_notices :: "string list \<Rightarrow> breach_store \<Rightarrow> breach_notice list py_result" where
  "collect_notices [] st = Inr []"
| "collect_notices (b # bs) st =
     bind_result (get_notice b st) (\<lambda>r. bind_result (collect_notices bs st)
       (\<lambda>ns. Inr (case r of None \<Rightarrow> ns | Some n \<Rightarrow> n # ns)))"

definition list_notices :: "string \<Rightarrow> breach_store \<Rightarrow> breach_notice list py_result" where
  "list_notices tenant st = bind_result (smembers (tenant_notices_key tenant) st) (\<lambda>bs. collect_notices bs st)"

definition get_regulator_queue :: "breach_store \<Rightarrow> breach_notice list py_result" where
  "get_regulator_queue st = bind_result (smembers regulator_queue_key st) (\<lambda>bs. collect_notices bs st)"

subsection \<open>Every notice stays listed\<close>

text \<open>Identifiers are random UUIDs: without a colon, and never the name of the queue.\<close>

definition notice_id :: "string \<Rightarrow> bool" where
  "notice_id b \<longleftrightarrow> CHR '':'' \<notin> set b \<and> b \<noteq> ''regulator-queue''"

inductive notice_step :: "breach_store \<Rightarrow> breach_store \<Rightarrow> bool" where
  "notice_id b \<Longrightarrow> map_of st (notice_key b) = None \<Longrightarrow> notice_step st (snd (create_notice b now sev t descr tpl who queue st))"
| "notice_id b \<Longrightarrow> notice_step st (snd (send_notice now b st))"
| "notice_id b \<Longrightarrow> notice_step st (snd (acknowledge_notice now who b st))"
| "notice_id b \<Longrightarrow> notice_step st (snd (close_notice now who b st))"
| "notice_id b \<Longrightarrow> notice_step st (snd (notify_affected_tenants ts b st))"
| "notice_step st (snd (set_notice_template n subj body chs st))"
| "notice_step st (delete_notice_template n st)"

text \<open>
  What the keys hold, and the membership of each notice: in the set of its tenant and of no other, and in the
  regulator queue exactly when it was made for it.
\<close>

definition notices_ok :: "breach_store \<Rightarrow> bool" where
  "notices_ok st \<longleftrightarrow>
     (\<forall>b. notice_id b \<longrightarrow> (case map_of st (notice_key b) of None \<Rightarrow> True | Some (NoticeDoc n) \<Rightarrow> bn_id n = b | _ \<Rightarrow> False))
   \<and> (\<forall>t. \<exists>ms. smembers (tenant_notices_key t) st = Inr ms \<and> (\<forall>b \<in> set ms. notice_id b)
        \<and> (\<forall>b. notice_id b \<longrightarrow> (b \<in> set ms \<longleftrightarrow> (\<exists>n. map_of st (notice_key b) = Some (NoticeDoc n) \<and> bn_tenant n = t))))
   \<and> (\<exists>ms. smembers regulator_queue_key st = Inr ms \<and> (\<forall>b \<in> set ms. notice_id b)
        \<and> (\<forall>b. notice_id b \<longrightarrow> (b \<in> set ms \<longleftrightarrow> (\<exists>n. map_of st (notice_key b) = Some (NoticeDoc n) \<and> bn_regulator_queue n))))"

lemma notice_keys_apart:
  "notice_key b = notice_key b' \<longleftrightarrow> b = b'" "tenant_notices_key t = tenant_notices_key t' \<longleftrightarrow> t = t'"
  "notice_id b \<Longrightarrow> notice_key b \<noteq> tenant_notices_key t" "notice_id b \<Longrightarrow> notice_key b \<noteq> regulator_queue_key"
  "tenant_notices_key t \<noteq> regulator_queue_key" "notice_template_key n \<noteq> notice_key b"
  "notice_template_key n \<noteq> tenant_notices_key t" "notice_template_key n \<noteq> regulator_queue_key"
  by (auto simp: notice_key_def tenant_notices_key_def regulator_queue_key_def notice_template_key_def notice_id_def)

lemma notices_ok_empty: "notices_ok []"
  by (simp add: notices_ok_def smembers_def)

text \<open>A key outside the three families does not matter.\<close>

lemma notices_ok_other_key:
  assumes "notices_ok st" "\<And>k. k \<noteq> notice_template_key n \<Longrightarrow> map_of st' k = map_of st k"
  shows "notices_ok st'"
proof -
  have "map_of st' (notice_key b) = map_of st (notice_key b)" "smembers (tenant_notices_key t) st' = smembers (tenant_notices_key t) st"
    "smembers regulator_queue_key st' = smembers regulator_queue_key st" for b t
    by (simp_all add: smembers_def assms(2) notice_keys_apart(6,7,8) [THEN not_sym])
  with assms(1) show ?thesis by (simp add: notices_ok_def)
qed

text \<open>Changing a notice without its tenant and its flag keeps the lists.\<close>

lemma notices_ok_change:
  assumes "notices_ok st" "notice_id b"
    and "\<And>n. bn_id (f n) = bn_id n \<and> bn_tenant (f n) = bn_tenant n \<and> bn_regulator_queue (f n) = bn_regulator_queue n"
  shows "notices_ok (snd (change_notice f b st))"
proof (cases "get_notice_or_raise b st")
  case (Inl e)
  with assms(1) show ?thesis by (simp add: change_notice_def)
next
  case (Inr n)
  let ?st = "AList.update (notice_key b) (NoticeDoc (f n)) st"
  have n: "map_of st (notice_key b) = Some (NoticeDoc n)"
    using Inr by (auto simp: get_notice_or_raise_def get_notice_def split: option.splits breach_value.splits)
  have at: "map_of ?st (notice_key c) = (if c = b then Some (NoticeDoc (f n)) else map_of st (notice_key c))" for c
    by (simp add: map_of_update notice_keys_apart(1))
  have "tenant_notices_key t \<noteq> notice_key b" "regulator_queue_key \<noteq> notice_key b" for t
    using notice_keys_apart(3,4) [OF assms(2)] by metis+
  then have sets: "smembers (tenant_notices_key t) ?st = smembers (tenant_notices_key t) st"
    "smembers regulator_queue_key ?st = smembers regulator_queue_key st" for t
    by (simp_all add: smembers_def map_of_update)
  have field: "(\<exists>m. map_of ?st (notice_key c) = Some (NoticeDoc m) \<and> P m)
      \<longleftrightarrow> (\<exists>m. map_of st (notice_key c) = Some (NoticeDoc m) \<and> P m)" if "P (f n) = P n" for c P
    using that n by (auto simp: at)
  have tenant: "(\<exists>m. map_of ?st (notice_key c) = Some (NoticeDoc m) \<and> bn_tenant m = t)
      \<longleftrightarrow> (\<exists>m. map_of st (notice_key c) = Some (NoticeDoc m) \<and> bn_tenant m = t)" for c t
    using assms(3) by (intro field) simp
  have queue: "(\<exists>m. map_of ?st (notice_key c) = Some (NoticeDoc m) \<and> bn_regulator_queue m)
      \<longleftrightarrow> (\<exists>m. map_of st (notice_key c) = Some (NoticeDoc m) \<and> bn_regulator_queue m)" for c
    using assms(3) by (intro field) simp
  have "notice_id c \<longrightarrow> (case map_of ?st (notice_key c) of None \<Rightarrow> True | Some (NoticeDoc m) \<Rightarrow> bn_id m = c | _ \<Rightarrow> False)" for c
    using assms n unfolding notices_ok_def at by (metis (mono_tags, lifting) breach_value.simps(11) option.simps(5))
  with assms(1) have "notices_ok ?st" unfolding notices_ok_def sets tenant queue by blast
  with Inr show ?thesis by (simp add: change_notice_def)
qed

lemma smembers_update:
  "smembers k (AList.update k' v st)
     = (if k = k' then (case v of Members ms \<Rightarrow> Inr ms | _ \<Rightarrow> Inl wrong_type) else smembers k st)"
  by (simp add: smembers_def map_of_update split: breach_value.splits)

lemma sadd_members:
  "smembers k st = Inr ms \<Longrightarrow> sadd k m st = Inr (AList.update k (Members (if m \<in> set ms then ms else ms @ [m])) st)"
  by (simp add: sadd_def)

lemma notices_ok_create:
  assumes "notices_ok st" "notice_id b" "map_of st (notice_key b) = None"
  shows "notices_ok (snd (create_notice b now sev t descr tpl who queue st))"
    and "\<exists>n. fst (create_notice b now sev t descr tpl who queue st) = Inr n"
proof -
  define n where "n = \<lparr>bn_id = b, bn_severity = sev, bn_tenant = t, bn_description = descr, bn_template = tpl,
               bn_detected_at = now, bn_detected_by = who, bn_status = ''pending'', bn_sent_at = None, bn_sent_by = None,
               bn_acknowledged_at = None, bn_acknowledged_by = None, bn_closed_at = None, bn_closed_by = None,
               bn_delivered = False, bn_regulator_queue = queue, bn_affected = []\<rparr>"
  note apart = notice_keys_apart(3,4) [OF assms(2)]
  have apart': "tenant_notices_key u \<noteq> notice_key b" "regulator_queue_key \<noteq> notice_key b"
    "regulator_queue_key \<noteq> tenant_notices_key u" "tenant_notices_key u \<noteq> regulator_queue_key" for u
    using apart notice_keys_apart(5) by metis+
  obtain ms where ms: "smembers (tenant_notices_key t) st = Inr ms" "\<forall>c \<in> set ms. notice_id c"
      "\<And>c. notice_id c \<Longrightarrow> c \<in> set ms \<longleftrightarrow> (\<exists>n. map_of st (notice_key c) = Some (NoticeDoc n) \<and> bn_tenant n = t)"
    using assms(1) unfolding notices_ok_def by meson
  obtain qs where qs: "smembers regulator_queue_key st = Inr qs" "\<forall>c \<in> set qs. notice_id c"
      "\<And>c. notice_id c \<Longrightarrow> c \<in> set qs \<longleftrightarrow> (\<exists>n. map_of st (notice_key c) = Some (NoticeDoc n) \<and> bn_regulator_queue n)"
    using assms(1) unfolding notices_ok_def by meson
  define ms' where "ms' = (if b \<in> set ms then ms else ms @ [b])"
  define qs' where "qs' = (if b \<in> set qs then qs else qs @ [b])"
  define st1 where "st1 = put_notice n st"
  define st2 where "st2 = AList.update (tenant_notices_key t) (Members ms') st1"
  define st3 where "st3 = (if queue then AList.update regulator_queue_key (Members qs') st2 else st2)"
  have at1: "smembers k st1 = (if k = notice_key b then Inl wrong_type else smembers k st)" for k
    by (simp add: st1_def put_notice_def n_def smembers_update)
  have at2: "smembers k st2 = (if k = tenant_notices_key t then Inr ms' else smembers k st1)" for k
    by (simp add: st2_def smembers_update)
  have r1: "sadd (tenant_notices_key t) b st1 = Inr st2"
    using ms(1) by (simp add: sadd_members at1 apart' st2_def ms'_def)
  have r2: "sadd regulator_queue_key b st2 = Inr (AList.update regulator_queue_key (Members qs') st2)"
    using qs(1) by (simp add: sadd_members at2 at1 apart' qs'_def)
  have run: "create_notice b now sev t descr tpl who queue st = (Inr n, st3)"
    unfolding create_notice_def Let_def n_def [symmetric] st1_def [symmetric] r1 by (simp add: r2 st3_def)
  have new: "map_of st3 (notice_key c) = (if c = b then Some (NoticeDoc n) else map_of st (notice_key c))" if "notice_id c" for c
    using notice_keys_apart(3,4) [OF that] apart
    by (simp add: st3_def st2_def st1_def put_notice_def n_def map_of_update notice_keys_apart(1))
  have at3: "smembers (tenant_notices_key u) st3 = (if u = t then Inr ms' else smembers (tenant_notices_key u) st)" for u
    by (simp add: st3_def smembers_update at2 at1 notice_keys_apart(2) apart')
  have atq: "smembers regulator_queue_key st3 = (if queue then Inr qs' else Inr qs)"
    using qs(1) by (simp add: st3_def smembers_update at2 at1 apart')
  have "notice_id c \<longrightarrow> (case map_of st3 (notice_key c) of None \<Rightarrow> True | Some (NoticeDoc m) \<Rightarrow> bn_id m = c | _ \<Rightarrow> False)" for c
    using assms(1) new [of c] unfolding notices_ok_def by (simp add: n_def)
  moreover have "\<exists>ms. smembers (tenant_notices_key u) st3 = Inr ms \<and> (\<forall>b \<in> set ms. notice_id b)
        \<and> (\<forall>b. notice_id b \<longrightarrow> (b \<in> set ms \<longleftrightarrow> (\<exists>n. map_of st3 (notice_key b) = Some (NoticeDoc n) \<and> bn_tenant n = u)))" for u
  proof (cases "u = t")
    case True
    have "\<forall>c \<in> set ms'. notice_id c" using ms(2) assms(2) by (simp add: ms'_def)
    moreover have "c \<in> set ms' \<longleftrightarrow> (\<exists>n. map_of st3 (notice_key c) = Some (NoticeDoc n) \<and> bn_tenant n = t)" if "notice_id c" for c
      using ms(3) [OF that] new [OF that] by (auto simp: ms'_def n_def)
    ultimately show ?thesis using True by (simp add: at3)
  next
    case False
    obtain us where us: "smembers (tenant_notices_key u) st = Inr us" "\<forall>c \<in> set us. notice_id c"
        "\<And>c. notice_id c \<Longrightarrow> c \<in> set us \<longleftrightarrow> (\<exists>n. map_of st (notice_key c) = Some (NoticeDoc n) \<and> bn_tenant n = u)"
      using assms(1) unfolding notices_ok_def by meson
    have "c \<in> set us \<longleftrightarrow> (\<exists>n. map_of st3 (notice_key c) = Some (NoticeDoc n) \<and> bn_tenant n = u)" if "notice_id c" for c
      using us(3) [OF that] new [OF that] assms(3) False by (auto simp: n_def)
    with us(1,2) False show ?thesis by (simp add: at3)
  qed
  moreover have "\<exists>ms. smembers regulator_queue_key st3 = Inr ms \<and> (\<forall>b \<in> set ms. notice_id b)
        \<and> (\<forall>b. notice_id b \<longrightarrow> (b \<in> set ms \<longleftrightarrow> (\<exists>n. map_of st3 (notice_key b) = Some (NoticeDoc n) \<and> bn_regulator_queue n)))"
  proof -
    define rs where "rs = (if queue then qs' else qs)"
    have "\<forall>c \<in> set rs. notice_id c" using qs(2) assms(2) by (simp add: rs_def qs'_def)
    moreover have "c \<in> set rs \<longleftrightarrow> (\<exists>n. map_of st3 (notice_key c) = Some (NoticeDoc n) \<and> bn_regulator_queue n)" if "notice_id c" for c
      using qs(3) [OF that] new [OF that] assms(3) by (auto simp: rs_def qs'_def n_def)
    ultimately show ?thesis by (intro exI [of _ rs]) (simp add: atq rs_def)
  qed
  ultimately have "notices_ok st3" unfolding notices_ok_def by blast
  with run show "notices_ok (snd (create_notice b now sev t descr tpl who queue st))"
    "\<exists>n. fst (create_notice b now sev t descr tpl who queue st) = Inr n" by simp_all
qed

interpretation breach_notices: step_system notice_step "[]" notices_ok
proof
  show "notices_ok []" by (rule notices_ok_empty)
  fix s s' assume "notice_step s s'" and ok: "notices_ok s"
  then show "notices_ok s'"
  proof (cases rule: notice_step.cases)
    case 6
    then show ?thesis
      by (auto simp: set_notice_template_def Let_def map_of_update intro!: notices_ok_other_key [OF ok] split: if_splits)
  next
    case 7
    then show ?thesis by (auto simp: delete_notice_template_def delete_conv' intro!: notices_ok_other_key [OF ok])
  qed (use ok in \<open>simp_all add: notices_ok_create send_notice_def acknowledge_notice_def close_notice_def
         notify_affected_tenants_def notices_ok_change\<close>)
qed

lemma get_notice_ok:
  "notices_ok st \<Longrightarrow> notice_id b \<Longrightarrow>
     get_notice b st = Inr (case map_of st (notice_key b) of Some (NoticeDoc n) \<Rightarrow> Some n | _ \<Rightarrow> None)"
  unfolding notices_ok_def get_notice_def by (fastforce split: option.splits breach_value.splits)

lemma collect_notices_ok:
  assumes "notices_ok st" "\<forall>b \<in> set bs. notice_id b"
  shows "\<exists>ns. collect_notices bs st = Inr ns \<and> set ns = {n. \<exists>b \<in> set bs. map_of st (notice_key b) = Some (NoticeDoc n)}"
  using assms(2)
proof (induction bs)
  case (Cons b bs)
  then obtain ns where ns: "collect_notices bs st = Inr ns"
      "set ns = {n. \<exists>b \<in> set bs. map_of st (notice_key b) = Some (NoticeDoc n)}" by auto
  show ?case
  proof (cases "map_of st (notice_key b)")
    case None
    with ns get_notice_ok [OF assms(1)] Cons.prems show ?thesis by auto
  next
    case (Some v)
    with assms(1) Cons.prems obtain n where "v = NoticeDoc n"
      unfolding notices_ok_def by (cases v) (auto split: option.splits)
    with Some ns get_notice_ok [OF assms(1)] Cons.prems show ?thesis by auto
  qed
qed simp

text \<open>C39. after any run of the breach service, the notices listed for a tenant are exactly the stored notices of
  that tenant, and the regulator queue is exactly the notices created for it, sent or closed ones included.
\<close>

theorem notices_stay_listed:
  assumes "notice_step\<^sup>*\<^sup>* [] st"
  shows "\<exists>ns qs. list_notices t st = Inr ns \<and> get_regulator_queue st = Inr qs
    \<and> set ns = {n. \<exists>b. notice_id b \<and> map_of st (notice_key b) = Some (NoticeDoc n) \<and> bn_tenant n = t}
    \<and> set qs = {n. \<exists>b. notice_id b \<and> map_of st (notice_key b) = Some (NoticeDoc n) \<and> bn_regulator_queue n}"
proof -
  have ok: "notices_ok st" using assms by (rule breach_notices.initial_steps_inv)
  then obtain ms where ms: "smembers (tenant_notices_key t) st = Inr ms" "\<forall>c \<in> set ms. notice_id c"
      "\<And>c. notice_id c \<Longrightarrow> c \<in> set ms \<longleftrightarrow> (\<exists>n. map_of st (notice_key c) = Some (NoticeDoc n) \<and> bn_tenant n = t)"
    unfolding notices_ok_def by meson
  obtain rs where rs: "smembers regulator_queue_key st = Inr rs" "\<forall>c \<in> set rs. notice_id c"
      "\<And>c. notice_id c \<Longrightarrow> c \<in> set rs \<longleftrightarrow> (\<exists>n. map_of st (notice_key c) = Some (NoticeDoc n) \<and> bn_regulator_queue n)"
    using ok unfolding notices_ok_def by meson
  obtain ns where ns: "collect_notices ms st = Inr ns" "set ns = {n. \<exists>b \<in> set ms. map_of st (notice_key b) = Some (NoticeDoc n)}"
    using collect_notices_ok [OF ok ms(2)] by blast
  obtain qs where qs: "collect_notices rs st = Inr qs" "set qs = {n. \<exists>b \<in> set rs. map_of st (notice_key b) = Some (NoticeDoc n)}"
    using collect_notices_ok [OF ok rs(2)] by blast
  have "set ns = {n. \<exists>b. notice_id b \<and> map_of st (notice_key b) = Some (NoticeDoc n) \<and> bn_tenant n = t}"
    using ms(2,3) unfolding ns(2) by fastforce
  moreover have "set qs = {n. \<exists>b. notice_id b \<and> map_of st (notice_key b) = Some (NoticeDoc n) \<and> bn_regulator_queue n}"
    using rs(2,3) unfolding qs(2) by fastforce
  ultimately show ?thesis using ms(1) rs(1) ns(1) qs(1) by (simp add: list_notices_def get_regulator_queue_def)
qed

definition sample_notices :: breach_store where
  "sample_notices = snd (create_notice ''n1'' 10 ''high'' ''acme'' ''lost laptop'' ''default'' ''system'' True [])"

lemma sample_notices_step: "notice_step\<^sup>*\<^sup>* [] (snd (close_notice 20 ''ann'' ''n1'' sample_notices))"
proof -
  have id: "notice_id ''n1''" by (simp add: notice_id_def)
  have "notice_step [] sample_notices" unfolding sample_notices_def by (rule notice_step.intros(1) [OF id]) simp
  moreover have "notice_step sample_notices (snd (close_notice 20 ''ann'' ''n1'' sample_notices))"
    by (rule notice_step.intros(4) [OF id])
  ultimately show ?thesis by (meson rtranclp.rtrancl_into_rtrancl rtranclp.rtrancl_refl)
qed

theorem notices_stay_listed_witness:
  "let st = snd (close_notice 20 ''ann'' ''n1'' sample_notices) in \<exists>ns qs. list_notices ''acme'' st = Inr ns \<and> get_regulator_queue st = Inr qs
    \<and> set ns = {n. \<exists>b. notice_id b \<and> map_of st (notice_key b) = Some (NoticeDoc n) \<and> bn_tenant n = ''acme''}
    \<and> set qs = {n. \<exists>b. notice_id b \<and> map_of st (notice_key b) = Some (NoticeDoc n) \<and> bn_regulator_queue n}"
  unfolding Let_def by (rule notices_stay_listed [OF sample_notices_step])

text \<open>No operation looks at the status of a notice: one that is closed can be sent again.\<close>

lemma closed_notice_sent_again:
  assumes "map_of st (notice_key b) = Some (NoticeDoc n)"
  shows "\<exists>m. fst (send_notice now2 b (snd (close_notice now1 who b st))) = Inr m \<and> bn_status m = ''sent'' \<and> bn_closed_at m = Some now1"
  using assms by (simp add: send_notice_def close_notice_def change_notice_def get_notice_or_raise_def get_notice_def map_of_update)

subsection \<open>Incidents\<close>

datatype criticality = CriticalService | ImportantService | StandardService

record incident =
  in_id :: string
  in_tenant :: string
  in_service :: string
  in_service_name :: string
  in_criticality :: criticality
  in_severity :: string
  in_title :: string
  in_description :: string
  in_status :: string
  in_created :: rat
  in_escalated :: bool
  in_escalated_at :: "rat option"
  in_notified :: bool
  in_notified_at :: "rat option"
  in_resolved_at :: "rat option"

definition create_incident ::
  "string \<Rightarrow> rat \<Rightarrow> string \<Rightarrow> string \<Rightarrow> string \<Rightarrow> criticality \<Rightarrow> string \<Rightarrow> string \<Rightarrow> string \<Rightarrow> incident list \<Rightarrow> incident \<times> incident list" where
  "create_incident i now tenant service sname crit severity title descr store =
     (let inc = \<lparr>in_id = i, in_tenant = tenant, in_service = service, in_service_name = sname, in_criticality = crit,
                 in_severity = severity, in_title = title, in_description = descr, in_status = ''open'', in_created = now,
                 in_escalated = False, in_escalated_at = None, in_notified = False, in_notified_at = None, in_resolved_at = None\<rparr>
      in (inc, store @ [inc]))"

text \<open>
  The notification service is missing (None), or its \<open>notify\<close> returns (\<open>Inr\<close>) or raises. The audit
  events that were emitted are the incidents they carry.
\<close>

definition escalate_if_needed ::
  "(incident \<Rightarrow> unit py_result) option \<Rightarrow> rat \<Rightarrow> incident \<Rightarrow> (py_exn option \<times> incident) \<times> incident list" where
  "escalate_if_needed notify now inc =
     (case in_criticality inc of
        CriticalService \<Rightarrow>
          let inc1 = inc\<lparr>in_escalated := True, in_escalated_at := Some now\<rparr>
          in (case notify of
                None \<Rightarrow> ((None, inc1), [inc1])
              | Some ring \<Rightarrow>
                  (case ring inc1 of
                     Inl e \<Rightarrow> ((Some e, inc1), [])
                   | Inr _ \<Rightarrow> let inc2 = inc1\<lparr>in_notified := True, in_notified_at := Some now\<rparr> in ((None, inc2), [inc2])))
      | ImportantService \<Rightarrow> ((None, inc), [inc])
      | StandardService \<Rightarrow> ((None, inc), []))"

text \<open>
  The incident returned is the object in the store, so the store sees its changes. The title holds the
  measured value and the threshold as their texts; the description, whose text has a dash outside the
  range of a model string, is an argument.
\<close>

definition auto_escalate_on_slo_breach ::
  "(string \<Rightarrow> string \<Rightarrow> string \<Rightarrow> string) \<Rightarrow> (incident \<Rightarrow> unit py_result) option \<Rightarrow> string \<Rightarrow> rat \<Rightarrow> string \<Rightarrow> string \<Rightarrow> string
     \<Rightarrow> string \<Rightarrow> string \<Rightarrow> incident list \<Rightarrow> (py_exn option \<times> incident) \<times> incident list \<times> incident list" where
  "auto_escalate_on_slo_breach description notify i now tenant service metric measured threshold store =
     (let (inc, _) = create_incident i now tenant service service CriticalService ''S1''
            (''SLO breach: '' @ metric @ '' ('' @ measured @ '' vs threshold '' @ threshold @ '')'')
            (description metric measured threshold) store;
          ((err, inc'), events) = escalate_if_needed notify now inc
      in ((err, inc'), store @ [inc'], events))"

definition list_incidents ::
  "string option \<Rightarrow> string option \<Rightarrow> criticality option \<Rightarrow> int \<Rightarrow> int \<Rightarrow> incident list \<Rightarrow> incident list" where
  "list_incidents tenant status crit skip limit store =
     py_slice (filter (\<lambda>i. (case tenant of None \<Rightarrow> True | Some t \<Rightarrow> in_tenant i = t)
                        \<and> (case status of None \<Rightarrow> True | Some s \<Rightarrow> in_status i = s)
                        \<and> (case crit of None \<Rightarrow> True | Some c \<Rightarrow> in_criticality i = c)) store) skip (skip + limit)"

fun resolve_incident :: "rat \<Rightarrow> string \<Rightarrow> incident list \<Rightarrow> incident option \<times> incident list" where
  "resolve_incident now i [] = (None, [])"
| "resolve_incident now i (inc # store) =
     (if in_id inc = i
      then (let inc' = inc\<lparr>in_status := ''resolved'', in_resolved_at := Some now\<rparr> in (Some inc', inc' # store))
      else (let (r, store') = resolve_incident now i store in (r, inc # store')))"

text \<open>The routes make a manager without a notification service or an audit sink. None is the answer 404.\<close>

definition get_incident :: "string \<Rightarrow> incident list \<Rightarrow> incident option" where
  "get_incident i store = find (\<lambda>inc. in_id inc = i) (list_incidents None None None 0 50 store)"

lemma list_incidents_all:
  "list_incidents None None None 0 50 store = take 50 store"
  by (cases "length store \<le> 50") (simp_all add: list_incidents_def py_slice_def slice_bound_def Let_def)

definition resolve_route :: "rat \<Rightarrow> string \<Rightarrow> incident list \<Rightarrow> (int + incident) \<times> incident list" where
  "resolve_route now i store =
     (case resolve_incident now i store of (None, st) \<Rightarrow> (Inl 404, st) | (Some inc, st) \<Rightarrow> (Inr inc, st))"

text \<open>The bounds that the query parameters of the list are checked against; outside them the answer is 422.\<close>

definition list_incidents_route ::
  "string option \<Rightarrow> string option \<Rightarrow> criticality option \<Rightarrow> int \<Rightarrow> int \<Rightarrow> incident list \<Rightarrow> int + incident list" where
  "list_incidents_route tenant status crit skip limit store =
     (if skip < 0 \<or> limit < 1 \<or> limit > 200 then Inl 422 else Inr (list_incidents tenant status crit skip limit store))"

lemma list_incidents_page:
  "list_incidents_route tenant status crit skip limit store = Inr r \<Longrightarrow> length r \<le> nat limit \<and> set r \<subseteq> set store"
  by (auto simp: list_incidents_route_def list_incidents_def py_slice_def slice_bound_def Let_def split: if_splits
      dest!: in_set_takeD in_set_dropD)

text \<open>Only the first fifty incidents can be fetched by their identifier, whereas any can be resolved.\<close>

lemma later_incident_not_found:
  assumes "50 \<le> length store" "\<forall>inc \<in> set (take 50 store). in_id inc \<noteq> i"
  shows "get_incident i store = None"
  using assms by (simp add: get_incident_def list_incidents_all find_None_iff)

lemma resolve_incident_effect:
  "resolve_incident now i store = (r, store') \<Longrightarrow>
     map in_id store' = map in_id store \<and> (r = None \<longleftrightarrow> i \<notin> in_id ` set store)
     \<and> (case r of None \<Rightarrow> store' = store | Some inc \<Rightarrow> in_id inc = i \<and> in_status inc = ''resolved'' \<and> inc \<in> set store')"
  by (induction store arbitrary: r store') (auto simp: Let_def split: if_splits prod.splits option.splits)

lemma escalation_by_tier:
  "escalate_if_needed None now inc = ((None, inc'), events) \<Longrightarrow>
     (in_notified inc' = in_notified inc) \<and> (in_escalated inc' \<longleftrightarrow> in_criticality inc = CriticalService \<or> in_escalated inc)
     \<and> (events = [] \<longleftrightarrow> in_criticality inc = StandardService)"
  by (auto simp: escalate_if_needed_def Let_def split: criticality.splits)

text \<open>When the notification raises, the incident is marked as escalated and no audit event is emitted.\<close>

lemma failed_notice_leaves_no_event:
  "in_criticality inc = CriticalService \<Longrightarrow> ring (inc\<lparr>in_escalated := True, in_escalated_at := Some now\<rparr>) = Inl e \<Longrightarrow>
     escalate_if_needed (Some ring) now inc = ((Some e, inc\<lparr>in_escalated := True, in_escalated_at := Some now\<rparr>), [])"
  by (simp add: escalate_if_needed_def Let_def)

datatype incident_severity = LowIncident | MediumIncident | HighIncident | CriticalIncident

fun severity_name :: "incident_severity \<Rightarrow> string" where
  "severity_name LowIncident = ''LOW''"
| "severity_name MediumIncident = ''MEDIUM''"
| "severity_name HighIncident = ''HIGH''"
| "severity_name CriticalIncident = ''CRITICAL''"

definition incident_response_times :: "(string, string) dict" where
  "incident_response_times = [(''CRITICAL'', ''immediate''), (''HIGH'', ''24h''), (''MEDIUM'', ''72h''), (''LOW'', ''next_review'')]"

definition classify_incident :: "string \<Rightarrow> bool \<Rightarrow> bool \<Rightarrow> incident_severity" where
  "classify_incident impact data_exposure slo_breach =
     (if data_exposure then CriticalIncident
      else if slo_breach then (if impact = ''high'' then HighIncident else MediumIncident)
      else LowIncident)"

definition get_response_time :: "incident_severity \<Rightarrow> string" where
  "get_response_time s = dict_get incident_response_times (severity_name s) ''next_review''"

record drift_incident =
  di_id :: string
  di_severity :: string
  di_severity_value :: int
  di_response_time :: string
  di_type :: string
  di_entity_type :: string
  di_drift :: rat
  di_baseline :: rat
  di_production :: rat
  di_detected_at :: rat
  di_notify :: bool
  di_metadata :: "(string, json) dict"

fun severity_value :: "incident_severity \<Rightarrow> int" where
  "severity_value LowIncident = 0"
| "severity_value MediumIncident = 1"
| "severity_value HighIncident = 2"
| "severity_value CriticalIncident = 3"

definition create_incident_record ::
  "string \<Rightarrow> incident_severity \<Rightarrow> string \<Rightarrow> string \<Rightarrow> rat \<Rightarrow> rat \<Rightarrow> rat \<Rightarrow> (string, json) dict option \<Rightarrow> rat \<Rightarrow> drift_incident" where
  "create_incident_record i s kind entity drift baseline production metadata now =
     \<lparr>di_id = i, di_severity = severity_name s, di_severity_value = severity_value s, di_response_time = get_response_time s,
      di_type = kind, di_entity_type = entity, di_drift = drift, di_baseline = baseline, di_production = production,
      di_detected_at = now, di_notify = (s = CriticalIncident), di_metadata = (case metadata of None \<Rightarrow> [] | Some m \<Rightarrow> m)\<rparr>"

definition should_notify_immediate :: "incident_severity \<Rightarrow> bool" where
  "should_notify_immediate s \<longleftrightarrow> s = CriticalIncident"

lemma classified_response:
  "get_response_time (classify_incident impact exposed breached) =
     (if exposed then ''immediate'' else if \<not> breached then ''next_review'' else if impact = ''high'' then ''24h'' else ''72h'')
   \<and> (should_notify_immediate (classify_incident impact exposed breached) \<longleftrightarrow> exposed)"
  by (simp add: classify_incident_def get_response_time_def incident_response_times_def dict_get_def should_notify_immediate_def)

subsection \<open>Human oversight\<close>

text \<open>
  The queue of approvals is one hash with one time to live, which each new request starts again; the kill
  switch is a key of its own. \<open>ov_deadline\<close> is when the hash expires, if it does. A decision reads the hash
  and writes it in two commands, which are defined apart; a decision that no other call comes between is
  their composition. A new request writes the hash and starts its time to live in one step.
\<close>

record approval_request =
  aq_id :: string
  aq_tenant :: string
  aq_type :: string
  aq_description :: string
  aq_status :: string
  aq_risk :: rat
  aq_decided_by :: json
  aq_decided_at :: "rat option"
  aq_created :: rat
  aq_metadata :: "(string, json) dict"

record kill_switch =
  ks_operator :: json
  ks_reason :: json
  ks_activated_at :: rat

record oversight_store =
  ov_requests :: "(string, approval_request) dict"
  ov_deadline :: "rat option"
  ov_kill :: "kill_switch option"

definition approval_ttl :: rat where "approval_ttl = 86400"

definition live_requests :: "rat \<Rightarrow> oversight_store \<Rightarrow> (string, approval_request) dict" where
  "live_requests now ov = (case ov_deadline ov of None \<Rightarrow> ov_requests ov | Some d \<Rightarrow> if d \<le> now then [] else ov_requests ov)"

definition create_approval_request ::
  "string \<Rightarrow> rat \<Rightarrow> string \<Rightarrow> string \<Rightarrow> string \<Rightarrow> rat \<Rightarrow> (string, json) dict \<Rightarrow> oversight_store \<Rightarrow> approval_request \<times> oversight_store" where
  "create_approval_request i now tenant kind descr risk metadata ov =
     (let r = \<lparr>aq_id = i, aq_tenant = tenant, aq_type = kind, aq_description = descr, aq_status = ''pending'', aq_risk = risk,
               aq_decided_by = JNull, aq_decided_at = None, aq_created = now, aq_metadata = metadata\<rparr>
      in (r, ov\<lparr>ov_requests := AList.update i r (live_requests now ov), ov_deadline := Some (now + approval_ttl)\<rparr>))"

text \<open>
  Assigning a field does not validate it, but reading a document does: a stored request whose operator is
  neither text nor null cannot be read back, and a list that meets one raises. \<open>complaint\<close> is the text of
  the validation error.
\<close>

definition readable_request :: "approval_request \<Rightarrow> bool" where
  "readable_request r = (case aq_decided_by r of JNull \<Rightarrow> True | JStr _ \<Rightarrow> True | _ \<Rightarrow> False)"

definition list_pending_approvals :: "rat \<Rightarrow> string option \<Rightarrow> oversight_store \<Rightarrow> approval_request list py_result" where
  "list_pending_approvals now tenant ov =
     (let rs = map snd (live_requests now ov)
      in if list_ex (\<lambda>r. \<not> readable_request r) rs then Inl ValueError
         else Inr (sort_key (\<lambda>r. - aq_created r) (filter (\<lambda>r. case tenant of None \<Rightarrow> True | Some t \<Rightarrow> aq_tenant r = t) rs)))"

definition get_approval_request :: "rat \<Rightarrow> string \<Rightarrow> oversight_store \<Rightarrow> approval_request option py_result" where
  "get_approval_request now i ov =
     (case map_of (live_requests now ov) i of
        None \<Rightarrow> Inr None | Some r \<Rightarrow> if readable_request r then Inr (Some r) else Inl ValueError)"

text \<open>An error is the message of its \<open>ValueError\<close>.\<close>

definition decision_read ::
  "string \<Rightarrow> (json \<Rightarrow> string) \<Rightarrow> rat \<Rightarrow> string \<Rightarrow> json \<Rightarrow> oversight_store \<Rightarrow> string + approval_request" where
  "decision_read verdict complaint now i operator ov =
     (case map_of (live_requests now ov) i of
        None \<Rightarrow> Inl (''Approval request not found: '' @ i)
      | Some r \<Rightarrow>
          if \<not> readable_request r then Inl (complaint (aq_decided_by r))
          else if aq_status r \<noteq> ''pending'' then Inl (''Approval request '' @ i @ '' already '' @ aq_status r)
          else Inr (r\<lparr>aq_status := verdict, aq_decided_by := operator, aq_decided_at := Some now\<rparr>))"

text \<open>A hash that expired in between is written anew, without a time to live.\<close>

definition decision_write :: "rat \<Rightarrow> string \<Rightarrow> approval_request \<Rightarrow> oversight_store \<Rightarrow> oversight_store" where
  "decision_write now i r ov =
     (let live = live_requests now ov
      in ov\<lparr>ov_requests := AList.update i r live, ov_deadline := (if live = [] then None else ov_deadline ov)\<rparr>)"

definition decide_request ::
  "string \<Rightarrow> (json \<Rightarrow> string) \<Rightarrow> rat \<Rightarrow> string \<Rightarrow> json \<Rightarrow> oversight_store \<Rightarrow> (string + approval_request) \<times> oversight_store" where
  "decide_request verdict complaint now i operator ov =
     (case decision_read verdict complaint now i operator ov of
        Inl msg \<Rightarrow> (Inl msg, ov)
      | Inr r \<Rightarrow> (Inr r, decision_write now i r ov))"

lemmas decide_defs = decide_request_def decision_read_def decision_write_def

definition approve_request ::
  "(json \<Rightarrow> string) \<Rightarrow> rat \<Rightarrow> string \<Rightarrow> json \<Rightarrow> oversight_store \<Rightarrow> (string + approval_request) \<times> oversight_store" where
  "approve_request = decide_request ''approved''"

definition reject_request ::
  "(json \<Rightarrow> string) \<Rightarrow> rat \<Rightarrow> string \<Rightarrow> json \<Rightarrow> oversight_store \<Rightarrow> (string + approval_request) \<times> oversight_store" where
  "reject_request = decide_request ''rejected''"

definition activate_kill_switch :: "rat \<Rightarrow> json \<Rightarrow> json \<Rightarrow> oversight_store \<Rightarrow> oversight_store" where
  "activate_kill_switch now operator reason ov =
     ov\<lparr>ov_kill := Some \<lparr>ks_operator = operator, ks_reason = reason, ks_activated_at = now\<rparr>\<rparr>"

definition deactivate_kill_switch :: "oversight_store \<Rightarrow> oversight_store" where
  "deactivate_kill_switch ov = ov\<lparr>ov_kill := None\<rparr>"

definition is_kill_switch_active :: "oversight_store \<Rightarrow> bool" where
  "is_kill_switch_active ov \<longleftrightarrow> ov_kill ov \<noteq> None"

text \<open>The four fields of the status: active, operator, reason, time.\<close>

definition get_kill_switch_status :: "oversight_store \<Rightarrow> bool \<times> json \<times> json \<times> rat option" where
  "get_kill_switch_status ov =
     (case ov_kill ov of None \<Rightarrow> (False, JNull, JNull, None)
      | Some k \<Rightarrow> (True, ks_operator k, ks_reason k, Some (ks_activated_at k)))"

text \<open>
  The route of a decision: the operator is whatever the body names, and the status follows from the message.
  A body that is not JSON is None.
\<close>

definition body_operator :: "json option \<Rightarrow> json" where
  "body_operator body = (case body of Some (JObj kvs) \<Rightarrow> dict_get kvs ''operator_id'' (JStr ''unknown'') | _ \<Rightarrow> JStr ''unknown'')"

definition decision_route ::
  "(json \<Rightarrow> oversight_store \<Rightarrow> (string + approval_request) \<times> oversight_store) \<Rightarrow> json option \<Rightarrow> oversight_store
     \<Rightarrow> (int \<times> string + approval_request) \<times> oversight_store" where
  "decision_route decide body ov =
     (case decide (body_operator body) ov of
        (Inr r, ov') \<Rightarrow> (Inr r, ov')
      | (Inl msg, ov') \<Rightarrow> (Inl ((if sublist ''not found'' msg then 404 else 409), msg), ov'))"

definition approve_route :: "(json \<Rightarrow> string) \<Rightarrow> rat \<Rightarrow> string \<Rightarrow> json option \<Rightarrow> oversight_store \<Rightarrow> (int \<times> string + approval_request) \<times> oversight_store" where
  "approve_route complaint now i = decision_route (approve_request complaint now i)"

definition reject_route :: "(json \<Rightarrow> string) \<Rightarrow> rat \<Rightarrow> string \<Rightarrow> json option \<Rightarrow> oversight_store \<Rightarrow> (int \<times> string + approval_request) \<times> oversight_store" where
  "reject_route complaint now i = decision_route (reject_request complaint now i)"

definition list_approvals_route :: "rat \<Rightarrow> string option \<Rightarrow> oversight_store \<Rightarrow> int + approval_request list" where
  "list_approvals_route now tenant ov =
     (case list_pending_approvals now tenant ov of Inl _ \<Rightarrow> Inl 500 | Inr rs \<Rightarrow> Inr rs)"

definition get_approval_route :: "rat \<Rightarrow> string \<Rightarrow> oversight_store \<Rightarrow> int + approval_request" where
  "get_approval_route now i ov =
     (case get_approval_request now i ov of Inl _ \<Rightarrow> Inl 500 | Inr None \<Rightarrow> Inl 404 | Inr (Some r) \<Rightarrow> Inr r)"

text \<open>The operator and the reason must be text or null to make a status, else the validation error is a 500.\<close>

definition text_or_null :: "json \<Rightarrow> bool" where
  "text_or_null v = (case v of JNull \<Rightarrow> True | JStr _ \<Rightarrow> True | _ \<Rightarrow> False)"

definition kill_switch_route :: "rat \<Rightarrow> json option \<Rightarrow> oversight_store \<Rightarrow> (int + string) \<times> oversight_store" where
  "kill_switch_route now body ov =
     (case body of
        Some (JObj kvs) \<Rightarrow>
          (let action = dict_get kvs ''action'' (JStr ''activate''); operator = dict_get kvs ''operator_id'' (JStr ''unknown'');
               reason = dict_get kvs ''reason'' (JStr ''No reason provided'')
           in if action = JStr ''activate''
              then (if text_or_null operator \<and> text_or_null reason
                    then (Inr ''kill_switch_activated'', activate_kill_switch now operator reason ov) else (Inl 500, ov))
              else if action = JStr ''deactivate'' then (Inr ''kill_switch_deactivated'', deactivate_kill_switch ov)
              else (Inl 400, ov))
      | _ \<Rightarrow> (Inl 400, ov))"

inductive oversight_step :: "string \<Rightarrow> oversight_store \<Rightarrow> oversight_store \<Rightarrow> bool" for i where
  "j \<noteq> i \<Longrightarrow> oversight_step i ov (snd (create_approval_request j now t k d risk m ov))"
| "oversight_step i ov (snd (approve_request complaint now j who ov))"
| "oversight_step i ov (snd (reject_request complaint now j who ov))"
| "oversight_step i ov (snd (kill_switch_route now body ov))"

definition request_settled :: "string \<Rightarrow> oversight_store \<Rightarrow> approval_request \<Rightarrow> bool" where
  "request_settled i ov r \<longleftrightarrow>
     aq_status r \<noteq> ''pending'' \<and> (case map_of (ov_requests ov) i of None \<Rightarrow> True | Some r' \<Rightarrow> r' = r)"

lemma live_request: "map_of (live_requests now ov) i = Some r \<Longrightarrow> map_of (ov_requests ov) i = Some r"
  by (simp add: live_requests_def split: if_splits option.splits)

lemma decide_keeps_settled: "request_settled i ov r \<Longrightarrow> request_settled i (snd (decide_request v complaint now j who ov)) r"
  by (auto simp: decide_defs request_settled_def map_of_update Let_def dest: live_request split: option.splits)

definition empty_oversight :: oversight_store where
  "empty_oversight = \<lparr>ov_requests = [], ov_deadline = None, ov_kill = None\<rparr>"

interpretation oversight: settling_system "oversight_step i" empty_oversight "\<lambda>_. True" "request_settled i" for i
proof
  show "oversight_step i s s' \<Longrightarrow> True \<Longrightarrow> request_settled i s f \<Longrightarrow> request_settled i s' f" for s s' f
  proof (erule oversight_step.cases)
    fix j ov now t k d risk m
    assume "request_settled i s f" "s = ov" "j \<noteq> i" "s' = snd (create_approval_request j now t k d risk m ov)"
    then show "request_settled i s' f"
      by (auto simp: request_settled_def create_approval_request_def Let_def map_of_update live_requests_def split: option.splits)
  qed (simp_all add: approve_request_def reject_request_def decide_keeps_settled,
       auto simp: request_settled_def kill_switch_route_def activate_kill_switch_def deactivate_kill_switch_def Let_def
         split: option.splits json.splits)
qed simp_all

text \<open>
  Decisions that overlap: an approval and a rejection that both read the pending request both succeed, and
  the request reads as the later write.
\<close>

lemma live_after_decision:
  "map_of (live_requests now ov) i \<noteq> None \<Longrightarrow>
     live_requests now (decision_write now i r ov) = AList.update i r (live_requests now ov)"
  by (auto simp: decision_write_def live_requests_def Let_def split: option.splits if_splits)

lemma decision_race:
  assumes "map_of (live_requests now ov) i = Some r" "readable_request r" "aq_status r = ''pending''" "text_or_null who2"
  obtains a d where "decision_read ''approved'' complaint now i who1 ov = Inr a"
    "decision_read ''rejected'' complaint now i who2 ov = Inr d" "aq_status a = ''approved''" "aq_status d = ''rejected''"
    "get_approval_request now i (decision_write now i d (decision_write now i a ov)) = Inr (Some d)"
proof -
  let ?a = "r\<lparr>aq_status := ''approved'', aq_decided_by := who1, aq_decided_at := Some now\<rparr>"
  let ?d = "r\<lparr>aq_status := ''rejected'', aq_decided_by := who2, aq_decided_at := Some now\<rparr>"
  have "live_requests now (decision_write now i ?d (decision_write now i ?a ov))
      = AList.update i ?d (AList.update i ?a (live_requests now ov))"
    using assms(1) by (simp add: live_after_decision map_of_update)
  moreover have "readable_request ?d" using assms(4) by (simp add: readable_request_def text_or_null_def)
  ultimately have "get_approval_request now i (decision_write now i ?d (decision_write now i ?a ov)) = Inr (Some ?d)"
    by (simp add: get_approval_request_def map_of_update)
  with assms(1-3) show ?thesis by (intro that [of ?a ?d]) (simp_all add: decision_read_def)
qed

text \<open>C40. for calls that do not overlap: once an approval request is approved or rejected, it reads as that
  decision or as nothing, by its operator, and every later decision on it is refused, whatever else is
  created, decided or switched. A decision that is read before another is written overwrites it
  (\<open>decision_race\<close>).
\<close>

theorem oversight_decision_final:
  assumes "decide \<in> {approve_request, reject_request}" "decide complaint now i who ov = (Inr r, ov1)"
    and "(oversight_step i)\<^sup>*\<^sup>* ov1 ov2" "again \<in> {approve_request, reject_request}"
  shows "(case get_approval_request later i ov2 of Inr (Some r') \<Rightarrow> r' = r | _ \<Rightarrow> True) \<and> aq_decided_by r = who
    \<and> aq_status r \<noteq> ''pending'' \<and> (\<exists>msg. again complaint later i who2 ov2 = (Inl msg, ov2))"
proof -
  have r: "request_settled i ov1 r" "aq_decided_by r = who" "aq_status r \<noteq> ''pending''"
    using assms(1,2) by (auto simp: approve_request_def reject_request_def decide_defs request_settled_def Let_def map_of_update
        split: option.splits if_splits)
  then have s: "request_settled i ov2 r" using oversight.steps_settled [OF assms(3)] by blast
  then have at: "case map_of (live_requests later ov2) i of None \<Rightarrow> True | Some r' \<Rightarrow> r' = r"
    by (auto simp: request_settled_def dest: live_request split: option.splits)
  then have "\<exists>msg. decide_request v complaint later i who2 ov2 = (Inl msg, ov2)" for v
    using r(3) by (auto simp: decide_defs split: option.splits)
  moreover have "case get_approval_request later i ov2 of Inr (Some r') \<Rightarrow> r' = r | _ \<Rightarrow> True"
    using at by (auto simp: get_approval_request_def split: option.splits)
  ultimately show ?thesis using r assms(4) by (auto simp: approve_request_def reject_request_def)
qed

definition sample_oversight :: oversight_store where
  "sample_oversight = snd (create_approval_request ''a1'' 0 ''acme'' ''tool_approval'' ''delete'' (4/5) [] empty_oversight)"

theorem oversight_decision_final_witness:
  "let (d, ov1) = approve_request (\<lambda>_. ''invalid'') 5 ''a1'' (JStr ''ann'') sample_oversight;
       ov2 = snd (reject_request (\<lambda>_. ''invalid'') 6 ''a1'' (JStr ''bob'') ov1)
   in \<exists>r. d = Inr r \<and> (case get_approval_request 7 ''a1'' ov2 of Inr (Some r') \<Rightarrow> r' = r | _ \<Rightarrow> True) \<and> aq_decided_by r = JStr ''ann''"
proof -
  obtain r ov1 where run: "approve_request (\<lambda>_. ''invalid'') 5 ''a1'' (JStr ''ann'') sample_oversight = (Inr r, ov1)"
    by (simp add: approve_request_def decide_defs sample_oversight_def create_approval_request_def live_requests_def
        empty_oversight_def approval_ttl_def readable_request_def Let_def)
  have steps: "(oversight_step ''a1'')\<^sup>*\<^sup>* ov1 (snd (reject_request (\<lambda>_. ''invalid'') 6 ''a1'' (JStr ''bob'') ov1))"
    by (rule r_into_rtranclp) (rule oversight_step.intros)
  from oversight_decision_final [where decide = approve_request and again = approve_request and later = 7, OF _ run steps] run
  show ?thesis by simp
qed

text \<open>Who activated the switch can be read until it is deactivated; no other operation changes it.\<close>

lemma kill_switch_readable:
  "kill_switch_route now (Some (JObj [(''action'', JStr ''activate''), (''operator_id'', JStr who), (''reason'', JStr why)])) ov = (Inr answer, ov')
     \<Longrightarrow> is_kill_switch_active ov' \<and> get_kill_switch_status ov' = (True, JStr who, JStr why, Some now) \<and> ov_requests ov' = ov_requests ov"
  by (auto simp: kill_switch_route_def dict_get_def text_or_null_def activate_kill_switch_def is_kill_switch_active_def
      get_kill_switch_status_def Let_def)

text \<open>A decided request stays in the list of pending ones, and an operator that is no text breaks the list.\<close>

lemma decided_still_listed:
  assumes "approve_request complaint now i who ov = (Inr r, ov1)"
  shows "case list_pending_approvals now None ov1 of Inr rs \<Rightarrow> r \<in> set rs | Inl _ \<Rightarrow> True"
    and "\<not> text_or_null who \<Longrightarrow> list_pending_approvals now tenant ov1 = Inl ValueError"
proof -
  have "ov1 = decision_write now i r ov" "map_of (live_requests now ov) i \<noteq> None" "aq_decided_by r = who"
    using assms by (auto simp: approve_request_def decide_request_def decision_read_def split: option.splits if_splits)
  moreover from this have "map_of (live_requests now ov1) i = Some r" by (simp add: live_after_decision map_of_update)
  ultimately have "r \<in> set (map snd (live_requests now ov1))" "aq_decided_by r = who" by (force dest: map_of_SomeD)+
  then show "case list_pending_approvals now None ov1 of Inr rs \<Rightarrow> r \<in> set rs | Inl _ \<Rightarrow> True"
    "\<not> text_or_null who \<Longrightarrow> list_pending_approvals now tenant ov1 = Inl ValueError"
    by (auto simp: list_pending_approvals_def readable_request_def text_or_null_def list_ex_iff Let_def)
qed

text \<open>The answers of the route: a request that is gone is 404, a pending one takes the decision.\<close>

lemma decision_route_answers:
  "get_approval_request now i ov = Inr None \<Longrightarrow>
     approve_route complaint now i body ov = (Inl (404, ''Approval request not found: '' @ i), ov)"
  "get_approval_request now i ov = Inr (Some r) \<Longrightarrow> aq_status r = ''pending'' \<Longrightarrow>
     \<exists>r' ov'. approve_route complaint now i body ov = (Inr r', ov') \<and> aq_status r' = ''approved''
       \<and> aq_decided_by r' = body_operator body"
proof -
  have "sublist ''not found'' (''Approval request not found: '' @ i)"
    unfolding sublist_def by (intro exI [of _ "''Approval request ''"] exI [of _ "'': '' @ i"]) simp
  then show "get_approval_request now i ov = Inr None \<Longrightarrow>
     approve_route complaint now i body ov = (Inl (404, ''Approval request not found: '' @ i), ov)"
    by (auto simp: approve_route_def decision_route_def approve_request_def decide_defs get_approval_request_def split: option.splits if_splits)
  show "get_approval_request now i ov = Inr (Some r) \<Longrightarrow> aq_status r = ''pending'' \<Longrightarrow>
     \<exists>r' ov'. approve_route complaint now i body ov = (Inr r', ov') \<and> aq_status r' = ''approved''
       \<and> aq_decided_by r' = body_operator body"
    by (auto simp: approve_route_def decision_route_def approve_request_def decide_defs get_approval_request_def Let_def split: option.splits if_splits)
qed

subsection \<open>Governance events\<close>

datatype governance_event = ReviewOverdue | RiskThresholdBreached | KillSwitchActivated | GovernanceRecordUpdated | RiskAssessmentCreated

fun event_name :: "governance_event \<Rightarrow> string" where
  "event_name ReviewOverdue = ''review_overdue''"
| "event_name RiskThresholdBreached = ''risk_threshold_breached''"
| "event_name KillSwitchActivated = ''kill_switch_activated''"
| "event_name GovernanceRecordUpdated = ''governance_record_updated''"
| "event_name RiskAssessmentCreated = ''risk_assessment_created''"

datatype notification_channel = WebhookChannel | EmailChannel

record notification_config =
  nc_id :: string
  nc_tenant :: string
  nc_channel :: notification_channel
  nc_config :: "(string, json) dict"
  nc_events :: "governance_event list"
  nc_enabled :: bool
  nc_created :: rat

definition signature_lines :: string where
  "signature_lines = nl @ nl @ ''-- AnonReq Governance System''"

definition email_templates :: "(string, string) dict" where
  "email_templates =
     [(''review_overdue'',
        ''Subject: [AnonReq] Review Overdue for {tenant_id}'' @ nl @ nl @
        ''The governance review for tenant {tenant_id} is overdue by {days_overdue} days.'' @ nl @
        ''Please take immediate action to complete the review cycle.'' @ signature_lines),
      (''risk_threshold_breached'',
        ''Subject: [AnonReq] Risk Threshold Breached for {tenant_id}'' @ nl @ nl @
        ''The risk assessment for tenant {tenant_id} has breached the threshold.'' @ nl @
        ''Current risk score: {risk_score}'' @ nl @ ''Immediate reassessment required.'' @ signature_lines),
      (''kill_switch_activated'',
        ''Subject: [AnonReq] Kill-Switch Activated by {operator_id}'' @ nl @ nl @
        ''The kill-switch has been activated by {operator_id}.'' @ nl @ ''Reason: {reason}'' @ nl @
        ''All provider forwarding is now blocked.'' @ signature_lines)]"

text \<open>\<open>str.format\<close> with plain field names; \<open>shown\<close> is the text of a value.\<close>

function format_fields :: "(json \<Rightarrow> string) \<Rightarrow> (string, json) dict \<Rightarrow> string \<Rightarrow> string py_result" where
  "format_fields shown ctx s =
     (case s of
        [] \<Rightarrow> Inr []
      | c # r \<Rightarrow>
          if c = CHR ''{'' then
            (if r \<noteq> [] \<and> hd r = CHR ''{'' then map_sum id (Cons c) (format_fields shown ctx (tl r))
             else (let field = takeWhile (\<lambda>d. d \<noteq> CHR ''}'') r; rest = dropWhile (\<lambda>d. d \<noteq> CHR ''}'') r
                   in if rest = [] then Inl ValueError
                      else (case map_of ctx field of
                              None \<Rightarrow> Inl KeyError
                            | Some v \<Rightarrow> map_sum id ((@) (shown v)) (format_fields shown ctx (tl rest)))))
          else if c = CHR ''}'' then
            (if r \<noteq> [] \<and> hd r = c then map_sum id (Cons c) (format_fields shown ctx (tl r)) else Inl ValueError)
          else map_sum id (Cons c) (format_fields shown ctx r))"
  by pat_completeness auto
termination
proof (relation "measure (\<lambda>(f, c, s). length s)", goal_cases)
  case (3 shown ctx s c r field rest v)
  then show ?case using length_dropWhile_le [of "\<lambda>d. d \<noteq> CHR ''}''" r] by simp
qed simp_all

declare format_fields.simps [simp del]

definition render_email_template :: "(json \<Rightarrow> string) \<Rightarrow> string \<Rightarrow> (string, json) dict \<Rightarrow> string py_result" where
  "render_email_template shown name ctx = format_fields shown ctx (dict_get email_templates name [])"

type_synonym config_store = "(string, notification_config) dict"

definition create_notification_config ::
  "string \<Rightarrow> rat \<Rightarrow> string \<Rightarrow> notification_channel \<Rightarrow> (string, json) dict \<Rightarrow> governance_event list \<Rightarrow> config_store
     \<Rightarrow> notification_config \<times> config_store" where
  "create_notification_config i now tenant channel cfg events store =
     (let c = \<lparr>nc_id = i, nc_tenant = tenant, nc_channel = channel, nc_config = cfg, nc_events = events, nc_enabled = True,
               nc_created = now\<rparr>
      in (c, AList.update i c store))"

definition list_notification_configs :: "string \<Rightarrow> config_store \<Rightarrow> notification_config list" where
  "list_notification_configs tenant store = filter (\<lambda>c. nc_tenant c = tenant) (map snd store)"

definition get_notification_config :: "string \<Rightarrow> config_store \<Rightarrow> notification_config option" where
  "get_notification_config i store = map_of store i"

definition update_notification_config ::
  "string \<Rightarrow> (string, json) dict option \<Rightarrow> governance_event list option \<Rightarrow> bool option \<Rightarrow> config_store
     \<Rightarrow> notification_config py_result \<times> config_store" where
  "update_notification_config i cfg events on store =
     (case map_of store i of
        None \<Rightarrow> (Inl ValueError, store)
      | Some c \<Rightarrow>
          (let c1 = (case cfg of None \<Rightarrow> c | Some v \<Rightarrow> c\<lparr>nc_config := v\<rparr>);
               c2 = (case events of None \<Rightarrow> c1 | Some v \<Rightarrow> c1\<lparr>nc_events := v\<rparr>);
               c3 = (case on of None \<Rightarrow> c2 | Some v \<Rightarrow> c2\<lparr>nc_enabled := v\<rparr>)
           in (Inr c3, AList.update i c3 store)))"

definition delete_notification_config :: "string \<Rightarrow> config_store \<Rightarrow> unit py_result \<times> config_store" where
  "delete_notification_config i store =
     (case map_of store i of None \<Rightarrow> (Inl ValueError, store) | Some _ \<Rightarrow> (Inr (), AList.delete i store))"

text \<open>A webhook that has a URL is posted to once, and whatever the post raises is dropped.\<close>

record webhook_post =
  wp_url :: json
  wp_event :: string
  wp_tenant :: string
  wp_payload :: "(string, json) dict"

definition dispatch_webhook :: "notification_config \<Rightarrow> governance_event \<Rightarrow> (string, json) dict \<Rightarrow> webhook_post list" where
  "dispatch_webhook c e payload =
     (let url = dict_get (nc_config c) ''url'' (JStr [])
      in if \<not> truthy url then []
         else [\<lparr>wp_url = url, wp_event = event_name e, wp_tenant = nc_tenant c, wp_payload = payload\<rparr>])"

text \<open>An e-mail is rendered, which may raise, and goes nowhere.\<close>

definition dispatch_email :: "(json \<Rightarrow> string) \<Rightarrow> governance_event \<Rightarrow> (string, json) dict \<Rightarrow> unit py_result" where
  "dispatch_email shown e payload = map_sum id (\<lambda>_. ()) (render_email_template shown (event_name e) payload)"

fun notify_configs ::
  "(json \<Rightarrow> string) \<Rightarrow> governance_event \<Rightarrow> string \<Rightarrow> (string, json) dict \<Rightarrow> notification_config list \<Rightarrow> py_exn option \<times> webhook_post list" where
  "notify_configs shown e tenant payload [] = (None, [])"
| "notify_configs shown e tenant payload (c # cs) =
     (if nc_tenant c \<noteq> tenant \<or> \<not> nc_enabled c \<or> e \<notin> set (nc_events c) then notify_configs shown e tenant payload cs
      else (case nc_channel c of
              WebhookChannel \<Rightarrow> apsnd ((@) (dispatch_webhook c e payload)) (notify_configs shown e tenant payload cs)
            | EmailChannel \<Rightarrow>
                (case dispatch_email shown e payload of
                   Inl x \<Rightarrow> (Some x, []) | Inr _ \<Rightarrow> notify_configs shown e tenant payload cs)))"

definition notify_event ::
  "(json \<Rightarrow> string) \<Rightarrow> governance_event \<Rightarrow> string \<Rightarrow> (string, json) dict \<Rightarrow> config_store \<Rightarrow> py_exn option \<times> webhook_post list" where
  "notify_event shown e tenant payload store = notify_configs shown e tenant payload (map snd store)"

definition subscribed :: "governance_event \<Rightarrow> string \<Rightarrow> notification_config \<Rightarrow> bool" where
  "subscribed e tenant c \<longleftrightarrow> nc_tenant c = tenant \<and> nc_enabled c \<and> e \<in> set (nc_events c)"

definition mailed :: "governance_event \<Rightarrow> string \<Rightarrow> notification_config \<Rightarrow> bool" where
  "mailed e tenant c \<longleftrightarrow> subscribed e tenant c \<and> nc_channel c = EmailChannel"

text \<open>
  The posts of one event: to each subscribed webhook of the tenant in order. A subscribed e-mail stops the
  rest when its template cannot be filled, and is otherwise as if it were not there.
\<close>

lemma notify_configs_posts:
  "notify_configs shown e tenant payload cs =
     (case dispatch_email shown e payload of
        Inr _ \<Rightarrow> (None, concat (map (\<lambda>c. dispatch_webhook c e payload) (filter (\<lambda>c. subscribed e tenant c \<and> nc_channel c = WebhookChannel) cs)))
      | Inl x \<Rightarrow>
          ((if list_ex (mailed e tenant) cs then Some x else None),
           concat (map (\<lambda>c. dispatch_webhook c e payload) (filter (subscribed e tenant) (takeWhile (\<lambda>c. \<not> mailed e tenant c) cs)))))"
proof (induction cs)
  case Nil
  show ?case by (simp split: sum.splits)
next
  case (Cons c cs)
  have step: "notify_configs shown e tenant payload (c # cs) =
     (if \<not> subscribed e tenant c then notify_configs shown e tenant payload cs
      else if mailed e tenant c then
        (case dispatch_email shown e payload of Inl x \<Rightarrow> (Some x, []) | Inr _ \<Rightarrow> notify_configs shown e tenant payload cs)
      else apsnd ((@) (dispatch_webhook c e payload)) (notify_configs shown e tenant payload cs))"
    by (auto simp: subscribed_def mailed_def split: notification_channel.splits)
  have "mailed e tenant c \<Longrightarrow> subscribed e tenant c" "subscribed e tenant c \<Longrightarrow> \<not> mailed e tenant c \<longleftrightarrow> nc_channel c = WebhookChannel"
    by (cases "nc_channel c"; simp add: mailed_def)+
  then show ?case unfolding step Cons.IH
    by (cases "subscribed e tenant c"; cases "mailed e tenant c"; cases "dispatch_email shown e payload") simp_all
qed

lemma notify_event_stays_in_tenant:
  "p \<in> set (snd (notify_event shown e tenant payload store)) \<Longrightarrow>
     wp_tenant p = tenant \<and> (\<exists>c \<in> snd ` set store. subscribed e tenant c \<and> dict_get (nc_config c) ''url'' (JStr []) = wp_url p)"
  unfolding notify_event_def
proof (induction "map snd store" arbitrary: store)
  case (Cons c cs)
  obtain kv store' where st: "store = kv # store'" "snd kv = c" "cs = map snd store'" using Cons.hyps(2) by (cases store) auto
  have IH: "p \<in> set (snd (notify_configs shown e tenant payload cs)) \<Longrightarrow> ?case"
    using Cons.hyps(1) [OF st(3)] st by auto
  show ?case
  proof (cases "subscribed e tenant c \<and> nc_channel c = WebhookChannel \<and> p \<in> set (dispatch_webhook c e payload)")
    case True
    then have "wp_tenant p = tenant \<and> dict_get (nc_config c) ''url'' (JStr []) = wp_url p"
      by (auto simp: dispatch_webhook_def subscribed_def Let_def split: if_splits)
    with True st show ?thesis by auto
  next
    case False
    with Cons.prems have "p \<in> set (snd (notify_configs shown e tenant payload cs))"
      unfolding st(1) by (auto simp: st subscribed_def split: if_splits notification_channel.splits sum.splits)
    then show ?thesis by (rule IH)
  qed
qed simp

text \<open>An event whose type has no template renders the empty text, so only three of the events can fail.\<close>

lemma email_fails_only_with_template:
  "e \<in> {GovernanceRecordUpdated, RiskAssessmentCreated} \<Longrightarrow> dispatch_email shown e payload = Inr ()"
  by (auto simp: dispatch_email_def render_email_template_def email_templates_def dict_get_def format_fields.simps)

lemma overdue_without_days:
  assumes "map_of payload ''tenant_id'' = Some t" "map_of payload ''days_overdue'' = None"
  shows "dispatch_email shown ReviewOverdue payload = Inl KeyError"
  using assms by (simp add: dispatch_email_def render_email_template_def email_templates_def dict_get_def nl_def
      format_fields.simps takeWhile_append Let_def)

end
