(* ===== verification/Spec2Isabelle.thy ===== *)
theory Spec2Isabelle
  imports Detection RoundTrip TailBuffers GatewayRuns Records SocBuffer MappingStore AuditExport ProxyConfig StreamRoute Access ServiceLevels Incidents
begin

text \<open>
  AnonReq is a gateway between clients and providers of language models: it finds personal data and
  secrets in a chat request, replaces them by tokens, applies policies, posts the tokenized request,
  and restores the values in the answer. The sources are under \<open>src/src/anonreq/\<close>; file names below
  are relative to that directory. This development models the request path in full and the stores and
  governance workflows around it, and proves what makes them correct.

  How the theories correspond to the program, in the order a request meets them:

  \<^item> \<open>Prelude\<close>, \<open>PyRegex\<close>, \<open>PyText\<close>: what the code uses of Python. Exceptions as values of a sum,
    dictionaries as association lists in insertion order, slices, case folding, a matcher for the
    regular expressions of the code, \<open>int\<close>, UTF-8 and Base64 with their round trips. Code points are
    those below 256.
  \<^item> \<open>Json\<close>: the request body as a document, the extraction of its text nodes
    (\<open>pipeline/extraction.py\<close>) and the write-back by path (\<open>pipeline/tokenization.py\<close>).
  \<^item> \<open>Spans\<close>, \<open>Detection\<close>, \<open>DetectStage\<close>: the arbitration of overlapping spans
    (\<open>detection/span_arbiter.py\<close>), regex detection, exclusions and checksum validation, the handling of
    one node, and the detection stage with context boosting (\<open>pipeline/detection.py\<close>,
    \<open>detection/boost.py\<close>). \<open>Checksums\<close>: the validators and generators of \<open>locale/checksums/\<close>.
    \<open>LocaleBundles\<close>: \<open>locale/\<close>: registry, negotiation, merging, language plan.
  \<^item> \<open>Tokens\<close>, \<open>Restore\<close>, \<open>RoundTrip\<close>: the tokenizer (\<open>tokenization/tokenizer.py\<close>), the restorers
    (\<open>tokenization/restorer.py\<close>, \<open>restore/\<close>, \<open>streaming/restoration.py\<close>), the residual scan
    (\<open>verification/scanner.py\<close>), and what the three give together.
  \<^item> \<open>TailBuffers\<close>: the tail buffer of the streaming path (\<open>streaming/tail_buffer.py\<close>).
  \<^item> \<open>Classify\<close>, \<open>Policy\<close>, \<open>Tools\<close>, \<open>Dlp\<close>: the classification engines (\<open>classification/\<close>,
    \<open>services/classification_engine.py\<close>), the policy decision and enforcement points (\<open>policy/\<close>), tool
    governance (\<open>governance/tool_*.py\<close>, \<open>governance/pdp_tool_evaluator.py\<close>), and data loss prevention
    (\<open>services/dlp_engine.py\<close>, \<open>services/exfiltration_detector.py\<close>).
  \<^item> \<open>Pipeline\<close>, \<open>Stages\<close>, \<open>Gateway\<close>, \<open>GatewayRuns\<close>: the pipeline manager (\<open>pipeline/manager.py\<close>), each
    stage as a function of the context and the world (\<open>pipeline/*.py\<close>), the pipelines the routes build
    (\<open>routing/chat.py\<close>), and the theorems about whole runs.
  \<^item> \<open>MappingStore\<close>: the token mappings in Valkey (\<open>cache/manager.py\<close>) with retries and encryption, and
    the cleanup at the end of a stream (\<open>streaming/cleanup.py\<close>).
  \<^item> \<open>AuditChain\<close>, \<open>AuditExport\<close>: the hash chain, its verification, queries and anchors
    (\<open>services/audit_chain.py\<close>, \<open>services/chain_anchor.py\<close>), and the projections that leave the gateway
    (\<open>services/audit_export.py\<close>).
  \<^item> \<open>Workflows\<close>, \<open>Records\<close>: lifecycle stages (\<open>services/lifecycle.py\<close>), approvals of tool calls
    (\<open>governance/approval.py\<close>), legal holds and retention (\<open>retention/\<close>, \<open>services/retention.py\<close>), and data
    subject requests (\<open>dsar/\<close>, \<open>governance/router_dsar.py\<close>).
  \<^item> \<open>SocBuffer\<close>: the buffer in front of the sinks of the security event export (\<open>soc/buffer.py\<close>).
  \<^item> \<open>FirewallRules\<close>, \<open>FirewallPipeline\<close>: the rule firewall with its gates, middlewares and sliding
    window, and the inline firewall with its detectors (\<open>firewall/\<close>, \<open>middleware/firewall_*.py\<close>).
  \<^item> \<open>Proxy\<close>, \<open>ProxyConfig\<close>: the transparent proxy from bytes to bytes, with the adapter to the pipeline
    (\<open>proxy/transparent_proxy.py\<close>, \<open>proxy/pipeline_dispatcher.py\<close>, \<open>proxy/detection.py\<close>), the reverse proxy,
    CONNECT and PAC files. The contract \<open>proxy_dispatcher\<close> joins them to the theorems about whole runs.

  \<^item> \<open>ProviderKeys\<close>: the secrets of the providers: store, rotation with the sessions that pin a snapshot,
    reloading, key resolution (\<open>secrets/\<close>, \<open>providers/registry.py\<close>), and model aliases (\<open>routing/\<close>). The contract
    \<open>session_pins\<close> says what a session may rely on.
  \<^item> \<open>Providers\<close>: the four adapters (\<open>providers/openai.py\<close>, \<open>anthropic.py\<close>, \<open>gemini.py\<close>, \<open>ollama.py\<close>): requests, answers,
    errors and the events of a streamed answer, each exception a value.
  \<^item> \<open>StreamRoute\<close>: the streaming route (\<open>routing/chat.py\<close>) from the request to the last frame, with its gates, the
    generator under disconnection, closing and cancellation, and its cleanup.
  \<^item> \<open>Access\<close>: OIDC tokens, administrator credentials, roles and the client key (\<open>auth/oidc.py\<close>, \<open>admin/auth.py\<close>,
    \<open>middleware/rbac.py\<close>), tenants and the scope of reads (\<open>tenant/\<close>, \<open>middleware/tenant.py\<close>,
    \<open>services/tenant_scope.py\<close>) and licences. The contract \<open>tenant_binding\<close> joins what admits a caller to what it
    may read.
  \<^item> \<open>ServiceLevels\<close>: service level counters, windows and compliance (\<open>services/slo_engine.py\<close>), and the
    alarms with their cooldown, webhook attempts and dead letter queue (\<open>services/breach_detector.py\<close>).
  \<^item> \<open>Incidents\<close>: breach templates, notices and the notifier (\<open>breach/\<close>, \<open>services/breach.py\<close>), incidents and their
    severity (\<open>governance/incidents.py\<close>, \<open>incidents/classification.py\<close>), the approval queue, kill switch and
    governance notifications (\<open>services/oversight.py\<close>, \<open>services/notifications.py\<close>) with their routes.
  State and effects. A component's state is a record with the fields the code keeps; a database table
  is the list of its rows, a Valkey key space an association list whose entries carry the time at which
  they disappear. Generated identifiers, random draws, clock readings and the outcome of each call to
  a service are arguments. Calls that the code makes in one event-loop step are one step; where two
  commands of one operation can be separated by others (the decision on an approval), the halves are
  definitions of their own.

  Interfaces. Each contract between components is a locale with an interpretation on the code's model:
  the arbiter, the stages and the posting family of the pipeline, step systems with an invariant and
  settled facts (\<open>step_system\<close>, \<open>settling_system\<close>) for the workflows, holds and buffers, and the
  session store the stages rely on. The properties rest on the facts of these interpretations.

  What the groups of lemmas show. Detection loses no secret between the detectors and the tokenizer;
  tokenization refines the rendering of spans, reveals nothing of the hidden values but their equality,
  and is inverted by restoration; a run of the pipeline posts only tokenized text, ends with the
  cleanup, and without an error only if every stage finished; policies fail closed; every chain that
  was logged verifies, and verified chains with equal heads agree; stored mappings are read back and
  isolated; exports read back as the escaped safe rows; decisions, holds and stages change only as the
  workflows allow. Some properties state that the code does not do what its documentation says; the
  findings of the manifest name them.

  Bounds and fuel. Only the paged iteration over audit events takes fuel, the number of pages; one page
  more than the rows need is proved enough. All other loops are recursive functions with a termination
  proof: the regular-expression matcher and its scans by the rest of the text, the arbiter by the spans
  left, the retry loop of the mapping store because every wait is at least a tenth of a second of a limit
  of thirty, the attempts of a sink by the retries left.
  Floating-point times, thresholds and factors are rational or real numbers; counters are naturals,
  Python integers are unbounded.

  Not modelled. Third-party services and libraries are parameters: Presidio, the compiled patterns of
  configuration files, HTTP, JSON parsing, SHA-256 (an arbitrary function; the properties say where they
  assume that two digests do not collide), ISO times and Unicode normalisation. Startup, settings,
  logging and metrics, the network adapters (TLS interception, discovery connectors, sinks, agents, appliance),
  voice, images and documents, report templates, and key stores are input and output around the code
  modelled here, or planned; the manifest lists every component with its status.
\<close>

section \<open>Detection\<close>

text \<open>C1. \<open>SpanArbiter.merge\<close>: for non-empty detections the merged spans are ordered and pairwise
  disjoint, and every position some detector reported lies in exactly one of them.\<close>

theorem arbiter_partition:
  assumes "\<forall>s \<in> set (r @ n @ concat ex). proper s"
  shows "ordered_disjoint (arbiter_merge r n ex)
    \<and> covered (arbiter_merge r n ex) = covered (r @ n @ concat ex)
    \<and> (\<forall>p. p \<in> covered (r @ n @ concat ex)
          \<longrightarrow> (\<exists>!s. s \<in> set (arbiter_merge r n ex) \<and> s_start s \<le> p \<and> p < s_end s))"
  using arbiter.resolve_ordered [of "(r, n, ex)"] arbiter.resolve_covered [of "(r, n, ex)"]
    arbiter.unique_owner [of "(r, n, ex)"] assms by simp

definition sample_span :: "string \<Rightarrow> int \<Rightarrow> int \<Rightarrow> span" where
  "sample_span ty a b =
     \<lparr>entity_type = ty, s_start = a, s_end = b, score = 9 / 10, source = Some ''regex'', src_tag = None,
      protected = False, irreversible = False, reversible = True, node_index = 0\<rparr>"

theorem arbiter_partition_witness:
  "covered (arbiter_merge [sample_span ''EMAIL'' 2 9] [sample_span ''PERSON'' 5 12] [])
     = covered [sample_span ''EMAIL'' 2 9, sample_span ''PERSON'' 5 12]"
  using arbiter_partition [of "[sample_span ''EMAIL'' 2 9]" "[sample_span ''PERSON'' 5 12]" "[]"]
  by (simp add: proper_def sample_span_def)

text \<open>C2. A position inside a detection that must be masked irreversibly (flagged, protected source,
  irreversible type or MNPI) is owned, after the merge, by a span that is irreversible and protected,
  whatever lower-priority detections overlap it.\<close>

theorem arbiter_secret_survives:
  assumes "\<forall>s \<in> set (r @ n @ concat ex). proper s"
    and "x \<in> set (r @ n @ concat ex)" "must_mask x" "s_start x \<le> p" "p < s_end x"
    and "s \<in> set (arbiter_merge r n ex)" "s_start s \<le> p" "p < s_end s"
  shows "irreversible s \<and> protected s"
  using arbiter.secret_owner [of "(r, n, ex)" x p s] arbiter_merge_flags [of s r n ex] assms by simp

theorem arbiter_secret_survives_witness:
  "irreversible (hd (arbiter_merge [sample_span ''EMAIL'' 2 20] [sample_span ''MNPI_DEAL'' 5 12] []))"
proof -
  let ?a = "sample_span ''EMAIL'' 2 20" and ?b = "sample_span ''MNPI_DEAL'' 5 12"
  let ?s = "hd (arbiter_merge [?a] [?b] [])"
  have "\<forall>s \<in> set ([?a] @ [?b] @ concat []). proper s" by (simp add: proper_def sample_span_def)
  moreover have "?b \<in> set ([?a] @ [?b] @ concat [])" by simp
  moreover have "must_mask ?b" by code_simp
  moreover have "?s \<in> set (arbiter_merge [?a] [?b] [])" "s_start ?s \<le> 6" "6 < s_end ?s" by code_simp+
  moreover have "s_start ?b \<le> 6" "6 < s_end ?b" by (simp_all add: sample_span_def)
  ultimately show ?thesis using arbiter_secret_survives [of "[?a]" "[?b]" "[]" ?b 6 ?s] by blast
qed

text \<open>C3. One node of \<open>DetectionStage\<close>, for reports of every detector: the stage does not raise; the NER spans
  change only by the trimming of person names; every secret one of the four detectors reports (by flag, by
  protected source, by a name configured irreversible, or an enterprise hit without a source) is inside a
  span of the result that carries the node's index and is not reversible, whatever the exclusion list and
  the checksum registry contain; and every other reported position is inside a span of the result too,
  unless the merged span that holds it is unprotected and excluded or refused by its checksum.\<close>

theorem detection_keeps_secrets:
  assumes "\<forall>s \<in> set ner_results. in_text v s" and "\<forall>s \<in> set (rx @ mnpi @ ent). proper s"
  shows "\<exists>ner out. trim_person_spans ner_results v = Inr ner \<and> list_all2 trimmed_from ner ner_results
    \<and> detect_node names ex reg i v rx ner_results mnpi ent = Inr out
    \<and> (\<forall>x. secret_report names rx ner mnpi ent x \<longrightarrow>
         (\<exists>y \<in> set out. s_start y \<le> s_start x \<and> s_end x \<le> s_end y \<and> \<not> reversible y \<and> node_index y = i))
    \<and> (\<forall>x \<in> set (rx @ ner @ mnpi @ ent). \<forall>p. s_start x \<le> p \<and> p < s_end x \<longrightarrow>
         (\<exists>y \<in> set out. s_start y \<le> p \<and> p < s_end y \<and> node_index y = i)
         \<or> (\<exists>m \<in> set (merged_reports names rx ner mnpi ent). s_start m \<le> p \<and> p < s_end m \<and> filtered_out ex reg v m))"
proof -
  obtain ner where ner: "trim_person_spans ner_results v = Inr ner" "\<forall>t \<in> set ner. in_text v t" "list_all2 trimmed_from ner ner_results"
    using trim_person_spans_from [OF assms(1)] by blast
  have wf: "\<forall>s \<in> set (rx @ ner @ mnpi @ ent). proper s"
    using assms(2) ner(2) in_text_proper by auto
  obtain out where out: "detect_node names ex reg i v rx ner_results mnpi ent = Inr out"
    by (simp add: detect_node_def ner(1) Let_def)
  have "\<exists>y \<in> set out. s_start y \<le> s_start x \<and> s_end x \<le> s_end y \<and> \<not> reversible y \<and> node_index y = i"
    if "secret_report names rx ner mnpi ent x" for x
    using detect_node_secret [OF ner(1) wf, of x names ex reg i] that out by (auto simp: secret_report_def)
  then show ?thesis using ner(1,3) out detect_node_reports [OF ner(1) wf out] by blast
qed

text \<open>A name trimmed from an NER report and an MNPI deal, one configured irreversible, both against the exclusions.\<close>

theorem detection_keeps_secrets_witness:
  "\<exists>out. detect_node [''PERSON''] \<lparr>excl_exact = [''secret''], excl_wildcards = [\<lambda>_. True]\<rparr>
       [(''MNPI_DEAL'', \<lambda>_. False)] 3 ''call Ann on the secret deal'' [] [sample_span ''PERSON'' 0 11] [sample_span ''MNPI_DEAL'' 16 22] [] = Inr out
     \<and> (\<exists>y \<in> set out. s_start y \<le> 5 \<and> 8 \<le> s_end y \<and> \<not> reversible y \<and> node_index y = 3)
     \<and> (\<exists>y \<in> set out. s_start y \<le> 16 \<and> 22 \<le> s_end y \<and> \<not> reversible y \<and> node_index y = 3)"
proof -
  let ?v = "''call Ann on the secret deal''" and ?ex = "\<lparr>excl_exact = [''secret''], excl_wildcards = [\<lambda>_. True]\<rparr>"
  let ?x = "sample_span ''PERSON'' 5 8" and ?y = "sample_span ''MNPI_DEAL'' 16 22"
  have t: "trim_person_spans [sample_span ''PERSON'' 0 11] ?v = Inr [?x]" by code_simp
  have "must_mask ?y" by code_simp
  then have s: "secret_report [''PERSON''] [] [?x] [?y] [] ?x" "secret_report [''PERSON''] [] [?x] [?y] [] ?y"
    by (simp_all add: secret_report_def sample_span_def)
  have "\<forall>s \<in> set [sample_span ''PERSON'' 0 11]. in_text ?v s" "\<forall>s \<in> set ([] @ [?y] @ []). proper s"
    by (simp_all add: in_text_def proper_def sample_span_def)
  from detection_keeps_secrets [OF this, of "[''PERSON'']" ?ex "[(''MNPI_DEAL'', \<lambda>_. False)]" 3]
  obtain out where o: "detect_node [''PERSON''] ?ex [(''MNPI_DEAL'', \<lambda>_. False)] 3 ?v [] [sample_span ''PERSON'' 0 11] [?y] [] = Inr out"
    "\<forall>x. secret_report [''PERSON''] [] [?x] [?y] [] x \<longrightarrow>
         (\<exists>y \<in> set out. s_start y \<le> s_start x \<and> s_end x \<le> s_end y \<and> \<not> reversible y \<and> node_index y = 3)"
    unfolding t by auto
  have "s_start ?x = 5" "s_end ?x = 8" "s_start ?y = 16" "s_end ?y = 22" by (simp_all add: sample_span_def)
  with o s show ?thesis by metis
qed

text \<open>The Luhn check of \<open>luhn_checksum\<close> detects every error in a single digit: two card numbers
  that differ in one digit do not both pass.\<close>

theorem luhn_detects_digit_error:
  assumes "is_digit c" "is_digit d" "c \<noteq> d"
    and "luhn_checksum (pre @ c # post)"
  shows "\<not> luhn_checksum (pre @ d # post)"
proof -
  let ?v = "\<lambda>s. map digit_value (filter is_digit s)"
  have split: "rev (?v (pre @ x # post)) = rev (?v post) @ digit_value x # rev (?v pre)" if "is_digit x" for x
    using that by simp
  have small: "digit_value x < 10" if "is_digit x" for x
    using that by (auto simp: is_digit_def digit_value_def)
  have "(of_char c :: nat) \<noteq> of_char d" using assms(3) by simp
  then have "digit_value c \<noteq> digit_value d"
    using assms(1,2) unfolding is_digit_def digit_value_def by linarith
  moreover have "luhn_loop (rev (?v post) @ digit_value c # rev (?v pre)) 0 False mod 10 = 0"
    using assms(4) split [OF assms(1)] unfolding luhn_checksum_def Let_def by (simp split: if_splits)
  ultimately have "luhn_loop (rev (?v post) @ digit_value d # rev (?v pre)) 0 False mod 10 \<noteq> 0"
    by (intro luhn_single_digit [OF small [OF assms(1)] small [OF assms(2)]])
  then show ?thesis using split [OF assms(2)] unfolding luhn_checksum_def Let_def by simp
qed

theorem luhn_detects_digit_error_witness:
  "luhn_checksum ''4111 1111 1111 1111'' \<and> \<not> luhn_checksum ''4111 1111 1111 1112''"
proof -
  have "luhn_checksum (''4111 1111 1111 111'' @ CHR ''1'' # [])" by code_simp
  moreover have "is_digit (CHR ''1'')" "is_digit (CHR ''2'')" by (simp_all add: is_digit_def)
  ultimately show ?thesis
    using luhn_detects_digit_error [of "CHR ''1''" "CHR ''2''" "''4111 1111 1111 111''" "[]"] by simp
qed

text \<open>\<open>trim_person_spans\<close> never raises on spans inside the text, and only moves the borders of a
  span inwards: the results stay inside the text, in the same order, with all other fields kept.\<close>

theorem trim_person_only_shrinks:
  assumes "\<forall>s \<in> set ss. in_text v s"
  shows "\<exists>ts. trim_person_spans ss v = Inr ts \<and> (\<forall>t \<in> set ts. in_text v t)
     \<and> list_all2 (\<lambda>t s. s_start s \<le> s_start t \<and> s_end t \<le> s_end s
                         \<and> t = s\<lparr>s_start := s_start t, s_end := s_end t\<rparr>) ts ss"
  by (rule trim_person_spans_total [OF assms])

theorem trim_person_only_shrinks_witness:
  "\<exists>ts. trim_person_spans [sample_span ''PERSON'' 0 14] ''by Ann Bell, yes'' = Inr ts
     \<and> (\<forall>t \<in> set ts. in_text ''by Ann Bell, yes'' t)"
proof -
  have "\<forall>s \<in> set [sample_span ''PERSON'' 0 14]. in_text ''by Ann Bell, yes'' s"
    by (simp add: in_text_def sample_span_def)
  from trim_person_only_shrinks [OF this] show ?thesis by blast
qed

text \<open>\<open>RegexDetector._collapse_overlaps\<close> keeps a sub-list of the detections but may lose
  coverage: of two partially overlapping detections the less specific one is dropped, and the
  positions only it covered are then reported by nobody.\<close>

theorem collapse_overlaps_leaves_gap:
  "\<exists>ss p. list_all proper ss \<and> set (collapse_overlaps ss) \<subseteq> set ss
     \<and> p \<in> covered ss \<and> p \<notin> covered (collapse_overlaps ss)"
proof -
  let ?ss = "[sample_span ''EMAIL'' 0 10, sample_span ''PHONE'' 5 15]"
  have "collapse_overlaps ?ss = [sample_span ''EMAIL'' 0 10]" by code_simp
  then have "12 \<notin> covered (collapse_overlaps ?ss)" by (simp add: sample_span_def)
  moreover have "12 \<in> covered ?ss" by (simp add: sample_span_def)
  moreover have "list_all proper ?ss" by (simp add: proper_def sample_span_def)
  ultimately show ?thesis using collapse_overlaps_subset by blast
qed

section \<open>Tokenization\<close>

text \<open>\<open>Tokenizer._non_overlapping\<close>: the accepted spans lie inside the text, are ordered and
  disjoint, cover exactly what the valid detections cover, and a position inside a detection that
  is not reversible is owned by an accepted span that is not reversible.\<close>

theorem accepted_spans_sound:
  "ordered_disjoint (non_overlapping u ds) \<and> (\<forall>s \<in> set (non_overlapping u ds). in_text u s)
    \<and> covered (non_overlapping u ds) = covered (valid_spans (length u) ds)
    \<and> (\<forall>x p s. x \<in> set (valid_spans (length u) ds) \<and> \<not> reversible x \<and> s_start x \<le> p \<and> p < s_end x
         \<and> s \<in> set (non_overlapping u ds) \<and> s_start s \<le> p \<and> p < s_end s \<longrightarrow> \<not> reversible s)"
  using non_overlapping_properties [of u ds] tokenizer_spans.secret_owner [where i = "(u, ds)"] by auto

theorem accepted_spans_sound_witness:
  "\<not> reversible (hd (non_overlapping ''call 555 0100 x99''
     [Spn (sample_span ''PHONE'' 5 13), Spn ((sample_span ''SECRET'' 9 17)\<lparr>reversible := False\<rparr>), Malformed]))"
proof -
  let ?u = "''call 555 0100 x99''"
    and ?x = "(sample_span ''SECRET'' 9 17)\<lparr>reversible := False\<rparr>"
  let ?ds = "[Spn (sample_span ''PHONE'' 5 13), Spn ?x, Malformed]"
  let ?s = "hd (non_overlapping ?u ?ds)"
  have "?s \<in> set (non_overlapping ?u ?ds)" "s_start ?s \<le> 10" "10 < s_end ?s" by code_simp+
  moreover have "?x \<in> set (valid_spans (length ?u) ?ds)" by (simp add: sample_span_def)
  ultimately show ?thesis
    using accepted_spans_sound [of ?u ?ds, THEN conjunct2, THEN conjunct2, THEN conjunct2,
        THEN spec, of ?x, THEN spec, of 10, THEN spec, of ?s]
    by (simp add: sample_span_def)
qed

text \<open>C4. \<open>Tokenizer.tokenize\<close> refines its specification: the output is the text with exactly the
  accepted spans replaced by their session tokens, equal (value, reversibility) pairs get the same
  token, different ones different tokens, tokens of earlier calls are kept, and the mapping
  accumulated over the session holds exactly the tokens of reversible values.\<close>

theorem tokenize_refines:
  assumes "tokenize se u ds = (se', out, m)" "session_ok se" "mapping_ok se M"
  shows "out = render u 0 (non_overlapping u ds) (session_token se' u)
    \<and> session_ok se' \<and> mapping_ok se' (M ++ map_of m)
    \<and> map_of (value_to_token se) \<subseteq>\<^sub>m map_of (value_to_token se')
    \<and> (\<forall>s \<in> set (non_overlapping u ds). \<forall>t \<in> set (non_overlapping u ds).
         session_token se' u s = session_token se' u t
           \<longleftrightarrow> (span_value u s, reversible s) = (span_value u t, reversible t))"
proof -
  note P = tokenize_properties [OF assms]
  have inj: "(span_value u s, reversible s) = (span_value u t, reversible t)"
    if "s \<in> set (non_overlapping u ds)" "t \<in> set (non_overlapping u ds)"
      "session_token se' u s = session_token se' u t" for s t
    using P(1,5) that unfolding session_ok_def by metis
  have cong: "session_token se' u s = session_token se' u t"
    if "(span_value u s, reversible s) = (span_value u t, reversible t)" for s t
    using arg_cong [OF that, of "\<lambda>k. the (map_of (value_to_token se') k)"] by (simp only: session_token_def)
  have "\<forall>s \<in> set (non_overlapping u ds). \<forall>t \<in> set (non_overlapping u ds).
      session_token se' u s = session_token se' u t
        \<longleftrightarrow> (span_value u s, reversible s) = (span_value u t, reversible t)"
    by (intro ballI iffI) (rule inj, assumption+, rule cong)
  then show ?thesis using P(1,2,4,6) by blast
qed

definition sample_text :: string where
  "sample_text = ''a@b.c or c@d.e, not a@b.c''"

definition sample_detections :: "detection list" where
  "sample_detections =
     [Spn (sample_span ''EMAIL'' 0 5), Spn (sample_span ''EMAIL'' 9 14),
      Spn (sample_span ''EMAIL'' 20 25)]"

definition sample_run :: "session \<times> string \<times> (string, string) dict" where
  "sample_run = tokenize (initialize_session 7 new_tokenizer) sample_text sample_detections"

lemma sample_run_eq:
  "tokenize (initialize_session 7 new_tokenizer) sample_text sample_detections
     = (fst sample_run, ''[EMAIL_7] or [EMAIL_8], not [EMAIL_7]'', [(''[EMAIL_7]'', ''a@b.c''), (''[EMAIL_8]'', ''c@d.e'')])"
proof -
  have "fst (snd sample_run) = ''[EMAIL_7] or [EMAIL_8], not [EMAIL_7]''"
    "snd (snd sample_run) = [(''[EMAIL_7]'', ''a@b.c''), (''[EMAIL_8]'', ''c@d.e'')]"
    by code_simp+
  then show ?thesis unfolding sample_run_def by (metis prod.collapse)
qed

theorem tokenize_refines_witness:
  "session_ok (fst sample_run)
   \<and> mapping_ok (fst sample_run) (map_of [(''[EMAIL_7]'', ''a@b.c''), (''[EMAIL_8]'', ''c@d.e'')])"
  using tokenize_refines [OF sample_run_eq session_ok_initialize mapping_ok_initialize] by simp

text \<open>C5. Non-interference of tokenization: two texts of equal length that differ only inside the
  valid detections, and agree on which accepted spans have equal values, are sent to the provider as
  the same text. The output therefore reveals nothing of the masked values but their equalities.\<close>

theorem tokenize_noninterference:
  assumes "agree_outside (valid_spans (length u) ds) u v"
    and "same_values (non_overlapping u ds) u v"
  shows "fst (snd (tokenize (initialize_session rnd se) u ds))
       = fst (snd (tokenize (initialize_session rnd te) v ds))"
  by (rule tokenize_same_output [OF assms])

theorem tokenize_noninterference_witness:
  "fst (snd (tokenize (initialize_session 7 new_tokenizer) ''x@y.z or p@q.r, not x@y.z'' sample_detections))
     = ''[EMAIL_7] or [EMAIL_8], not [EMAIL_7]''"
proof -
  let ?v = "''x@y.z or p@q.r, not x@y.z''"
  have "agree_outside (valid_spans (length sample_text) sample_detections) sample_text ?v"
    by code_simp
  moreover have "same_values (non_overlapping sample_text sample_detections) sample_text ?v"
    by code_simp
  ultimately show ?thesis
    using tokenize_noninterference [of sample_text sample_detections ?v 7 new_tokenizer new_tokenizer]
    by (simp add: sample_run_eq)
qed

section \<open>Restoration\<close>

text \<open>C6. Round trip: restoring a tokenized text with the mapping of its session gives the text
  back with every reversible value in place and the tokens of irreversible values left standing; if
  every accepted span is reversible it gives the original text. The entity types hold no brackets or
  lower-case letters, and no token of the mapping occurs in the original text.\<close>

theorem restore_inverts_tokenize:
  assumes tok: "tokenize (initialize_session rnd se) u ds = (se', out, m)"
    and clean: "\<forall>s \<in> set (non_overlapping u ds). clean_type (entity_type s)"
    and fresh: "\<forall>k \<in> fst ` set m. \<not> occurs_ci k u"
  shows "restore_text out m = render u 0 (non_overlapping u ds) (restored u (session_token se' u))
    \<and> ((\<forall>s \<in> set (non_overlapping u ds). reversible s) \<longrightarrow> restore_text out m = u)"
proof -
  note P = tokenize_properties [OF tok session_ok_initialize mapping_ok_initialize]
  note N = non_overlapping_properties [of u ds]
  have C: "clean_session se'" "distinct (map fst m)"
    using tokenize_clean [OF tok clean_session_initialize clean] by simp_all
  have R: "restore_text out m = render u 0 (non_overlapping u ds) (restored u (session_token se' u))"
    unfolding P(6) using P(1,2,5) C fresh by (intro restore_text_render) simp_all
  moreover have "restore_text out m = u" if "\<forall>s \<in> set (non_overlapping u ds). reversible s"
  proof -
    have "render u 0 (non_overlapping u ds) (restored u (session_token se' u))
        = render u 0 (non_overlapping u ds) (span_value u)"
      using that by (intro render_cong) (simp add: restored_def)
    also have "\<dots> = u"
      using render_original [OF N(1,2), of 0] N(2) by (simp add: py_slice_full in_text_def)
    finally show ?thesis using R by simp
  qed
  ultimately show ?thesis by blast
qed

theorem restore_inverts_tokenize_witness:
  "restore_text ''[EMAIL_7] or [EMAIL_8], not [EMAIL_7]'' [(''[EMAIL_7]'', ''a@b.c''), (''[EMAIL_8]'', ''c@d.e'')]
     = sample_text"
proof -
  have "\<forall>s \<in> set (non_overlapping sample_text sample_detections). clean_type (entity_type s) \<and> reversible s"
    by code_simp
  moreover have "\<forall>k \<in> fst ` set [(''[EMAIL_7]'', ''a@b.c''), (''[EMAIL_8]'', ''c@d.e'')]. \<not> occurs_ci k sample_text"
    by code_simp
  ultimately show ?thesis
    using restore_inverts_tokenize [OF sample_run_eq, THEN conjunct2, THEN mp] by blast
qed

section \<open>Streaming\<close>

text \<open>C7. Streaming loses, repeats and reorders no text: after any sequence of events, the text
  chunks emitted so far followed by what \<open>flush_remaining\<close> returns is the concatenation of all text
  deltas, and between events the buffer stays below \<open>MAX_BUFFER_CHARS\<close>.\<close>

theorem tail_buffer_conserves_text:
  assumes "ingest_all dump evs (new_tail_buffer now) = (outs, tb)"
  shows "text_of outs @ fst (flush_remaining (terminate tb)) = concat (map (\<lambda>(_, _, ev). delta_of ev) evs)
    \<and> length (active_buffer tb) < MAX_BUFFER_CHARS"
  using ingest_all_conserves [OF assms]
  by (simp add: flush_remaining_def terminate_def new_tail_buffer_def MAX_BUFFER_CHARS_def)

definition text_event :: "string \<Rightarrow> stream_event" where
  "text_event s = \<lparr>event_type = TEXT_DELTA, delta_text = Some s, tool_call = None, reasoning = None,
     finish_reason = None, metadata = [], ev_provider = ''openai'', ev_role = Some ''assistant''\<rparr>"

theorem tail_buffer_conserves_text_witness:
  "text_of (fst (ingest_all (\<lambda>_. []) [(1, 1, text_event ''Hello [EM''), (3, 3, text_event ''AIL_1]!'')] (new_tail_buffer 1)))
     @ active_buffer (snd (ingest_all (\<lambda>_. []) [(1, 1, text_event ''Hello [EM''), (3, 3, text_event ''AIL_1]!'')] (new_tail_buffer 1)))
   = ''Hello [EMAIL_1]!''"
  using tail_buffer_conserves_text [OF prod.collapse [symmetric],
      of "\<lambda>_. []" "[(1, 1, text_event ''Hello [EM''), (3, 3, text_event ''AIL_1]!'')]" 1]
  by (simp add: flush_remaining_def terminate_def delta_of_def text_event_def)

definition split_stream :: "(rat \<times> rat \<times> stream_event) list" where
  "split_stream = [(1, 1, text_event (''[EMAIL_0]'' @ replicate 125 (CHR ''.'')))]"

lemma split_stream_parts:
  "case ingest_all (\<lambda>_. []) split_stream (new_tail_buffer 1) of (outs, tb) \<Rightarrow>
     text_of outs = ''[EMAIL'' \<and> fst (flush_remaining tb) = ''_0]'' @ replicate 125 (CHR ''.'')"
  by code_simp

lemma split_stream_restored:
  "take 3 (sr_restore_text (sr_start_session [(''[EMAIL_0]'', ''ann'')]) (''[EMAIL_0]'' @ replicate 125 (CHR ''.''))) = ''ann''"
  by code_simp

lemma split_stream_unrestored:
  "sr_restore_text (sr_start_session [(''[EMAIL_0]'', ''ann'')]) ''[EMAIL'' = ''[EMAIL''"
  by code_simp

text \<open>The flush cuts at a fixed distance from the end, so a token can be split between two
  emitted chunks; restoring chunk by chunk, as the stream handler does, then leaves the token in the
  delivered text although restoring the whole text would have replaced it.\<close>

theorem tail_buffer_splits_token:
  "\<exists>evs sr. let (outs, tb) = ingest_all (\<lambda>_. []) evs (new_tail_buffer 1)
      in sr_restore_text sr (text_of outs) @ sr_restore_text sr (fst (flush_remaining tb))
         \<noteq> sr_restore_text sr (text_of outs @ fst (flush_remaining tb))"
proof -
  let ?sr = "sr_start_session [(''[EMAIL_0]'', ''ann'')]"
  obtain outs tb where r: "ingest_all (\<lambda>_. []) split_stream (new_tail_buffer 1) = (outs, tb)" by fastforce
  then have t: "text_of outs = ''[EMAIL''" "fst (flush_remaining tb) = ''_0]'' @ replicate 125 (CHR ''.'')"
    using split_stream_parts by simp_all
  have whole: "text_of outs @ fst (flush_remaining tb) = ''[EMAIL_0]'' @ replicate 125 (CHR ''.'')" unfolding t by simp
  have "take 3 (sr_restore_text ?sr (text_of outs) @ rest) \<noteq> take 3 (sr_restore_text ?sr (text_of outs @ fst (flush_remaining tb)))" for rest
    unfolding whole unfolding t(1) split_stream_unrestored split_stream_restored by simp
  then have "sr_restore_text ?sr (text_of outs) @ sr_restore_text ?sr (fst (flush_remaining tb))
      \<noteq> sr_restore_text ?sr (text_of outs @ fst (flush_remaining tb))"
    by metis
  then show ?thesis using r by (intro exI [of _ split_stream] exI [of _ ?sr]) simp
qed

section \<open>The gateway\<close>

text \<open>C8. What a run of the non-streaming pipeline posts to the provider, for every request, configuration
  and behaviour of the services: nothing, or exactly one body. In the second case the request passed the
  classification, the gate on the level of its detections, the policy decision at that level, the DLP
  inspection and the check of its tool calls; the body is the one the tokenizer writes, in one session,
  from the detections the detection stage found: in it every text node of the request (string contents
  and arguments of tool calls) reads its text with a token of that session in the place of every accepted
  span. Only the model's name may differ. What is not a text node is posted as it came (C11).\<close>

theorem gateway_posts_tokenized:
  "(let w' = snd (fst (run_pipeline (build_pipeline gw app) (new_request_context ri, w)))
    in posted w' = posted w
       \<or> (\<exists>body ds. posted w' = posted w @ [body] \<and> request_detections gw (new_request_context ri, w) = Some ds
            \<and> admitted_for gw app ri (Some (ri_model ri)) ds w
            \<and> (\<exists>b. tokenized_body gw ri ds = Some b \<and> same_but_model body b)
            \<and> carries_hidden body (extract_text (ri_body ri)) (request_session gw ri ds) ds))"
  using gateway_run_posted [of gw app ri w] unfolding safe_body_def by (metis prod.collapse)

text \<open>C9. The cleanup stage, which deletes the token mapping and writes the audit event, is executed in
  every run, as the last stage, whatever the other stages did: fail, raise or be cancelled.\<close>

theorem gateway_cleanup_always:
  "(let executed = fst (snd (run_pipeline (build_pipeline gw app) st))
    in executed = [0 ..< 13] \<or> (\<exists>k. k \<le> 13 \<and> executed = [0 ..< k] @ [12]))"
  using gateway_executed [of gw app st] by (metis prod.collapse)

text \<open>C10. Fail-secure: when a run ends without a pending exception and without an error in the context, all
  thirteen stages were executed in order and each of them finished without an error.\<close>

theorem gateway_fail_secure:
  "(case run_pipeline (build_pipeline gw app) st of
      (st', executed, raised) \<Rightarrow>
        raised \<or> has_errors (fst st')
        \<or> executed = [0 ..< 13] \<and> clean_run (build_pipeline gw app) st = Some st')"
proof -
  obtain st' executed raised where run: "run_pipeline (build_pipeline gw app) st = (st', executed, raised)"
    by (metis prod_cases3)
  show ?thesis
  proof (cases "raised \<or> has_errors (fst st')")
    case False
    with run have r: "run_pipeline (build_pipeline gw app) st = (st', executed, False)" and e: "errors (fst st') = []"
      by (simp_all add: has_errors_def)
    obtain k where "executed = [0 ..< k] @ filter (\<lambda>j. guaranteed (build_pipeline gw app ! j)) [k ..< 13]"
      "k = 13" "clean_run (build_pipeline gw app) st = Some st'"
      using gate.run_outcome [OF r] e unfolding pipeline_length by blast
    then show ?thesis using run by simp
  qed (use run in auto)
qed

text \<open>The streaming pipeline is built without the application state, so its policy, DLP and tool stages
  do nothing: a run of it ends in the same state as a run of the pipeline without them.\<close>

theorem streaming_has_no_policy:
  "fst (run_pipeline (streaming_pipeline gw) st)
     = fst (run_pipeline (shared_stages gw @ [mk_stage ''TokenizationStage'' (tokenization_execute gw),
                                              mk_stage ''ForwardingGuard'' (guard_execute gw)]) st)"
  by (rule streaming_ungoverned)

text \<open>C11. The extractor reads only string contents, although the request model admits a list of content
  parts. For a request of the chat route whose messages hold such lists (or no content) and no tool calls,
  that does not ask for a stream, in a gateway without policy, DLP and tool services, when the empty text
  and the level of no detections stop nothing, the locale header is accepted and the model's name resolves:
  the request is posted to the provider as \<open>model_dump\<close> gives it, with every content part in clear; only
  the model's name may be replaced.\<close>

theorem list_content_posted_in_clear:
  assumes "ri_body ri = dump_request rq" "list_all parts_message (cr_messages rq)" "\<not> cr_stream rq"
    and "co_action (classify (gw_engine gw) []) \<noteq> ''BLOCK''" "co_action (classify (gw_engine gw) []) \<noteq> ''ROUTE_LOCAL''"
    and "negotiate (gw_registry gw) (gw_universal gw) (ri_locale ri) = Inr (bnds, pr)"
    and "highest (service_classify (gw_entity_map gw) (gw_set_list gw []) (ri_client_level ri)) \<noteq> HIGHLY_RESTRICTED"
    and "\<forall>resolve. gw_alias gw = Some resolve \<longrightarrow> resolve (gw_py_str gw (JStr (cr_model rq))) \<noteq> None"
  shows "\<exists>body. posted (snd (fst (run_pipeline (build_pipeline gw None) (new_request_context ri, w)))) = posted w @ [body]
    \<and> same_but_model body (dump_request rq)"
proof -
  have n: "extract_text (ri_body ri) = []" using assms(1,2) by (simp add: parts_request_no_text)
  have "map_of (ri_body ri) ''stream'' \<noteq> Some (JBool True)" "dict_get (ri_body ri) ''model'' (JStr []) = JStr (cr_model rq)"
    using assms(1,3) by (simp_all add: dump_request_def dict_get_def)
  with untexted_posted [OF n assms(4-7)] assms(1,8) show ?thesis by simp
qed

definition sample_parts :: chat_request where
  "sample_parts =
     \<lparr>cr_model = ''gpt'',
      cr_messages = [\<lparr>cm_role = ''user'',
        cm_content = JList [JObj [(''type'', JStr ''text''), (''text'', JStr ''mail ann@example.com'')]],
        cm_name = None, cm_tool_calls = None, cm_tool_call_id = None\<rparr>],
      cr_stream = False, cr_temperature = None, cr_top_p = None, cr_n = Some 1, cr_stop = JNull, cr_max_tokens = None,
      cr_presence_penalty = None, cr_frequency_penalty = None, cr_logit_bias = None, cr_user = None, cr_tools = None,
      cr_tool_choice = JNull, cr_response_format = None, cr_seed = None\<rparr>"

theorem list_content_posted_in_clear_witness:
  "\<exists>body. posted (snd (fst (run_pipeline (build_pipeline sample_gateway None)
       (new_request_context (sample_request (dump_request sample_parts)), sample_world)))) = [body]
     \<and> same_but_model body (dump_request sample_parts)"
proof -
  let ?ri = "sample_request (dump_request sample_parts)"
  have "negotiate (gw_registry sample_gateway) (gw_universal sample_gateway) (ri_locale ?ri)
      = Inr ([sample_bundle], \<lparr>locale_codes = [], was_fallback = True, dropped_codes = [], had_header = False\<rparr>)"
    by code_simp
  moreover have "co_action (classify (gw_engine sample_gateway) []) = ''ANONYMIZE''"
    by code_simp
  moreover have "highest (service_classify (gw_entity_map sample_gateway) (gw_set_list sample_gateway []) (ri_client_level ?ri)) = INTERNAL"
    by code_simp
  moreover have "list_all parts_message (cr_messages sample_parts)" "\<not> cr_stream sample_parts"
    by (simp_all add: sample_parts_def parts_message_def)
  moreover have "ri_body ?ri = dump_request sample_parts" "gw_alias sample_gateway = None" "posted sample_world = []"
    by (simp_all add: sample_request_def sample_gateway_def sample_world_def)
  ultimately show ?thesis
    using list_content_posted_in_clear [of ?ri sample_parts sample_gateway _ _ sample_world] by simp
qed

text \<open>C12. The audit event of a request is written at most once: however many attempts are made, whether a
  failed attempt stored its row before failing or not, and when the task is cancelled, the table keeps its invariant and gains at most one
  row, which carries the request's event id; when the write is reported as done, the row is there.\<close>

theorem audit_write_at_most_once:
  assumes "db_ok (gw_digest gw) db"
  shows "(case emit_attempts gw c k n db of (db', ok) \<Rightarrow>
      db_ok (gw_digest gw) db'
      \<and> (db' = db \<or> (\<exists>r. rows db' = rows db @ [r] \<and> event_id r = gw_event_id gw (tenant_id c) (request_id c)
                       \<and> ae_tenant r = tenant_id c))
      \<and> (ok = Emitted \<longrightarrow> (\<exists>r \<in> set (rows db'). event_id r = gw_event_id gw (tenant_id c) (request_id c))))"
proof -
  obtain db' ok where e: "emit_attempts gw c k n db = (db', ok)" by fastforce
  show ?thesis using emit_attempts_once [OF e assms] unfolding e prod.case .
qed

theorem audit_write_at_most_once_witness:
  "\<exists>r. rows (fst (emit_attempts sample_gateway (new_request_context (sample_request [])) 1 3 empty_db)) = [r]"
proof -
  let ?c = "new_request_context (sample_request [])"
  obtain db' ok where e: "emit_attempts sample_gateway ?c 1 3 empty_db = (db', ok)" by fastforce
  have "ok = Emitted" using e
    by (simp add: numeral_3_eq_3 sample_gateway_def Let_def split: sum.splits prod.splits)
  moreover have "db_ok (gw_digest sample_gateway) empty_db" by (rule empty_db_ok)
  ultimately show ?thesis
    using audit_write_at_most_once [of sample_gateway empty_db ?c 1 3] e by (auto simp: empty_db_def)
qed


section \<open>Policy, tools and DLP\<close>

text \<open>C13. A decision that is not in the cache: the request is forwarded exactly if none of the four checks
  blocks it, and a service that raises blocks. \<open>limits_kept\<close> and \<open>budget_kept\<close> state the rate limits and
  the spend budget on the services' answers; \<open>rules_permit\<close> and \<open>residency_permits\<close> say that the first
  matching classification rule and the residency fallback carry another action than \<open>BLOCK\<close>. The decision
  point knows no middle: its decision is \<open>ALLOW\<close> or \<open>BLOCK\<close>, so a rule or a fallback with \<open>ROUTE_LOCAL\<close>,
  \<open>FLAG_AND_FORWARD\<close> or \<open>MONITOR\<close> has the effect of \<open>ALLOW\<close>. For \<open>ROUTE_LOCAL\<close> that contradicts the
  configuration's documentation and the enforcement point, which answers 503 to it (a finding; see the
  theorem after this one).\<close>

theorem policy_forwards_unless_blocked:
  assumes "map_of cache (pdp_cache_key tenant (sv_hash sv tenant (case mdl of None \<Rightarrow> [] | Some m \<Rightarrow> m) level
             (case prov of None \<Rightarrow> [] | Some p \<Rightarrow> p))) = None"
    and "list_all (\<lambda>(_, rl). residency_valid rl) (sv_residency sv)"
  shows "should_forward (enforce (fst (evaluate_all sv t_get t_set now cache tenant mdl level prov)) n tr did ts)
      = (rules_permit sv tenant level \<and> limits_kept sv tenant \<and> budget_kept sv tenant \<and> residency_permits sv tenant)
    \<and> pd_action (fst (evaluate_all sv t_get t_set now cache tenant mdl level prov)) \<in> {ALLOW, BLOCK}"
proof -
  let ?ds = "policy_checks sv now tenant level"
  have "first_block ?ds = None
      \<longleftrightarrow> rules_permit sv tenant level \<and> limits_kept sv tenant \<and> budget_kept sv tenant \<and> residency_permits sv tenant"
    unfolding first_block_none policy_checks_def
    using evaluate_classification_block check_rate_limit_block check_spend_block evaluate_residency_block [OF assms(2)]
    by simp
  moreover have "should_forward (enforce (fst (evaluate_all sv t_get t_set now cache tenant mdl level prov)) n tr did ts)
      \<longleftrightarrow> first_block ?ds = None"
    unfolding evaluate_all_miss [OF assms(1)] enforce_forward
    by (auto split: option.split dest: first_block_action)
  moreover have "pd_action (fst (evaluate_all sv t_get t_set now cache tenant mdl level prov)) \<in> {ALLOW, BLOCK}"
    unfolding evaluate_all_miss [OF assms(1)] by (auto split: option.split dest: first_block_action)
  ultimately show ?thesis by simp
qed

text \<open>The enforcement point refuses a \<open>ROUTE_LOCAL\<close> decision, but the decision point never makes one: a
  tenant whose rule or whose residency fallback says \<open>ROUTE_LOCAL\<close> has its requests sent to the provider.\<close>

theorem route_local_is_forwarded:
  assumes "map_of cache (pdp_cache_key tenant (sv_hash sv tenant (case mdl of None \<Rightarrow> [] | Some m \<Rightarrow> m) level
             (case prov of None \<Rightarrow> [] | Some p \<Rightarrow> p))) = None"
    and "pd_action (evaluate_classification sv now tenant level) = ROUTE_LOCAL
      \<or> pd_action (evaluate_residency sv now tenant None) = ROUTE_LOCAL"
    and "\<forall>d \<in> set (policy_checks sv now tenant level). pd_action d \<noteq> BLOCK"
  shows "should_forward (enforce (fst (evaluate_all sv t_get t_set now cache tenant mdl level prov)) n tr did ts)
    \<and> \<not> should_forward (enforce (decision ROUTE_LOCAL ids now why) n tr did ts)
    \<and> status_code (enforce (decision ROUTE_LOCAL ids now why) n tr did ts) = Some 503"
proof -
  have "first_block (policy_checks sv now tenant level) = None" using assms(3) by (simp add: first_block_none)
  then show ?thesis
    unfolding evaluate_all_miss [OF assms(1)] by (simp add: enforce_def decision_def)
qed

definition sample_policies :: pdp_services where
  "sample_policies =
     \<lparr>sv_store = make_policy_store [], sv_cached_rules = (\<lambda>_. Some None), sv_rules_written = True,
      sv_limits = \<lparr>rpm = 10, tpm = 10, concurrent = 1\<rparr>, sv_transaction = (\<lambda>_. Some (3, 3, None)),
      sv_budgets = [(''acme'', \<lparr>daily_usd = Some 5, monthly_usd = None, budget_enabled = True\<rparr>)],
      sv_spend = (\<lambda>_. Some (Some ''4'', None)), sv_decimal = (\<lambda>s. if s = ''4'' then Some 4 else None),
      sv_residency = [(''acme'', \<lparr>allowed_regions = [''eu-west-1''], blocked_regions = [''us-east-1''],
                                  fallback_action = ROUTE_LOCAL\<rparr>)],
      sv_hash = (\<lambda>t m l p. m @ l @ p), sv_cache_ttl = 5\<rparr>"

lemma sample_residency: "list_all (\<lambda>(_, rl). residency_valid rl) (sv_residency sample_policies)"
  by code_simp

theorem policy_forwards_unless_blocked_witness:
  "should_forward (enforce (fst (evaluate_all sample_policies 0 0 0 [] ''acme'' (Some ''gpt'') ''PUBLIC'' None)) 0 False [] [])"
proof -
  have "rules_permit sample_policies ''acme'' ''PUBLIC''" "limits_kept sample_policies ''acme''"
    "budget_kept sample_policies ''acme''" "residency_permits sample_policies ''acme''"
    by code_simp+
  then show ?thesis
    using policy_forwards_unless_blocked [of "[]" "''acme''" sample_policies "Some ''gpt''" "''PUBLIC''" None, OF _ sample_residency]
    by simp
qed

theorem route_local_is_forwarded_witness:
  "pd_action (evaluate_residency sample_policies 0 ''acme'' None) = ROUTE_LOCAL
   \<and> should_forward (enforce (fst (evaluate_all sample_policies 0 0 0 [] ''acme'' (Some ''gpt'') ''PUBLIC'' None)) 0 False [] [])"
proof -
  have r: "pd_action (evaluate_residency sample_policies 0 ''acme'' None) = ROUTE_LOCAL"
    "\<forall>d \<in> set (policy_checks sample_policies 0 ''acme'' ''PUBLIC''). pd_action d \<noteq> BLOCK"
    by code_simp+
  show ?thesis
    using route_local_is_forwarded [OF _ disjI2 [OF r(1)] r(2), of "[]" "Some ''gpt''" None] r(1) by simp
qed

text \<open>The decision point asks for the region \<open>None\<close>, which the router reads as \<open>unknown\<close>: no valid
  region code, so the allowed and blocked lists of a residency rule never decide; the fallback action
  always does.\<close>

theorem residency_lists_never_decide:
  assumes "map_of (sv_residency sv) tenant = Some rl" "residency_valid rl"
  shows "pd_action (evaluate_residency sv now tenant None) = fallback_action rl
    \<and> pd_rule_ids (evaluate_residency sv now tenant None) = [''residency_fallback'']"
  using evaluate_residency_unknown [OF assms] by simp

theorem residency_lists_never_decide_witness:
  "pd_rule_ids (evaluate_residency sample_policies 0 ''acme'' None) = [''residency_fallback'']"
  using residency_lists_never_decide [of sample_policies "''acme''"
      "\<lparr>allowed_regions = [''eu-west-1''], blocked_regions = [''us-east-1''], fallback_action = ROUTE_LOCAL\<rparr>"]
    sample_residency
  by (simp add: sample_policies_def)

text \<open>A decision stays in force for \<open>cache_ttl\<close> seconds whatever the services answer in the meantime: a
  second evaluation of the same request by the same tenant within that time returns the first decision, even
  when its limits or its budget are exhausted by then. The cache of another tenant is never consulted.\<close>

theorem cached_decision_stays:
  assumes "sv_hash sv' = sv_hash sv" "sv_cache_ttl sv' = sv_cache_ttl sv" "t - t_set < of_int (sv_cache_ttl sv)"
    and "evaluate_all sv t_get t_set now cache tenant mdl level prov = (d, cache')"
    and "map_of cache (pdp_cache_key tenant (sv_hash sv tenant (case mdl of None \<Rightarrow> [] | Some m \<Rightarrow> m) level
             (case prov of None \<Rightarrow> [] | Some p \<Rightarrow> p))) = None"
  shows "evaluate_all sv' t t' now' cache' tenant mdl level prov = (d, cache')"
proof -
  let ?k = "pdp_cache_key tenant (sv_hash sv tenant (case mdl of None \<Rightarrow> [] | Some m \<Rightarrow> m) level
             (case prov of None \<Rightarrow> [] | Some p \<Rightarrow> p))"
  have "map_of cache' ?k = Some (t_set, d)"
    using assms(4,5)
    by (auto simp: evaluate_all_def get_cached_def set_cache_def Let_def map_of_update split: if_splits)
  then show ?thesis using assms(1-3) by (intro evaluate_all_hit) simp_all
qed

theorem cached_decision_stays_witness:
  "\<not> limits_kept (sample_policies\<lparr>sv_transaction := \<lambda>_. Some (11, 3, None)\<rparr>) ''acme''
   \<and> should_forward (enforce (fst (evaluate_all (sample_policies\<lparr>sv_transaction := \<lambda>_. Some (11, 3, None)\<rparr>) 4 4 4
        (snd (evaluate_all sample_policies 0 0 0 [] ''acme'' (Some ''gpt'') ''PUBLIC'' None))
        ''acme'' (Some ''gpt'') ''PUBLIC'' None)) 0 False [] [])"
proof -
  let ?sv = "sample_policies\<lparr>sv_transaction := \<lambda>_. Some (11, 3, None)\<rparr>"
  let ?r = "evaluate_all sample_policies 0 0 0 [] ''acme'' (Some ''gpt'') ''PUBLIC'' None"
  have "evaluate_all ?sv 4 4 4 (snd ?r) ''acme'' (Some ''gpt'') ''PUBLIC'' None = (fst ?r, snd ?r)"
    using cached_decision_stays [of ?sv sample_policies 4 0 0 0 "[]" "''acme''" "Some ''gpt''" "''PUBLIC''" None "fst ?r" "snd ?r"]
    by (simp add: sample_policies_def)
  moreover have "should_forward (enforce (fst ?r) 0 False [] [])" by code_simp
  moreover have "\<not> limits_kept ?sv ''acme''" by code_simp
  ultimately show ?thesis by simp
qed

text \<open>A rate-limit check that fails because the cache is unavailable is marked \<open>503\<close>, but the enforcement
  point looks at the rule id first and answers 429; the same failure of the spend check is answered 503.\<close>

theorem failed_rate_check_answers_429:
  "(let d = check_rate_limit (sv\<lparr>sv_transaction := \<lambda>_. None\<rparr>) now tenant
    in enforcement d = Some ''503'' \<and> status_code (enforce d n tr did ts) = Some 429)
   \<and> status_code (enforce (failed_decision ''spend_limit_error'' now why) n tr did ts) = Some 503"
proof -
  have "fst (determine_block_type (failed_decision ''rate_limit_error'' now why)) = 429" for why
    unfolding determine_block_type_def failed_decision_def Let_def by code_simp
  moreover have "fst (determine_block_type (failed_decision ''spend_limit_error'' now why)) = 503" for why
    unfolding determine_block_type_def failed_decision_def Let_def by code_simp
  ultimately show ?thesis
    by (simp add: check_rate_limit_def enforce_def handle_block_def Let_def failed_decision_def case_prod_beta)
qed

text \<open>Tool governance is complete: when the stage leaves no error, the calls of every message could be
  extracted in the format detected for the request, and the evaluator's permission for each of them, under
  the context's provider and delegation, is not \<open>BlockTool\<close>.\<close>

theorem governed_calls_not_blocked:
  assumes "as_tools a = Some te" "original_request c = Some body" "detect_format body = Some fmt"
    and "map_of body ''messages'' = Some (JList ms)" "JObj msg \<in> set ms"
    and "\<not> has_errors (fst (fst (tool_execute gw (Some a) (c, w))))"
  shows "\<exists>calls. extract_calls (gw_json gw) msg fmt = Some calls
    \<and> list_all (\<lambda>call. td_permission (fst (evaluate_tool te (provider c) (map_of (audit_metadata c) ''delegation_id'') call))
                         \<noteq> BlockTool) calls"
  using assms by (intro govern_messages_allowed [of "gw_json gw" te fmt ms]) (simp_all add: tool_execute_def dict_get_def)

text \<open>The extractor never fills in a call's provider and the provider stage runs later, so policies are
  looked up under the provider \<open>unknown\<close>: unless that name is configured, a tool that every configured
  provider blocks gets the default for unlisted tools.\<close>

theorem tool_policies_not_consulted:
  assumes "extract_calls lib msg fmt = Some calls" "call \<in> set calls"
    and "get_provider_policy (te_parser te) ''unknown'' ''model'' = None"
    and "get_provider_policy (te_parser te) ''unknown'' ''host'' = None" "default_unlisted te \<noteq> BlockTool"
  shows "td_permission (fst (evaluate_tool te None delegation call)) = default_unlisted te
    \<and> fst (snd (evaluate_tool te None delegation call)) = None"
  using evaluate_plain_unlisted [OF extract_calls_plain [OF assms(1,2)] assms(3-5)] by simp

definition sample_tools :: tool_evaluator where
  "sample_tools =
     (let yaml = [(''providers'', JObj [(''openai'', JObj [(''tools'',
                    JList [JObj [(''name'', JStr ''drop_db''), (''permission'', JStr ''block'')]])])])]
      in \<lparr>te_parser = (case parse_tool_policies yaml of Some ps \<Rightarrow> ps | None \<Rightarrow> []),
          default_unlisted = AllowTool, default_critical = BlockTool, strict_domain_isolation = True\<rparr>)"

definition sample_call_message :: "(string \<times> json) list" where
  "sample_call_message =
     [(''tool_calls'', JList [JObj [(''function'', JObj [(''name'', JStr ''drop_db''), (''arguments'', JObj [])])]])]"

abbreviation "no_json \<equiv> \<lparr>loads = (\<lambda>_. None), py_str = (\<lambda>_. [])\<rparr>"

abbreviation "drop_call \<equiv> new_tool_call (JStr []) ''drop_db'' (JObj []) ''openai''"

theorem tool_policies_not_consulted_witness:
  "extract_calls no_json sample_call_message ''openai'' = Some [drop_call]
   \<and> td_permission (fst (evaluate_tool sample_tools (Some ''openai'') None drop_call)) = BlockTool
   \<and> td_permission (fst (evaluate_tool sample_tools None None drop_call)) = AllowTool"
proof -
  have x: "extract_calls no_json sample_call_message ''openai'' = Some [drop_call]" by code_simp
  moreover have "td_permission (fst (evaluate_tool sample_tools (Some ''openai'') None drop_call)) = BlockTool" by code_simp
  moreover have "get_provider_policy (te_parser sample_tools) ''unknown'' ''model'' = None"
    "get_provider_policy (te_parser sample_tools) ''unknown'' ''host'' = None"
    "default_unlisted sample_tools = AllowTool" by code_simp+
  ultimately show ?thesis
    using tool_policies_not_consulted [OF x, of drop_call sample_tools None] by simp
qed

definition sample_app :: app_state where
  "sample_app = \<lparr>as_policy = None, as_dlp = None, as_tools = Some sample_tools\<rparr>"

definition sample_tool_context :: processing_context where
  "sample_tool_context =
     (new_processing_context ''r1'' ''acme'')\<lparr>original_request := Some [(''messages'', JList [JObj sample_call_message])]\<rparr>"

theorem governed_calls_not_blocked_witness:
  "has_errors (fst (fst (tool_execute sample_gateway (Some sample_app) (sample_tool_context\<lparr>provider := Some ''openai''\<rparr>, sample_world))))"
proof (rule ccontr)
  let ?c = "sample_tool_context\<lparr>provider := Some ''openai''\<rparr>"
  assume "\<not> ?thesis"
  then obtain calls where "extract_calls (gw_json sample_gateway) sample_call_message ''openai'' = Some calls"
    "list_all (\<lambda>call. td_permission (fst (evaluate_tool sample_tools (provider ?c)
        (map_of (audit_metadata ?c) ''delegation_id'') call)) \<noteq> BlockTool) calls"
    using governed_calls_not_blocked [of sample_app sample_tools ?c "[(''messages'', JList [JObj sample_call_message])]"
        "''openai''" "[JObj sample_call_message]" sample_call_message sample_gateway sample_world]
    by (auto simp: sample_app_def sample_tool_context_def detect_format_def sample_call_message_def)
  moreover have "extract_calls (gw_json sample_gateway) sample_call_message ''openai'' = Some [drop_call]" by code_simp
  moreover have "td_permission (fst (evaluate_tool sample_tools (Some ''openai'') None drop_call)) = BlockTool" by code_simp
  ultimately show False by (auto simp: sample_tool_context_def new_processing_context_def)
qed

text \<open>C14. No DLP match is lost: the inspection blocks a text as soon as one core pattern that matches is configured
  to block or quarantine, and it blocks exactly if one of the detections it reports does.\<close>

theorem dlp_blocks_matches:
  assumes "inspect e text tenant = Some r"
  shows "(dr_blocked r \<longleftrightarrow> list_ex (\<lambda>d. dd_action d = DBlock \<or> dd_action d = DQuarantine) (dr_detections r))
    \<and> (\<forall>cat ps p a. (cat, ps) \<in> set (core_patterns e) \<and> p \<in> set ps \<and> dp_find p text \<noteq> []
          \<and> dlp_action_of (dp_action p) = Some a \<and> (a = DBlock \<or> a = DQuarantine) \<longrightarrow> dr_blocked r)"
  using inspect_blocked [OF assms] inspect_core_match [OF assms] unfolding list_ex_iff by blast

definition sample_dlp :: dlp_engine where
  "sample_dlp =
     \<lparr>core_patterns = [(CCredentials, [\<lparr>dp_id = ''key'', dp_find = (\<lambda>s. if py_in ''sk-'' s then [(0, 3)] else []),
                                        dp_category = ''Credentials'', dp_action = ''block''\<rparr>])],
      tenant_patterns = [], exfiltration = \<lparr>ec_methods = [], ec_entropy = False, ec_threshold = 6, ec_min_length = 30\<rparr>\<rparr>"

theorem dlp_blocks_matches_witness: "map_option dr_blocked (inspect sample_dlp ''sk-123'' ''acme'') = Some True"
proof -
  have "dlp_action_of ''block'' = Some DBlock" "py_in ''sk-'' ''sk-123''" by code_simp+
  then obtain r where r: "inspect sample_dlp ''sk-123'' ''acme'' = Some r"
    by (simp add: inspect_def sample_dlp_def pattern_detections_def dict_get_def Let_def del: py_in.simps)
  have f: "core_patterns sample_dlp = [(CCredentials, [\<lparr>dp_id = ''key'', dp_find = (\<lambda>s. if py_in ''sk-'' s then [(0, 3)] else []),
                                        dp_category = ''Credentials'', dp_action = ''block''\<rparr>])]"
    by (simp add: sample_dlp_def)
  have "py_in ''sk-'' ''sk-123''" "dlp_action_of ''block'' = Some DBlock" by code_simp+
  then have "dr_blocked r" using dlp_blocks_matches [OF r] f by fastforce
  with r show ?thesis by simp
qed

text \<open>The entropy method of the exfiltration detector looks at words of thirty or more characters, but the
  entropy of a word is at most the logarithm of its length: with the default threshold 6.0 the method reports
  nothing on an ASCII text without a word longer than 64 characters.\<close>

theorem entropy_method_idle:
  assumes "6 \<le> ec_threshold cfg" "list_all (\<lambda>c. (of_char c :: nat) < 128) text"
    and "list_all (\<lambda>(i, j). j - i \<le> 64) (word_runs 0 text)"
  shows "exf_detect cfg text = concat (map (run_method text) (ec_methods cfg))"
  by (rule exf_detect_short_words [OF assms])

theorem entropy_method_idle_witness:
  "exf_detect \<lparr>ec_methods = [], ec_entropy = True, ec_threshold = 6, ec_min_length = 30\<rparr> ''aB3dEfGh1jKlMn0pQrStUvWxYz2456789+/'' = []"
proof -
  have "list_all (\<lambda>c. (of_char c :: nat) < 128) ''aB3dEfGh1jKlMn0pQrStUvWxYz2456789+/''" by code_simp
  moreover have "list_all (\<lambda>(i, j). j - i \<le> 64) (word_runs 0 ''aB3dEfGh1jKlMn0pQrStUvWxYz2456789+/'')" by code_simp
  ultimately show ?thesis
    using entropy_method_idle [of "\<lparr>ec_methods = [], ec_entropy = True, ec_threshold = 6, ec_min_length = 30\<rparr>"
        "''aB3dEfGh1jKlMn0pQrStUvWxYz2456789+/''"] by simp
qed

section \<open>The audit chain\<close>

text \<open>C15. Whatever events are logged, in whatever order and for whatever tenants, the chain of every tenant
  verifies, and verification looks at each of the tenant's rows.\<close>

theorem logged_chains_verify:
  "verify_chain digest (log_all digest es) tenant None
     = \<lparr>is_intact = True, broken_at = None, checked_count = length (tenant_rows tenant (rows (log_all digest es)))\<rparr>"
  by (rule verify_chain_stored [OF log_all_ok])

text \<open>C16. Tamper evidence: two tables whose chains of a tenant both verify and end in the same hash hold the same
  hashed content in the tenant's last rows, as far back as the shorter chain reaches, provided the digest
  does not collide on the events of the two chains.\<close>

theorem verified_chains_agree:
  assumes "is_intact (verify_chain digest db tenant None)" "is_intact (verify_chain digest db' tenant None)"
    and "no_collision digest (tenant_rows tenant (rows db) @ tenant_rows tenant (rows db'))"
    and "map_option event_hash (get_latest_event db tenant) = map_option event_hash (get_latest_event db' tenant)"
    and "k < length (tenant_rows tenant (rows db))" "k < length (tenant_rows tenant (rows db'))"
  shows "hashed_fields (rev (tenant_rows tenant (rows db)) ! k) = hashed_fields (rev (tenant_rows tenant (rows db')) ! k)"
proof -
  let ?rs = "tenant_rows tenant (rows db)" and ?rs' = "tenant_rows tenant (rows db')"
  obtain p q where "linked digest p ?rs" "linked digest q ?rs'" using intact_linked assms(1,2) by blast
  moreover have ne: "?rs \<noteq> []" "?rs' \<noteq> []" using assms(5,6) by auto
  moreover have "event_hash (last ?rs) = event_hash (last ?rs')"
    using assms(4) ne by (simp add: get_latest_event_def Let_def)
  ultimately show ?thesis using linked_same_end assms(3,5,6) by blast
qed

definition sample_event :: "string \<Rightarrow> rat \<Rightarrow> audit_event" where
  "sample_event i t = new_audit_event i t ''anonymization'' ''acme'' None None None None None ''{}'' 90"

abbreviation "sample_log \<equiv> log_all event_id [sample_event ''e1'' 1, sample_event ''e2'' 2]"

theorem verified_chains_agree_witness:
  "hashed_fields (rows sample_log ! 1) = hashed_fields (rows (sample_log\<lparr>rows := drop 1 (rows sample_log)\<rparr>) ! 0)"
proof -
  let ?db = sample_log and ?db' = "sample_log\<lparr>rows := drop 1 (rows sample_log)\<rparr>"
  have "is_intact (verify_chain event_id ?db ''acme'' None)" "is_intact (verify_chain event_id ?db' ''acme'' None)"
    by code_simp+
  moreover have "no_collision event_id (tenant_rows ''acme'' (rows ?db) @ tenant_rows ''acme'' (rows ?db'))"
    unfolding no_collision_def by (rule inj_onI) (auto simp: log_all_def log_step_def store_event_def sample_event_def
      new_audit_event_def empty_db_def get_latest_event_def tenant_rows_def hashed_fields_def Let_def)
  moreover have "map_option event_hash (get_latest_event ?db ''acme'') = map_option event_hash (get_latest_event ?db' ''acme'')"
    "length (tenant_rows ''acme'' (rows ?db)) = 2" "length (tenant_rows ''acme'' (rows ?db')) = 1"
    "rev (tenant_rows ''acme'' (rows ?db)) ! 0 = rows ?db ! 1" "rev (tenant_rows ''acme'' (rows ?db')) ! 0 = rows ?db' ! 0"
    by code_simp+
  ultimately show ?thesis
    using verified_chains_agree [of event_id ?db "''acme''" ?db' 0] by simp
qed

text \<open>What verification does not detect: removing the oldest rows of the table. The head of a chain is not
  anchored, so the rest still verifies.\<close>

theorem removed_head_undetected:
  "is_intact (verify_chain digest ((log_all digest es)\<lparr>rows := drop k (rows (log_all digest es))\<rparr>) tenant None)"
  by (rule dropped_verifies [OF log_all_ok])

text \<open>C17. Paging: iterating over the filtered events page by page with the cursor ends within one page more than
  there are events and yields the whole sorted answer, every matching event exactly once.\<close>

theorem paged_export_complete:
  assumes "srt = TimestampAsc \<or> srt = TimestampDesc" "0 < page"
  shows "iter_filtered_events (Suc (count_events he (log_all digest es) f)) he (log_all digest es) f srt page None
    = Some (order_by srt (filter (event_where he f) (rows (log_all digest es))))"
proof -
  let ?db = "log_all digest es"
  have srt: "srt \<noteq> ByIdDesc" using assms(1) by auto
  have n: "length (all_events he ?db f srt) = count_events he ?db f"
    using srt by (simp add: all_events_def count_events_def order_by_key)
  have "iter_filtered_events (Suc (count_events he ?db f)) he ?db f srt page (cursor_at (all_events he ?db f srt) 0)
      = Some (drop 0 (all_events he ?db f srt))"
    using n by (intro iter_filtered_events_all [OF srt db_ok_distinct [OF log_all_ok] assms(2)]) simp_all
  then show ?thesis by (simp add: cursor_at_def all_events_def)
qed

abbreviation "every_event \<equiv> \<lparr>ef_tenant = None, ef_type = None, ef_operator = None, ef_from = None, ef_to = None,
  ef_entity = None, ef_max_row = None\<rparr>"

theorem paged_export_complete_witness:
  "map_option (map event_id) (iter_filtered_events 3 (\<lambda>_ _. False) sample_log every_event TimestampDesc 1 None)
     = Some [''e2'', ''e1'']"
proof -
  have "count_events (\<lambda>_ _. False) sample_log every_event = 2" by code_simp
  moreover have "map event_id (order_by TimestampDesc (filter (event_where (\<lambda>_ _. False) every_event) (rows sample_log)))
      = [''e2'', ''e1'']" by code_simp
  ultimately show ?thesis
    using paged_export_complete [of TimestampDesc 1 "\<lambda>_ _. False" event_id "[sample_event ''e1'' 1, sample_event ''e2'' 2]"
        every_event] by (simp add: eval_nat_numeral)
qed

section \<open>Classification, locales, checksums, write-back\<close>

text \<open>C18. Classification refines its specification: the action is the first of the precedence order
  \<open>BLOCK\<close>, \<open>ROUTE_LOCAL\<close>, \<open>ANONYMIZE\<close>, \<open>PASS\<close> for which some enabled rule matches some text node, and the
  default action if there is none, in whatever order the rules were loaded.\<close>

theorem classification_refines_precedence:
  "co_action (classify (make_engine rules dflt) nodes) = spec_action rules dflt nodes"
  by (rule classify_spec)

text \<open>C19. The sensitivity level of a request is at least the level of every detected entity type and at least what
  the client asserts, the client can only raise it, and the request is blocked exactly at the top level.\<close>

theorem sensitivity_level_sound:
  "(let r = service_classify m es cl
    in list_all (\<lambda>e. entity_level m e \<le> highest r) es
       \<and> (case cl of None \<Rightarrow> highest r = highest (service_classify m es None)
                   | Some l \<Rightarrow> highest r = max l (highest (service_classify m es None)))
       \<and> (handling_action r = ''block'' \<longleftrightarrow> highest r = HIGHLY_RESTRICTED))"
proof -
  have base: "list_all (\<lambda>e. entity_level m e \<le> highest (engine_classify m es)) es"
    using engine_classify_max [of es m] by (cases "es = []") (auto simp: list_all_iff)
  have top: "highest (service_classify m es cl) = (case cl of None \<Rightarrow> highest (engine_classify m es)
      | Some l \<Rightarrow> max l (highest (engine_classify m es)))" for cl
    by (auto simp: classify_with_client_override_def Let_def max_def split: option.split)
  have "highest (engine_classify m es) \<le> highest (service_classify m es cl)"
    unfolding top by (simp split: option.split)
  with base have "list_all (\<lambda>e. entity_level m e \<le> highest (service_classify m es cl)) es"
    unfolding list_all_iff by (meson order_trans)
  then show ?thesis
    unfolding Let_def using handling_block service_handling top by (simp split: option.split)
qed

text \<open>The check digit of the German tax id: a generated id validates, and changing one digit of a valid id
  gives an id that does not.\<close>

theorem steuer_id_detects_digit_error:
  assumes "list_all is_digit (pre @ c # post)" "is_digit d" "c \<noteq> d" "validate_steuer_id (pre @ c # post)"
  shows "\<not> validate_steuer_id (pre @ d # post)
    \<and> (case generate_steuer_id body of Inl _ \<Rightarrow> True | Inr s \<Rightarrow> validate_steuer_id s)"
  using steuer_id_single_digit [OF assms] generate_steuer_id_valid by (simp split: sum.split)

theorem steuer_id_detects_digit_error_witness: "\<not> validate_steuer_id ''12345678913''"
proof -
  have "generate_steuer_id ''1234567891'' = Inr ''12345678911''" by code_simp
  then have "validate_steuer_id (''1234567891'' @ CHR ''1'' # [])" using generate_steuer_id_valid by simp
  moreover have "list_all is_digit (''1234567891'' @ CHR ''1'' # [])" "is_digit (CHR ''3'')" by code_simp+
  ultimately show ?thesis
    using steuer_id_detects_digit_error [of "''1234567891''" "CHR ''1''" "[]" "CHR ''3''"] by simp
qed

text \<open>Every IBAN the generator builds passes the mod-97 check, for any bank code and account number.\<close>

theorem generated_iban_validates: "iban_mod97_valid (generate_iban_de blz account)"
  by (rule generate_iban_valid)

text \<open>Merging loses no entity type: every entity type of every negotiated bundle is in the merged set, with a
  configuration of that name taken from one of the bundles; the highest threshold wins.\<close>

theorem merge_keeps_entity_types:
  assumes "b \<in> set bs" "c \<in> set (entity_types b)"
  shows "\<exists>e. map_of (merge_configs u bs) (ec_name c) = Some e \<and> confidence_threshold c \<le> confidence_threshold e
     \<and> ec_name e = ec_name c \<and> (\<exists>b' \<in> set (u # bs). e \<in> set (entity_types b'))"
  by (rule merge_configs_properties [OF assms])

definition sample_config :: "rat \<Rightarrow> entity_config" where
  "sample_config t = \<lparr>ec_name = ''KVNR'', ec_tier = REGEX, confidence_threshold = t, ec_patterns = [],
     presidio_entities = [], ec_reversible = True\<rparr>"

definition german_bundle :: locale_bundle where
  "german_bundle = \<lparr>code = ''de-DE'', entity_types = [sample_config (1/2), sample_config (3/4)], checksum = None, checksums = []\<rparr>"

theorem merge_keeps_entity_types_witness:
  "map_option confidence_threshold (map_of (merge_configs sample_bundle [german_bundle]) ''KVNR'') = Some (3/4)"
proof -
  have "\<exists>e. map_of (merge_configs sample_bundle [german_bundle]) (ec_name (sample_config (3/4))) = Some e
     \<and> confidence_threshold (sample_config (3/4)) \<le> confidence_threshold e
     \<and> ec_name e = ec_name (sample_config (3/4)) \<and> (\<exists>b' \<in> set [sample_bundle, german_bundle]. e \<in> set (entity_types b'))"
    by (rule merge_keeps_entity_types [of german_bundle]) (simp_all add: german_bundle_def)
  then show ?thesis by (auto simp: sample_bundle_def german_bundle_def sample_config_def)
qed

text \<open>The analyzer is asked in each language once, in at least one, only in configured languages or English, and
  for every negotiated bundle in its own language if that is configured and in English otherwise.\<close>

theorem language_plan_covers_bundles:
  "(let ls = languages (plan_presidio_languages codes allowed)
    in distinct ls \<and> ls \<noteq> [] \<and> set ls \<subseteq> set (map casefold allowed) \<union> {DEFAULT_PRESIDIO_LANGUAGE}
       \<and> list_all (\<lambda>c. List.member ls (if List.member (map casefold allowed) (bundle_language c) then bundle_language c
                                        else DEFAULT_PRESIDIO_LANGUAGE)) codes)"
  using plan_properties [of codes allowed] by (simp add: Let_def list_all_iff)

text \<open>The write-back of the tokenization stage is total: for every request body and any new text for each node
  the extractor finds, all paths can be written, and afterwards each node's path reads its new text.\<close>

theorem write_back_total:
  "\<exists>doc. write_nodes (JObj body) (node_writes (extract_text body) (map f (extract_text body)) ds) = Some doc
     \<and> list_all (\<lambda>n. read_keys doc (node_keys n) = Some (JStr (f n))) (extract_text body)"
proof -
  let ?ns = "extract_text body" and ?ws = "node_writes (extract_text body) (map f (extract_text body)) ds"
  have "well_addressed (JObj body) (map fst ?ws)"
    by (simp add: node_writes_fst extract_text_addressed)
  from write_nodes_total [OF this] obtain doc where doc: "write_nodes (JObj body) ?ws = Some doc"
    "\<forall>(n, t, _) \<in> set ?ws. read_keys doc (node_keys n) = Some (JStr t)" by blast
  have "read_keys doc (node_keys (?ns ! k)) = Some (JStr (f (?ns ! k)))" if k: "k < length ?ns" for k
  proof -
    obtain b where "(?ns ! k, map f ?ns ! k, b) \<in> set ?ws" using node_writes_nth [of "map f ?ns" ?ns k ds] k by auto
    with doc(2) k show ?thesis by fastforce
  qed
  with doc(1) show ?thesis by (auto simp: list_all_length)
qed

end
